(* ===== verification/JsPrelude.thy ===== *)
theory JsPrelude
  imports Main "HOL-Library.AList" "HOL-Library.Char_ord" "HOL-Library.List_Lexorder"
    "HOL-Library.Multiset" "HOL-Library.Sublist"
begin

text \<open>
  The part of the JavaScript standard library that the program uses, as HOL functions, with the
  lemmas the components share.

  \<^item> A string is a list of 8-bit characters; \<open><\<close> and the argument-less \<open>sort()\<close> compare character
    codes lexicographically (HOL's \<open>List_Lexorder\<close> over \<open>Char_ord\<close>).
  \<^item> A \<open>Map\<close> is an association list in insertion order without duplicate keys: \<open>set\<close> on a present
    key keeps its place (\<open>AList.update\<close>), \<open>delete\<close> removes the entry (\<open>AList.delete\<close>).
  \<^item> A \<open>Set\<close> is a distinct list in insertion order.
  \<^item> \<open>sort(cmp)\<close> is stable insertion by the comparator.
\<close>

named_theorems js_map "lookups, keys and well-formedness of insertion-ordered maps and sets"
named_theorems js_text "splitting, joining and printing of strings"

section \<open>Errors\<close>

text \<open>Projections of a fallible result: the code's \<open>[value, err]\<close> pairs.\<close>

abbreviation is_ok :: "'e + 'a \<Rightarrow> bool" where
  "is_ok r \<equiv> (case r of Inl _ \<Rightarrow> False | Inr _ \<Rightarrow> True)"

section \<open>Insertion-ordered maps\<close>

type_synonym ('k, 'v) jmap = "('k \<times> 'v) list"

abbreviation jm_ok :: "('k, 'v) jmap \<Rightarrow> bool" where
  "jm_ok m \<equiv> distinct (map fst m)"

abbreviation jm_get :: "('k, 'v) jmap \<Rightarrow> 'k \<Rightarrow> 'v option" where
  "jm_get m k \<equiv> map_of m k"

abbreviation jm_has :: "('k, 'v) jmap \<Rightarrow> 'k \<Rightarrow> bool" where
  "jm_has m k \<equiv> k \<in> fst ` set m"

abbreviation jm_set :: "'k \<Rightarrow> 'v \<Rightarrow> ('k, 'v) jmap \<Rightarrow> ('k, 'v) jmap" where
  "jm_set k v m \<equiv> AList.update k v m"

abbreviation jm_del :: "'k \<Rightarrow> ('k, 'v) jmap \<Rightarrow> ('k, 'v) jmap" where
  "jm_del k m \<equiv> AList.delete k m"

abbreviation jm_keys :: "('k, 'v) jmap \<Rightarrow> 'k list" where
  "jm_keys m \<equiv> map fst m"

abbreviation jm_values :: "('k, 'v) jmap \<Rightarrow> 'v list" where
  "jm_values m \<equiv> map snd m"

lemma jm_get_set [simp, js_map]: "jm_get (jm_set k v m) = (jm_get m)(k \<mapsto> v)"
  by (rule update_conv')

lemma jm_get_del [simp, js_map]: "jm_get (jm_del k m) = (jm_get m)(k := None)"
  by (rule delete_conv')

lemma jm_ok_set [simp, intro, js_map]: "jm_ok m \<Longrightarrow> jm_ok (jm_set k v m)"
  by (rule distinct_update)

lemma jm_ok_del [simp, intro, js_map]: "jm_ok m \<Longrightarrow> jm_ok (jm_del k m)"
  by (rule distinct_delete)

lemma jm_has_iff [js_map]: "jm_has m k \<longleftrightarrow> jm_get m k \<noteq> None"
  by (metis map_of_eq_None_iff)

lemma jm_get_mem [js_map]: "jm_ok m \<Longrightarrow> jm_get m k = Some v \<longleftrightarrow> (k, v) \<in> set m"
  by (simp add: map_of_eq_Some_iff)

lemma jm_set_fresh [js_map]: "\<not> jm_has m k \<Longrightarrow> jm_set k v m = m @ [(k, v)]"
  by (induction m) auto

lemma jm_keys_set [js_map]: "set (jm_keys (jm_set k v m)) = insert k (set (jm_keys m))"
  by (induction m) auto

lemma jm_set_mem: "p \<in> set (jm_set k v m) \<Longrightarrow> p = (k, v) \<or> p \<in> set m"
  by (induction m) (auto split: if_splits)

lemma jm_keys_del [js_map]: "set (jm_keys (jm_del k m)) = set (jm_keys m) - {k}"
  by (induction m) auto

lemma jm_keys_set_present [js_map]: "jm_has m k \<Longrightarrow> jm_keys (jm_set k v m) = jm_keys m"
  by (induction m) auto

lemma jm_set_same [js_map]: "jm_get m k = Some v \<Longrightarrow> jm_set k v m = m"
  by (induction m) (auto split: if_splits)

text \<open>Filling an empty map from an iterable of entries, as \<open>new Map(entries)\<close> does.\<close>

definition jm_of :: "('k \<times> 'v) list \<Rightarrow> ('k, 'v) jmap" where
  "jm_of es = fold (\<lambda>(k, v) m. jm_set k v m) es []"

lemma fold_jm_set_get:
  "jm_get (fold (\<lambda>(k, v) m. jm_set k v m) es m) = jm_get m ++ map_of (rev es)"
  by (induction es arbitrary: m) (auto simp: fun_eq_iff map_add_def split: option.split)

lemma fold_jm_set_ok: "jm_ok m \<Longrightarrow> jm_ok (fold (\<lambda>(k, v) m. jm_set k v m) es m)"
  by (induction es arbitrary: m) (auto simp: distinct_update)

lemma jm_ok_of [simp, js_map]: "jm_ok (jm_of es)"
  by (simp add: jm_of_def fold_jm_set_ok)

lemma jm_get_of [js_map]: "jm_get (jm_of es) = map_of (rev es)"
  by (simp add: jm_of_def fold_jm_set_get)

section \<open>Insertion-ordered sets\<close>

definition js_add :: "'a \<Rightarrow> 'a list \<Rightarrow> 'a list" where
  "js_add x s = (if x \<in> set s then s else s @ [x])"

abbreviation js_del :: "'a \<Rightarrow> 'a list \<Rightarrow> 'a list" where
  "js_del x s \<equiv> removeAll x s"

abbreviation js_add_all :: "'a list \<Rightarrow> 'a list \<Rightarrow> 'a list" where
  "js_add_all xs s \<equiv> fold js_add xs s"

lemma set_js_add [simp, js_map]: "set (js_add x s) = insert x (set s)"
  by (auto simp: js_add_def)

lemma distinct_js_add [simp, intro, js_map]: "distinct s \<Longrightarrow> distinct (js_add x s)"
  by (simp add: js_add_def)

lemma set_js_add_all [simp, js_map]: "set (js_add_all xs s) = set xs \<union> set s"
  by (induction xs arbitrary: s) auto

lemma distinct_js_add_all [simp, intro, js_map]: "distinct s \<Longrightarrow> distinct (js_add_all xs s)"
  by (induction xs arbitrary: s) auto

lemma js_add_not_Nil [simp]: "js_add x s \<noteq> []"
  by (auto simp: js_add_def)

section \<open>Stable sorting with a comparator\<close>

text \<open>
  \<open>Array.prototype.sort(cmp)\<close> is stable; for a comparator that is a total preorder the sorted,
  stable permutation is unique, and insertion from the right computes it.
\<close>

fun insert_cmp :: "('a \<Rightarrow> 'a \<Rightarrow> int) \<Rightarrow> 'a \<Rightarrow> 'a list \<Rightarrow> 'a list" where
  "insert_cmp cmp x [] = [x]"
| "insert_cmp cmp x (y # ys) = (if cmp x y \<le> 0 then x # y # ys else y # insert_cmp cmp x ys)"

definition js_sort :: "('a \<Rightarrow> 'a \<Rightarrow> int) \<Rightarrow> 'a list \<Rightarrow> 'a list" where
  "js_sort cmp xs = foldr (insert_cmp cmp) xs []"

definition sorted_cmp :: "('a \<Rightarrow> 'a \<Rightarrow> int) \<Rightarrow> 'a list \<Rightarrow> bool" where
  "sorted_cmp cmp = sorted_wrt (\<lambda>x y. cmp x y \<le> 0)"

lemma mset_insert_cmp [simp]: "mset (insert_cmp cmp x xs) = add_mset x (mset xs)"
  by (induction xs) auto

lemma mset_js_sort [simp]: "mset (js_sort cmp xs) = mset xs"
  unfolding js_sort_def by (induction xs) auto

lemma set_js_sort [simp]: "set (js_sort cmp xs) = set xs"
  by (metis mset_js_sort set_mset_mset)

lemma length_js_sort [simp]: "length (js_sort cmp xs) = length xs"
  by (metis mset_js_sort size_mset)

lemma js_sort_Nil [simp]: "js_sort cmp [] = []"
  by (simp add: js_sort_def)

lemma js_sort_Cons: "js_sort cmp (x # xs) = insert_cmp cmp x (js_sort cmp xs)"
  by (simp add: js_sort_def)

text \<open>The law a comparator must keep for a sort to be meaningful, as an interface.\<close>

locale comparator =
  fixes cmp :: "'a \<Rightarrow> 'a \<Rightarrow> int"
  assumes cmp_total: "cmp x y \<le> 0 \<or> cmp y x \<le> 0"
    and cmp_trans: "cmp x y \<le> 0 \<Longrightarrow> cmp y z \<le> 0 \<Longrightarrow> cmp x z \<le> 0"
begin

lemma sorted_insert_cmp: "sorted_cmp cmp xs \<Longrightarrow> sorted_cmp cmp (insert_cmp cmp x xs)"
proof (induction xs)
  case (Cons y ys)
  have mem: "set (insert_cmp cmp x ys) = insert x (set ys)"
    by (metis mset_insert_cmp set_mset_add_mset_insert set_mset_mset)
  show ?case
  proof (cases "cmp x y \<le> 0")
    case True
    with Cons.prems show ?thesis by (auto simp: sorted_cmp_def intro: cmp_trans)
  next
    case False
    then have "cmp y x \<le> 0" using cmp_total by blast
    with False Cons mem show ?thesis by (auto simp: sorted_cmp_def)
  qed
qed (simp add: sorted_cmp_def)

lemma sorted_js_sort: "sorted_cmp cmp (js_sort cmp xs)"
  by (induction xs) (auto simp: js_sort_Cons sorted_insert_cmp, simp add: sorted_cmp_def)

end

text \<open>The order of \<open>sort()\<close> without a comparator: by code units.\<close>

definition code_unit_cmp :: "string \<Rightarrow> string \<Rightarrow> int" where
  "code_unit_cmp s t = (if s < t then -1 else if t < s then 1 else 0)"

interpretation code_unit: comparator code_unit_cmp
  by unfold_locales (auto simp: code_unit_cmp_def split: if_splits)

lemma js_sort_sorted: "sorted_cmp cmp xs \<Longrightarrow> js_sort cmp xs = xs"
proof (induction xs)
  case (Cons x xs)
  then have "js_sort cmp xs = xs" by (simp add: sorted_cmp_def)
  with Cons.prems show ?case
    by (cases xs) (auto simp: js_sort_Cons sorted_cmp_def)
qed simp

lemma map_insert_cmp:
  "map f (insert_cmp (\<lambda>a b. c (f a) (f b)) x xs) = insert_cmp c (f x) (map f xs)"
  by (induction xs) auto

lemma map_js_sort: "map f (js_sort (\<lambda>a b. c (f a) (f b)) xs) = js_sort c (map f xs)"
  by (induction xs) (auto simp: js_sort_Cons map_insert_cmp)

section \<open>Strings\<close>

text \<open>\<open>parts.join(sep)\<close> and \<open>s.split(c)\<close> for a one-character separator.\<close>

fun js_join :: "string \<Rightarrow> string list \<Rightarrow> string" where
  "js_join sep [] = []"
| "js_join sep [x] = x"
| "js_join sep (x # y # xs) = x @ sep @ js_join sep (y # xs)"

fun js_split :: "char \<Rightarrow> string \<Rightarrow> string list" where
  "js_split c [] = [[]]"
| "js_split c (x # xs) =
     (if x = c then [] # js_split c xs
      else (case js_split c xs of [] \<Rightarrow> [[x]] | p # ps \<Rightarrow> (x # p) # ps))"

lemma js_split_not_Nil [simp, js_text]: "js_split c s \<noteq> []"
  by (cases s) (auto split: list.splits)

lemma js_join_Cons: "xs \<noteq> [] \<Longrightarrow> js_join sep (x # xs) = x @ sep @ js_join sep xs"
  by (cases xs) auto

lemma js_join_split [js_text]: "js_join [c] (js_split c s) = s"
proof (induction s)
  case (Cons x s)
  obtain p ps where "js_split c s = p # ps" by (cases "js_split c s") auto
  with Cons show ?case by (cases ps) auto
qed simp

lemma js_split_no_sep [js_text]: "c \<notin> set s \<Longrightarrow> js_split c s = [s]"
  by (induction s) auto

lemma js_split_append [js_text]: "c \<notin> set p \<Longrightarrow> js_split c (p @ c # s) = p # js_split c s"
  by (induction p) auto

lemma js_split_join [js_text]:
  "ps \<noteq> [] \<Longrightarrow> \<forall>p \<in> set ps. c \<notin> set p \<Longrightarrow> js_split c (js_join [c] ps) = ps"
  by (induction "[c]" ps rule: js_join.induct) (auto simp: js_split_append js_split_no_sep)

lemma js_split_parts [js_text]: "p \<in> set (js_split c s) \<Longrightarrow> c \<notin> set p \<and> set p \<subseteq> set s"
  by (induction s arbitrary: p) (auto split: if_splits list.splits, fastforce+)

lemma js_split_cover [js_text]: "x \<in> set s \<Longrightarrow> x = c \<or> (\<exists>p \<in> set (js_split c s). x \<in> set p)"
proof (induction s)
  case (Cons y s)
  then show ?case by (cases "js_split c s") auto
qed simp

text \<open>\<open>s.trim()\<close>: the white space and line terminators among the first 256 code units.\<close>

definition js_space :: "char \<Rightarrow> bool" where
  "js_space c \<longleftrightarrow> of_char c \<in> {9 :: nat, 10, 11, 12, 13, 32, 160}"

definition js_trim :: "string \<Rightarrow> string" where
  "js_trim s = rev (dropWhile js_space (rev (dropWhile js_space s)))"

lemma set_js_trim: "set (js_trim s) \<subseteq> set s"
  unfolding js_trim_def by (auto dest!: set_dropWhileD)

text \<open>\<open>String(n)\<close> of an integer, in decimal.\<close>

definition digit_char :: "nat \<Rightarrow> char" where
  "digit_char d = char_of (48 + d)"

fun show_nat :: "nat \<Rightarrow> string" where
  "show_nat n = (if n < 10 then [digit_char n] else show_nat (n div 10) @ [digit_char (n mod 10)])"

declare show_nat.simps [simp del]

definition show_int :: "int \<Rightarrow> string" where
  "show_int i = (if i < 0 then CHR ''-'' # show_nat (nat (- i)) else show_nat (nat i))"

definition is_digit :: "char \<Rightarrow> bool" where
  "is_digit c \<longleftrightarrow> CHR ''0'' \<le> c \<and> c \<le> CHR ''9''"

definition digit_val :: "char \<Rightarrow> nat" where
  "digit_val c = of_char c - 48"

lemma of_char_digit [simp]: "d < 10 \<Longrightarrow> of_char (digit_char d) = 48 + d"
  by (simp add: digit_char_def)

lemma is_digit_digit_char [simp, js_text]: "d < 10 \<Longrightarrow> is_digit (digit_char d)"
  by (simp add: is_digit_def less_eq_char_def)

lemma digit_val_digit_char [simp, js_text]: "d < 10 \<Longrightarrow> digit_val (digit_char d) = d"
  by (simp add: digit_val_def)

lemma digit_val_less [js_text]: "is_digit c \<Longrightarrow> digit_val c < 10"
  by (auto simp: is_digit_def digit_val_def less_eq_char_def)

lemma show_nat_not_Nil [simp, js_text]: "show_nat n \<noteq> []"
  by (subst show_nat.simps) simp

lemma show_nat_digits [js_text]: "\<forall>c \<in> set (show_nat n). is_digit c"
proof (induction n rule: show_nat.induct)
  case (1 n)
  then show ?case by (subst show_nat.simps) auto
qed

text \<open>The value of a digit string, most significant digit first.\<close>

definition digits_val :: "nat \<Rightarrow> string \<Rightarrow> nat" where
  "digits_val n s = foldl (\<lambda>a c. 10 * a + digit_val c) n s"

lemma digits_val_Nil [simp]: "digits_val n [] = n"
  by (simp add: digits_val_def)

lemma digits_val_Cons [simp]: "digits_val n (c # s) = digits_val (10 * n + digit_val c) s"
  by (simp add: digits_val_def)

lemma digits_val_append [simp]: "digits_val n (s @ t) = digits_val (digits_val n s) t"
  by (simp add: digits_val_def)

lemma digits_val_mono: "n \<le> digits_val n s"
proof (induction s arbitrary: n)
  case (Cons c s)
  have "10 * n + digit_val c \<le> digits_val (10 * n + digit_val c) s" by (rule Cons.IH)
  then show ?case by simp
qed simp

lemma digits_val_show_nat [simp, js_text]: "digits_val 0 (show_nat n) = n"
proof (induction n rule: show_nat.induct)
  case (1 n)
  then show ?case by (subst show_nat.simps) auto
qed

lemma show_nat_inj [simp]: "show_nat m = show_nat n \<longleftrightarrow> m = n"
  by (metis digits_val_show_nat)

end
