(* ===== verification/Strconv.thy ===== *)
theory Strconv
  imports JsPrelude
begin

text \<open>
  \<open>src/go/strconv.ts\<close>: the port of Go's integer parsing, with \<open>bigint\<close> results as \<open>int\<close>, and of
  \<open>strconv.Quote\<close>. A result \<open>[value, err]\<close> is a pair: on a range error the code returns the
  saturated value together with the error. The lemmas give its meaning for decimal strings:
  what is accepted, what value is returned, and the round trip with decimal printing.
\<close>

datatype str_err = ErrSyntax | ErrRange | ErrBase int | ErrBitSize int

text \<open>\<open>NumError\<close>: the function, the input and the cause.\<close>

datatype num_error = NumError string string str_err

definition int_size :: int where
  "int_size = 64"

definition max_uint64 :: int where
  "max_uint64 = 2 ^ 64 - 1"

definition lower_char :: "char \<Rightarrow> char" where
  "lower_char c = (if CHR ''A'' \<le> c \<and> c \<le> CHR ''Z'' then char_of (of_char c + (32 :: nat)) else c)"

section \<open>Parsing unsigned integers\<close>

text \<open>One character of the loop: \<open>None\<close> for a character that is no digit of any base.\<close>

definition char_digit :: "char \<Rightarrow> nat option" where
  "char_digit c =
     (if CHR ''0'' \<le> c \<and> c \<le> CHR ''9'' then Some (of_char c - 48)
      else if CHR ''a'' \<le> lower_char c \<and> lower_char c \<le> CHR ''z''
        then Some (of_char (lower_char c) - 97 + 10)
      else None)"

text \<open>
  The loop over the characters, with its early returns as \<open>Inl\<close>: \<open>base0\<close> allows underscores,
  which are counted as seen.
\<close>

fun parse_uint_loop ::
  "bool \<Rightarrow> int \<Rightarrow> int \<Rightarrow> int \<Rightarrow> string \<Rightarrow> bool \<Rightarrow> int \<Rightarrow> (int \<times> str_err) + (int \<times> bool)" where
  "parse_uint_loop base0 base cutoff maxVal [] underscores n = Inr (n, underscores)"
| "parse_uint_loop base0 base cutoff maxVal (c # s) underscores n =
     (if c = CHR ''_'' \<and> base0 then parse_uint_loop base0 base cutoff maxVal s True n
      else case char_digit c of
        None \<Rightarrow> Inl (0, ErrSyntax)
      | Some d \<Rightarrow>
          if int d \<ge> base then Inl (0, ErrSyntax)
          else if n \<ge> cutoff then Inl (maxVal, ErrRange)
          else let n' = n * base; n1 = n' + int d in
            if n1 < n' \<or> n1 > maxVal then Inl (maxVal, ErrRange)
            else parse_uint_loop base0 base cutoff maxVal s underscores n1)"

text \<open>\<open>underscoreOK\<close>: \<open>saw\<close> is the class of the last character seen.\<close>

fun underscore_loop :: "bool \<Rightarrow> string \<Rightarrow> char \<Rightarrow> bool" where
  "underscore_loop hex [] saw = (saw \<noteq> CHR ''_'')"
| "underscore_loop hex (c # s) saw =
     (if (CHR ''0'' \<le> c \<and> c \<le> CHR ''9'') \<or>
         (hex \<and> CHR ''a'' \<le> lower_char c \<and> lower_char c \<le> CHR ''f'')
      then underscore_loop hex s CHR ''0''
      else if c = CHR ''_'' then
        (if saw \<noteq> CHR ''0'' then False else underscore_loop hex s CHR ''_'')
      else underscore_loop hex s CHR ''!'')"

definition underscore_ok :: "string \<Rightarrow> bool" where
  "underscore_ok s0 =
     (let s = (case s0 of c # t \<Rightarrow> if c = CHR ''-'' \<or> c = CHR ''+'' then t else s0 | [] \<Rightarrow> s0) in
      case s of
        z # b # t \<Rightarrow>
          if z = CHR ''0'' \<and> lower_char b \<in> {CHR ''b'', CHR ''o'', CHR ''x''}
          then underscore_loop (lower_char b = CHR ''x'') t CHR ''0''
          else underscore_loop False s CHR ''^''
      | _ \<Rightarrow> underscore_loop False s CHR ''^'')"

text \<open>The base and the digits left when the base is inferred from a prefix (\<open>base === 0\<close>).\<close>

definition infer_base :: "string \<Rightarrow> int \<times> string" where
  "infer_base s =
     (case s of
        z # t \<Rightarrow>
          if z = CHR ''0'' then
            (let b = (case t of x # _ \<Rightarrow> lower_char x | [] \<Rightarrow> z) in
             if length s \<ge> 3 \<and> b = CHR ''b'' then (2, drop 2 s)
             else if length s \<ge> 3 \<and> b = CHR ''o'' then (8, drop 2 s)
             else if length s \<ge> 3 \<and> b = CHR ''x'' then (16, drop 2 s)
             else (8, drop 1 s))
          else (10, s)
      | [] \<Rightarrow> (10, s))"

definition parse_uint_digits :: "bool \<Rightarrow> string \<Rightarrow> int \<Rightarrow> int \<Rightarrow> string \<Rightarrow> int \<times> str_err option" where
  "parse_uint_digits base0 s base bitSize0 s0 =
     (let bitSize = (if bitSize0 = 0 then int_size else bitSize0) in
      if bitSize < 0 \<or> bitSize > 64 then (0, Some (ErrBitSize bitSize0))
      else
        let cutoff = max_uint64 div base + 1; maxVal = 2 ^ nat bitSize - 1 in
        case parse_uint_loop base0 base cutoff maxVal s False 0 of
          Inl (v, e) \<Rightarrow> (v, Some e)
        | Inr (n, underscores) \<Rightarrow>
            if underscores \<and> \<not> underscore_ok s0 then (0, Some ErrSyntax) else (n, None))"

definition parse_uint_internal :: "string \<Rightarrow> int \<Rightarrow> int \<Rightarrow> int \<times> str_err option" where
  "parse_uint_internal s base bitSize =
     (if s = [] then (0, Some ErrSyntax)
      else if 2 \<le> base \<and> base \<le> 36 then parse_uint_digits False s base bitSize s
      else if base = 0 then
        (case infer_base s of (b, t) \<Rightarrow> parse_uint_digits True t b bitSize s)
      else (0, Some (ErrBase base)))"

section \<open>Parsing signed integers\<close>

definition parse_int_internal :: "string \<Rightarrow> int \<Rightarrow> int \<Rightarrow> int \<times> str_err option" where
  "parse_int_internal s base bitSize0 =
     (if s = [] then (0, Some ErrSyntax)
      else
        let neg = (hd s = CHR ''-'');
            t = (if hd s = CHR ''+'' \<or> hd s = CHR ''-'' then tl s else s) in
        case parse_uint_internal t base bitSize0 of (un, err) \<Rightarrow>
          if err \<noteq> None \<and> err \<noteq> Some ErrRange then (0, err)
          else
            let bitSize = (if bitSize0 = 0 then int_size else bitSize0);
                cutoff = 2 ^ nat (bitSize - 1) in
            if \<not> neg \<and> un \<ge> cutoff then (cutoff - 1, Some ErrRange)
            else if neg \<and> un > cutoff then (- cutoff, Some ErrRange)
            else (if neg then - un else un, None))"

text \<open>\<open>toError\<close> wraps the cause with the function's name and the input.\<close>

definition to_error :: "string \<Rightarrow> string \<Rightarrow> str_err \<Rightarrow> num_error" where
  "to_error fn s e = NumError fn s e"

definition go_parse_uint :: "string \<Rightarrow> int \<Rightarrow> int \<Rightarrow> int \<times> num_error option" where
  "go_parse_uint s base bitSize =
     (case parse_uint_internal s base bitSize of
        (x, Some e) \<Rightarrow> (x, Some (to_error ''ParseUint'' s e))
      | (x, None) \<Rightarrow> (x, None))"

definition go_parse_int :: "string \<Rightarrow> int \<Rightarrow> int \<Rightarrow> int \<times> num_error option" where
  "go_parse_int s base bitSize =
     (case parse_int_internal s base bitSize of
        (x, Some e) \<Rightarrow> (x, Some (to_error ''ParseInt'' s e))
      | (x, None) \<Rightarrow> (x, None))"

section \<open>Quoting\<close>

definition hex_digit :: "nat \<Rightarrow> char" where
  "hex_digit d = (if d < 10 then char_of (48 + d) else char_of (87 + d))"

definition append_escaped_rune :: "char \<Rightarrow> string" where
  "append_escaped_rune r =
     (if r = char_of (34 :: nat) then [char_of (92 :: nat), char_of (34 :: nat)]
      else if r = char_of (92 :: nat) then [char_of (92 :: nat), char_of (92 :: nat)]
      else if r = char_of (7 :: nat) then [char_of (92 :: nat), CHR ''a'']
      else if r = char_of (8 :: nat) then [char_of (92 :: nat), CHR ''b'']
      else if r = char_of (12 :: nat) then [char_of (92 :: nat), CHR ''f'']
      else if r = char_of (10 :: nat) then [char_of (92 :: nat), CHR ''n'']
      else if r = char_of (13 :: nat) then [char_of (92 :: nat), CHR ''r'']
      else if r = char_of (9 :: nat) then [char_of (92 :: nat), CHR ''t'']
      else if r = char_of (11 :: nat) then [char_of (92 :: nat), CHR ''v'']
      else let codePoint = of_char r :: nat in
        if codePoint < 32 \<or> codePoint = 127
        then [char_of (92 :: nat), CHR ''x'', hex_digit (codePoint div 16), hex_digit (codePoint mod 16)]
        else [r])"

definition go_quote :: "string \<Rightarrow> string" where
  "go_quote s = [char_of (34 :: nat)] @ concat (map append_escaped_rune s) @ [char_of (34 :: nat)]"

section \<open>Decimal strings\<close>

lemma char_digit_digit: "is_digit c \<Longrightarrow> char_digit c = Some (digit_val c)"
  by (simp add: char_digit_def is_digit_def digit_val_def)

lemma char_digit_not_digit: "\<not> is_digit c \<Longrightarrow> char_digit c = Some d \<Longrightarrow> 10 \<le> d"
  by (auto simp: char_digit_def is_digit_def split: if_splits)

definition decimal_cutoff :: int where
  "decimal_cutoff = max_uint64 div 10 + 1"

lemma decimal_cutoff_bound: "n \<ge> decimal_cutoff \<Longrightarrow> n * 10 > max_uint64"
  by (simp add: decimal_cutoff_def max_uint64_def)

text \<open>
  The loop in base ten: a non-digit is a syntax error unless an overflow came first; otherwise
  the result is the value, or saturation at \<open>maxVal\<close>.
\<close>

lemma parse_uint_loop_decimal:
  assumes "maxVal \<le> max_uint64" and "int n \<le> maxVal" and "\<forall>c \<in> set s. is_digit c"
  shows "parse_uint_loop False 10 decimal_cutoff maxVal s u (int n) =
    (if int (digits_val n s) \<le> maxVal then Inr (int (digits_val n s), u)
     else Inl (maxVal, ErrRange))"
  using assms(2,3)
proof (induction s arbitrary: n)
  case (Cons c s)
  let ?n1 = "10 * n + digit_val c"
  have c: "char_digit c = Some (digit_val c)" "\<not> int (digit_val c) \<ge> 10"
    using Cons.prems digit_val_less [of c] by (auto simp: char_digit_digit)
  have n1: "int ?n1 = int n * 10 + int (digit_val c)" by simp
  show ?case
  proof (cases "int ?n1 \<le> maxVal")
    case True
    then have "\<not> int n \<ge> decimal_cutoff"
      using decimal_cutoff_bound [of "int n"] assms(1) n1 by linarith
    moreover have "parse_uint_loop False 10 decimal_cutoff maxVal s u (int ?n1) =
      (if int (digits_val ?n1 s) \<le> maxVal then Inr (int (digits_val ?n1 s), u)
       else Inl (maxVal, ErrRange))"
      using Cons.IH [of ?n1] Cons.prems True by simp
    ultimately show ?thesis using c n1 True by (simp add: Let_def mult.commute add.commute)
  next
    case False
    then have "\<not> int (digits_val ?n1 s) \<le> maxVal"
      using digits_val_mono [of ?n1 s] by linarith
    with False c n1 show ?thesis by (simp add: Let_def)
  qed
qed simp

lemma parse_uint_loop_syntax:
  assumes "\<not> (\<forall>c \<in> set s. is_digit c)"
  shows "\<exists>v e. parse_uint_loop False 10 cutoff maxVal s u n = Inl (v, e)"
  using assms
proof (induction s arbitrary: n)
  case (Cons c s)
  then show ?case
    by (auto simp: Let_def char_digit_digit dest: char_digit_not_digit split: option.splits)
qed simp

lemma parse_uint_decimal:
  assumes "s \<noteq> []" and "\<forall>c \<in> set s. is_digit c"
  shows "parse_uint_internal s 10 64 =
    (if int (digits_val 0 s) \<le> max_uint64 then (int (digits_val 0 s), None)
     else (max_uint64, Some ErrRange))"
  using assms parse_uint_loop_decimal [of max_uint64 0 s False]
  by (simp add: parse_uint_internal_def parse_uint_digits_def decimal_cutoff_def [symmetric] Let_def)
    (simp add: max_uint64_def)

lemma parse_uint_not_decimal:
  assumes "s = [] \<or> \<not> (\<forall>c \<in> set s. is_digit c)"
  shows "\<exists>v e. parse_uint_internal s 10 64 = (v, Some e)"
proof (cases "s = []")
  case False
  with assms obtain v e
    where "parse_uint_loop False 10 (max_uint64 div 10 + 1) (2 ^ 64 - 1) s False 0 = Inl (v, e)"
    using parse_uint_loop_syntax [of s "max_uint64 div 10 + 1" "2 ^ 64 - 1" False 0] by auto
  with False show ?thesis by (simp add: parse_uint_internal_def parse_uint_digits_def Let_def)
qed (simp add: parse_uint_internal_def)

text \<open>
  What \<open>parseInt(s, 10, 64)\<close> accepts: an optional sign and at least one digit, with the value in
  the 64-bit signed range.
\<close>

definition unsigned_part :: "string \<Rightarrow> string" where
  "unsigned_part s = (if s \<noteq> [] \<and> (hd s = CHR ''+'' \<or> hd s = CHR ''-'') then tl s else s)"

definition is_decimal :: "string \<Rightarrow> bool" where
  "is_decimal s \<longleftrightarrow> unsigned_part s \<noteq> [] \<and> (\<forall>c \<in> set (unsigned_part s). is_digit c)"

definition decimal_val :: "string \<Rightarrow> int" where
  "decimal_val s =
     (if s \<noteq> [] \<and> hd s = CHR ''-'' then - int (digits_val 0 (unsigned_part s))
      else int (digits_val 0 (unsigned_part s)))"

definition in_int64 :: "int \<Rightarrow> bool" where
  "in_int64 i \<longleftrightarrow> - (2 ^ 63) \<le> i \<and> i < 2 ^ 63"

lemma parse_int_internal_decimal:
  assumes "is_decimal s"
  shows "parse_int_internal s 10 64 =
    (if in_int64 (decimal_val s) then (decimal_val s, None)
     else if decimal_val s < 0 then (- (2 ^ 63), Some ErrRange)
     else (2 ^ 63 - 1, Some ErrRange))"
proof -
  have "s \<noteq> []" using assms by (auto simp: is_decimal_def unsigned_part_def)
  moreover have "parse_uint_internal (unsigned_part s) 10 64 =
    (if int (digits_val 0 (unsigned_part s)) \<le> max_uint64
     then (int (digits_val 0 (unsigned_part s)), None) else (max_uint64, Some ErrRange))"
    using assms by (intro parse_uint_decimal) (auto simp: is_decimal_def)
  ultimately show ?thesis
    by (auto simp: parse_int_internal_def unsigned_part_def decimal_val_def in_int64_def Let_def
        max_uint64_def split: if_splits)
qed

lemma parse_uint_loop_error:
  "parse_uint_loop base0 base cutoff maxVal s u n = Inl (v, e) \<Longrightarrow>
    e = ErrSyntax \<and> v = 0 \<or> e = ErrRange \<and> v = maxVal"
  by (induction base0 base cutoff maxVal s u n rule: parse_uint_loop.induct)
    (auto simp: Let_def split: if_splits option.splits)

lemma parse_uint_range_error:
  "parse_uint_internal s 10 64 = (v, Some ErrRange) \<Longrightarrow> v = max_uint64"
  by (auto simp: parse_uint_internal_def parse_uint_digits_def Let_def max_uint64_def
      split: if_splits sum.splits dest!: parse_uint_loop_error)

lemma parse_int_internal_not_decimal:
  assumes "\<not> is_decimal s"
  shows "\<exists>v e. parse_int_internal s 10 64 = (v, Some e)"
proof (cases "s = []")
  case False
  obtain v e where u: "parse_uint_internal (unsigned_part s) 10 64 = (v, Some e)"
    using assms parse_uint_not_decimal [of "unsigned_part s"] by (auto simp: is_decimal_def)
  then have "e = ErrRange \<Longrightarrow> v = max_uint64" by (auto dest: parse_uint_range_error)
  with u False show ?thesis
    by (auto simp: parse_int_internal_def unsigned_part_def Let_def max_uint64_def split: if_splits)
qed (simp add: parse_int_internal_def)

lemma parse_int_decides:
  "(snd (go_parse_int s 10 64) = None \<longleftrightarrow> is_decimal s \<and> in_int64 (decimal_val s)) \<and>
   (snd (go_parse_int s 10 64) = None \<longrightarrow> fst (go_parse_int s 10 64) = decimal_val s)"
proof (cases "is_decimal s")
  case True
  then show ?thesis by (auto simp: go_parse_int_def parse_int_internal_decimal)
next
  case False
  then obtain w e where "parse_int_internal s 10 64 = (w, Some e)"
    using parse_int_internal_not_decimal by blast
  with False show ?thesis by (simp add: go_parse_int_def)
qed

text \<open>
  \<open>parseInt(s, 10, 64)\<close> succeeds exactly on an optionally signed, non-empty digit string whose
  value fits a signed 64-bit integer, and then returns that value; every other input is an error.
\<close>

theorem parse_int_accepts:
  "go_parse_int s 10 64 = (v, None) \<longleftrightarrow>
    is_decimal s \<and> in_int64 (decimal_val s) \<and> v = decimal_val s"
  using parse_int_decides [of s] by (cases "go_parse_int s 10 64") auto

lemma hd_digits:
  assumes "\<forall>c \<in> set s. is_digit c" and "s \<noteq> []"
  shows "hd s \<noteq> CHR ''-'' \<and> hd s \<noteq> CHR ''+''"
proof -
  have "is_digit (hd s)" using assms by simp
  then show ?thesis by (auto simp: is_digit_def less_eq_char_def)
qed

lemma unsigned_part_show_int [simp]: "unsigned_part (show_int i) = show_nat (nat \<bar>i\<bar>)"
  using hd_digits [OF show_nat_digits, of "nat i"] by (auto simp: show_int_def unsigned_part_def)

lemma decimal_show_int [simp]: "is_decimal (show_int i)"
  using show_nat_digits by (auto simp: is_decimal_def)

lemma decimal_val_show_int [simp]: "decimal_val (show_int i) = i"
  using hd_digits [OF show_nat_digits, of "nat i"]
  unfolding decimal_val_def unsigned_part_show_int by (auto simp: show_int_def)

text \<open>
  Printing an integer of the signed 64-bit range in decimal and parsing it gives it back.
\<close>

theorem parse_int_show_int:
  "go_parse_int (show_int i) 10 64 =
    (if in_int64 i then (i, None)
     else (if i < 0 then - (2 ^ 63) else 2 ^ 63 - 1,
       Some (NumError ''ParseInt'' (show_int i) ErrRange)))"
  by (simp add: go_parse_int_def parse_int_internal_decimal to_error_def)

text \<open>Both directions keep the result in the range the code promises, errors included.\<close>

lemma parse_int_in_range: "in_int64 (fst (go_parse_int s 10 64))"
proof (cases "is_decimal s")
  case False
  obtain v e where u: "parse_uint_internal (unsigned_part s) 10 64 = (v, Some e)"
    using False parse_uint_not_decimal [of "unsigned_part s"] by (auto simp: is_decimal_def)
  then have "e = ErrRange \<Longrightarrow> v = max_uint64" by (auto dest: parse_uint_range_error)
  with u show ?thesis
    by (auto simp: go_parse_int_def parse_int_internal_def unsigned_part_def Let_def in_int64_def
        max_uint64_def split: if_splits option.splits prod.splits)
qed (auto simp: go_parse_int_def parse_int_internal_decimal in_int64_def)

end
