(* ===== verification/FieldErrors.thy ===== *)
theory FieldErrors
  imports JsPrelude Strconv
begin

text \<open>
  \<open>src/apimachinery/pkg/util/validation/field\<close> (\<open>path.ts\<close>, \<open>errors.ts\<close>) and
  \<open>src/apimachinery/pkg/util/errors/errors.ts\<close>: field paths, field errors, error lists and
  aggregates. An aggregate is a tree of errors; the lemmas say which leaves the operations keep and
  that an error list is reported without duplicate messages.
\<close>

section \<open>Paths (path.ts)\<close>

text \<open>A \<open>Path\<close> has a name or an index, and a parent.\<close>

datatype fpath = FPath (fp_name: string) (fp_index: string) (fp_parent: "fpath option")

fun path_root :: "fpath \<Rightarrow> fpath" where
  "path_root (FPath n i None) = FPath n i None"
| "path_root (FPath n i (Some p)) = path_root p"

definition new_path :: "string \<Rightarrow> string list \<Rightarrow> fpath" where
  "new_path name moreNames =
     fold (\<lambda>anotherName result. FPath anotherName [] (Some result)) moreNames (FPath name [] None)"

text \<open>\<open>r.root().parent = this\<close> on the fresh path \<open>r\<close>.\<close>

fun set_root_parent :: "fpath \<Rightarrow> fpath \<Rightarrow> fpath" where
  "set_root_parent this (FPath n i None) = FPath n i (Some this)"
| "set_root_parent this (FPath n i (Some p)) = FPath n i (Some (set_root_parent this p))"

definition path_child :: "fpath \<Rightarrow> string \<Rightarrow> string list \<Rightarrow> fpath" where
  "path_child this name moreNames = set_root_parent this (new_path name moreNames)"

definition path_index :: "fpath \<Rightarrow> nat \<Rightarrow> fpath" where
  "path_index this i = FPath [] (show_nat i) (Some this)"

definition path_key :: "fpath \<Rightarrow> string \<Rightarrow> fpath" where
  "path_key this key = FPath [] key (Some this)"

definition child_path :: "fpath option \<Rightarrow> string \<Rightarrow> fpath" where
  "child_path path name =
     (case path of Some p \<Rightarrow> path_child p name [] | None \<Rightarrow> new_path name [])"

text \<open>\<open>Path.string\<close>: the chain of paths is collected from the leaf, then printed from the root.\<close>

fun path_elems :: "fpath \<Rightarrow> fpath list" where
  "path_elems (FPath n i None) = [FPath n i None]"
| "path_elems (FPath n i (Some p)) = FPath n i (Some p) # path_elems p"

definition path_elem_string :: "fpath \<Rightarrow> string" where
  "path_elem_string p =
     (if fp_parent p \<noteq> None \<and> length (fp_name p) > 0 then ''.'' else []) @
     (if length (fp_name p) > 0 then fp_name p else ''['' @ fp_index p @ '']'')"

definition path_string :: "fpath \<Rightarrow> string" where
  "path_string p = concat (map path_elem_string (rev (path_elems p)))"

definition field_string :: "fpath option \<Rightarrow> string" where
  "field_string path = (case path of Some p \<Rightarrow> path_string p | None \<Rightarrow> ''<nil>'')"

lemma path_string_parent [simp]:
  "path_string (FPath n i (Some p)) =
    path_string p @ (if n \<noteq> [] then ''.'' @ n else ''['' @ i @ '']'')"
  by (simp add: path_string_def path_elem_string_def)

lemma path_string_root [simp]:
  "path_string (FPath n i None) = (if n \<noteq> [] then n else ''['' @ i @ '']'')"
  by (simp add: path_string_def path_elem_string_def)

lemma path_string_set_root_parent:
  "fp_name (path_root q) \<noteq> [] \<Longrightarrow> path_string (set_root_parent p q) = path_string p @ ''.'' @ path_string q"
  by (induction p q rule: set_root_parent.induct) auto

lemma new_path_snoc: "new_path a (ns @ [n]) = FPath n [] (Some (new_path a ns))"
  by (simp add: new_path_def)

lemma new_path_root: "fp_name (path_root (new_path a ns)) = a"
  by (induction ns rule: rev_induct) (simp_all add: new_path_snoc, simp add: new_path_def)

lemma new_path_string:
  "\<forall>n \<in> set (a # ns). n \<noteq> [] \<Longrightarrow> path_string (new_path a ns) = js_join ''.'' (a # ns)"
proof (induction ns rule: rev_induct)
  case (snoc n ns)
  have j: "js_join s (xs @ [y, x]) = js_join s (xs @ [y]) @ s @ x" for s xs y and x :: string
  proof (induction xs)
    case (Cons z zs)
    then show ?case by (cases zs) auto
  qed simp
  show ?case
  proof (cases ns rule: rev_exhaust)
    case Nil
    with snoc new_path_snoc [of a "[]" n] show ?thesis by simp
  next
    case (snoc ms m)
    with snoc.IH snoc.prems j [of "''.''" "a # ms" m n] new_path_snoc [of a "ms @ [m]" n]
    show ?thesis by simp
  qed
qed (simp add: new_path_def)

text \<open>A child's path is the parent's path, a dot, and the names joined with dots.\<close>

lemma path_child_string:
  "\<forall>n \<in> set (a # ns). n \<noteq> [] \<Longrightarrow>
    path_string (path_child p a ns) = path_string p @ ''.'' @ js_join ''.'' (a # ns)"
  using new_path_root [of a ns]
  by (simp add: path_child_def path_string_set_root_parent new_path_string)

section \<open>Field errors (errors.ts)\<close>

datatype error_type =
    FieldValueNotFound | FieldValueRequired | FieldValueDuplicate | FieldValueInvalid
  | FieldValueNotSupported | FieldValueForbidden | FieldValueTooLong | FieldValueTooMany
  | FieldValueTooFew | InternalErrorType | FieldValueTypeInvalid | FieldValueTooShort

text \<open>The bad values the code reports: strings, string arrays, numbers, booleans, errors, or none.\<close>

datatype bad_value =
    BadString string | BadStrings "string list" | BadInt int | BadBool bool | BadError string
  | BadUndefined | BadOmit

datatype stability = StabilityUnknown | StabilityAlpha | StabilityBeta

record field_error =
  fe_type :: error_type
  fe_field :: string
  fe_bad :: bad_value
  fe_detail :: string
  fe_origin :: string
  fe_covered :: bool
  fe_imperative :: bool
  fe_stability :: stability

definition mk_field_error :: "error_type \<Rightarrow> string \<Rightarrow> bad_value \<Rightarrow> string \<Rightarrow> field_error" where
  "mk_field_error t f b d =
     \<lparr>fe_type = t, fe_field = f, fe_bad = b, fe_detail = d, fe_origin = [], fe_covered = False,
      fe_imperative = False, fe_stability = StabilityUnknown\<rparr>"

fun stability_string :: "stability \<Rightarrow> string" where
  "stability_string StabilityAlpha = ''alpha''"
| "stability_string StabilityBeta = ''beta''"
| "stability_string StabilityUnknown = ''unknown''"

fun error_type_string :: "error_type \<Rightarrow> string" where
  "error_type_string FieldValueNotFound = ''Not found''"
| "error_type_string FieldValueRequired = ''Required value''"
| "error_type_string FieldValueDuplicate = ''Duplicate value''"
| "error_type_string FieldValueInvalid = ''Invalid value''"
| "error_type_string FieldValueNotSupported = ''Unsupported value''"
| "error_type_string FieldValueForbidden = ''Forbidden''"
| "error_type_string FieldValueTooLong = ''Too long''"
| "error_type_string FieldValueTooMany = ''Too many''"
| "error_type_string FieldValueTooFew = ''Too few''"
| "error_type_string InternalErrorType = ''Internal error''"
| "error_type_string FieldValueTypeInvalid = ''Invalid value''"
| "error_type_string FieldValueTooShort = ''Too short''"

text \<open>\<open>JSON.stringify\<close> of a string and of the other bad values.\<close>

definition json_char :: "char \<Rightarrow> string" where
  "json_char c =
     (if c = CHR 0x22 then [CHR 0x5C, CHR 0x22]
      else if c = CHR 0x5C then [CHR 0x5C, CHR 0x5C]
      else if c = CHR 0x08 then [CHR 0x5C, CHR ''b'']
      else if c = CHR 0x0C then [CHR 0x5C, CHR ''f'']
      else if c = CHR 0x0A then [CHR 0x5C, CHR ''n'']
      else if c = CHR 0x0D then [CHR 0x5C, CHR ''r'']
      else if c = CHR 0x09 then [CHR 0x5C, CHR ''t'']
      else if of_char c < (32 :: nat)
        then [CHR 0x5C] @ ''u00'' @ [hex_digit (of_char c div 16), hex_digit (of_char c mod 16)]
      else [c])"

definition json_string :: "string \<Rightarrow> string" where
  "json_string s = [CHR 0x22] @ concat (map json_char s) @ [CHR 0x22]"

fun json_bad :: "bad_value \<Rightarrow> string" where
  "json_bad (BadString s) = json_string s"
| "json_bad (BadStrings ss) = ''['' @ js_join '','' (map json_string ss) @ '']''"
| "json_bad (BadInt i) = show_int i"
| "json_bad (BadBool b) = (if b then ''true'' else ''false'')"
| "json_bad (BadError m) = ''{}''"
| "json_bad BadUndefined = ''undefined''"
| "json_bad BadOmit = ''{}''"

definition prints_bad_value :: "error_type \<Rightarrow> bool" where
  "prints_bad_value t \<longleftrightarrow>
     t \<notin> {FieldValueRequired, FieldValueForbidden, FieldValueTooLong, FieldValueTooShort, InternalErrorType}"

definition field_error_body :: "error_type \<Rightarrow> bad_value \<Rightarrow> string \<Rightarrow> string" where
  "field_error_body t b detail =
     (if prints_bad_value t \<and> b \<noteq> BadOmit then error_type_string t @ '': '' @ json_bad b
      else error_type_string t) @
     (if length detail \<noteq> 0 then '': '' @ detail else [])"

definition fe_error :: "field_error \<Rightarrow> string" where
  "fe_error e = fe_field e @ '': '' @ field_error_body (fe_type e) (fe_bad e) (fe_detail e)"

definition fe_typeInvalid :: "fpath option \<Rightarrow> bad_value \<Rightarrow> string \<Rightarrow> field_error" where
  "fe_typeInvalid path v detail = mk_field_error FieldValueTypeInvalid (field_string path) v detail"

definition fe_notFound :: "fpath option \<Rightarrow> bad_value \<Rightarrow> field_error" where
  "fe_notFound path v = mk_field_error FieldValueNotFound (field_string path) v []"

definition fe_required :: "fpath option \<Rightarrow> string \<Rightarrow> field_error" where
  "fe_required path detail = mk_field_error FieldValueRequired (field_string path) (BadString []) detail"

definition fe_duplicate :: "fpath option \<Rightarrow> bad_value \<Rightarrow> field_error" where
  "fe_duplicate path v = mk_field_error FieldValueDuplicate (field_string path) v []"

definition fe_invalid :: "fpath option \<Rightarrow> bad_value \<Rightarrow> string \<Rightarrow> field_error" where
  "fe_invalid path v detail = mk_field_error FieldValueInvalid (field_string path) v detail"

definition fe_notSupported :: "fpath option \<Rightarrow> bad_value \<Rightarrow> string list \<Rightarrow> field_error" where
  "fe_notSupported path v validValues =
     mk_field_error FieldValueNotSupported (field_string path) v
       (if length validValues > 0
        then ''supported values: '' @ js_join '', '' (map json_string validValues) else [])"

definition fe_forbidden :: "fpath option \<Rightarrow> string \<Rightarrow> field_error" where
  "fe_forbidden path detail = mk_field_error FieldValueForbidden (field_string path) (BadString []) detail"

definition limit_message :: "int \<Rightarrow> string \<Rightarrow> string \<Rightarrow> string \<Rightarrow> string \<Rightarrow> string" where
  "limit_message n before one many otherwise =
     (if n \<ge> 0 then before @ show_int n @ '' '' @ (if n = 1 then one else many) else otherwise)"

definition fe_tooLong :: "fpath option \<Rightarrow> int \<Rightarrow> field_error" where
  "fe_tooLong path maxLength =
     mk_field_error FieldValueTooLong (field_string path) (BadString ''<value omitted>'')
       (limit_message maxLength ''may not be more than '' ''byte'' ''bytes'' ''value is too long'')"

definition fe_tooLongCharacters :: "fpath option \<Rightarrow> int \<Rightarrow> field_error" where
  "fe_tooLongCharacters path maxLength =
     mk_field_error FieldValueTooLong (field_string path) (BadString ''<value omitted>'')
       (limit_message maxLength ''may not be more than '' ''character'' ''characters'' ''value is too long'')"

definition fe_tooMany :: "fpath option \<Rightarrow> int \<Rightarrow> int \<Rightarrow> field_error" where
  "fe_tooMany path actualQuantity maxQuantity =
     mk_field_error FieldValueTooMany (field_string path)
       (if actualQuantity \<ge> 0 then BadInt actualQuantity else BadOmit)
       (limit_message maxQuantity ''must have at most '' ''item'' ''items'' ''has too many items'')"

definition fe_internal :: "fpath option \<Rightarrow> string \<Rightarrow> field_error" where
  "fe_internal path message =
     mk_field_error InternalErrorType (field_string path) (BadError message) message"

definition fe_tooShort :: "fpath option \<Rightarrow> string \<Rightarrow> int \<Rightarrow> field_error" where
  "fe_tooShort path v minLength =
     mk_field_error FieldValueTooShort (field_string path) (BadString v)
       (limit_message minLength ''must be at least '' ''character'' ''characters'' ''value is too short'')"

definition fe_tooFew :: "fpath option \<Rightarrow> int \<Rightarrow> int \<Rightarrow> field_error" where
  "fe_tooFew path actualQuantity minQuantity =
     mk_field_error FieldValueTooFew (field_string path) (BadInt actualQuantity)
       (limit_message minQuantity ''must have at least '' ''item'' ''items'' ''has too few items'')"

section \<open>Errors and aggregates (util/errors/errors.ts)\<close>

text \<open>An \<open>Error\<close> value: a plain one with its message, a field error, or an aggregate.\<close>

datatype js_error = PlainError string | FieldErr field_error | Aggregate "js_error list"

fun leaf_errors :: "js_error \<Rightarrow> js_error list" where
  "leaf_errors (Aggregate es) = concat (map leaf_errors es)"
| "leaf_errors e = [e]"

text \<open>The visitor that builds an aggregate's message: each distinct leaf message once.\<close>

definition add_message :: "string list \<Rightarrow> string \<Rightarrow> string list" where
  "add_message seen msg = (if msg \<in> set seen then seen else seen @ [msg])"

fun aggregate_messages :: "js_error list \<Rightarrow> string list \<Rightarrow> string list" where
  "aggregate_messages [] seen = seen"
| "aggregate_messages (Aggregate es # rest) seen = aggregate_messages rest (aggregate_messages es seen)"
| "aggregate_messages (PlainError m # rest) seen = aggregate_messages rest (add_message seen m)"
| "aggregate_messages (FieldErr e # rest) seen = aggregate_messages rest (add_message seen (fe_error e))"

fun error_string :: "js_error \<Rightarrow> string" where
  "error_string (PlainError m) = m"
| "error_string (FieldErr e) = fe_error e"
| "error_string (Aggregate es) =
     (case es of
        [] \<Rightarrow> []
      | [e] \<Rightarrow> error_string e
      | _ \<Rightarrow> (let seen = aggregate_messages es [] in
              if length seen = 1 then js_join '', '' seen else ''['' @ js_join '', '' seen @ '']''))"

definition new_aggregate :: "js_error option list \<Rightarrow> js_error option" where
  "new_aggregate errlist =
     (let errs = List.map_filter id errlist in if errs = [] then None else Some (Aggregate errs))"

text \<open>\<open>aggregate.Is\<close>, given the identity test of the errors.\<close>

fun aggregate_is :: "(js_error \<Rightarrow> js_error \<Rightarrow> bool) \<Rightarrow> js_error \<Rightarrow> js_error \<Rightarrow> bool" where
  "aggregate_is same (Aggregate es) target = list_ex (\<lambda>e. aggregate_is same e target) es"
| "aggregate_is same e target = (same e target \<or> error_string e = error_string target)"

fun filter_out :: "(js_error \<Rightarrow> bool) list \<Rightarrow> js_error \<Rightarrow> js_error option" where
  "filter_out fns (Aggregate es) = new_aggregate (map (filter_out fns) es)"
| "filter_out fns e = (if list_ex (\<lambda>fn. fn e) fns then None else Some e)"

fun flatten_errors :: "js_error list \<Rightarrow> js_error list" where
  "flatten_errors [] = []"
| "flatten_errors (Aggregate es # rest) = flatten_errors es @ flatten_errors rest"
| "flatten_errors (e # rest) = e # flatten_errors rest"

definition flatten_aggregate :: "js_error list option \<Rightarrow> js_error option" where
  "flatten_aggregate agg =
     (case agg of None \<Rightarrow> None | Some es \<Rightarrow> new_aggregate (map Some (flatten_errors es)))"

definition aggregate_from_counts :: "(string, nat) jmap option \<Rightarrow> js_error option" where
  "aggregate_from_counts m =
     (case m of None \<Rightarrow> None
      | Some es \<Rightarrow> new_aggregate (map (\<lambda>(errStr, count). Some (PlainError
          (errStr @ (if count > 1 then '' (repeated '' @ show_nat count @ '' times)'' else [])))) es))"

fun reduce_error :: "js_error option \<Rightarrow> js_error option" where
  "reduce_error (Some (Aggregate [e])) = Some e"
| "reduce_error (Some (Aggregate [])) = None"
| "reduce_error err = err"

section \<open>Error lists (errors.ts ErrorList)\<close>

definition el_with_origin :: "string \<Rightarrow> field_error list \<Rightarrow> field_error list" where
  "el_with_origin origin errs = map (fe_origin_update (\<lambda>_. origin)) errs"

definition el_mark_covered :: "field_error list \<Rightarrow> field_error list" where
  "el_mark_covered errs = map (fe_covered_update (\<lambda>_. True)) errs"

definition el_prefix_detail :: "string \<Rightarrow> field_error list \<Rightarrow> field_error list" where
  "el_prefix_detail pre errs = map (fe_detail_update (\<lambda>d. pre @ d)) errs"

definition el_extract_covered :: "field_error list \<Rightarrow> field_error list" where
  "el_extract_covered errs = filter fe_covered errs"

definition el_remove_covered :: "field_error list \<Rightarrow> field_error list" where
  "el_remove_covered errs = filter (\<lambda>e. \<not> fe_covered e) errs"

text \<open>\<open>toAggregate\<close>: the loop keeps the first error of each message.\<close>

fun dedup_errors :: "field_error list \<Rightarrow> string list \<Rightarrow> field_error list" where
  "dedup_errors [] errorMsgs = []"
| "dedup_errors (err # rest) errorMsgs =
     (let msg = fe_error err in
      if msg \<in> set errorMsgs then dedup_errors rest errorMsgs
      else err # dedup_errors rest (js_add msg errorMsgs))"

definition el_to_aggregate :: "field_error list \<Rightarrow> js_error option" where
  "el_to_aggregate errs =
     (if errs = [] then None else new_aggregate (map (\<lambda>e. Some (FieldErr e)) (dedup_errors errs [])))"

section \<open>Properties\<close>

lemma map_filter_Some [simp]: "List.map_filter id (map (\<lambda>x. Some (f x)) xs) = map f xs"
  by (induction xs) (auto simp: List.map_filter_def)

lemma dedup_errors_messages:
  "distinct (map fe_error (dedup_errors errs seen)) \<and>
   set (map fe_error (dedup_errors errs seen)) = fe_error ` set errs - set seen"
  by (induction errs seen rule: dedup_errors.induct) (auto simp: Let_def)

lemma dedup_errors_subset: "set (dedup_errors errs seen) \<subseteq> set errs"
  by (induction errs seen rule: dedup_errors.induct) (auto simp: Let_def)

text \<open>
  Turning an error list into an aggregate reports every distinct message exactly once: no
  aggregate for an empty list, and otherwise the errors kept come from the list, have pairwise
  different messages, and cover the messages of the list.
\<close>

theorem to_aggregate_messages:
  "(el_to_aggregate errs = None \<longleftrightarrow> errs = []) \<and>
   (case el_to_aggregate errs of
      None \<Rightarrow> True
    | Some agg \<Rightarrow> \<exists>kept. agg = Aggregate (map FieldErr kept) \<and> set kept \<subseteq> set errs \<and>
        distinct (map fe_error kept) \<and> fe_error ` set kept = fe_error ` set errs)"
proof (cases errs)
  case (Cons e es)
  let ?kept = "dedup_errors errs []"
  have "?kept \<noteq> []" using dedup_errors_messages [of errs "[]"] Cons by force
  with Cons have "el_to_aggregate errs = Some (Aggregate (map FieldErr ?kept))"
    by (simp add: el_to_aggregate_def new_aggregate_def)
  with Cons show ?thesis
    using dedup_errors_messages [of errs "[]"] dedup_errors_subset [of errs "[]"]
    by (auto intro!: exI [of _ ?kept] simp del: dedup_errors.simps)
qed (simp add: el_to_aggregate_def)

lemma flatten_errors_leaves: "flatten_errors es = concat (map leaf_errors es)"
  by (induction es rule: flatten_errors.induct) auto

lemma leaf_errors_not_aggregate: "e \<in> set (leaf_errors x) \<Longrightarrow> (\<forall>es. e \<noteq> Aggregate es)"
  by (induction x) auto

lemma filter_out_leaves:
  "(case filter_out fns e of None \<Rightarrow> [] | Some r \<Rightarrow> leaf_errors r) =
    filter (\<lambda>l. \<not> list_ex (\<lambda>fn. fn l) fns) (leaf_errors e)"
proof (induction fns e rule: filter_out.induct)
  case (1 fns es)
  have "concat (map leaf_errors (List.map_filter id (map (filter_out fns) es))) =
    filter (\<lambda>l. \<not> list_ex (\<lambda>fn. fn l) fns) (concat (map leaf_errors es))"
    using 1
  proof (induction es)
    case (Cons e es)
    then have "(case filter_out fns e of None \<Rightarrow> [] | Some r \<Rightarrow> leaf_errors r) =
      filter (\<lambda>l. \<not> list_ex (\<lambda>fn. fn l) fns) (leaf_errors e)" by simp
    with Cons.IH Cons.prems show ?case
      by (cases "filter_out fns e") (auto simp: List.map_filter_simps)
  qed (simp add: List.map_filter_simps)
  then show ?case by (auto simp: new_aggregate_def Let_def)
qed auto

lemma aggregate_messages_leaves:
  "set (aggregate_messages es seen) = set seen \<union> error_string ` set (concat (map leaf_errors es)) \<and>
   (distinct seen \<longrightarrow> distinct (aggregate_messages es seen))"
proof (induction es seen rule: aggregate_messages.induct)
qed (auto simp: add_message_def)

end
