(* ===== verification/Regexp.thy ===== *)
theory Regexp
  imports JsPrelude
begin

text \<open>
  The regular expressions the validation code tests strings with: character classes, sequence,
  alternative and repetition. \<open>rx_test r s\<close> is \<open>new RegExp("^r$").test(s)\<close>: a derivative matcher
  that runs, with its language as the specification.
\<close>

datatype rx =
    RxNone
  | RxEmpty
  | RxChar "char \<Rightarrow> bool"
  | RxSeq rx rx
  | RxAlt rx rx
  | RxStar rx

definition RxOpt :: "rx \<Rightarrow> rx" where
  "RxOpt r = RxAlt r RxEmpty"

primrec rx_nullable :: "rx \<Rightarrow> bool" where
  "rx_nullable RxNone = False"
| "rx_nullable RxEmpty = True"
| "rx_nullable (RxChar p) = False"
| "rx_nullable (RxSeq r s) = (rx_nullable r \<and> rx_nullable s)"
| "rx_nullable (RxAlt r s) = (rx_nullable r \<or> rx_nullable s)"
| "rx_nullable (RxStar r) = True"

primrec rx_deriv :: "char \<Rightarrow> rx \<Rightarrow> rx" where
  "rx_deriv c RxNone = RxNone"
| "rx_deriv c RxEmpty = RxNone"
| "rx_deriv c (RxChar p) = (if p c then RxEmpty else RxNone)"
| "rx_deriv c (RxSeq r s) =
     (if rx_nullable r then RxAlt (RxSeq (rx_deriv c r) s) (rx_deriv c s)
      else RxSeq (rx_deriv c r) s)"
| "rx_deriv c (RxAlt r s) = RxAlt (rx_deriv c r) (rx_deriv c s)"
| "rx_deriv c (RxStar r) = RxSeq (rx_deriv c r) (RxStar r)"

fun rx_test :: "rx \<Rightarrow> string \<Rightarrow> bool" where
  "rx_test r [] = rx_nullable r"
| "rx_test r (c # s) = rx_test (rx_deriv c r) s"

section \<open>The language of an expression\<close>

inductive_set star_of :: "string set \<Rightarrow> string set" for A where
  star_Nil: "[] \<in> star_of A"
| star_app: "u \<in> A \<Longrightarrow> v \<in> star_of A \<Longrightarrow> u @ v \<in> star_of A"

primrec rx_lang :: "rx \<Rightarrow> string set" where
  "rx_lang RxNone = {}"
| "rx_lang RxEmpty = {[]}"
| "rx_lang (RxChar p) = {[c] | c. p c}"
| "rx_lang (RxSeq r s) = {u @ v | u v. u \<in> rx_lang r \<and> v \<in> rx_lang s}"
| "rx_lang (RxAlt r s) = rx_lang r \<union> rx_lang s"
| "rx_lang (RxStar r) = star_of (rx_lang r)"

lemma rx_nullable_lang: "rx_nullable r \<longleftrightarrow> [] \<in> rx_lang r"
  by (induction r) (auto intro: star_Nil)

lemma star_of_Cons:
  "c # w \<in> star_of A \<longleftrightarrow> (\<exists>u v. w = u @ v \<and> c # u \<in> A \<and> v \<in> star_of A)" (is "?l \<longleftrightarrow> ?r")
proof
  show "?l \<Longrightarrow> ?r"
    by (induction "c # w" rule: star_of.induct) (auto simp: append_eq_Cons_conv)
  show "?r \<Longrightarrow> ?l"
    using star_app [of "c # u" A v for u v] by fastforce
qed

lemma rx_deriv_lang: "w \<in> rx_lang (rx_deriv c r) \<longleftrightarrow> c # w \<in> rx_lang r"
proof (induction r arbitrary: w)
  case (RxSeq r s)
  then show ?case
    by (auto simp: rx_nullable_lang Cons_eq_append_conv)
next
  case (RxStar r)
  then show ?case by (auto simp: star_of_Cons)
qed auto

theorem rx_test_lang: "rx_test r s \<longleftrightarrow> s \<in> rx_lang r"
  by (induction s arbitrary: r) (auto simp: rx_nullable_lang rx_deriv_lang)

section \<open>Shapes the formats are made of\<close>

lemma star_of_chars: "s \<in> star_of {[c] | c. p c} \<longleftrightarrow> (\<forall>c \<in> set s. p c)"
  by (induction s) (auto simp: star_of_Cons intro: star_Nil)

text \<open>\<open>(c e*)?c\<close>: a non-empty word over \<open>e\<close> whose first and last characters are in \<open>c\<close>.\<close>

definition framed :: "(char \<Rightarrow> bool) \<Rightarrow> (char \<Rightarrow> bool) \<Rightarrow> string \<Rightarrow> bool" where
  "framed c e s \<longleftrightarrow> s \<noteq> [] \<and> c (hd s) \<and> c (last s) \<and> (\<forall>x \<in> set s. e x)"

lemma rx_lang_SeqI: "u \<in> rx_lang r \<Longrightarrow> v \<in> rx_lang s \<Longrightarrow> u @ v \<in> rx_lang (RxSeq r s)"
  by auto

lemma rx_framed_prefix:
  assumes "\<And>x. c x \<Longrightarrow> e x"
  shows "rx_test (RxSeq (RxOpt (RxSeq (RxChar c) (RxStar (RxChar e)))) (RxChar c)) s = framed c e s"
    (is "rx_test ?r s = _")
proof
  show "rx_test ?r s \<Longrightarrow> framed c e s"
    using assms by (auto simp: rx_test_lang RxOpt_def framed_def star_of_chars)
next
  assume f: "framed c e s"
  then obtain t x where s: "s = t @ [x]" by (cases s rule: rev_cases) (auto simp: framed_def)
  have "t \<in> rx_lang (RxOpt (RxSeq (RxChar c) (RxStar (RxChar e))))"
    using f s rx_lang_SeqI [of "[hd t]" "RxChar c" "tl t" "RxStar (RxChar e)"]
    by (cases t) (auto simp: RxOpt_def framed_def star_of_chars)
  moreover have "[x] \<in> rx_lang (RxChar c)" using f s by (simp add: framed_def)
  ultimately show "rx_test ?r s" unfolding s rx_test_lang by (rule rx_lang_SeqI)
qed

lemma rx_framed_suffix:
  assumes "\<And>x. c x \<Longrightarrow> e x"
  shows "s \<in> rx_lang (RxSeq (RxChar c) (RxOpt (RxSeq (RxStar (RxChar e)) (RxChar c))))
    \<longleftrightarrow> framed c e s" (is "s \<in> rx_lang ?r \<longleftrightarrow> _")
proof
  show "s \<in> rx_lang ?r \<Longrightarrow> framed c e s"
    using assms by (auto simp: RxOpt_def framed_def star_of_chars)
next
  assume f: "framed c e s"
  then obtain x t where s: "s = [x] @ t" by (cases s) (auto simp: framed_def)
  have "t \<in> rx_lang (RxOpt (RxSeq (RxStar (RxChar e)) (RxChar c)))"
    using f s by (cases t rule: rev_cases) (auto simp: RxOpt_def framed_def star_of_chars)
  moreover have "[x] \<in> rx_lang (RxChar c)" using f s by (simp add: framed_def)
  ultimately show "s \<in> rx_lang ?r" unfolding s by (intro rx_lang_SeqI)
qed

text \<open>\<open>A(\.A)*\<close>: the dot-separated words whose parts are all in \<open>A\<close>.\<close>

lemma star_of_dotted:
  assumes A: "\<And>u. u \<in> A \<Longrightarrow> d \<notin> set u"
  shows "w \<in> star_of {d # u | u. u \<in> A}
    \<longleftrightarrow> w = [] \<or> (\<exists>s. w = d # s \<and> (\<forall>p \<in> set (js_split d s). p \<in> A))" (is "?l \<longleftrightarrow> ?r")
proof
  show "?l \<Longrightarrow> ?r"
  proof (induction rule: star_of.induct)
    case (star_app x v)
    then obtain u where "x = d # u" "u \<in> A" by auto
    with star_app.IH A [of u] show ?case
      by (auto simp: js_split_append js_split_no_sep)
  qed simp
next
  have *: "d # s \<in> star_of {d # u | u. u \<in> A}" if "\<forall>p \<in> set (js_split d s). p \<in> A" for s
    using that
  proof (induction s rule: length_induct)
    case (1 s)
    show ?case
    proof (cases "d \<in> set s")
      case True
      then obtain p t where s: "s = p @ d # t" "d \<notin> set p" by (metis split_list_first)
      with 1 have "d # t \<in> star_of {d # u | u. u \<in> A}" "p \<in> A"
        by (auto simp: js_split_append)
      with s show ?thesis using star_app [of "d # p"] by auto
    next
      case False
      with 1 have "s \<in> A" by (simp add: js_split_no_sep)
      then show ?thesis using star_app [OF _ star_Nil, of "d # s"] by auto
    qed
  qed
  show "?r \<Longrightarrow> ?l" using * by (auto intro: star_Nil)
qed

lemma dotted_words:
  assumes A: "\<And>u. u \<in> A \<Longrightarrow> d \<notin> set u"
  shows "(\<exists>u v. s = u @ v \<and> u \<in> A \<and> v \<in> star_of {d # u | u. u \<in> A})
    \<longleftrightarrow> (\<forall>p \<in> set (js_split d s). p \<in> A)" (is "?l \<longleftrightarrow> ?r")
proof
  assume ?l
  then show ?r using A by (auto simp: star_of_dotted [OF A] js_split_append js_split_no_sep)
next
  assume r: ?r
  show ?l
  proof (cases "d \<in> set s")
    case True
    then obtain p t where s: "s = p @ d # t" "d \<notin> set p" by (metis split_list_first)
    with r show ?thesis by (auto simp: star_of_dotted [OF A] js_split_append)
  next
    case False
    with r show ?thesis by (auto simp: js_split_no_sep intro: star_Nil)
  qed
qed

end
