(* ===== verification/LabelContent.thy ===== *)
theory LabelContent
  imports Regexp
begin

text \<open>
  \<open>src/apimachinery/pkg/api/validate/content\<close> (\<open>errors.ts\<close>, \<open>dns.ts\<close>, \<open>kube.ts\<close>,
  \<open>decimal_int.ts\<close>, \<open>identifier.ts\<close>, \<open>path.ts\<close>): the syntax of names, label keys and label values.
  Each check returns the list of its complaints, empty when the value is valid. The lemmas say in
  plain terms what each regular expression accepts.
\<close>

section \<open>Messages (errors.ts)\<close>

definition maxLenError :: "nat \<Rightarrow> string" where
  "maxLenError n = ''must be no more than '' @ show_nat n @ '' bytes''"

definition emptyError :: string where
  "emptyError = ''must be non-empty''"

definition quoted :: "string \<Rightarrow> string" where
  "quoted s = [CHR 0x27] @ s @ [CHR 0x27]"

definition regexError :: "string \<Rightarrow> string \<Rightarrow> string list \<Rightarrow> string" where
  "regexError msg re examples =
     (if examples = [] then msg @ '' (regex used for validation is '' @ quoted re @ '')''
      else msg @ '' (e.g. '' @ js_join '' or '' (map (\<lambda>e. quoted e @ '', '') examples)
        @ ''regex used for validation is '' @ quoted re @ '')'')"

section \<open>DNS names (dns.ts)\<close>

definition lower_alnum :: "char \<Rightarrow> bool" where
  "lower_alnum c \<longleftrightarrow> (CHR ''a'' \<le> c \<and> c \<le> CHR ''z'') \<or> (CHR ''0'' \<le> c \<and> c \<le> CHR ''9'')"

definition lower_alnum_dash :: "char \<Rightarrow> bool" where
  "lower_alnum_dash c \<longleftrightarrow> c = CHR ''-'' \<or> lower_alnum c"

definition dns1123LabelFmt :: string where
  "dns1123LabelFmt = ''[a-z0-9]([-a-z0-9]*[a-z0-9])?''"

definition dns1123LabelRegexp :: rx where
  "dns1123LabelRegexp =
     RxSeq (RxChar lower_alnum) (RxOpt (RxSeq (RxStar (RxChar lower_alnum_dash)) (RxChar lower_alnum)))"

definition dns1123LabelErrMsg :: string where
  "dns1123LabelErrMsg = ''a lowercase RFC 1123 label must consist of lower case alphanumeric characters or '' @ quoted ''-'' @ '', and must start and end with an alphanumeric character''"

definition dns1123LabelMaxLength :: nat where
  "dns1123LabelMaxLength = 63"

definition dns1123SubdomainFmt :: string where
  "dns1123SubdomainFmt = dns1123LabelFmt @ ''('' @ [CHR 0x5C] @ ''.'' @ dns1123LabelFmt @ '')*''"

definition dns1123SubdomainRegexp :: rx where
  "dns1123SubdomainRegexp =
     RxSeq dns1123LabelRegexp (RxStar (RxSeq (RxChar (\<lambda>c. c = CHR ''.'')) dns1123LabelRegexp))"

text \<open>The same expression with the \<open>i\<close> flag: letters of either case.\<close>

definition any_alnum :: "char \<Rightarrow> bool" where
  "any_alnum c \<longleftrightarrow> lower_alnum c \<or> (CHR ''A'' \<le> c \<and> c \<le> CHR ''Z'')"

definition caselessLabelRegexp :: rx where
  "caselessLabelRegexp =
     RxSeq (RxChar any_alnum)
       (RxOpt (RxSeq (RxStar (RxChar (\<lambda>c. c = CHR ''-'' \<or> any_alnum c))) (RxChar any_alnum)))"

definition dns1123SubdomainCaselessRegexp :: rx where
  "dns1123SubdomainCaselessRegexp =
     RxSeq caselessLabelRegexp (RxStar (RxSeq (RxChar (\<lambda>c. c = CHR ''.'')) caselessLabelRegexp))"

definition dns1123SubdomainErrorMsg :: string where
  "dns1123SubdomainErrorMsg = ''a lowercase RFC 1123 subdomain must consist of lower case alphanumeric characters, '' @ quoted ''-'' @ '' or '' @ quoted ''.'' @ '', and must start and end with an alphanumeric character''"

definition dns1123SubdomainCaselessErrorMsg :: string where
  "dns1123SubdomainCaselessErrorMsg = ''an RFC 1123 subdomain must consist of alphanumeric characters, '' @ quoted ''-'' @ '' or '' @ quoted ''.'' @ '', and must start and end with an alphanumeric character''"

definition dns1123SubdomainMaxLength :: nat where
  "dns1123SubdomainMaxLength = 253"

definition isDNS1123Label :: "string \<Rightarrow> string list" where
  "isDNS1123Label value =
     (if length value > dns1123LabelMaxLength then [maxLenError dns1123LabelMaxLength] else []) @
     (if \<not> rx_test dns1123LabelRegexp value then
        (if rx_test dns1123SubdomainRegexp value then [''must not contain dots'']
         else [regexError dns1123LabelErrMsg dns1123LabelFmt [''my-name'', ''123-abc'']])
      else [])"

definition isDNS1123SubdomainInternal :: "string \<Rightarrow> bool \<Rightarrow> string list" where
  "isDNS1123SubdomainInternal value caseless =
     (if length value > dns1123SubdomainMaxLength then [maxLenError dns1123SubdomainMaxLength] else []) @
     (let errorMsg = (if caseless then dns1123SubdomainCaselessErrorMsg else dns1123SubdomainErrorMsg);
          example = (if caseless then ''Example.com'' else ''example.com'');
          regexp = (if caseless then dns1123SubdomainCaselessRegexp else dns1123SubdomainRegexp)
      in if \<not> rx_test regexp value then [regexError errorMsg dns1123SubdomainFmt [example]] else [])"

definition isDNS1123Subdomain :: "string \<Rightarrow> string list" where
  "isDNS1123Subdomain value = isDNS1123SubdomainInternal value False"

definition isDNS1123SubdomainCaseless :: "string \<Rightarrow> string list" where
  "isDNS1123SubdomainCaseless value = isDNS1123SubdomainInternal value True"

section \<open>Label keys and values (kube.ts)\<close>

definition label_ext :: "char \<Rightarrow> bool" where
  "label_ext c \<longleftrightarrow> any_alnum c \<or> c = CHR ''-'' \<or> c = CHR ''_'' \<or> c = CHR ''.''"

definition labelKeyFmt :: string where
  "labelKeyFmt = ''([A-Za-z0-9][-A-Za-z0-9_.]*)?[A-Za-z0-9]''"

definition labelKeyRegexp :: rx where
  "labelKeyRegexp = RxSeq (RxOpt (RxSeq (RxChar any_alnum) (RxStar (RxChar label_ext)))) (RxChar any_alnum)"

definition labelKeyErrMsg :: string where
  "labelKeyErrMsg = ''must consist of alphanumeric characters, '' @ quoted ''-'' @ '', '' @ quoted ''_'' @ '' or '' @ quoted ''.'' @ '', and must start and end with an alphanumeric character''"

definition labelKeyMaxLength :: nat where
  "labelKeyMaxLength = 63"

definition labelKeyRegexError :: string where
  "labelKeyRegexError = regexError labelKeyErrMsg labelKeyFmt [''MyName'', ''my.name'', ''123-abc'']"

definition labelKeyNameErrs :: "string \<Rightarrow> string list" where
  "labelKeyNameErrs name =
     (if length name = 0 then [''name part '' @ emptyError]
      else if length name > labelKeyMaxLength then [''name part '' @ maxLenError labelKeyMaxLength]
      else []) @
     (if \<not> rx_test labelKeyRegexp name then [''name part '' @ labelKeyRegexError] else [])"

definition isLabelKey :: "string \<Rightarrow> string list" where
  "isLabelKey value =
     (case js_split (CHR 0x2F) value of
        [name] \<Rightarrow> labelKeyNameErrs name
      | [pfx, name] \<Rightarrow>
          (if length pfx = 0 then [''prefix part '' @ emptyError]
           else map (\<lambda>m. ''prefix part '' @ m) (isDNS1123Subdomain pfx)) @ labelKeyNameErrs name
      | _ \<Rightarrow> [''a valid label key '' @ labelKeyRegexError @ '' with an optional DNS subdomain prefix and ''
          @ quoted [CHR 0x2F] @ '' (e.g. '' @ quoted ''example.com/MyName'' @ '')''])"

definition labelValueFmt :: string where
  "labelValueFmt = ''('' @ labelKeyFmt @ '')?''"

definition labelValueRegexp :: rx where
  "labelValueRegexp = RxOpt labelKeyRegexp"

definition labelValueErrMsg :: string where
  "labelValueErrMsg = ''a valid label must be an empty string or consist of alphanumeric characters, '' @ quoted ''-'' @ '', '' @ quoted ''_'' @ '' or '' @ quoted ''.'' @ '', and must start and end with an alphanumeric character''"

definition labelValueMaxLength :: nat where
  "labelValueMaxLength = 63"

definition isLabelValue :: "string \<Rightarrow> string list" where
  "isLabelValue value =
     (if length value > labelValueMaxLength then [maxLenError labelValueMaxLength] else []) @
     (if \<not> rx_test labelValueRegexp value
      then [regexError labelValueErrMsg labelValueFmt [''MyValue'', ''my_value'', ''12345'']] else [])"

section \<open>Other checks (decimal_int.ts, identifier.ts, path.ts)\<close>

definition decimalIntegerErrMsg :: string where
  "decimalIntegerErrMsg = ''must be a valid decimal integer in canonical form''"

definition isDecimalInteger :: "string \<Rightarrow> string list" where
  "isDecimalInteger value =
     (case value of
        [] \<Rightarrow> [emptyError]
      | c # t \<Rightarrow>
          if c = CHR ''-'' \<and> t = [] then [decimalIntegerErrMsg]
          else let rest = (if c = CHR ''-'' then t else value) in
            if hd rest = CHR ''0'' then
              (if length value = 1 \<and> c \<noteq> CHR ''-'' then [] else [decimalIntegerErrMsg])
            else if hd rest < CHR ''1'' \<or> hd rest > CHR ''9'' then [decimalIntegerErrMsg]
            else if list_ex (\<lambda>d. d < CHR ''0'' \<or> d > CHR ''9'') (tl rest) then [decimalIntegerErrMsg]
            else [])"

definition cIdentifierRegexp :: rx where
  "cIdentifierRegexp =
     (let letter = (\<lambda>c. (CHR ''A'' \<le> c \<and> c \<le> CHR ''Z'') \<or> (CHR ''a'' \<le> c \<and> c \<le> CHR ''z'') \<or> c = CHR ''_'')
      in RxSeq (RxChar letter) (RxStar (RxChar (\<lambda>c. letter c \<or> (CHR ''0'' \<le> c \<and> c \<le> CHR ''9'')))))"

definition isCIdentifier :: "string \<Rightarrow> string list" where
  "isCIdentifier value =
     (if \<not> rx_test cIdentifierRegexp value then
        [regexError (''a valid C identifier must start with alphabetic character or '' @ quoted ''_'' @ '', followed by a string of alphanumeric characters or '' @ quoted ''_'')
          ''[A-Za-z_][A-Za-z0-9_]*'' [''my_name'', ''MY_NAME'', ''MyName'']]
      else [])"

definition isPathSegmentPrefix :: "string \<Rightarrow> string list" where
  "isPathSegmentPrefix name =
     concat (map (\<lambda>c. if c \<in> set name then [''may not contain '' @ quoted [c]] else []) [CHR 0x2F, CHR 0x25])"

definition isPathSegmentName :: "string \<Rightarrow> string list" where
  "isPathSegmentName name =
     (if name = ''.'' then [''may not be '' @ quoted ''.'']
      else if name = ''..'' then [''may not be '' @ quoted ''..'']
      else isPathSegmentPrefix name)"

section \<open>What the checks accept\<close>

lemma label_key_regexp: "rx_test labelKeyRegexp s \<longleftrightarrow> framed any_alnum label_ext s"
  unfolding labelKeyRegexp_def by (rule rx_framed_prefix) (simp add: label_ext_def)

lemma label_value_regexp: "rx_test labelValueRegexp s \<longleftrightarrow> s = [] \<or> framed any_alnum label_ext s"
  using label_key_regexp [of s] by (auto simp: labelValueRegexp_def RxOpt_def rx_test_lang)

lemma dns_label_lang: "s \<in> rx_lang dns1123LabelRegexp \<longleftrightarrow> framed lower_alnum lower_alnum_dash s"
  unfolding dns1123LabelRegexp_def by (rule rx_framed_suffix) (simp add: lower_alnum_dash_def)

lemma lower_alnum_dash_not_dot: "lower_alnum_dash c \<Longrightarrow> c \<noteq> CHR ''.''"
  by (auto simp: lower_alnum_dash_def lower_alnum_def less_eq_char_def)

lemma dns_subdomain_regexp:
  "rx_test dns1123SubdomainRegexp s \<longleftrightarrow>
    (\<forall>p \<in> set (js_split (CHR ''.'') s). framed lower_alnum lower_alnum_dash p)"
proof -
  let ?L = "rx_lang dns1123LabelRegexp"
  have no_dot: "CHR ''.'' \<notin> set u" if "u \<in> ?L" for u
    using that lower_alnum_dash_not_dot by (auto simp: dns_label_lang framed_def)
  have tail: "rx_lang (RxSeq (RxChar (\<lambda>c. c = CHR ''.'')) dns1123LabelRegexp)
    = {CHR ''.'' # u | u. u \<in> ?L}" by auto
  have "rx_test dns1123SubdomainRegexp s \<longleftrightarrow>
    (\<exists>u v. s = u @ v \<and> u \<in> ?L \<and> v \<in> star_of {CHR ''.'' # u | u. u \<in> ?L})"
    unfolding rx_test_lang dns1123SubdomainRegexp_def rx_lang.simps(4) rx_lang.simps(6) tail by simp
  then show ?thesis using dotted_words [of ?L "CHR ''.''" s] no_dot by (simp add: dns_label_lang)
qed

text \<open>
  A DNS-1123 subdomain is valid when it is at most 253 characters long and every dot-separated
  part is a lower-case alphanumeric word with inner dashes.
\<close>

lemma isDNS1123Subdomain_iff:
  "isDNS1123Subdomain s = [] \<longleftrightarrow> length s \<le> 253 \<and>
    (\<forall>p \<in> set (js_split (CHR ''.'') s). framed lower_alnum lower_alnum_dash p)"
  by (simp add: isDNS1123Subdomain_def isDNS1123SubdomainInternal_def dns_subdomain_regexp
      dns1123SubdomainMaxLength_def not_less)

lemma isLabelValue_iff:
  "isLabelValue s = [] \<longleftrightarrow> length s \<le> 63 \<and> (s = [] \<or> framed any_alnum label_ext s)"
  by (auto simp: isLabelValue_def label_value_regexp labelValueMaxLength_def)

lemma labelKeyNameErrs_iff:
  "labelKeyNameErrs s = [] \<longleftrightarrow> length s \<le> 63 \<and> framed any_alnum label_ext s"
  by (auto simp: labelKeyNameErrs_def label_key_regexp labelKeyMaxLength_def framed_def)

lemma isLabelKey_iff:
  "isLabelKey s = [] \<longleftrightarrow>
    (\<exists>name. js_split (CHR 0x2F) s = [name] \<and> labelKeyNameErrs name = []) \<or>
    (\<exists>pfx name. js_split (CHR 0x2F) s = [pfx, name] \<and> pfx \<noteq> [] \<and>
       isDNS1123Subdomain pfx = [] \<and> labelKeyNameErrs name = [])"
  by (auto simp: isLabelKey_def split: list.splits)

text \<open>The characters of a valid key: what the selector syntax relies on.\<close>

definition key_char :: "char \<Rightarrow> bool" where
  "key_char c \<longleftrightarrow> label_ext c \<or> c = CHR 0x2F"

lemma framed_dns_char: "framed lower_alnum lower_alnum_dash p \<Longrightarrow> c \<in> set p \<Longrightarrow> label_ext c"
  by (auto simp: framed_def lower_alnum_dash_def label_ext_def any_alnum_def)

lemma dns_chars: "isDNS1123Subdomain s = [] \<Longrightarrow> c \<in> set s \<Longrightarrow> label_ext c"
  by (metis framed_dns_char isDNS1123Subdomain_iff js_split_cover label_ext_def)

lemma label_key_chars: "isLabelKey s = [] \<Longrightarrow> c \<in> set s \<Longrightarrow> key_char c"
proof -
  assume k: "isLabelKey s = []" and c: "c \<in> set s"
  from c consider "c = CHR 0x2F" | p where "p \<in> set (js_split (CHR 0x2F) s)" "c \<in> set p"
    using js_split_cover by blast
  then show "key_char c"
  proof cases
    case 2
    with k show ?thesis
      by (auto simp: isLabelKey_iff labelKeyNameErrs_iff framed_def key_char_def dest: dns_chars)
  qed (simp add: key_char_def)
qed

lemma label_key_not_Nil: "isLabelKey s = [] \<Longrightarrow> s \<noteq> []"
  by (auto simp: isLabelKey_iff labelKeyNameErrs_iff framed_def)

lemma label_value_chars: "isLabelValue s = [] \<Longrightarrow> c \<in> set s \<Longrightarrow> label_ext c"
  by (auto simp: isLabelValue_iff framed_def)

text \<open>
  C33. A label key is valid when it is a name of at most 63 characters that starts and ends with an
  alphanumeric character and otherwise uses alphanumerics, dashes, underscores and dots,
  optionally after a valid, non-empty DNS subdomain and one slash.
\<close>

theorem label_key_syntax:
  "isLabelKey s = [] \<longleftrightarrow>
    (CHR 0x2F \<notin> set s \<and> length s \<le> 63 \<and> framed any_alnum label_ext s) \<or>
    (\<exists>pfx name. s = pfx @ CHR 0x2F # name \<and> length pfx \<le> 253 \<and> pfx \<noteq> [] \<and>
       (\<forall>p \<in> set (js_split (CHR ''.'') pfx). framed lower_alnum lower_alnum_dash p) \<and>
       length name \<le> 63 \<and> framed any_alnum label_ext name)" (is "?l \<longleftrightarrow> ?r")
proof
  assume ?l
  then consider name where "js_split (CHR 0x2F) s = [name]" "labelKeyNameErrs name = []"
    | pfx name where "js_split (CHR 0x2F) s = [pfx, name]" "pfx \<noteq> []"
        "isDNS1123Subdomain pfx = []" "labelKeyNameErrs name = []"
    by (auto simp: isLabelKey_iff)
  then show ?r
  proof cases
    case 1
    then have "s = name" "CHR 0x2F \<notin> set name"
      using js_join_split [of "CHR 0x2F" s] js_split_parts [of name "CHR 0x2F" s] by auto
    with 1 show ?thesis by (simp add: labelKeyNameErrs_iff)
  next
    case 2
    then have "s = pfx @ CHR 0x2F # name" using js_join_split [of "CHR 0x2F" s] by simp
    with 2 show ?thesis by (auto simp: labelKeyNameErrs_iff isDNS1123Subdomain_iff)
  qed
next
  have ns: "framed any_alnum label_ext t \<Longrightarrow> CHR 0x2F \<notin> set t" for t
    by (auto simp: framed_def label_ext_def any_alnum_def lower_alnum_def less_eq_char_def)
  assume ?r
  then show ?l
  proof (elim disjE exE conjE)
    fix pfx name
    assume a: "s = pfx @ CHR 0x2F # name" "length pfx \<le> 253" "pfx \<noteq> []"
      "\<forall>p \<in> set (js_split (CHR ''.'') pfx). framed lower_alnum lower_alnum_dash p"
      "length name \<le> 63" "framed any_alnum label_ext name"
    then have d: "isDNS1123Subdomain pfx = []" by (simp add: isDNS1123Subdomain_iff)
    have "CHR 0x2F \<notin> set pfx"
      using dns_chars [OF d, of "CHR 0x2F"]
      by (auto simp: label_ext_def any_alnum_def lower_alnum_def less_eq_char_def)
    with a d ns [of name] show ?l
      by (simp add: isLabelKey_iff js_split_append js_split_no_sep labelKeyNameErrs_iff)
  qed (simp add: isLabelKey_iff js_split_no_sep labelKeyNameErrs_iff)
qed

lemma label_key_syntax_witness: "isLabelKey ''app-1'' = []"
  unfolding label_key_syntax
  by (simp add: framed_def label_ext_def any_alnum_def lower_alnum_def less_eq_char_simp less_char_simp)

end
