(* ===== verification/Labels.thy ===== *)
theory Labels
  imports FieldErrors LabelContent
begin

text \<open>
  \<open>src/apimachinery/pkg/labels/labels.ts\<close> and \<open>src/apimachinery/pkg/util/sets/string.ts\<close>: label
  sets (a \<open>Map<string, string>\<close>), their comparison and merge, and the legacy \<open>k=v,k=v\<close> syntax.
  The lemmas relate the loops to the finite map a label set stands for.
\<close>

type_synonym label_set = "(string, string) jmap"

section \<open>String sets (sets/string.ts)\<close>

type_synonym string_set = "string list"

definition new_string_set :: "string list \<Rightarrow> string_set" where
  "new_string_set items = js_add_all items []"

definition string_set_insert :: "string \<Rightarrow> string_set \<Rightarrow> string_set" where
  "string_set_insert item s = js_add item s"

definition string_set_list :: "string_set \<Rightarrow> string list" where
  "string_set_list s = sort s"

lemma string_set_list_id [simp]: "sorted s \<Longrightarrow> string_set_list s = s"
  by (simp add: string_set_list_def sorted_sort_id)

lemma new_string_set_distinct [simp]: "distinct xs \<Longrightarrow> new_string_set xs = xs"
proof -
  have "distinct (s @ xs) \<Longrightarrow> js_add_all xs s = s @ xs" for s
    by (induction xs arbitrary: s) (auto simp: js_add_def)
  from this [of "[]"] show "distinct xs \<Longrightarrow> new_string_set xs = xs" by (simp add: new_string_set_def)
qed

section \<open>Label sets (labels.ts)\<close>

definition ls_has :: "label_set \<Rightarrow> string \<Rightarrow> bool" where
  "ls_has ls label = jm_has ls label"

definition ls_get :: "label_set \<Rightarrow> string \<Rightarrow> string" where
  "ls_get ls label = (case jm_get ls label of Some v \<Rightarrow> v | None \<Rightarrow> [])"

definition ls_lookup :: "label_set \<Rightarrow> string \<Rightarrow> string \<times> bool" where
  "ls_lookup ls label =
     ((case jm_get ls label of Some v \<Rightarrow> v | None \<Rightarrow> []), jm_has ls label)"

definition ls_string :: "label_set \<Rightarrow> string" where
  "ls_string ls = js_join '','' (sort (map (\<lambda>(key, v). key @ ''='' @ v) ls))"

definition formatLabels :: "label_set \<Rightarrow> string" where
  "formatLabels labelMap = (let l = ls_string labelMap in if l = [] then ''<none>'' else l)"

text \<open>\<open>conflicts\<close>: the loop runs over the smaller set.\<close>

fun conflicts_loop :: "label_set \<Rightarrow> label_set \<Rightarrow> bool" where
  "conflicts_loop [] big = False"
| "conflicts_loop ((k, v) # small) big =
     (if ls_has big k \<and> ls_get big k \<noteq> v then True else conflicts_loop small big)"

definition label_conflicts :: "label_set \<Rightarrow> label_set \<Rightarrow> bool" where
  "label_conflicts labels1 labels2 =
     (if length labels2 < length labels1 then conflicts_loop labels2 labels1
      else conflicts_loop labels1 labels2)"

definition label_merge :: "label_set \<Rightarrow> label_set \<Rightarrow> label_set" where
  "label_merge labels1 labels2 =
     fold (\<lambda>(k, v) m. jm_set k v m) labels2 (fold (\<lambda>(k, v) m. jm_set k v m) labels1 [])"

fun equals_loop :: "label_set \<Rightarrow> label_set \<Rightarrow> bool" where
  "equals_loop [] labels2 = True"
| "equals_loop ((k, v) # labels1) labels2 =
     (if \<not> ls_has labels2 k then False
      else if ls_get labels2 k \<noteq> v then False
      else equals_loop labels1 labels2)"

definition label_equals :: "label_set \<Rightarrow> label_set \<Rightarrow> bool" where
  "label_equals labels1 labels2 =
     (if length labels1 \<noteq> length labels2 then False else equals_loop labels1 labels2)"

section \<open>Validation of one key or value (selector.ts)\<close>

definition validateLabelKey :: "string \<Rightarrow> fpath option \<Rightarrow> field_error option" where
  "validateLabelKey k path =
     (let errs = isLabelKey k in
      if length errs \<noteq> 0 then Some (fe_invalid path (BadString k) (js_join ''; '' errs)) else None)"

definition validateLabelValue :: "string \<Rightarrow> string \<Rightarrow> fpath option \<Rightarrow> field_error option" where
  "validateLabelValue k v path =
     (let errs = isLabelValue v in
      if length errs \<noteq> 0
      then Some (fe_invalid
        (Some (case path of Some p \<Rightarrow> path_key p k | None \<Rightarrow> FPath [] k None)) (BadString v) (js_join ''; '' errs))
      else None)"

text \<open>\<open>convertSelectorToLabelsMap\<close>: the labels converted before an error are returned with it.\<close>

fun convert_labels :: "fpath option \<Rightarrow> string list \<Rightarrow> label_set \<Rightarrow> label_set \<times> js_error option" where
  "convert_labels path [] labelsMap = (labelsMap, None)"
| "convert_labels path (label # labels) labelsMap =
     (case js_split (CHR ''='') label of
        [l0, l1] \<Rightarrow>
          (let key = js_trim l0 in
           case validateLabelKey key path of
             Some keyErr \<Rightarrow> (labelsMap, Some (FieldErr keyErr))
           | None \<Rightarrow>
               let v = js_trim l1 in
               case validateLabelValue key v path of
                 Some valueErr \<Rightarrow> (labelsMap, Some (FieldErr valueErr))
               | None \<Rightarrow> convert_labels path labels (jm_set key v labelsMap))
      | l \<Rightarrow> (labelsMap, Some (PlainError (''invalid selector: ['' @ js_join '' '' l @ '']''))))"

definition convertSelectorToLabelsMap :: "fpath option \<Rightarrow> string \<Rightarrow> label_set \<times> js_error option" where
  "convertSelectorToLabelsMap path selector =
     (if length selector = 0 then ([], None)
      else convert_labels path (js_split (CHR '','') selector) [])"

section \<open>The loops as operations on finite maps\<close>

lemma ls_lookup_eq: "ls_lookup ls k = (ls_get ls k, ls_has ls k)"
  by (simp add: ls_lookup_def ls_get_def ls_has_def)

lemma ls_get_Some [simp]: "jm_get ls k = Some v \<Longrightarrow> ls_get ls k = v"
  by (simp add: ls_get_def)

lemma ls_has_iff: "ls_has ls k \<longleftrightarrow> jm_get ls k \<noteq> None"
  by (simp add: ls_has_def jm_has_iff)

lemma conflicts_loop_iff:
  "conflicts_loop small big \<longleftrightarrow> (\<exists>p \<in> set small. \<exists>w. jm_get big (fst p) = Some w \<and> w \<noteq> snd p)"
proof (induction small big rule: conflicts_loop.induct)
  case (2 k v small big)
  then show ?case by (cases "jm_get big k") (simp_all add: ls_has_iff)
qed simp

lemma conflicts_map:
  "jm_ok l1 \<Longrightarrow> conflicts_loop l1 l2 \<longleftrightarrow>
    (\<exists>k v w. jm_get l1 k = Some v \<and> jm_get l2 k = Some w \<and> v \<noteq> w)"
  unfolding conflicts_loop_iff by (metis fst_conv jm_get_mem prod.collapse snd_conv)

lemma map_of_rev_ok: "jm_ok m \<Longrightarrow> map_of (rev m) = map_of m"
  by (subst map_of_inject_set) (auto simp: rev_map [symmetric])

text \<open>
  Two label sets conflict exactly when some key has different values in them, whichever set the
  loop runs over, and merging is the union of the maps in which the second set wins.
\<close>

theorem label_conflicts_iff:
  assumes "jm_ok l1" and "jm_ok l2"
  shows "(label_conflicts l1 l2 \<longleftrightarrow>
      (\<exists>k v w. jm_get l1 k = Some v \<and> jm_get l2 k = Some w \<and> v \<noteq> w)) \<and>
    label_conflicts l1 l2 = label_conflicts l2 l1 \<and>
    jm_get (label_merge l1 l2) = jm_get l1 ++ jm_get l2"
proof -
  have a: "label_conflicts l1 l2 \<longleftrightarrow>
      (\<exists>k v w. jm_get l1 k = Some v \<and> jm_get l2 k = Some w \<and> v \<noteq> w)" if "jm_ok l1" "jm_ok l2" for l1 l2
    using that by (simp add: label_conflicts_def conflicts_map) blast
  have "jm_get (label_merge l1 l2) = jm_get l1 ++ jm_get l2"
    using assms by (simp add: label_merge_def fold_jm_set_get map_of_rev_ok)
  with a [OF assms] a [OF assms(2,1)] show ?thesis by blast
qed

lemma label_conflicts_iff_witness:
  "label_conflicts [(''a'', ''1''), (''b'', ''2'')] [(''b'', ''3'')]"
  by (subst label_conflicts_iff [THEN conjunct1]) (auto intro!: exI [of _ "''b''"])

lemma equals_loop_iff: "equals_loop l1 l2 \<longleftrightarrow> (\<forall>k v. (k, v) \<in> set l1 \<longrightarrow> jm_get l2 k = Some v)"
proof (induction l1 l2 rule: equals_loop.induct)
  case (2 k v l1 l2)
  then show ?case by (cases "jm_get l2 k") (auto simp: ls_has_iff)
qed simp

lemma card_jm: "jm_ok m \<Longrightarrow> card (dom (jm_get m)) = length m"
  by (metis distinct_card dom_map_of_conv_image_fst length_map list.set_map)

text \<open>
  Equality of label sets is equality of the maps, whatever the insertion orders.
\<close>

lemma label_equals_iff:
  assumes "jm_ok l1" and "jm_ok l2"
  shows "label_equals l1 l2 \<longleftrightarrow> jm_get l1 = jm_get l2"
proof
  assume e: "label_equals l1 l2"
  then have len: "length l1 = length l2" and le: "equals_loop l1 l2"
    by (auto simp: label_equals_def split: if_splits)
  from le have sub: "jm_get l1 \<subseteq>\<^sub>m jm_get l2"
    unfolding equals_loop_iff map_le_def by (metis domIff map_of_SomeD option.exhaust)
  then have "dom (jm_get l1) \<subseteq> dom (jm_get l2)" by (rule map_le_implies_dom_le)
  moreover have "card (dom (jm_get l1)) = card (dom (jm_get l2))"
    using len card_jm [OF assms(1)] card_jm [OF assms(2)] by simp
  ultimately have "dom (jm_get l1) = dom (jm_get l2)"
    by (intro card_subset_eq finite_dom_map_of)
  with sub show "jm_get l1 = jm_get l2" by (metis map_le_antisym map_le_def)
next
  assume eq: "jm_get l1 = jm_get l2"
  then have "length l1 = length l2" using card_jm [OF assms(1)] card_jm [OF assms(2)] by simp
  moreover have "equals_loop l1 l2"
    unfolding equals_loop_iff by (metis assms(1) eq jm_get_mem)
  ultimately show "label_equals l1 l2" by (simp add: label_equals_def)
qed

lemma validateLabelKey_None: "validateLabelKey k path = None \<longleftrightarrow> isLabelKey k = []"
  by (simp add: validateLabelKey_def Let_def)

lemma validateLabelValue_None: "validateLabelValue k v path = None \<longleftrightarrow> isLabelValue v = []"
  by (simp add: validateLabelValue_def Let_def)

text \<open>What the conversion builds, also before an error: valid keys and values, one per key.\<close>

definition valid_labels :: "label_set \<Rightarrow> bool" where
  "valid_labels ls \<longleftrightarrow> jm_ok ls \<and> (\<forall>k v. (k, v) \<in> set ls \<longrightarrow> isLabelKey k = [] \<and> isLabelValue v = [])"

lemma valid_labels_set:
  "valid_labels ls \<Longrightarrow> isLabelKey k = [] \<Longrightarrow> isLabelValue v = [] \<Longrightarrow> valid_labels (jm_set k v ls)"
  unfolding valid_labels_def by (auto dest: jm_set_mem)

lemma convert_labels_valid:
  "valid_labels m \<Longrightarrow> valid_labels (fst (convert_labels path labels m))"
proof (induction path labels m rule: convert_labels.induct)
  case (2 path label labels m)
  show ?case
  proof (cases "\<exists>l0 l1. js_split (CHR ''='') label = [l0, l1]")
    case True
    then obtain l0 l1 where l: "js_split (CHR ''='') label = [l0, l1]" by blast
    show ?thesis
    proof (cases "validateLabelKey (js_trim l0) path = None \<and>
        validateLabelValue (js_trim l0) (js_trim l1) path = None")
      case True
      then have "valid_labels (jm_set (js_trim l0) (js_trim l1) m)"
        using "2.prems" by (simp add: valid_labels_set validateLabelKey_None validateLabelValue_None)
      with "2.IH" [OF l refl refl refl _ refl] True l show ?thesis by (simp add: Let_def)
    next
      case False
      with l "2.prems" show ?thesis by (auto simp: Let_def split: option.split)
    qed
  next
    case False
    with "2.prems" show ?thesis by (auto split: list.split)
  qed
qed simp

lemma convertSelectorToLabelsMap_valid: "valid_labels (fst (convertSelectorToLabelsMap path s))"
  using convert_labels_valid [of "[]"] by (simp add: convertSelectorToLabelsMap_def valid_labels_def)

end
