(* ===== verification/LabelSelector.thy ===== *)
theory LabelSelector
  imports Labels
begin

text \<open>
  \<open>src/apimachinery/pkg/labels/selector.ts\<close> without its parser: requirements, their validation and
  matching, and the three implementations of the \<open>Selector\<close> interface (a list of requirements, the
  selector of nothing, and a validated label set). \<open>localeCompare\<close>, which orders the requirements of
  a selector, is the parameter \<open>lc\<close>. The contract every selector keeps is a locale, interpreted on
  all three.
\<close>

section \<open>Operators (selection/operator.ts)\<close>

datatype operator =
    DoesNotExist | EqualsOp | DoubleEquals | InOp | NotEquals | NotIn | ExistsOp
  | GreaterThan | LessThan

fun operator_string :: "operator \<Rightarrow> string" where
  "operator_string DoesNotExist = ''!''"
| "operator_string EqualsOp = ''=''"
| "operator_string DoubleEquals = ''==''"
| "operator_string InOp = ''in''"
| "operator_string NotEquals = ''!=''"
| "operator_string NotIn = ''notin''"
| "operator_string ExistsOp = ''exists''"
| "operator_string GreaterThan = ''gt''"
| "operator_string LessThan = ''lt''"

definition binary_operators :: "operator list" where
  "binary_operators = [InOp, NotIn, EqualsOp, DoubleEquals, NotEquals, GreaterThan, LessThan]"

section \<open>Requirements\<close>

datatype requirement = Requirement (rq_key: string) (rq_op: operator) (rq_values: "string list")

definition req_has_value :: "requirement \<Rightarrow> string \<Rightarrow> bool" where
  "req_has_value r v \<longleftrightarrow> v \<in> set (rq_values r)"

definition req_compare :: "requirement \<Rightarrow> label_set \<Rightarrow> (int \<Rightarrow> int \<Rightarrow> bool) \<Rightarrow> bool" where
  "req_compare r ls cmp =
     (case ls_lookup ls (rq_key r) of (val, found) \<Rightarrow>
        if \<not> found then False
        else case go_parse_int val 10 64 of
          (_, Some _) \<Rightarrow> False
        | (labelValue, None) \<Rightarrow>
            (case rq_values r of
               [strValue] \<Rightarrow>
                 (case go_parse_int strValue 10 64 of
                    (_, Some _) \<Rightarrow> False
                  | (requirementValue, None) \<Rightarrow> cmp labelValue requirementValue)
             | _ \<Rightarrow> False))"

definition req_matches :: "requirement \<Rightarrow> label_set \<Rightarrow> bool" where
  "req_matches r ls =
     (case rq_op r of
        InOp \<Rightarrow> (case ls_lookup ls (rq_key r) of (val, found) \<Rightarrow> found \<and> req_has_value r val)
      | EqualsOp \<Rightarrow> (case ls_lookup ls (rq_key r) of (val, found) \<Rightarrow> found \<and> req_has_value r val)
      | DoubleEquals \<Rightarrow> (case ls_lookup ls (rq_key r) of (val, found) \<Rightarrow> found \<and> req_has_value r val)
      | NotIn \<Rightarrow> (case ls_lookup ls (rq_key r) of (val, found) \<Rightarrow> \<not> found \<or> \<not> req_has_value r val)
      | NotEquals \<Rightarrow> (case ls_lookup ls (rq_key r) of (val, found) \<Rightarrow> \<not> found \<or> \<not> req_has_value r val)
      | ExistsOp \<Rightarrow> ls_has ls (rq_key r)
      | DoesNotExist \<Rightarrow> \<not> ls_has ls (rq_key r)
      | GreaterThan \<Rightarrow> req_compare r ls (>)
      | LessThan \<Rightarrow> req_compare r ls (<))"

definition req_equal :: "requirement \<Rightarrow> requirement \<Rightarrow> bool" where
  "req_equal a b \<longleftrightarrow> rq_key a = rq_key b \<and> rq_op a = rq_op b \<and>
     length (rq_values a) = length (rq_values b) \<and>
     list_all2 (=) (rq_values a) (rq_values b)"

definition first_value :: "requirement \<Rightarrow> string" where
  "first_value r = (case rq_values r of v # _ \<Rightarrow> v | [] \<Rightarrow> [])"

definition req_string :: "requirement \<Rightarrow> string" where
  "req_string r =
     (case rq_op r of
        DoesNotExist \<Rightarrow> ''!'' @ rq_key r
      | ExistsOp \<Rightarrow> rq_key r
      | EqualsOp \<Rightarrow> rq_key r @ ''='' @ first_value r
      | DoubleEquals \<Rightarrow> rq_key r @ ''=='' @ first_value r
      | NotEquals \<Rightarrow> rq_key r @ ''!='' @ first_value r
      | GreaterThan \<Rightarrow> rq_key r @ ''>'' @ first_value r
      | LessThan \<Rightarrow> rq_key r @ ''<'' @ first_value r
      | _ \<Rightarrow> rq_key r @ '' '' @ operator_string (rq_op r) @ '' ('' @ js_join '','' (sort (rq_values r)) @ '')'')"

text \<open>\<open>newRequirement\<close>: the requirement is built whatever the errors found.\<close>

definition opt_list :: "'a option \<Rightarrow> 'a list" where
  "opt_list x = (case x of None \<Rightarrow> [] | Some a \<Rightarrow> [a])"

definition int_value_errs :: "fpath \<Rightarrow> string list \<Rightarrow> field_error list" where
  "int_value_errs valuePath vals =
     concat (map (\<lambda>(i, v). case go_parse_int v 10 64 of
         (_, Some _) \<Rightarrow> [fe_invalid (Some (path_index valuePath i)) (BadString v)
           (''for '' @ quoted ''Gt'' @ '', '' @ quoted ''Lt'' @ '' operators, the value must be an integer'')]
       | (_, None) \<Rightarrow> []) (enumerate 0 vals))"

definition op_errs :: "fpath \<Rightarrow> operator \<Rightarrow> string list \<Rightarrow> field_error list" where
  "op_errs valuePath op vals =
     (let bad = (\<lambda>m. [fe_invalid (Some valuePath) (BadStrings vals) m]) in
      case op of
        InOp \<Rightarrow> (if length vals = 0 then bad (''for '' @ quoted ''in'' @ '', '' @ quoted ''notin'' @ '' operators, values set can'' @ [CHR 0x27] @ ''t be empty'') else [])
      | NotIn \<Rightarrow> (if length vals = 0 then bad (''for '' @ quoted ''in'' @ '', '' @ quoted ''notin'' @ '' operators, values set can'' @ [CHR 0x27] @ ''t be empty'') else [])
      | EqualsOp \<Rightarrow> (if length vals \<noteq> 1 then bad ''exact-match compatibility requires one single value'' else [])
      | DoubleEquals \<Rightarrow> (if length vals \<noteq> 1 then bad ''exact-match compatibility requires one single value'' else [])
      | NotEquals \<Rightarrow> (if length vals \<noteq> 1 then bad ''exact-match compatibility requires one single value'' else [])
      | ExistsOp \<Rightarrow> (if length vals \<noteq> 0 then bad ''values set must be empty for exists and does not exist'' else [])
      | DoesNotExist \<Rightarrow> (if length vals \<noteq> 0 then bad ''values set must be empty for exists and does not exist'' else [])
      | _ \<Rightarrow> (if length vals \<noteq> 1 then bad (''for '' @ quoted ''Gt'' @ '', '' @ quoted ''Lt'' @ '' operators, exactly one value is required'') else [])
           @ int_value_errs valuePath vals)"

definition value_errs :: "string \<Rightarrow> fpath \<Rightarrow> string list \<Rightarrow> field_error list" where
  "value_errs key valuePath vals =
     concat (map (\<lambda>(i, v). opt_list (validateLabelValue key v (Some (path_index valuePath i))))
       (enumerate 0 vals))"

definition newRequirement ::
  "fpath option \<Rightarrow> string \<Rightarrow> operator \<Rightarrow> string list \<Rightarrow> requirement \<times> js_error option" where
  "newRequirement path key op vals =
     (let keyErrs = opt_list (validateLabelKey key (Some (child_path path ''key'')));
          valuePath = child_path path ''values''
      in (Requirement key op vals,
          el_to_aggregate (keyErrs @ op_errs valuePath op vals @ value_errs key valuePath vals)))"

section \<open>Selectors\<close>

datatype selector = InternalSelector "requirement list" | NothingSelector | ValidatedSetSelector label_set

definition everything :: selector where
  "everything = InternalSelector []"

definition by_key :: "(string \<Rightarrow> string \<Rightarrow> int) \<Rightarrow> requirement \<Rightarrow> requirement \<Rightarrow> int" where
  "by_key lc l r = lc (rq_key l) (rq_key r)"

text \<open>\<open>InternalSelector.matches\<close> and \<open>ValidatedSetSelector.matches\<close>: loops with an early return.\<close>

fun all_match :: "requirement list \<Rightarrow> label_set \<Rightarrow> bool" where
  "all_match [] labels = True"
| "all_match (requirement # rest) labels =
     (if \<not> req_matches requirement labels then False else all_match rest labels)"

fun set_matches :: "label_set \<Rightarrow> label_set \<Rightarrow> bool" where
  "set_matches [] labels = True"
| "set_matches ((k, v) # rest) labels =
     (case ls_lookup labels k of (val, present) \<Rightarrow>
        if \<not> present \<or> v \<noteq> val then False else set_matches rest labels)"

fun sel_matches :: "selector \<Rightarrow> label_set \<Rightarrow> bool" where
  "sel_matches (InternalSelector rs) labels = all_match rs labels"
| "sel_matches NothingSelector labels = False"
| "sel_matches (ValidatedSetSelector ls) labels = set_matches ls labels"

fun sel_empty :: "selector \<Rightarrow> bool" where
  "sel_empty (InternalSelector rs) = (length rs = 0)"
| "sel_empty NothingSelector = False"
| "sel_empty (ValidatedSetSelector ls) = (length ls = 0)"

fun sel_string :: "selector \<Rightarrow> string" where
  "sel_string (InternalSelector rs) = js_join '','' (map req_string rs)"
| "sel_string NothingSelector = []"
| "sel_string (ValidatedSetSelector ls) = ls_string ls"

definition selectorFromValidatedSet :: "(string \<Rightarrow> string \<Rightarrow> int) \<Rightarrow> label_set \<Rightarrow> selector" where
  "selectorFromValidatedSet lc ls =
     (if length ls = 0 then InternalSelector []
      else InternalSelector (js_sort (by_key lc) (map (\<lambda>(key, v). Requirement key EqualsOp [v]) ls)))"

fun internal_add :: "(string \<Rightarrow> string \<Rightarrow> int) \<Rightarrow> requirement list \<Rightarrow> selector \<Rightarrow> selector" where
  "internal_add lc new (InternalSelector rs) = InternalSelector (js_sort (by_key lc) (rs @ new))"
| "internal_add lc new s = s"

fun sel_add :: "(string \<Rightarrow> string \<Rightarrow> int) \<Rightarrow> requirement list \<Rightarrow> selector \<Rightarrow> selector" where
  "sel_add lc new (InternalSelector rs) = internal_add lc new (InternalSelector rs)"
| "sel_add lc new NothingSelector = NothingSelector"
| "sel_add lc new (ValidatedSetSelector ls) = internal_add lc new (selectorFromValidatedSet lc ls)"

fun internal_requirements :: "selector \<Rightarrow> requirement list \<times> bool" where
  "internal_requirements (InternalSelector rs) = (rs, True)"
| "internal_requirements _ = ([], False)"

fun sel_requirements :: "(string \<Rightarrow> string \<Rightarrow> int) \<Rightarrow> selector \<Rightarrow> requirement list \<times> bool" where
  "sel_requirements lc (InternalSelector rs) = (rs, True)"
| "sel_requirements lc NothingSelector = ([], False)"
| "sel_requirements lc (ValidatedSetSelector ls) = internal_requirements (selectorFromValidatedSet lc ls)"

text \<open>\<open>requiresExactMatch\<close>: the first requirement on the label decides.\<close>

fun exact_match :: "requirement list \<Rightarrow> string \<Rightarrow> string \<times> bool" where
  "exact_match [] label = ([], False)"
| "exact_match (r # rs) label =
     (if rq_key r = label then
        (if rq_op r \<in> {EqualsOp, DoubleEquals, InOp} \<and> length (rq_values r) = 1
         then (first_value r, True) else ([], False))
      else exact_match rs label)"

fun sel_requiresExactMatch :: "selector \<Rightarrow> string \<Rightarrow> string \<times> bool" where
  "sel_requiresExactMatch (InternalSelector rs) label = exact_match rs label"
| "sel_requiresExactMatch NothingSelector label = ([], False)"
| "sel_requiresExactMatch (ValidatedSetSelector ls) label =
     (case jm_get ls label of None \<Rightarrow> ([], False) | Some v \<Rightarrow> (v, True))"

fun validated_requirements :: "label_set \<Rightarrow> requirement list \<Rightarrow> js_error + requirement list" where
  "validated_requirements [] requirements = Inr requirements"
| "validated_requirements ((key, v) # rest) requirements =
     (case newRequirement None key EqualsOp [v] of
        (_, Some err) \<Rightarrow> Inl err
      | (r, None) \<Rightarrow> validated_requirements rest (requirements @ [r]))"

definition validatedSelectorFromSet ::
  "(string \<Rightarrow> string \<Rightarrow> int) \<Rightarrow> label_set \<Rightarrow> js_error + selector" where
  "validatedSelectorFromSet lc ls =
     (if length ls = 0 then Inr (InternalSelector [])
      else case validated_requirements ls [] of
        Inl err \<Rightarrow> Inl err
      | Inr rs \<Rightarrow> Inr (InternalSelector (js_sort (by_key lc) rs)))"

definition selectorFromSet :: "(string \<Rightarrow> string \<Rightarrow> int) \<Rightarrow> label_set \<Rightarrow> selector" where
  "selectorFromSet lc ls = selectorFromValidatedSet lc ls"

section \<open>Matching\<close>

lemma all_match_iff: "all_match rs l \<longleftrightarrow> (\<forall>r \<in> set rs. req_matches r l)"
  by (induction rs) auto

lemma set_matches_iff: "set_matches ls l \<longleftrightarrow> (\<forall>p \<in> set ls. jm_get l (fst p) = Some (snd p))"
proof (induction ls)
  case (Cons p ls)
  then show ?case
    by (cases p; cases "jm_get l (fst p)") (auto simp: ls_lookup_eq ls_has_iff)
qed simp

lemma req_matches_equals:
  "req_matches (Requirement k EqualsOp [v]) l \<longleftrightarrow> jm_get l k = Some v"
  by (cases "jm_get l k") (auto simp: req_matches_def req_has_value_def ls_lookup_eq ls_has_iff)

lemma all_match_sort [simp]: "all_match (js_sort c rs) l = all_match rs l"
  by (simp add: all_match_iff)

lemma selectorFromValidatedSet_matches:
  "sel_matches (selectorFromValidatedSet lc ls) l = set_matches ls l"
  by (auto simp: selectorFromValidatedSet_def all_match_iff set_matches_iff req_matches_equals)

text \<open>
  C32. What each requirement means: on the value of the key when the label set has it, and on its
  absence. \<open>in\<close>, \<open>=\<close> and \<open>==\<close> need the key, \<open>notin\<close> and \<open>!=\<close> also accept its absence, and
  \<open>gt\<close> and \<open>lt\<close> compare 64-bit decimal integers and reject everything that is not one.
\<close>

theorem req_matches_iff:
  "req_matches r l \<longleftrightarrow>
    (case rq_op r of
       ExistsOp \<Rightarrow> jm_get l (rq_key r) \<noteq> None
     | DoesNotExist \<Rightarrow> jm_get l (rq_key r) = None
     | GreaterThan \<Rightarrow> (\<exists>v w. jm_get l (rq_key r) = Some v \<and> rq_values r = [w] \<and>
         is_decimal v \<and> in_int64 (decimal_val v) \<and> is_decimal w \<and> in_int64 (decimal_val w) \<and>
         decimal_val v > decimal_val w)
     | LessThan \<Rightarrow> (\<exists>v w. jm_get l (rq_key r) = Some v \<and> rq_values r = [w] \<and>
         is_decimal v \<and> in_int64 (decimal_val v) \<and> is_decimal w \<and> in_int64 (decimal_val w) \<and>
         decimal_val v < decimal_val w)
     | NotIn \<Rightarrow> (\<forall>v \<in> set (rq_values r). jm_get l (rq_key r) \<noteq> Some v)
     | NotEquals \<Rightarrow> (\<forall>v \<in> set (rq_values r). jm_get l (rq_key r) \<noteq> Some v)
     | _ \<Rightarrow> (\<exists>v \<in> set (rq_values r). jm_get l (rq_key r) = Some v))"
proof -
  have cmp: "req_compare r l c \<longleftrightarrow> (\<exists>v w. jm_get l (rq_key r) = Some v \<and> rq_values r = [w] \<and>
      is_decimal v \<and> in_int64 (decimal_val v) \<and> is_decimal w \<and> in_int64 (decimal_val w) \<and>
      c (decimal_val v) (decimal_val w))" for c
  proof (cases "jm_get l (rq_key r)")
    case (Some v)
    have p: "snd (go_parse_int s 10 64) = None \<Longrightarrow>
        is_decimal s \<and> in_int64 (decimal_val s) \<and> fst (go_parse_int s 10 64) = decimal_val s" for s
      using parse_int_decides [of s] by simp
    have q: "snd (go_parse_int s 10 64) \<noteq> None \<Longrightarrow> \<not> (is_decimal s \<and> in_int64 (decimal_val s))" for s
      using parse_int_decides [of s] by simp
    show ?thesis
      using Some p [of v] q [of v] p [of "hd (rq_values r)"] q [of "hd (rq_values r)"]
      by (auto simp: req_compare_def ls_lookup_eq ls_has_iff
          split: prod.splits option.splits list.splits)
  qed (simp add: req_compare_def ls_lookup_eq ls_has_iff)
  show ?thesis
    by (cases "jm_get l (rq_key r)")
      (auto simp: req_matches_def req_has_value_def ls_lookup_eq ls_has_iff cmp split: operator.split)
qed

lemma req_matches_iff_witness:
  "req_matches (Requirement ''tier'' NotIn [''db'', ''web'']) [(''tier'', ''cache'')]"
  by (subst req_matches_iff) simp

section \<open>The selector contract\<close>

text \<open>
  What the clients of \<open>Selector\<close> (list filters, controllers, services) rely on.
\<close>

locale selector_contract =
  fixes sel :: "'s \<Rightarrow> bool"
    and matches :: "'s \<Rightarrow> label_set \<Rightarrow> bool"
    and empty :: "'s \<Rightarrow> bool"
    and add :: "requirement list \<Rightarrow> 's \<Rightarrow> 's"
    and requirements :: "'s \<Rightarrow> requirement list \<times> bool"
    and requiresExactMatch :: "'s \<Rightarrow> string \<Rightarrow> string \<times> bool"
  assumes add_matches: "sel s \<Longrightarrow> matches (add rs s) l \<longleftrightarrow> matches s l \<and> all_match rs l"
    and add_sel: "sel s \<Longrightarrow> sel (add rs s)"
    and empty_matches: "sel s \<Longrightarrow> empty s \<Longrightarrow> matches s l"
    and requirements_match:
      "sel s \<Longrightarrow> matches s l \<longleftrightarrow> snd (requirements s) \<and> all_match (fst (requirements s)) l"
    and exact: "sel s \<Longrightarrow> requiresExactMatch s k = (v, True) \<Longrightarrow> matches s l \<Longrightarrow> jm_get l k = Some v"
begin

lemma add_order_irrelevant: "sel s \<Longrightarrow> matches (add (rs @ rs') s) l = matches (add rs (add rs' s)) l"
  by (auto simp: add_matches add_sel all_match_iff)

lemma add_narrows: "sel s \<Longrightarrow> matches (add rs s) l \<Longrightarrow> matches s l"
  by (simp add: add_matches)

lemma empty_requirements: "sel s \<Longrightarrow> empty s \<Longrightarrow> all_match (fst (requirements s)) l"
  using empty_matches requirements_match by blast

text \<open>Selecting from a collection twice is selecting once by both sets of requirements.\<close>

lemma select_twice:
  "sel s \<Longrightarrow> filter (matches (add rs s)) xs = filter (\<lambda>l. all_match rs l) (filter (matches s) xs)"
  by (simp add: add_matches conj_commute cong: filter_cong)

lemma exact_match_excludes:
  "sel s \<Longrightarrow> requiresExactMatch s k = (v, True) \<Longrightarrow> jm_get l k \<noteq> Some v \<Longrightarrow> \<not> matches s l"
  using exact by blast

end

lemma exact_match_value:
  "exact_match rs k = (v, True) \<Longrightarrow> all_match rs l \<Longrightarrow> jm_get l k = Some v"
proof (induction rs)
  case (Cons r rs)
  then show ?case
    by (auto simp: req_matches_iff first_value_def length_Suc_conv
        split: if_splits operator.splits list.splits)
qed simp

definition is_internal :: "selector \<Rightarrow> bool" where
  "is_internal s \<longleftrightarrow> (case s of InternalSelector _ \<Rightarrow> True | _ \<Rightarrow> False)"

lemma internal_add_matches:
  "is_internal s \<Longrightarrow> sel_matches (internal_add lc rs s) l \<longleftrightarrow> sel_matches s l \<and> all_match rs l"
  by (cases s) (auto simp: is_internal_def all_match_iff)

lemma is_internal_validated [simp]: "is_internal (selectorFromValidatedSet lc ls)"
  by (simp add: is_internal_def selectorFromValidatedSet_def)

interpretation internal: selector_contract is_internal sel_matches sel_empty "sel_add lc"
    "sel_requirements lc" sel_requiresExactMatch for lc
proof unfold_locales
  fix s rs l k v
  assume s: "is_internal s"
  then obtain qs where [simp]: "s = InternalSelector qs" by (cases s) (auto simp: is_internal_def)
  show "sel_matches (sel_add lc rs s) l \<longleftrightarrow> sel_matches s l \<and> all_match rs l"
    using internal_add_matches [OF s] by simp
  show "is_internal (sel_add lc rs s)" by (simp add: is_internal_def)
  show "sel_empty s \<Longrightarrow> sel_matches s l" by simp
  show "sel_matches s l \<longleftrightarrow> snd (sel_requirements lc s) \<and> all_match (fst (sel_requirements lc s)) l" by simp
  show "sel_requiresExactMatch s k = (v, True) \<Longrightarrow> sel_matches s l \<Longrightarrow> jm_get l k = Some v"
    using exact_match_value by simp
qed

interpretation nothing: selector_contract "\<lambda>s. s = NothingSelector" sel_matches sel_empty "sel_add lc"
    "sel_requirements lc" sel_requiresExactMatch for lc
  by unfold_locales auto

text \<open>A validated set with distinct keys, or the full selector it becomes when requirements are added.\<close>

definition is_validated_set :: "selector \<Rightarrow> bool" where
  "is_validated_set s \<longleftrightarrow>
     (case s of ValidatedSetSelector ls \<Rightarrow> jm_ok ls | InternalSelector _ \<Rightarrow> True | _ \<Rightarrow> False)"

lemma validated_requirements_match:
  "snd (internal_requirements (selectorFromValidatedSet lc ls)) \<and>
   all_match (fst (internal_requirements (selectorFromValidatedSet lc ls))) l = set_matches ls l"
  using selectorFromValidatedSet_matches [of lc ls l] is_internal_validated [of lc ls]
  by (cases "selectorFromValidatedSet lc ls") (auto simp: is_internal_def)

interpretation validated: selector_contract is_validated_set sel_matches sel_empty "sel_add lc"
    "sel_requirements lc" sel_requiresExactMatch for lc
proof unfold_locales
  fix s rs l k v
  assume s: "is_validated_set s"
  show "sel_matches (sel_add lc rs s) l \<longleftrightarrow> sel_matches s l \<and> all_match rs l"
    using s internal_add_matches [OF is_internal_validated]
    by (cases s) (auto simp: is_validated_set_def all_match_iff selectorFromValidatedSet_matches)
  show "is_validated_set (sel_add lc rs s)"
    using s is_internal_validated
    by (cases s) (auto simp: is_validated_set_def selectorFromValidatedSet_def)
  show "sel_empty s \<Longrightarrow> sel_matches s l"
    using s by (cases s) (auto simp: is_validated_set_def)
  show "sel_matches s l \<longleftrightarrow> snd (sel_requirements lc s) \<and> all_match (fst (sel_requirements lc s)) l"
    using s validated_requirements_match [of lc] by (cases s) (auto simp: is_validated_set_def)
  show "sel_requiresExactMatch s k = (v, True) \<Longrightarrow> sel_matches s l \<Longrightarrow> jm_get l k = Some v"
    using s exact_match_value [of _ k v l]
    by (cases s) (auto simp: is_validated_set_def set_matches_iff split: option.splits dest!: map_of_SomeD, force)
qed

end
