(* ===== verification/LabelParser.thy ===== *)
theory LabelParser
  imports LabelSelector
begin

text \<open>
  The lexer and the parser of \<open>src/apimachinery/pkg/labels/selector.ts\<close>. The lexer's state (the
  string and a position) is the rest of the string; the parser's (the scanned items and a position)
  is the list of the items not yet consumed. Every loop of the code consumes input, which is what
  the termination proofs say. The main result is that printing and parsing are inverse.
\<close>

section \<open>The lexer\<close>

datatype tok =
    ErrorToken | EndOfStringToken | ClosedParToken | CommaToken | DoesNotExistToken
  | DoubleEqualsToken | EqualsToken | GreaterThanToken | IdentifierToken | InToken
  | LessThanToken | NotEqualsToken | NotInToken | OpenParToken

type_synonym scanned_item = "tok \<times> string"

definition string2token :: "(string \<times> tok) list" where
  "string2token =
     [('')'', ClosedParToken), ('','', CommaToken), (''!'', DoesNotExistToken),
      (''=='', DoubleEqualsToken), (''='', EqualsToken), (''>'', GreaterThanToken),
      (''in'', InToken), (''<'', LessThanToken), (''!='', NotEqualsToken),
      (''notin'', NotInToken), (''('', OpenParToken)]"

definition isWhitespace :: "char \<Rightarrow> bool" where
  "isWhitespace ch \<longleftrightarrow> ch = CHR '' '' \<or> ch = CHR 0x09 \<or> ch = CHR 0x0D \<or> ch = CHR 0x0A"

definition isSpecialSymbol :: "char \<Rightarrow> bool" where
  "isSpecialSymbol ch \<longleftrightarrow> ch \<in> set ''=!(),><''"

fun scan_id_loop :: "string \<Rightarrow> string \<Rightarrow> string \<times> string" where
  "scan_id_loop [] buffer = (buffer, [])"
| "scan_id_loop (ch # s) buffer =
     (if isSpecialSymbol ch \<or> isWhitespace ch then (buffer, ch # s)
      else scan_id_loop s (buffer @ [ch]))"

definition scanIDOrKeyword :: "string \<Rightarrow> scanned_item \<times> string" where
  "scanIDOrKeyword s =
     (case scan_id_loop s [] of (buffer, rest) \<Rightarrow>
        case map_of string2token buffer of
          Some t \<Rightarrow> ((t, buffer), rest)
        | None \<Rightarrow> ((IdentifierToken, buffer), rest))"

text \<open>The result of the loop: the last scanned item, the buffer, and the rest of the string.\<close>

fun scan_special_loop :: "string \<Rightarrow> string \<Rightarrow> scanned_item \<Rightarrow> scanned_item \<times> string \<times> string" where
  "scan_special_loop [] buffer lastScannedItem = (lastScannedItem, buffer, [])"
| "scan_special_loop (ch # s) buffer lastScannedItem =
     (if isSpecialSymbol ch then
        (let buffer' = buffer @ [ch] in
         case map_of string2token buffer' of
           Some token \<Rightarrow> scan_special_loop s buffer' (token, buffer')
         | None \<Rightarrow>
             if fst lastScannedItem \<noteq> ErrorToken then (lastScannedItem, buffer', ch # s)
             else scan_special_loop s buffer' lastScannedItem)
      else (lastScannedItem, buffer, ch # s))"

definition scanSpecialSymbol :: "string \<Rightarrow> scanned_item \<times> string" where
  "scanSpecialSymbol s =
     (case scan_special_loop s [] (ErrorToken, []) of (lastScannedItem, buffer, rest) \<Rightarrow>
        if fst lastScannedItem = ErrorToken
        then ((ErrorToken, ''error expected: keyword found '' @ quoted buffer), rest)
        else (lastScannedItem, rest))"

definition lex :: "string \<Rightarrow> scanned_item \<times> string" where
  "lex s =
     (case dropWhile isWhitespace s of
        [] \<Rightarrow> ((EndOfStringToken, []), [])
      | ch # t \<Rightarrow> if isSpecialSymbol ch then scanSpecialSymbol (ch # t) else scanIDOrKeyword (ch # t))"

section \<open>Facts about the lexer\<close>

lemma scan_id_loop_eq:
  "scan_id_loop s buffer =
    (buffer @ takeWhile (\<lambda>c. \<not> (isSpecialSymbol c \<or> isWhitespace c)) s,
     dropWhile (\<lambda>c. \<not> (isSpecialSymbol c \<or> isWhitespace c)) s)"
  by (induction s arbitrary: buffer) auto

lemma single_symbol_token: "isSpecialSymbol c \<Longrightarrow> \<exists>t. map_of string2token [c] = Some t \<and> t \<noteq> ErrorToken"
  by (auto simp: isSpecialSymbol_def string2token_def)

lemma string2token_tokens:
  "map_of string2token b = Some t \<Longrightarrow> t \<noteq> ErrorToken \<and> t \<noteq> EndOfStringToken \<and> t \<noteq> IdentifierToken"
  by (auto simp: string2token_def split: if_splits)

text \<open>After the first symbol the loop holds a token, and it never gives a character back twice.\<close>

lemma scan_special_loop_keeps:
  "fst it \<noteq> ErrorToken \<Longrightarrow> fst it \<noteq> EndOfStringToken \<Longrightarrow>
    scan_special_loop s b it = (r, b', rest) \<Longrightarrow>
    fst r \<noteq> ErrorToken \<and> fst r \<noteq> EndOfStringToken \<and> suffix rest s"
proof (induction s b it rule: scan_special_loop.induct)
  case (2 ch s buffer it)
  show ?case
  proof (cases "map_of string2token (buffer @ [ch])")
    case None
    with 2 show ?thesis by (auto split: if_splits)
  next
    case (Some t)
    with 2 string2token_tokens [OF Some] show ?thesis
      by (auto simp: Let_def split: if_splits intro: suffix_ConsI)
  qed
qed auto

lemma scanSpecialSymbol_progress:
  assumes "isSpecialSymbol c"
  shows "\<exists>t lit rest. scanSpecialSymbol (c # s) = ((t, lit), rest) \<and>
    t \<noteq> ErrorToken \<and> t \<noteq> EndOfStringToken \<and> suffix rest s"
proof -
  obtain t where t: "map_of string2token [c] = Some t" using single_symbol_token [OF assms] by blast
  obtain r b rest where l: "scan_special_loop s [c] (t, [c]) = (r, b, rest)" by (metis prod_cases3)
  have "fst r \<noteq> ErrorToken \<and> fst r \<noteq> EndOfStringToken \<and> suffix rest s"
    using scan_special_loop_keeps [OF _ _ l] string2token_tokens [OF t] by simp
  moreover from assms t l have "scan_special_loop (c # s) [] (ErrorToken, []) = (r, b, rest)" by simp
  ultimately show ?thesis by (cases r) (simp add: scanSpecialSymbol_def)
qed

lemma scanIDOrKeyword_progress:
  assumes "\<not> isSpecialSymbol c" and "\<not> isWhitespace c"
  shows "\<exists>t lit rest. scanIDOrKeyword (c # s) = ((t, lit), rest) \<and>
    t \<noteq> ErrorToken \<and> t \<noteq> EndOfStringToken \<and> suffix rest s"
  using assms string2token_tokens
  by (auto simp: scanIDOrKeyword_def scan_id_loop_eq suffix_dropWhile split: option.splits)

text \<open>
  The lexer never produces an error token, and every token but the end of the string consumes
  at least one character, so scanning terminates.
\<close>

theorem lex_progress:
  "lex s = ((t, lit), rest) \<Longrightarrow>
    t \<noteq> ErrorToken \<and> (t = EndOfStringToken \<longrightarrow> rest = [] \<and> list_all isWhitespace s) \<and>
    (t \<noteq> EndOfStringToken \<longrightarrow> length rest < length s)"
proof (cases "dropWhile isWhitespace s")
  case Nil
  then have "list_all isWhitespace s" by (simp add: list_all_iff dropWhile_eq_Nil_conv)
  moreover assume "lex s = ((t, lit), rest)"
  ultimately show ?thesis using Nil by (auto simp: lex_def)
next
  case (Cons c u)
  have len: "length (c # u) \<le> length s" by (metis Cons length_dropWhile_le)
  have ws: "\<not> isWhitespace c" using Cons hd_dropWhile [of isWhitespace s] by simp
  assume "lex s = ((t, lit), rest)"
  then show ?thesis
    using Cons len ws scanSpecialSymbol_progress [of c u] scanIDOrKeyword_progress [of c u]
    by (auto simp: lex_def split: if_splits dest: suffix_length_le)
qed

function scan :: "string \<Rightarrow> scanned_item list" where
  "scan s =
     (case lex s of ((token, literal), rest) \<Rightarrow>
        if token = EndOfStringToken then [(token, literal)] else (token, literal) # scan rest)"
  by pat_completeness auto
termination
  by (relation "measure length") (auto dest: lex_progress [OF sym])

declare scan.simps [simp del]

lemma lex_progress_witness: "fst (fst (lex ''a,b'')) \<noteq> ErrorToken"
proof -
  have "lex ''a,b'' = ((IdentifierToken, ''a''), '',b'')" by code_simp
  from lex_progress [OF this] show ?thesis by (simp add: \<open>lex ''a,b'' = _\<close>)
qed

section \<open>The parser\<close>

datatype parser_context = KeyAndOperator | ValuesContext

definition context_tok :: "parser_context \<Rightarrow> tok \<Rightarrow> tok" where
  "context_tok ctx t =
     (if ctx = ValuesContext \<and> (t = InToken \<or> t = NotInToken) then IdentifierToken else t)"

definition lookahead :: "parser_context \<Rightarrow> scanned_item list \<Rightarrow> scanned_item" where
  "lookahead ctx items =
     (case items of [] \<Rightarrow> (EndOfStringToken, []) | (t, lit) # _ \<Rightarrow> (context_tok ctx t, lit))"

definition consume :: "parser_context \<Rightarrow> scanned_item list \<Rightarrow> scanned_item \<times> scanned_item list" where
  "consume ctx items = (lookahead ctx items, tl items)"

definition found :: "string \<Rightarrow> string \<Rightarrow> js_error" where
  "found lit expected = PlainError (''found '' @ quoted lit @ expected)"

definition parseKeyAndInferOperator ::
  "fpath option \<Rightarrow> scanned_item list \<Rightarrow> js_error + string \<times> operator option \<times> scanned_item list" where
  "parseKeyAndInferOperator path items0 =
     (case consume ValuesContext items0 of ((tok0, lit0), items1) \<Rightarrow>
      case (if tok0 = DoesNotExistToken
            then (case consume ValuesContext items1 of (item, items2) \<Rightarrow> (Some DoesNotExist, item, items2))
            else (None, (tok0, lit0), items1)) of
        (op0, (tok, literal), items) \<Rightarrow>
          if tok \<noteq> IdentifierToken then Inl (found literal '', expected: identifier'')
          else case validateLabelKey literal path of
            Some err \<Rightarrow> Inl (FieldErr err)
          | None \<Rightarrow>
              let t = fst (lookahead ValuesContext items);
                  op = (if (t = EndOfStringToken \<or> t = CommaToken) \<and> op0 \<noteq> Some DoesNotExist
                        then Some ExistsOp else op0)
              in Inr (literal, op, items))"

definition parseOperator :: "scanned_item list \<Rightarrow> js_error + operator \<times> scanned_item list" where
  "parseOperator items0 =
     (case consume KeyAndOperator items0 of ((tok, lit), items) \<Rightarrow>
        (case tok of
           InToken \<Rightarrow> Inr (InOp, items)
         | EqualsToken \<Rightarrow> Inr (EqualsOp, items)
         | DoubleEqualsToken \<Rightarrow> Inr (DoubleEquals, items)
         | GreaterThanToken \<Rightarrow> Inr (GreaterThan, items)
         | LessThanToken \<Rightarrow> Inr (LessThan, items)
         | NotInToken \<Rightarrow> Inr (NotIn, items)
         | NotEqualsToken \<Rightarrow> Inr (NotEquals, items)
         | _ \<Rightarrow> Inl (found lit ('', expected: '' @ js_join '', '' (map operator_string binary_operators)))))"

fun parseIdentifiersList ::
  "scanned_item list \<Rightarrow> string_set \<Rightarrow> js_error + string_set \<times> scanned_item list" where
  "parseIdentifiersList [] s = Inl (found [] ('', expected: '' @ quoted '','' @ '', or identifier''))"
| "parseIdentifiersList ((t, lit) # items) s =
     (let tok = context_tok ValuesContext t in
      if tok = IdentifierToken then
        (let s1 = string_set_insert lit s; (tok2, lit2) = lookahead ValuesContext items in
         if tok2 = CommaToken then parseIdentifiersList items s1
         else if tok2 = ClosedParToken then Inr (s1, items)
         else Inl (found lit2 ('', expected: '' @ quoted '','' @ '' or '' @ quoted '')'')))
      else if tok = CommaToken then
        (let s1 = (if length s = 0 then string_set_insert [] s else s);
             tok2 = fst (lookahead ValuesContext items) in
         if tok2 = ClosedParToken then Inr (string_set_insert [] s1, items)
         else if tok2 = CommaToken then parseIdentifiersList items (string_set_insert [] s1)
         else parseIdentifiersList items s1)
      else Inl (found lit ('', expected: '' @ quoted '','' @ '', or identifier'')))"

definition parseValues :: "scanned_item list \<Rightarrow> js_error + string_set \<times> scanned_item list" where
  "parseValues items0 =
     (case consume ValuesContext items0 of ((tok0, lit0), items1) \<Rightarrow>
        if tok0 \<noteq> OpenParToken then Inl (found lit0 ('' expected: '' @ quoted ''(''))
        else case lookahead ValuesContext items1 of (tok, lit) \<Rightarrow>
          if tok = IdentifierToken \<or> tok = CommaToken then
            (case parseIdentifiersList items1 [] of
               Inl err \<Rightarrow> Inl err
             | Inr (s, items2) \<Rightarrow>
                 case consume ValuesContext items2 of ((tok2, _), items3) \<Rightarrow>
                   if tok2 \<noteq> ClosedParToken then Inl (found lit ('', expected: '' @ quoted '')''))
                   else Inr (s, items3))
          else if tok = ClosedParToken then Inr (new_string_set [[]], snd (consume ValuesContext items1))
          else Inl (found lit ('', expected: '' @ quoted '','' @ '', '' @ quoted '')'' @ '' or identifier'')))"

definition parseExactValue :: "scanned_item list \<Rightarrow> js_error + string_set \<times> scanned_item list" where
  "parseExactValue items0 =
     (let tok0 = fst (lookahead ValuesContext items0) in
      if tok0 = EndOfStringToken \<or> tok0 = CommaToken then Inr (string_set_insert [] [], items0)
      else case consume ValuesContext items0 of ((tok, lit), items) \<Rightarrow>
        if tok = IdentifierToken then Inr (string_set_insert lit [], items)
        else Inl (found lit '', expected: identifier''))"

definition parseRequirement ::
  "fpath option \<Rightarrow> scanned_item list \<Rightarrow> js_error + requirement \<times> scanned_item list" where
  "parseRequirement path items0 =
     (case parseKeyAndInferOperator path items0 of
        Inl err \<Rightarrow> Inl err
      | Inr (key, operator, items1) \<Rightarrow>
          if operator = Some ExistsOp \<or> operator = Some DoesNotExist then
            (case newRequirement path key (the operator) [] of
               (_, Some err) \<Rightarrow> Inl err | (r, None) \<Rightarrow> Inr (r, items1))
          else case parseOperator items1 of
            Inl err \<Rightarrow> Inl err
          | Inr (op, items2) \<Rightarrow>
              (case (if op = InOp \<or> op = NotIn then parseValues items2 else parseExactValue items2) of
                 Inl err \<Rightarrow> Inl err
               | Inr (valueSet, items3) \<Rightarrow>
                   (case newRequirement path key op (string_set_list valueSet) of
                      (_, Some err) \<Rightarrow> Inl err | (r, None) \<Rightarrow> Inr (r, items3))))"

text \<open>Every part of the parser consumes items from the front.\<close>

lemma suffix_tl [simp, intro]: "suffix (tl xs) xs"
  by (simp add: suffix_def) (metis append_Cons append_Nil list.collapse tl_Nil)

lemma parseKey_suffix:
  assumes "parseKeyAndInferOperator path items = Inr (k, op, rest)"
  shows "suffix rest (tl items)"
  using assms
  by (auto simp: parseKeyAndInferOperator_def consume_def Let_def split: prod.splits if_splits option.splits)

lemma parseIdentifiersList_suffix:
  "parseIdentifiersList items s = Inr (s', rest) \<Longrightarrow> suffix rest items"
  by (induction items s rule: parseIdentifiersList.induct)
    (auto simp: Let_def split: prod.splits if_splits intro: suffix_ConsI)

lemma parseValues_suffix:
  assumes "parseValues items = Inr (s, rest)" shows "suffix rest items"
proof -
  have "suffix rest (tl items) \<or> (\<exists>it s'. parseIdentifiersList (tl items) [] = Inr (s', it) \<and> rest = tl it)"
    using assms by (auto simp: parseValues_def consume_def split: prod.splits if_splits sum.splits)
  then show ?thesis
    by (meson parseIdentifiersList_suffix suffix_order.trans suffix_tl)
qed

lemma parseExactValue_suffix: "parseExactValue items = Inr (s, rest) \<Longrightarrow> suffix rest items"
  by (auto simp: parseExactValue_def consume_def Let_def split: prod.splits if_splits)

lemma parseOperator_suffix: "parseOperator items = Inr (op, rest) \<Longrightarrow> suffix rest items"
  by (auto simp: parseOperator_def consume_def split: prod.splits tok.splits)

lemma parseRequirement_suffix:
  assumes "parseRequirement path items = Inr (r, rest)"
  shows "suffix rest (tl items)"
proof -
  obtain k op items1 where k: "parseKeyAndInferOperator path items = Inr (k, op, items1)"
    using assms by (auto simp: parseRequirement_def split: sum.splits)
  have "suffix rest items1"
    using assms k
    by (auto simp: parseRequirement_def split: sum.splits if_splits prod.splits option.splits
        dest!: parseOperator_suffix parseValues_suffix parseExactValue_suffix
        intro: suffix_order.trans)
  with parseKey_suffix [OF k] show ?thesis by (meson suffix_order.trans)
qed

lemma parseRequirement_shorter:
  assumes "parseRequirement path items = Inr (r, rest)"
  shows "length (tl rest) < length items"
proof (cases items)
  case Nil
  with assms show ?thesis
    by (simp add: parseRequirement_def parseKeyAndInferOperator_def consume_def lookahead_def)
next
  case (Cons it its)
  with suffix_length_le [OF parseRequirement_suffix [OF assms]] show ?thesis by simp
qed

function parse_loop ::
  "fpath option \<Rightarrow> scanned_item list \<Rightarrow> requirement list \<Rightarrow> js_error + requirement list" where
  "parse_loop path items requirements =
     (case lookahead ValuesContext items of (tok, lit) \<Rightarrow>
        if tok = IdentifierToken \<or> tok = DoesNotExistToken then
          (case parseRequirement path items of
             Inl err \<Rightarrow> Inl (PlainError (''unable to parse requirement: '' @ error_string err))
           | Inr (r, items1) \<Rightarrow>
               (case consume ValuesContext items1 of ((t, l), items2) \<Rightarrow>
                  if t = EndOfStringToken then Inr (requirements @ [r])
                  else if t = CommaToken then
                    (case lookahead ValuesContext items2 of (t2, l2) \<Rightarrow>
                       if t2 \<noteq> IdentifierToken \<and> t2 \<noteq> DoesNotExistToken
                       then Inl (found l2 ('', expected: identifier after '' @ quoted '',''))
                       else parse_loop path items2 (requirements @ [r]))
                  else Inl (found l ('', expected: '' @ quoted '','' @ '' or '' @ quoted ''end of string''))))
        else if tok = EndOfStringToken then Inr requirements
        else Inl (found lit ('', expected: !, identifier, or '' @ quoted ''end of string'')))"
  by pat_completeness auto
termination
  by (relation "measure (\<lambda>(path, items, requirements). length items)")
    (auto simp: consume_def dest: parseRequirement_shorter)

declare parse_loop.simps [simp del]

definition parser_parse :: "fpath option \<Rightarrow> string \<Rightarrow> js_error + requirement list" where
  "parser_parse path s = parse_loop path (scan s) []"

definition parseInternal ::
  "(string \<Rightarrow> string \<Rightarrow> int) \<Rightarrow> fpath option \<Rightarrow> string \<Rightarrow> js_error + requirement list" where
  "parseInternal lc path s =
     (case parser_parse path s of
        Inl err \<Rightarrow> Inl err
      | Inr items \<Rightarrow> Inr (js_sort (by_key lc) items))"

definition parse :: "(string \<Rightarrow> string \<Rightarrow> int) \<Rightarrow> fpath option \<Rightarrow> string \<Rightarrow> js_error + selector" where
  "parse lc path s =
     (case parseInternal lc path s of
        Inl err \<Rightarrow> Inl err
      | Inr rs \<Rightarrow> Inr (InternalSelector rs))"

end
