(* ===== verification/LabelRoundtrip.thy ===== *)
theory LabelRoundtrip
  imports LabelParser
begin

text \<open>
  Printing and parsing label selectors. A requirement is canonical when \<open>newRequirement\<close> accepts it
  and its values are sorted without duplicates, which is what the parser produces. Printed
  requirements scan to the tokens \<open>req_toks\<close>, from which the parser rebuilds the requirement.
\<close>

section \<open>Accepted requirements\<close>

definition arity_ok :: "operator \<Rightarrow> string list \<Rightarrow> bool" where
  "arity_ok op vals =
     (case op of
        InOp \<Rightarrow> vals \<noteq> []
      | NotIn \<Rightarrow> vals \<noteq> []
      | ExistsOp \<Rightarrow> vals = []
      | DoesNotExist \<Rightarrow> vals = []
      | GreaterThan \<Rightarrow> length vals = 1 \<and> (\<forall>v \<in> set vals. is_decimal v \<and> in_int64 (decimal_val v))
      | LessThan \<Rightarrow> length vals = 1 \<and> (\<forall>v \<in> set vals. is_decimal v \<and> in_int64 (decimal_val v))
      | _ \<Rightarrow> length vals = 1)"

definition accepted :: "requirement \<Rightarrow> bool" where
  "accepted r \<longleftrightarrow> isLabelKey (rq_key r) = [] \<and> arity_ok (rq_op r) (rq_values r) \<and>
     (\<forall>v \<in> set (rq_values r). isLabelValue v = [])"

lemma opt_list_Nil [simp]: "opt_list x = [] \<longleftrightarrow> x = None"
  by (cases x) (auto simp: opt_list_def)

lemma enumerate_all: "(\<forall>p \<in> set (enumerate n xs). P (snd p)) \<longleftrightarrow> (\<forall>x \<in> set xs. P x)"
proof -
  have "set xs = snd ` set (enumerate n xs)" by (metis list.set_map map_snd_enumerate)
  then show ?thesis by simp
qed

lemma int_value_errs_Nil:
  "int_value_errs p vals = [] \<longleftrightarrow> (\<forall>v \<in> set vals. is_decimal v \<and> in_int64 (decimal_val v))"
proof -
  have one: "(case snd (go_parse_int v 10 64) of None \<Rightarrow> [] | Some _ \<Rightarrow> [x]) = [] \<longleftrightarrow>
      is_decimal v \<and> in_int64 (decimal_val v)" for v :: string and x :: field_error
    using parse_int_decides [of v] by (auto split: option.splits)
  show ?thesis
    unfolding int_value_errs_def using enumerate_all [of 0 vals "\<lambda>v. is_decimal v \<and> in_int64 (decimal_val v)"]
    by (simp add: case_prod_beta one)
qed

lemma value_errs_Nil: "value_errs k p vals = [] \<longleftrightarrow> (\<forall>v \<in> set vals. isLabelValue v = [])"
  unfolding value_errs_def using enumerate_all [of 0 vals "\<lambda>v. isLabelValue v = []"]
  by (simp add: case_prod_beta validateLabelValue_None)

lemma op_errs_Nil: "op_errs p op vals = [] \<longleftrightarrow> arity_ok op vals"
  by (cases op) (simp_all add: op_errs_def arity_ok_def Let_def int_value_errs_Nil)

lemma el_to_aggregate_None: "el_to_aggregate errs = None \<longleftrightarrow> errs = []"
proof (cases errs)
  case (Cons e es)
  then have "dedup_errors errs [] \<noteq> []" using dedup_errors_messages [of errs "[]"] by force
  with Cons show ?thesis by (simp add: el_to_aggregate_def new_aggregate_def)
qed (simp add: el_to_aggregate_def)

text \<open>
  \<open>newRequirement\<close> reports no error exactly when the key is a valid label key, the values are
  valid label values, and their number (and, for \<open>gt\<close> and \<open>lt\<close>, their decimal form) fits the
  operator; where the field path points does not matter.
\<close>

theorem newRequirement_accepts:
  "newRequirement path key op vals = (r, err) \<Longrightarrow>
    r = Requirement key op vals \<and> (err = None \<longleftrightarrow> accepted r)"
  by (auto simp: newRequirement_def Let_def el_to_aggregate_None op_errs_Nil value_errs_Nil
      validateLabelKey_None accepted_def)

lemma newRequirement_accepts_witness:
  "snd (newRequirement None ''a'' GreaterThan [''x'']) \<noteq> None"
proof -
  obtain r err where n: "newRequirement None ''a'' GreaterThan [''x''] = (r, err)" by (meson surj_pair)
  have "\<not> accepted (Requirement ''a'' GreaterThan [''x''])" by code_simp
  with newRequirement_accepts [OF n] n show ?thesis by auto
qed

lemma newRequirement_ok:
  "accepted (Requirement key op vals) \<Longrightarrow>
    newRequirement path key op vals = (Requirement key op vals, None)"
  using newRequirement_accepts [of path key op vals] by (metis prod.collapse)

definition canonical :: "requirement \<Rightarrow> bool" where
  "canonical r \<longleftrightarrow> accepted r \<and> sorted (rq_values r) \<and> distinct (rq_values r)"

section \<open>Scanning printed text\<close>

definition plain :: "char \<Rightarrow> bool" where
  "plain c \<longleftrightarrow> \<not> isSpecialSymbol c \<and> \<not> isWhitespace c"

definition word :: "string \<Rightarrow> bool" where
  "word w \<longleftrightarrow> w \<noteq> [] \<and> (\<forall>c \<in> set w. plain c)"

definition word_tok :: "string \<Rightarrow> tok" where
  "word_tok w = (case map_of string2token w of Some t \<Rightarrow> t | None \<Rightarrow> IdentifierToken)"

definition stops :: "string \<Rightarrow> bool" where
  "stops s \<longleftrightarrow> (case s of [] \<Rightarrow> True | c # _ \<Rightarrow> \<not> plain c)"

lemma key_char_plain: "key_char c \<Longrightarrow> plain c"
  by (auto simp: key_char_def label_ext_def any_alnum_def lower_alnum_def plain_def isSpecialSymbol_def
      isWhitespace_def less_eq_char_def)

lemma key_word: "isLabelKey k = [] \<Longrightarrow> word k"
  using label_key_chars key_char_plain label_key_not_Nil by (auto simp: word_def)

lemma value_word: "isLabelValue v = [] \<Longrightarrow> v = [] \<or> word v"
  using label_value_chars key_char_plain by (auto simp: word_def key_char_def)

lemma scan_step:
  "lex s = ((t, lit), rest) \<Longrightarrow> t \<noteq> EndOfStringToken \<Longrightarrow> scan s = (t, lit) # scan rest"
  by (subst scan.simps) simp

lemma scan_Nil [simp]: "scan [] = [(EndOfStringToken, [])]"
  by (subst scan.simps) (simp add: lex_def)

lemma lex_space: "isWhitespace c \<Longrightarrow> lex (c # s) = lex s"
  by (simp add: lex_def)

lemma scan_space [simp]: "scan (CHR '' '' # s) = scan s"
  by (subst (1 2) scan.simps) (simp add: lex_space isWhitespace_def)

lemma keyword_or_symbol:
  "(b, t) \<in> set string2token \<Longrightarrow> t \<in> {InToken, NotInToken} \<or> (\<exists>c \<in> set b. isSpecialSymbol c)"
  by (simp add: string2token_def) (elim disjE; simp add: isSpecialSymbol_def)

lemma word_tok_cases: "word w \<Longrightarrow> word_tok w \<in> {IdentifierToken, InToken, NotInToken}"
  using keyword_or_symbol [OF map_of_SomeD, of w]
  by (auto simp: word_tok_def word_def plain_def split: option.splits)

lemma takeWhile_stop: "\<forall>c \<in> set w. P c \<Longrightarrow> (case s of [] \<Rightarrow> True | c # _ \<Rightarrow> \<not> P c) \<Longrightarrow>
    takeWhile P (w @ s) = w \<and> dropWhile P (w @ s) = s"
  by (cases s) (auto simp: takeWhile_append dropWhile_append)

lemma scan_word:
  assumes "word w" and "stops s"
  shows "scan (w @ s) = (word_tok w, w) # scan s"
proof -
  obtain c u where w: "w = c # u" and c: "\<not> isSpecialSymbol c" "\<not> isWhitespace c"
    using assms(1) by (cases w) (auto simp: word_def plain_def)
  have "scan_id_loop (w @ s) [] = (w, s)"
    using takeWhile_stop [of w "\<lambda>c. \<not> (isSpecialSymbol c \<or> isWhitespace c)" s] assms
    by (simp add: scan_id_loop_eq word_def plain_def stops_def split: list.splits)
  then have "lex (w @ s) = ((word_tok w, w), s)"
    using w c by (simp add: lex_def scanIDOrKeyword_def word_tok_def split: option.splits)
  moreover have "word_tok w \<noteq> EndOfStringToken" using word_tok_cases [OF assms(1)] by auto
  ultimately show ?thesis by (rule scan_step)
qed

lemma scan_symbol:
  assumes "isSpecialSymbol c" and "map_of string2token [c] = Some t"
    and "\<And>d u. s = d # u \<Longrightarrow> isSpecialSymbol d \<Longrightarrow> map_of string2token [c, d] = None"
  shows "scan (c # s) = (t, [c]) # scan s"
proof -
  have t: "t \<noteq> ErrorToken" "t \<noteq> EndOfStringToken" using string2token_tokens [OF assms(2)] by auto
  have "\<not> isWhitespace c" using assms(1) by (auto simp: isSpecialSymbol_def isWhitespace_def)
  moreover have "\<exists>b. scan_special_loop s [c] (t, [c]) = ((t, [c]), b, s)"
    using assms(3) t by (cases s) (auto simp: Let_def)
  ultimately have "lex (c # s) = ((t, [c]), s)"
    using assms t by (auto simp: lex_def scanSpecialSymbol_def Let_def)
  then show ?thesis using t(2) by (rule scan_step)
qed

lemma scan_symbol2:
  assumes "isSpecialSymbol c" "isSpecialSymbol d" and "map_of string2token [c] = Some t0"
    and "map_of string2token [c, d] = Some t" and "\<And>e. map_of string2token [c, d, e] = None"
  shows "scan (c # d # s) = (t, [c, d]) # scan s"
proof -
  have t: "t \<noteq> ErrorToken" "t \<noteq> EndOfStringToken" using string2token_tokens [OF assms(4)] by auto
  have "\<not> isWhitespace c" using assms(1) by (auto simp: isSpecialSymbol_def isWhitespace_def)
  moreover have "\<exists>b. scan_special_loop s [c, d] (t, [c, d]) = ((t, [c, d]), b, s)"
    using assms(5) t by (cases s) (auto simp: Let_def)
  ultimately have "lex (c # d # s) = ((t, [c, d]), s)"
    using assms t by (auto simp: lex_def scanSpecialSymbol_def Let_def)
  then show ?thesis using t(2) by (rule scan_step)
qed

lemma two_symbols:
  "map_of string2token [c, d] \<noteq> None \<Longrightarrow> isSpecialSymbol c \<Longrightarrow> d = CHR ''='' \<and> (c = CHR ''='' \<or> c = CHR ''!'')"
  by (auto simp: string2token_def isSpecialSymbol_def split: if_splits)

lemma one_symbol:
  assumes "isSpecialSymbol c" and "c \<noteq> CHR ''=''" and "c \<noteq> CHR ''!''"
  shows "scan (c # s) = (the (map_of string2token [c]), [c]) # scan s"
proof -
  obtain t where "map_of string2token [c] = Some t" using single_symbol_token [OF assms(1)] by blast
  moreover have "map_of string2token [c, d] = None" for d
    using two_symbols [of c d] assms by blast
  ultimately show ?thesis using scan_symbol [OF assms(1)] by simp
qed

lemma scan_symbols [simp]:
  "scan (CHR '','' # s) = (CommaToken, '','') # scan s"
  "scan (CHR ''('' # s) = (OpenParToken, ''('') # scan s"
  "scan (CHR '')'' # s) = (ClosedParToken, '')'') # scan s"
  "scan (CHR ''>'' # s) = (GreaterThanToken, ''>'') # scan s"
  "scan (CHR ''<'' # s) = (LessThanToken, ''<'') # scan s"
  by (subst one_symbol; simp add: isSpecialSymbol_def string2token_def)+

lemma scan_equals [simp]:
  "scan (CHR ''='' # CHR ''='' # s) = (DoubleEqualsToken, ''=='') # scan s"
  "scan (CHR ''!'' # CHR ''='' # s) = (NotEqualsToken, ''!='') # scan s"
  by (rule scan_symbol2; simp add: isSpecialSymbol_def string2token_def)+

lemma scan_single [simp]:
  assumes "s = [] \<or> hd s \<noteq> CHR ''=''"
  shows "scan (CHR ''='' # s) = (EqualsToken, ''='') # scan s"
    and "scan (CHR ''!'' # s) = (DoesNotExistToken, ''!'') # scan s"
  using assms by (auto intro!: scan_symbol simp: isSpecialSymbol_def string2token_def split: if_splits)

section \<open>The tokens of a requirement\<close>

definition word_item :: "string \<Rightarrow> scanned_item list" where
  "word_item w = (if w = [] then [] else [(word_tok w, w)])"

fun values_toks :: "string list \<Rightarrow> scanned_item list" where
  "values_toks [] = []"
| "values_toks [v] = word_item v"
| "values_toks (v # w # vs) = word_item v @ (CommaToken, '','') # values_toks (w # vs)"

definition op_toks :: "operator \<Rightarrow> string list \<Rightarrow> scanned_item list" where
  "op_toks op vals =
     (let v = (case vals of v # _ \<Rightarrow> v | [] \<Rightarrow> []) in
      case op of
        ExistsOp \<Rightarrow> []
      | DoesNotExist \<Rightarrow> []
      | EqualsOp \<Rightarrow> (EqualsToken, ''='') # word_item v
      | DoubleEquals \<Rightarrow> (DoubleEqualsToken, ''=='') # word_item v
      | NotEquals \<Rightarrow> (NotEqualsToken, ''!='') # word_item v
      | GreaterThan \<Rightarrow> (GreaterThanToken, ''>'') # word_item v
      | LessThan \<Rightarrow> (LessThanToken, ''<'') # word_item v
      | InOp \<Rightarrow> (InToken, ''in'') # (OpenParToken, ''('') # values_toks vals @ [(ClosedParToken, '')'')]
      | NotIn \<Rightarrow> (NotInToken, ''notin'') # (OpenParToken, ''('') # values_toks vals @ [(ClosedParToken, '')'')])"

definition req_toks :: "requirement \<Rightarrow> scanned_item list" where
  "req_toks r =
     (if rq_op r = DoesNotExist then [(DoesNotExistToken, ''!'')] else []) @
     (word_tok (rq_key r), rq_key r) # op_toks (rq_op r) (rq_values r)"

lemma scan_word_item: "v = [] \<or> word v \<Longrightarrow> stops s \<Longrightarrow> scan (v @ s) = word_item v @ scan s"
  using scan_word by (auto simp: word_item_def word_def)

lemma stops_simps [simp]:
  "stops []" "stops (CHR '','' # s)" "stops (CHR '')'' # s)" "stops (CHR ''='' # s)"
  "stops (CHR ''!'' # s)" "stops (CHR ''>'' # s)" "stops (CHR ''<'' # s)" "stops (CHR '' '' # s)"
  by (auto simp: stops_def plain_def isSpecialSymbol_def isWhitespace_def)

lemma scan_values:
  "\<forall>v \<in> set vals. v = [] \<or> word v \<Longrightarrow>
    scan (js_join '','' vals @ CHR '')'' # s) = values_toks vals @ (ClosedParToken, '')'') # scan s"
  by (induction vals rule: values_toks.induct) (auto simp: scan_word_item)

lemma word_keywords: "word ''in''" "word ''notin''"
  by (auto simp: word_def plain_def isSpecialSymbol_def isWhitespace_def)

lemma word_tok_keywords: "word_tok ''in'' = InToken" "word_tok ''notin'' = NotInToken"
  by (simp_all add: word_tok_def string2token_def)

lemma scan_keyword:
  "scan (''in ('' @ s) = (InToken, ''in'') # (OpenParToken, ''('') # scan s"
  "scan (''notin ('' @ s) = (NotInToken, ''notin'') # (OpenParToken, ''('') # scan s"
  using scan_word [OF word_keywords(1), of "'' ('' @ s"] scan_word [OF word_keywords(2), of "'' ('' @ s"]
  by (simp_all add: word_tok_keywords)

definition ends_req :: "string \<Rightarrow> bool" where
  "ends_req s \<longleftrightarrow> (case s of [] \<Rightarrow> True | c # _ \<Rightarrow> c = CHR '','')"

lemma ends_req_stops: "ends_req s \<Longrightarrow> stops s"
  by (auto simp: ends_req_def split: list.splits)

lemma word_hd: "word w \<Longrightarrow> w @ s \<noteq> [] \<and> hd (w @ s) \<noteq> CHR ''=''"
  by (cases w) (auto simp: word_def plain_def isSpecialSymbol_def)

lemma value_hd: "v = [] \<or> word v \<Longrightarrow> ends_req s \<Longrightarrow> v @ s = [] \<or> hd (v @ s) \<noteq> CHR ''=''"
  using word_hd [of v s] by (auto simp: ends_req_def split: list.splits)

lemma scan_req_string:
  assumes "canonical r" and s: "ends_req s"
  shows "scan (req_string r @ s) = req_toks r @ scan s"
proof -
  obtain k op vals where r: "r = Requirement k op vals" by (cases r) auto
  have k: "word k" and ar: "arity_ok op vals" and vals: "\<forall>v \<in> set vals. v = [] \<or> word v"
    and "sorted vals"
    using assms(1) key_word value_word by (auto simp: canonical_def accepted_def r)
  then have srt: "sort vals = vals" by (simp add: sorted_sort_id)
  note key = scan_word [OF k]
  show ?thesis
  proof (cases "op \<in> {InOp, NotIn}")
    case True
    then show ?thesis
      using key [of "'' in ('' @ js_join '','' vals @ '')'' @ s"]
        key [of "'' notin ('' @ js_join '','' vals @ '')'' @ s"]
        scan_keyword [of "js_join '','' vals @ '')'' @ s"] scan_values [OF vals, of s] srt
      by (auto simp: r req_string_def req_toks_def op_toks_def)
  next
    case False
    show ?thesis
    proof (cases "op \<in> {ExistsOp, DoesNotExist}")
      case True
      then show ?thesis using key [OF ends_req_stops [OF s]] word_hd [OF k, of s]
        by (auto simp: r req_string_def req_toks_def op_toks_def)
    next
      case ne: False
      then obtain v where v: "vals = [v]" using False ar
        by (cases op) (auto simp: arity_ok_def length_Suc_conv)
      then have vw: "v = [] \<or> word v" using vals by simp
      note vs = scan_word_item [OF vw ends_req_stops [OF s]] value_hd [OF vw s]
      show ?thesis using key False ne vs
        by (cases op) (auto simp: r v req_string_def req_toks_def op_toks_def first_value_def)
    qed
  qed
qed

section \<open>Parsing the tokens of a requirement\<close>

definition ends_items :: "scanned_item list \<Rightarrow> bool" where
  "ends_items items \<longleftrightarrow> fst (lookahead ValuesContext items) \<in> {EndOfStringToken, CommaToken}"

lemma ident_tok: "word w \<Longrightarrow> context_tok ValuesContext (word_tok w) = IdentifierToken"
  using word_tok_cases [of w] by (auto simp: context_tok_def)

lemma lookahead_Cons [simp]: "lookahead ctx ((t, l) # items) = (context_tok ctx t, l)"
  by (simp add: lookahead_def)

lemma consume_Cons [simp]: "consume ctx ((t, l) # items) = ((context_tok ctx t, l), items)"
  by (simp add: consume_def)

lemma context_tok_other [simp]: "t \<noteq> InToken \<Longrightarrow> t \<noteq> NotInToken \<Longrightarrow> context_tok ctx t = t"
  by (simp add: context_tok_def)

lemma context_tok_key [simp]: "context_tok KeyAndOperator t = t"
  by (simp add: context_tok_def)

lemma context_tok_keywords [simp]:
  "context_tok ValuesContext InToken = IdentifierToken"
  "context_tok ValuesContext NotInToken = IdentifierToken"
  by (simp_all add: context_tok_def)

lemma parse_identifiers_words:
  "vs \<noteq> [] \<Longrightarrow> \<forall>v \<in> set vs. word v \<Longrightarrow>
    parseIdentifiersList (values_toks vs @ (ClosedParToken, c) # items) s =
      Inr (js_add_all vs s, (ClosedParToken, c) # items)"
proof (induction vs arbitrary: s rule: values_toks.induct)
  case (2 v)
  then show ?case by (auto simp: word_item_def word_def ident_tok string_set_insert_def Let_def)
next
  case (3 v w vs)
  obtain t l rest where toks: "values_toks (w # vs) = (t, l) # rest"
    "context_tok ValuesContext t = IdentifierToken"
    using "3.prems" ident_tok [of w] by (cases vs) (auto simp: word_item_def word_def)
  have "js_add v s \<noteq> []" by simp
  with 3 toks show ?case
    by (auto simp: word_item_def word_def ident_tok string_set_insert_def Let_def)
qed simp

lemma lookahead_values:
  "vs \<noteq> [] \<Longrightarrow> \<forall>v \<in> set vs. word v \<Longrightarrow>
    fst (lookahead ValuesContext (values_toks vs @ items)) = IdentifierToken"
  by (cases vs rule: values_toks.cases) (auto simp: word_item_def word_def ident_tok)

lemma parse_identifiers_comma:
  "fst (lookahead ValuesContext items) = IdentifierToken \<Longrightarrow>
    parseIdentifiersList ((CommaToken, c) # items) [] = parseIdentifiersList items [[]]"
  by (simp add: string_set_insert_def js_add_def Let_def)

lemma parseValues_toks:
  assumes "vals \<noteq> []" and "\<forall>v \<in> set vals. v = [] \<or> word v" and "sorted vals" and "distinct vals"
  shows "parseValues ((OpenParToken, p) # values_toks vals @ (ClosedParToken, c) # items) = Inr (vals, items)"
proof (cases "[] \<in> set vals")
  case True
  obtain vs where vals: "vals = [] # vs"
    using True assms(1,3,4) by (cases vals) auto
  then have vs: "\<forall>v \<in> set vs. word v" using assms(2,4) by auto
  show ?thesis
  proof (cases vs)
    case Nil
    then show ?thesis by (simp add: vals parseValues_def word_item_def new_string_set_def js_add_def)
  next
    case (Cons w ws)
    have "js_add_all vs [[]] = vals"
      using new_string_set_distinct [OF assms(4)] by (simp add: vals new_string_set_def js_add_def)
    moreover have "values_toks vals = (CommaToken, '','') # values_toks vs"
      by (simp add: vals Cons word_item_def)
    ultimately have "parseIdentifiersList (values_toks vals @ (ClosedParToken, c) # items) [] =
        Inr (vals, (ClosedParToken, c) # items)"
      using parse_identifiers_words [OF _ vs, of c items "[[]]"] lookahead_values [OF _ vs] Cons
      by (simp add: parse_identifiers_comma del: parseIdentifiersList.simps values_toks.simps)
    with Cons show ?thesis by (simp add: parseValues_def vals word_item_def)
  qed
next
  case False
  then have w: "\<forall>v \<in> set vals. word v" using assms(2) by auto
  obtain t l rest where toks: "values_toks vals = (t, l) # rest"
    "context_tok ValuesContext t = IdentifierToken"
    using assms(1) w ident_tok [of "hd vals"]
    by (cases vals rule: values_toks.cases) (auto simp: word_item_def word_def)
  have "parseIdentifiersList (values_toks vals @ (ClosedParToken, c) # items) [] =
      Inr (vals, (ClosedParToken, c) # items)"
    using parse_identifiers_words [OF assms(1) w, of c items "[]"] new_string_set_distinct [OF assms(4)]
    by (simp add: new_string_set_def)
  with toks show ?thesis by (simp add: parseValues_def)
qed

lemma parseExactValue_toks:
  assumes "v = [] \<or> word v" and "ends_items items"
  shows "parseExactValue (word_item v @ items) = Inr ([v], items)"
  using assms ident_tok [of v]
  by (auto simp: parseExactValue_def word_item_def ends_items_def string_set_insert_def js_add_def
      Let_def)

lemma parseKey_toks:
  assumes "isLabelKey k = []" and "ends_items items"
  shows "parseKeyAndInferOperator path (req_toks (Requirement k op vals) @ items) =
    Inr (k, (if op \<in> {ExistsOp, DoesNotExist} then Some op else None), op_toks op vals @ items)"
  using assms ident_tok [OF key_word [OF assms(1)]]
  by (cases op) (auto simp: parseKeyAndInferOperator_def req_toks_def op_toks_def ends_items_def Let_def
      validateLabelKey_None [THEN iffD2])

lemma parseRequirement_toks:
  assumes "canonical r" and items: "ends_items items"
  shows "parseRequirement path (req_toks r @ items) = Inr (r, items)"
proof -
  obtain k op vals where r: "r = Requirement k op vals" by (cases r) auto
  have acc: "accepted (Requirement k op vals)" and srt: "sorted vals" and dst: "distinct vals"
    using assms(1) by (auto simp: canonical_def r)
  then have k: "isLabelKey k = []" and ar: "arity_ok op vals"
    and vals: "\<forall>v \<in> set vals. v = [] \<or> word v"
    using value_word by (auto simp: accepted_def)
  note new = newRequirement_ok [OF acc, of path]
  note key = parseKey_toks [OF k items, of path op vals]
  consider "op \<in> {ExistsOp, DoesNotExist}" "vals = []" | "op \<in> {InOp, NotIn}" "vals \<noteq> []"
    | v where "op \<notin> {ExistsOp, DoesNotExist, InOp, NotIn}" "vals = [v]"
    using ar by (cases op) (auto simp: arity_ok_def length_Suc_conv)
  then show ?thesis
  proof cases
    case 1
    with key new show ?thesis by (auto simp: r parseRequirement_def op_toks_def)
  next
    case 2
    with key new parseValues_toks [OF _ vals srt dst, of "''(''" "'')''" items] srt show ?thesis
      by (auto simp: r parseRequirement_def op_toks_def parseOperator_def)
  next
    case 3
    with key new parseExactValue_toks [OF _ items, of v] vals show ?thesis
      by (cases op) (auto simp: r parseRequirement_def op_toks_def parseOperator_def string_set_list_def)
  qed
qed

section \<open>Whole selectors\<close>

fun selector_toks :: "requirement list \<Rightarrow> scanned_item list" where
  "selector_toks [] = [(EndOfStringToken, [])]"
| "selector_toks [r] = req_toks r @ [(EndOfStringToken, [])]"
| "selector_toks (r # q # rs) = req_toks r @ (CommaToken, '','') # selector_toks (q # rs)"

lemma scan_selector_string:
  "\<forall>r \<in> set rs. canonical r \<Longrightarrow> scan (js_join '','' (map req_string rs)) = selector_toks rs"
proof (induction rs rule: selector_toks.induct)
  case (2 r)
  then show ?case using scan_req_string [of r "[]"] by (simp add: ends_req_def)
next
  case (3 r q rs)
  let ?rest = "CHR '','' # js_join '','' (map req_string (q # rs))"
  have "scan (req_string r @ ?rest) = req_toks r @ scan ?rest"
    using 3 by (intro scan_req_string) (auto simp: ends_req_def)
  with 3 show ?case by simp
qed simp

lemma req_toks_first:
  assumes "canonical r"
  shows "fst (lookahead ValuesContext (req_toks r @ items)) \<in> {IdentifierToken, DoesNotExistToken}"
  using assms ident_tok [OF key_word] by (auto simp: req_toks_def canonical_def accepted_def)

lemma parse_loop_toks:
  "\<forall>r \<in> set rs. canonical r \<Longrightarrow> parse_loop path (selector_toks rs) acc = Inr (acc @ rs)"
proof (induction rs arbitrary: acc rule: selector_toks.induct)
  case 1
  then show ?case by (subst parse_loop.simps) simp
next
  case (2 r)
  let ?eos = "[(EndOfStringToken, [])] :: scanned_item list"
  have e: "ends_items ?eos" by (simp add: ends_items_def)
  have r: "canonical r" using 2 by simp
  show ?case
    using req_toks_first [OF r, of ?eos] parseRequirement_toks [OF r e, of path]
    by (subst parse_loop.simps) (auto split: prod.split)
next
  case (3 r q rs)
  let ?rest = "(CommaToken, '','') # selector_toks (q # rs)"
  have e: "ends_items ?rest" by (simp add: ends_items_def)
  have r: "canonical r" and q: "canonical q" using 3 by auto
  have next_first: "fst (lookahead ValuesContext (selector_toks (q # rs))) \<in> {IdentifierToken, DoesNotExistToken}"
    using req_toks_first [OF q] by (cases rs) auto
  have "parse_loop path (req_toks r @ ?rest) acc = parse_loop path (selector_toks (q # rs)) (acc @ [r])"
    using req_toks_first [OF r, of ?rest] parseRequirement_toks [OF r e, of path] next_first
    by (subst parse_loop.simps) (auto split: prod.split)
  with 3 show ?case by simp
qed

text \<open>
  C30. Parsing a printed selector gives the selector back: for every list of canonical requirements
  in key order, \<open>parse(selector.string())\<close> is the selector itself.
\<close>

theorem parse_print:
  assumes "\<forall>r \<in> set rs. canonical r" and "sorted_cmp (by_key lc) rs"
  shows "parse lc path (sel_string (InternalSelector rs)) = Inr (InternalSelector rs)"
  using assms scan_selector_string [OF assms(1)] parse_loop_toks [OF assms(1)]
  by (simp add: parse_def parseInternal_def parser_parse_def js_sort_sorted)

lemma canonical_example:
  "canonical (Requirement ''a'' InOp [''x'', ''y''])" "canonical (Requirement ''b'' ExistsOp [])"
  by code_simp+

lemma sorted_example:
  "sorted_cmp (by_key code_unit_cmp) [Requirement ''a'' InOp [''x'', ''y''], Requirement ''b'' ExistsOp []]"
  by (simp add: sorted_cmp_def by_key_def code_unit_cmp_def)

lemma parse_print_witness:
  "parse code_unit_cmp None (sel_string (InternalSelector
      [Requirement ''a'' InOp [''x'', ''y''], Requirement ''b'' ExistsOp []])) =
    Inr (InternalSelector [Requirement ''a'' InOp [''x'', ''y''], Requirement ''b'' ExistsOp []])"
  by (rule parse_print) (simp_all add: canonical_example sorted_example)

section \<open>What the parser returns\<close>

lemma parseIdentifiersList_distinct:
  "parseIdentifiersList items s = Inr (s', rest) \<Longrightarrow> distinct s \<Longrightarrow> distinct s'"
  by (induction items s rule: parseIdentifiersList.induct)
    (auto simp: Let_def string_set_insert_def split: prod.splits if_splits)

lemma parseValues_distinct: "parseValues items = Inr (s, rest) \<Longrightarrow> distinct s"
  by (auto simp: parseValues_def new_string_set_def split: prod.splits if_splits sum.splits
      dest: parseIdentifiersList_distinct)

lemma parseExactValue_distinct: "parseExactValue items = Inr (s, rest) \<Longrightarrow> distinct s"
  by (auto simp: parseExactValue_def string_set_insert_def js_add_def Let_def split: prod.splits if_splits)

lemma newRequirement_canonical:
  "newRequirement path key op vals = (r, None) \<Longrightarrow> sorted vals \<Longrightarrow> distinct vals \<Longrightarrow> canonical r"
  by (auto simp: canonical_def dest!: newRequirement_accepts)

lemma parseRequirement_canonical: "parseRequirement path items = Inr (r, rest) \<Longrightarrow> canonical r"
  by (auto simp: parseRequirement_def string_set_list_def
      split: sum.splits prod.splits if_splits option.splits
      dest!: parseValues_distinct parseExactValue_distinct intro: newRequirement_canonical)

lemma parse_loop_unfold:
  "parse_loop path items acc = Inr rs \<Longrightarrow> rs = acc \<or>
    (\<exists>r items1. parseRequirement path items = Inr (r, items1) \<and>
      (rs = acc @ [r] \<or> parse_loop path (tl items1) (acc @ [r]) = Inr rs))"
  by (subst (asm) parse_loop.simps)
    (auto simp: consume_def split: prod.splits sum.splits if_splits)

lemma parse_loop_canonical:
  "parse_loop path items acc = Inr rs \<Longrightarrow> \<forall>r \<in> set acc. canonical r \<Longrightarrow> \<forall>r \<in> set rs. canonical r"
proof (induction "length items" arbitrary: items acc rule: less_induct)
  case less
  from parse_loop_unfold [OF less.prems(1)] show ?case
  proof (elim disjE exE conjE)
    fix r items1
    assume r: "parseRequirement path items = Inr (r, items1)"
      and l: "parse_loop path (tl items1) (acc @ [r]) = Inr rs"
    have "\<forall>q \<in> set (acc @ [r]). canonical q"
      using less.prems(2) parseRequirement_canonical [OF r] by simp
    with less.hyps [OF parseRequirement_shorter [OF r] l] show ?thesis by blast
  qed (use less.prems(2) parseRequirement_canonical in auto)
qed

text \<open>
  C31. Whatever string it accepts, the parser returns canonical requirements in key order, so
  printing its result and parsing again changes nothing: selectors have one normal form.
\<close>

theorem parse_normal_form:
  assumes "comparator lc" and "parse lc path s = Inr sel"
  shows "\<exists>rs. sel = InternalSelector rs \<and> (\<forall>r \<in> set rs. canonical r) \<and> sorted_cmp (by_key lc) rs \<and>
    parse lc path' (sel_string sel) = Inr sel"
proof -
  obtain items where items: "parse_loop path (scan s) [] = Inr items"
    and sel: "sel = InternalSelector (js_sort (by_key lc) items)"
    using assms(2) by (auto simp: parse_def parseInternal_def parser_parse_def split: sum.splits)
  have "comparator (by_key lc)"
    using assms(1) by (auto simp: comparator_def by_key_def)
  then have srt: "sorted_cmp (by_key lc) (js_sort (by_key lc) items)" by (rule comparator.sorted_js_sort)
  have "\<forall>r \<in> set (js_sort (by_key lc) items). canonical r"
    using parse_loop_canonical [OF items] by simp
  with srt sel parse_print show ?thesis by blast
qed

lemma parse_normal_form_witness:
  "\<exists>sel. parse code_unit_cmp None ''b,a in (y,x)'' = Inr sel \<and>
     parse code_unit_cmp None (sel_string sel) = Inr sel"
proof -
  have p: "parse code_unit_cmp None ''b,a in (y,x)'' =
    Inr (InternalSelector [Requirement ''a'' InOp [''x'', ''y''], Requirement ''b'' ExistsOp []])"
    by code_simp
  from parse_normal_form [OF code_unit.comparator_axioms p] p show ?thesis by blast
qed

end
