(* ===== verification/FieldSelector.thy ===== *)
theory FieldSelector
  imports LabelSelector
begin

text \<open>
  \<open>src/apimachinery/pkg/fields\<close> (\<open>fields.ts\<close>, \<open>selector.ts\<close>, \<open>requirements.ts\<close>): field selectors
  \<open>a=b,c!=d\<close> with escaped values, their parser, their transformation and their printing. A
  \<open>Record<string, string>\<close> is the list of its own entries in the order \<open>Object.entries\<close> gives. The
  lemmas show that escaping and unescaping are inverse and that a printed selector parses back to
  its terms, in the order of their text.
\<close>

section \<open>Field sets (fields.ts)\<close>

type_synonym field_set = "(string, string) jmap option"

definition fs_has :: "field_set \<Rightarrow> string \<Rightarrow> bool" where
  "fs_has fs field = (case fs of None \<Rightarrow> False | Some m \<Rightarrow> jm_has m field)"

definition fs_get :: "field_set \<Rightarrow> string \<Rightarrow> string" where
  "fs_get fs field =
     (case fs of None \<Rightarrow> [] | Some m \<Rightarrow> (case jm_get m field of None \<Rightarrow> [] | Some v \<Rightarrow> v))"

definition fs_string :: "field_set \<Rightarrow> string" where
  "fs_string fs =
     js_join '','' (sort (map (\<lambda>(key, v). key @ ''='' @ v) (case fs of None \<Rightarrow> [] | Some m \<Rightarrow> m)))"

section \<open>Selectors (selector.ts)\<close>

datatype fselector =
    FNothing | HasTerm string string | NotHasTerm string string | AndTerm "fselector list"

definition f_everything :: fselector where
  "f_everything = AndTerm []"

fun f_matches :: "fselector \<Rightarrow> field_set \<Rightarrow> bool" where
  "f_matches FNothing fld = False"
| "f_matches (HasTerm field v) fld = (fs_get fld field = v)"
| "f_matches (NotHasTerm field v) fld = (fs_get fld field \<noteq> v)"
| "f_matches (AndTerm selectors) fld = list_all (\<lambda>s. f_matches s fld) selectors"

fun f_empty :: "fselector \<Rightarrow> bool" where
  "f_empty FNothing = False"
| "f_empty (HasTerm field v) = False"
| "f_empty (NotHasTerm field v) = False"
| "f_empty (AndTerm selectors) = (if selectors = [] then True else list_all f_empty selectors)"

fun first_found :: "(string \<times> bool) list \<Rightarrow> string \<times> bool" where
  "first_found [] = ([], False)"
| "first_found ((v, found) # rest) = (if found then (v, found) else first_found rest)"

fun f_requiresExactMatch :: "string \<Rightarrow> fselector \<Rightarrow> string \<times> bool" where
  "f_requiresExactMatch field FNothing = ([], False)"
| "f_requiresExactMatch field (HasTerm f v) = (if f = field then (v, True) else ([], False))"
| "f_requiresExactMatch field (NotHasTerm f v) = ([], False)"
| "f_requiresExactMatch field (AndTerm selectors) =
     (if selectors = [] then ([], False) else first_found (map (f_requiresExactMatch field) selectors))"

text \<open>A transformation returns the new field and value, or an error.\<close>

type_synonym transform_func = "string \<Rightarrow> string \<Rightarrow> string \<times> string \<times> js_error option"

text \<open>The loop of \<open>AndTerm.transform\<close> over the transformed terms: the first error ends it.\<close>

fun keep_terms :: "(js_error + fselector) list \<Rightarrow> js_error + fselector list" where
  "keep_terms [] = Inr []"
| "keep_terms (Inl err # rest) = Inl err"
| "keep_terms (Inr n # rest) =
     (case keep_terms rest of
        Inl err \<Rightarrow> Inl err
      | Inr ns \<Rightarrow> Inr (if \<not> f_empty n then n # ns else ns))"

fun f_transform :: "transform_func \<Rightarrow> fselector \<Rightarrow> js_error + fselector" where
  "f_transform fn FNothing = Inr FNothing"
| "f_transform fn (HasTerm f v) =
     (case fn f v of
        (field, v', Some err) \<Rightarrow> Inl err
      | (field, v', None) \<Rightarrow>
          if length field = 0 \<and> length v' = 0 then Inr f_everything else Inr (HasTerm field v'))"
| "f_transform fn (NotHasTerm f v) =
     (case fn f v of
        (field, v', Some err) \<Rightarrow> Inl err
      | (field, v', None) \<Rightarrow>
          if length field = 0 \<and> length v' = 0 then Inr f_everything else Inr (NotHasTerm field v'))"
| "f_transform fn (AndTerm selectors) =
     (case keep_terms (map (f_transform fn) selectors) of
        Inl err \<Rightarrow> Inl err
      | Inr ns \<Rightarrow> Inr (AndTerm ns))"

datatype frequirement = FRequirement (fr_field: string) (fr_op: operator) (fr_value: string)

fun f_requirements :: "fselector \<Rightarrow> frequirement list option" where
  "f_requirements FNothing = None"
| "f_requirements (HasTerm f v) = Some [FRequirement f EqualsOp v]"
| "f_requirements (NotHasTerm f v) = Some [FRequirement f NotEquals v]"
| "f_requirements (AndTerm selectors) =
     Some (concat (map (\<lambda>s. case f_requirements s of None \<Rightarrow> [] | Some rs \<Rightarrow> rs) selectors))"

text \<open>\<open>value.replaceAll(c, r)\<close> for one character.\<close>

definition replace_char :: "char \<Rightarrow> string \<Rightarrow> string \<Rightarrow> string" where
  "replace_char c r s = concat (map (\<lambda>x. if x = c then r else [x]) s)"

definition escapeValue :: "string \<Rightarrow> string" where
  "escapeValue v =
     replace_char (CHR ''='') [CHR 0x5C, CHR ''='']
       (replace_char (CHR '','') [CHR 0x5C, CHR '','']
         (replace_char (CHR 0x5C) [CHR 0x5C, CHR 0x5C] v))"

fun f_string :: "fselector \<Rightarrow> string" where
  "f_string FNothing = []"
| "f_string (HasTerm f v) = f @ ''='' @ escapeValue v"
| "f_string (NotHasTerm f v) = f @ ''!='' @ escapeValue v"
| "f_string (AndTerm selectors) = js_join '','' (map f_string selectors)"

definition f_selectorFromSet :: "field_set \<Rightarrow> fselector" where
  "f_selectorFromSet fs =
     (case fs of
        None \<Rightarrow> f_everything
      | Some m \<Rightarrow>
          (let items = map (\<lambda>(field, v). HasTerm field v) m in
           case items of [item] \<Rightarrow> item | _ \<Rightarrow> AndTerm items))"

section \<open>Parsing (selector.ts)\<close>

definition invalid_escape :: "string \<Rightarrow> js_error" where
  "invalid_escape s = PlainError (''invalid field selector: invalid escape sequence: '' @ s)"

definition unescaped_rune :: "char \<Rightarrow> js_error" where
  "unescaped_rune c = PlainError (''invalid field selector: unescaped character in value: '' @ [c])"

definition special :: "char \<Rightarrow> bool" where
  "special c \<longleftrightarrow> c = CHR 0x5C \<or> c = CHR '','' \<or> c = CHR ''=''"

fun unescape_loop :: "string \<Rightarrow> bool \<Rightarrow> string \<Rightarrow> js_error + string" where
  "unescape_loop [] inSlash v = (if inSlash then Inl (invalid_escape [CHR 0x5C]) else Inr v)"
| "unescape_loop (c # s) inSlash v =
     (if inSlash then
        (if special c then unescape_loop s False (v @ [c]) else Inl (invalid_escape [CHR 0x5C, c]))
      else if c = CHR 0x5C then unescape_loop s True v
      else if c = CHR '','' \<or> c = CHR ''='' then Inl (unescaped_rune c)
      else unescape_loop s False (v @ [c]))"

definition unescapeValue :: "string \<Rightarrow> js_error + string" where
  "unescapeValue s = (if \<not> list_ex special s then Inr s else unescape_loop s False [])"

fun split_terms_loop :: "string \<Rightarrow> bool \<Rightarrow> string \<Rightarrow> string list" where
  "split_terms_loop [] inSlash cur = [cur]"
| "split_terms_loop (c # s) inSlash cur =
     (if inSlash then split_terms_loop s False (cur @ [c])
      else if c = CHR 0x5C then split_terms_loop s True (cur @ [c])
      else if c = CHR '','' then cur # split_terms_loop s False []
      else split_terms_loop s False (cur @ [c]))"

definition splitTerms :: "string \<Rightarrow> string list option" where
  "splitTerms s = (if length s = 0 then None else Some (split_terms_loop s False []))"

text \<open>\<open>splitTerm\<close>: the first operator from the left, the longer ones first.\<close>

datatype term_op = NotEqualOperator | DoubleEqualOperator | EqualOperator

fun split_term_loop :: "string \<Rightarrow> string \<Rightarrow> (string \<times> term_op \<times> string) option" where
  "split_term_loop lhs [] = None"
| "split_term_loop lhs (c # s) =
     (if take 2 (c # s) = ''!='' then Some (lhs, NotEqualOperator, drop 2 (c # s))
      else if take 2 (c # s) = ''=='' then Some (lhs, DoubleEqualOperator, drop 2 (c # s))
      else if c = CHR ''='' then Some (lhs, EqualOperator, s)
      else split_term_loop (lhs @ [c]) s)"

definition splitTerm :: "string \<Rightarrow> (string \<times> term_op \<times> string) option" where
  "splitTerm cur = split_term_loop [] cur"

fun parse_terms :: "string \<Rightarrow> string list \<Rightarrow> js_error + fselector list" where
  "parse_terms selector [] = Inr []"
| "parse_terms selector (part # parts) =
     (if part = [] then parse_terms selector parts
      else case splitTerm part of
        None \<Rightarrow> Inl (PlainError (''invalid selector: '' @ quoted selector @ ''; can''
          @ [CHR 0x27] @ ''t understand '' @ quoted part))
      | Some (lhs, op, rhs) \<Rightarrow>
          (case unescapeValue rhs of
             Inl err \<Rightarrow> Inl err
           | Inr unescapedRHS \<Rightarrow>
               (case parse_terms selector parts of
                  Inl err \<Rightarrow> Inl err
                | Inr items \<Rightarrow>
                    Inr ((case op of
                        NotEqualOperator \<Rightarrow> NotHasTerm lhs unescapedRHS
                      | DoubleEqualOperator \<Rightarrow> HasTerm lhs unescapedRHS
                      | EqualOperator \<Rightarrow> HasTerm lhs unescapedRHS) # items))))"

definition parseSelectorInternal :: "string \<Rightarrow> transform_func \<Rightarrow> js_error + fselector" where
  "parseSelectorInternal selector fn =
     (case parse_terms selector (sort (case splitTerms selector of None \<Rightarrow> [] | Some ts \<Rightarrow> ts)) of
        Inl err \<Rightarrow> Inl err
      | Inr [item] \<Rightarrow> f_transform fn item
      | Inr items \<Rightarrow> f_transform fn (AndTerm items))"

definition parseSelector :: "string \<Rightarrow> js_error + fselector" where
  "parseSelector selector = parseSelectorInternal selector (\<lambda>lhs rhs. (lhs, rhs, None))"

section \<open>Escaping\<close>

definition escape_char :: "char \<Rightarrow> string" where
  "escape_char c = (if special c then [CHR 0x5C, c] else [c])"

lemma escapeValue_chars: "escapeValue v = concat (map escape_char v)"
  by (induction v) (auto simp: escapeValue_def replace_char_def escape_char_def special_def)

lemma escapeValue_simps [simp]:
  "escapeValue [] = []" "escapeValue (c # v) = escape_char c @ escapeValue v"
  by (simp_all add: escapeValue_chars)

lemma unescape_loop_escape: "unescape_loop (escapeValue v) False w = Inr (w @ v)"
  by (induction v arbitrary: w) (auto simp: escape_char_def special_def)

lemma escape_plain: "\<not> list_ex special (escapeValue v) \<Longrightarrow> escapeValue v = v"
  by (induction v) (auto simp: escape_char_def special_def)

lemma unescape_escape: "unescapeValue (escapeValue v) = Inr v"
  using escape_plain [of v] by (auto simp: unescapeValue_def unescape_loop_escape)

text \<open>Conversely, only escaped text is accepted, so the escaped form of a value is unique.\<close>

lemma unescape_loop_inverse:
  "unescape_loop s False w = Inr v \<Longrightarrow> \<exists>u. v = w @ u \<and> s = escapeValue u"
proof (induction s arbitrary: w rule: length_induct)
  case (1 s)
  show ?case
  proof (cases s)
    case Nil
    with 1 show ?thesis by (auto intro: exI [of _ "[]"])
  next
    case (Cons c t)
    show ?thesis
    proof (cases "c = CHR 0x5C")
      case True
      with 1(2) Cons obtain d t' where t: "t = d # t'" "special d" "unescape_loop t' False (w @ [d]) = Inr v"
        by (cases t) (auto split: if_splits)
      with 1(1) Cons obtain u where "v = (w @ [d]) @ u" "t' = escapeValue u"
        by (metis length_Cons less_Suc_eq)
      then have "v = w @ d # u" "t' = escapeValue u" by simp_all
      with True Cons t show ?thesis by (intro exI [of _ "d # u"]) (simp add: escape_char_def)
    next
      case False
      with 1(2) Cons have t: "\<not> special c" "unescape_loop t False (w @ [c]) = Inr v"
        by (auto simp: special_def split: if_splits)
      with 1(1) Cons obtain u where "v = w @ c # u" "t = escapeValue u" by fastforce
      with Cons t show ?thesis by (intro exI [of _ "c # u"]) (simp add: escape_char_def)
    qed
  qed
qed

lemma no_special_escape: "\<not> list_ex special s \<Longrightarrow> s = escapeValue s"
  by (induction s) (auto simp: escape_char_def)

text \<open>
  Escaping and unescaping are inverse: every value has exactly one text that unescapes to it,
  its escaped form; every other text is an error or means another value.
\<close>

theorem unescape_inverse: "unescapeValue s = Inr v \<longleftrightarrow> s = escapeValue v"
proof
  assume "unescapeValue s = Inr v"
  then show "s = escapeValue v"
    using unescape_loop_inverse [of s "[]" v] no_special_escape [of s]
    by (auto simp: unescapeValue_def split: if_splits)
qed (simp add: unescape_escape)

section \<open>Printed selectors parse back\<close>

text \<open>Field names without the characters the syntax uses.\<close>

definition simple_field :: "string \<Rightarrow> bool" where
  "simple_field f \<longleftrightarrow> f \<noteq> [] \<and> (\<forall>c \<in> set f. \<not> special c \<and> c \<noteq> CHR ''!'')"

definition simple_term :: "fselector \<Rightarrow> bool" where
  "simple_term t \<longleftrightarrow>
     (case t of HasTerm f v \<Rightarrow> simple_field f | NotHasTerm f v \<Rightarrow> simple_field f | _ \<Rightarrow> False)"

lemma split_terms_escape:
  "split_terms_loop (escapeValue v @ s) False cur = split_terms_loop s False (cur @ escapeValue v)"
  by (induction v arbitrary: cur) (auto simp: escape_char_def special_def)

lemma split_terms_field:
  "\<forall>c \<in> set f. \<not> special c \<Longrightarrow>
    split_terms_loop (f @ s) False cur = split_terms_loop s False (cur @ f)"
  by (induction f arbitrary: cur) (auto simp: special_def)

lemma split_terms_term:
  "simple_term t \<Longrightarrow> split_terms_loop (f_string t @ s) False cur = split_terms_loop s False (cur @ f_string t)"
  by (cases t)
    (auto simp: simple_term_def simple_field_def split_terms_field split_terms_escape)

lemma split_terms_join:
  "ts \<noteq> [] \<Longrightarrow> \<forall>t \<in> set ts. simple_term t \<Longrightarrow>
    split_terms_loop (js_join '','' (map f_string ts)) False [] = map f_string ts"
proof (induction ts)
  case (Cons t ts)
  show ?case
  proof (cases ts)
    case Nil
    with Cons.prems split_terms_term [of t "[]" "[]"] show ?thesis by simp
  next
    case (Cons u us)
    with Cons.IH Cons.prems split_terms_term [of t "CHR '','' # js_join '','' (map f_string ts)" "[]"]
    show ?thesis by simp
  qed
qed simp

lemma split_term_field:
  "\<forall>c \<in> set f. \<not> special c \<and> c \<noteq> CHR ''!'' \<Longrightarrow>
    split_term_loop lhs (f @ s) = split_term_loop (lhs @ f) s"
  by (induction f arbitrary: lhs) (auto simp: special_def)

lemma escape_hd: "escapeValue v = c # w \<Longrightarrow> c \<noteq> CHR ''=''"
  by (cases v) (auto simp: escape_char_def special_def split: if_splits)

lemma split_term_equal:
  "split_term_loop lhs (CHR ''='' # escapeValue v) = Some (lhs, EqualOperator, escapeValue v)"
  using escape_hd [of v] by (cases "escapeValue v") auto

lemma parse_term_string:
  assumes "simple_term t"
  shows "parse_terms sel (f_string t # parts) =
    (case parse_terms sel parts of Inl err \<Rightarrow> Inl err | Inr items \<Rightarrow> Inr (t # items))"
  using assms split_term_equal
  by (cases t) (auto simp: simple_term_def simple_field_def splitTerm_def split_term_field unescape_escape
      split: sum.splits)

lemma parse_terms_strings:
  "\<forall>t \<in> set ts. simple_term t \<Longrightarrow> parse_terms sel (map f_string ts) = Inr ts"
  by (induction ts) (simp_all add: parse_term_string del: parse_terms.simps(2))

lemma transform_simple:
  "simple_term t \<Longrightarrow> f_transform (\<lambda>l r. (l, r, None)) t = Inr t \<and> \<not> f_empty t"
  by (cases t) (auto simp: simple_term_def simple_field_def)

lemma keep_simple_terms:
  "\<forall>t \<in> set ts. simple_term t \<Longrightarrow> keep_terms (map (f_transform (\<lambda>l r. (l, r, None))) ts) = Inr ts"
  by (induction ts) (simp_all add: transform_simple)

lemma sort_map_key: "sort (map f xs) = map f (sort_key f xs)"
proof (rule properties_for_sort)
  show "mset (map f (sort_key f xs)) = mset (map f xs)" by simp
  show "sorted (map f (sort_key f xs))" by simp
qed

lemma string_simple_term: "simple_term t \<Longrightarrow> f_string t \<noteq> []"
  by (cases t) (auto simp: simple_term_def simple_field_def)

lemma list_none_one_more:
  obtains "xs = []" | x where "xs = [x]" | x y ys where "xs = x # y # ys"
  by (cases xs; cases "tl xs") auto

lemma join_nonempty: "x \<noteq> [] \<Longrightarrow> js_join s (x # xs) \<noteq> []"
  by (cases xs) simp_all

text \<open>
  A printed field selector parses back to its terms, ordered by their text, and the parsed
  selector selects the same objects: for terms whose field names avoid the syntax characters,
  whatever the values are.
\<close>

theorem parse_field_selector:
  assumes "\<forall>t \<in> set ts. simple_term t"
  shows "\<exists>sel. parseSelector (f_string (AndTerm ts)) = Inr sel \<and>
    sel = (case sort_key f_string ts of [t] \<Rightarrow> t | us \<Rightarrow> AndTerm us) \<and>
    (\<forall>fld. f_matches sel fld = f_matches (AndTerm ts) fld)"
proof -
  let ?us = "sort_key f_string ts"
  have us: "\<forall>t \<in> set ?us. simple_term t" using assms by simp
  have ne: "ts \<noteq> [] \<Longrightarrow> f_string (AndTerm ts) \<noteq> []"
    using assms string_simple_term by (cases ts) (auto simp: join_nonempty)
  have sp: "sort (case splitTerms (f_string (AndTerm ts)) of None \<Rightarrow> [] | Some ts \<Rightarrow> ts) = map f_string ?us"
    using ne split_terms_join [OF _ assms] by (cases "ts = []") (auto simp: splitTerms_def sort_map_key)
  have one: "f_transform (\<lambda>lhs rhs. (lhs, rhs, None)) t = Inr t" if "?us = [t]" for t
    using us that transform_simple [of t] by simp
  have p: "parseSelector (f_string (AndTerm ts)) = Inr (case ?us of [t] \<Rightarrow> t | us \<Rightarrow> AndTerm us)"
    unfolding parseSelector_def parseSelectorInternal_def sp parse_terms_strings [OF us]
    using keep_simple_terms [OF us] one
    by (cases ?us rule: list_none_one_more) simp_all
  have m: "f_matches (AndTerm ?us) fld = f_matches (AndTerm ts) fld" for fld
    by (simp add: list_all_iff)
  have "f_matches (case ?us of [t] \<Rightarrow> t | us \<Rightarrow> AndTerm us) fld = f_matches (AndTerm ?us) fld" for fld
    by (auto split: list.splits)
  with p m show ?thesis by blast
qed

lemma parse_field_selector_witness:
  "\<exists>sel. parseSelector (f_string (AndTerm [HasTerm ''b'' ''x,y'', NotHasTerm ''a'' ''z''])) = Inr sel \<and>
     (\<forall>fld. f_matches sel fld = f_matches (AndTerm [HasTerm ''b'' ''x,y'', NotHasTerm ''a'' ''z'']) fld)"
  using parse_field_selector [of "[HasTerm ''b'' ''x,y'', NotHasTerm ''a'' ''z'']"]
  by (auto simp: simple_term_def simple_field_def special_def)

section \<open>Structure lemmas\<close>

lemma f_empty_matches: "f_empty s \<Longrightarrow> f_matches s fld"
  by (induction s) (auto simp: list_all_iff split: if_splits)

lemma first_found_iff: "first_found xs = (v, True) \<Longrightarrow> (v, True) \<in> set xs"
  by (induction xs rule: first_found.induct) (auto split: if_splits)

lemma f_exact_match: "f_requiresExactMatch field s = (v, True) \<Longrightarrow> f_matches s fld \<Longrightarrow> fs_get fld field = v"
proof (induction s)
  case (AndTerm ss)
  then obtain s where "s \<in> set ss" "f_requiresExactMatch field s = (v, True)"
    by (auto split: if_splits dest!: first_found_iff)
  with AndTerm show ?case by (auto simp: list_all_iff)
qed (auto split: if_splits)

lemma f_from_set_matches:
  "f_matches (f_selectorFromSet (Some m)) fld \<longleftrightarrow> (\<forall>(k, v) \<in> set m. fs_get fld k = v)"
proof -
  have "f_matches (f_selectorFromSet (Some m)) fld =
    list_all (\<lambda>s. f_matches s fld) (map (\<lambda>(field, v). HasTerm field v) m)"
    by (auto simp: f_selectorFromSet_def Let_def split: list.splits)
  then show ?thesis by (auto simp: list_all_iff)
qed

end
