(* ===== verification/Sync.thy ===== *)
theory Sync
  imports JsPrelude
begin

text \<open>
  \<open>src/go/sync\<close>: \<open>mutex.ts\<close> (\<open>Mutex\<close>, \<open>RWMutex\<close>), \<open>cond.ts\<close> and \<open>wait-group.ts\<close>. A promise that
  waits for a lock is the number of its caller; an operation returns the callers it resumes, in
  order. The step relations let callers lock and unlock in any order; their invariants are mutual
  exclusion, that a free lock has no caller waiting for it, and that a mutex lets its callers in in the order
  in which they asked.
\<close>

section \<open>Mutex\<close>

record mutex =
  mu_locked :: bool
  mu_waiters :: "nat list"

definition new_mutex :: mutex where
  "new_mutex = \<lparr>mu_locked = False, mu_waiters = []\<rparr>"

definition mutex_tryLock :: "mutex \<Rightarrow> bool \<times> mutex" where
  "mutex_tryLock m = (if mu_locked m then (False, m) else (True, m\<lparr>mu_locked := True\<rparr>))"

text \<open>\<open>lock()\<close> of caller \<open>i\<close>: whether its promise is resolved at once.\<close>

definition mutex_lock :: "nat \<Rightarrow> mutex \<Rightarrow> bool \<times> mutex" where
  "mutex_lock i m =
     (case mutex_tryLock m of
        (True, m') \<Rightarrow> (True, m')
      | (False, m') \<Rightarrow> (False, m'\<lparr>mu_waiters := mu_waiters m' @ [i]\<rparr>))"

definition mutex_unlock :: "mutex \<Rightarrow> string + nat option \<times> mutex" where
  "mutex_unlock m =
     (if \<not> mu_locked m then Inl ''sync: unlock of unlocked mutex''
      else case mu_waiters m of
          w # ws \<Rightarrow> Inr (Some w, m\<lparr>mu_waiters := ws\<rparr>)
        | [] \<Rightarrow> Inr (None, m\<lparr>mu_locked := False\<rparr>))"

text \<open>
  A mutex with the callers that hold it, the calls of \<open>lock()\<close> made so far, in order, and the callers
  that were let in so far, in order. Only a holder unlocks.
\<close>

record mutex_world =
  mw_mutex :: mutex
  mw_holders :: "nat list"
  mw_asked :: "nat list"
  mw_entered :: "nat list"

definition new_mutex_world :: mutex_world where
  "new_mutex_world = \<lparr>mw_mutex = new_mutex, mw_holders = [], mw_asked = [], mw_entered = []\<rparr>"

definition let_in :: "nat list \<Rightarrow> mutex_world \<Rightarrow> mutex_world" where
  "let_in js w = w\<lparr>mw_holders := js @ mw_holders w, mw_entered := mw_entered w @ js\<rparr>"

inductive mutex_step :: "mutex_world \<Rightarrow> mutex_world \<Rightarrow> bool" where
  Lock: "\<lbrakk>i \<notin> set (mw_holders w); i \<notin> set (mu_waiters (mw_mutex w)); mutex_lock i (mw_mutex w) = (now, m)\<rbrakk> \<Longrightarrow>
    mutex_step w (let_in (if now then [i] else []) (w\<lparr>mw_mutex := m, mw_asked := mw_asked w @ [i]\<rparr>))"
| TryLock: "\<lbrakk>i \<notin> set (mw_holders w); i \<notin> set (mu_waiters (mw_mutex w)); mutex_tryLock (mw_mutex w) = (now, m)\<rbrakk> \<Longrightarrow>
    mutex_step w (let_in (if now then [i] else []) (w\<lparr>mw_mutex := m, mw_asked := mw_asked w @ (if now then [i] else [])\<rparr>))"
| Unlock: "\<lbrakk>i \<in> set (mw_holders w); mutex_unlock (mw_mutex w) = Inr (next_one, m)\<rbrakk> \<Longrightarrow>
    mutex_step w (let_in (case next_one of None \<Rightarrow> [] | Some j \<Rightarrow> [j])
      (w\<lparr>mw_mutex := m, mw_holders := removeAll i (mw_holders w)\<rparr>))"

definition mutex_inv :: "mutex_world \<Rightarrow> bool" where
  "mutex_inv w \<longleftrightarrow>
     mw_asked w = mw_entered w @ mu_waiters (mw_mutex w) \<and>
     mw_holders w = (if mu_locked (mw_mutex w) then [last (mw_entered w)] else []) \<and>
     (mu_locked (mw_mutex w) \<longrightarrow> mw_entered w \<noteq> []) \<and>
     (\<not> mu_locked (mw_mutex w) \<longrightarrow> mu_waiters (mw_mutex w) = [])"

lemma mutex_inv_init: "mutex_inv new_mutex_world"
  by (simp add: mutex_inv_def new_mutex_def new_mutex_world_def)

lemma mutex_inv_step: "mutex_step w w' \<Longrightarrow> mutex_inv w \<Longrightarrow> mutex_inv w'"
  by (induction rule: mutex_step.induct)
    (auto simp: mutex_inv_def let_in_def mutex_lock_def mutex_tryLock_def mutex_unlock_def
      split: if_splits list.splits)

lemma mutex_inv_reachable: "mutex_step\<^sup>*\<^sup>* new_mutex_world w \<Longrightarrow> mutex_inv w"
  by (induction rule: rtranclp_induct) (auto intro: mutex_inv_init mutex_inv_step)

text \<open>
  C34. A mutex excludes and is fair: in every sequence of \<open>lock\<close>, \<open>tryLock\<close> and \<open>unlock\<close> calls at
  most one caller holds it, and it is marked locked exactly then; callers are let in in the order in
  which they asked for the lock, those that have asked and were not let in are the ones that wait, and
  the holder is the caller let in last. When the holder unlocks, no error is thrown, and the next
  caller in that order, if there is one, is let in at once.
\<close>

theorem mutex_exclusion:
  assumes "mutex_step\<^sup>*\<^sup>* new_mutex_world w"
  shows "mw_asked w = mw_entered w @ mu_waiters (mw_mutex w) \<and>
    mw_holders w = (if mu_locked (mw_mutex w) then [last (mw_entered w)] else []) \<and>
    (mw_holders w = [] \<longrightarrow> mw_entered w = mw_asked w) \<and>
    (mw_holders w \<noteq> [] \<longrightarrow>
       (\<exists>m. mutex_unlock (mw_mutex w) =
          Inr (if mw_entered w = mw_asked w then None else Some (mw_asked w ! length (mw_entered w)), m)))"
proof -
  have inv: "mutex_inv w" using assms by (rule mutex_inv_reachable)
  have "\<exists>m. mutex_unlock (mw_mutex w) =
      Inr (if mw_entered w = mw_asked w then None else Some (mw_asked w ! length (mw_entered w)), m)"
    if "mw_holders w \<noteq> []"
  proof (cases "mu_waiters (mw_mutex w)")
    case Nil
    then show ?thesis using that inv by (simp add: mutex_inv_def mutex_unlock_def split: if_splits)
  next
    case (Cons j js)
    then show ?thesis using that inv by (simp add: mutex_inv_def mutex_unlock_def nth_append split: if_splits)
  qed
  then show ?thesis using inv by (simp add: mutex_inv_def)
qed

lemma mutex_exclusion_witness:
  "mutex_unlock \<lparr>mu_locked = True, mu_waiters = [8, 9]\<rparr> = Inr (Some 8, \<lparr>mu_locked = True, mu_waiters = [9]\<rparr>)"
proof -
  let ?m1 = "\<lparr>mu_locked = True, mu_waiters = []\<rparr>" and ?m2 = "\<lparr>mu_locked = True, mu_waiters = [8]\<rparr>"
    and ?m3 = "\<lparr>mu_locked = True, mu_waiters = [8, 9]\<rparr>"
  let ?w = "\<lambda>m asked. \<lparr>mw_mutex = m, mw_holders = [7], mw_asked = asked, mw_entered = [7]\<rparr>"
  have 1: "mutex_step new_mutex_world (?w ?m1 [7])"
    using mutex_step.Lock [of 7 new_mutex_world True ?m1]
    by (simp add: mutex_lock_def mutex_tryLock_def new_mutex_def new_mutex_world_def let_in_def)
  have 2: "mutex_step (?w ?m1 [7]) (?w ?m2 [7, 8])"
    using mutex_step.Lock [of 8 "?w ?m1 [7]" False ?m2] by (simp add: mutex_lock_def mutex_tryLock_def let_in_def)
  have 3: "mutex_step (?w ?m2 [7, 8]) (?w ?m3 [7, 8, 9])"
    using mutex_step.Lock [of 9 "?w ?m2 [7, 8]" False ?m3] by (simp add: mutex_lock_def mutex_tryLock_def let_in_def)
  from 1 2 3 have "mutex_step\<^sup>*\<^sup>* new_mutex_world (?w ?m3 [7, 8, 9])" by (meson rtranclp.rtrancl_into_rtrancl rtranclp.rtrancl_refl)
  from mutex_exclusion [OF this] show ?thesis by (simp add: mutex_unlock_def)
qed

section \<open>Reader-writer mutex\<close>

datatype rw_kind = Read | Write

record rwmutex =
  rw_activeReaders :: nat
  rw_writerActive :: bool
  rw_waitingWriters :: int
  rw_waiters :: "(rw_kind \<times> nat) list"

definition new_rwmutex :: rwmutex where
  "new_rwmutex =
     \<lparr>rw_activeReaders = 0, rw_writerActive = False, rw_waitingWriters = 0, rw_waiters = []\<rparr>"

definition rw_tryLock :: "rwmutex \<Rightarrow> bool \<times> rwmutex" where
  "rw_tryLock m =
     (if rw_writerActive m \<or> rw_activeReaders m \<noteq> 0 then (False, m)
      else (True, m\<lparr>rw_writerActive := True\<rparr>))"

definition rw_tryRLock :: "rwmutex \<Rightarrow> bool \<times> rwmutex" where
  "rw_tryRLock m =
     (if rw_writerActive m \<or> rw_waitingWriters m \<noteq> 0 then (False, m)
      else (True, m\<lparr>rw_activeReaders := rw_activeReaders m + 1\<rparr>))"

definition rw_lock :: "nat \<Rightarrow> rwmutex \<Rightarrow> bool \<times> rwmutex" where
  "rw_lock i m =
     (case rw_tryLock m of
        (True, m') \<Rightarrow> (True, m')
      | (False, m') \<Rightarrow> (False, m'\<lparr>rw_waitingWriters := rw_waitingWriters m' + 1,
          rw_waiters := rw_waiters m' @ [(Write, i)]\<rparr>))"

definition rw_rLock :: "nat \<Rightarrow> rwmutex \<Rightarrow> bool \<times> rwmutex" where
  "rw_rLock i m =
     (case rw_tryRLock m of
        (True, m') \<Rightarrow> (True, m')
      | (False, m') \<Rightarrow> (False, m'\<lparr>rw_waiters := rw_waiters m' @ [(Read, i)]\<rparr>))"

text \<open>The loop of \<open>dispatch\<close> that resumes the readers at the front.\<close>

fun admit_readers :: "nat \<Rightarrow> (rw_kind \<times> nat) list \<Rightarrow> nat list \<times> nat \<times> (rw_kind \<times> nat) list" where
  "admit_readers n ((Read, i) # ws) =
     (case admit_readers (n + 1) ws of (is, n', ws') \<Rightarrow> (i # is, n', ws'))"
| "admit_readers n ws = ([], n, ws)"

definition rw_dispatch :: "rwmutex \<Rightarrow> (rw_kind \<times> nat) list \<times> rwmutex" where
  "rw_dispatch m =
     (if rw_writerActive m \<or> rw_activeReaders m \<noteq> 0 then ([], m)
      else case rw_waiters m of
          [] \<Rightarrow> ([], m)
        | (Write, i) # ws \<Rightarrow>
            ([(Write, i)], m\<lparr>rw_waiters := ws, rw_waitingWriters := rw_waitingWriters m - 1,
               rw_writerActive := True\<rparr>)
        | (Read, i) # ws \<Rightarrow>
            (case admit_readers (rw_activeReaders m) (rw_waiters m) of
               (is, n, ws') \<Rightarrow> (map (Pair Read) is, m\<lparr>rw_activeReaders := n, rw_waiters := ws'\<rparr>)))"

definition rw_unlock :: "rwmutex \<Rightarrow> string + (rw_kind \<times> nat) list \<times> rwmutex" where
  "rw_unlock m =
     (if \<not> rw_writerActive m then Inl ''sync: Unlock of unlocked RWMutex''
      else Inr (rw_dispatch (m\<lparr>rw_writerActive := False\<rparr>)))"

definition rw_rUnlock :: "rwmutex \<Rightarrow> string + (rw_kind \<times> nat) list \<times> rwmutex" where
  "rw_rUnlock m =
     (if rw_activeReaders m \<le> 0 then Inl ''sync: RUnlock of unlocked RWMutex''
      else let m' = m\<lparr>rw_activeReaders := rw_activeReaders m - 1\<rparr> in
        Inr (if rw_activeReaders m' = 0 then rw_dispatch m' else ([], m')))"

text \<open>The callers that read and the callers that write, beside the mutex.\<close>

record rw_world =
  rw_m :: rwmutex
  rw_readers :: "nat list"
  rw_writers :: "nat list"

definition of_kind :: "rw_kind \<Rightarrow> (rw_kind \<times> nat) list \<Rightarrow> nat list" where
  "of_kind k ws = map snd (filter (\<lambda>w. fst w = k) ws)"

definition resume :: "(rw_kind \<times> nat) list \<Rightarrow> rw_world \<Rightarrow> rw_world" where
  "resume ws w = w\<lparr>rw_readers := of_kind Read ws @ rw_readers w,
     rw_writers := of_kind Write ws @ rw_writers w\<rparr>"

definition rw_busy :: "nat \<Rightarrow> rw_world \<Rightarrow> bool" where
  "rw_busy i w \<longleftrightarrow> i \<in> set (rw_readers w) \<union> set (rw_writers w) \<union> snd ` set (rw_waiters (rw_m w))"

inductive rw_step :: "rw_world \<Rightarrow> rw_world \<Rightarrow> bool" where
  WLock: "\<lbrakk>\<not> rw_busy i w; rw_lock i (rw_m w) = (now, m')\<rbrakk> \<Longrightarrow>
    rw_step w (resume (if now then [(Write, i)] else []) (w\<lparr>rw_m := m'\<rparr>))"
| RLock: "\<lbrakk>\<not> rw_busy i w; rw_rLock i (rw_m w) = (now, m')\<rbrakk> \<Longrightarrow>
    rw_step w (resume (if now then [(Read, i)] else []) (w\<lparr>rw_m := m'\<rparr>))"
| WUnlock: "\<lbrakk>i \<in> set (rw_writers w); rw_unlock (rw_m w) = Inr (ws, m')\<rbrakk> \<Longrightarrow>
    rw_step w (resume ws (w\<lparr>rw_m := m', rw_writers := remove1 i (rw_writers w)\<rparr>))"
| RUnlock: "\<lbrakk>i \<in> set (rw_readers w); rw_rUnlock (rw_m w) = Inr (ws, m')\<rbrakk> \<Longrightarrow>
    rw_step w (resume ws (w\<lparr>rw_m := m', rw_readers := remove1 i (rw_readers w)\<rparr>))"

definition new_rw_world :: rw_world where
  "new_rw_world = \<lparr>rw_m = new_rwmutex, rw_readers = [], rw_writers = []\<rparr>"

definition waiting_writers :: "(rw_kind \<times> nat) list \<Rightarrow> nat" where
  "waiting_writers ws = length (of_kind Write ws)"

text \<open>The mutex, the number of readers and the number of writers that hold it.\<close>

definition rw_ok :: "rwmutex \<Rightarrow> nat \<Rightarrow> nat \<Rightarrow> bool" where
  "rw_ok m r w \<longleftrightarrow>
     w = (if rw_writerActive m then 1 else 0) \<and> r = rw_activeReaders m \<and>
     (rw_writerActive m \<longrightarrow> rw_activeReaders m = 0) \<and>
     rw_waitingWriters m = int (waiting_writers (rw_waiters m)) \<and>
     (\<not> rw_writerActive m \<and> rw_waiters m \<noteq> [] \<longrightarrow>
        fst (hd (rw_waiters m)) = Write \<and> rw_activeReaders m \<noteq> 0)"

definition rw_inv :: "rw_world \<Rightarrow> bool" where
  "rw_inv w \<longleftrightarrow> rw_ok (rw_m w) (length (rw_readers w)) (length (rw_writers w))"

lemma of_kind_simps [simp]:
  "of_kind k [] = []"
  "of_kind k (w # ws) = (if fst w = k then snd w # of_kind k ws else of_kind k ws)"
  "of_kind k (ws @ vs) = of_kind k ws @ of_kind k vs"
  by (simp_all add: of_kind_def)

lemma of_kind_readers [simp]:
  "of_kind Read (map (Pair Read) ids) = ids" "of_kind Write (map (Pair Read) ids) = []"
  by (induction ids) simp_all

lemma waiting_writers_simps [simp]:
  "waiting_writers [] = 0"
  "waiting_writers (w # ws) = (if fst w = Write then Suc (waiting_writers ws) else waiting_writers ws)"
  "waiting_writers (ws @ vs) = waiting_writers ws + waiting_writers vs"
  "waiting_writers (map (Pair Read) ids) = 0"
  by (simp_all add: waiting_writers_def)

lemma rw_inv_init: "rw_inv new_rw_world"
  by (simp add: rw_inv_def rw_ok_def new_rw_world_def new_rwmutex_def)

lemma admit_readers_spec:
  "admit_readers n ws = (ids, n', ws') \<Longrightarrow>
    n' = n + length ids \<and> ws = map (Pair Read) ids @ ws' \<and>
    (ws' \<noteq> [] \<longrightarrow> fst (hd ws') = Write) \<and> (ws \<noteq> [] \<and> fst (hd ws) = Read \<longrightarrow> ids \<noteq> [])"
  by (induction n ws arbitrary: ids n' ws' rule: admit_readers.induct) (auto split: prod.splits)

lemma rw_ok_dispatch:
  assumes "rw_dispatch m = (ws, m')" and "\<not> rw_writerActive m" and "rw_activeReaders m = 0"
    and "rw_waitingWriters m = int (waiting_writers (rw_waiters m))"
  shows "rw_ok m' (length (of_kind Read ws)) (length (of_kind Write ws))"
proof (cases "rw_waiters m")
  case Nil
  with assms show ?thesis by (auto simp: rw_dispatch_def rw_ok_def)
next
  case (Cons w us)
  obtain ids n vs where a: "admit_readers 0 (rw_waiters m) = (ids, n, vs)" by (metis prod_cases3)
  note spec = admit_readers_spec [OF a]
  show ?thesis
  proof (cases "fst w")
    case Write
    with assms Cons show ?thesis by (cases w) (auto simp: rw_dispatch_def rw_ok_def)
  next
    case Read
    then have "rw_dispatch m = (map (Pair Read) ids, m\<lparr>rw_activeReaders := n, rw_waiters := vs\<rparr>)"
      using assms Cons a by (cases w) (simp add: rw_dispatch_def)
    with assms(1) have m': "ws = map (Pair Read) ids" "m' = m\<lparr>rw_activeReaders := n, rw_waiters := vs\<rparr>"
      by simp_all
    have "int (waiting_writers vs) = rw_waitingWriters m" using spec assms(4) by simp
    moreover have "ids \<noteq> []" "n = length ids" "vs \<noteq> [] \<longrightarrow> fst (hd vs) = Write"
      using spec Read Cons by simp_all
    ultimately show ?thesis unfolding m' using assms(2) by (simp add: rw_ok_def)
  qed
qed

lemma rw_ok_lock:
  assumes "rw_ok m r w" and "rw_lock i m = (now, m')"
  shows "rw_ok m' r (if now then w + 1 else w)"
  using assms
  by (cases "rw_waiters m"; cases "rw_writerActive m"; cases "rw_activeReaders m = 0")
    (auto simp: rw_ok_def rw_lock_def rw_tryLock_def)

lemma rw_ok_rLock:
  assumes "rw_ok m r w" and "rw_rLock i m = (now, m')"
  shows "rw_ok m' (if now then r + 1 else r) w"
  using assms
  by (cases "rw_waiters m"; cases "rw_writerActive m"; cases "rw_waitingWriters m = 0")
    (auto simp: rw_ok_def rw_rLock_def rw_tryRLock_def)

lemma rw_ok_unlock:
  assumes "rw_ok m r w" and "rw_unlock m = Inr (ws, m')"
  shows "rw_ok m' (r + length (of_kind Read ws)) (w - 1 + length (of_kind Write ws))"
  using assms rw_ok_dispatch [of "m\<lparr>rw_writerActive := False\<rparr>" ws m']
  by (auto simp: rw_unlock_def rw_ok_def split: if_splits)

lemma rw_ok_rUnlock:
  assumes "rw_ok m r w" and "rw_rUnlock m = Inr (ws, m')"
  shows "rw_ok m' (r - 1 + length (of_kind Read ws)) (w + length (of_kind Write ws))"
proof (cases "rw_activeReaders m = 1")
  case True
  with assms rw_ok_dispatch [of "m\<lparr>rw_activeReaders := 0\<rparr>" ws m'] show ?thesis
    by (auto simp: rw_rUnlock_def rw_ok_def Let_def split: if_splits)
next
  case False
  with assms show ?thesis by (auto simp: rw_rUnlock_def rw_ok_def Let_def split: if_splits)
qed

lemma rw_inv_step: "rw_step w w' \<Longrightarrow> rw_inv w \<Longrightarrow> rw_inv w'"
proof (induction rule: rw_step.induct)
  case (WLock i w now m')
  then show ?case using rw_ok_lock [OF _ WLock(2)] by (auto simp: rw_inv_def resume_def)
next
  case (RLock i w now m')
  then show ?case using rw_ok_rLock [OF _ RLock(2)] by (auto simp: rw_inv_def resume_def)
next
  case (WUnlock i w ws m')
  then show ?case using rw_ok_unlock [of "rw_m w" "length (rw_readers w)" "length (rw_writers w)" ws m']
    by (simp add: rw_inv_def resume_def length_remove1 add.commute)
next
  case (RUnlock i w ws m')
  then show ?case using rw_ok_rUnlock [of "rw_m w" "length (rw_readers w)" "length (rw_writers w)" ws m']
    by (simp add: rw_inv_def resume_def length_remove1 add.commute)
qed

lemma rw_inv_reachable: "rw_step\<^sup>*\<^sup>* new_rw_world w \<Longrightarrow> rw_inv w"
  by (induction rule: rtranclp_induct) (auto intro: rw_inv_init rw_inv_step)

text \<open>
  C35. A reader-writer mutex excludes and never sleeps: in every sequence of calls a writer is alone,
  the counters of readers and waiting writers are exact, and when nobody holds the lock nobody waits
  for it; while readers hold it, the caller that has waited longest is a writer.
\<close>

theorem rwmutex_exclusion:
  assumes "rw_step\<^sup>*\<^sup>* new_rw_world w"
  shows "(rw_writers w \<noteq> [] \<longrightarrow> length (rw_writers w) = 1 \<and> rw_readers w = []) \<and>
    rw_activeReaders (rw_m w) = length (rw_readers w) \<and>
    rw_waitingWriters (rw_m w) = int (waiting_writers (rw_waiters (rw_m w))) \<and>
    (rw_writers w = [] \<and> rw_readers w = [] \<longrightarrow> rw_waiters (rw_m w) = []) \<and>
    (rw_writers w = [] \<and> rw_waiters (rw_m w) \<noteq> [] \<longrightarrow> fst (hd (rw_waiters (rw_m w))) = Write)"
  using rw_inv_reachable [OF assms]
  by (auto simp: rw_inv_def rw_ok_def split: if_splits)

lemma rwmutex_exclusion_witness:
  "\<exists>w. rw_step\<^sup>*\<^sup>* new_rw_world w \<and> rw_readers w = [3] \<and> fst (hd (rw_waiters (rw_m w))) = Write"
proof -
  let ?w1 = "\<lparr>rw_m = \<lparr>rw_activeReaders = 1, rw_writerActive = False, rw_waitingWriters = 0,
    rw_waiters = []\<rparr>, rw_readers = [3], rw_writers = []\<rparr>"
  let ?w2 = "\<lparr>rw_m = \<lparr>rw_activeReaders = 1, rw_writerActive = False, rw_waitingWriters = 1,
    rw_waiters = [(Write, 4)]\<rparr>, rw_readers = [3], rw_writers = []\<rparr>"
  have 1: "rw_step new_rw_world ?w1"
    using rw_step.RLock [of 3 new_rw_world True "rw_m ?w1"]
    by (simp add: rw_busy_def new_rw_world_def new_rwmutex_def rw_rLock_def rw_tryRLock_def resume_def)
  have 2: "rw_step ?w1 ?w2"
    using rw_step.WLock [of 4 ?w1 False "rw_m ?w2"]
    by (simp add: rw_busy_def rw_lock_def rw_tryLock_def resume_def)
  from 1 2 have "rw_step\<^sup>*\<^sup>* new_rw_world ?w2" by (meson converse_rtranclp_into_rtranclp r_into_rtranclp)
  with rwmutex_exclusion [OF this] show ?thesis by (intro exI [of _ ?w2] conjI) simp_all
qed

section \<open>Condition variables and wait groups\<close>

text \<open>The waiters of a \<open>Cond\<close> are the numbers of their callers.\<close>

definition cond_wait :: "nat \<Rightarrow> nat list \<Rightarrow> nat list" where
  "cond_wait i ws = ws @ [i]"

definition cond_signal :: "nat list \<Rightarrow> nat list \<times> nat list" where
  "cond_signal ws = (case ws of [] \<Rightarrow> ([], []) | w # ws' \<Rightarrow> ([w], ws'))"

definition cond_broadcast :: "nat list \<Rightarrow> nat list \<times> nat list" where
  "cond_broadcast ws = (ws, [])"

record wait_group =
  wg_counter :: int
  wg_waiters :: "nat list"

definition wg_add :: "int \<Rightarrow> wait_group \<Rightarrow> string + nat list \<times> wait_group" where
  "wg_add delta g =
     (let n = wg_counter g + delta in
      if n < 0 then Inl ''sync: negative WaitGroup counter''
      else if n = 0 then Inr (wg_waiters g, g\<lparr>wg_counter := 0, wg_waiters := []\<rparr>)
      else Inr ([], g\<lparr>wg_counter := n\<rparr>))"

definition wg_done :: "wait_group \<Rightarrow> string + nat list \<times> wait_group" where
  "wg_done g = wg_add (- 1) g"

definition wg_wait :: "nat \<Rightarrow> wait_group \<Rightarrow> bool \<times> wait_group" where
  "wg_wait i g = (if wg_counter g = 0 then (True, g) else (False, g\<lparr>wg_waiters := wg_waiters g @ [i]\<rparr>))"

lemma wg_add_keeps:
  "wg_add d g = Inr (ws, g') \<Longrightarrow> (wg_counter g = 0 \<longrightarrow> wg_waiters g = []) \<Longrightarrow>
    (wg_counter g' = 0 \<longrightarrow> wg_waiters g' = []) \<and> wg_counter g' \<ge> 0"
  by (auto simp: wg_add_def Let_def split: if_splits)

end
