(* ===== verification/Workqueue.thy ===== *)
theory Workqueue
  imports Sync "HOL-Library.Multiset"
begin

text \<open>
  \<open>src/client-go/util/workqueue/queue.ts\<close>: the de-duplicating work queue \<open>Typed\<close> over any \<open>Queue\<close>.
  Every piece of code between two \<open>await\<close>s is one operation; the step relation interleaves the
  operations of producers, workers and callers that shut the queue down. The contract of \<open>Queue\<close> is
  a locale, interpreted on \<open>DefaultQueue\<close>; inside it the invariants of the queue are proved once.
  The stop channel, its \<open>Once\<close> and the wait group are left out: nothing reads the channel and the
  group's counter is always 0.
\<close>

section \<open>The queue interface and DefaultQueue\<close>

record ('t, 'q) queue_ops =
  q_touch :: "'t \<Rightarrow> 'q \<Rightarrow> 'q"
  q_push :: "'t \<Rightarrow> 'q \<Rightarrow> 'q"
  q_len :: "'q \<Rightarrow> nat"
  q_pop :: "'q \<Rightarrow> 't option \<times> 'q"

definition default_queue :: "('t, 't list) queue_ops" where
  "default_queue = \<lparr>
     q_touch = \<lambda>x q. q,
     q_push = \<lambda>x q. q @ [x],
     q_len = length,
     q_pop = \<lambda>q. case q of [] \<Rightarrow> (None, []) | x # q' \<Rightarrow> (Some x, q')\<rparr>"

section \<open>Typed\<close>

record ('t, 'q) typed =
  wq_queue :: 'q
  wq_dirty :: "'t list"
  wq_processing :: "'t list"
  wq_lock :: mutex
  wq_waiters :: "nat list"
  wq_shuttingDown :: bool
  wq_drain :: bool

definition new_typed :: "'q \<Rightarrow> ('t, 'q) typed" where
  "new_typed q = \<lparr>wq_queue = q, wq_dirty = [], wq_processing = [], wq_lock = new_mutex,
     wq_waiters = [], wq_shuttingDown = False, wq_drain = False\<rparr>"

text \<open>\<open>this.cond.signal()\<close>: the caller it resumes, if any.\<close>

definition typed_signal :: "('t, 'q) typed \<Rightarrow> nat list \<times> ('t, 'q) typed" where
  "typed_signal s = (case cond_signal (wq_waiters s) of (ws, rest) \<Rightarrow> (ws, s\<lparr>wq_waiters := rest\<rparr>))"

definition typed_add :: "('t, 'q) queue_ops \<Rightarrow> 't \<Rightarrow> ('t, 'q) typed \<Rightarrow> nat list \<times> ('t, 'q) typed" where
  "typed_add ops item s =
     (if wq_shuttingDown s then ([], s)
      else if item \<in> set (wq_dirty s) then
        ([], if item \<notin> set (wq_processing s)
             then s\<lparr>wq_queue := q_touch ops item (wq_queue s)\<rparr> else s)
      else
        let s = s\<lparr>wq_dirty := js_add item (wq_dirty s)\<rparr> in
        if item \<in> set (wq_processing s) then ([], s)
        else typed_signal (s\<lparr>wq_queue := q_push ops item (wq_queue s)\<rparr>))"

definition typed_len :: "('t, 'q) queue_ops \<Rightarrow> ('t, 'q) typed \<Rightarrow> nat" where
  "typed_len ops s = q_len ops (wq_queue s)"

definition typed_done :: "('t, 'q) queue_ops \<Rightarrow> 't \<Rightarrow> ('t, 'q) typed \<Rightarrow> nat list \<times> ('t, 'q) typed" where
  "typed_done ops item s =
     (let s = s\<lparr>wq_processing := js_del item (wq_processing s)\<rparr> in
      if item \<in> set (wq_dirty s) then typed_signal (s\<lparr>wq_queue := q_push ops item (wq_queue s)\<rparr>)
      else if length (wq_processing s) = 0 then typed_signal s
      else ([], s))"

text \<open>
  The asynchronous methods, in turns: the code a caller runs between the moment it holds the lock
  and its next \<open>await\<close>. A turn ends with the caller asleep on the condition or finished, and with
  the lock released: it yields the outcome, the callers resumed by the condition, the caller the
  lock goes to, and the new state; or the error \<open>unlock\<close> throws.
\<close>

datatype 't turn = Sleeps | Got "'t option" | IsShutdown | Completed

type_synonym ('t, 'q) turn_result = "string + 't turn \<times> nat list \<times> nat option \<times> ('t, 'q) typed"

definition end_turn :: "'t turn \<Rightarrow> nat list \<Rightarrow> ('t, 'q) typed \<Rightarrow> ('t, 'q) turn_result" where
  "end_turn r ws s =
     (case mutex_unlock (wq_lock s) of
        Inl err \<Rightarrow> Inl err
      | Inr (w, m) \<Rightarrow> Inr (r, ws, w, s\<lparr>wq_lock := m\<rparr>))"

definition typed_sleep :: "nat \<Rightarrow> nat list \<Rightarrow> ('t, 'q) typed \<Rightarrow> ('t, 'q) turn_result" where
  "typed_sleep i ws s = end_turn Sleeps ws (s\<lparr>wq_waiters := cond_wait i (wq_waiters s)\<rparr>)"

definition get_turn :: "('t, 'q) queue_ops \<Rightarrow> nat \<Rightarrow> ('t, 'q) typed \<Rightarrow> ('t, 'q) turn_result" where
  "get_turn ops i s =
     (if q_len ops (wq_queue s) = 0 \<and> \<not> wq_shuttingDown s then typed_sleep i [] s
      else if q_len ops (wq_queue s) = 0 then end_turn IsShutdown [] s
      else case q_pop ops (wq_queue s) of
          (Some item, q) \<Rightarrow> end_turn (Got (Some item)) [] (s\<lparr>wq_queue := q,
            wq_processing := js_add item (wq_processing s), wq_dirty := js_del item (wq_dirty s)\<rparr>)
        | (None, q) \<Rightarrow> end_turn (Got None) [] (s\<lparr>wq_queue := q\<rparr>))"

definition typed_broadcast :: "('t, 'q) typed \<Rightarrow> nat list \<times> ('t, 'q) typed" where
  "typed_broadcast s = (case cond_broadcast (wq_waiters s) of (ws, rest) \<Rightarrow> (ws, s\<lparr>wq_waiters := rest\<rparr>))"

definition shutDown_turn :: "('t, 'q) typed \<Rightarrow> ('t, 'q) turn_result" where
  "shutDown_turn s =
     (case typed_broadcast (s\<lparr>wq_drain := False, wq_shuttingDown := True\<rparr>) of
        (ws, s) \<Rightarrow> end_turn Completed ws s)"

definition drain_loop :: "nat \<Rightarrow> nat list \<Rightarrow> ('t, 'q) typed \<Rightarrow> ('t, 'q) turn_result" where
  "drain_loop i ws s =
     (if length (wq_processing s) \<noteq> 0 \<and> wq_drain s then typed_sleep i ws s
      else end_turn Completed ws s)"

definition shutDownWithDrain_turn :: "nat \<Rightarrow> ('t, 'q) typed \<Rightarrow> ('t, 'q) turn_result" where
  "shutDownWithDrain_turn i s =
     (case typed_broadcast (s\<lparr>wq_drain := True, wq_shuttingDown := True\<rparr>) of
        (ws, s) \<Rightarrow> drain_loop i ws s)"

section \<open>Producers, workers and callers that shut down\<close>

datatype wq_call = GetCall | ShutDownCall | DrainCall | DrainAgain

text \<open>Where caller \<open>i\<close> is: at an \<open>await\<close> of the call it makes, or working on an item.\<close>

datatype 't pc =
    Idle | is_Locking: Locking wq_call | is_Holding: Holding wq_call | is_Sleeping: Sleeping wq_call
  | Notified wq_call | Processing 't

fun typed_turn ::
  "('t, 'q) queue_ops \<Rightarrow> nat \<Rightarrow> wq_call \<Rightarrow> ('t, 'q) typed \<Rightarrow> ('t, 'q) turn_result" where
  "typed_turn ops i GetCall s = get_turn ops i s"
| "typed_turn ops i ShutDownCall s = shutDown_turn s"
| "typed_turn ops i DrainCall s = shutDownWithDrain_turn i s"
| "typed_turn ops i DrainAgain s = drain_loop i [] s"

fun after_turn :: "wq_call \<Rightarrow> 't turn \<Rightarrow> 't pc" where
  "after_turn call Sleeps = Sleeping (if call = DrainCall then DrainAgain else call)"
| "after_turn call (Got (Some item)) = Processing item"
| "after_turn call (Got None) = Idle"
| "after_turn call IsShutdown = Idle"
| "after_turn call Completed = Idle"

definition wake :: "nat list \<Rightarrow> (nat \<Rightarrow> 't pc) \<Rightarrow> nat \<Rightarrow> 't pc" where
  "wake ws pc = (\<lambda>j. if j \<in> set ws then (case pc j of Sleeping c \<Rightarrow> Notified c | p \<Rightarrow> p) else pc j)"

definition grant :: "nat option \<Rightarrow> (nat \<Rightarrow> 't pc) \<Rightarrow> nat \<Rightarrow> 't pc" where
  "grant w pc = (\<lambda>j. if w = Some j then (case pc j of Locking c \<Rightarrow> Holding c | p \<Rightarrow> p) else pc j)"

inductive wq_step ::
  "('t, 'q) queue_ops \<Rightarrow> ('t, 'q) typed \<times> (nat \<Rightarrow> 't pc) \<Rightarrow> ('t, 'q) typed \<times> (nat \<Rightarrow> 't pc) \<Rightarrow> bool"
  for ops where
  Add: "typed_add ops item s = (ws, s') \<Longrightarrow> wq_step ops (s, pc) (s', wake ws pc)"
| Call: "\<lbrakk>pc i = Idle; call \<noteq> DrainAgain; mutex_lock i (wq_lock s) = (now, m)\<rbrakk> \<Longrightarrow>
    wq_step ops (s, pc) (s\<lparr>wq_lock := m\<rparr>, pc(i := if now then Holding call else Locking call))"
| Woken: "\<lbrakk>pc i = Notified call; mutex_lock i (wq_lock s) = (now, m)\<rbrakk> \<Longrightarrow>
    wq_step ops (s, pc) (s\<lparr>wq_lock := m\<rparr>, pc(i := if now then Holding call else Locking call))"
| Turn: "\<lbrakk>pc i = Holding call; typed_turn ops i call s = Inr (r, ws, w, s')\<rbrakk> \<Longrightarrow>
    wq_step ops (s, pc) (s', grant w (wake ws (pc(i := after_turn call r))))"
| Finish: "\<lbrakk>pc i = Processing item; typed_done ops item s = (ws, s')\<rbrakk> \<Longrightarrow>
    wq_step ops (s, pc) (s', wake ws (pc(i := Idle)))"

inductive_cases wq_stepE: "wq_step ops (s, pc) (s', pc')"

section \<open>Who holds the lock and who sleeps\<close>

definition lock_ok :: "mutex \<Rightarrow> (nat \<Rightarrow> 't pc) \<Rightarrow> bool" where
  "lock_ok m pc \<longleftrightarrow>
     distinct (mu_waiters m) \<and> (\<forall>i. is_Locking (pc i) \<longleftrightarrow> i \<in> set (mu_waiters m)) \<and>
     (if mu_locked m then \<exists>h. \<forall>i. is_Holding (pc i) \<longleftrightarrow> i = h
      else mu_waiters m = [] \<and> (\<forall>i. \<not> is_Holding (pc i)))"

definition cond_ok :: "nat list \<Rightarrow> (nat \<Rightarrow> 't pc) \<Rightarrow> bool" where
  "cond_ok ws pc \<longleftrightarrow> distinct ws \<and> (\<forall>i. is_Sleeping (pc i) \<longleftrightarrow> i \<in> set ws)"

definition callers_ok :: "('t, 'q) typed \<Rightarrow> (nat \<Rightarrow> 't pc) \<Rightarrow> bool" where
  "callers_ok s pc \<longleftrightarrow> lock_ok (wq_lock s) pc \<and> cond_ok (wq_waiters s) pc"

lemma callers_ok_sleeper: "callers_ok s pc \<Longrightarrow> pc i = Sleeping c \<Longrightarrow> i \<in> set (wq_waiters s)"
  unfolding callers_ok_def cond_ok_def by (metis pc.disc(16))

lemma wake_kinds [simp]:
  "is_Locking (wake ws pc i) \<longleftrightarrow> is_Locking (pc i)"
  "is_Holding (wake ws pc i) \<longleftrightarrow> is_Holding (pc i)"
  "is_Sleeping (wake ws pc i) \<longleftrightarrow> is_Sleeping (pc i) \<and> i \<notin> set ws"
  "wake ws pc i = Processing x \<longleftrightarrow> pc i = Processing x"
  "wake ws pc i = Sleeping k \<longleftrightarrow> pc i = Sleeping k \<and> i \<notin> set ws"
  "wake ws pc i = Idle \<longleftrightarrow> pc i = Idle"
  by (auto simp: wake_def split: pc.splits)

lemma grant_kinds [simp]:
  "is_Sleeping (grant w pc i) \<longleftrightarrow> is_Sleeping (pc i)"
  "is_Locking (grant w pc i) \<longleftrightarrow> is_Locking (pc i) \<and> w \<noteq> Some i"
  "is_Holding (grant w pc i) \<longleftrightarrow> is_Holding (pc i) \<or> is_Locking (pc i) \<and> w = Some i"
  "grant w pc i = Processing x \<longleftrightarrow> pc i = Processing x"
  "grant w pc i = Idle \<longleftrightarrow> pc i = Idle"
  by (auto simp: grant_def split: pc.splits)

lemma wake_Nil [simp]: "wake [] pc = pc"
  by (simp add: wake_def fun_eq_iff)

lemma lock_ok_wake [simp]: "lock_ok m (wake ws pc) = lock_ok m pc"
  by (simp add: lock_ok_def)

lemma cond_ok_grant [simp]: "cond_ok ws (grant w pc) = cond_ok ws pc"
  by (simp add: cond_ok_def)

lemma cond_ok_wake_first: "cond_ok (w # ws) pc \<Longrightarrow> cond_ok ws (wake [w] pc)"
  unfolding cond_ok_def by (simp, blast)

lemma cond_ok_wake_all: "cond_ok ws pc \<Longrightarrow> cond_ok [] (wake ws pc)"
  by (simp add: cond_ok_def)

lemma cond_ok_upd:
  "\<not> is_Sleeping (pc i) \<Longrightarrow> \<not> is_Sleeping p \<Longrightarrow> cond_ok ws (pc(i := p)) = cond_ok ws pc"
  by (auto simp: cond_ok_def)

lemma lock_ok_upd:
  "\<not> is_Locking (pc i) \<Longrightarrow> \<not> is_Holding (pc i) \<Longrightarrow> \<not> is_Locking p \<Longrightarrow> \<not> is_Holding p \<Longrightarrow>
    lock_ok m pc \<Longrightarrow> lock_ok m (pc(i := p))"
  by (auto simp: lock_ok_def split: if_splits)

lemma lock_ok_lock:
  assumes "lock_ok m pc" and "\<not> is_Locking (pc i)" "\<not> is_Holding (pc i)"
    and "mutex_lock i m = (now, m')"
  shows "lock_ok m' (pc(i := if now then Holding c else Locking c))"
proof (cases "mu_locked m")
  case True
  with assms(4) have "\<not> now" "m' = m\<lparr>mu_waiters := mu_waiters m @ [i]\<rparr>"
    by (auto simp: mutex_lock_def mutex_tryLock_def)
  with assms True show ?thesis by (auto simp: lock_ok_def)
next
  case False
  with assms(4) have "now" "m' = m\<lparr>mu_locked := True\<rparr>"
    by (auto simp: mutex_lock_def mutex_tryLock_def)
  with assms False show ?thesis by (auto simp: lock_ok_def intro: exI [of _ i])
qed

text \<open>The end of a turn of the caller that holds the lock.\<close>

lemma lock_ok_unlock:
  assumes "lock_ok m pc" and "is_Holding (pc i)" and "\<not> is_Locking p" "\<not> is_Holding p"
    and "mutex_unlock m = Inr (w, m')"
  shows "lock_ok m' (grant w (pc(i := p)))"
proof -
  have l: "mu_locked m" using assms by (auto simp: mutex_unlock_def split: if_splits)
  with assms(1,2) have h: "is_Holding (pc j) \<longleftrightarrow> j = i" for j by (auto simp: lock_ok_def)
  have il: "\<not> is_Locking (pc i)" using assms(2) by (cases "pc i") auto
  show ?thesis
  proof (cases "mu_waiters m")
    case Nil
    with l assms(5) have "w = None" "m' = m\<lparr>mu_locked := False\<rparr>" by (auto simp: mutex_unlock_def)
    with Nil assms(1,3,4) h il show ?thesis by (auto simp: lock_ok_def)
  next
    case (Cons j js)
    with l assms(5) have m': "w = Some j" "m' = m\<lparr>mu_waiters := js\<rparr>" by (auto simp: mutex_unlock_def)
    from assms(1) Cons have lk: "is_Locking (pc k) \<longleftrightarrow> k = j \<or> k \<in> set js" and d: "j \<notin> set js" "distinct js" for k
      by (auto simp: lock_ok_def)
    from il lk have "i \<noteq> j" "i \<notin> set js" by auto
    have "\<forall>k. is_Holding (grant w (pc(i := p)) k) \<longleftrightarrow> k = j"
      unfolding m' using h lk assms(4) \<open>i \<noteq> j\<close> by auto
    moreover have "\<forall>k. is_Locking (grant w (pc(i := p)) k) \<longleftrightarrow> k \<in> set js"
      unfolding m' using lk d assms(3) \<open>i \<noteq> j\<close> \<open>i \<notin> set js\<close> by auto
    ultimately show ?thesis unfolding lock_ok_def using m' d l by auto
  qed
qed

text \<open>Only the lock and the condition matter for the callers.\<close>

lemma callers_ok_data [simp]:
  "callers_ok (s\<lparr>wq_queue := q\<rparr>) pc = callers_ok s pc"
  "callers_ok (s\<lparr>wq_dirty := d\<rparr>) pc = callers_ok s pc"
  "callers_ok (s\<lparr>wq_processing := d\<rparr>) pc = callers_ok s pc"
  "callers_ok (s\<lparr>wq_dirty := d, wq_queue := q\<rparr>) pc = callers_ok s pc"
  "callers_ok (s\<lparr>wq_processing := d, wq_queue := q\<rparr>) pc = callers_ok s pc"
  "callers_ok (s\<lparr>wq_queue := q, wq_processing := d, wq_dirty := e\<rparr>) pc = callers_ok s pc"
  "callers_ok (s\<lparr>wq_drain := x, wq_shuttingDown := y\<rparr>) pc = callers_ok s pc"
  by (simp_all add: callers_ok_def)

lemma callers_ok_signal:
  assumes "callers_ok s pc" and "typed_signal s = (ws, s')"
  shows "callers_ok s' (wake ws pc)"
proof (cases "wq_waiters s")
  case Nil
  with assms show ?thesis by (auto simp: callers_ok_def typed_signal_def cond_signal_def)
next
  case (Cons w rest)
  with assms have "ws = [w]" "s' = s\<lparr>wq_waiters := rest\<rparr>" by (auto simp: typed_signal_def cond_signal_def)
  with Cons assms(1) show ?thesis by (simp add: callers_ok_def cond_ok_wake_first)
qed

lemma callers_ok_broadcast:
  assumes "callers_ok s pc" and "typed_broadcast s = (ws, s')"
  shows "callers_ok s' (wake ws pc)"
  using assms by (auto simp: callers_ok_def typed_broadcast_def cond_broadcast_def cond_ok_wake_all)

lemma callers_ok_finish:
  assumes "callers_ok s pc" and "\<not> is_Locking (pc i)" "\<not> is_Holding (pc i)" "\<not> is_Sleeping (pc i)"
    and "\<not> is_Locking p" "\<not> is_Holding p" "\<not> is_Sleeping p"
  shows "callers_ok s (pc(i := p))"
  using assms by (simp add: callers_ok_def cond_ok_upd lock_ok_upd)

lemma callers_ok_lock:
  assumes "callers_ok s pc" and "\<not> is_Locking (pc i)" "\<not> is_Holding (pc i)" "\<not> is_Sleeping (pc i)"
    and "mutex_lock i (wq_lock s) = (now, m)"
  shows "callers_ok (s\<lparr>wq_lock := m\<rparr>) (pc(i := if now then Holding c else Locking c))"
  using assms lock_ok_lock [of "wq_lock s" pc i now m c] by (simp add: callers_ok_def cond_ok_upd)

lemma callers_ok_end_turn:
  assumes "callers_ok s pc" and "is_Holding (pc i)" and "end_turn r ws s = Inr (r', ws', w, s')"
    and "\<not> is_Locking p" "\<not> is_Holding p" "\<not> is_Sleeping p"
  shows "callers_ok s' (grant w (pc(i := p)))"
proof -
  from assms(2) have "\<not> is_Sleeping (pc i)" by (cases "pc i") auto
  with assms lock_ok_unlock [of "wq_lock s" pc i p w] show ?thesis
    by (auto simp: callers_ok_def cond_ok_upd end_turn_def split: sum.splits)
qed

lemma callers_ok_sleep:
  assumes "callers_ok s pc" and "is_Holding (pc i)" and "typed_sleep i ws s = Inr (r', ws', w, s')"
  shows "callers_ok s' (grant w (pc(i := Sleeping c)))"
proof -
  from assms(2) have n: "\<not> is_Sleeping (pc i)" by (cases "pc i") auto
  with assms(1) have "cond_ok (cond_wait i (wq_waiters s)) (pc(i := Sleeping c))"
    by (auto simp: callers_ok_def cond_ok_def cond_wait_def)
  with n assms lock_ok_unlock [of "wq_lock s" pc i "Sleeping c" w] show ?thesis
    by (auto simp: callers_ok_def typed_sleep_def end_turn_def split: sum.splits)
qed

lemma wake_upd: "i \<notin> set ws \<Longrightarrow> wake ws (pc(i := p)) = (wake ws pc)(i := p)"
  by (auto simp: wake_def)

text \<open>A turn ends with the caller asleep or gone on, and every operation keeps the callers right.\<close>

lemma callers_ok_add:
  assumes "callers_ok s pc" and "typed_add ops x s = (ws, s')"
  shows "callers_ok s' (wake ws pc)"
  using assms by (auto simp: typed_add_def Let_def intro: callers_ok_signal [rotated] split: if_splits)

lemma callers_ok_done:
  assumes "callers_ok s pc" and "typed_done ops x s = (ws, s')"
  shows "callers_ok s' (wake ws pc)"
  using assms by (auto simp: typed_done_def Let_def intro: callers_ok_signal [rotated] split: if_splits)

lemma end_turn_result: "end_turn r ws s = Inr (r', ws', w, s') \<Longrightarrow> r' = r \<and> ws' = ws"
  by (auto simp: end_turn_def split: sum.splits)

lemma typed_sleep_result: "typed_sleep i ws s = Inr (r', ws', w, s') \<Longrightarrow> r' = Sleeps \<and> ws' = ws"
  by (auto simp: typed_sleep_def dest: end_turn_result)

lemma get_turn_cases:
  assumes "get_turn ops i s = Inr (r, ws, w, s')"
  obtains
    (sleeps) "r = Sleeps" "ws = []" "q_len ops (wq_queue s) = 0" "\<not> wq_shuttingDown s"
      "typed_sleep i [] s = Inr (Sleeps, [], w, s')"
  | (shutdown) "r = IsShutdown" "ws = []" "q_len ops (wq_queue s) = 0" "wq_shuttingDown s"
      "end_turn IsShutdown [] s = Inr (IsShutdown, [], w, s')"
  | (item) x q where "r = Got (Some x)" "ws = []" "q_len ops (wq_queue s) > 0"
      "q_pop ops (wq_queue s) = (Some x, q)"
      "end_turn r [] (s\<lparr>wq_queue := q, wq_processing := js_add x (wq_processing s),
         wq_dirty := js_del x (wq_dirty s)\<rparr>) = Inr (r, [], w, s')"
  | (none) q where "r = Got None" "ws = []" "q_len ops (wq_queue s) > 0"
      "q_pop ops (wq_queue s) = (None, q)"
      "end_turn r [] (s\<lparr>wq_queue := q\<rparr>) = Inr (r, [], w, s')"
proof (cases "q_len ops (wq_queue s) = 0")
  case True
  show thesis
  proof (cases "wq_shuttingDown s")
    case sh: True
    with True assms have e: "end_turn IsShutdown [] s = Inr (r, ws, w, s')" by (simp add: get_turn_def)
    from end_turn_result [OF this] shutdown True sh e show thesis by simp
  next
    case False
    with True assms have e: "typed_sleep i [] s = Inr (r, ws, w, s')" by (simp add: get_turn_def)
    from typed_sleep_result [OF this] sleeps True False e show thesis by simp
  qed
next
  case False
  obtain x q where p: "q_pop ops (wq_queue s) = (x, q)" by fastforce
  show thesis
  proof (cases x)
    case None
    with False p assms have e: "end_turn (Got None) [] (s\<lparr>wq_queue := q\<rparr>) = Inr (r, ws, w, s')"
      by (simp add: get_turn_def)
    from end_turn_result [OF this] none False p None e show thesis by simp
  next
    case (Some y)
    with False p assms have e: "end_turn (Got (Some y)) [] (s\<lparr>wq_queue := q,
        wq_processing := js_add y (wq_processing s), wq_dirty := js_del y (wq_dirty s)\<rparr>) = Inr (r, ws, w, s')"
      by (simp add: get_turn_def)
    from end_turn_result [OF this] item False p Some e show thesis by simp
  qed
qed

lemma callers_ok_get_turn:
  assumes c: "callers_ok s pc" and h: "is_Holding (pc i)" and t: "get_turn ops i s = Inr (r, ws, w, s')"
  shows "callers_ok s' (grant w (wake ws (pc(i := after_turn GetCall r))))"
  using t
proof (cases rule: get_turn_cases)
  case sleeps
  with callers_ok_sleep [OF c h sleeps(5), of GetCall] show ?thesis by simp
next
  case shutdown
  with callers_ok_end_turn [OF c h shutdown(5), of Idle] show ?thesis by simp
next
  case (item x q)
  with callers_ok_end_turn [where pc = pc and i = i and p = "Processing x", OF _ h item(5)] c show ?thesis by simp
next
  case (none q)
  with callers_ok_end_turn [where pc = pc and i = i and p = Idle, OF _ h none(5)] c show ?thesis by simp
qed

lemma drain_loop_cases:
  assumes "drain_loop i ws s = Inr (r, ws', w, s')"
  obtains
    (sleeps) "r = Sleeps" "ws' = ws" "wq_processing s \<noteq> []" "typed_sleep i ws s = Inr (Sleeps, ws, w, s')"
  | (completed) "r = Completed" "ws' = ws" "end_turn Completed ws s = Inr (Completed, ws, w, s')"
proof (cases "wq_processing s \<noteq> [] \<and> wq_drain s")
  case True
  with assms have e: "typed_sleep i ws s = Inr (r, ws', w, s')" by (simp add: drain_loop_def)
  from typed_sleep_result [OF this] sleeps True e show thesis by simp
next
  case False
  with assms have e: "end_turn Completed ws s = Inr (r, ws', w, s')"
    by (simp add: drain_loop_def split: if_splits)
  from end_turn_result [OF this] completed e show thesis by simp
qed

lemma callers_ok_drain_loop:
  assumes c: "callers_ok s pc" and h: "is_Holding (pc i)" and t: "drain_loop i ws s = Inr (r, ws', w, s')"
    and "call = DrainCall \<or> call = DrainAgain"
  shows "ws' = ws \<and> callers_ok s' (grant w (pc(i := after_turn call r)))"
  using t
proof (cases rule: drain_loop_cases)
  case sleeps
  with callers_ok_sleep [OF c h sleeps(4), of DrainAgain] assms(4) show ?thesis by auto
next
  case completed
  with callers_ok_end_turn [OF c h completed(3), of Idle] show ?thesis by simp
qed

lemma broadcast_not_holder:
  assumes "callers_ok s pc" and "typed_broadcast s = (ws, s')" and "is_Holding (pc i)"
  shows "i \<notin> set ws"
proof -
  from assms(3) have "\<not> is_Sleeping (pc i)" by (cases "pc i") auto
  with assms(1,2) show ?thesis by (auto simp: callers_ok_def cond_ok_def typed_broadcast_def cond_broadcast_def)
qed

lemma callers_ok_shutdown_turns:
  assumes c: "callers_ok s pc" and h: "is_Holding (pc i)"
  shows "shutDown_turn s = Inr (r, ws, w, s') \<Longrightarrow>
      callers_ok s' (grant w (wake ws (pc(i := after_turn ShutDownCall r))))"
    and "shutDownWithDrain_turn i s = Inr (r, ws, w, s') \<Longrightarrow>
      callers_ok s' (grant w (wake ws (pc(i := after_turn DrainCall r))))"
proof -
  assume t: "shutDown_turn s = Inr (r, ws, w, s')"
  obtain vs s0 where b: "typed_broadcast (s\<lparr>wq_drain := False, wq_shuttingDown := True\<rparr>) = (vs, s0)"
    by (metis surj_pair)
  with t have e: "end_turn Completed vs s0 = Inr (r, ws, w, s')" by (simp add: shutDown_turn_def)
  from c have c': "callers_ok (s\<lparr>wq_drain := False, wq_shuttingDown := True\<rparr>) pc" by simp
  note r = end_turn_result [OF e]
  from broadcast_not_holder [OF c' b h] r have "wake ws (pc(i := Idle)) = (wake ws pc)(i := Idle)"
    by (simp add: wake_upd)
  with callers_ok_end_turn [OF callers_ok_broadcast [OF c' b] _ e, of i Idle] h r
  show "callers_ok s' (grant w (wake ws (pc(i := after_turn ShutDownCall r))))" by simp
next
  assume t: "shutDownWithDrain_turn i s = Inr (r, ws, w, s')"
  obtain vs s0 where b: "typed_broadcast (s\<lparr>wq_drain := True, wq_shuttingDown := True\<rparr>) = (vs, s0)"
    by (metis surj_pair)
  with t have e: "drain_loop i vs s0 = Inr (r, ws, w, s')" by (simp add: shutDownWithDrain_turn_def)
  from c have c': "callers_ok (s\<lparr>wq_drain := True, wq_shuttingDown := True\<rparr>) pc" by simp
  from callers_ok_drain_loop [OF callers_ok_broadcast [OF c' b] _ e, of DrainCall] h
  have d: "ws = vs" "callers_ok s' (grant w ((wake ws pc)(i := after_turn DrainCall r)))" by auto
  with broadcast_not_holder [OF c' b h]
  show "callers_ok s' (grant w (wake ws (pc(i := after_turn DrainCall r))))" by (simp add: wake_upd)
qed

lemma callers_ok_turn:
  assumes "callers_ok s pc" and "is_Holding (pc i)" and t: "typed_turn ops i call s = Inr (r, ws, w, s')"
  shows "callers_ok s' (grant w (wake ws (pc(i := after_turn call r))))"
proof (cases call)
  case DrainAgain
  with t callers_ok_drain_loop [OF assms(1,2), of "[]" r ws w s' DrainAgain] show ?thesis by simp
qed (use t callers_ok_get_turn [OF assms(1,2)] callers_ok_shutdown_turns [OF assms(1,2)] in auto)

lemma callers_ok_step:
  "wq_step ops st st' \<Longrightarrow> callers_ok (fst st) (snd st) \<Longrightarrow> callers_ok (fst st') (snd st')"
proof (induction rule: wq_step.induct)
  case (Call pc i call s now m)
  then show ?case using callers_ok_lock [of s pc i now m call] by (simp add: fun_upd_def)
next
  case (Woken pc i call s now m)
  then show ?case using callers_ok_lock [of s pc i now m call] by (simp add: fun_upd_def)
next
  case (Turn pc i call s r ws w s')
  then show ?case using callers_ok_turn [of s pc i ops call r ws w s'] by simp
next
  case (Finish pc i item s ws s')
  then show ?case using callers_ok_done [OF callers_ok_finish [of s pc i Idle]] by simp
qed (simp add: callers_ok_add)

lemma callers_ok_init: "callers_ok (new_typed q) (\<lambda>_. Idle)"
  by (simp add: callers_ok_def lock_ok_def cond_ok_def new_typed_def new_mutex_def)

section \<open>Items\<close>

text \<open>
  The queue holds every dirty item that is not being processed, once; an item is being processed by
  exactly one worker. \<open>items\<close> reads the queue and \<open>ok\<close> is its own invariant.
\<close>

definition workers_ok :: "'t set \<Rightarrow> (nat \<Rightarrow> 't pc) \<Rightarrow> bool" where
  "workers_ok p pc \<longleftrightarrow>
     (\<forall>x. x \<in> p \<longleftrightarrow> (\<exists>i. pc i = Processing x)) \<and>
     (\<forall>i j x. pc i = Processing x \<longrightarrow> pc j = Processing x \<longrightarrow> i = j)"

definition items_ok ::
  "('q \<Rightarrow> 't multiset) \<Rightarrow> ('q \<Rightarrow> bool) \<Rightarrow> ('t, 'q) typed \<Rightarrow> (nat \<Rightarrow> 't pc) \<Rightarrow> bool" where
  "items_ok items ok s pc \<longleftrightarrow> ok (wq_queue s) \<and>
     items (wq_queue s) = mset_set (set (wq_dirty s) - set (wq_processing s)) \<and>
     workers_ok (set (wq_processing s)) pc"

lemma workers_ok_pc [simp]:
  "workers_ok p (wake ws pc) = workers_ok p pc" "workers_ok p (grant w pc) = workers_ok p pc"
  by (simp_all add: workers_ok_def)

lemma workers_ok_upd:
  "(\<And>x. pc i \<noteq> Processing x) \<Longrightarrow> (\<And>x. q \<noteq> Processing x) \<Longrightarrow> workers_ok p (pc(i := q)) = workers_ok p pc"
proof -
  assume "\<And>x. pc i \<noteq> Processing x" "\<And>x. q \<noteq> Processing x"
  then have "(pc(i := q)) j = Processing x \<longleftrightarrow> pc j = Processing x" for j x by auto
  then show ?thesis by (simp only: workers_ok_def)
qed

lemma workers_ok_take:
  assumes "workers_ok p pc" and "\<And>y. pc i \<noteq> Processing y" and "x \<notin> p"
  shows "workers_ok (insert x p) (pc(i := Processing x))"
proof -
  have upd: "(pc(i := Processing x)) j = Processing y \<longleftrightarrow> pc j = Processing y \<or> (j = i \<and> y = x)" for j y
    using assms(2) by auto
  have none: "pc j \<noteq> Processing x" for j using assms(1,3) unfolding workers_ok_def by metis
  show ?thesis unfolding workers_ok_def upd
  proof (intro conjI allI impI)
    show "y \<in> insert x p \<longleftrightarrow> (\<exists>j. pc j = Processing y \<or> (j = i \<and> y = x))" for y
      using assms(1) unfolding workers_ok_def by (metis insert_iff)
    show "j = k" if "pc j = Processing y \<or> (j = i \<and> y = x)" "pc k = Processing y \<or> (k = i \<and> y = x)" for j k y
      using that none assms(1) unfolding workers_ok_def by metis
  qed
qed

lemma workers_ok_leave:
  assumes "workers_ok p pc" and "pc i = Processing x"
  shows "workers_ok (p - {x}) (pc(i := Idle))"
proof -
  have only: "pc j = Processing x \<Longrightarrow> j = i" for j using assms unfolding workers_ok_def by metis
  have upd: "(pc(i := Idle)) j = Processing y \<longleftrightarrow> pc j = Processing y \<and> y \<noteq> x" for j y
  proof (cases "j = i")
    case True
    with assms(2) show ?thesis by simp
  next
    case False
    with only have "pc j \<noteq> Processing x" by blast
    with False show ?thesis by auto
  qed
  show ?thesis unfolding workers_ok_def upd
  proof (intro conjI allI impI)
    show "y \<in> p - {x} \<longleftrightarrow> (\<exists>j. pc j = Processing y \<and> y \<noteq> x)" for y
    proof -
      have "y \<in> p \<longleftrightarrow> (\<exists>j. pc j = Processing y)" using assms(1) unfolding workers_ok_def by simp
      then show ?thesis by simp
    qed
    show "j = k" if "pc j = Processing y \<and> y \<noteq> x" "pc k = Processing y \<and> y \<noteq> x" for j k y
      using that assms(1) unfolding workers_ok_def by metis
  qed
qed

lemma items_ok_pc [simp]:
  "items_ok items ok s (wake ws pc) = items_ok items ok s pc"
  "items_ok items ok s (grant w pc) = items_ok items ok s pc"
  by (simp_all add: items_ok_def)

lemma items_ok_control [simp]:
  "items_ok items ok (s\<lparr>wq_lock := m\<rparr>) pc = items_ok items ok s pc"
  "items_ok items ok (s\<lparr>wq_waiters := v\<rparr>) pc = items_ok items ok s pc"
  "items_ok items ok (s\<lparr>wq_drain := x, wq_shuttingDown := y\<rparr>) pc = items_ok items ok s pc"
  by (simp_all add: items_ok_def)

lemma items_ok_upd:
  "(\<And>x. pc i \<noteq> Processing x) \<Longrightarrow> (\<And>x. q \<noteq> Processing x) \<Longrightarrow>
    items_ok items ok s (pc(i := q)) = items_ok items ok s pc"
  by (simp add: items_ok_def workers_ok_upd)

lemma items_ok_end_turn:
  "end_turn r ws s = Inr (r', ws', w, s') \<Longrightarrow> items_ok items ok s' pc = items_ok items ok s pc"
  by (auto simp: end_turn_def split: sum.splits)

lemma items_ok_sleep:
  "typed_sleep i ws s = Inr (r', ws', w, s') \<Longrightarrow> items_ok items ok s' pc = items_ok items ok s pc"
  using items_ok_end_turn [of Sleeps ws "s\<lparr>wq_waiters := cond_wait i (wq_waiters s)\<rparr>" r' ws' w s' items ok pc]
  by (simp add: typed_sleep_def)

lemma items_ok_signal:
  "typed_signal s = (ws, s') \<Longrightarrow> items_ok items ok s' pc = items_ok items ok s pc"
  by (cases "cond_signal (wq_waiters s)") (auto simp: typed_signal_def)

lemma items_ok_broadcast:
  "typed_broadcast s = (ws, s') \<Longrightarrow> items_ok items ok s' pc = items_ok items ok s pc"
  by (cases "cond_broadcast (wq_waiters s)") (auto simp: typed_broadcast_def)

lemma mset_set_dirty_add:
  "x \<notin> d \<Longrightarrow> x \<notin> p \<Longrightarrow> finite d \<Longrightarrow> mset_set (insert x d - p) = add_mset x (mset_set (d - p))"
  by (simp add: insert_Diff_if)

lemma items_ok_take:
  assumes "items_ok items ok s pc" and h: "is_Holding (pc i)"
    and q: "ok q" "items (wq_queue s) = add_mset x (items q)"
  shows "items_ok items ok (s\<lparr>wq_queue := q, wq_processing := js_add x (wq_processing s),
    wq_dirty := js_del x (wq_dirty s)\<rparr>) (pc(i := Processing x))"
proof -
  let ?d = "set (wq_dirty s)" and ?p = "set (wq_processing s)"
  have m: "mset_set (?d - ?p) = add_mset x (items q)" using assms(1) q(2) by (simp add: items_ok_def)
  then have x: "x \<in> ?d - ?p" by (metis finite_Diff finite_set elem_mset_set union_single_eq_member)
  then have "mset_set (?d - ?p) = add_mset x (mset_set (?d - ?p - {x}))"
    by (metis finite_Diff finite_set mset_set.remove)
  moreover have "?d - ?p - {x} = ?d - {x} - insert x ?p" by auto
  ultimately have iq: "items q = mset_set (?d - {x} - insert x ?p)" using m by simp
  have "pc i \<noteq> Processing y" for y using h by (cases "pc i") auto
  with workers_ok_take [of ?p pc i x] assms(1) x have "workers_ok (insert x ?p) (pc(i := Processing x))"
    by (simp add: items_ok_def)
  with iq q(1) show ?thesis by (simp add: items_ok_def set_removeAll)
qed

lemma items_ok_leave:
  assumes "items_ok items ok s pc" and i: "pc i = Processing x"
    and q: "ok q" "items q = mset_set (set (wq_dirty s) - (set (wq_processing s) - {x}))"
  shows "items_ok items ok (s\<lparr>wq_processing := js_del x (wq_processing s), wq_queue := q\<rparr>) (pc(i := Idle))"
  using assms workers_ok_leave [of "set (wq_processing s)" pc i x] by (simp add: items_ok_def set_removeAll)

section \<open>The queue contract\<close>

text \<open>
  What \<open>Typed\<close> relies on: a queue holds a multiset of items, pushing adds one, touching keeps them,
  and popping a queue that is not empty takes one of its items.
\<close>

locale queue_contract =
  fixes ops :: "('t, 'q) queue_ops" and items :: "'q \<Rightarrow> 't multiset" and ok :: "'q \<Rightarrow> bool"
  assumes touch_ok: "ok q \<Longrightarrow> ok (q_touch ops x q) \<and> items (q_touch ops x q) = items q"
    and push_ok: "ok q \<Longrightarrow> ok (q_push ops x q) \<and> items (q_push ops x q) = add_mset x (items q)"
    and len_ok: "ok q \<Longrightarrow> q_len ops q = size (items q)"
    and pop_ok: "ok q \<Longrightarrow> q_len ops q > 0 \<Longrightarrow>
      \<exists>x q'. q_pop ops q = (Some x, q') \<and> ok q' \<and> items q = add_mset x (items q')"
begin

lemma items_ok_add:
  assumes "items_ok items ok s pc" and "typed_add ops x s = (ws, s')"
  shows "items_ok items ok s' pc"
proof -
  let ?d = "set (wq_dirty s)" and ?p = "set (wq_processing s)"
  note i = assms(1) [unfolded items_ok_def]
  consider (shut) "wq_shuttingDown s" | (dirty) "x \<in> ?d" "\<not> wq_shuttingDown s"
    | (busy) "x \<notin> ?d" "x \<in> ?p" "\<not> wq_shuttingDown s" | (new) "x \<notin> ?d" "x \<notin> ?p" "\<not> wq_shuttingDown s"
    by blast
  then show ?thesis
  proof cases
    case shut
    with assms show ?thesis by (auto simp: typed_add_def)
  next
    case dirty
    with assms(2) i touch_ok [of "wq_queue s" x] show ?thesis
      by (auto simp: typed_add_def items_ok_def split: if_splits)
  next
    case busy
    with assms(2) have "s' = s\<lparr>wq_dirty := js_add x (wq_dirty s)\<rparr>" by (auto simp: typed_add_def Let_def)
    moreover have "insert x ?d - ?p = ?d - ?p" using busy by auto
    ultimately show ?thesis using i by (simp add: items_ok_def)
  next
    case new
    let ?s = "s\<lparr>wq_dirty := js_add x (wq_dirty s), wq_queue := q_push ops x (wq_queue s)\<rparr>"
    from new assms(2) have "typed_signal ?s = (ws, s')" by (simp add: typed_add_def Let_def)
    moreover have "items_ok items ok ?s pc"
      using i push_ok [of "wq_queue s" x] mset_set_dirty_add [of x ?d ?p] new by (simp add: items_ok_def)
    ultimately show ?thesis by (simp add: items_ok_signal)
  qed
qed

lemma items_ok_done:
  assumes "items_ok items ok s pc" and "pc i = Processing x" and "typed_done ops x s = (ws, s')"
  shows "items_ok items ok s' (pc(i := Idle))"
proof -
  let ?d = "set (wq_dirty s)" and ?p = "set (wq_processing s)"
  let ?s = "\<lambda>q. s\<lparr>wq_processing := js_del x (wq_processing s), wq_queue := q\<rparr>"
  note i = assms(1) [unfolded items_ok_def]
  have xp: "x \<in> ?p" using i assms(2) unfolding workers_ok_def by metis
  show ?thesis
  proof (cases "x \<in> ?d")
    case True
    have "?d - (?p - {x}) = insert x (?d - ?p)" using True by auto
    then have "mset_set (?d - (?p - {x})) = add_mset x (mset_set (?d - ?p))" using xp by simp
    with i push_ok [of "wq_queue s" x] items_ok_leave [OF assms(1,2), of "q_push ops x (wq_queue s)"]
    have "items_ok items ok (?s (q_push ops x (wq_queue s))) (pc(i := Idle))" by simp
    moreover have "typed_signal (?s (q_push ops x (wq_queue s))) = (ws, s')"
      using True assms(3) by (simp add: typed_done_def Let_def)
    ultimately show ?thesis by (simp add: items_ok_signal)
  next
    case False
    have "?d - (?p - {x}) = ?d - ?p" using False by auto
    with i items_ok_leave [OF assms(1,2), of "wq_queue s"]
    have k: "items_ok items ok (?s (wq_queue s)) (pc(i := Idle))" by simp
    have "?s (wq_queue s) = s\<lparr>wq_processing := js_del x (wq_processing s)\<rparr>" by simp
    with False assms(3) consider "typed_signal (?s (wq_queue s)) = (ws, s')" | "s' = ?s (wq_queue s)"
      by (auto simp: typed_done_def Let_def split: if_splits)
    then show ?thesis using k by cases (simp_all add: items_ok_signal)
  qed
qed

lemma items_ok_get_turn:
  assumes it: "items_ok items ok s pc" and h: "is_Holding (pc i)" and t: "get_turn ops i s = Inr (r, ws, w, s')"
  shows "r \<noteq> Got None \<and> items_ok items ok s' (pc(i := after_turn GetCall r))"
proof -
  have np: "pc i \<noteq> Processing y" for y using h by (cases "pc i") auto
  from t show ?thesis
  proof (cases rule: get_turn_cases)
    case sleeps
    with it np show ?thesis by (simp add: items_ok_sleep items_ok_upd)
  next
    case shutdown
    with it np show ?thesis by (simp add: items_ok_end_turn items_ok_upd)
  next
    case (item x q)
    with it pop_ok [of "wq_queue s"] have "ok q" "items (wq_queue s) = add_mset x (items q)"
      by (auto simp: items_ok_def)
    from items_ok_take [OF it h this] item items_ok_end_turn [OF item(5)] show ?thesis by simp
  next
    case (none q)
    with it pop_ok [of "wq_queue s"] show ?thesis by (auto simp: items_ok_def)
  qed
qed

lemma items_ok_drain_loop:
  assumes it: "items_ok items ok s pc" and h: "is_Holding (pc i)" and t: "drain_loop i ws s = Inr (r, ws', w, s')"
  shows "items_ok items ok s' (pc(i := after_turn call r))"
proof -
  have np: "pc i \<noteq> Processing y" for y using h by (cases "pc i") auto
  from t show ?thesis
    by (cases rule: drain_loop_cases) (use it np in \<open>auto simp: items_ok_sleep items_ok_end_turn items_ok_upd\<close>)
qed

lemma items_ok_turn:
  assumes it: "items_ok items ok s pc" and h: "is_Holding (pc i)"
    and t: "typed_turn ops i call s = Inr (r, ws, w, s')"
  shows "r \<noteq> Got None \<and> items_ok items ok s' (pc(i := after_turn call r))"
proof -
  have np: "pc i \<noteq> Processing y" for y using h by (cases "pc i") auto
  show ?thesis
  proof (cases call)
    case GetCall
    with items_ok_get_turn [OF it h] t show ?thesis by simp
  next
    case ShutDownCall
    obtain vs s0 where b: "typed_broadcast (s\<lparr>wq_drain := False, wq_shuttingDown := True\<rparr>) = (vs, s0)"
      by (metis surj_pair)
    with t ShutDownCall have e: "end_turn Completed vs s0 = Inr (r, ws, w, s')" by (simp add: shutDown_turn_def)
    with it np ShutDownCall end_turn_result [OF e] show ?thesis
      by (simp add: items_ok_end_turn [OF e] items_ok_broadcast [OF b] items_ok_upd)
  next
    case DrainCall
    obtain vs s0 where b: "typed_broadcast (s\<lparr>wq_drain := True, wq_shuttingDown := True\<rparr>) = (vs, s0)"
      by (metis surj_pair)
    with t DrainCall have e: "drain_loop i vs s0 = Inr (r, ws, w, s')" by (simp add: shutDownWithDrain_turn_def)
    moreover have "r \<noteq> Got None" using e by (cases rule: drain_loop_cases) simp_all
    ultimately show ?thesis using items_ok_drain_loop [where pc = pc and i = i, OF _ h e] it items_ok_broadcast [OF b] by simp
  next
    case DrainAgain
    with t have e: "drain_loop i [] s = Inr (r, ws, w, s')" by simp
    moreover have "r \<noteq> Got None" using e by (cases rule: drain_loop_cases) simp_all
    ultimately show ?thesis using items_ok_drain_loop [where pc = pc and i = i, OF it h e] by simp
  qed
qed

lemma items_ok_step:
  "wq_step ops st st' \<Longrightarrow> items_ok items ok (fst st) (snd st) \<Longrightarrow> items_ok items ok (fst st') (snd st')"
proof (induction rule: wq_step.induct)
  case (Add x s ws s' pc)
  then show ?case using items_ok_add [of s pc x ws s'] by simp
next
  case (Call pc i call s now m)
  then show ?case by (cases now) (simp_all add: items_ok_upd flip: fun_upd_def)
next
  case (Woken pc i call s now m)
  then show ?case by (cases now) (simp_all add: items_ok_upd flip: fun_upd_def)
next
  case (Turn pc i call s r ws w s')
  then show ?case using items_ok_turn [of s pc i call r ws w s'] by simp
next
  case (Finish pc i x s ws s')
  then show ?case using items_ok_done [of s pc i x ws s'] by simp
qed

lemma items_ok_init: "ok q \<Longrightarrow> items q = {#} \<Longrightarrow> items_ok items ok (new_typed q) (\<lambda>_. Idle)"
  by (simp add: items_ok_def workers_ok_def new_typed_def)

lemma reachable:
  assumes "(wq_step ops)\<^sup>*\<^sup>* (new_typed q, \<lambda>_. Idle) st" and "ok q" and "items q = {#}"
  shows "callers_ok (fst st) (snd st) \<and> items_ok items ok (fst st) (snd st)"
  using assms(1)
proof (induction rule: rtranclp_induct)
  case base
  with assms show ?case by (simp add: callers_ok_init items_ok_init)
next
  case (step st st')
  with callers_ok_step [OF step(2)] items_ok_step [OF step(2)] show ?case by simp
qed

end

section \<open>Wakeups\<close>

text \<open>A caller of \<open>get\<close> that is on its way to the queue.\<close>

definition pending :: "'t pc \<Rightarrow> bool" where
  "pending p \<longleftrightarrow> p = Notified GetCall \<or> p = Locking GetCall \<or> p = Holding GetCall"

definition pendings :: "(nat \<Rightarrow> 't pc) \<Rightarrow> nat" where
  "pendings pc = card {i. pending (pc i)}"

fun call_of :: "'t pc \<Rightarrow> wq_call option" where
  "call_of (Locking c) = Some c"
| "call_of (Holding c) = Some c"
| "call_of (Sleeping c) = Some c"
| "call_of (Notified c) = Some c"
| "call_of _ = None"

text \<open>
  \<open>n\<close> items are waiting: if a caller of \<open>get\<close> sleeps, at least \<open>n\<close> others are on their way; after
  shut-down none sleeps.
\<close>

definition wakeups_ok :: "nat \<Rightarrow> ('t, 'q) typed \<Rightarrow> (nat \<Rightarrow> 't pc) \<Rightarrow> bool" where
  "wakeups_ok n s pc \<longleftrightarrow> finite {i. pc i \<noteq> Idle} \<and>
     (\<forall>i. is_Sleeping (pc i) \<longrightarrow> pc i = Sleeping GetCall \<or> pc i = Sleeping DrainAgain) \<and>
     (if wq_shuttingDown s then \<forall>i. pc i \<noteq> Sleeping GetCall
      else (\<forall>i. call_of (pc i) \<noteq> Some DrainAgain) \<and> (wq_waiters s \<noteq> [] \<longrightarrow> n \<le> pendings pc))"

lemma pending_grant [simp]: "pending (grant w pc i) = pending (pc i)"
  by (auto simp: pending_def grant_def split: pc.splits)

lemma pendings_grant [simp]: "pendings (grant w pc) = pendings pc"
  by (simp add: pendings_def)

lemma call_of_grant [simp]: "call_of (grant w pc i) = call_of (pc i)"
  by (auto simp: grant_def split: pc.splits)

lemma sleeping_grant [simp]: "grant w pc i = Sleeping c \<longleftrightarrow> pc i = Sleeping c"
  by (auto simp: grant_def split: pc.splits)

lemma wakeups_ok_grant [simp]: "wakeups_ok n s (grant w pc) = wakeups_ok n s pc"
  by (simp add: wakeups_ok_def)

lemma finite_pending: "finite {i. pc i \<noteq> Idle} \<Longrightarrow> finite {i. pending (pc i)}"
  by (rule finite_subset [of _ "{i. pc i \<noteq> Idle}"]) (auto simp: pending_def)

lemma finite_busy_upd: "finite {i. pc i \<noteq> Idle} \<Longrightarrow> finite {j. (pc(i := p)) j \<noteq> Idle}"
  by (rule finite_subset [of _ "insert i {i. pc i \<noteq> Idle}"]) auto

lemma pendings_upd:
  assumes "finite {i. pc i \<noteq> Idle}"
  shows "pendings (pc(i := p)) + (if pending (pc i) then 1 else 0) =
    pendings pc + (if pending p then 1 else 0)"
proof -
  let ?A = "{j. pending (pc j)}"
  have f: "finite ?A" using assms by (rule finite_pending)
  have "{j. pending ((pc(i := p)) j)} = (if pending p then insert i ?A else ?A - {i})" by auto
  with f show ?thesis
    using card_Suc_Diff1 [OF f, of i] by (auto simp: pendings_def card_insert_if insert_absorb)
qed

text \<open>One caller moves on without falling asleep.\<close>

lemma wakeups_ok_upd:
  assumes "wakeups_ok n s pc" and "\<not> is_Sleeping (pc i)" and "\<not> is_Sleeping p"
    and "call_of p = Some DrainAgain \<Longrightarrow> call_of (pc i) = Some DrainAgain"
    and "wq_shuttingDown s' = wq_shuttingDown s" and "wq_waiters s' = wq_waiters s"
    and "n' = 0 \<or> n' + (if pending (pc i) then 1 else 0) \<le> n + (if pending p then 1 else 0)"
  shows "wakeups_ok n' s' (pc(i := p))"
proof -
  from assms(1) have f: "finite {i. pc i \<noteq> Idle}" by (simp add: wakeups_ok_def)
  have "n \<le> pendings pc \<Longrightarrow> n' \<le> pendings (pc(i := p))"
    using pendings_upd [OF f, of i p] assms(7) by (auto split: if_splits)
  with assms finite_busy_upd [OF f, of i p] show ?thesis
    by (auto simp: wakeups_ok_def split: if_splits)
qed

lemma wakeups_ok_signal:
  assumes c: "callers_ok s pc" and w: "wakeups_ok n s pc" and t: "typed_signal s = (ws, s')"
    and n': "n' \<le> Suc n"
  shows "wakeups_ok n' s' (wake ws pc)"
proof (cases "wq_waiters s")
  case Nil
  with t have "ws = []" "wq_waiters s' = []" "wq_shuttingDown s' = wq_shuttingDown s"
    by (auto simp: typed_signal_def cond_signal_def)
  with w show ?thesis by (simp add: wakeups_ok_def)
next
  case (Cons j rest)
  with t have s': "ws = [j]" "s' = s\<lparr>wq_waiters := rest\<rparr>" by (auto simp: typed_signal_def cond_signal_def)
  from c Cons have "is_Sleeping (pc j)" by (simp add: callers_ok_def cond_ok_def)
  then obtain k where k: "pc j = Sleeping k" by (cases "pc j") auto
  then have u: "wake ws pc = pc(j := Notified k)" by (auto simp: wake_def s' fun_eq_iff)
  from w have f: "finite {i. pc i \<noteq> Idle}" by (simp add: wakeups_ok_def)
  from w have "is_Sleeping (pc j) \<longrightarrow> pc j = Sleeping GetCall \<or> pc j = Sleeping DrainAgain"
    by (simp add: wakeups_ok_def)
  with k have "k = GetCall \<or> k = DrainAgain" by simp
  moreover have "\<not> wq_shuttingDown s \<Longrightarrow> call_of (pc j) \<noteq> Some DrainAgain" using w by (simp add: wakeups_ok_def)
  ultimately have "\<not> wq_shuttingDown s \<Longrightarrow> k = GetCall" using k by auto
  then have "\<not> wq_shuttingDown s \<Longrightarrow> n \<le> pendings pc \<Longrightarrow> n' \<le> pendings (pc(j := Notified k))"
    using pendings_upd [OF f, of j "Notified k"] n' k by (auto simp: pending_def)
  moreover have "call_of ((pc(j := Notified k)) i) = call_of (pc i)" for i using k by simp
  ultimately show ?thesis unfolding u unfolding s' using w finite_busy_upd [OF f, of j "Notified k"] Cons
    by (auto simp: wakeups_ok_def split: if_splits)
qed

text \<open>Shutting down wakes everybody.\<close>

lemma wakeups_ok_broadcast:
  assumes c: "callers_ok s pc" and w: "wakeups_ok n s pc"
    and t: "typed_broadcast (s\<lparr>wq_drain := d, wq_shuttingDown := True\<rparr>) = (ws, s')"
  shows "wakeups_ok n' s' (wake ws pc) \<and> wq_shuttingDown s'"
proof -
  from t have s': "ws = wq_waiters s" "wq_shuttingDown s'" by (auto simp: typed_broadcast_def cond_broadcast_def)
  with c have n: "\<not> is_Sleeping (wake ws pc i)" for i by (simp add: callers_ok_def cond_ok_def)
  have "wake ws pc i \<noteq> Sleeping k" for i k using n [of i] by (cases "pc i") auto
  with n w s' show ?thesis by (simp add: wakeups_ok_def)
qed

text \<open>The turns.\<close>

lemma wakeups_ok_end_turn:
  assumes "wakeups_ok n s pc" and e: "end_turn r ws s = Inr (r', ws', w, s')" and "is_Holding (pc i)"
    and "\<not> is_Sleeping p" and "call_of p = None" and "n' \<le> (if pc i = Holding GetCall then n - 1 else n)"
  shows "wakeups_ok n' s' (pc(i := p))"
proof -
  from e have "wq_shuttingDown s' = wq_shuttingDown s" "wq_waiters s' = wq_waiters s"
    by (auto simp: end_turn_def split: sum.splits)
  moreover from assms(3) obtain c where "pc i = Holding c" by (cases "pc i") auto
  ultimately show ?thesis using assms by (intro wakeups_ok_upd [OF assms(1)]) (auto simp: pending_def)
qed

lemma wakeups_ok_sleep:
  assumes w: "wakeups_ok n s pc" and e: "typed_sleep i ws s = Inr (r', ws', v, s')"
    and "wq_shuttingDown s \<longrightarrow> c = DrainAgain" and "\<not> wq_shuttingDown s \<longrightarrow> c = GetCall"
  shows "wakeups_ok 0 s' (pc(i := Sleeping c))"
proof -
  from e have s': "wq_shuttingDown s' = wq_shuttingDown s"
    by (auto simp: typed_sleep_def end_turn_def split: sum.splits)
  from w have f: "finite {i. pc i \<noteq> Idle}" by (simp add: wakeups_ok_def)
  show ?thesis using w assms(3,4) finite_busy_upd [OF f, of i "Sleeping c"] s'
    by (auto simp: wakeups_ok_def split: if_splits)
qed

lemma wakeups_ok_drain_loop:
  assumes w: "wakeups_ok n s pc" and h: "is_Holding (pc i)" and sh: "wq_shuttingDown s"
    and c: "call = DrainCall \<or> call = DrainAgain" and t: "drain_loop i ws s = Inr (r, ws', v, s')"
  shows "wakeups_ok 0 s' (pc(i := after_turn call r)) \<and> wq_shuttingDown s'"
proof -
  have s': "wq_shuttingDown s' = wq_shuttingDown s"
    using t by (auto simp: drain_loop_def typed_sleep_def end_turn_def split: if_splits sum.splits)
  from t have "wakeups_ok 0 s' (pc(i := after_turn call r))"
  proof (cases rule: drain_loop_cases)
    case sleeps
    with wakeups_ok_sleep [OF w sleeps(4), of DrainAgain] sh c show ?thesis by auto
  next
    case completed
    with wakeups_ok_end_turn [OF w completed(3) h, of Idle 0] show ?thesis by simp
  qed
  with s' sh show ?thesis by simp
qed

lemma wakeups_ok_shut: "wakeups_ok n s pc \<Longrightarrow> wq_shuttingDown s \<Longrightarrow> wakeups_ok n' s pc"
  by (auto simp: wakeups_ok_def)

text \<open>Every operation keeps the wakeups right.\<close>

context queue_contract
begin

lemma wakeups_add:
  assumes c: "callers_ok s pc" and i: "items_ok items ok s pc"
    and w: "wakeups_ok (q_len ops (wq_queue s)) s pc" and t: "typed_add ops x s = (ws, s')"
  shows "wakeups_ok (q_len ops (wq_queue s')) s' (wake ws pc)"
proof -
  let ?q = "wq_queue s"
  have q: "q_len ops (q_push ops x ?q) = Suc (q_len ops ?q)" "q_len ops (q_touch ops x ?q) = q_len ops ?q"
    using i push_ok [of ?q x] touch_ok [of ?q x] len_ok by (simp_all add: items_ok_def)
  show ?thesis
  proof (cases "wq_shuttingDown s \<or> x \<in> set (wq_dirty s) \<or> x \<in> set (wq_processing s)")
    case True
    then have "ws = []" "wq_shuttingDown s' = wq_shuttingDown s" "wq_waiters s' = wq_waiters s"
      "wq_queue s' = ?q \<or> wq_queue s' = q_touch ops x ?q"
      using t by (auto simp: typed_add_def Let_def split: if_splits)
    with w q show ?thesis by (auto simp: wakeups_ok_def)
  next
    case False
    let ?s = "s\<lparr>wq_dirty := js_add x (wq_dirty s), wq_queue := q_push ops x ?q\<rparr>"
    from False t have push: "typed_signal ?s = (ws, s')" by (simp add: typed_add_def Let_def)
    then have "wq_queue s' = q_push ops x ?q"
      by (cases "cond_signal (wq_waiters s)") (auto simp: typed_signal_def)
    moreover have "wakeups_ok (q_len ops ?q) ?s pc" using w by (simp add: wakeups_ok_def)
    ultimately show ?thesis using wakeups_ok_signal [OF _ _ push] c q by simp
  qed
qed

lemma wakeups_done:
  assumes c: "callers_ok s pc" and i: "items_ok items ok s pc" and p: "pc i = Processing x"
    and w: "wakeups_ok (q_len ops (wq_queue s)) s pc" and t: "typed_done ops x s = (ws, s')"
  shows "wakeups_ok (q_len ops (wq_queue s')) s' (wake ws (pc(i := Idle)))"
proof -
  let ?q = "wq_queue s" and ?s = "s\<lparr>wq_processing := js_del x (wq_processing s)\<rparr>"
  have q: "q_len ops (q_push ops x ?q) = Suc (q_len ops ?q)"
    using i push_ok [of ?q x] len_ok by (simp add: items_ok_def)
  have c': "callers_ok s (pc(i := Idle))" by (rule callers_ok_finish [OF c]) (simp_all add: p)
  have w': "wakeups_ok (q_len ops ?q) s0 (pc(i := Idle))"
    if "wq_shuttingDown s0 = wq_shuttingDown s" "wq_waiters s0 = wq_waiters s" for s0
    using p that by (intro wakeups_ok_upd [OF w]) (simp_all add: pending_def)
  have d: "typed_done ops x s =
      (if x \<in> set (wq_dirty s) then typed_signal (?s\<lparr>wq_queue := q_push ops x ?q\<rparr>)
       else if length (wq_processing ?s) = 0 then typed_signal ?s else ([], ?s))"
    by (simp add: typed_done_def)
  have sq: "typed_signal s0 = (ws, s') \<Longrightarrow> wq_queue s' = wq_queue s0" for s0
    by (cases "cond_signal (wq_waiters s0)") (auto simp: typed_signal_def)
  show ?thesis
  proof (cases "x \<in> set (wq_dirty s)")
    case True
    with d t have push: "typed_signal (?s\<lparr>wq_queue := q_push ops x ?q\<rparr>) = (ws, s')" by simp
    from sq [OF push] have "wq_queue s' = q_push ops x ?q" by simp
    moreover have "wakeups_ok (Suc (q_len ops ?q)) s' (wake ws (pc(i := Idle)))"
      by (rule wakeups_ok_signal [OF _ w' push]) (simp_all add: c')
    ultimately show ?thesis using q by simp
  next
    case False
    show ?thesis
    proof (cases "length (wq_processing ?s) = 0")
      case True
      with False d t have signal: "typed_signal ?s = (ws, s')" by simp
      have "wakeups_ok (q_len ops ?q) s' (wake ws (pc(i := Idle)))"
        by (rule wakeups_ok_signal [OF _ w' signal]) (simp_all add: c')
      with sq [OF signal] show ?thesis by simp
    next
      case False
      with \<open>x \<notin> set (wq_dirty s)\<close> d t have "ws = []" "s' = ?s" by simp_all
      with w' [of ?s] show ?thesis by simp
    qed
  qed
qed

lemma wakeups_get_turn:
  assumes i: "items_ok items ok s pc" and h: "pc j = Holding GetCall"
    and w: "wakeups_ok (q_len ops (wq_queue s)) s pc" and t: "get_turn ops j s = Inr (r, ws, v, s')"
  shows "wakeups_ok (q_len ops (wq_queue s')) s' (pc(j := after_turn GetCall r))"
proof -
  have hj: "is_Holding (pc j)" by (simp add: h)
  have sq: "end_turn r0 vs s0 = Inr (r1, us, v, s') \<Longrightarrow> wq_queue s' = wq_queue s0" for r0 r1 vs us s0
    by (auto simp: end_turn_def split: sum.splits)
  from t show ?thesis
  proof (cases rule: get_turn_cases)
    case sleeps
    then have "wq_queue s' = wq_queue s" by (auto simp: typed_sleep_def dest: sq)
    with wakeups_ok_sleep [OF w sleeps(5), of GetCall] sleeps show ?thesis by simp
  next
    case shutdown
    with wakeups_ok_end_turn [OF w shutdown(5) hj, of Idle 0] sq [OF shutdown(5)] show ?thesis by simp
  next
    case (item x q)
    have "q_len ops q = q_len ops (wq_queue s) - 1"
      using i pop_ok [of "wq_queue s"] item len_ok by (auto simp: items_ok_def)
    moreover have "wakeups_ok (q_len ops (wq_queue s)) (s\<lparr>wq_queue := q,
        wq_processing := js_add x (wq_processing s), wq_dirty := js_del x (wq_dirty s)\<rparr>) pc"
      using w by (simp add: wakeups_ok_def)
    ultimately show ?thesis
      using wakeups_ok_end_turn [where pc = pc and i = j and p = "Processing x", OF _ item(5) hj]
        sq [OF item(5)] h item(1) by simp
  next
    case (none q)
    with i pop_ok [of "wq_queue s"] show ?thesis by (auto simp: items_ok_def)
  qed
qed

lemma wakeups_turn:
  assumes c: "callers_ok s pc" and i: "items_ok items ok s pc" and h: "pc j = Holding call"
    and w: "wakeups_ok (q_len ops (wq_queue s)) s pc" and t: "typed_turn ops j call s = Inr (r, ws, v, s')"
  shows "wakeups_ok (q_len ops (wq_queue s')) s' (wake ws (pc(j := after_turn call r)))"
proof -
  have hj: "is_Holding (pc j)" by (simp add: h)
  show ?thesis
  proof (cases call)
    case GetCall
    with t have g: "get_turn ops j s = Inr (r, ws, v, s')" by simp
    then have "ws = []" by (cases rule: get_turn_cases) simp_all
    with wakeups_get_turn [OF i _ w g] GetCall h show ?thesis by simp
  next
    case ShutDownCall
    obtain vs s0 where b: "typed_broadcast (s\<lparr>wq_drain := False, wq_shuttingDown := True\<rparr>) = (vs, s0)"
      by (metis surj_pair)
    with t ShutDownCall have e: "end_turn Completed vs s0 = Inr (r, ws, v, s')" by (simp add: shutDown_turn_def)
    have "j \<notin> set vs" using broadcast_not_holder [where pc = pc and i = j, OF _ b hj] c by simp
    with wakeups_ok_end_turn [OF wakeups_ok_broadcast [OF c w b, THEN conjunct1] e, of j Idle 0] hj
      wakeups_ok_broadcast [OF c w b] end_turn_result [OF e] ShutDownCall
    have "wakeups_ok 0 s' (wake ws (pc(j := after_turn call r)))" by (simp add: wake_upd)
    moreover have "wq_shuttingDown s'" using e wakeups_ok_broadcast [OF c w b]
      by (auto simp: end_turn_def split: sum.splits)
    ultimately show ?thesis by (rule wakeups_ok_shut)
  next
    case DrainCall
    obtain vs s0 where b: "typed_broadcast (s\<lparr>wq_drain := True, wq_shuttingDown := True\<rparr>) = (vs, s0)"
      by (metis surj_pair)
    with t DrainCall have e: "drain_loop j vs s0 = Inr (r, ws, v, s')" by (simp add: shutDownWithDrain_turn_def)
    then have ws: "ws = vs" by (cases rule: drain_loop_cases) simp_all
    have "j \<notin> set vs" using broadcast_not_holder [where pc = pc and i = j, OF _ b hj] c by simp
    with wakeups_ok_drain_loop [OF wakeups_ok_broadcast [OF c w b, THEN conjunct1] _ _ _ e, of call] hj
      wakeups_ok_broadcast [OF c w b] ws DrainCall
    have "wakeups_ok 0 s' (wake ws (pc(j := after_turn call r))) \<and> wq_shuttingDown s'" by (simp add: wake_upd)
    then show ?thesis using wakeups_ok_shut by blast
  next
    case DrainAgain
    with t have e: "drain_loop j [] s = Inr (r, ws, v, s')" by simp
    have "wq_shuttingDown s" using w h DrainAgain by (auto simp: wakeups_ok_def split: if_splits dest: spec [of _ j])
    with wakeups_ok_drain_loop [OF w hj _ _ e, of DrainAgain] wakeups_ok_shut DrainAgain
    have "wakeups_ok (q_len ops (wq_queue s')) s' (pc(j := after_turn call r))" by blast
    moreover have "ws = []" using e by (cases rule: drain_loop_cases) simp_all
    ultimately show ?thesis by simp
  qed
qed

lemma wakeups_lock:
  assumes w: "wakeups_ok n s pc" and "pc i = Idle \<and> call \<noteq> DrainAgain \<or> pc i = Notified call"
  shows "wakeups_ok n (s\<lparr>wq_lock := m\<rparr>) (pc(i := if now then Holding call else Locking call))"
  using assms(2) by (intro wakeups_ok_upd [OF w]; cases now) (auto simp: pending_def)

lemma wakeups_step:
  "wq_step ops st st' \<Longrightarrow> callers_ok (fst st) (snd st) \<Longrightarrow> items_ok items ok (fst st) (snd st) \<Longrightarrow>
    wakeups_ok (q_len ops (wq_queue (fst st))) (fst st) (snd st) \<Longrightarrow>
    wakeups_ok (q_len ops (wq_queue (fst st'))) (fst st') (snd st')"
proof (induction rule: wq_step.induct)
  case (Add x s ws s' pc)
  then show ?case using wakeups_add [of s pc x ws s'] by simp
next
  case (Call pc i call s now m)
  then show ?case using wakeups_lock [of _ s pc i call m now] by (cases now) (simp_all flip: fun_upd_def)
next
  case (Woken pc i call s now m)
  then show ?case using wakeups_lock [of _ s pc i call m now] by (cases now) (simp_all flip: fun_upd_def)
next
  case (Turn pc i call s r ws w s')
  then show ?case using wakeups_turn [of s pc i call r ws w s'] by simp
next
  case (Finish pc i x s ws s')
  then show ?case using wakeups_done [of s pc i x ws s'] by simp
qed

lemma wakeups_reachable:
  assumes "(wq_step ops)\<^sup>*\<^sup>* (new_typed q, \<lambda>_. Idle) st" and "ok q" and "items q = {#}"
  shows "wakeups_ok (q_len ops (wq_queue (fst st))) (fst st) (snd st)"
  using assms(1)
proof (induction rule: rtranclp_induct)
  case base
  show ?case by (simp add: wakeups_ok_def new_typed_def)
next
  case (step st st')
  with wakeups_step [OF step(2)] reachable [OF step(1) assms(2,3)] show ?case by simp
qed

end

section \<open>DefaultQueue keeps the contract\<close>

interpretation fifo: queue_contract default_queue mset "\<lambda>_. True"
proof
  show "True \<Longrightarrow> True \<and> mset (q_touch default_queue x q) = mset q" for x q
    by (simp add: default_queue_def)
  show "True \<Longrightarrow> True \<and> mset (q_push default_queue x q) = add_mset x (mset q)" for x q
    by (simp add: default_queue_def)
  show "True \<Longrightarrow> q_len default_queue q = size (mset q)" for q
    by (simp add: default_queue_def)
  show "True \<Longrightarrow> q_len default_queue q > 0 \<Longrightarrow>
      \<exists>x q'. q_pop default_queue q = (Some x, q') \<and> True \<and> mset q = add_mset x (mset q')" for q
    by (cases q) (simp_all add: default_queue_def)
qed

text \<open>
  C24. However producers, workers and shut-down callers interleave, the queue holds exactly the items
  that were added and are not being processed, each of them once, and an item is never in the hands
  of two workers: what is added while a worker has it waits in the dirty set until that worker is done.
\<close>

theorem workqueue_items:
  assumes "(wq_step default_queue)\<^sup>*\<^sup>* (new_typed [], \<lambda>_. Idle) (s, pc)"
  shows "distinct (wq_queue s) \<and> set (wq_queue s) = set (wq_dirty s) - set (wq_processing s) \<and>
    (\<forall>x. x \<in> set (wq_processing s) \<longleftrightarrow> (\<exists>i. pc i = Processing x)) \<and>
    (\<forall>i j x. pc i = Processing x \<longrightarrow> pc j = Processing x \<longrightarrow> i = j)"
proof -
  from fifo.reachable [OF assms] have i: "items_ok mset (\<lambda>_. True) s pc" by simp
  then have m: "mset (wq_queue s) = mset_set (set (wq_dirty s) - set (wq_processing s))"
    by (simp add: items_ok_def)
  then have "set (wq_queue s) = set (wq_dirty s) - set (wq_processing s)"
    by (metis finite_Diff finite_set finite_set_mset_mset_set set_mset_mset)
  moreover from this m have "distinct (wq_queue s)" by (metis card_distinct size_mset size_mset_set)
  moreover note i
  ultimately show ?thesis unfolding items_ok_def workers_ok_def by simp
qed

text \<open>A run: item 5 is added, caller 1 takes it, and caller 2 finds nothing and sleeps.\<close>

definition run_items :: "(nat, nat list) typed" where
  "run_items = (new_typed [])\<lparr>wq_processing := [5]\<rparr>"

lemma run_take: "(wq_step default_queue)\<^sup>*\<^sup>* (new_typed [], \<lambda>_. Idle) (run_items, (\<lambda>_. Idle)(1 := Processing 5))"
proof -
  let ?n = "new_typed [] :: (nat, nat list) typed"
  let ?s1 = "?n\<lparr>wq_dirty := [5], wq_queue := [5]\<rparr>"
  let ?s2 = "?s1\<lparr>wq_lock := \<lparr>mu_locked = True, mu_waiters = []\<rparr>\<rparr>"
  have a: "wq_step default_queue (?n, \<lambda>_. Idle) (?s1, wake [] (\<lambda>_. Idle))"
    by (rule wq_step.Add [of _ 5])
      (simp add: typed_add_def typed_signal_def cond_signal_def new_typed_def default_queue_def js_add_def)
  have b: "wq_step default_queue (?s1, \<lambda>_. Idle) (?s2, (\<lambda>_. Idle)(1 := if True then Holding GetCall else Locking GetCall))"
    by (rule wq_step.Call) (simp_all add: mutex_lock_def mutex_tryLock_def new_typed_def new_mutex_def)
  have c: "wq_step default_queue (?s2, (\<lambda>_. Idle)(1 := Holding GetCall))
      (run_items, grant None (wake [] (((\<lambda>_. Idle)(1 := Holding GetCall))(1 := after_turn GetCall (Got (Some 5))))))"
    by (rule wq_step.Turn [of _ 1])
      (simp_all add: get_turn_def end_turn_def mutex_unlock_def default_queue_def js_add_def run_items_def
        new_typed_def new_mutex_def)
  have g: "grant None pc = pc" for pc :: "nat \<Rightarrow> nat pc" by (auto simp: grant_def)
  from a b c show ?thesis by (simp add: g)
qed

lemma run_sleep:
  "(wq_step default_queue)\<^sup>*\<^sup>* (new_typed [], \<lambda>_. Idle)
    (run_items\<lparr>wq_waiters := [2]\<rparr>, (\<lambda>_. Idle)(1 := Processing 5, 2 := Sleeping GetCall))"
proof -
  let ?pc = "(\<lambda>_. Idle)(1 := Processing 5) :: nat \<Rightarrow> nat pc"
  let ?s2 = "run_items\<lparr>wq_lock := \<lparr>mu_locked = True, mu_waiters = []\<rparr>\<rparr>"
  have b: "wq_step default_queue (run_items, ?pc) (?s2, ?pc(2 := if True then Holding GetCall else Locking GetCall))"
    by (rule wq_step.Call)
      (simp_all add: mutex_lock_def mutex_tryLock_def new_typed_def new_mutex_def run_items_def)
  have c: "wq_step default_queue (?s2, ?pc(2 := Holding GetCall))
      (run_items\<lparr>wq_waiters := [2]\<rparr>,
       grant None (wake [] ((?pc(2 := Holding GetCall))(2 := after_turn GetCall Sleeps))))"
    by (rule wq_step.Turn [of _ 2])
      (simp_all add: get_turn_def typed_sleep_def end_turn_def mutex_unlock_def default_queue_def
        cond_wait_def run_items_def new_typed_def new_mutex_def)
  have g: "grant None pc = pc" for pc :: "nat \<Rightarrow> nat pc" by (auto simp: grant_def)
  from run_take b c show ?thesis by (simp add: g)
qed

lemma workqueue_items_witness: "set (wq_queue run_items) = set (wq_dirty run_items) - {5}"
  using workqueue_items [OF run_take, THEN conjunct2, THEN conjunct1] by (simp add: run_items_def)

text \<open>
  C25. No wakeup is lost: while a caller of \<open>get\<close> sleeps and items are queued, at least as many other
  callers have been woken and are on their way to the queue as there are items; and once the queue
  is shutting down no caller of \<open>get\<close> sleeps any more.
\<close>

theorem workqueue_wakeups:
  assumes "(wq_step default_queue)\<^sup>*\<^sup>* (new_typed [], \<lambda>_. Idle) (s, pc)"
    and "pc i = Sleeping GetCall"
  shows "\<not> wq_shuttingDown s \<and> length (wq_queue s) \<le> card {j. pending (pc j)}"
proof -
  from fifo.reachable [OF assms(1)] have "wq_waiters s \<noteq> []"
    using assms(2) callers_ok_sleeper by fastforce
  with fifo.wakeups_reachable [OF assms(1)] assms(2) show ?thesis
    by (auto simp: wakeups_ok_def pendings_def default_queue_def split: if_splits)
qed

lemma workqueue_wakeups_witness:
  "\<not> wq_shuttingDown run_items \<and>
    0 \<le> card {j. pending (((\<lambda>_. Idle)(1 := Processing 5, 2 := Sleeping GetCall) :: nat \<Rightarrow> nat pc) j)}"
  using workqueue_wakeups [OF run_sleep, of 2] by simp

section \<open>Nothing that was added is forgotten\<close>

lemma dirty_signal: "typed_signal s = (ws, s') \<Longrightarrow> wq_dirty s' = wq_dirty s"
  by (cases "cond_signal (wq_waiters s)") (auto simp: typed_signal_def)

lemma dirty_broadcast: "typed_broadcast s = (ws, s') \<Longrightarrow> wq_dirty s' = wq_dirty s"
  by (auto simp: typed_broadcast_def cond_broadcast_def)

lemma dirty_end_turn: "end_turn r ws s = Inr (r', ws', w, s') \<Longrightarrow> wq_dirty s' = wq_dirty s"
  by (auto simp: end_turn_def split: sum.splits)

lemma dirty_sleep: "typed_sleep i ws s = Inr (r', ws', w, s') \<Longrightarrow> wq_dirty s' = wq_dirty s"
  by (auto simp: typed_sleep_def dest: dirty_end_turn)

lemma dirty_drain_loop: "drain_loop i ws s = Inr (r, ws', w, s') \<Longrightarrow> wq_dirty s' = wq_dirty s"
  by (cases rule: drain_loop_cases) (auto dest: dirty_end_turn dirty_sleep)

lemma dirty_turn:
  assumes t: "typed_turn ops i call s = Inr (r, ws, w, s')" and x: "x \<in> set (wq_dirty s)"
  shows "x \<in> set (wq_dirty s') \<or> (call = GetCall \<and> r = Got (Some x))"
proof (cases call)
  case GetCall
  with t have "get_turn ops i s = Inr (r, ws, w, s')" by simp
  then show ?thesis
    by (cases rule: get_turn_cases) (use x GetCall in \<open>auto dest!: dirty_end_turn dirty_sleep\<close>)
next
  case ShutDownCall
  with t x show ?thesis
    by (auto simp: shutDown_turn_def typed_broadcast_def cond_broadcast_def dest!: dirty_end_turn)
next
  case DrainCall
  with t x show ?thesis
    by (auto simp: shutDownWithDrain_turn_def typed_broadcast_def cond_broadcast_def dest!: dirty_drain_loop)
next
  case DrainAgain
  with t x show ?thesis by (auto dest!: dirty_drain_loop)
qed

text \<open>
  C28. Nothing that was added is forgotten: adding an item to a queue that is not shutting down makes
  it dirty, and a dirty item stays dirty through every step until a worker takes it from the queue.
\<close>

theorem workqueue_keeps:
  "(\<not> wq_shuttingDown s \<longrightarrow> x \<in> set (wq_dirty (snd (typed_add ops x s)))) \<and>
   (wq_step ops (s, pc) (s', pc') \<longrightarrow> x \<in> set (wq_dirty s) \<longrightarrow>
      x \<in> set (wq_dirty s') \<or> (\<exists>i. pc i = Holding GetCall \<and> pc' i = Processing x))"
proof (intro conjI impI)
  assume "\<not> wq_shuttingDown s"
  then show "x \<in> set (wq_dirty (snd (typed_add ops x s)))"
    by (cases "cond_signal (wq_waiters s)") (auto simp: typed_add_def Let_def typed_signal_def)
next
  assume st: "wq_step ops (s, pc) (s', pc')" and x: "x \<in> set (wq_dirty s)"
  from st show "x \<in> set (wq_dirty s') \<or> (\<exists>i. pc i = Holding GetCall \<and> pc' i = Processing x)"
  proof (elim wq_stepE)
    fix y ws
    assume "typed_add ops y s = (ws, s')"
    with x show ?thesis by (auto simp: typed_add_def Let_def dest!: dirty_signal split: if_splits)
  next
    fix i call r ws w
    assume "pc' = grant w (wake ws (pc(i := after_turn call r)))" "pc i = Holding call"
      "typed_turn ops i call s = Inr (r, ws, w, s')"
    with dirty_turn [OF _ x] show ?thesis by fastforce
  next
    fix i y ws
    assume "typed_done ops y s = (ws, s')"
    with x show ?thesis by (auto simp: typed_done_def Let_def dest!: dirty_signal split: if_splits)
  qed (use x in auto)
qed

lemma workqueue_keeps_witness: "''a'' \<in> set (wq_dirty (snd (typed_add default_queue ''a'' (new_typed []))))"
  using workqueue_keeps [of "new_typed []" "''a''" default_queue] by (simp add: new_typed_def)

end
