(* ===== verification/Heap.thy ===== *)
theory Heap
  imports JsPrelude "HOL-Library.Multiset"
begin

text \<open>
  \<open>src/go/container/heap/heap.ts\<close>: the binary heap over any \<open>heap.Interface\<close>. The interface is a
  record of its operations and its contract a locale: the array of entries with their priorities.
  Inside the locale every heap operation is shown to keep the heap order and the entries; a popped
  entry has the least priority.
\<close>

section \<open>The operations\<close>

record ('x, 'h) heap_ops =
  h_len :: "'h \<Rightarrow> nat"
  h_less :: "'h \<Rightarrow> nat \<Rightarrow> nat \<Rightarrow> bool"
  h_swap :: "nat \<Rightarrow> nat \<Rightarrow> 'h \<Rightarrow> 'h"
  h_push :: "'x \<Rightarrow> 'h \<Rightarrow> 'h"
  h_pop :: "'h \<Rightarrow> string + 'x \<times> 'h"

text \<open>\<open>Math.trunc((j - 1) / 2)\<close>, which is 0 for 0.\<close>

definition parent :: "nat \<Rightarrow> nat" where
  "parent j = (j - 1) div 2"

lemma parent_less [simp]: "0 < j \<Longrightarrow> parent j < j"
  by (auto simp: parent_def)

lemma parent_le [simp]: "parent j \<le> j"
  by (auto simp: parent_def)

lemma parent_child: "0 < k \<and> parent k = i \<longleftrightarrow> k = 2 * i + 1 \<or> k = 2 * i + 2"
  unfolding parent_def by presburger

function heap_up :: "('x, 'h) heap_ops \<Rightarrow> 'h \<Rightarrow> nat \<Rightarrow> 'h" where
  "heap_up ops h j =
     (let i = parent j in
      if i = j \<or> \<not> h_less ops h j i then h else heap_up ops (h_swap ops i j h) i)"
  by auto
termination
  by (relation "measure (\<lambda>(ops, h, j). j)") (auto simp: le_neq_implies_less)

declare heap_up.simps [simp del]

text \<open>The loop of \<open>down\<close>: the final heap and the final position.\<close>

function heap_down_loop :: "('x, 'h) heap_ops \<Rightarrow> 'h \<Rightarrow> nat \<Rightarrow> nat \<Rightarrow> 'h \<times> nat" where
  "heap_down_loop ops h i n =
     (let j1 = 2 * i + 1 in
      if j1 \<ge> n then (h, i)
      else
        let j2 = j1 + 1;
            j = (if j2 < n \<and> h_less ops h j2 j1 then j2 else j1) in
        if \<not> h_less ops h j i then (h, i)
        else heap_down_loop ops (h_swap ops i j h) j n)"
  by auto
termination
  by (relation "measure (\<lambda>(ops, h, i, n). n - i)") (auto simp: Let_def split: if_splits)

declare heap_down_loop.simps [simp del]

definition heap_down :: "('x, 'h) heap_ops \<Rightarrow> 'h \<Rightarrow> nat \<Rightarrow> nat \<Rightarrow> bool \<times> 'h" where
  "heap_down ops h i0 n = (case heap_down_loop ops h i0 n of (h', i) \<Rightarrow> (i > i0, h'))"

definition heap_init :: "('x, 'h) heap_ops \<Rightarrow> 'h \<Rightarrow> 'h" where
  "heap_init ops h =
     (let n = h_len ops h in
      fold (\<lambda>i h. snd (heap_down ops h i n)) (rev [0..<n div 2]) h)"

definition heap_push :: "('x, 'h) heap_ops \<Rightarrow> 'x \<Rightarrow> 'h \<Rightarrow> 'h" where
  "heap_push ops item h =
     (let h = h_push ops item h in heap_up ops h (h_len ops h - 1))"

text \<open>
  \<open>pop\<close> and \<open>remove\<close> are for heaps that are not empty, as in Go: on an empty one the code swaps with
  the index -1, which the model's \<open>nat\<close> positions do not have.
\<close>

definition heap_pop :: "('x, 'h) heap_ops \<Rightarrow> 'h \<Rightarrow> string + 'x \<times> 'h" where
  "heap_pop ops h =
     (let n = h_len ops h - 1; h = h_swap ops 0 n h in
      h_pop ops (snd (heap_down ops h 0 n)))"

definition heap_remove :: "('x, 'h) heap_ops \<Rightarrow> 'h \<Rightarrow> nat \<Rightarrow> string + 'x \<times> 'h" where
  "heap_remove ops h i =
     (let n = h_len ops h - 1 in
      if n \<noteq> i then
        (case heap_down ops (h_swap ops i n h) i n of
           (True, h') \<Rightarrow> h_pop ops h'
         | (False, h') \<Rightarrow> h_pop ops (heap_up ops h' i))
      else h_pop ops h)"

definition heap_fix :: "('x, 'h) heap_ops \<Rightarrow> 'h \<Rightarrow> nat \<Rightarrow> 'h" where
  "heap_fix ops h i =
     (case heap_down ops h i (h_len ops h) of (True, h') \<Rightarrow> h' | (False, h') \<Rightarrow> heap_up ops h' i)"

section \<open>Heap order on arrays of priorities\<close>

definition swap_at :: "nat \<Rightarrow> nat \<Rightarrow> 'a list \<Rightarrow> 'a list" where
  "swap_at i j xs = xs[i := xs ! j, j := xs ! i]"

text \<open>The first \<open>n\<close> positions are a heap, except that position \<open>i\<close> may be less than its parent.\<close>

definition heap_but_up :: "nat \<Rightarrow> nat \<Rightarrow> ('k :: linorder) list \<Rightarrow> bool" where
  "heap_but_up n i ks \<longleftrightarrow>
     (\<forall>k. 0 < k \<and> k < n \<longrightarrow> (k \<noteq> i \<longrightarrow> ks ! parent k \<le> ks ! k) \<and>
        (parent k = i \<and> 0 < i \<longrightarrow> ks ! parent i \<le> ks ! k))"

text \<open>The first \<open>n\<close> positions are a heap, except that position \<open>i\<close> may exceed its children.\<close>

definition heap_but_down :: "nat \<Rightarrow> nat \<Rightarrow> ('k :: linorder) list \<Rightarrow> bool" where
  "heap_but_down n i ks \<longleftrightarrow>
     (\<forall>k. 0 < k \<and> k < n \<longrightarrow> (parent k \<noteq> i \<longrightarrow> ks ! parent k \<le> ks ! k) \<and>
        (parent k = i \<and> 0 < i \<longrightarrow> ks ! parent i \<le> ks ! k))"

definition is_heap :: "('k :: linorder) list \<Rightarrow> bool" where
  "is_heap ks \<longleftrightarrow> (\<forall>k. 0 < k \<and> k < length ks \<longrightarrow> ks ! parent k \<le> ks ! k)"

lemma swap_at_simps [simp]:
  "length (swap_at i j xs) = length xs"
  "map f (swap_at i j xs) = (if i < length xs \<and> j < length xs then swap_at i j (map f xs) else map f (swap_at i j xs))"
  by (auto simp: swap_at_def map_update)

lemma nth_swap_at:
  "i < length xs \<Longrightarrow> j < length xs \<Longrightarrow> k < length xs \<Longrightarrow>
    swap_at i j xs ! k = (if k = j then xs ! i else if k = i then xs ! j else xs ! k)"
  by (auto simp: swap_at_def nth_list_update)

lemma mset_swap_at: "i < length xs \<Longrightarrow> j < length xs \<Longrightarrow> mset (swap_at i j xs) = mset xs"
  by (simp add: swap_at_def mset_swap)

lemma is_heap_least: "is_heap ks \<Longrightarrow> k < length ks \<Longrightarrow> ks ! 0 \<le> ks ! k"
proof (induction k rule: less_induct)
  case (less k)
  show ?case
  proof (cases "k = 0")
    case False
    then have "parent k < k" by simp
    with less have "ks ! 0 \<le> ks ! parent k" by auto
    also have "\<dots> \<le> ks ! k" using less.prems False by (simp add: is_heap_def)
    finally show ?thesis .
  qed simp
qed

text \<open>One step of \<open>up\<close> and of \<open>down\<close>.\<close>

lemma heap_but_up_step:
  assumes h: "heap_but_up n j ks" and n: "n \<le> length ks" and j: "j < n" "0 < j" and l: "ks ! j < ks ! parent j"
  shows "heap_but_up n (parent j) (swap_at (parent j) j ks)"
proof -
  let ?p = "parent j" and ?ks = "swap_at (parent j) j ks"
  have p: "?p < j" using j by simp
  have v: "?ks ! k = (if k = j then ks ! ?p else if k = ?p then ks ! j else ks ! k)" if "k < n" for k
    using that n j p by (intro nth_swap_at) auto
  have le: "ks ! parent k \<le> ks ! k" if "0 < k" "k < n" "k \<noteq> j" for k
    using h that by (simp add: heap_but_up_def)
  have ch: "ks ! ?p \<le> ks ! k" if "0 < k" "k < n" "parent k = j" for k
    using h that j by (simp add: heap_but_up_def)
  have up: "?ks ! parent k \<le> ?ks ! k" if k: "0 < k" "k < n" and kp: "k \<noteq> ?p" for k
  proof -
    have pk: "parent k < k" "parent k < n" using k by (meson parent_less less_trans)+
    have vk: "?ks ! k = (if k = j then ks ! ?p else ks ! k)" using v [of k] k kp by simp
    consider "k = j" | "k \<noteq> j" "parent k = j" | "k \<noteq> j" "parent k = ?p" | "k \<noteq> j" "parent k \<noteq> j" "parent k \<noteq> ?p"
      by blast
    then show ?thesis
    proof cases
      case 1
      with l v [of ?p] vk p j show ?thesis by auto
    next
      case 2
      with ch [of k] k v [of j] vk j show ?thesis by simp
    next
      case 3
      with le [of k] k l v [of ?p] vk p j show ?thesis by auto
    next
      case 4
      with le [of k] k v [of "parent k"] pk vk show ?thesis by simp
    qed
  qed
  have gp: "?ks ! parent ?p \<le> ?ks ! k" if k: "0 < k" "k < n" and c: "parent k = ?p" "0 < ?p" for k
  proof -
    have pp: "parent ?p < ?p" using c by simp
    have a: "ks ! parent ?p \<le> ks ! ?p" using le [of ?p] c p j by simp
    have w: "?ks ! parent ?p = ks ! parent ?p" using v [of "parent ?p"] pp p j by simp
    have kp: "k \<noteq> ?p" using c(1) pp by (metis less_irrefl)
    show ?thesis
    proof (cases "k = j")
      case True
      with a w v [of k] k show ?thesis by simp
    next
      case False
      with le [of k] k c a w v [of k] kp show ?thesis by auto
    qed
  qed
  from up gp show ?thesis unfolding heap_but_up_def by simp
qed

lemma heap_but_down_step:
  assumes h: "heap_but_down n i ks" and n: "n \<le> length ks" and j: "0 < j" "j < n" "parent j = i"
    and l: "ks ! j < ks ! i" and least: "\<And>k. 0 < k \<Longrightarrow> k < n \<Longrightarrow> parent k = i \<Longrightarrow> ks ! j \<le> ks ! k"
  shows "heap_but_down n j (swap_at i j ks)"
proof -
  let ?ks = "swap_at i j ks"
  have i: "i < j" using j parent_less [of j] by simp
  have v: "?ks ! k = (if k = j then ks ! i else if k = i then ks ! j else ks ! k)" if "k < n" for k
    using that n j i by (intro nth_swap_at) auto
  have le: "ks ! parent k \<le> ks ! k" if "0 < k" "k < n" "parent k \<noteq> i" for k
    using h that by (simp add: heap_but_down_def)
  have ch: "ks ! parent i \<le> ks ! k" if "0 < k" "k < n" "parent k = i" "0 < i" for k
    using h that by (simp add: heap_but_down_def)
  have down: "?ks ! parent k \<le> ?ks ! k" if k: "0 < k" "k < n" and kp: "parent k \<noteq> j" for k
  proof -
    have pk: "parent k < k" "parent k < n" using k by (meson parent_less less_trans)+
    consider "parent k = i" | "k = i" | "parent k \<noteq> i" "k \<noteq> i" by blast
    then show ?thesis
    proof cases
      case 1
      with least [of k] k l v [of i] v [of k] pk i j show ?thesis by auto
    next
      case 2
      with ch [of j] k j i v [of "parent i"] v [of i] pk show ?thesis by simp
    next
      case 3
      with le [of k] k kp v [of k] v [of "parent k"] pk j show ?thesis by auto
    qed
  qed
  have gp: "?ks ! parent j \<le> ?ks ! k" if k: "0 < k" "k < n" and c: "parent k = j" for k
  proof -
    have "j < k" using k c parent_less [of k] by simp
    with le [of k] k c v [of k] v [of i] i j show ?thesis by auto
  qed
  from down gp show ?thesis unfolding heap_but_down_def by simp
qed

lemma heap_but_up_done:
  "heap_but_up n j ks \<Longrightarrow> j = 0 \<or> \<not> ks ! j < ks ! parent j \<Longrightarrow> 0 < k \<Longrightarrow> k < n \<Longrightarrow> ks ! parent k \<le> ks ! k"
  by (cases "k = j") (auto simp: heap_but_up_def)

lemma heap_but_down_done:
  "heap_but_down n i ks \<Longrightarrow> (\<And>k. 0 < k \<Longrightarrow> k < n \<Longrightarrow> parent k = i \<Longrightarrow> ks ! i \<le> ks ! k) \<Longrightarrow>
    0 < k \<Longrightarrow> k < n \<Longrightarrow> ks ! parent k \<le> ks ! k"
  by (cases "parent k = i") (auto simp: heap_but_down_def)

section \<open>The contract and the operations\<close>

text \<open>
  The array of a heap with the priority of each entry. An entry may be pushed when the interface
  says so, and then gets the priority the interface gives it.
\<close>

locale heap_contract =
  fixes ops :: "('x, 'h) heap_ops" and arr :: "'h \<Rightarrow> ('k :: linorder \<times> 'x) list" and ok :: "'h \<Rightarrow> bool"
    and can_push :: "'x \<Rightarrow> 'k \<Rightarrow> 'h \<Rightarrow> bool"
  assumes len: "ok h \<Longrightarrow> h_len ops h = length (arr h)"
    and less: "ok h \<Longrightarrow> i < length (arr h) \<Longrightarrow> j < length (arr h) \<Longrightarrow>
      h_less ops h i j \<longleftrightarrow> fst (arr h ! i) < fst (arr h ! j)"
    and swap: "ok h \<Longrightarrow> i < length (arr h) \<Longrightarrow> j < length (arr h) \<Longrightarrow>
      ok (h_swap ops i j h) \<and> arr (h_swap ops i j h) = swap_at i j (arr h)"
    and push: "ok h \<Longrightarrow> can_push x k h \<Longrightarrow> ok (h_push ops x h) \<and> arr (h_push ops x h) = arr h @ [(k, x)]"
    and pop: "ok h \<Longrightarrow> arr h \<noteq> [] \<Longrightarrow>
      \<exists>h'. h_pop ops h = Inr (snd (last (arr h)), h') \<and> ok h' \<and> arr h' = butlast (arr h)"
begin

abbreviation keys :: "'h \<Rightarrow> 'k list" where
  "keys h \<equiv> map fst (arr h)"

lemma less_keys:
  "ok h \<Longrightarrow> i < length (arr h) \<Longrightarrow> j < length (arr h) \<Longrightarrow> h_less ops h i j \<longleftrightarrow> keys h ! i < keys h ! j"
  by (simp add: less)

lemma keys_swap:
  "ok h \<Longrightarrow> i < length (arr h) \<Longrightarrow> j < length (arr h) \<Longrightarrow> keys (h_swap ops i j h) = swap_at i j (keys h)"
  using swap [of h i j] by (simp add: swap_at_def map_update)

text \<open>\<open>h'\<close> has the entries of \<open>h\<close>, its first \<open>n\<close> positions are a heap and the others are unchanged.\<close>

definition repaired :: "nat \<Rightarrow> 'h \<Rightarrow> 'h \<Rightarrow> bool" where
  "repaired n h h' \<longleftrightarrow> ok h' \<and> mset (arr h') = mset (arr h) \<and> drop n (arr h') = drop n (arr h) \<and>
     (\<forall>k. 0 < k \<and> k < n \<longrightarrow> keys h' ! parent k \<le> keys h' ! k)"

lemma repaired_swap:
  assumes "repaired n (h_swap ops i j h) h'" and "ok h" and "i < n" "j < n" "n \<le> length (arr h)"
  shows "repaired n h h'"
  using assms swap [of h i j]
  by (simp add: repaired_def mset_swap_at) (simp add: swap_at_def drop_update_cancel)

lemma up_spec:
  assumes "ok h" and "n \<le> length (arr h)" and "j < n" and "heap_but_up n j (keys h)"
  shows "repaired n h (heap_up ops h j)"
  using assms
proof (induction j arbitrary: h rule: less_induct)
  case (less j)
  have ls: "h_less ops h j (parent j) \<longleftrightarrow> keys h ! j < keys h ! parent j"
    using less.prems by (intro less_keys) (auto intro: le_less_trans [OF parent_le])
  show ?case
  proof (cases "j = 0 \<or> \<not> keys h ! j < keys h ! parent j")
    case True
    then have "heap_up ops h j = h" using ls by (subst heap_up.simps) (auto simp: Let_def parent_def)
    with heap_but_up_done [OF less.prems(4) True] less.prems show ?thesis by (simp add: repaired_def)
  next
    case False
    let ?h = "h_swap ops (parent j) j h"
    have p: "parent j < j" using False by simp
    have sw: "ok ?h" "arr ?h = swap_at (parent j) j (arr h)" using swap [of h "parent j" j] less.prems p by auto
    have u: "heap_up ops h j = heap_up ops ?h (parent j)"
      using False ls p by (subst heap_up.simps) (simp add: Let_def)
    have "heap_but_up n (parent j) (keys ?h)"
      using heap_but_up_step [OF less.prems(4) _ less.prems(3)] False keys_swap [of h "parent j" j] less.prems p
      by simp
    from less.IH [OF p sw(1) _ _ this] sw p less.prems(2,3) have "repaired n ?h (heap_up ops ?h (parent j))"
      by simp
    from repaired_swap [OF this less.prems(1)] p less.prems(2,3) show ?thesis unfolding u by simp
  qed
qed

lemma down_loop_spec:
  assumes "ok h" and "n \<le> length (arr h)" and "i < n \<or> n = 0" and "heap_but_down n i (keys h)"
    and "heap_down_loop ops h i n = (h', i')"
  shows "repaired n h h' \<and> i \<le> i' \<and> (i' = i \<longrightarrow> h' = h)"
  using assms
proof (induction "n - i" arbitrary: h i rule: less_induct)
  case less
  let ?j1 = "2 * i + 1" and ?j2 = "2 * i + 2" and ?ks = "keys h"
  have ls: "h_less ops h a b \<longleftrightarrow> ?ks ! a < ?ks ! b" if "a < n" "b < n" for a b
    using that less.prems by (intro less_keys) auto
  show ?case
  proof (cases "?j1 \<ge> n")
    case True
    then have "h' = h" "i' = i" using less.prems(5) by (auto simp: heap_down_loop.simps [of ops h i n])
    moreover have "?ks ! i \<le> ?ks ! k" if "0 < k" "k < n" "parent k = i" for k
      using that True parent_child [of k i] by auto
    ultimately show ?thesis using heap_but_down_done [OF less.prems(4)] less.prems(1) by (auto simp: repaired_def)
  next
    case False
    define j where "j = (if ?j2 < n \<and> h_less ops h ?j2 ?j1 then ?j2 else ?j1)"
    have jn: "j < n" "0 < j" "parent j = i" "i < j" using False by (auto simp: j_def parent_def)
    have "i < n" using False by auto
    have least: "?ks ! j \<le> ?ks ! k" if "0 < k" "k < n" "parent k = i" for k
      using that parent_child [of k i] False ls [of ?j2 ?j1] by (auto simp: j_def)
    have e: "heap_down_loop ops h i n =
        (if \<not> h_less ops h j i then (h, i) else heap_down_loop ops (h_swap ops i j h) j n)"
      using False by (subst heap_down_loop.simps) (simp add: Let_def j_def)
    show ?thesis
    proof (cases "h_less ops h j i")
      case False
      with e less.prems(5) have "h' = h" "i' = i" by auto
      moreover have "?ks ! i \<le> ?ks ! k" if "0 < k" "k < n" "parent k = i" for k
        using least [OF that] False ls jn \<open>i < n\<close> by force
      ultimately show ?thesis using heap_but_down_done [OF less.prems(4)] less.prems(1) by (auto simp: repaired_def)
    next
      case True
      let ?h = "h_swap ops i j h"
      have l: "?ks ! j < ?ks ! i" using True ls jn \<open>i < n\<close> by simp
      have sw: "ok ?h" "arr ?h = swap_at i j (arr h)"
        using swap [of h i j] less.prems jn \<open>i < n\<close> by auto
      have "keys ?h = swap_at i j ?ks" using less.prems(1,2) jn \<open>i < n\<close> by (intro keys_swap) auto
      moreover have "heap_but_down n j (swap_at i j ?ks)"
        using less.prems(2) by (intro heap_but_down_step [OF less.prems(4) _ jn(2,1,3) l least]) auto
      ultimately have "heap_but_down n j (keys ?h)" by simp
      moreover have "heap_down_loop ops ?h j n = (h', i')" using e True less.prems(5) by simp
      ultimately have r: "repaired n ?h h' \<and> j \<le> i' \<and> (i' = j \<longrightarrow> h' = ?h)"
        using less.hyps [of j ?h] jn \<open>i < n\<close> sw less.prems(2) by (simp add: diff_less_mono2)
      with repaired_swap [of n i j h h'] less.prems(1,2) jn \<open>i < n\<close> have "repaired n h h'" by blast
      with r jn(4) show ?thesis by auto
    qed
  qed
qed

lemma down_stays:
  assumes "ok h" and "n \<le> length (arr h)" and "i < n"
    and "\<And>k. 0 < k \<Longrightarrow> k < n \<Longrightarrow> parent k = i \<Longrightarrow> keys h ! i \<le> keys h ! k"
  shows "heap_down_loop ops h i n = (h, i)"
proof (cases "2 * i + 1 \<ge> n")
  case False
  have ls: "h_less ops h a b \<longleftrightarrow> keys h ! a < keys h ! b" if "a < n" "b < n" for a b
    using that assms(1,2) by (intro less_keys) auto
  have "\<not> keys h ! k < keys h ! i" if "k < n" "k = 2 * i + 1 \<or> k = 2 * i + 2" for k
    using assms(4) [of k] that parent_child [of k i] by auto
  with False ls assms(3) show ?thesis by (auto simp: heap_down_loop.simps [of ops h i n] Let_def)
qed (simp add: heap_down_loop.simps)

text \<open>
  \<open>down\<close> and, when it does not move, \<open>up\<close> repair the first \<open>n\<close> positions around a position whose
  priority has changed.
\<close>

definition heap_but :: "nat \<Rightarrow> nat \<Rightarrow> 'k list \<Rightarrow> bool" where
  "heap_but n i ks \<longleftrightarrow>
     (\<forall>k. 0 < k \<and> k < n \<longrightarrow> (parent k \<noteq> i \<and> k \<noteq> i \<longrightarrow> ks ! parent k \<le> ks ! k) \<and>
        (parent k = i \<and> 0 < i \<longrightarrow> ks ! parent i \<le> ks ! k))"

lemma heap_but_update:
  assumes "is_heap ks" and "i < length ks"
  shows "heap_but (length ks) i (ks[i := t])"
  unfolding heap_but_def
proof (intro allI impI conjI)
  fix k
  assume k: "0 < k \<and> k < length ks"
  have le: "ks ! parent l \<le> ks ! l" if "0 < l" "l < length ks" for l
    using assms(1) that by (simp add: is_heap_def)
  show "ks[i := t] ! parent k \<le> ks[i := t] ! k" if "parent k \<noteq> i \<and> k \<noteq> i"
    using that le k by simp
  show "ks[i := t] ! parent i \<le> ks[i := t] ! k" if c: "parent k = i \<and> 0 < i"
  proof -
    have "parent i < i" using c by (intro parent_less) simp
    moreover have "i < k" using c k parent_less [of k] by metis
    ultimately have "k \<noteq> i" "parent i \<noteq> i" by simp_all
    moreover have "ks ! parent i \<le> ks ! k" using le [of i] le [of k] c k assms(2) by (auto intro: order_trans)
    ultimately show ?thesis by simp
  qed
qed

lemma down_up_spec:
  assumes "ok h" and "n \<le> length (arr h)" and "i < n" and b: "heap_but n i (keys h)"
  shows "repaired n h (case heap_down ops h i n of (True, h') \<Rightarrow> h' | (False, h') \<Rightarrow> heap_up ops h' i)"
proof (cases "0 < i \<and> keys h ! i < keys h ! parent i")
  case True
  have "heap_down_loop ops h i n = (h, i)"
  proof (rule down_stays [OF assms(1-3)])
    fix k
    assume "0 < k" "k < n" "parent k = i"
    with b True have "keys h ! parent i \<le> keys h ! k" by (simp add: heap_but_def)
    with True show "keys h ! i \<le> keys h ! k" by (meson less_imp_le less_le_trans)
  qed
  moreover have "heap_but_up n i (keys h)" unfolding heap_but_up_def
  proof (intro allI impI conjI)
    fix k
    assume k: "0 < k \<and> k < n"
    show "keys h ! parent k \<le> keys h ! k" if "k \<noteq> i"
    proof (cases "parent k = i")
      case True
      with b k \<open>0 < i \<and> _\<close> have "keys h ! parent i \<le> keys h ! k" by (simp add: heap_but_def)
      with \<open>0 < i \<and> _\<close> have "keys h ! i \<le> keys h ! k" by (meson less_imp_le order_trans)
      with True show ?thesis by simp
    next
      case False
      with b k that show ?thesis by (simp add: heap_but_def)
    qed
    show "keys h ! parent i \<le> keys h ! k" if "parent k = i \<and> 0 < i"
      using b k that by (simp add: heap_but_def)
  qed
  ultimately show ?thesis using up_spec [OF assms(1-3)] by (simp add: heap_down_def)
next
  case False
  have d: "heap_but_down n i (keys h)" unfolding heap_but_down_def
  proof (intro allI impI conjI)
    fix k
    assume k: "0 < k \<and> k < n"
    show "keys h ! parent k \<le> keys h ! k" if "parent k \<noteq> i"
      using b k that False by (cases "k = i") (auto simp: heap_but_def)
    show "keys h ! parent i \<le> keys h ! k" if "parent k = i \<and> 0 < i"
      using b k that by (simp add: heap_but_def)
  qed
  obtain h' i' where l: "heap_down_loop ops h i n = (h', i')" by fastforce
  note r = down_loop_spec [OF assms(1,2) disjI1 [OF assms(3)] d l]
  show ?thesis
  proof (cases "i' = i")
    case True
    with r have hp: "h' = h" "repaired n h h" by auto
    then have "heap_but_up n i (keys h)" unfolding heap_but_up_def
    proof (intro allI impI conjI)
      fix k
      assume k: "0 < k \<and> k < n"
      with hp show "keys h ! parent k \<le> keys h ! k" by (simp add: repaired_def)
      show "keys h ! parent i \<le> keys h ! k" if "parent k = i \<and> 0 < i"
        using b k that by (simp add: heap_but_def)
    qed
    with up_spec [OF assms(1-3)] True hp l show ?thesis by (simp add: heap_down_def)
  next
    case False
    with r l show ?thesis by (auto simp: heap_down_def)
  qed
qed

text \<open>The operations on a heap.\<close>

lemma repaired_heap: "repaired (length (arr h)) h h' \<Longrightarrow> ok h' \<and> mset (arr h') = mset (arr h) \<and> is_heap (keys h')"
  by (metis is_heap_def length_map repaired_def size_mset)

lemma heap_push_spec:
  assumes "ok h" and "is_heap (keys h)" and "can_push x k h"
  shows "ok (heap_push ops x h) \<and> is_heap (keys (heap_push ops x h)) \<and>
    mset (arr (heap_push ops x h)) = add_mset (k, x) (mset (arr h))"
proof -
  let ?h = "h_push ops x h" and ?n = "length (arr h)"
  have p: "ok ?h" "arr ?h = arr h @ [(k, x)]" using push [OF assms(1,3)] by auto
  have "heap_but_up (Suc ?n) ?n (keys ?h)" unfolding heap_but_up_def
  proof (intro allI impI conjI)
    fix j
    assume j: "0 < j \<and> j < Suc ?n"
    then have pj: "parent j < ?n" using parent_less [of j] by linarith
    show "keys ?h ! parent j \<le> keys ?h ! j" if "j \<noteq> ?n"
      using that j p(2) pj assms(2) by (auto simp: nth_append is_heap_def)
    show "keys ?h ! parent ?n \<le> keys ?h ! j" if "parent j = ?n \<and> 0 < ?n" using that pj by simp
  qed
  from up_spec [OF p(1) _ _ this] p(2) have "repaired (length (arr ?h)) ?h (heap_up ops ?h ?n)" by simp
  from repaired_heap [OF this] show ?thesis using p by (simp add: heap_push_def Let_def len)
qed

lemma repaired_pop:
  assumes h': "repaired n h1 h'" and h1: "arr h1 = swap_at i n (arr h)" and n: "length (arr h) = Suc n" and "i \<le> n"
  shows "\<exists>h''. h_pop ops h' = Inr (snd (arr h ! i), h'') \<and> ok h'' \<and> is_heap (keys h'') \<and>
    mset (arr h) = add_mset (arr h ! i) (mset (arr h''))"
proof -
  have l: "length (arr h') = Suc n" using h' h1 n by (metis repaired_def size_mset swap_at_simps(1))
  have "drop n (arr h') = [arr h ! i]"
    using h' h1 n assms(4) by (simp add: repaired_def Cons_nth_drop_Suc [symmetric] nth_swap_at)
  then have a: "arr h' = take n (arr h') @ [arr h ! i]" by (metis append_take_drop_id)
  with pop [of h'] h' obtain h'' where h'': "h_pop ops h' = Inr (snd (arr h ! i), h'')" "ok h''"
      "arr h'' = take n (arr h')"
    by (metis (no_types, lifting) append_is_Nil_conv butlast_snoc last_snoc not_Cons_self2 repaired_def)
  have "is_heap (keys h'')" unfolding is_heap_def
  proof (intro allI impI)
    fix k
    assume k: "0 < k \<and> k < length (keys h'')"
    then have kn: "k < n" using h''(3) l by simp
    then have "parent k < n" using k by (meson parent_less less_trans)
    moreover from h' k kn have "keys h' ! parent k \<le> keys h' ! k" unfolding repaired_def by blast
    ultimately show "keys h'' ! parent k \<le> keys h'' ! k" using h''(3) l kn by simp
  qed
  moreover have "mset (arr h) = mset (arr h')"
    using h' h1 n assms(4) by (simp add: repaired_def mset_swap_at)
  moreover have "mset (arr h') = add_mset (arr h ! i) (mset (arr h''))"
    by (subst a) (simp add: h''(3))
  ultimately show ?thesis using h'' by auto
qed

lemma heap_pop_spec:
  assumes "ok h" and "is_heap (keys h)" and "arr h \<noteq> []"
  shows "\<exists>h'. heap_pop ops h = Inr (snd (arr h ! 0), h') \<and> ok h' \<and> is_heap (keys h') \<and>
    mset (arr h) = add_mset (arr h ! 0) (mset (arr h')) \<and> (\<forall>e \<in> set (arr h). fst (arr h ! 0) \<le> fst e)"
proof -
  obtain n where n: "length (arr h) = Suc n" using assms(3) by (cases "arr h") auto
  let ?h = "h_swap ops 0 n h"
  have sw: "ok ?h" "arr ?h = swap_at 0 n (arr h)" using swap [of h 0 n] assms(1) n by auto
  have v: "keys ?h ! k = (if k = 0 then keys h ! n else keys h ! k)" if "k < n" for k
    using that n keys_swap [of h 0 n] assms(1) by (auto simp: nth_swap_at)
  have b: "heap_but_down n 0 (keys ?h)" unfolding heap_but_down_def
  proof (intro allI impI conjI)
    fix k
    assume k: "0 < k \<and> k < n"
    then have "parent k < n" by (meson parent_less less_trans)
    moreover have "keys h ! parent k \<le> keys h ! k"
      using assms(2) k n by (simp only: is_heap_def length_map less_Suc_eq simp_thms)
    ultimately show "keys ?h ! parent k \<le> keys ?h ! k" if "parent k \<noteq> 0"
      using v [of k] v [of "parent k"] k that by (simp only: simp_thms if_False) simp
  qed simp
  obtain h' i' where l: "heap_down_loop ops ?h 0 n = (h', i')" by fastforce
  have "repaired n ?h h'" using down_loop_spec [OF sw(1) _ _ b l] sw(2) n by auto
  from repaired_pop [OF this sw(2) n] obtain h'' where
    "h_pop ops h' = Inr (snd (arr h ! 0), h'')" "ok h''" "is_heap (keys h'')"
    "mset (arr h) = add_mset (arr h ! 0) (mset (arr h''))" by auto
  moreover have "\<forall>e \<in> set (arr h). fst (arr h ! 0) \<le> fst e"
  proof
    fix e
    assume "e \<in> set (arr h)"
    then obtain i where "i < length (arr h)" "e = arr h ! i" by (auto simp: in_set_conv_nth)
    with is_heap_least [OF assms(2), of i] n show "fst (arr h ! 0) \<le> fst e" by simp
  qed
  moreover have "heap_pop ops h = h_pop ops h'" using l n len [OF assms(1)] by (simp add: heap_pop_def heap_down_def Let_def)
  ultimately show ?thesis by auto
qed

lemma heap_fix_spec:
  assumes "ok h" and "i < length (arr h)" and "heap_but (length (arr h)) i (keys h)"
  shows "ok (heap_fix ops h i) \<and> is_heap (keys (heap_fix ops h i)) \<and> mset (arr (heap_fix ops h i)) = mset (arr h)"
  using repaired_heap [OF down_up_spec [OF assms(1) order_refl assms(2,3)]] len [OF assms(1)]
  by (simp add: heap_fix_def)

lemma heap_remove_spec:
  assumes "ok h" and "is_heap (keys h)" and i: "i < length (arr h)"
  shows "\<exists>h'. heap_remove ops h i = Inr (snd (arr h ! i), h') \<and> ok h' \<and> is_heap (keys h') \<and>
    mset (arr h) = add_mset (arr h ! i) (mset (arr h'))"
proof -
  obtain n where n: "length (arr h) = Suc n" using i by (cases "arr h") auto
  have ln: "h_len ops h - 1 = n" using len [OF assms(1)] n by simp
  show ?thesis
  proof (cases "i = n")
    case True
    have "swap_at n n (arr h) = arr h" by (simp add: swap_at_def)
    moreover have "repaired n h h" using assms(1,2) n by (simp add: repaired_def is_heap_def)
    ultimately show ?thesis using repaired_pop [of n h h n h] True n ln by (simp add: heap_remove_def Let_def)
  next
    case False
    let ?h = "h_swap ops i n h" and ?c = "\<lambda>r. case r of (True, h') \<Rightarrow> h' | (False, h') \<Rightarrow> heap_up ops h' i"
    have sw: "ok ?h" "arr ?h = swap_at i n (arr h)" using swap [of h i n] assms(1) n i by auto
    have v: "keys ?h ! k = (if k = i then keys h ! n else keys h ! k)" if "k < n" for k
      using that n i False keys_swap [of h i n] assms(1) by (auto simp: nth_swap_at)
    have le: "keys h ! parent k \<le> keys h ! k" if "0 < k" "k < n" for k
      using that assms(2) n by (simp add: is_heap_def)
    have "heap_but n i (keys ?h)" unfolding heap_but_def
    proof (intro allI impI conjI)
      fix k
      assume k: "0 < k \<and> k < n"
      then have pk: "parent k < n" by (meson parent_less less_trans)
      show "keys ?h ! parent k \<le> keys ?h ! k" if "parent k \<noteq> i \<and> k \<noteq> i" using le v pk k that by simp
      show "keys ?h ! parent i \<le> keys ?h ! k" if c: "parent k = i \<and> 0 < i"
      proof -
        have "parent i < i" "i < n" using c pk by auto
        moreover have "keys h ! parent i \<le> keys h ! k" using le [of i] le [of k] c k pk by (auto intro: order_trans)
        moreover have "k \<noteq> i" using c k parent_less [of k] by auto
        ultimately show ?thesis using v [of "parent i"] v [of k] k by simp
      qed
    qed
    then have rp: "repaired n ?h (?c (heap_down ops ?h i n))"
      using down_up_spec [OF sw(1)] sw(2) n i False by simp
    have "heap_remove ops h i = h_pop ops (?c (heap_down ops ?h i n))"
      using False ln by (auto simp: heap_remove_def Let_def split: prod.splits bool.splits)
    with repaired_pop [OF rp sw(2) n] i n show ?thesis by simp
  qed
qed

end

text \<open>Operations that only move entries keep whatever a swap keeps.\<close>

lemma heap_up_keeps:
  assumes "\<And>i j h. view (h_swap ops i j h) = view h"
  shows "view (heap_up ops h j) = view h"
proof (induction j arbitrary: h rule: less_induct)
  case (less j)
  show ?case
  proof (cases "j = 0")
    case False
    with less [of "parent j" "h_swap ops (parent j) j h"] assms show ?thesis
      by (subst heap_up.simps) (simp add: Let_def)
  qed (subst heap_up.simps, simp add: Let_def parent_def)
qed

lemma heap_down_loop_keeps:
  assumes sw: "\<And>i j h. view (h_swap ops i j h) = view h"
  shows "heap_down_loop ops h i n = (h', i') \<Longrightarrow> view h' = view h"
proof (induction "n - i" arbitrary: h i rule: less_induct)
  case less
  define j where "j = (if 2 * i + 2 < n \<and> h_less ops h (2 * i + 2) (2 * i + 1) then 2 * i + 2 else 2 * i + 1)"
  have e: "heap_down_loop ops h i n = (if 2 * i + 1 \<ge> n \<or> \<not> h_less ops h j i then (h, i)
      else heap_down_loop ops (h_swap ops i j h) j n)"
    by (subst heap_down_loop.simps) (simp add: Let_def j_def)
  show ?case
  proof (cases "2 * i + 1 \<ge> n \<or> \<not> h_less ops h j i")
    case False
    have "i < j" by (simp add: j_def)
    with False have "n - j < n - i" by (auto intro: diff_less_mono2)
    with less.hyps [of j "h_swap ops i j h"] less.prems e False show ?thesis by (simp add: sw)
  qed (use e less.prems in auto)
qed

lemma heap_down_keeps:
  assumes "\<And>i j h. view (h_swap ops i j h) = view h"
  shows "view (snd (heap_down ops h i n)) = view h"
  using heap_down_loop_keeps [of view ops h i n, OF assms]
  by (cases "heap_down_loop ops h i n") (simp add: heap_down_def)

locale heap_frame = heap_contract +
  fixes view :: "'b \<Rightarrow> 'v"
  assumes view_swap: "view (h_swap ops i j h) = view h"
    and view_push: "view (h_push ops x h) = view h"
    and view_pop: "h_pop ops h = Inr (x, h') \<Longrightarrow> view h' = view h"
begin

lemma view_heap_push: "view (heap_push ops x h) = view h"
  by (simp add: heap_push_def Let_def heap_up_keeps [of view, OF view_swap] view_push)

lemma view_heap_pop: "heap_pop ops h = Inr (x, h') \<Longrightarrow> view h' = view h"
  by (auto simp: heap_pop_def Let_def heap_down_keeps [of view, OF view_swap] view_swap dest!: view_pop)

lemma view_heap_fix: "view (heap_fix ops h i) = view h"
  using heap_down_keeps [of view ops h i "h_len ops h", OF view_swap]
  by (auto simp: heap_fix_def heap_up_keeps [of view, OF view_swap] split: prod.splits bool.splits)

end

end
