(* ===== verification/DelayingQueue.thy ===== *)
theory DelayingQueue
  imports Workqueue Heap
begin

text \<open>
  \<open>src/client-go/util/workqueue/delaying-queue.ts\<close>: items added after a delay. The entries are shared
  by the heap and by the map of known entries, so they live in an explicit store and are numbered;
  \<open>insert\<close> changes the due time of an entry through the map and repairs the heap at the position the
  entry carries. The lemmas show that heap, map and store together are a map from items to due
  times: inserting takes the earlier time and the loop releases exactly what is due, in time order.
\<close>

section \<open>WaitForPriorityQueue\<close>

record 't wait_for =
  wf_data :: 't
  wf_readyAt :: int
  wf_index :: int

record 't wait_heap =
  wh_obj :: "nat \<Rightarrow> 't wait_for"
  wh_entries :: "nat list"

definition ready_at :: "'t wait_heap \<Rightarrow> nat \<Rightarrow> int" where
  "ready_at q r = wf_readyAt (wh_obj q r)"

definition set_index :: "nat \<Rightarrow> int \<Rightarrow> 't wait_heap \<Rightarrow> 't wait_heap" where
  "set_index r i q = q\<lparr>wh_obj := (wh_obj q)(r := wh_obj q r\<lparr>wf_index := i\<rparr>)\<rparr>"

definition wait_less :: "'t wait_heap \<Rightarrow> nat \<Rightarrow> nat \<Rightarrow> bool" where
  "wait_less q i j = (ready_at q (wh_entries q ! i) < ready_at q (wh_entries q ! j))"

definition wait_swap :: "nat \<Rightarrow> nat \<Rightarrow> 't wait_heap \<Rightarrow> 't wait_heap" where
  "wait_swap i j q =
     (let left = wh_entries q ! i; right = wh_entries q ! j;
          q = q\<lparr>wh_entries := (wh_entries q)[i := right, j := left]\<rparr>;
          q = set_index (wh_entries q ! i) (int i) q
      in set_index (wh_entries q ! j) (int j) q)"

definition wait_push :: "nat \<Rightarrow> 't wait_heap \<Rightarrow> 't wait_heap" where
  "wait_push r q =
     (let q = set_index r (int (length (wh_entries q))) q in q\<lparr>wh_entries := wh_entries q @ [r]\<rparr>)"

definition wait_pop :: "'t wait_heap \<Rightarrow> string + nat \<times> 't wait_heap" where
  "wait_pop q =
     (if wh_entries q = [] then Inl ''pop from empty priority queue''
      else let r = last (wh_entries q) in
        Inr (r, set_index r (- 1) (q\<lparr>wh_entries := butlast (wh_entries q)\<rparr>)))"

definition wait_peek :: "'t wait_heap \<Rightarrow> string + nat" where
  "wait_peek q =
     (case wh_entries q of [] \<Rightarrow> Inl ''peek from empty priority queue'' | r # _ \<Rightarrow> Inr r)"

definition wait_ops :: "(nat, 't wait_heap) heap_ops" where
  "wait_ops = \<lparr>h_len = \<lambda>q. length (wh_entries q), h_less = wait_less, h_swap = wait_swap,
     h_push = wait_push, h_pop = wait_pop\<rparr>"

section \<open>insert and the waiting loop\<close>

record 't delaying =
  dl_heap :: "'t wait_heap"
  dl_known :: "('t, nat) jmap"

definition no_entry :: "'t \<Rightarrow> 't wait_for" where
  "no_entry x = \<lparr>wf_data = x, wf_readyAt = 0, wf_index = - 1\<rparr>"

definition new_delaying :: "'t \<Rightarrow> 't delaying" where
  "new_delaying x = \<lparr>dl_heap = \<lparr>wh_obj = \<lambda>_. no_entry x, wh_entries = []\<rparr>, dl_known = []\<rparr>"

text \<open>\<open>insert(queue, knownEntries, entry)\<close> for the entry \<open>e\<close>, allocated as number \<open>r\<close>.\<close>

definition delaying_insert :: "nat \<Rightarrow> 't wait_for \<Rightarrow> 't delaying \<Rightarrow> 't delaying" where
  "delaying_insert r e d =
     (let q = (dl_heap d)\<lparr>wh_obj := (wh_obj (dl_heap d))(r := e)\<rparr> in
      case jm_get (dl_known d) (wf_data e) of
        Some x \<Rightarrow>
          (if ready_at q x > wf_readyAt e then
             let q' = q\<lparr>wh_obj := (wh_obj q)(x := wh_obj q x\<lparr>wf_readyAt := wf_readyAt e\<rparr>)\<rparr> in
             d\<lparr>dl_heap := heap_fix wait_ops q' (nat (wf_index (wh_obj q' x)))\<rparr>
           else d\<lparr>dl_heap := q\<rparr>)
      | None \<Rightarrow>
          d\<lparr>dl_heap := heap_push wait_ops r q, dl_known := jm_set (wf_data e) r (dl_known d)\<rparr>)"

lemma length_wait_swap [simp]: "length (wh_entries (wait_swap i j q)) = length (wh_entries q)"
  by (simp add: wait_swap_def set_index_def Let_def)

lemma wait_pop_shorter: "wait_pop q = Inr (r, q') \<Longrightarrow> length (wh_entries q) = Suc (length (wh_entries q'))"
  by (auto simp: wait_pop_def Let_def set_index_def split: if_splits)

lemma heap_pop_shorter:
  assumes "heap_pop wait_ops q = Inr (r, q')"
  shows "length (wh_entries q') < length (wh_entries q)"
proof -
  let ?l = "\<lambda>q. length (wh_entries q)" and ?n = "length (wh_entries q) - 1"
  let ?d = "snd (heap_down wait_ops (wait_swap 0 ?n q) 0 ?n)"
  have "?l ?d = ?l q"
    using heap_down_keeps [of ?l wait_ops "wait_swap 0 ?n q" 0 ?n] by (simp add: wait_ops_def)
  moreover have "wait_pop ?d = Inr (r, q')" using assms by (simp add: heap_pop_def Let_def wait_ops_def)
  ultimately show ?thesis using wait_pop_shorter [of ?d r q'] by simp
qed

text \<open>The loop that releases what is due: the items it adds to the queue, in order, and the rest.\<close>

function release :: "int \<Rightarrow> 't delaying \<Rightarrow> string + 't list \<times> 't delaying" where
  "release now d =
     (if length (wh_entries (dl_heap d)) = 0 then Inr ([], d)
      else case wait_peek (dl_heap d) of
        Inl err \<Rightarrow> Inl err
      | Inr entry \<Rightarrow>
          (if ready_at (dl_heap d) entry > now then Inr ([], d)
           else case heap_pop wait_ops (dl_heap d) of
             Inl err \<Rightarrow> Inl err
           | Inr (r, q) \<Rightarrow>
               let x = wf_data (wh_obj q r) in
               (case release now \<lparr>dl_heap = q, dl_known = jm_del x (dl_known d)\<rparr> of
                  Inl err \<Rightarrow> Inl err
                | Inr (xs, d') \<Rightarrow> Inr (x # xs, d'))))"
  by pat_completeness auto
termination
  by (relation "measure (\<lambda>(now, d). length (wh_entries (dl_heap d)))") (auto dest: heap_pop_shorter)

declare release.simps [simp del]

section \<open>The heap contract\<close>

definition wait_arr :: "'t wait_heap \<Rightarrow> (int \<times> nat) list" where
  "wait_arr q = map (\<lambda>r. (ready_at q r, r)) (wh_entries q)"

text \<open>Entries are in the heap once, and each knows its position.\<close>

definition wait_ok :: "'t wait_heap \<Rightarrow> bool" where
  "wait_ok q \<longleftrightarrow> distinct (wh_entries q) \<and>
     (\<forall>i < length (wh_entries q). wf_index (wh_obj q (wh_entries q ! i)) = int i)"

text \<open>What an entry holds apart from its position.\<close>

definition wait_view :: "'t wait_heap \<Rightarrow> nat \<Rightarrow> 't \<times> int" where
  "wait_view q = (\<lambda>r. (wf_data (wh_obj q r), wf_readyAt (wh_obj q r)))"

lemma view_set_index [simp]: "wait_view (set_index r i q) = wait_view q"
  by (auto simp: wait_view_def set_index_def)

lemma view_entries [simp]: "wait_view (q\<lparr>wh_entries := es\<rparr>) = wait_view q"
  by (simp add: wait_view_def)

lemma entries_set_index [simp]: "wh_entries (set_index r i q) = wh_entries q"
  by (simp add: set_index_def)

lemma ready_at_view: "ready_at q r = snd (wait_view q r)"
  by (simp add: ready_at_def wait_view_def)

lemma wait_arr_view: "wait_arr q = map (\<lambda>r. (snd (wait_view q r), r)) (wh_entries q)"
  by (simp add: wait_arr_def ready_at_view)

lemma view_wait_swap [simp]: "wait_view (wait_swap i j q) = wait_view q"
  by (simp add: wait_swap_def Let_def)

lemma entries_wait_swap: "wh_entries (wait_swap i j q) = swap_at i j (wh_entries q)"
  by (simp add: wait_swap_def Let_def swap_at_def)

lemma index_set_index:
  "wf_index (wh_obj (set_index r i q) x) = (if x = r then i else wf_index (wh_obj q x))"
  by (simp add: set_index_def)

lemma wait_ok_swap:
  assumes "wait_ok q" and i: "i < length (wh_entries q)" and j: "j < length (wh_entries q)"
  shows "wait_ok (wait_swap i j q)"
proof -
  let ?es = "wh_entries q"
  have d: "distinct ?es" using assms(1) by (simp add: wait_ok_def)
  have es: "wh_entries (wait_swap i j q) = swap_at i j ?es" by (rule entries_wait_swap)
  have "distinct (swap_at i j ?es)" using d mset_swap_at [OF i j] by (metis mset_eq_imp_distinct_iff)
  moreover have "wf_index (wh_obj (wait_swap i j q) (swap_at i j ?es ! k)) = int k" if k: "k < length ?es" for k
  proof -
    have ix: "wf_index (wh_obj (wait_swap i j q) x) =
        (if x = swap_at i j ?es ! j then int j else if x = swap_at i j ?es ! i then int i
         else wf_index (wh_obj q x))" for x
      by (simp add: wait_swap_def Let_def index_set_index swap_at_def)
    have old: "wf_index (wh_obj q (?es ! k)) = int k" using assms(1) k by (simp add: wait_ok_def)
    have eq: "?es ! a = ?es ! b \<longleftrightarrow> a = b" if "a < length ?es" "b < length ?es" for a b
      using d that by (simp add: nth_eq_iff_index_eq)
    have at: "swap_at i j ?es ! i = ?es ! j" "swap_at i j ?es ! j = ?es ! i"
      using i j by (simp_all add: nth_swap_at)
    consider "k = j" | "k = i" "k \<noteq> j" | "k \<noteq> i" "k \<noteq> j" by blast
    then show ?thesis
      by cases (use i j k eq old in \<open>simp_all add: ix at nth_swap_at\<close>)
  qed
  ultimately show ?thesis by (simp add: wait_ok_def es)
qed

interpretation waiting: heap_frame wait_ops wait_arr wait_ok
  "\<lambda>r k q. r \<notin> set (wh_entries q) \<and> k = ready_at q r" wait_view
proof
  fix q :: "'t wait_heap" and i j :: nat and r :: nat and k :: int
  assume ok: "wait_ok q"
  show "h_len wait_ops q = length (wait_arr q)" by (simp add: wait_ops_def wait_arr_def)
  show "h_less wait_ops q i j \<longleftrightarrow> fst (wait_arr q ! i) < fst (wait_arr q ! j)"
    if "i < length (wait_arr q)" "j < length (wait_arr q)"
    using that by (simp add: wait_ops_def wait_arr_def wait_less_def)
  show "wait_ok (h_swap wait_ops i j q) \<and> wait_arr (h_swap wait_ops i j q) = swap_at i j (wait_arr q)"
    if "i < length (wait_arr q)" "j < length (wait_arr q)"
    using that ok by (simp add: wait_ops_def wait_arr_view wait_ok_swap entries_wait_swap)
  show "wait_ok (h_push wait_ops r q) \<and> wait_arr (h_push wait_ops r q) = wait_arr q @ [(k, r)]"
    if "r \<notin> set (wh_entries q) \<and> k = ready_at q r"
    using that ok
    by (auto simp: wait_ops_def wait_push_def Let_def wait_arr_view wait_ok_def index_set_index nth_append
        ready_at_view less_Suc_eq)
  show "\<exists>q'. h_pop wait_ops q = Inr (snd (last (wait_arr q)), q') \<and> wait_ok q' \<and>
      wait_arr q' = butlast (wait_arr q)" if ne: "wait_arr q \<noteq> []"
  proof -
    from ne obtain es x where es: "wh_entries q = es @ [x]"
      by (cases "wh_entries q" rule: rev_cases) (auto simp: wait_arr_def)
    have "wait_ok (set_index x (- 1) (q\<lparr>wh_entries := es\<rparr>))"
      using ok es by (auto simp: wait_ok_def index_set_index nth_append split: if_splits)
    then show ?thesis
      by (auto simp: wait_ops_def wait_pop_def es wait_arr_view Let_def)
  qed
next
  show "wait_view (h_swap wait_ops i j q) = wait_view q" for i j and q :: "'t wait_heap"
    by (simp add: wait_ops_def)
  show "wait_view (h_push wait_ops r q) = wait_view q" for r and q :: "'t wait_heap"
    by (simp add: wait_ops_def wait_push_def Let_def)
  show "h_pop wait_ops q = Inr (r, q') \<Longrightarrow> wait_view q' = wait_view q" for r and q q' :: "'t wait_heap"
    by (auto simp: wait_ops_def wait_pop_def Let_def split: if_splits)
qed

section \<open>A map from items to due times\<close>

definition delaying_ok :: "'t delaying \<Rightarrow> bool" where
  "delaying_ok d \<longleftrightarrow> wait_ok (dl_heap d) \<and> is_heap (map fst (wait_arr (dl_heap d))) \<and>
     jm_ok (dl_known d) \<and> set (wh_entries (dl_heap d)) = snd ` set (dl_known d) \<and>
     (\<forall>(x, r) \<in> set (dl_known d). wf_data (wh_obj (dl_heap d) r) = x)"

definition due :: "'t delaying \<Rightarrow> 't \<Rightarrow> int option" where
  "due d x = map_option (ready_at (dl_heap d)) (jm_get (dl_known d) x)"

lemma delaying_ok_new: "delaying_ok (new_delaying x)"
  by (simp add: delaying_ok_def new_delaying_def wait_ok_def wait_arr_def is_heap_def)

lemma known_entry:
  assumes "delaying_ok d" and "jm_get (dl_known d) x = Some r"
  shows "r \<in> set (wh_entries (dl_heap d))" "wf_data (wh_obj (dl_heap d) r) = x"
  using assms map_of_SomeD [OF assms(2)] by (force simp: delaying_ok_def)+

lemma entry_known:
  assumes "delaying_ok d" and "r \<in> set (wh_entries (dl_heap d))"
  shows "jm_get (dl_known d) (wf_data (wh_obj (dl_heap d) r)) = Some r"
proof -
  from assms obtain x where "(x, r) \<in> set (dl_known d)" by (auto simp: delaying_ok_def)
  moreover from this assms(1) have "wf_data (wh_obj (dl_heap d) r) = x" by (auto simp: delaying_ok_def)
  ultimately show ?thesis using assms(1) by (auto simp: delaying_ok_def)
qed

lemma entries_arr: "set (wh_entries q) = snd ` set (wait_arr q)"
  by (force simp: wait_arr_def)

lemma wait_keys: "map fst (wait_arr q) = map (ready_at q) (wh_entries q)"
  by (simp add: wait_arr_def)

lemma entries_mset: "mset (wh_entries q) = image_mset snd (mset (wait_arr q))"
  by (simp add: wait_arr_def flip: mset_map) (simp add: comp_def)

lemma wait_ok_obj:
  "wait_ok q \<Longrightarrow> (\<And>r. r \<in> set (wh_entries q) \<Longrightarrow> wf_index (f r) = wf_index (wh_obj q r)) \<Longrightarrow>
    wait_ok (q\<lparr>wh_obj := f\<rparr>)"
  by (auto simp: wait_ok_def)

lemma arr_of_view:
  assumes "mset (wait_arr q') = m" and "wait_view q' = wait_view q"
  shows "ready_at q' r = ready_at q r" "wf_data (wh_obj q' r) = wf_data (wh_obj q r)"
  using assms(2) by (simp_all add: ready_at_view) (metis fst_conv wait_view_def)

text \<open>A new item enters the heap and the map.\<close>

lemma insert_new:
  assumes d: "delaying_ok d" and fresh: "r \<notin> set (wh_entries (dl_heap d))"
    and n: "jm_get (dl_known d) (wf_data e) = None"
  shows "delaying_ok (delaying_insert r e d) \<and>
    due (delaying_insert r e d) = (due d)(wf_data e \<mapsto> wf_readyAt e)"
proof -
  let ?q = "dl_heap d"
  let ?qa = "?q\<lparr>wh_obj := (wh_obj ?q)(r := e)\<rparr>"
  let ?qb = "heap_push wait_ops r ?qa"
  have ins: "delaying_insert r e d = d\<lparr>dl_heap := ?qb, dl_known := jm_set (wf_data e) r (dl_known d)\<rparr>"
    using n by (simp add: delaying_insert_def Let_def)
  have ra: "ready_at ?qa s = (if s = r then wf_readyAt e else ready_at ?q s)" for s
    by (simp add: ready_at_def)
  have arr: "wait_arr ?qa = wait_arr ?q" using fresh by (auto simp: wait_arr_def ra)
  have "wait_ok ?qa" using d fresh by (intro wait_ok_obj) (auto simp: delaying_ok_def)
  moreover have "is_heap (map fst (wait_arr ?q))" using d by (simp add: delaying_ok_def)
  then have "is_heap (map fst (wait_arr ?qa))" by (subst arr)
  ultimately have p: "wait_ok ?qb" "is_heap (map fst (wait_arr ?qb))"
      "mset (wait_arr ?qb) = add_mset (ready_at ?qa r, r) (mset (wait_arr ?q))"
    using waiting.heap_push_spec [of ?qa r "ready_at ?qa r"] fresh arr by simp_all
  have v: "wait_view ?qb = wait_view ?qa" by (rule waiting.view_heap_push)
  note v = arr_of_view [OF refl v]
  have es: "set (wh_entries ?qb) = insert r (set (wh_entries ?q))"
    using arg_cong [OF p(3), of set_mset] by (simp add: entries_arr)
  have known: "set (jm_set (wf_data e) r (dl_known d)) = insert (wf_data e, r) (set (dl_known d))"
    using n by (simp add: jm_set_fresh map_of_eq_None_iff)
  have fr: "(y, r) \<notin> set (dl_known d)" for y using d fresh by (force simp: delaying_ok_def)
  have "delaying_ok (delaying_insert r e d)"
    unfolding delaying_ok_def ins using p d es known fr
    by (auto simp: v delaying_ok_def)
  moreover have "due (delaying_insert r e d) x = ((due d)(wf_data e \<mapsto> wf_readyAt e)) x" for x
  proof (cases "x = wf_data e")
    case False
    have "jm_get (dl_known d) x = Some s \<Longrightarrow> s \<noteq> r" for s using known_entry(1) [OF d] fresh by blast
    with False show ?thesis unfolding ins due_def
      by (cases "jm_get (dl_known d) x") (auto simp: v ra jm_get_set)
  qed (simp add: ins due_def v ra jm_get_set)
  ultimately show ?thesis by blast
qed

text \<open>A known item takes an earlier time.\<close>

lemma insert_known:
  assumes d: "delaying_ok d" and fresh: "r \<notin> set (wh_entries (dl_heap d))"
    and k: "jm_get (dl_known d) (wf_data e) = Some x"
  shows "delaying_ok (delaying_insert r e d) \<and>
    due (delaying_insert r e d) = (due d)(wf_data e \<mapsto> min (ready_at (dl_heap d) x) (wf_readyAt e))"
proof -
  let ?q = "dl_heap d"
  let ?qa = "?q\<lparr>wh_obj := (wh_obj ?q)(r := e)\<rparr>"
  have x: "x \<in> set (wh_entries ?q)" "wf_data (wh_obj ?q x) = wf_data e" using known_entry [OF d k] by auto
  then have xr: "x \<noteq> r" using fresh by auto
  have ra: "ready_at ?qa s = (if s = r then wf_readyAt e else ready_at ?q s)" for s
    by (simp add: ready_at_def)
  have other: "jm_get (dl_known d) y = Some s \<Longrightarrow> s \<noteq> r \<and> (y \<noteq> wf_data e \<longrightarrow> s \<noteq> x)" for y s
  proof
    assume s: "jm_get (dl_known d) y = Some s"
    then show "s \<noteq> r" using known_entry(1) [OF d s] fresh by auto
    show "y \<noteq> wf_data e \<longrightarrow> s \<noteq> x" using known_entry(2) [OF d s] x(2) by auto
  qed
  show ?thesis
  proof (cases "ready_at ?q x > wf_readyAt e")
    case False
    have ins: "delaying_insert r e d = d\<lparr>dl_heap := ?qa\<rparr>"
      using k False xr ra by (simp add: delaying_insert_def Let_def)
    have "wait_arr ?qa = wait_arr ?q" using fresh by (auto simp: wait_arr_def ra)
    moreover have "wait_ok ?qa" using d fresh by (intro wait_ok_obj) (auto simp: delaying_ok_def)
    moreover have "(y, r) \<notin> set (dl_known d)" for y using d fresh by (force simp: delaying_ok_def)
    ultimately have "delaying_ok (delaying_insert r e d)" using d
      by (auto simp: delaying_ok_def ins)
    moreover have "due (delaying_insert r e d) y = due d y" for y
      unfolding ins due_def using other [of y] by (cases "jm_get (dl_known d) y") (auto simp: ra)
    moreover have "due d (wf_data e) = Some (min (ready_at ?q x) (wf_readyAt e))"
      using k False by (simp add: due_def)
    ultimately show ?thesis by (simp add: fun_eq_iff)
  next
    case True
    define qb where "qb = ?qa\<lparr>wh_obj := (wh_obj ?qa)(x := wh_obj ?qa x\<lparr>wf_readyAt := wf_readyAt e\<rparr>)\<rparr>"
    let ?i = "nat (wf_index (wh_obj qb x))"
    define qc where "qc = heap_fix wait_ops qb ?i"
    have ins: "delaying_insert r e d = d\<lparr>dl_heap := qc\<rparr>"
      using k True xr ra by (simp add: delaying_insert_def Let_def qb_def qc_def)
    from x(1) obtain i where i: "i < length (wh_entries ?q)" "wh_entries ?q ! i = x" by (auto simp: in_set_conv_nth)
    have "?i = i" using d i xr by (auto simp: delaying_ok_def wait_ok_def qb_def)
    have ra1: "ready_at qb s = (if s = x \<or> s = r then wf_readyAt e else ready_at ?q s)" for s
      using xr by (simp add: ready_at_def qb_def)
    have eb: "wh_entries qb = wh_entries ?q" by (simp add: qb_def)
    have ok1: "wait_ok qb" using d fresh unfolding qb_def by (intro wait_ok_obj) (auto simp: delaying_ok_def)
    have keys: "map fst (wait_arr qb) = (map fst (wait_arr ?q))[i := wf_readyAt e]"
    proof (rule nth_equalityI)
      fix j
      assume j: "j < length (map fst (wait_arr qb))"
      then have jl: "j < length (wh_entries ?q)" by (simp add: wait_arr_def eb)
      have "wh_entries ?q ! j = x \<longleftrightarrow> j = i" using d i jl by (auto simp: delaying_ok_def wait_ok_def nth_eq_iff_index_eq)
      moreover have "wh_entries ?q ! j \<noteq> r" using fresh jl by auto
      ultimately have "ready_at qb (wh_entries ?q ! j) =
          (if j = i then wf_readyAt e else ready_at ?q (wh_entries ?q ! j))"
        using ra1 [of "wh_entries ?q ! j"] by (simp only: simp_thms)
      with jl show "map fst (wait_arr qb) ! j = (map fst (wait_arr ?q))[i := wf_readyAt e] ! j"
        unfolding wait_keys eb by (auto simp: nth_list_update)
    qed (simp add: wait_arr_def eb)
    have "waiting.heap_but (length (wait_arr qb)) i (map fst (wait_arr qb))"
      using waiting.heap_but_update [of "map fst (wait_arr ?q)" i "wf_readyAt e"] d i
      unfolding keys by (simp add: delaying_ok_def wait_arr_def eb)
    then have p: "wait_ok qc" "is_heap (map fst (wait_arr qc))" "mset (wait_arr qc) = mset (wait_arr qb)"
      using waiting.heap_fix_spec [OF ok1, of i] i \<open>?i = i\<close> by (simp_all add: wait_arr_def eb qc_def)
    have v: "wait_view qc = wait_view qb" unfolding qc_def by (rule waiting.view_heap_fix)
    note v = arr_of_view [OF refl v]
    have es: "set (wh_entries qc) = set (wh_entries ?q)"
      using arg_cong [OF p(3), of set_mset] by (simp add: entries_arr) (simp add: wait_arr_def image_image eb)
    have dt1: "wf_data (wh_obj qb s) = y" if "(y, s) \<in> set (dl_known d)" for y s
    proof -
      have "s \<in> set (wh_entries ?q)" "wf_data (wh_obj ?q s) = y" using that d by (force simp: delaying_ok_def)+
      with fresh show ?thesis by (auto simp: qb_def)
    qed
    have "delaying_ok (delaying_insert r e d)"
      unfolding delaying_ok_def ins using p d es dt1 by (auto simp: v(2) delaying_ok_def)
    moreover have "due (delaying_insert r e d) y = ((due d)(wf_data e \<mapsto> wf_readyAt e)) y" for y
      unfolding ins due_def using other [of y] k
      by (cases "jm_get (dl_known d) y") (auto simp: v(1) ra1)
    ultimately show ?thesis using True by (auto simp: fun_eq_iff)
  qed
qed

text \<open>Popping takes the item with the least due time out of the map.\<close>

lemma heap_empty: "delaying_ok d \<Longrightarrow> wh_entries (dl_heap d) = [] \<longleftrightarrow> dl_known d = []"
  by (auto simp: delaying_ok_def dest: arg_cong [of _ _ set])

lemma pop_first:
  assumes d: "delaying_ok d" and ne: "wh_entries (dl_heap d) \<noteq> []"
  shows "\<exists>r q x. wait_peek (dl_heap d) = Inr r \<and> heap_pop wait_ops (dl_heap d) = Inr (r, q) \<and>
    x = wf_data (wh_obj q r) \<and> due d x = Some (ready_at (dl_heap d) r) \<and>
    (\<forall>y t. due d y = Some t \<longrightarrow> ready_at (dl_heap d) r \<le> t) \<and>
    delaying_ok \<lparr>dl_heap = q, dl_known = jm_del x (dl_known d)\<rparr> \<and>
    due \<lparr>dl_heap = q, dl_known = jm_del x (dl_known d)\<rparr> = (due d)(x := None) \<and>
    set (wh_entries q) \<subseteq> set (wh_entries (dl_heap d))"
proof -
  let ?q = "dl_heap d"
  obtain r es where es: "wh_entries ?q = r # es" using ne by (cases "wh_entries ?q") auto
  then have a0: "wait_arr ?q ! 0 = (ready_at ?q r, r)" by (simp add: wait_arr_def)
  from d ne have "wait_ok ?q" "is_heap (map fst (wait_arr ?q))" "wait_arr ?q \<noteq> []"
    by (simp_all add: delaying_ok_def wait_arr_def)
  from waiting.heap_pop_spec [OF this] a0 obtain q where q: "heap_pop wait_ops ?q = Inr (r, q)" "wait_ok q"
      "is_heap (map fst (wait_arr q))" "mset (wait_arr ?q) = add_mset (ready_at ?q r, r) (mset (wait_arr q))"
      and least: "\<forall>e \<in> set (wait_arr ?q). ready_at ?q r \<le> fst e"
    by auto
  have v: "wait_view q = wait_view ?q" using q(1) by (rule waiting.view_heap_pop)
  note v = arr_of_view [OF refl v]
  define x where "x = wf_data (wh_obj q r)"
  have kx: "jm_get (dl_known d) x = Some r" using entry_known [OF d, of r] es by (simp add: x_def v)
  have m: "mset (wh_entries ?q) = mset (r # wh_entries q)"
    using arg_cong [OF q(4), of "image_mset snd"] by (simp add: entries_mset)
  have "distinct (wh_entries ?q)" using d by (simp add: delaying_ok_def wait_ok_def)
  with mset_eq_imp_distinct_iff [OF m] mset_eq_setD [OF m]
  have esq: "set (wh_entries q) = set (wh_entries ?q) - {r}" by auto
  have kn: "(y, s) \<in> set (dl_known d) \<Longrightarrow> s = r \<longleftrightarrow> y = x" for y s
  proof -
    assume m: "(y, s) \<in> set (dl_known d)"
    then have "jm_get (dl_known d) y = Some s" using d by (simp add: delaying_ok_def)
    then show "s = r \<longleftrightarrow> y = x" using kx known_entry(2) [OF d kx] known_entry(2) [OF d] by (metis option.inject)
  qed
  have del: "set (jm_del x (dl_known d)) = {(y, s) \<in> set (dl_known d). y \<noteq> x}"
    by (auto simp: AList.delete_eq)
  have sn: "snd ` set (jm_del x (dl_known d)) = snd ` set (dl_known d) - {r}"
  proof (intro set_eqI iffI)
    fix s
    assume "s \<in> snd ` set (jm_del x (dl_known d))"
    then obtain y where "(y, s) \<in> set (dl_known d)" "y \<noteq> x" unfolding del by auto
    with kn [of y s] show "s \<in> snd ` set (dl_known d) - {r}" by (auto intro: rev_image_eqI)
  next
    fix s
    assume "s \<in> snd ` set (dl_known d) - {r}"
    then obtain y where "(y, s) \<in> set (dl_known d)" "s \<noteq> r" by auto
    with kn [of y s] show "s \<in> snd ` set (jm_del x (dl_known d))" unfolding del by (auto intro: rev_image_eqI)
  qed
  have ks: "wf_data (wh_obj q s) = y" if "(y, s) \<in> set (jm_del x (dl_known d))" for y s
    using that d unfolding del by (auto simp: delaying_ok_def v)
  have "jm_ok (jm_del x (dl_known d))" using d by (simp add: delaying_ok_def jm_ok_del)
  then have "delaying_ok \<lparr>dl_heap = q, dl_known = jm_del x (dl_known d)\<rparr>"
    unfolding delaying_ok_def using q(2,3) esq sn ks d by (auto simp: delaying_ok_def)
  moreover have "due \<lparr>dl_heap = q, dl_known = jm_del x (dl_known d)\<rparr> = (due d)(x := None)"
  proof -
    have "ready_at q = ready_at ?q" using v(1) by (rule ext)
    then show ?thesis by (intro ext) (simp add: due_def jm_get_del)
  qed
  moreover have "ready_at ?q r \<le> t" if "due d y = Some t" for y t
  proof -
    from that obtain s where s: "jm_get (dl_known d) y = Some s" "t = ready_at ?q s" by (auto simp: due_def)
    with known_entry(1) [OF d s(1)] least show ?thesis by (auto simp: wait_arr_def)
  qed
  moreover have "wait_peek ?q = Inr r" by (simp add: wait_peek_def es)
  moreover have "due d x = Some (ready_at ?q r)" by (simp add: due_def kx)
  ultimately show ?thesis using q(1) x_def esq by blast
qed

section \<open>What the queue promises\<close>

lemma insert_spec:
  assumes "delaying_ok d" and "r \<notin> set (wh_entries (dl_heap d))"
  shows "delaying_ok (delaying_insert r e d)"
    and "due (delaying_insert r e d) = (due d)(wf_data e \<mapsto>
      (case due d (wf_data e) of None \<Rightarrow> wf_readyAt e | Some t \<Rightarrow> min t (wf_readyAt e)))"
  using insert_new [OF assms, of e] insert_known [OF assms, of e]
  by (cases "jm_get (dl_known d) (wf_data e)"; auto simp: due_def)+

text \<open>
  Inserting an entry is taking the earlier of two due times: the item's time becomes the least of
  the one known and the new one, no other item's time changes, and heap and map stay consistent.
\<close>

theorem delaying_insert_due:
  assumes "delaying_ok d" and "r \<notin> set (wh_entries (dl_heap d))"
  shows "delaying_ok (delaying_insert r e d) \<and>
    due (delaying_insert r e d) = (due d)(wf_data e \<mapsto>
      (case due d (wf_data e) of None \<Rightarrow> wf_readyAt e | Some t \<Rightarrow> min t (wf_readyAt e)))"
  by (simp add: insert_spec [OF assms])

lemma delaying_insert_due_witness:
  "due (delaying_insert 0 \<lparr>wf_data = ''a'', wf_readyAt = 7, wf_index = - 1\<rparr> (new_delaying ''a'')) ''a'' = Some 7"
  using delaying_insert_due [OF delaying_ok_new, of 0 "''a''" "\<lparr>wf_data = ''a'', wf_readyAt = 7, wf_index = - 1\<rparr>"]
  by (simp add: new_delaying_def due_def)

lemma release_spec:
  assumes "delaying_ok d"
  shows "\<exists>xs d'. release now d = Inr (xs, d') \<and> delaying_ok d' \<and> distinct xs \<and>
    set xs = {x. \<exists>t \<le> now. due d x = Some t} \<and> sorted (map (\<lambda>x. the (due d x)) xs) \<and>
    due d' = (\<lambda>x. case due d x of Some t \<Rightarrow> (if t \<le> now then None else Some t) | None \<Rightarrow> None) \<and>
    set (wh_entries (dl_heap d')) \<subseteq> set (wh_entries (dl_heap d))"
  using assms
proof (induction "length (wh_entries (dl_heap d))" arbitrary: d rule: less_induct)
  case less
  show ?case
  proof (cases "wh_entries (dl_heap d) = []")
    case True
    with heap_empty [OF less.prems] have "due d x = None" for x by (simp add: due_def)
    with True less.prems show ?thesis by (subst release.simps) (auto simp: fun_eq_iff)
  next
    case False
    from pop_first [OF less.prems False] obtain r q x where pk: "wait_peek (dl_heap d) = Inr r"
      and pp: "heap_pop wait_ops (dl_heap d) = Inr (r, q)" and x: "x = wf_data (wh_obj q r)"
      and dx: "due d x = Some (ready_at (dl_heap d) r)"
      and least: "\<forall>y t. due d y = Some t \<longrightarrow> ready_at (dl_heap d) r \<le> t"
      and ok: "delaying_ok \<lparr>dl_heap = q, dl_known = jm_del x (dl_known d)\<rparr>"
      and du: "due \<lparr>dl_heap = q, dl_known = jm_del x (dl_known d)\<rparr> = (due d)(x := None)"
      and en: "set (wh_entries q) \<subseteq> set (wh_entries (dl_heap d))"
      by blast
    let ?d = "\<lparr>dl_heap = q, dl_known = jm_del x (dl_known d)\<rparr>"
    show ?thesis
    proof (cases "ready_at (dl_heap d) r > now")
      case True
      have none: "\<not> t \<le> now" if "due d y = Some t" for y t using least that True by force
      from True False pk have "release now d = Inr ([], d)" by (subst release.simps) simp
      moreover have "due d = (\<lambda>x. case due d x of Some t \<Rightarrow> (if t \<le> now then None else Some t) | None \<Rightarrow> None)"
        using none by (auto simp: fun_eq_iff split: option.splits)
      ultimately show ?thesis using less.prems none by auto
    next
      case due: False
      have "length (wh_entries (dl_heap ?d)) < length (wh_entries (dl_heap d))"
        using heap_pop_shorter [OF pp] by simp
      from less.hyps [OF this ok] obtain xs d' where r: "release now ?d = Inr (xs, d')" "delaying_ok d'"
        "distinct xs" "set xs = {y. \<exists>t \<le> now. due ?d y = Some t}"
        "sorted (map (\<lambda>y. the (due ?d y)) xs)"
        "due d' = (\<lambda>y. case due ?d y of Some t \<Rightarrow> (if t \<le> now then None else Some t) | None \<Rightarrow> None)"
        "set (wh_entries (dl_heap d')) \<subseteq> set (wh_entries q)"
        by auto
      have xs: "y \<in> set xs \<longleftrightarrow> y \<noteq> x \<and> (\<exists>t \<le> now. due d y = Some t)" for y
        using r(4) by (auto simp: du)
      have "release now d = Inr (x # xs, d')"
        using False pk due pp x r(1) by (subst release.simps) (simp add: Let_def)
      moreover have "distinct (x # xs)" using r(3) xs by auto
      moreover have "set (x # xs) = {y. \<exists>t \<le> now. due d y = Some t}" using xs dx due by auto
      moreover have "sorted (map (\<lambda>y. the (due d y)) (x # xs))"
      proof -
        have "map (\<lambda>y. the (due ?d y)) xs = map (\<lambda>y. the (due d y)) xs" using xs by (auto simp: du)
        with r(5) have "sorted (map (\<lambda>y. the (due d y)) xs)" by simp
        moreover have "the (due d x) \<le> the (due d y)" if "y \<in> set xs" for y
          using that xs dx least by force
        ultimately show ?thesis by simp
      qed
      moreover have "due d' = (\<lambda>y. case due d y of Some t \<Rightarrow> (if t \<le> now then None else Some t) | None \<Rightarrow> None)"
        using r(6) dx due by (auto simp: du fun_eq_iff)
      moreover have "set (wh_entries (dl_heap d')) \<subseteq> set (wh_entries (dl_heap d))" using r(7) en by blast
      ultimately show ?thesis using r(2) by blast
    qed
  qed
qed

text \<open>
  The waiting loop releases exactly what is due: each item whose time has come, once, in the order
  of the times, and it keeps the others with their times; it neither fails nor loses an item.
\<close>

theorem release_due:
  assumes "delaying_ok d"
  shows "\<exists>xs d'. release now d = Inr (xs, d') \<and> delaying_ok d' \<and> distinct xs \<and>
    set xs = {x. \<exists>t \<le> now. due d x = Some t} \<and> sorted (map (\<lambda>x. the (due d x)) xs) \<and>
    due d' = (\<lambda>x. case due d x of Some t \<Rightarrow> (if t \<le> now then None else Some t) | None \<Rightarrow> None)"
  using release_spec [OF assms, of now] by blast

lemma release_due_witness:
  "\<exists>xs d'. release 5 (delaying_insert 0 \<lparr>wf_data = ''a'', wf_readyAt = 3, wf_index = - 1\<rparr> (new_delaying ''a''))
     = Inr (xs, d') \<and> set xs = {''a''}"
proof -
  let ?e = "\<lparr>wf_data = ''a'', wf_readyAt = 3, wf_index = - 1\<rparr>"
  have f: "(0 :: nat) \<notin> set (wh_entries (dl_heap (new_delaying ''a'')))" by (simp add: new_delaying_def)
  have e: "due (new_delaying ''a'') x = None" for x by (simp add: due_def new_delaying_def)
  have "due (delaying_insert 0 ?e (new_delaying ''a'')) = [''a'' \<mapsto> 3]"
    using insert_spec(2) [OF delaying_ok_new f, of ?e] e by (simp add: fun_eq_iff)
  with release_due [OF insert_spec(1) [OF delaying_ok_new f], of 5 ?e] show ?thesis
    by (auto split: if_splits)
qed

section \<open>addAfter and the turns of the loop\<close>

text \<open>
  The state of a \<open>Delaying\<close>: the queue, the entries sent and not yet received, the waiting items,
  and the number of the next entry. \<open>now\<close> is what the clock shows.
\<close>

record ('t, 'q) delaying_queue =
  dq_queue :: "('t, 'q) typed"
  dq_sent :: "'t wait_for list"
  dq_waiting :: "'t delaying"
  dq_next :: nat

definition add_now :: "('t, 'q) queue_ops \<Rightarrow> 't \<Rightarrow> ('t, 'q) delaying_queue \<Rightarrow> nat list \<times> ('t, 'q) delaying_queue" where
  "add_now ops x s = (case typed_add ops x (dq_queue s) of (ws, q) \<Rightarrow> (ws, s\<lparr>dq_queue := q\<rparr>))"

definition addAfter :: "('t, 'q) queue_ops \<Rightarrow> int \<Rightarrow> 't \<Rightarrow> int \<Rightarrow> ('t, 'q) delaying_queue \<Rightarrow>
    nat list \<times> ('t, 'q) delaying_queue" where
  "addAfter ops now item duration s =
     (if wq_shuttingDown (dq_queue s) then ([], s)
      else if duration \<le> 0 then add_now ops item s
      else ([], s\<lparr>dq_sent := dq_sent s @ [\<lparr>wf_data = item, wf_readyAt = now + duration, wf_index = - 1\<rparr>]\<rparr>))"

fun add_all :: "('t, 'q) queue_ops \<Rightarrow> 't list \<Rightarrow> ('t, 'q) delaying_queue \<Rightarrow> nat list \<times> ('t, 'q) delaying_queue" where
  "add_all ops [] s = ([], s)"
| "add_all ops (x # xs) s =
     (case add_now ops x s of (ws, s') \<Rightarrow>
      case add_all ops xs s' of (vs, s'') \<Rightarrow> (ws @ vs, s''))"

text \<open>The loop over \<open>waitingForQueue\<close> at the start of a round, with its calls of \<open>add\<close>.\<close>

definition release_turn :: "('t, 'q) queue_ops \<Rightarrow> int \<Rightarrow> ('t, 'q) delaying_queue \<Rightarrow>
    string + nat list \<times> ('t, 'q) delaying_queue" where
  "release_turn ops now s =
     (case release now (dq_waiting s) of
        Inl err \<Rightarrow> Inl err
      | Inr (xs, d) \<Rightarrow> Inr (add_all ops xs (s\<lparr>dq_waiting := d\<rparr>)))"

text \<open>An entry received from the channel: it waits, or is added when its time has come.\<close>

definition receive_turn :: "('t, 'q) queue_ops \<Rightarrow> int \<Rightarrow> ('t, 'q) delaying_queue \<Rightarrow>
    nat list \<times> ('t, 'q) delaying_queue" where
  "receive_turn ops now s =
     (case dq_sent s of
        [] \<Rightarrow> ([], s)
      | e # es \<Rightarrow>
          let s = s\<lparr>dq_sent := es\<rparr> in
          if wf_readyAt e > now then
            ([], s\<lparr>dq_waiting := delaying_insert (dq_next s) e (dq_waiting s), dq_next := dq_next s + 1\<rparr>)
          else add_now ops (wf_data e) s)"

text \<open>Entries get numbers in the order they are received, so a new number is fresh.\<close>

definition dq_ok :: "('t, 'q) delaying_queue \<Rightarrow> bool" where
  "dq_ok s \<longleftrightarrow> delaying_ok (dq_waiting s) \<and> (\<forall>r \<in> set (wh_entries (dl_heap (dq_waiting s))). r < dq_next s)"

lemma entries_insert:
  assumes "delaying_ok d" and "r \<notin> set (wh_entries (dl_heap d))"
  shows "set (wh_entries (dl_heap (delaying_insert r e d))) \<subseteq> insert r (set (wh_entries (dl_heap d)))"
proof -
  have k: "set (wh_entries (dl_heap d')) = snd ` set (dl_known d')" if "delaying_ok d'" for d' :: "'a delaying"
    using that by (simp add: delaying_ok_def)
  have "set (dl_known (delaying_insert r e d)) \<subseteq> insert (wf_data e, r) (set (dl_known d))"
    by (auto simp: delaying_insert_def Let_def jm_set_fresh map_of_eq_None_iff split: option.splits if_splits)
  with k [OF assms(1)] k [OF insert_spec(1) [OF assms]] show ?thesis by auto
qed

lemma typed_add_dirty:
  "set (wq_dirty (snd (typed_add ops x s))) = (if wq_shuttingDown s then set (wq_dirty s) else insert x (set (wq_dirty s)))"
  "wq_shuttingDown (snd (typed_add ops x s)) = wq_shuttingDown s"
  by (cases "cond_signal (wq_waiters s)"; auto simp: typed_add_def Let_def typed_signal_def)+

lemma add_all_dirty:
  "\<not> wq_shuttingDown (dq_queue s) \<Longrightarrow> add_all ops xs s = (ws, s') \<Longrightarrow>
    set (wq_dirty (dq_queue s')) = set xs \<union> set (wq_dirty (dq_queue s)) \<and> dq_waiting s' = dq_waiting s \<and>
    dq_sent s' = dq_sent s \<and> dq_next s' = dq_next s"
proof (induction ops xs s arbitrary: ws s' rule: add_all.induct)
  case (2 ops x xs s)
  let ?s = "s\<lparr>dq_queue := snd (typed_add ops x (dq_queue s))\<rparr>"
  have a: "add_now ops x s = (fst (typed_add ops x (dq_queue s)), ?s)"
    by (simp add: add_now_def split: prod.splits)
  obtain vs where "add_all ops xs ?s = (vs, s')"
    using "2.prems"(2) a by (auto split: prod.splits)
  with "2.IH" [OF a [symmetric]] "2.prems"(1) show ?case by (simp add: typed_add_dirty)
qed simp

text \<open>What \<open>add\<close> does to the queue does not depend on the items that wait.\<close>

lemma add_all_queue:
  "dq_queue s = dq_queue t \<Longrightarrow> map_prod id dq_queue (add_all ops xs s) = map_prod id dq_queue (add_all ops xs t)"
proof (induction xs arbitrary: s t)
  case (Cons x xs)
  let ?q = "\<lambda>s. s\<lparr>dq_queue := snd (typed_add ops x (dq_queue s))\<rparr>"
  have a: "add_now ops x s = (fst (typed_add ops x (dq_queue s)), ?q s)" for s :: "('a, 'b) delaying_queue"
    by (simp add: add_now_def split: prod.splits)
  have "map_prod id dq_queue (add_all ops xs (?q s)) = map_prod id dq_queue (add_all ops xs (?q t))"
    using Cons.prems by (intro Cons.IH) simp
  then show ?case using Cons.prems by (auto simp: a split: prod.splits)
qed simp

lemma release_turn_spec:
  assumes "dq_ok s" and sh: "\<not> wq_shuttingDown (dq_queue s)"
  shows "\<exists>xs ws s'. release_turn ops now s = Inr (ws, s') \<and> dq_ok s' \<and> dq_sent s' = dq_sent s \<and>
      distinct xs \<and> set xs = {x. \<exists>t \<le> now. due (dq_waiting s) x = Some t} \<and>
      sorted (map (\<lambda>x. the (due (dq_waiting s) x)) xs) \<and>
      (ws, dq_queue s') = map_prod id dq_queue (add_all ops xs s) \<and>
      set (wq_dirty (dq_queue s')) = set xs \<union> set (wq_dirty (dq_queue s)) \<and>
      (\<forall>x t. due (dq_waiting s') x = Some t \<longleftrightarrow> due (dq_waiting s) x = Some t \<and> t > now)"
proof -
  from assms(1) have d: "delaying_ok (dq_waiting s)" by (simp add: dq_ok_def)
  from release_spec [OF this, of now] obtain xs d' where r: "release now (dq_waiting s) = Inr (xs, d')"
    "delaying_ok d'" "distinct xs" "set xs = {x. \<exists>t \<le> now. due (dq_waiting s) x = Some t}"
    "sorted (map (\<lambda>x. the (due (dq_waiting s) x)) xs)"
    "due d' = (\<lambda>x. case due (dq_waiting s) x of Some t \<Rightarrow> (if t \<le> now then None else Some t) | None \<Rightarrow> None)"
    "set (wh_entries (dl_heap d')) \<subseteq> set (wh_entries (dl_heap (dq_waiting s)))"
    by blast
  obtain ws s' where a: "add_all ops xs (s\<lparr>dq_waiting := d'\<rparr>) = (ws, s')" by fastforce
  have ad: "set (wq_dirty (dq_queue s')) = set xs \<union> set (wq_dirty (dq_queue s))" "dq_waiting s' = d'"
    "dq_sent s' = dq_sent s" "dq_next s' = dq_next s"
    using add_all_dirty [OF _ a] sh by simp_all
  have "(ws, dq_queue s') = map_prod id dq_queue (add_all ops xs s)"
    using add_all_queue [of "s\<lparr>dq_waiting := d'\<rparr>" s ops xs] a by simp
  moreover have "dq_ok s'" using assms(1) r(2,7) ad by (auto simp: dq_ok_def)
  moreover have "due (dq_waiting s') x = Some t \<longleftrightarrow> due (dq_waiting s) x = Some t \<and> t > now" for x t
    by (auto simp: ad(2) r(6) split: option.splits)
  moreover have "release_turn ops now s = Inr (ws, s')" using r(1) a by (simp add: release_turn_def)
  ultimately show ?thesis using r(3-5) ad(1,3) by blast
qed

lemma receive_turn_spec:
  assumes "dq_ok s" and sh: "\<not> wq_shuttingDown (dq_queue s)" and e: "dq_sent s = e # es"
    and t: "receive_turn ops now s = (ws, s')"
  shows "dq_ok s'" and "dq_sent s' = es"
    and "if wf_readyAt e > now then ws = [] \<and> dq_queue s' = dq_queue s \<and>
         due (dq_waiting s') = (due (dq_waiting s))(wf_data e \<mapsto>
           (case due (dq_waiting s) (wf_data e) of None \<Rightarrow> wf_readyAt e | Some t \<Rightarrow> min t (wf_readyAt e)))
       else (ws, dq_queue s') = typed_add ops (wf_data e) (dq_queue s) \<and>
         set (wq_dirty (dq_queue s')) = insert (wf_data e) (set (wq_dirty (dq_queue s))) \<and>
         due (dq_waiting s') = due (dq_waiting s)"
proof -
  let ?d = "delaying_insert (dq_next s) e (dq_waiting s)"
  from assms(1) have d: "delaying_ok (dq_waiting s)"
    and f: "dq_next s \<notin> set (wh_entries (dl_heap (dq_waiting s)))" by (auto simp: dq_ok_def)
  have s': "(ws, s') = (if wf_readyAt e > now then ([], s\<lparr>dq_sent := es, dq_waiting := ?d, dq_next := dq_next s + 1\<rparr>)
      else (fst (typed_add ops (wf_data e) (dq_queue s)),
        s\<lparr>dq_sent := es, dq_queue := snd (typed_add ops (wf_data e) (dq_queue s))\<rparr>))"
    using t e by (auto simp: receive_turn_def add_now_def Let_def split: prod.splits if_splits)
  have "\<forall>r \<in> set (wh_entries (dl_heap ?d)). r < dq_next s + 1"
    using entries_insert [OF d f, of e] assms(1) by (force simp: dq_ok_def)
  then show "dq_ok s'" using assms(1) insert_spec(1) [OF d f] s' by (simp add: dq_ok_def split: if_splits)
  show "dq_sent s' = es" using s' by (simp split: if_splits)
  show "if wf_readyAt e > now then ws = [] \<and> dq_queue s' = dq_queue s \<and>
         due (dq_waiting s') = (due (dq_waiting s))(wf_data e \<mapsto>
           (case due (dq_waiting s) (wf_data e) of None \<Rightarrow> wf_readyAt e | Some t \<Rightarrow> min t (wf_readyAt e)))
       else (ws, dq_queue s') = typed_add ops (wf_data e) (dq_queue s) \<and>
         set (wq_dirty (dq_queue s')) = insert (wf_data e) (set (wq_dirty (dq_queue s))) \<and>
         due (dq_waiting s') = due (dq_waiting s)"
    using insert_spec(2) [OF d f, of e] sh s' by (simp add: typed_add_dirty split: if_splits)
qed

text \<open>
  C27. Delayed items reach the queue when they are due and not before. On a queue that is not shutting
  down, a round of the loop adds exactly the waiting items whose time has come, each once, in the order
  of their times, and the items that go on waiting are the others, with their times. Receiving an entry
  whose time has come adds its item and changes nothing that waits; any other entry makes its item wait
  for its time, or for the one it waited for already if that is earlier, and changes neither the queue
  nor the time of another item.
\<close>

theorem delaying_rounds:
  assumes "dq_ok s" and "\<not> wq_shuttingDown (dq_queue s)"
  shows "(\<exists>xs ws s'. release_turn ops now s = Inr (ws, s') \<and> dq_ok s' \<and> dq_sent s' = dq_sent s \<and>
      distinct xs \<and> set xs = {x. \<exists>t \<le> now. due (dq_waiting s) x = Some t} \<and>
      sorted (map (\<lambda>x. the (due (dq_waiting s) x)) xs) \<and>
      (ws, dq_queue s') = map_prod id dq_queue (add_all ops xs s) \<and>
      set (wq_dirty (dq_queue s')) = set xs \<union> set (wq_dirty (dq_queue s)) \<and>
      (\<forall>x t. due (dq_waiting s') x = Some t \<longleftrightarrow> due (dq_waiting s) x = Some t \<and> t > now)) \<and>
    (\<forall>e es ws s'. dq_sent s = e # es \<longrightarrow> receive_turn ops now s = (ws, s') \<longrightarrow> dq_ok s' \<and> dq_sent s' = es \<and>
      (if wf_readyAt e > now then ws = [] \<and> dq_queue s' = dq_queue s \<and>
         due (dq_waiting s') = (due (dq_waiting s))(wf_data e \<mapsto>
           (case due (dq_waiting s) (wf_data e) of None \<Rightarrow> wf_readyAt e | Some t \<Rightarrow> min t (wf_readyAt e)))
       else (ws, dq_queue s') = typed_add ops (wf_data e) (dq_queue s) \<and>
         set (wq_dirty (dq_queue s')) = insert (wf_data e) (set (wq_dirty (dq_queue s))) \<and>
         due (dq_waiting s') = due (dq_waiting s)))"
  using release_turn_spec [OF assms, of ops now] receive_turn_spec [OF assms, of _ _ ops now] by blast

text \<open>An item that waits for 9, and an entry that asks for it at 4.\<close>

definition waiting_example :: "(string, string list) delaying_queue" where
  "waiting_example = \<lparr>dq_queue = new_typed [], dq_sent = [\<lparr>wf_data = ''b'', wf_readyAt = 4, wf_index = - 1\<rparr>],
     dq_waiting = delaying_insert 0 \<lparr>wf_data = ''b'', wf_readyAt = 9, wf_index = - 1\<rparr> (new_delaying ''a''), dq_next = 1\<rparr>"

lemma delaying_rounds_witness:
  "due (dq_waiting (snd (receive_turn default_queue 3 waiting_example))) ''b'' = Some 4"
proof -
  let ?e = "\<lparr>wf_data = ''b'', wf_readyAt = 9, wf_index = - 1\<rparr>"
  have fresh: "(0 :: nat) \<notin> set (wh_entries (dl_heap (new_delaying ''a'')))" by (simp add: new_delaying_def)
  have "dq_ok waiting_example"
    using insert_spec(1) [OF delaying_ok_new fresh, of ?e] entries_insert [OF delaying_ok_new fresh, of ?e]
    by (auto simp: dq_ok_def waiting_example_def new_delaying_def)
  moreover have "\<not> wq_shuttingDown (dq_queue waiting_example)" by (simp add: waiting_example_def new_typed_def)
  moreover have "due (dq_waiting waiting_example) ''b'' = Some 9"
    using insert_spec(2) [OF delaying_ok_new fresh, of ?e] by (simp add: waiting_example_def new_delaying_def due_def)
  moreover obtain ws s' where "receive_turn default_queue 3 waiting_example = (ws, s')" by fastforce
  ultimately show ?thesis
    using delaying_rounds [of waiting_example default_queue 3] by (fastforce simp: waiting_example_def)
qed

end
