(* ===== verification/RateLimiters.thy ===== *)
theory RateLimiters
  imports DelayingQueue
begin

text \<open>
  \<open>src/client-go/util/workqueue\<close>: \<open>default-rate-limiters.ts\<close> and \<open>rate-limiting-queue.ts\<close>. A limiter
  is a tree of the source's classes with their failure counts; \<open>when\<close> counts a failure and gives the
  delay. Delays are whole milliseconds; the source's \<open>number\<close> is exact below \<open>2 ^ 53\<close> and the delays
  are cut at the maximum far below it. The lemmas give the delay of the n-th failure in a row.
\<close>

section \<open>Limiters\<close>

datatype 't limiter =
    ItemExponential (le_base: int) (le_max: int) (le_failures: "('t, nat) jmap")
  | MaxOf "'t limiter list"
  | Noop

text \<open>\<open>this.failures.get(item) ?? 0\<close>.\<close>

definition failures_of :: "('t, nat) jmap \<Rightarrow> 't \<Rightarrow> nat" where
  "failures_of m x = (case jm_get m x of None \<Rightarrow> 0 | Some n \<Rightarrow> n)"

text \<open>The loop of \<open>TypedMaxOfRateLimiter.when\<close> over the delays its limiters give.\<close>

fun max_delay :: "int \<Rightarrow> int list \<Rightarrow> int" where
  "max_delay ret [] = ret"
| "max_delay ret (d # ds) = max_delay (max ret d) ds"

fun limiter_when :: "'t \<Rightarrow> 't limiter \<Rightarrow> int \<times> 't limiter" where
  "limiter_when x (ItemExponential base mx fs) =
     (let exp = failures_of fs x;
          fs' = jm_set x (exp + 1) fs;
          backoff = base * 2 ^ exp
      in (min backoff mx, ItemExponential base mx fs'))"
| "limiter_when x (MaxOf ls) =
     (let rs = map (limiter_when x) ls in (max_delay 0 (map fst rs), MaxOf (map snd rs)))"
| "limiter_when x Noop = (0, Noop)"

fun limiter_forget :: "'t \<Rightarrow> 't limiter \<Rightarrow> 't limiter" where
  "limiter_forget x (ItemExponential base mx fs) = ItemExponential base mx (jm_del x fs)"
| "limiter_forget x (MaxOf ls) = MaxOf (map (limiter_forget x) ls)"
| "limiter_forget x Noop = Noop"

fun max_count :: "nat \<Rightarrow> nat list \<Rightarrow> nat" where
  "max_count ret [] = ret"
| "max_count ret (n # ns) = max_count (max ret n) ns"

fun limiter_numRequeues :: "'t \<Rightarrow> 't limiter \<Rightarrow> nat" where
  "limiter_numRequeues x (ItemExponential base mx fs) = failures_of fs x"
| "limiter_numRequeues x (MaxOf ls) = max_count 0 (map (limiter_numRequeues x) ls)"
| "limiter_numRequeues x Noop = 0"

definition newItemExponential :: "int \<Rightarrow> int \<Rightarrow> 't limiter" where
  "newItemExponential base mx = ItemExponential base mx []"

definition controllerRateLimiter :: "'t limiter" where
  "controllerRateLimiter = MaxOf [newItemExponential 5 1000000, Noop]"

section \<open>What a limiter remembers\<close>

text \<open>\<open>n\<close> failures of \<open>x\<close> in a row.\<close>

definition fail_times :: "nat \<Rightarrow> 't \<Rightarrow> 't limiter \<Rightarrow> 't limiter" where
  "fail_times n x = (snd \<circ> limiter_when x) ^^ n"

lemma failures_set [simp]:
  "failures_of (jm_set x n m) y = (if y = x then n else failures_of m y)"
  by (simp add: failures_of_def jm_get_set)

lemma failures_del [simp]:
  "failures_of (jm_del x m) y = (if y = x then 0 else failures_of m y)"
  by (simp add: failures_of_def jm_get_del)

lemma forget_other:
  "x \<noteq> y \<Longrightarrow> limiter_numRequeues y (limiter_forget x l) = limiter_numRequeues y l"
  by (induction l) (simp_all add: comp_def cong: map_cong)

lemma max_count_zero: "\<forall>n \<in> set ns. n = 0 \<Longrightarrow> max_count 0 ns = 0"
  by (induction ns) simp_all

lemma forget_none: "limiter_numRequeues x (limiter_forget x l) = 0"
  by (induction l) (auto intro!: max_count_zero)

lemma when_other:
  "x \<noteq> y \<Longrightarrow> limiter_numRequeues y (snd (limiter_when x l)) = limiter_numRequeues y l \<and>
    fst (limiter_when y (snd (limiter_when x l))) = fst (limiter_when y l)"
  by (induction l) (simp_all add: Let_def comp_def cong: map_cong)

text \<open>
  What a user of a limiter relies on: forgetting an item clears its count and no other's, and a
  failure of one item changes neither the count nor the next delay of another.
\<close>

locale rate_limiter =
  fixes whn :: "'t \<Rightarrow> 'l \<Rightarrow> int \<times> 'l" and forget :: "'t \<Rightarrow> 'l \<Rightarrow> 'l" and requeues :: "'t \<Rightarrow> 'l \<Rightarrow> nat"
  assumes forget_clears: "requeues x (forget x l) = 0"
    and forget_keeps: "x \<noteq> y \<Longrightarrow> requeues y (forget x l) = requeues y l"
    and when_keeps: "x \<noteq> y \<Longrightarrow> requeues y (snd (whn x l)) = requeues y l"
    and when_delay: "x \<noteq> y \<Longrightarrow> fst (whn y (snd (whn x l))) = fst (whn y l)"
begin

lemma failures_keep: "x \<notin> set ys \<Longrightarrow> requeues x (fold (\<lambda>y l. snd (whn y l)) ys l) = requeues x l"
  by (induction ys arbitrary: l) (auto simp: when_keeps)

lemma failures_delay: "x \<notin> set ys \<Longrightarrow> fst (whn x (fold (\<lambda>y l. snd (whn y l)) ys l)) = fst (whn x l)"
  by (induction ys arbitrary: l) (auto simp: when_delay)

end

interpretation limiter: rate_limiter limiter_when limiter_forget limiter_numRequeues
  by unfold_locales (auto simp: forget_none forget_other when_other)

section \<open>Exponential back-off\<close>

lemma jm_set_again: "jm_set k v (jm_set k w m) = jm_set k v m"
  by (induction m) auto

lemma fail_times_exponential:
  "fail_times n x (ItemExponential b m fs) =
    ItemExponential b m (if n = 0 then fs else jm_set x (failures_of fs x + n) fs)"
  by (induction n) (auto simp: fail_times_def Let_def jm_set_again)

lemma fail_times_controller:
  "fail_times n x (MaxOf [ItemExponential b m fs, Noop]) = MaxOf [fail_times n x (ItemExponential b m fs), Noop]"
  by (induction n) (auto simp: fail_times_def)

text \<open>
  The controllers' limiter backs off exponentially: after \<open>n\<close> failures in a row of an item that
  was forgotten, it has counted \<open>n\<close>, the next delay is \<open>5 * 2 ^ n\<close> milliseconds or the maximum of
  1000 seconds, whichever is less, and forgetting the item starts again at 5.
\<close>

theorem controller_backoff:
  "limiter_numRequeues x (fail_times n x controllerRateLimiter) = n \<and>
   fst (limiter_when x (fail_times n x controllerRateLimiter)) = min (5 * 2 ^ n) 1000000 \<and>
   fst (limiter_when x (limiter_forget x (fail_times n x controllerRateLimiter))) = 5"
  by (cases n) (simp_all add: controllerRateLimiter_def newItemExponential_def fail_times_controller
      fail_times_exponential Let_def failures_of_def jm_get_set jm_get_del)

section \<open>The rate limiting queue\<close>

record ('t, 'q) rate_limiting =
  rl_queue :: "('t, 'q) delaying_queue"
  rl_limiter :: "'t limiter"

definition addRateLimited :: "('t, 'q) queue_ops \<Rightarrow> int \<Rightarrow> 't \<Rightarrow> ('t, 'q) rate_limiting \<Rightarrow>
    nat list \<times> ('t, 'q) rate_limiting" where
  "addRateLimited ops now item s =
     (case limiter_when item (rl_limiter s) of (delay, l) \<Rightarrow>
      case addAfter ops now item delay (rl_queue s) of (ws, q) \<Rightarrow>
        (ws, s\<lparr>rl_queue := q, rl_limiter := l\<rparr>))"

definition rl_forget :: "'t \<Rightarrow> ('t, 'q) rate_limiting \<Rightarrow> ('t, 'q) rate_limiting" where
  "rl_forget item s = s\<lparr>rl_limiter := limiter_forget item (rl_limiter s)\<rparr>"

definition rl_numRequeues :: "'t \<Rightarrow> ('t, 'q) rate_limiting \<Rightarrow> nat" where
  "rl_numRequeues item s = limiter_numRequeues item (rl_limiter s)"

text \<open>
  Requeueing a failed item sends it with the limiter's delay: on a queue that is not shutting down
  and a limiter that gives a positive delay, exactly one entry for the item is sent, due after that
  delay; other items keep their counts and their next delays, whatever fails in between.
\<close>

theorem requeue_delay:
  fixes s :: "('t, 'q) rate_limiting"
  assumes "\<not> wq_shuttingDown (dq_queue (rl_queue s))" and "fst (limiter_when x (rl_limiter s)) > 0"
  shows "(case addRateLimited ops now x s of (ws, s') \<Rightarrow>
      dq_sent (rl_queue s') = dq_sent (rl_queue s) @
        [\<lparr>wf_data = x, wf_readyAt = now + fst (limiter_when x (rl_limiter s)), wf_index = - 1\<rparr>] \<and>
      dq_queue (rl_queue s') = dq_queue (rl_queue s)) \<and>
    (\<forall>y ys. y \<notin> set ys \<longrightarrow>
      rl_numRequeues y (fold (\<lambda>z t. snd (addRateLimited ops now z t)) ys s) = rl_numRequeues y s)"
proof (intro conjI allI impI)
  show "case addRateLimited ops now x s of (ws, s') \<Rightarrow>
      dq_sent (rl_queue s') = dq_sent (rl_queue s) @
        [\<lparr>wf_data = x, wf_readyAt = now + fst (limiter_when x (rl_limiter s)), wf_index = - 1\<rparr>] \<and>
      dq_queue (rl_queue s') = dq_queue (rl_queue s)"
    using assms by (cases "limiter_when x (rl_limiter s)") (auto simp: addRateLimited_def addAfter_def)
next
  fix y :: 't and ys
  assume "y \<notin> set ys"
  moreover have "rl_limiter (fold (\<lambda>z t. snd (addRateLimited ops now z t)) ys s) =
      fold (\<lambda>z l. snd (limiter_when z l)) ys (rl_limiter s)"
    by (induction ys arbitrary: s) (simp_all add: addRateLimited_def split: prod.splits)
  ultimately show "rl_numRequeues y (fold (\<lambda>z t. snd (addRateLimited ops now z t)) ys s) = rl_numRequeues y s"
    by (simp add: rl_numRequeues_def limiter.failures_keep)
qed

lemma requeue_delay_witness:
  "length (dq_sent (rl_queue (snd (addRateLimited default_queue 100 ''b''
      \<lparr>rl_queue = waiting_example, rl_limiter = controllerRateLimiter\<rparr>)))) = 2"
proof -
  let ?s = "\<lparr>rl_queue = waiting_example, rl_limiter = controllerRateLimiter\<rparr>"
  have "\<not> wq_shuttingDown (dq_queue (rl_queue ?s))" "fst (limiter_when ''b'' (rl_limiter ?s)) > 0"
    by (simp_all add: waiting_example_def new_typed_def controllerRateLimiter_def newItemExponential_def
        Let_def failures_of_def)
  from requeue_delay [OF this, of 100 default_queue] show ?thesis
    by (auto simp: waiting_example_def split: prod.splits)
qed

end
