(* ===== verification/ObjectMeta.thy ===== *)
theory ObjectMeta
  imports Labels
begin

text \<open>
  The parts of API objects the code reads: metadata and owner references
  (\<open>src/client/types.ts\<close> and the generated models, without managed fields and self link), the keys of \<open>src/client-go/tools/cache/store.ts\<close> and the
  index function and key adapter of \<open>index.ts\<close>. Optional properties are options; times are milliseconds.
\<close>

record owner_reference =
  or_apiVersion :: string
  or_kind :: string
  or_name :: string
  or_uid :: string
  or_controller :: "bool option"
  or_blockOwnerDeletion :: "bool option"

record object_meta =
  om_name :: "string option"
  om_generateName :: "string option"
  om_namespace :: "string option"
  om_uid :: "string option"
  om_resourceVersion :: "string option"
  om_generation :: "int option"
  om_labels :: "label_set option"
  om_annotations :: "label_set option"
  om_ownerReferences :: "owner_reference list option"
  om_finalizers :: "string list option"
  om_creationTimestamp :: "int option"
  om_deletionTimestamp :: "int option"
  om_deletionGracePeriodSeconds :: "int option"

definition empty_meta :: object_meta where
  "empty_meta = \<lparr>om_name = None, om_generateName = None, om_namespace = None, om_uid = None,
     om_resourceVersion = None, om_generation = None, om_labels = None, om_annotations = None,
     om_ownerReferences = None, om_finalizers = None, om_creationTimestamp = None,
     om_deletionTimestamp = None, om_deletionGracePeriodSeconds = None\<rparr>"

record api_object =
  ao_metadata :: "object_meta option"

text \<open>\<open>x ?? ""\<close>.\<close>

abbreviation or_empty :: "string option \<Rightarrow> string" where
  "or_empty x \<equiv> (case x of None \<Rightarrow> [] | Some s \<Rightarrow> s)"

section \<open>Object names and keys (store.ts)\<close>

datatype object_name = ObjectName (on_namespace: string) (on_name: string)

definition objectName_string :: "object_name \<Rightarrow> string" where
  "objectName_string n =
     (if length (on_namespace n) > 0 then on_namespace n @ [CHR 0x2F] @ on_name n else on_name n)"

definition metaObjectToName :: "'a api_object_scheme \<Rightarrow> object_name" where
  "metaObjectToName obj =
     (case ao_metadata obj of
        None \<Rightarrow> ObjectName [] []
      | Some m \<Rightarrow> ObjectName (or_empty (om_namespace m)) (or_empty (om_name m)))"

definition objectToName :: "'a api_object_scheme \<Rightarrow> object_name \<times> js_error option" where
  "objectToName obj =
     (if ao_metadata obj = None then (ObjectName [] [], Some (PlainError ''object has no meta''))
      else (metaObjectToName obj, None))"

text \<open>An argument of a key function: an object or an explicit key.\<close>

datatype 'o keyed = ExplicitKey string | Object 'o

fun metaNamespaceKeyFunc :: "'a api_object_scheme keyed \<Rightarrow> string \<times> js_error option" where
  "metaNamespaceKeyFunc (ExplicitKey k) = (k, None)"
| "metaNamespaceKeyFunc (Object obj) =
     (case objectToName obj of
        (n, Some err) \<Rightarrow> ([], Some err)
      | (n, None) \<Rightarrow> (objectName_string n, None))"

definition splitMetaNamespaceKey :: "string \<Rightarrow> string \<times> string \<times> js_error option" where
  "splitMetaNamespaceKey k =
     (case js_split (CHR 0x2F) k of
        [name] \<Rightarrow> ([], name, None)
      | [ns, name] \<Rightarrow> (ns, name, None)
      | _ \<Rightarrow> ([], [], Some (PlainError (''unexpected key format: '' @ json_string k))))"

section \<open>Index functions (index.ts)\<close>

type_synonym 'o index_func = "'o \<Rightarrow> string list \<times> js_error option"

definition namespaceIndex :: string where
  "namespaceIndex = ''namespace''"

definition metaNamespaceIndexFunc :: "'a api_object_scheme index_func" where
  "metaNamespaceIndexFunc obj =
     (case ao_metadata obj of
        None \<Rightarrow> ([[]], Some (PlainError ''object has no meta''))
      | Some m \<Rightarrow> ([or_empty (om_namespace m)], None))"

fun indexFuncToKeyFuncAdapter :: "'o index_func \<Rightarrow> 'o keyed \<Rightarrow> string \<times> js_error option" where
  "indexFuncToKeyFuncAdapter f (ExplicitKey k) = (k, None)"
| "indexFuncToKeyFuncAdapter f (Object obj) =
     (case f obj of
        (ks, Some err) \<Rightarrow> ([], Some err)
      | (ks, None) \<Rightarrow>
          (if length ks > 1 then ([], Some (PlainError (''too many keys: '' @ js_join '','' ks)))
           else case ks of
               [] \<Rightarrow> ([], Some (PlainError ''unexpected empty indexKeys''))
             | k # _ \<Rightarrow> (k, None)))"

text \<open>\<open>rvFromObject\<close> of \<open>thread-safe-store.ts\<close> on an API object; it never returns an error.\<close>

definition rvFromObject :: "'a api_object_scheme \<Rightarrow> string option" where
  "rvFromObject obj = (case ao_metadata obj of None \<Rightarrow> None | Some m \<Rightarrow> om_resourceVersion m)"

section \<open>Keys of objects\<close>

text \<open>
  The key of an object with metadata splits back into its namespace and name, for names without
  a slash, and the key of an object without metadata is an error.
\<close>

theorem key_roundtrip:
  "metaNamespaceKeyFunc (Object obj) =
     (case ao_metadata obj of
        None \<Rightarrow> ([], Some (PlainError ''object has no meta''))
      | Some m \<Rightarrow>
          (let ns = or_empty (om_namespace m); n = or_empty (om_name m) in
           (if ns = [] then n else ns @ CHR 0x2F # n, None))) \<and>
   (CHR 0x2F \<notin> set ns \<and> CHR 0x2F \<notin> set n \<longrightarrow>
      splitMetaNamespaceKey (objectName_string (ObjectName ns n)) = (ns, n, None))"
  by (auto simp: objectToName_def metaObjectToName_def objectName_string_def splitMetaNamespaceKey_def
      js_split_append js_split_no_sep Let_def split: option.splits)

lemma key_roundtrip_witness:
  "splitMetaNamespaceKey (objectName_string (ObjectName ''kube-system'' ''dns'')) = (''kube-system'', ''dns'', None)"
  using key_roundtrip [THEN conjunct2, of "''kube-system''" "''dns''"] by simp

end
