(* ===== verification/ThreadSafeStore.thy ===== *)
theory ThreadSafeStore
  imports ObjectMeta
begin

text \<open>
  \<open>src/client-go/tools/cache/thread-safe-store.ts\<close>: the indexed store behind every informer cache.
  Stored items are values, so \<open>structuredClone\<close> is the identity; items are objects, which are truthy,
  so the tests \<open>if (oldObj)\<close> ask for presence. An operation that may throw returns the error beside
  the state it leaves. \<open>rv\<close> stands for \<open>rvFromObject\<close> at the stored type. The lemmas show that the
  indices always list, for every indexer and value, exactly the keys of the items with that value.
\<close>

section \<open>StoreIndex\<close>

type_synonym index = "(string, string list) jmap"
type_synonym indices = "(string, index) jmap"
type_synonym 'o indexers = "(string, 'o index_func) jmap"

record 'o store_index =
  si_indexers :: "'o indexers"
  si_indices :: indices

definition si_reset :: "'o store_index \<Rightarrow> 'o store_index" where
  "si_reset si = si\<lparr>si_indices := []\<rparr>"

definition no_such_index :: "string \<Rightarrow> js_error" where
  "no_such_index name = PlainError (''Index with name '' @ name @ '' does not exist'')"

definition index_of :: "string \<Rightarrow> 'o store_index \<Rightarrow> index" where
  "index_of name si = (case jm_get (si_indices si) name of None \<Rightarrow> [] | Some m \<Rightarrow> m)"

definition index_get :: "index \<Rightarrow> string \<Rightarrow> string list" where
  "index_get index v = (case jm_get index v of None \<Rightarrow> [] | Some ks \<Rightarrow> ks)"

definition getKeysFromIndex :: "string \<Rightarrow> 'o \<Rightarrow> 'o store_index \<Rightarrow> string list \<times> js_error option" where
  "getKeysFromIndex name obj si =
     (case jm_get (si_indexers si) name of
        None \<Rightarrow> ([], Some (no_such_index name))
      | Some f \<Rightarrow>
          (case f obj of
             (vs, Some err) \<Rightarrow> ([], Some err)
           | (vs, None) \<Rightarrow>
               (let index = index_of name si in
                case vs of
                  [v] \<Rightarrow> (js_add_all (index_get index v) [], None)
                | _ \<Rightarrow> (fold (\<lambda>v s. js_add_all (index_get index v) s) vs [], None))))"

definition getKeysByIndex :: "string \<Rightarrow> string \<Rightarrow> 'o store_index \<Rightarrow> string list \<times> js_error option" where
  "getKeysByIndex name v si =
     (case jm_get (si_indexers si) name of
        None \<Rightarrow> ([], Some (no_such_index name))
      | Some f \<Rightarrow> (js_add_all (index_get (index_of name si) v) [], None))"

definition getIndexValues :: "string \<Rightarrow> 'o store_index \<Rightarrow> string list" where
  "getIndexValues name si = jm_keys (index_of name si)"

definition si_addIndexers :: "'o indexers \<Rightarrow> 'o store_index \<Rightarrow> js_error option \<times> 'o store_index" where
  "si_addIndexers new si =
     (let conflicts = filter (\<lambda>k. jm_get (si_indexers si) k \<noteq> None) (jm_keys new) in
      if length conflicts > 0 then
        (Some (PlainError (''indexer conflict: '' @ js_join '','' conflicts)), si)
      else (None, si\<lparr>si_indexers := fold (\<lambda>(k, f) m. jm_set k f m) new (si_indexers si)\<rparr>))"

definition addKeyToIndex :: "string \<Rightarrow> string \<Rightarrow> index \<Rightarrow> index" where
  "addKeyToIndex k v index = jm_set v (js_add k (index_get index v)) index"

definition deleteKeyFromIndex :: "string \<Rightarrow> string \<Rightarrow> index \<Rightarrow> index" where
  "deleteKeyFromIndex k v index =
     (case jm_get index v of
        None \<Rightarrow> index
      | Some ks \<Rightarrow>
          (let ks' = js_del k ks in
           if length ks' = 0 then jm_del v index else jm_set v ks' index))"

text \<open>The values of an index function for an item, if there is one; a failure is thrown.\<close>

definition index_values :: "string \<Rightarrow> string \<Rightarrow> 'o index_func \<Rightarrow> 'o option \<Rightarrow> js_error + string list" where
  "index_values name key f obj =
     (case obj of
        None \<Rightarrow> Inr []
      | Some x \<Rightarrow>
          (case f x of
             (vs, None) \<Rightarrow> Inr vs
           | (vs, Some err) \<Rightarrow>
               Inl (PlainError (''unable to calculate an index entry for key '' @ [CHR 0x22] @ key @ [CHR 0x22]
                 @ '' on index '' @ [CHR 0x22] @ name @ [CHR 0x22] @ '': '' @ error_string err))))"

definition updateSingleIndex ::
  "string \<Rightarrow> 'o option \<Rightarrow> 'o option \<Rightarrow> string \<Rightarrow> 'o store_index \<Rightarrow> js_error option \<times> 'o store_index" where
  "updateSingleIndex name old new key si =
     (case jm_get (si_indexers si) name of
        None \<Rightarrow> (Some (PlainError (''indexer '' @ [CHR 0x22] @ name @ [CHR 0x22] @ '' does not exist'')), si)
      | Some f \<Rightarrow>
          (case index_values name key f old of
             Inl err \<Rightarrow> (Some err, si)
           | Inr olds \<Rightarrow>
               (case index_values name key f new of
                  Inl err \<Rightarrow> (Some err, si)
                | Inr news \<Rightarrow>
                    (let index = index_of name si in
                     (None, si\<lparr>si_indices := jm_set name
                        (if length news = 1 \<and> length olds = 1 \<and> hd news = hd olds then index
                         else fold (addKeyToIndex key) news (fold (deleteKeyFromIndex key) olds index))
                        (si_indices si)\<rparr>)))))"

fun update_each ::
  "string list \<Rightarrow> 'o option \<Rightarrow> 'o option \<Rightarrow> string \<Rightarrow> 'o store_index \<Rightarrow> js_error option \<times> 'o store_index" where
  "update_each [] old new key si = (None, si)"
| "update_each (name # names) old new key si =
     (case updateSingleIndex name old new key si of
        (Some err, si') \<Rightarrow> (Some err, si')
      | (None, si') \<Rightarrow> update_each names old new key si')"

definition updateIndices ::
  "'o option \<Rightarrow> 'o option \<Rightarrow> string \<Rightarrow> 'o store_index \<Rightarrow> js_error option \<times> 'o store_index" where
  "updateIndices old new key si = update_each (jm_keys (si_indexers si)) old new key si"

section \<open>ThreadSafeMap\<close>

record 'o thread_safe_map =
  ts_index :: "'o store_index"
  ts_items :: "(string, 'o) jmap"
  ts_rv :: string

definition new_thread_safe_map :: "'o indexers \<Rightarrow> 'o thread_safe_map" where
  "new_thread_safe_map indexers =
     \<lparr>ts_index = \<lparr>si_indexers = indexers, si_indices = []\<rparr>, ts_items = [], ts_rv = []\<rparr>"

definition set_rv :: "string option \<Rightarrow> 'o thread_safe_map \<Rightarrow> 'o thread_safe_map" where
  "set_rv r st = (case r of None \<Rightarrow> st | Some v \<Rightarrow> st\<lparr>ts_rv := v\<rparr>)"

definition updateLocked :: "string \<Rightarrow> 'o \<Rightarrow> 'o thread_safe_map \<Rightarrow> js_error option \<times> 'o thread_safe_map" where
  "updateLocked key obj st =
     (let old = jm_get (ts_items st) key;
          st = st\<lparr>ts_items := jm_set key obj (ts_items st)\<rparr>
      in case updateIndices old (Some obj) key (ts_index st) of
           (err, si) \<Rightarrow> (err, st\<lparr>ts_index := si\<rparr>))"

definition ts_update ::
  "('o \<Rightarrow> string option) \<Rightarrow> string \<Rightarrow> 'o \<Rightarrow> 'o thread_safe_map \<Rightarrow> js_error option \<times> 'o thread_safe_map" where
  "ts_update rv key obj st =
     (case updateLocked key obj st of
        (Some err, st') \<Rightarrow> (Some err, st')
      | (None, st') \<Rightarrow> (None, set_rv (rv obj) st'))"

definition ts_add ::
  "('o \<Rightarrow> string option) \<Rightarrow> string \<Rightarrow> 'o \<Rightarrow> 'o thread_safe_map \<Rightarrow> js_error option \<times> 'o thread_safe_map" where
  "ts_add rv key obj st = ts_update rv key obj st"

definition deleteLocked :: "string \<Rightarrow> 'o thread_safe_map \<Rightarrow> js_error option \<times> 'o thread_safe_map" where
  "deleteLocked key st =
     (case jm_get (ts_items st) key of
        None \<Rightarrow> (None, st)
      | Some obj \<Rightarrow>
          (case updateIndices (Some obj) None key (ts_index st) of
             (Some err, si) \<Rightarrow> (Some err, st\<lparr>ts_index := si\<rparr>)
           | (None, si) \<Rightarrow> (None, st\<lparr>ts_items := jm_del key (ts_items st), ts_index := si\<rparr>)))"

definition ts_deleteWithObject ::
  "('o \<Rightarrow> string option) \<Rightarrow> string \<Rightarrow> 'o option \<Rightarrow> 'o thread_safe_map \<Rightarrow> js_error option \<times> 'o thread_safe_map" where
  "ts_deleteWithObject rv key obj st =
     (case deleteLocked key st of
        (Some err, st') \<Rightarrow> (Some err, st')
      | (None, st') \<Rightarrow> (None, case obj of None \<Rightarrow> st' | Some x \<Rightarrow> set_rv (rv x) st'))"

definition ts_delete :: "string \<Rightarrow> 'o thread_safe_map \<Rightarrow> js_error option \<times> 'o thread_safe_map" where
  "ts_delete key st = ts_deleteWithObject (\<lambda>_. None) key None st"

datatype txn_type = TxnAdd | TxnUpdate | TxnDelete

fun run_txns ::
  "(txn_type \<times> string \<times> 'o) list \<Rightarrow> 'o thread_safe_map \<Rightarrow> js_error option \<times> 'o thread_safe_map" where
  "run_txns [] st = (None, st)"
| "run_txns ((ty, key, obj) # txns) st =
     (case (case ty of
              TxnAdd \<Rightarrow> updateLocked key obj st
            | TxnUpdate \<Rightarrow> updateLocked key obj st
            | TxnDelete \<Rightarrow> deleteLocked key st) of
        (Some err, st') \<Rightarrow> (Some err, st')
      | (None, st') \<Rightarrow> run_txns txns st')"

definition ts_transaction ::
  "('o \<Rightarrow> string option) \<Rightarrow> (txn_type \<times> string \<times> 'o) list \<Rightarrow> 'o thread_safe_map \<Rightarrow>
    js_error option \<times> 'o thread_safe_map" where
  "ts_transaction rv txns st =
     (if length txns = 0 then (None, st)
      else case run_txns txns st of
          (Some err, st') \<Rightarrow> (Some err, st')
        | (None, st') \<Rightarrow> (None, set_rv (rv (snd (snd (last txns)))) st'))"

definition ts_get :: "string \<Rightarrow> 'o thread_safe_map \<Rightarrow> 'o option \<times> bool" where
  "ts_get key st = (let item = jm_get (ts_items st) key in (item, item \<noteq> None))"

definition ts_list :: "'o thread_safe_map \<Rightarrow> 'o list" where
  "ts_list st = jm_values (ts_items st)"

definition ts_listKeys :: "'o thread_safe_map \<Rightarrow> string list" where
  "ts_listKeys st = jm_keys (ts_items st)"

fun index_items :: "(string \<times> 'o) list \<Rightarrow> 'o store_index \<Rightarrow> js_error option \<times> 'o store_index" where
  "index_items [] si = (None, si)"
| "index_items ((key, item) # es) si =
     (case updateIndices None (Some item) key si of
        (Some err, si') \<Rightarrow> (Some err, si')
      | (None, si') \<Rightarrow> index_items es si')"

definition ts_replace :: "(string, 'o) jmap \<Rightarrow> string \<Rightarrow> 'o thread_safe_map \<Rightarrow> js_error option \<times> 'o thread_safe_map" where
  "ts_replace items resourceVersion st =
     (case index_items items (si_reset (ts_index st)) of
        (err, si) \<Rightarrow> (err, st\<lparr>ts_items := items, ts_rv := resourceVersion, ts_index := si\<rparr>))"

definition present_items :: "string list \<Rightarrow> 'o thread_safe_map \<Rightarrow> 'o list" where
  "present_items ks st = List.map_filter (jm_get (ts_items st)) ks"

definition ts_getByIndexOf :: "string \<Rightarrow> 'o \<Rightarrow> 'o thread_safe_map \<Rightarrow> 'o list \<times> js_error option" where
  "ts_getByIndexOf name obj st =
     (case getKeysFromIndex name obj (ts_index st) of
        (ks, Some err) \<Rightarrow> ([], Some err)
      | (ks, None) \<Rightarrow> (present_items ks st, None))"

definition ts_byIndex :: "string \<Rightarrow> string \<Rightarrow> 'o thread_safe_map \<Rightarrow> 'o list \<times> js_error option" where
  "ts_byIndex name v st =
     (case getKeysByIndex name v (ts_index st) of
        (ks, Some err) \<Rightarrow> ([], Some err)
      | (ks, None) \<Rightarrow> (present_items ks st, None))"

definition ts_indexKeys :: "string \<Rightarrow> string \<Rightarrow> 'o thread_safe_map \<Rightarrow> string list \<times> js_error option" where
  "ts_indexKeys name v st =
     (case getKeysByIndex name v (ts_index st) of
        (ks, Some err) \<Rightarrow> ([], Some err)
      | (ks, None) \<Rightarrow> (ks, None))"

definition ts_listIndexFuncValues :: "string \<Rightarrow> 'o thread_safe_map \<Rightarrow> string list" where
  "ts_listIndexFuncValues name st = getIndexValues name (ts_index st)"

fun index_names :: "string list \<Rightarrow> (string \<times> 'o) list \<Rightarrow> 'o store_index \<Rightarrow> js_error option \<times> 'o store_index" where
  "index_names names [] si = (None, si)"
| "index_names names ((key, item) # es) si =
     (case update_each names None (Some item) key si of
        (Some err, si') \<Rightarrow> (Some err, si')
      | (None, si') \<Rightarrow> index_names names es si')"

definition ts_addIndexers :: "'o indexers \<Rightarrow> 'o thread_safe_map \<Rightarrow> js_error option \<times> 'o thread_safe_map" where
  "ts_addIndexers new st =
     (case si_addIndexers new (ts_index st) of
        (Some err, si) \<Rightarrow> (Some err, st\<lparr>ts_index := si\<rparr>)
      | (None, si) \<Rightarrow>
          (case index_names (jm_keys new) (ts_items st) si of
             (err, si') \<Rightarrow> (err, st\<lparr>ts_index := si'\<rparr>)))"

definition ts_bookmark :: "string \<Rightarrow> 'o thread_safe_map \<Rightarrow> 'o thread_safe_map" where
  "ts_bookmark r st = st\<lparr>ts_rv := r\<rparr>"

section \<open>One index\<close>

text \<open>The keys an index lists for a value; no value is listed without keys.\<close>

definition idx_keys :: "index \<Rightarrow> string \<Rightarrow> string set" where
  "idx_keys index v = set (index_get index v)"

definition idx_wf :: "index \<Rightarrow> bool" where
  "idx_wf index \<longleftrightarrow> jm_ok index \<and> (\<forall>v ks. jm_get index v = Some ks \<longrightarrow> ks \<noteq> [] \<and> distinct ks)"

lemma index_get_set [simp]: "index_get (jm_set v ks index) w = (if w = v then ks else index_get index w)"
  by (simp add: index_get_def)

lemma index_get_del [simp]: "index_get (jm_del v index) w = (if w = v then [] else index_get index w)"
  by (simp add: index_get_def)

lemma deleteKey_get: "index_get (deleteKeyFromIndex k v index) w =
    (if w = v then js_del k (index_get index v) else index_get index w)"
  by (cases "jm_get index v") (simp_all add: deleteKeyFromIndex_def index_get_def Let_def)

lemma idx_add [simp]: "idx_keys (addKeyToIndex k v index) w = (if w = v then insert k (idx_keys index w) else idx_keys index w)"
  by (simp add: idx_keys_def addKeyToIndex_def)

lemma idx_delete [simp]: "idx_keys (deleteKeyFromIndex k v index) w = (if w = v then idx_keys index w - {k} else idx_keys index w)"
  by (simp add: idx_keys_def deleteKey_get)

lemma idx_wf_get: "idx_wf index \<Longrightarrow> distinct (index_get index v)"
  by (cases "jm_get index v") (auto simp: idx_wf_def index_get_def)

lemma idx_wf_set: "idx_wf index \<Longrightarrow> ks \<noteq> [] \<Longrightarrow> distinct ks \<Longrightarrow> idx_wf (jm_set v ks index)"
  by (simp add: idx_wf_def)

lemma idx_wf_add: "idx_wf index \<Longrightarrow> idx_wf (addKeyToIndex k v index)"
  unfolding addKeyToIndex_def by (rule idx_wf_set) (simp_all add: idx_wf_get distinct_js_add)

lemma idx_wf_delete: "idx_wf index \<Longrightarrow> idx_wf (deleteKeyFromIndex k v index)"
proof (cases "jm_get index v")
  case (Some ks)
  assume wf: "idx_wf index"
  with Some have "distinct ks" by (simp add: idx_wf_def)
  moreover have "idx_wf (jm_del v index)" using wf by (simp add: idx_wf_def)
  ultimately show ?thesis using Some idx_wf_set [OF wf, of "js_del k ks" v]
    by (auto simp: deleteKeyFromIndex_def Let_def distinct_removeAll)
qed (simp add: deleteKeyFromIndex_def)

lemma idx_fold_add:
  "idx_wf index \<Longrightarrow> idx_wf (fold (addKeyToIndex k) vs index) \<and>
    idx_keys (fold (addKeyToIndex k) vs index) w = idx_keys index w \<union> (if w \<in> set vs then {k} else {})"
  by (induction vs arbitrary: index) (auto simp: idx_wf_add)

lemma idx_fold_delete:
  "idx_wf index \<Longrightarrow> idx_wf (fold (deleteKeyFromIndex k) vs index) \<and>
    idx_keys (fold (deleteKeyFromIndex k) vs index) w = idx_keys index w - (if w \<in> set vs then {k} else {})"
  by (induction vs arbitrary: index) (auto simp: idx_wf_delete)

section \<open>The invariant\<close>

text \<open>The values of an item under an index function that does not fail.\<close>

definition index_vals :: "'o index_func \<Rightarrow> 'o \<Rightarrow> string set" where
  "index_vals f x = set (fst (f x))"

definition index_ok :: "'o index_func \<Rightarrow> (string \<rightharpoonup> 'o) \<Rightarrow> index \<Rightarrow> bool" where
  "index_ok f items index \<longleftrightarrow> idx_wf index \<and>
     (\<forall>v. idx_keys index v = {k. \<exists>x. items k = Some x \<and> v \<in> index_vals f x})"

definition indices_ok :: "string list \<Rightarrow> (string \<rightharpoonup> 'o) \<Rightarrow> 'o store_index \<Rightarrow> bool" where
  "indices_ok names items si \<longleftrightarrow>
     (\<forall>name \<in> set names. \<forall>f. jm_get (si_indexers si) name = Some f \<longrightarrow> index_ok f items (index_of name si))"

definition indexers_total :: "'o indexers \<Rightarrow> 'o set \<Rightarrow> bool" where
  "indexers_total indexers A \<longleftrightarrow> (\<forall>name f. jm_get indexers name = Some f \<longrightarrow> (\<forall>x \<in> A. snd (f x) = None))"

lemma index_values_total: "(\<And>x. obj = Some x \<Longrightarrow> snd (f x) = None) \<Longrightarrow>
    \<exists>vs. index_values name key f obj = Inr vs \<and> set vs = (case obj of None \<Rightarrow> {} | Some x \<Rightarrow> index_vals f x)"
  by (cases obj) (auto simp: index_values_def index_vals_def split: prod.splits option.splits)

lemma index_ok_change:
  assumes i: "index_ok f items index" and olds: "set olds = (case items k of None \<Rightarrow> {} | Some x \<Rightarrow> index_vals f x)"
    and news: "set news = (case new of None \<Rightarrow> {} | Some x \<Rightarrow> index_vals f x)"
  shows "index_ok f (items(k := new)) (if length news = 1 \<and> length olds = 1 \<and> hd news = hd olds then index
      else fold (addKeyToIndex k) news (fold (deleteKeyFromIndex k) olds index))"
proof -
  let ?i = "fold (addKeyToIndex k) news (fold (deleteKeyFromIndex k) olds index)"
  have wf: "idx_wf index" and ks: "idx_keys index v = {k. \<exists>x. items k = Some x \<and> v \<in> index_vals f x}" for v
    using i by (auto simp: index_ok_def)
  have old: "k \<in> idx_keys index v \<longleftrightarrow> v \<in> set olds" for v
    unfolding ks olds by (cases "items k") auto
  have keys: "idx_keys ?i v = idx_keys index v - {k} \<union> (if v \<in> set news then {k} else {})" for v
    using old [of v] by (auto simp: idx_fold_add idx_fold_delete wf)
  have new: "idx_keys index v - {k} \<union> (if v \<in> set news then {k} else {}) =
      {l. \<exists>x. (items(k := new)) l = Some x \<and> v \<in> index_vals f x}" for v
    unfolding ks news by (cases new) auto
  show ?thesis
  proof (cases "length news = 1 \<and> length olds = 1 \<and> hd news = hd olds")
    case True
    then have "news = olds" by (cases news; cases olds) auto
    then have "idx_keys index v = idx_keys index v - {k} \<union> (if v \<in> set news then {k} else {})" for v
      using old [of v] by auto
    with True wf new show ?thesis by (simp add: index_ok_def)
  next
    case False
    have "idx_wf ?i" using wf by (simp add: idx_fold_add idx_fold_delete)
    moreover have "idx_keys ?i v = {l. \<exists>x. (items(k := new)) l = Some x \<and> v \<in> index_vals f x}" for v
      using keys [of v] new [of v] by (rule trans)
    ultimately show ?thesis unfolding if_not_P [OF False] index_ok_def by blast
  qed
qed

lemma index_of_set [simp]:
  "index_of name (si\<lparr>si_indices := jm_set n i (si_indices si)\<rparr>) = (if name = n then i else index_of name si)"
  by (simp add: index_of_def)

text \<open>Every index named gets the change; the others and the indexers stay.\<close>

lemma update_each_spec:
  assumes "distinct names" and "\<forall>name \<in> set names. jm_get (si_indexers si) name \<noteq> None"
    and "indexers_total (si_indexers si) (set_option (items k) \<union> set_option new)"
    and "indices_ok names items si"
  shows "\<exists>si'. update_each names (items k) new k si = (None, si') \<and> si_indexers si' = si_indexers si \<and>
    indices_ok names (items(k := new)) si' \<and> (\<forall>name. name \<notin> set names \<longrightarrow> index_of name si' = index_of name si)"
  using assms
proof (induction names arbitrary: si)
  case (Cons n names)
  from Cons.prems(2) obtain f where f: "jm_get (si_indexers si) n = Some f" by auto
  have tot: "items k = Some x \<or> new = Some x \<Longrightarrow> snd (f x) = None" for x
    using Cons.prems(3) f by (auto simp: indexers_total_def)
  obtain olds where o: "index_values n k f (items k) = Inr olds"
      "set olds = (case items k of None \<Rightarrow> {} | Some x \<Rightarrow> index_vals f x)"
    using index_values_total [of "items k" f n k] tot by auto
  obtain news where w: "index_values n k f new = Inr news"
      "set news = (case new of None \<Rightarrow> {} | Some x \<Rightarrow> index_vals f x)"
    using index_values_total [of new f n k] tot by auto
  define i where "i = (if length news = 1 \<and> length olds = 1 \<and> hd news = hd olds then index_of n si
      else fold (addKeyToIndex k) news (fold (deleteKeyFromIndex k) olds (index_of n si)))"
  let ?si = "si\<lparr>si_indices := jm_set n i (si_indices si)\<rparr>"
  have u: "updateSingleIndex n (items k) new k si = (None, ?si)"
    using f o(1) w(1) by (simp add: updateSingleIndex_def i_def Let_def)
  have "index_ok f items (index_of n si)" using Cons.prems(4) f by (simp add: indices_ok_def)
  from index_ok_change [OF this o(2) w(2)] have ok: "index_ok f (items(k := new)) i" unfolding i_def .
  have "indices_ok names items ?si" using Cons.prems(1,4) by (auto simp: indices_ok_def)
  with Cons.IH [of ?si] Cons.prems(1-3) obtain si' where
    si': "update_each names (items k) new k ?si = (None, si')" "si_indexers si' = si_indexers si"
      "indices_ok names (items(k := new)) si'" "\<forall>name. name \<notin> set names \<longrightarrow> index_of name si' = index_of name ?si"
    by (auto simp flip: fun_upd_def)
  have "indices_ok (n # names) (items(k := new)) si'"
    using si' ok f Cons.prems(1) by (auto simp: indices_ok_def simp flip: fun_upd_def)
  moreover have "\<forall>name. name \<notin> set (n # names) \<longrightarrow> index_of name si' = index_of name si" using si'(4) by simp
  ultimately show ?case using u si'(1,2) by (auto simp flip: fun_upd_def)
qed (simp add: indices_ok_def)


text \<open>Indexing entries whose keys are new, one after the other.\<close>

lemma index_names_spec:
  assumes "distinct names" and "\<forall>name \<in> set names. jm_get (si_indexers si) name \<noteq> None"
    and "jm_ok es" and "\<forall>k \<in> set (jm_keys es). items k = None"
    and "indexers_total (si_indexers si) A" and "set (jm_values es) \<subseteq> A" and "indices_ok names items si"
  shows "\<exists>si'. index_names names es si = (None, si') \<and> si_indexers si' = si_indexers si \<and>
    indices_ok names (items ++ map_of es) si' \<and>
    (\<forall>name. name \<notin> set names \<longrightarrow> index_of name si' = index_of name si)"
  using assms
proof (induction es arbitrary: items si)
  case (Cons e es)
  obtain k x where e: "e = (k, x)" by (cases e)
  have "indexers_total (si_indexers si) (set_option (items k) \<union> set_option (Some x))"
    using Cons.prems(4,5,6) e by (auto simp: indexers_total_def)
  from update_each_spec [OF Cons.prems(1,2) this Cons.prems(7)] obtain s1 where
    s1: "update_each names None (Some x) k si = (None, s1)" "si_indexers s1 = si_indexers si"
      "indices_ok names (items(k \<mapsto> x)) s1" "\<forall>name. name \<notin> set names \<longrightarrow> index_of name s1 = index_of name si"
    using Cons.prems(4) e by (auto simp flip: fun_upd_def)
  have "\<forall>l \<in> set (jm_keys es). (items(k \<mapsto> x)) l = None" using Cons.prems(3,4) e by auto
  with Cons.IH [of s1 "items(k \<mapsto> x)"] Cons.prems s1(2,3) e obtain s2 where
    s2: "index_names names es s1 = (None, s2)" "si_indexers s2 = si_indexers si"
      "indices_ok names (items(k \<mapsto> x) ++ map_of es) s2"
      "\<forall>name. name \<notin> set names \<longrightarrow> index_of name s2 = index_of name s1"
    by (auto simp flip: fun_upd_def)
  have "items(k \<mapsto> x) ++ map_of es = items ++ map_of (e # es)"
    using Cons.prems(3) e by (simp add: map_add_upd_left dom_map_of_conv_image_fst del: fun_upd_apply)
  with s1 s2 e show ?case by (auto simp flip: fun_upd_def)
qed (simp add: indices_ok_def)

lemma updateSingleIndex_indexers: "si_indexers (snd (updateSingleIndex n old new k si)) = si_indexers si"
  by (simp add: updateSingleIndex_def Let_def split: option.split sum.split)

lemma update_each_indexers: "si_indexers (snd (update_each names old new k si)) = si_indexers si"
proof (induction names arbitrary: si)
  case (Cons n names)
  then show ?case using updateSingleIndex_indexers [of n old new k si]
    by (auto split: prod.split option.split)
qed simp

lemma index_items_names: "index_items es si = index_names (jm_keys (si_indexers si)) es si"
proof (induction es arbitrary: si)
  case (Cons e es)
  then show ?case using update_each_indexers [of "jm_keys (si_indexers si)" None "Some (snd e)" "fst e" si]
    by (cases e) (auto simp: updateIndices_def split: prod.split option.split)
qed simp

section \<open>Operations keep the invariant\<close>

text \<open>
  A store over a set \<open>A\<close> of objects on which no index function fails: maps without duplicate keys,
  every index exact, and nothing indexed under a name without an index function.
\<close>

definition store_ok :: "'o set \<Rightarrow> 'o thread_safe_map \<Rightarrow> bool" where
  "store_ok A st \<longleftrightarrow> jm_ok (ts_items st) \<and> set (jm_values (ts_items st)) \<subseteq> A \<and>
     jm_ok (si_indexers (ts_index st)) \<and> indexers_total (si_indexers (ts_index st)) A \<and>
     indices_ok (jm_keys (si_indexers (ts_index st))) (jm_get (ts_items st)) (ts_index st) \<and>
     (\<forall>name. jm_get (si_indexers (ts_index st)) name = None \<longrightarrow> index_of name (ts_index st) = [])"

lemma jm_values_set: "set (jm_values (jm_set k v m)) \<subseteq> insert v (set (jm_values m))"
  using jm_set_mem [of _ k v m] by fastforce

lemma jm_values_del: "set (jm_values (jm_del k m)) \<subseteq> set (jm_values m)"
  by (induction m) auto

lemma all_indexers: "\<forall>name \<in> set (jm_keys m). jm_get m name \<noteq> None"
  by (simp add: map_of_eq_None_iff)

lemma updateIndices_spec:
  assumes s: "store_ok A st" and n: "set_option new \<subseteq> A"
  shows "\<exists>si'. updateIndices (jm_get (ts_items st) k) new k (ts_index st) = (None, si') \<and>
    si_indexers si' = si_indexers (ts_index st) \<and>
    (\<forall>its. jm_ok its \<and> jm_get its = (jm_get (ts_items st))(k := new) \<and> set (jm_values its) \<subseteq> A \<longrightarrow>
      store_ok A (st\<lparr>ts_items := its, ts_index := si'\<rparr>))"
proof -
  let ?si = "ts_index st"
  have "set_option (jm_get (ts_items st) k) \<union> set_option new \<subseteq> A"
    using s n by (auto simp: store_ok_def dest!: map_of_SomeD)
  then have "indexers_total (si_indexers ?si) (set_option (jm_get (ts_items st) k) \<union> set_option new)"
    using s unfolding store_ok_def indexers_total_def by blast
  from update_each_spec [where names = "jm_keys (si_indexers ?si)" and items = "jm_get (ts_items st)", OF _ all_indexers this] s obtain si' where
    si': "updateIndices (jm_get (ts_items st) k) new k ?si = (None, si')" "si_indexers si' = si_indexers ?si"
      "indices_ok (jm_keys (si_indexers ?si)) ((jm_get (ts_items st))(k := new)) si'"
      "\<forall>name. name \<notin> set (jm_keys (si_indexers ?si)) \<longrightarrow> index_of name si' = index_of name ?si"
    unfolding store_ok_def updateIndices_def by blast
  moreover have "store_ok A (st\<lparr>ts_items := its, ts_index := si'\<rparr>)"
    if "jm_ok its" "jm_get its = (jm_get (ts_items st))(k := new)" "set (jm_values its) \<subseteq> A" for its
    using s si' that unfolding store_ok_def
    by (simp add: map_of_eq_None_iff del: fun_upd_apply)
  ultimately show ?thesis by blast
qed

lemma updateLocked_spec:
  assumes "store_ok A st" and "obj \<in> A"
  shows "\<exists>st'. updateLocked k obj st = (None, st') \<and> store_ok A st' \<and>
    ts_items st' = jm_set k obj (ts_items st) \<and> si_indexers (ts_index st') = si_indexers (ts_index st)"
proof -
  let ?its = "jm_set k obj (ts_items st)"
  have "jm_ok ?its" "jm_get ?its = (jm_get (ts_items st))(k := Some obj)" "set (jm_values ?its) \<subseteq> A"
    using assms jm_values_set [of k obj "ts_items st"] by (auto simp: store_ok_def simp del: fun_upd_apply)
  with updateIndices_spec [of A st "Some obj" k] assms show ?thesis
    by (auto simp: updateLocked_def Let_def simp del: fun_upd_apply)
qed

lemma deleteLocked_spec:
  assumes "store_ok A st"
  shows "\<exists>st'. deleteLocked k st = (None, st') \<and> store_ok A st' \<and>
    ts_items st' = jm_del k (ts_items st) \<and> si_indexers (ts_index st') = si_indexers (ts_index st)"
proof (cases "jm_get (ts_items st) k")
  case None
  then have "jm_del k (ts_items st) = ts_items st" by (simp add: map_of_eq_None_iff)
  with None assms show ?thesis by (simp add: deleteLocked_def)
next
  case (Some x)
  let ?its = "jm_del k (ts_items st)"
  have "jm_ok ?its" "jm_get ?its = (jm_get (ts_items st))(k := None)" "set (jm_values ?its) \<subseteq> A"
    using assms jm_values_del [of k "ts_items st"] by (auto simp: store_ok_def simp del: fun_upd_apply)
  with updateIndices_spec [of A st None k] assms Some obtain si' where
    "updateIndices (Some x) None k (ts_index st) = (None, si')" "si_indexers si' = si_indexers (ts_index st)"
    "store_ok A (st\<lparr>ts_items := ?its, ts_index := si'\<rparr>)" by auto
  with Some show ?thesis by (simp add: deleteLocked_def)
qed

lemma set_rv_simps [simp]: "store_ok A (set_rv r st) = store_ok A st" "ts_items (set_rv r st) = ts_items st"
  "ts_index (set_rv r st) = ts_index st" "ts_rv (set_rv r st) = (case r of None \<Rightarrow> ts_rv st | Some v \<Rightarrow> v)"
  by (simp_all add: set_rv_def store_ok_def split: option.split)

definition txn_items :: "txn_type \<times> string \<times> 'o \<Rightarrow> (string, 'o) jmap \<Rightarrow> (string, 'o) jmap" where
  "txn_items txn m = (case txn of (ty, k, obj) \<Rightarrow> if ty = TxnDelete then jm_del k m else jm_set k obj m)"

lemma run_txns_spec:
  assumes "store_ok A st" and "\<forall>(ty, k, obj) \<in> set txns. obj \<in> A"
  shows "\<exists>st'. run_txns txns st = (None, st') \<and> store_ok A st' \<and>
    ts_items st' = fold txn_items txns (ts_items st) \<and> si_indexers (ts_index st') = si_indexers (ts_index st)"
  using assms
proof (induction txns arbitrary: st)
  case (Cons t txns)
  obtain ty k obj where t: "t = (ty, k, obj)" by (cases t)
  have "\<exists>st1. (case ty of TxnAdd \<Rightarrow> updateLocked k obj st | TxnUpdate \<Rightarrow> updateLocked k obj st
      | TxnDelete \<Rightarrow> deleteLocked k st) = (None, st1) \<and> store_ok A st1 \<and>
      ts_items st1 = txn_items t (ts_items st) \<and> si_indexers (ts_index st1) = si_indexers (ts_index st)"
    using updateLocked_spec [OF Cons.prems(1), of obj k] deleteLocked_spec [OF Cons.prems(1), of k] Cons.prems(2) t
    by (cases ty) (simp_all add: txn_items_def)
  then obtain st1 where st1: "(case ty of TxnAdd \<Rightarrow> updateLocked k obj st | TxnUpdate \<Rightarrow> updateLocked k obj st
      | TxnDelete \<Rightarrow> deleteLocked k st) = (None, st1)" "store_ok A st1"
      "ts_items st1 = txn_items t (ts_items st)" "si_indexers (ts_index st1) = si_indexers (ts_index st)" by blast
  from Cons.IH [OF st1(2)] Cons.prems(2) obtain st2 where
    "run_txns txns st1 = (None, st2)" "store_ok A st2" "ts_items st2 = fold txn_items txns (ts_items st1)"
    "si_indexers (ts_index st2) = si_indexers (ts_index st1)" by auto
  with st1 t show ?case by simp
qed simp

lemma si_reset_ok: "jm_ok (si_indexers si) \<Longrightarrow> indices_ok names (\<lambda>_. None) (si_reset si)"
  by (simp add: indices_ok_def index_ok_def si_reset_def index_of_def idx_wf_def idx_keys_def index_get_def)

lemma ts_replace_spec:
  assumes s: "store_ok A st" and i: "jm_ok items" "set (jm_values items) \<subseteq> A"
  shows "\<exists>st'. ts_replace items r st = (None, st') \<and> store_ok A st' \<and> ts_items st' = items \<and> ts_rv st' = r \<and>
    si_indexers (ts_index st') = si_indexers (ts_index st)"
proof -
  let ?si = "si_reset (ts_index st)"
  let ?ns = "jm_keys (si_indexers ?si)"
  have si: "si_indexers ?si = si_indexers (ts_index st)" by (simp add: si_reset_def)
  have ok: "indices_ok ?ns (\<lambda>_. None) ?si" using s si_reset_ok by (auto simp: store_ok_def)
  have "distinct ?ns" "indexers_total (si_indexers ?si) A" using s by (auto simp: store_ok_def si)
  from index_names_spec [OF this(1) all_indexers i(1) _ this(2) i(2) ok] obtain si' where
    "index_names ?ns items ?si = (None, si')" "si_indexers si' = si_indexers ?si"
    "indices_ok ?ns ((\<lambda>_. None) ++ map_of items) si'"
    "\<forall>name. name \<notin> set ?ns \<longrightarrow> index_of name si' = index_of name ?si" by blast
  moreover have "index_of name ?si = []" for name by (simp add: si_reset_def index_of_def)
  ultimately show ?thesis using s i si
    by (auto simp: ts_replace_def index_items_names store_ok_def map_of_eq_None_iff)
qed

definition indexer_conflicts :: "'o indexers \<Rightarrow> 'o indexers \<Rightarrow> string list" where
  "indexer_conflicts new old = filter (jm_has old) (jm_keys new)"

lemma ts_addIndexers_conflict: "indexer_conflicts new (si_indexers (ts_index st)) \<noteq> [] \<Longrightarrow>
    ts_addIndexers new st = (Some (PlainError (''indexer conflict: '' @
      js_join '','' (indexer_conflicts new (si_indexers (ts_index st))))), st)"
  by (simp add: ts_addIndexers_def si_addIndexers_def Let_def indexer_conflicts_def jm_has_iff)

lemma ts_addIndexers_spec:
  assumes s: "store_ok A st" and n: "jm_ok new" "indexers_total new A"
    and c: "indexer_conflicts new (si_indexers (ts_index st)) = []"
  shows "\<exists>st'. ts_addIndexers new st = (None, st') \<and> store_ok A st' \<and> ts_items st' = ts_items st \<and> ts_rv st' = ts_rv st \<and>
    jm_get (si_indexers (ts_index st')) = jm_get (si_indexers (ts_index st)) ++ jm_get new"
proof -
  let ?ix = "fold (\<lambda>(k, f) m. jm_set k f m) new (si_indexers (ts_index st))"
  let ?si = "ts_index st\<lparr>si_indexers := ?ix\<rparr>"
  have get: "jm_get ?ix = jm_get (si_indexers (ts_index st)) ++ jm_get new"
    using n(1) by (simp add: fold_jm_set_get map_of_rev_ok)
  have free: "jm_get (si_indexers (ts_index st)) k = None" if "k \<in> set (jm_keys new)" for k
    using c that by (auto simp: indexer_conflicts_def filter_empty_conv map_of_eq_None_iff)
  have ix: "jm_ok ?ix" using s by (simp add: store_ok_def fold_jm_set_ok)
  have tot: "indexers_total ?ix A" using s n(2) by (auto simp: store_ok_def indexers_total_def get map_add_Some_iff)
  have empty: "index_of k ?si = []" if "k \<in> set (jm_keys new)" for k
    using free [OF that] s by (simp add: store_ok_def index_of_def)
  have ok: "indices_ok (jm_keys new) (\<lambda>_. None) ?si"
    by (simp add: indices_ok_def index_ok_def empty idx_wf_def idx_keys_def index_get_def)
  have keys: "\<forall>name \<in> set (jm_keys new). jm_get (si_indexers ?si) name \<noteq> None"
    by (auto simp: get map_add_None map_of_eq_None_iff)
  have its: "jm_ok (ts_items st)" "set (jm_values (ts_items st)) \<subseteq> A" using s by (auto simp: store_ok_def)
  from index_names_spec [OF n(1) keys its(1) _ _ its(2) ok] tot obtain si' where
    si': "index_names (jm_keys new) (ts_items st) ?si = (None, si')" "si_indexers si' = ?ix"
    "indices_ok (jm_keys new) ((\<lambda>_. None) ++ map_of (ts_items st)) si'"
    "\<forall>name. name \<notin> set (jm_keys new) \<longrightarrow> index_of name si' = index_of name ?si" by auto
  have old: "index_of name si' = index_of name (ts_index st)" if "name \<notin> set (jm_keys new)" for name
    using si'(4) that by (simp add: index_of_def)
  have "index_ok f (jm_get (ts_items st)) (index_of name si')" if f: "jm_get ?ix name = Some f" for name f
  proof (cases "name \<in> set (jm_keys new)")
    case True
    with si'(3) f show ?thesis unfolding indices_ok_def si'(2) empty_map_add by blast
  next
    case False
    then have "jm_get (si_indexers (ts_index st)) name = Some f"
      using f by (simp add: get map_add_dom_app_simps(3) dom_map_of_conv_image_fst)
    then show ?thesis using s old [OF False] unfolding store_ok_def indices_ok_def by (metis jm_has_iff list.set_map option.distinct(1))
  qed
  then have "indices_ok (jm_keys ?ix) (jm_get (ts_items st)) si'" using si'(2) by (simp add: indices_ok_def)
  moreover have "\<forall>name. jm_get ?ix name = None \<longrightarrow> index_of name si' = []"
    using s old by (simp add: get map_add_None store_ok_def map_of_eq_None_iff)
  moreover have "ts_addIndexers new st = (None, st\<lparr>ts_index := si'\<rparr>)"
    using c si'(1) by (simp add: ts_addIndexers_def si_addIndexers_def Let_def indexer_conflicts_def jm_has_iff)
  ultimately show ?thesis using si' ix tot its get by (auto simp: store_ok_def)
qed

section \<open>Reads\<close>

lemma present_items_all: "\<forall>k \<in> set ks. m k \<noteq> None \<Longrightarrow> List.map_filter m ks = map (\<lambda>k. the (m k)) ks"
  by (induction ks) (auto simp: List.map_filter_def)

text \<open>\<open>has_value\<close>: the item stored under a key has the value under an index function.\<close>

definition has_value :: "'o index_func \<Rightarrow> string \<Rightarrow> 'o thread_safe_map \<Rightarrow> string \<Rightarrow> bool" where
  "has_value f v st k = (case jm_get (ts_items st) k of None \<Rightarrow> False | Some x \<Rightarrow> v \<in> set (fst (f x)))"

lemma getKeysByIndex_spec:
  assumes s: "store_ok A st" and f: "jm_get (si_indexers (ts_index st)) name = Some f"
  shows "\<exists>ks. getKeysByIndex name v (ts_index st) = (ks, None) \<and> distinct ks \<and> set ks = {k. has_value f v st k}"
proof -
  have "index_ok f (jm_get (ts_items st)) (index_of name (ts_index st))"
    using s f unfolding store_ok_def indices_ok_def by (metis jm_has_iff list.set_map option.distinct(1))
  then show ?thesis using f
    by (auto simp: getKeysByIndex_def index_ok_def idx_keys_def has_value_def index_vals_def split: option.splits)
qed

lemma getIndexValues_spec:
  assumes s: "store_ok A st" and f: "jm_get (si_indexers (ts_index st)) name = Some f"
  shows "distinct (getIndexValues name (ts_index st)) \<and>
    set (getIndexValues name (ts_index st)) = {v. \<exists>k. has_value f v st k}"
proof -
  let ?i = "index_of name (ts_index st)"
  have ok: "index_ok f (jm_get (ts_items st)) ?i"
    using s f unfolding store_ok_def indices_ok_def by (metis jm_has_iff list.set_map option.distinct(1))
  then have wf: "idx_wf ?i" and ks: "idx_keys ?i v = {k. has_value f v st k}" for v
    by (auto simp: index_ok_def has_value_def index_vals_def split: option.splits)
  have "v \<in> set (jm_keys ?i) \<longleftrightarrow> idx_keys ?i v \<noteq> {}" for v
  proof (cases "jm_get ?i v")
    case None
    then have "v \<notin> set (jm_keys ?i)" by (simp add: map_of_eq_None_iff)
    with None show ?thesis by (simp add: idx_keys_def index_get_def)
  next
    case (Some l)
    then have "v \<in> set (jm_keys ?i)" by (metis jm_has_iff list.set_map option.distinct(1))
    with Some wf show ?thesis by (auto simp: idx_wf_def idx_keys_def index_get_def)
  qed
  then have "set (jm_keys ?i) = {v. \<exists>k. has_value f v st k}" using ks by blast
  with wf show ?thesis by (simp add: getIndexValues_def idx_wf_def)
qed

lemma union_keys: "distinct s \<Longrightarrow> distinct (fold (\<lambda>v s. js_add_all (g v) s) vs s) \<and>
    set (fold (\<lambda>v s. js_add_all (g v) s) vs s) = set s \<union> (\<Union>v \<in> set vs. set (g v))"
proof (induction vs arbitrary: s)
  case (Cons v vs)
  from Cons.prems have "distinct (js_add_all (g v) s)" by simp
  from Cons.IH [OF this] show ?case by (simp add: Un_ac)
qed simp

lemma getKeysFromIndex_spec:
  assumes s: "store_ok A st" and f: "jm_get (si_indexers (ts_index st)) name = Some f" and o: "obj \<in> A"
  shows "\<exists>ks. getKeysFromIndex name obj (ts_index st) = (ks, None) \<and> distinct ks \<and>
    set ks = {k. \<exists>v \<in> set (fst (f obj)). has_value f v st k}"
proof -
  let ?i = "index_of name (ts_index st)"
  have "index_ok f (jm_get (ts_items st)) ?i"
    using s f unfolding store_ok_def indices_ok_def by (metis jm_has_iff list.set_map option.distinct(1))
  then have i: "set (index_get ?i v) = {k. has_value f v st k}" for v
    by (auto simp: index_ok_def idx_keys_def has_value_def index_vals_def split: option.splits)
  obtain vs where vs: "f obj = (vs, None)"
    using s f o unfolding store_ok_def indexers_total_def by (metis prod.collapse)
  have u: "distinct (fold (\<lambda>v s. js_add_all (index_get ?i v) s) vs [])"
      "set (fold (\<lambda>v s. js_add_all (index_get ?i v) s) vs []) = {k. \<exists>v \<in> set vs. has_value f v st k}"
    using union_keys [of "[]" "index_get ?i" vs] by (auto simp: i)
  show ?thesis
  proof (cases "\<exists>v. vs = [v]")
    case True
    with f vs i show ?thesis by (auto simp: getKeysFromIndex_def Let_def)
  next
    case False
    then have "getKeysFromIndex name obj (ts_index st) = (fold (\<lambda>v s. js_add_all (index_get ?i v) s) vs [], None)"
      using f vs by (auto simp: getKeysFromIndex_def Let_def split: list.split)
    with u vs show ?thesis by simp
  qed
qed

section \<open>Any sequence of operations\<close>

datatype 'o store_op =
    OpAdd string 'o
  | OpUpdate string 'o
  | OpDelete string "'o option"
  | OpTransaction "(txn_type \<times> string \<times> 'o) list"
  | OpReplace "(string, 'o) jmap" string
  | OpAddIndexers "'o indexers"
  | OpBookmark string

fun run_op :: "('o \<Rightarrow> string option) \<Rightarrow> 'o store_op \<Rightarrow> 'o thread_safe_map \<Rightarrow> js_error option \<times> 'o thread_safe_map" where
  "run_op rv (OpAdd k obj) st = ts_add rv k obj st"
| "run_op rv (OpUpdate k obj) st = ts_update rv k obj st"
| "run_op rv (OpDelete k obj) st = ts_deleteWithObject rv k obj st"
| "run_op rv (OpTransaction txns) st = ts_transaction rv txns st"
| "run_op rv (OpReplace items r) st = ts_replace items r st"
| "run_op rv (OpAddIndexers new) st = ts_addIndexers new st"
| "run_op rv (OpBookmark r) st = (None, ts_bookmark r st)"

fun run_ops :: "('o \<Rightarrow> string option) \<Rightarrow> 'o store_op list \<Rightarrow> 'o thread_safe_map \<Rightarrow> 'o thread_safe_map" where
  "run_ops rv [] st = st"
| "run_ops rv (p # ops) st = run_ops rv ops (snd (run_op rv p st))"

text \<open>What an operation does to the items, and the arguments it may get.\<close>

fun op_items :: "'o store_op \<Rightarrow> (string, 'o) jmap \<Rightarrow> (string, 'o) jmap" where
  "op_items (OpAdd k obj) m = jm_set k obj m"
| "op_items (OpUpdate k obj) m = jm_set k obj m"
| "op_items (OpDelete k obj) m = jm_del k m"
| "op_items (OpTransaction txns) m = fold txn_items txns m"
| "op_items (OpReplace items r) m = items"
| "op_items (OpAddIndexers new) m = m"
| "op_items (OpBookmark r) m = m"

fun op_ok :: "'o set \<Rightarrow> 'o store_op \<Rightarrow> bool" where
  "op_ok A (OpAdd k obj) \<longleftrightarrow> obj \<in> A"
| "op_ok A (OpUpdate k obj) \<longleftrightarrow> obj \<in> A"
| "op_ok A (OpDelete k obj) \<longleftrightarrow> True"
| "op_ok A (OpTransaction txns) \<longleftrightarrow> (\<forall>(ty, k, obj) \<in> set txns. obj \<in> A)"
| "op_ok A (OpReplace items r) \<longleftrightarrow> jm_ok items \<and> set (jm_values items) \<subseteq> A"
| "op_ok A (OpAddIndexers new) \<longleftrightarrow> jm_ok new \<and> indexers_total new A"
| "op_ok A (OpBookmark r) \<longleftrightarrow> True"

definition op_error :: "'o store_op \<Rightarrow> 'o thread_safe_map \<Rightarrow> js_error option" where
  "op_error p st = (case p of
     OpAddIndexers new \<Rightarrow>
       (let cs = indexer_conflicts new (si_indexers (ts_index st)) in
        if cs = [] then None else Some (PlainError (''indexer conflict: '' @ js_join '','' cs)))
   | _ \<Rightarrow> None)"

lemma run_op_spec:
  assumes s: "store_ok A st" and p: "op_ok A p"
  shows "fst (run_op rv p st) = op_error p st \<and> store_ok A (snd (run_op rv p st)) \<and>
    ts_items (snd (run_op rv p st)) = op_items p (ts_items st)"
proof (cases p)
  case (OpAdd k obj)
  then show ?thesis using updateLocked_spec [OF s, of obj k] p
    by (auto simp: op_error_def ts_add_def ts_update_def)
next
  case (OpUpdate k obj)
  then show ?thesis using updateLocked_spec [OF s, of obj k] p by (auto simp: op_error_def ts_update_def)
next
  case (OpDelete k obj)
  then show ?thesis using deleteLocked_spec [OF s, of k]
    by (auto simp: op_error_def ts_deleteWithObject_def split: option.split)
next
  case (OpTransaction txns)
  then show ?thesis using run_txns_spec [OF s, of txns] p s by (auto simp: op_error_def ts_transaction_def)
next
  case (OpReplace items r)
  then show ?thesis using ts_replace_spec [OF s, of items r] p by (auto simp: op_error_def)
next
  case (OpAddIndexers new)
  then show ?thesis using ts_addIndexers_spec [OF s, of new] ts_addIndexers_conflict [of new st] p s
    by (cases "indexer_conflicts new (si_indexers (ts_index st)) = []") (auto simp: op_error_def)
next
  case (OpBookmark r)
  with s show ?thesis by (auto simp: op_error_def ts_bookmark_def store_ok_def)
qed

lemma run_ops_spec: "store_ok A st \<Longrightarrow> \<forall>p \<in> set ops. op_ok A p \<Longrightarrow>
    store_ok A (run_ops rv ops st) \<and> ts_items (run_ops rv ops st) = fold op_items ops (ts_items st)"
  by (induction ops arbitrary: st) (simp_all add: run_op_spec)

lemma new_store_ok: "jm_ok ix \<Longrightarrow> indexers_total ix A \<Longrightarrow> store_ok A (new_thread_safe_map ix)"
  by (simp add: store_ok_def new_thread_safe_map_def indices_ok_def index_ok_def index_of_def idx_wf_def
      idx_keys_def index_get_def)

lemma reads_spec:
  assumes "store_ok A st" and "jm_get (si_indexers (ts_index st)) name = Some f"
  shows "\<exists>ks. ts_indexKeys name v st = (ks, None) \<and> distinct ks \<and> set ks = {k. has_value f v st k} \<and>
    ts_byIndex name v st = (map (\<lambda>k. the (jm_get (ts_items st) k)) ks, None)"
proof -
  obtain ks where ks: "getKeysByIndex name v (ts_index st) = (ks, None)" "distinct ks" "set ks = {k. has_value f v st k}"
    using getKeysByIndex_spec [OF assms] by blast
  then have "present_items ks st = map (\<lambda>k. the (jm_get (ts_items st) k)) ks"
    unfolding present_items_def by (intro present_items_all) (auto simp: has_value_def split: option.splits)
  with ks show ?thesis by (simp add: ts_indexKeys_def ts_byIndex_def)
qed

lemma ts_getByIndexOf_spec:
  assumes "store_ok A st" and "jm_get (si_indexers (ts_index st)) name = Some f" and "obj \<in> A"
  shows "\<exists>ks. ts_getByIndexOf name obj st = (map (\<lambda>k. the (jm_get (ts_items st) k)) ks, None) \<and> distinct ks \<and>
    set ks = {k. \<exists>v \<in> set (fst (f obj)). has_value f v st k}"
proof -
  obtain ks where ks: "getKeysFromIndex name obj (ts_index st) = (ks, None)" "distinct ks"
      "set ks = {k. \<exists>v \<in> set (fst (f obj)). has_value f v st k}"
    using getKeysFromIndex_spec [OF assms] by blast
  then have "present_items ks st = map (\<lambda>k. the (jm_get (ts_items st) k)) ks"
    unfolding present_items_def by (intro present_items_all) (auto simp: has_value_def split: option.splits)
  then have "ts_getByIndexOf name obj st = (map (\<lambda>k. the (jm_get (ts_items st) k)) ks, None)"
    using ks(1) by (simp add: ts_getByIndexOf_def)
  with ks(2,3) show ?thesis by blast
qed

section \<open>Properties\<close>

text \<open>
  C26. After any sequence of operations on a new store, on objects where no index function fails, the
  items are what the operations wrote, and every index query answers exactly: \<open>indexKeys\<close> lists each key
  whose item has the value, once, \<open>byIndex\<close> those items, and \<open>listIndexFuncValues\<close> the values in use.
\<close>

theorem store_indices:
  assumes "jm_ok ix" and "indexers_total ix A" and "\<forall>p \<in> set ops. op_ok A p"
    and "st = run_ops rv ops (new_thread_safe_map ix)" and "jm_get (si_indexers (ts_index st)) name = Some f"
  shows "ts_items st = fold op_items ops [] \<and>
    (\<exists>ks. ts_indexKeys name v st = (ks, None) \<and> distinct ks \<and> set ks = {k. has_value f v st k} \<and>
      ts_byIndex name v st = (map (\<lambda>k. the (jm_get (ts_items st) k)) ks, None)) \<and>
    distinct (ts_listIndexFuncValues name st) \<and> set (ts_listIndexFuncValues name st) = {v. \<exists>k. has_value f v st k}"
proof -
  have st: "store_ok A st" "ts_items st = fold op_items ops []"
    using run_ops_spec [OF new_store_ok [OF assms(1,2)] assms(3)] assms(4) by (auto simp: new_thread_safe_map_def)
  show ?thesis using reads_spec [OF st(1) assms(5)] getIndexValues_spec [OF st(1) assms(5)] st(2)
    by (simp add: ts_listIndexFuncValues_def)
qed

definition first_char :: "string index_func" where
  "first_char s = (case s of [] \<Rightarrow> ([], None) | c # _ \<Rightarrow> ([[c]], None))"

lemma first_char_total: "indexers_total [(''c'', first_char)] UNIV"
  by (simp add: indexers_total_def first_char_def split: list.split)

lemma store_indices_witness:
  "\<exists>ks. ts_indexKeys ''c'' ''x'' (run_ops (\<lambda>_. None)
       [OpAdd ''1'' ''xy'', OpAdd ''2'' ''z'', OpUpdate ''2'' ''x'', OpDelete ''1'' None]
       (new_thread_safe_map [(''c'', first_char)])) = (ks, None) \<and> distinct ks"
  using store_indices [OF _ first_char_total _ refl, where
      ops = "[OpAdd ''1'' ''xy'', OpAdd ''2'' ''z'', OpUpdate ''2'' ''x'', OpDelete ''1'' None]"
      and name = "''c''" and rv = "\<lambda>_. None" and f = first_char and v = "''x''"]
  by (force simp: new_thread_safe_map_def ts_add_def ts_update_def updateLocked_def updateIndices_def
      updateSingleIndex_def index_values_def first_char_def ts_deleteWithObject_def deleteLocked_def set_rv_def Let_def)

text \<open>
  A step of any operation from a good store, on objects where no index function fails, returns no error but a
  conflict of new index names with present ones, in which case the store is as before, and keeps the store good.
\<close>

theorem store_step:
  assumes "store_ok A st" and "op_ok A p"
  shows "run_op rv p st = (op_error p st, snd (run_op rv p st)) \<and> store_ok A (snd (run_op rv p st)) \<and>
    (op_error p st \<noteq> None \<longrightarrow> snd (run_op rv p st) = st)"
proof -
  have "snd (run_op rv p st) = st" if "op_error p st \<noteq> None"
    using that ts_addIndexers_conflict [of _ st]
    by (cases p) (auto simp: op_error_def Let_def split: if_splits)
  with run_op_spec [OF assms, of rv] show ?thesis by (metis prod.collapse)
qed

lemma store_step_witness:
  "snd (run_op (\<lambda>_. None) (OpAddIndexers [(''c'', first_char)]) (new_thread_safe_map [(''c'', first_char)])) =
     new_thread_safe_map [(''c'', first_char)]"
  using store_step [OF new_store_ok [OF _ first_char_total], of "OpAddIndexers [(''c'', first_char)]" "\<lambda>_. None"]
  by (simp add: first_char_total op_error_def indexer_conflicts_def new_thread_safe_map_def)

text \<open>
  C29. Queries for what is like an object: after any sequence of operations on a new store, with index functions
  that do not fail on the objects written and asked for, \<open>index(name, obj)\<close> lists exactly the stored items that
  share a value of the index with the object, each key once. A query of an index that is not there is an error
  with no results.
\<close>

theorem store_query:
  assumes "jm_ok ix" and "indexers_total ix A" and "\<forall>p \<in> set ops. op_ok A p"
    and "st = run_ops rv ops (new_thread_safe_map ix)" and "obj \<in> A"
  shows "case jm_get (si_indexers (ts_index st)) name of
     None \<Rightarrow> ts_getByIndexOf name obj st = ([], Some (no_such_index name)) \<and>
       ts_byIndex name v st = ([], Some (no_such_index name)) \<and>
       ts_indexKeys name v st = ([], Some (no_such_index name))
   | Some f \<Rightarrow>
       (\<exists>ks. ts_getByIndexOf name obj st = (map (\<lambda>k. the (jm_get (ts_items st) k)) ks, None) \<and> distinct ks \<and>
         set ks = {k. \<exists>x. jm_get (ts_items st) k = Some x \<and> set (fst (f obj)) \<inter> set (fst (f x)) \<noteq> {}})"
proof -
  have ok: "store_ok A st"
    using run_ops_spec [OF new_store_ok [OF assms(1,2)] assms(3)] assms(4) by blast
  have like: "{k. \<exists>v \<in> set (fst (f obj)). has_value f v st k} =
      {k. \<exists>x. jm_get (ts_items st) k = Some x \<and> set (fst (f obj)) \<inter> set (fst (f x)) \<noteq> {}}" for f
    by (auto simp: has_value_def split: option.splits)
  show ?thesis
    using ts_getByIndexOf_spec [OF ok _ assms(5), of name] unfolding like
    by (simp add: ts_getByIndexOf_def ts_byIndex_def ts_indexKeys_def getKeysFromIndex_def getKeysByIndex_def
        split: option.split)
qed

lemma store_query_witness:
  "\<exists>ks. ts_getByIndexOf ''c'' ''xz'' (run_ops (\<lambda>_. None) [OpAdd ''1'' ''xy'', OpAdd ''2'' ''z''] (new_thread_safe_map [(''c'', first_char)])) =
     (map (\<lambda>k. if k = ''1'' then ''xy'' else ''z'') ks, None) \<and> set ks = {''1''}"
proof -
  obtain st where def_st: "st = run_ops (\<lambda>_. None) [OpAdd ''1'' ''xy'', OpAdd ''2'' ''z''] (new_thread_safe_map [(''c'', first_char)])"
    by blast
  have st: "jm_get (ts_items st) = [''1'' \<mapsto> ''xy'', ''2'' \<mapsto> ''z'']" "jm_get (si_indexers (ts_index st)) ''c'' = Some first_char"
    by (simp_all add: def_st fun_eq_iff new_thread_safe_map_def ts_add_def ts_update_def updateLocked_def updateIndices_def
        updateSingleIndex_def index_values_def first_char_def set_rv_def Let_def)
  have "set (fst (first_char ''xz'')) \<inter> set (fst (first_char x)) \<noteq> {} \<longleftrightarrow> (\<exists>t. x = CHR ''x'' # t)" for x
    by (auto simp: first_char_def split: list.splits)
  then have like: "{k. \<exists>x. ([''1'' \<mapsto> ''xy'', ''2'' \<mapsto> ''z''] k) = Some x \<and> set (fst (first_char ''xz'')) \<inter> set (fst (first_char x)) \<noteq> {}} = {''1''}"
    by (auto split: if_splits)
  have ok: "jm_ok [(''c'', first_char)]" "\<forall>p \<in> set [OpAdd ''1'' ''xy'', OpAdd ''2'' ''z'']. op_ok UNIV p" "''xz'' \<in> UNIV" by simp_all
  from store_query [OF ok(1) first_char_total ok(2) def_st ok(3), of "''c''" "''x''"]
  obtain ks where ks: "ts_getByIndexOf ''c'' ''xz'' st = (map (\<lambda>k. the (([''1'' \<mapsto> ''xy'', ''2'' \<mapsto> ''z'']) k)) ks, None)" "set ks = {''1''}"
    unfolding st option.case like by blast
  have "map (\<lambda>k. the (([''1'' \<mapsto> ''xy'', ''2'' \<mapsto> ''z'']) k)) ks = map (\<lambda>k. if k = ''1'' then ''xy'' else ''z'') ks"
    using ks(2) by simp
  then show ?thesis using ks unfolding def_st by metis
qed

end
