(* ===== verification/Cache.thy ===== *)
theory Cache
  imports ThreadSafeStore
begin

text \<open>
  The clients of \<open>ThreadSafeStore\<close>: \<open>Cache\<close> of \<open>src/client-go/tools/cache/store.ts\<close> and
  \<open>ExpirationCache\<close> of \<open>expiration-cache.ts\<close>. Both are written over the interface \<open>ThreadSafeStore\<close>, a
  record of operations here; its contract is a locale, interpreted on \<open>ThreadSafeMap\<close>. The part of an
  asynchronous method after its last \<open>await\<close> is one step: before it nothing is changed. A rejected
  promise is the error \<open>Thrown\<close>. A synchronous call of the expiration cache reads one clock value.
\<close>

section \<open>The interface ThreadSafeStore\<close>

record ('o, 's) store_ops =
  so_add :: "string \<Rightarrow> 'o \<Rightarrow> 's \<Rightarrow> js_error option \<times> 's"
  so_update :: "string \<Rightarrow> 'o \<Rightarrow> 's \<Rightarrow> js_error option \<times> 's"
  so_delete :: "string \<Rightarrow> 's \<Rightarrow> js_error option \<times> 's"
  so_deleteWithObject :: "string \<Rightarrow> 'o option \<Rightarrow> 's \<Rightarrow> js_error option \<times> 's"
  so_get :: "string \<Rightarrow> 's \<Rightarrow> 'o option \<times> bool"
  so_list :: "'s \<Rightarrow> 'o list"
  so_listKeys :: "'s \<Rightarrow> string list"
  so_replace :: "(string, 'o) jmap \<Rightarrow> string \<Rightarrow> 's \<Rightarrow> js_error option \<times> 's"

definition ts_ops :: "('o \<Rightarrow> string option) \<Rightarrow> ('o, 'o thread_safe_map) store_ops" where
  "ts_ops rv = \<lparr>so_add = ts_add rv, so_update = ts_update rv, so_delete = ts_delete,
     so_deleteWithObject = ts_deleteWithObject rv, so_get = ts_get, so_list = ts_list,
     so_listKeys = ts_listKeys, so_replace = ts_replace\<rparr>"

locale store_contract =
  fixes ops :: "('o, 's) store_ops" and ok :: "'s \<Rightarrow> bool" and contents :: "'s \<Rightarrow> (string, 'o) jmap" and A :: "'o set"
  assumes contents_ok: "ok s \<Longrightarrow> jm_ok (contents s)"
    and add_law: "ok s \<Longrightarrow> x \<in> A \<Longrightarrow>
      \<exists>s'. so_add ops k x s = (None, s') \<and> ok s' \<and> contents s' = jm_set k x (contents s)"
    and update_law: "ok s \<Longrightarrow> x \<in> A \<Longrightarrow>
      \<exists>s'. so_update ops k x s = (None, s') \<and> ok s' \<and> contents s' = jm_set k x (contents s)"
    and delete_law: "ok s \<Longrightarrow> \<exists>s'. so_delete ops k s = (None, s') \<and> ok s' \<and> contents s' = jm_del k (contents s)"
    and delete_object_law: "ok s \<Longrightarrow>
      \<exists>s'. so_deleteWithObject ops k obj s = (None, s') \<and> ok s' \<and> contents s' = jm_del k (contents s)"
    and get_law: "so_get ops k s = (jm_get (contents s) k, jm_get (contents s) k \<noteq> None)"
    and list_law: "so_list ops s = jm_values (contents s)"
    and keys_law: "so_listKeys ops s = jm_keys (contents s)"
    and replace_law: "ok s \<Longrightarrow> jm_ok items \<Longrightarrow> set (jm_values items) \<subseteq> A \<Longrightarrow>
      \<exists>s'. so_replace ops items r s = (None, s') \<and> ok s' \<and> contents s' = items"

interpretation indexed: store_contract "ts_ops rv" "store_ok A" ts_items A for rv A
proof
  fix s and x :: 'a and k
  assume s: "store_ok A s" and x: "x \<in> A"
  show "\<exists>s'. so_add (ts_ops rv) k x s = (None, s') \<and> store_ok A s' \<and> ts_items s' = jm_set k x (ts_items s)"
    "\<exists>s'. so_update (ts_ops rv) k x s = (None, s') \<and> store_ok A s' \<and> ts_items s' = jm_set k x (ts_items s)"
    using updateLocked_spec [OF s x, of k] by (auto simp: ts_ops_def ts_add_def ts_update_def)
next
  fix s and k obj
  assume s: "store_ok A s"
  show "\<exists>s'. so_delete (ts_ops rv) k s = (None, s') \<and> store_ok A s' \<and> ts_items s' = jm_del k (ts_items s)"
    "\<exists>s'. so_deleteWithObject (ts_ops rv) k obj s = (None, s') \<and> store_ok A s' \<and> ts_items s' = jm_del k (ts_items s)"
    using deleteLocked_spec [OF s, of k] by (auto simp: ts_ops_def ts_delete_def ts_deleteWithObject_def split: option.split)
next
  fix s and items :: "(string, 'a) jmap" and r
  assume "store_ok A s" "jm_ok items" "set (jm_values items) \<subseteq> A"
  then show "\<exists>s'. so_replace (ts_ops rv) items r s = (None, s') \<and> store_ok A s' \<and> ts_items s' = items"
    using ts_replace_spec [of A s items r] by (auto simp: ts_ops_def)
qed (auto simp: ts_ops_def ts_get_def ts_list_def ts_listKeys_def store_ok_def Let_def)

section \<open>Cache\<close>

datatype 'o cache_error = KeyError "'o keyed" js_error | CacheError js_error | Thrown js_error

record 'o cache_conf =
  cc_keyFunc :: "'o keyed \<Rightarrow> string \<times> js_error option"
  cc_transformer :: "('o \<Rightarrow> 'o \<times> js_error option) option"

definition store_result :: "js_error option \<times> 's \<Rightarrow> 'o cache_error option \<times> 's" where
  "store_result r = (map_option Thrown (fst r), snd r)"

text \<open>The key and the transformed object, as \<open>add\<close>, \<open>update\<close> and \<open>replace\<close> compute them.\<close>

definition cache_entry :: "'o cache_conf \<Rightarrow> 'o \<Rightarrow> 'o cache_error + string \<times> 'o" where
  "cache_entry c obj =
     (case cc_keyFunc c (Object obj) of
        (k, Some err) \<Rightarrow> Inl (KeyError (Object obj) err)
      | (k, None) \<Rightarrow>
          (case cc_transformer c of
             None \<Rightarrow> Inr (k, obj)
           | Some f \<Rightarrow>
               (case f obj of
                  (obj', Some err) \<Rightarrow> Inl (CacheError (PlainError (''transforming: '' @ error_string err)))
                | (obj', None) \<Rightarrow> Inr (k, obj'))))"

definition cache_add :: "('o, 's) store_ops \<Rightarrow> 'o cache_conf \<Rightarrow> 'o \<Rightarrow> 's \<Rightarrow> 'o cache_error option \<times> 's" where
  "cache_add ops c obj s =
     (case cache_entry c obj of
        Inl err \<Rightarrow> (Some err, s)
      | Inr (k, obj') \<Rightarrow> store_result (so_add ops k obj' s))"

definition cache_update :: "('o, 's) store_ops \<Rightarrow> 'o cache_conf \<Rightarrow> 'o \<Rightarrow> 's \<Rightarrow> 'o cache_error option \<times> 's" where
  "cache_update ops c obj s =
     (case cache_entry c obj of
        Inl err \<Rightarrow> (Some err, s)
      | Inr (k, obj') \<Rightarrow> store_result (so_update ops k obj' s))"

definition cache_delete :: "('o, 's) store_ops \<Rightarrow> 'o cache_conf \<Rightarrow> 'o \<Rightarrow> 's \<Rightarrow> 'o cache_error option \<times> 's" where
  "cache_delete ops c obj s =
     (case cc_keyFunc c (Object obj) of
        (k, Some err) \<Rightarrow> (Some (KeyError (Object obj) err), s)
      | (k, None) \<Rightarrow> store_result (so_deleteWithObject ops k (Some obj) s))"

definition cache_getByKey :: "('o, 's) store_ops \<Rightarrow> string \<Rightarrow> 's \<Rightarrow> 'o option \<times> bool \<times> 'o cache_error option" where
  "cache_getByKey ops k s = (case so_get ops k s of (item, present) \<Rightarrow> (item, present, None))"

definition cache_get ::
  "('o, 's) store_ops \<Rightarrow> 'o cache_conf \<Rightarrow> 'o keyed \<Rightarrow> 's \<Rightarrow> 'o option \<times> bool \<times> 'o cache_error option" where
  "cache_get ops c obj s =
     (case cc_keyFunc c obj of
        (k, Some err) \<Rightarrow> (None, False, Some (KeyError obj err))
      | (k, None) \<Rightarrow> cache_getByKey ops k s)"

fun cache_items :: "'o cache_conf \<Rightarrow> 'o list \<Rightarrow> (string, 'o) jmap \<Rightarrow> 'o cache_error + (string, 'o) jmap" where
  "cache_items c [] items = Inr items"
| "cache_items c (x # xs) items =
     (case cache_entry c x of
        Inl err \<Rightarrow> Inl err
      | Inr (k, obj) \<Rightarrow> cache_items c xs (jm_set k obj items))"

definition cache_replace ::
  "('o, 's) store_ops \<Rightarrow> 'o cache_conf \<Rightarrow> 'o list \<Rightarrow> string \<Rightarrow> 's \<Rightarrow> 'o cache_error option \<times> 's" where
  "cache_replace ops c xs r s =
     (case cache_items c xs [] of
        Inl err \<Rightarrow> (Some err, s)
      | Inr items \<Rightarrow> store_result (so_replace ops items r s))"

definition cache_list :: "('o, 's) store_ops \<Rightarrow> 's \<Rightarrow> 'o list" where
  "cache_list ops s = so_list ops s"

definition cache_listKeys :: "('o, 's) store_ops \<Rightarrow> 's \<Rightarrow> string list" where
  "cache_listKeys ops s = so_listKeys ops s"

section \<open>UndeltaStore\<close>

text \<open>\<open>undelta_store.ts\<close>: after a change without error the whole list is pushed (the second component).\<close>

definition undelta_push :: "('o, 's) store_ops \<Rightarrow> 'o cache_error option \<times> 's \<Rightarrow> 'o cache_error option \<times> 'o list option \<times> 's" where
  "undelta_push ops r = (case r of (Some err, s) \<Rightarrow> (Some err, None, s) | (None, s) \<Rightarrow> (None, Some (cache_list ops s), s))"

definition undelta_add where
  "undelta_add ops c obj s = undelta_push ops (cache_add ops c obj s)"

definition undelta_update where
  "undelta_update ops c obj s = undelta_push ops (cache_update ops c obj s)"

definition undelta_delete where
  "undelta_delete ops c obj s = undelta_push ops (cache_delete ops c obj s)"

definition undelta_replace where
  "undelta_replace ops c xs r s = undelta_push ops (cache_replace ops c xs r s)"

section \<open>ExpirationCache\<close>

record 'o timestamped =
  te_obj :: 'o
  te_timestamp :: int
  te_key :: string

text \<open>\<open>TTLPolicy.isExpired\<close> at the clock value \<open>now\<close>.\<close>

definition ttl_expired :: "int \<Rightarrow> int \<Rightarrow> 'o timestamped \<Rightarrow> bool" where
  "ttl_expired ttl now e \<longleftrightarrow> ttl > 0 \<and> now - te_timestamp e > ttl"

definition getOrExpire :: "('o timestamped, 's) store_ops \<Rightarrow> ('o timestamped \<Rightarrow> bool) \<Rightarrow> string \<Rightarrow> 's \<Rightarrow>
    js_error option \<times> 'o option \<times> 's" where
  "getOrExpire ops isExpired k s =
     (case so_get ops k s of
        (Some e, True) \<Rightarrow>
          (if isExpired e then case so_delete ops k s of (err, s') \<Rightarrow> (err, None, s')
           else (None, Some (te_obj e), s))
      | _ \<Rightarrow> (None, None, s))"

fun exp_list_loop :: "('o timestamped, 's) store_ops \<Rightarrow> ('o timestamped \<Rightarrow> bool) \<Rightarrow> 'o timestamped list \<Rightarrow> 's \<Rightarrow>
    js_error option \<times> 'o list \<times> 's" where
  "exp_list_loop ops isExpired [] s = (None, [], s)"
| "exp_list_loop ops isExpired (e # es) s =
     (case getOrExpire ops isExpired (te_key e) s of
        (Some err, _, s') \<Rightarrow> (Some err, [], s')
      | (None, obj, s') \<Rightarrow>
          (case exp_list_loop ops isExpired es s' of
             (err, xs, s'') \<Rightarrow> (err, (case obj of None \<Rightarrow> xs | Some x \<Rightarrow> x # xs), s'')))"

definition exp_list :: "('o timestamped, 's) store_ops \<Rightarrow> ('o timestamped \<Rightarrow> bool) \<Rightarrow> 's \<Rightarrow> js_error option \<times> 'o list \<times> 's" where
  "exp_list ops isExpired s = exp_list_loop ops isExpired (so_list ops s) s"

definition exp_add :: "('o timestamped, 's) store_ops \<Rightarrow> ('o keyed \<Rightarrow> string \<times> js_error option) \<Rightarrow> int \<Rightarrow> 'o \<Rightarrow> 's \<Rightarrow>
    'o cache_error option \<times> 's" where
  "exp_add ops keyFunc now obj s =
     (case keyFunc (Object obj) of
        (k, Some err) \<Rightarrow> (Some (KeyError (Object obj) err), s)
      | (k, None) \<Rightarrow> store_result (so_add ops k \<lparr>te_obj = obj, te_timestamp = now, te_key = k\<rparr> s))"

definition exp_delete :: "('o timestamped, 's) store_ops \<Rightarrow> ('o keyed \<Rightarrow> string \<times> js_error option) \<Rightarrow> int \<Rightarrow> 'o \<Rightarrow> 's \<Rightarrow>
    'o cache_error option \<times> 's" where
  "exp_delete ops keyFunc now obj s =
     (case keyFunc (Object obj) of
        (k, Some err) \<Rightarrow> (Some (KeyError (Object obj) err), s)
      | (k, None) \<Rightarrow> store_result (so_deleteWithObject ops k (Some \<lparr>te_obj = obj, te_timestamp = now, te_key = k\<rparr>) s))"

definition exp_get :: "('o timestamped, 's) store_ops \<Rightarrow> ('o keyed \<Rightarrow> string \<times> js_error option) \<Rightarrow> ('o timestamped \<Rightarrow> bool) \<Rightarrow>
    'o keyed \<Rightarrow> 's \<Rightarrow> 'o cache_error option \<times> 'o option \<times> 's" where
  "exp_get ops keyFunc isExpired obj s =
     (case keyFunc obj of
        (k, Some err) \<Rightarrow> (Some (KeyError obj err), None, s)
      | (k, None) \<Rightarrow> (case getOrExpire ops isExpired k s of (err, x, s') \<Rightarrow> (map_option Thrown err, x, s')))"

fun exp_items :: "('o keyed \<Rightarrow> string \<times> js_error option) \<Rightarrow> int \<Rightarrow> 'o list \<Rightarrow> (string, 'o timestamped) jmap \<Rightarrow>
    'o cache_error + (string, 'o timestamped) jmap" where
  "exp_items keyFunc ts [] items = Inr items"
| "exp_items keyFunc ts (x # xs) items =
     (case keyFunc (Object x) of
        (k, Some err) \<Rightarrow> Inl (KeyError (Object x) err)
      | (k, None) \<Rightarrow> exp_items keyFunc ts xs (jm_set k \<lparr>te_obj = x, te_timestamp = ts, te_key = k\<rparr> items))"

definition exp_replace :: "('o timestamped, 's) store_ops \<Rightarrow> ('o keyed \<Rightarrow> string \<times> js_error option) \<Rightarrow> int \<Rightarrow> 'o list \<Rightarrow> string \<Rightarrow> 's \<Rightarrow>
    'o cache_error option \<times> 's" where
  "exp_replace ops keyFunc ts xs r s =
     (case exp_items keyFunc ts xs [] of
        Inl err \<Rightarrow> (Some err, s)
      | Inr items \<Rightarrow> store_result (so_replace ops items r s))"

section \<open>Clients of the contract\<close>

text \<open>Every entry of the expiration cache is stored under its own key.\<close>

definition keyed_ok :: "(string, 'o timestamped) jmap \<Rightarrow> bool" where
  "keyed_ok m \<longleftrightarrow> (\<forall>(k, e) \<in> set m. te_key e = k)"

lemma cache_items_ok: "cache_items c xs items = Inr items' \<Longrightarrow> jm_ok items \<Longrightarrow> jm_ok items'"
  by (induction xs arbitrary: items) (auto split: sum.splits)

lemma cache_items_values:
  "cache_items c xs items = Inr items' \<Longrightarrow> \<forall>x \<in> set xs. \<forall>k y. cache_entry c x = Inr (k, y) \<longrightarrow> y \<in> A \<Longrightarrow>
    set (jm_values items) \<subseteq> A \<Longrightarrow> set (jm_values items') \<subseteq> A"
proof (induction xs arbitrary: items)
  case (Cons x xs)
  from Cons.prems(1) obtain k y where e: "cache_entry c x = Inr (k, y)"
    and r: "cache_items c xs (jm_set k y items) = Inr items'" by (auto split: sum.splits)
  have "set (jm_values (jm_set k y items)) \<subseteq> A" using jm_values_set [of k y items] Cons.prems(2,3) e by auto
  with Cons.IH [OF r] Cons.prems(2) show ?case by auto
qed simp

context store_contract begin

lemma add_get:
  assumes "ok s" and "cache_entry c obj = Inr (k, x)" and "x \<in> A"
  shows "\<exists>s'. cache_add ops c obj s = (None, s') \<and> ok s' \<and> contents s' = jm_set k x (contents s) \<and>
    cache_getByKey ops k s' = (Some x, True, None) \<and>
    (\<forall>k'. k' \<noteq> k \<longrightarrow> cache_getByKey ops k' s' = cache_getByKey ops k' s)"
  using add_law [OF assms(1,3), of k] assms(2)
  by (auto simp: cache_add_def store_result_def cache_getByKey_def get_law)

lemma delete_get:
  assumes "ok s" and "cc_keyFunc c (Object obj) = (k, None)"
  shows "\<exists>s'. cache_delete ops c obj s = (None, s') \<and> ok s' \<and> contents s' = jm_del k (contents s) \<and>
    cache_getByKey ops k s' = (None, False, None)"
  using delete_object_law [OF assms(1), of k "Some obj"] assms(2)
  by (auto simp: cache_delete_def store_result_def cache_getByKey_def get_law)

lemma replace_contents:
  assumes "ok s" and "cache_items c xs [] = Inr items" and "\<forall>x \<in> set xs. \<forall>k y. cache_entry c x = Inr (k, y) \<longrightarrow> y \<in> A"
  shows "\<exists>s'. cache_replace ops c xs r s = (None, s') \<and> ok s' \<and> contents s' = items"
proof -
  have "jm_ok items" "set (jm_values items) \<subseteq> A"
    using cache_items_ok [OF assms(2)] cache_items_values [OF assms(2,3)] by auto
  from replace_law [OF assms(1) this, of r] assms(2) show ?thesis by (auto simp: cache_replace_def store_result_def)
qed

end

lemma delete_fst: "jm_del k m = filter (\<lambda>p. fst p \<noteq> k) m"
  by (induction m) auto

text \<open>A contract over timestamped entries gives the laws of the expiration cache.\<close>

locale expiring_store = store_contract ops ok contents A
  for ops :: "('o timestamped, 's) store_ops" and ok :: "'s \<Rightarrow> bool"
    and contents :: "'s \<Rightarrow> (string, 'o timestamped) jmap" and A :: "'o timestamped set"
begin

lemma get_or_expire:
  assumes "ok s" and "jm_get (contents s) k = Some e"
  shows "\<exists>s'. getOrExpire ops expired k s = (None, (if expired e then None else Some (te_obj e)), s') \<and> ok s' \<and>
    contents s' = (if expired e then jm_del k (contents s) else contents s)"
  using delete_law [OF assms(1), of k] assms by (auto simp: getOrExpire_def get_law)

lemma list_loop:
  assumes "ok s" and "distinct (map te_key es)" and "\<forall>e \<in> set es. jm_get (contents s) (te_key e) = Some e"
  shows "\<exists>s'. exp_list_loop ops expired es s = (None, map te_obj (filter (\<lambda>e. \<not> expired e) es), s') \<and> ok s' \<and>
    contents s' = filter (\<lambda>(k, e). \<not> (k \<in> te_key ` set es \<and> expired e)) (contents s)"
  using assms
proof (induction es arbitrary: s)
  case (Cons e es)
  from get_or_expire [OF Cons.prems(1), of "te_key e" e expired] Cons.prems(3) obtain s1 where
    s1: "getOrExpire ops expired (te_key e) s = (None, (if expired e then None else Some (te_obj e)), s1)" "ok s1"
      "contents s1 = (if expired e then jm_del (te_key e) (contents s) else contents s)" by auto
  have "\<forall>e' \<in> set es. te_key e' \<noteq> te_key e" using Cons.prems(2) by simp (metis image_eqI)
  then have "\<forall>e' \<in> set es. jm_get (contents s1) (te_key e') = Some e'" using Cons.prems(3) s1(3) by simp
  with Cons.IH [OF s1(2)] Cons.prems(2) obtain s2 where
    s2: "exp_list_loop ops expired es s1 = (None, map te_obj (filter (\<lambda>e. \<not> expired e) es), s2)" "ok s2"
      "contents s2 = filter (\<lambda>(k, e). \<not> (k \<in> te_key ` set es \<and> expired e)) (contents s1)"
    unfolding list.map distinct.simps by blast
  have e: "(te_key e, e') \<in> set (contents s) \<Longrightarrow> e' = e" for e'
    using Cons.prems(3) jm_get_mem [OF contents_ok [OF Cons.prems(1)], of "te_key e" e'] by simp
  let ?Q = "\<lambda>p. (expired e \<longrightarrow> fst p \<noteq> te_key e) \<and> \<not> (fst p \<in> te_key ` set es \<and> expired (snd p))"
  have q: "?Q p = (\<not> (fst p \<in> te_key ` set (e # es) \<and> expired (snd p)))" if "p \<in> set (contents s)" for p
  proof (cases "fst p = te_key e")
    case True
    with that have "(te_key e, snd p) \<in> set (contents s)" by (metis prod.collapse)
    then have "snd p = e" by (rule e)
    with True show ?thesis by auto
  qed simp
  have "contents s1 = filter (\<lambda>p. expired e \<longrightarrow> fst p \<noteq> te_key e) (contents s)"
    unfolding s1(3) by (auto simp: delete_fst)
  then have "contents s2 = filter ?Q (contents s)"
    unfolding s2(3) by (simp add: case_prod_unfold conj_commute)
  also have "\<dots> = filter (\<lambda>p. \<not> (fst p \<in> te_key ` set (e # es) \<and> expired (snd p))) (contents s)"
    by (rule filter_cong [OF refl q])
  finally have "contents s2 = filter (\<lambda>(k, e'). \<not> (k \<in> te_key ` set (e # es) \<and> expired e')) (contents s)"
    unfolding case_prod_unfold .
  with s1(1) s2(1,2) show ?case by auto
qed (simp add: filter_id_conv)

lemma list_unexpired:
  assumes "ok s" and "keyed_ok (contents s)"
  shows "\<exists>s'. exp_list ops expired s =
      (None, map (te_obj \<circ> snd) (filter (\<lambda>(k, e). \<not> expired e) (contents s)), s') \<and> ok s' \<and>
    contents s' = filter (\<lambda>(k, e). \<not> expired e) (contents s)"
proof -
  let ?es = "jm_values (contents s)"
  have k: "map te_key ?es = jm_keys (contents s)" using assms(2) by (auto simp: keyed_ok_def)
  have "distinct (map te_key ?es)" unfolding k by (rule contents_ok [OF assms(1)])
  moreover have "\<forall>e \<in> set ?es. jm_get (contents s) (te_key e) = Some e"
    using assms(2) contents_ok [OF assms(1)] by (auto simp: keyed_ok_def jm_get_mem)
  ultimately obtain s' where s': "exp_list_loop ops expired ?es s = (None, map te_obj (filter (\<lambda>e. \<not> expired e) ?es), s')"
      "ok s'" "contents s' = filter (\<lambda>(k, e). \<not> (k \<in> te_key ` set ?es \<and> expired e)) (contents s)"
    using list_loop [OF assms(1)] by blast
  have "k \<in> te_key ` set ?es" if "(k, e) \<in> set (contents s)" for k e
    using that assms(2) by (force simp: keyed_ok_def)
  then have "contents s' = filter (\<lambda>(k, e). \<not> expired e) (contents s)"
    unfolding s'(3) by (auto intro!: filter_cong)
  moreover have "map te_obj (filter (\<lambda>e. \<not> expired e) ?es) = map (te_obj \<circ> snd) (filter (\<lambda>(k, e). \<not> expired e) (contents s))"
    by (simp add: filter_map comp_def case_prod_unfold)
  ultimately show ?thesis using s'(1,2) by (auto simp: exp_list_def list_law)
qed

end

interpretation expiring: expiring_store "ts_ops rv" "store_ok A" ts_items A for rv A ..

lemma exp_items_keyed: "exp_items keyFunc ts xs items = Inr items' \<Longrightarrow> keyed_ok items \<Longrightarrow> keyed_ok items'"
proof (induction xs arbitrary: items)
  case (Cons x xs)
  from Cons.prems(1) obtain k where "exp_items keyFunc ts xs (jm_set k \<lparr>te_obj = x, te_timestamp = ts, te_key = k\<rparr> items) = Inr items'"
    by (auto split: prod.splits option.splits)
  moreover have "keyed_ok (jm_set k \<lparr>te_obj = x, te_timestamp = ts, te_key = k\<rparr> items)"
    using Cons.prems(2) by (auto simp: keyed_ok_def dest!: jm_set_mem)
  ultimately show ?case by (rule Cons.IH)
qed simp

section \<open>Properties\<close>

text \<open>
  A cache over the indexed store answers reads by key with what was added last: after \<open>add\<close> of an
  object whose key and transformation do not fail, \<open>getByKey\<close> returns the transformed object under that
  key and every other key is as before; when the key function or the transformer fails nothing changes.
\<close>

theorem cache_add_get:
  assumes "store_ok A s" and "\<forall>k x. cache_entry c obj = Inr (k, x) \<longrightarrow> x \<in> A"
  shows "case cache_entry c obj of
      Inl err \<Rightarrow> cache_add (ts_ops rv) c obj s = (Some err, s)
    | Inr (k, x) \<Rightarrow> (\<exists>s'. cache_add (ts_ops rv) c obj s = (None, s') \<and> store_ok A s' \<and>
        cache_getByKey (ts_ops rv) k s' = (Some x, True, None) \<and>
        (\<forall>k'. k' \<noteq> k \<longrightarrow> cache_getByKey (ts_ops rv) k' s' = cache_getByKey (ts_ops rv) k' s))"
proof (cases "cache_entry c obj")
  case (Inl err)
  then show ?thesis by (simp add: cache_add_def)
next
  case (Inr e)
  obtain k x where e: "e = (k, x)" by (cases e)
  with Inr assms(2) have "x \<in> A" by simp
  from indexed.add_get [OF assms(1) Inr [unfolded e] this, of rv] show ?thesis unfolding Inr e by auto
qed

lemma cache_add_get_witness:
  "\<exists>s'. cache_add (ts_ops (\<lambda>_. None)) \<lparr>cc_keyFunc = \<lambda>_. (''k'', None), cc_transformer = None\<rparr> ''x''
      (new_thread_safe_map [(''c'', first_char)]) = (None, s') \<and> cache_getByKey (ts_ops (\<lambda>_. None)) ''k'' s' = (Some ''x'', True, None)"
  using cache_add_get [OF new_store_ok [OF _ first_char_total], of "\<lparr>cc_keyFunc = \<lambda>_. (''k'', None), cc_transformer = None\<rparr>" "''x''" "\<lambda>_. None"]
  by (auto simp: cache_entry_def)

text \<open>
  Listing an expiration cache returns the objects of exactly the entries that have not expired, in
  the order of the store, and removes exactly the expired entries from it.
\<close>

theorem expiration_list:
  assumes "store_ok A s" and "keyed_ok (ts_items s)"
  shows "\<exists>s'. exp_list (ts_ops rv) (ttl_expired ttl now) s =
      (None, map (te_obj \<circ> snd) (filter (\<lambda>(k, e). ttl \<le> 0 \<or> now - te_timestamp e \<le> ttl) (ts_items s)), s') \<and>
    store_ok A s' \<and> ts_items s' = filter (\<lambda>(k, e). ttl \<le> 0 \<or> now - te_timestamp e \<le> ttl) (ts_items s)"
  using expiring.list_unexpired [OF assms, of rv "ttl_expired ttl now"]
  by (simp add: ttl_expired_def not_less de_Morgan_conj)

lemma expiration_list_witness:
  "\<exists>s'. exp_list (ts_ops (\<lambda>_. None)) (ttl_expired 5 10) (snd (exp_add (ts_ops (\<lambda>_. None)) (\<lambda>_. (''k'', None)) 3 ''x'' (new_thread_safe_map [])))
     = (None, [], s') \<and> ts_items s' = []"
proof -
  let ?s = "snd (exp_add (ts_ops (\<lambda>_. None)) (\<lambda>_. (''k'', None)) 3 ''x'' (new_thread_safe_map []))"
  have i: "ts_items ?s = [(''k'', \<lparr>te_obj = ''x'', te_timestamp = 3, te_key = ''k''\<rparr>)]" and "store_ok UNIV ?s"
    by (simp_all add: exp_add_def store_result_def ts_ops_def ts_add_def ts_update_def updateLocked_def
        updateIndices_def new_thread_safe_map_def store_ok_def indices_ok_def indexers_total_def index_of_def Let_def)
  moreover from i have "keyed_ok (ts_items ?s)" by (simp add: keyed_ok_def)
  ultimately show ?thesis using expiration_list [of UNIV ?s "\<lambda>_. None" 5 10] by fastforce
qed

end
