(* ===== verification/Fifo.thy ===== *)
theory Fifo
  imports Cache
begin

text \<open>
  \<open>src/client-go/tools/cache/fifo.ts\<close>: the producer-consumer queue \<open>FIFO\<close>. Every operation below is the
  code of one method under its lock; \<open>pop\<close> keeps the lock while it processes the item, so a call of it
  is one step unless it has to wait (\<open>PopWaits\<close>, the state at \<open>cond.wait()\<close>). The channel \<open>synced\<close> is
  its closed flag. The lemmas show that no stored item is ever lost and when the queue has synced.
\<close>

record 'o fifo =
  fi_items :: "(string, 'o) jmap"
  fi_queue :: "string list"
  fi_populated :: bool
  fi_initialPopulationCount :: nat
  fi_closed :: bool
  fi_synced :: bool
  fi_rv :: string

definition new_fifo :: "'o fifo" where
  "new_fifo = \<lparr>fi_items = [], fi_queue = [], fi_populated = False, fi_initialPopulationCount = 0,
     fi_closed = False, fi_synced = False, fi_rv = []\<rparr>"

definition fifo_checkSynced :: "'o fifo \<Rightarrow> 'o fifo" where
  "fifo_checkSynced s =
     (let synced = fi_populated s \<and> fi_initialPopulationCount s = 0 in
      if synced \<and> \<not> fi_synced s then s\<lparr>fi_synced := True\<rparr> else s)"

definition fifo_close :: "'o fifo \<Rightarrow> 'o fifo" where
  "fifo_close s = s\<lparr>fi_closed := True\<rparr>"

definition fifo_add :: "('o keyed \<Rightarrow> string \<times> js_error option) \<Rightarrow> 'o \<Rightarrow> 'o fifo \<Rightarrow> 'o cache_error option \<times> 'o fifo" where
  "fifo_add keyFunc obj s =
     (case keyFunc (Object obj) of
        (i, Some err) \<Rightarrow> (Some (KeyError (Object obj) err), s)
      | (i, None) \<Rightarrow>
          (let s = fifo_checkSynced (s\<lparr>fi_populated := True\<rparr>);
               s = (if jm_has (fi_items s) i then s else s\<lparr>fi_queue := fi_queue s @ [i]\<rparr>)
           in (None, s\<lparr>fi_items := jm_set i obj (fi_items s)\<rparr>)))"

definition fifo_delete :: "('o keyed \<Rightarrow> string \<times> js_error option) \<Rightarrow> 'o \<Rightarrow> 'o fifo \<Rightarrow> 'o cache_error option \<times> 'o fifo" where
  "fifo_delete keyFunc obj s =
     (case keyFunc (Object obj) of
        (i, Some err) \<Rightarrow> (Some (KeyError (Object obj) err), s)
      | (i, None) \<Rightarrow>
          (let s = fifo_checkSynced (s\<lparr>fi_populated := True\<rparr>)
           in (None, s\<lparr>fi_items := jm_del i (fi_items s)\<rparr>)))"

datatype 'o popped = PopWaits | PopClosed | Popped 'o bool "js_error option"

fun pop_loop :: "('o \<Rightarrow> bool \<Rightarrow> js_error option) \<Rightarrow> string list \<Rightarrow> 'o fifo \<Rightarrow> 'o popped \<times> 'o fifo" where
  "pop_loop process [] s = (if fi_closed s then PopClosed else PopWaits, s\<lparr>fi_queue := []\<rparr>)"
| "pop_loop process (i # q) s =
     (let isInInitialList = \<not> fi_synced s;
          shouldCheckSynced = fi_initialPopulationCount s > 0;
          s = s\<lparr>fi_queue := q,
                fi_initialPopulationCount := (if shouldCheckSynced then fi_initialPopulationCount s - 1
                  else fi_initialPopulationCount s)\<rparr>
      in case jm_get (fi_items s) i of
           None \<Rightarrow> pop_loop process q (if shouldCheckSynced then fifo_checkSynced s else s)
         | Some item \<Rightarrow>
             (let s = s\<lparr>fi_items := jm_del i (fi_items s)\<rparr>;
                  err = process item isInInitialList
              in (Popped item isInInitialList err, if shouldCheckSynced then fifo_checkSynced s else s)))"

definition fifo_pop :: "('o \<Rightarrow> bool \<Rightarrow> js_error option) \<Rightarrow> 'o fifo \<Rightarrow> 'o popped \<times> 'o fifo" where
  "fifo_pop process s = pop_loop process (fi_queue s) s"

fun fifo_items :: "('o keyed \<Rightarrow> string \<times> js_error option) \<Rightarrow> 'o list \<Rightarrow> (string, 'o) jmap \<Rightarrow> 'o cache_error + (string, 'o) jmap" where
  "fifo_items keyFunc [] items = Inr items"
| "fifo_items keyFunc (x # xs) items =
     (case keyFunc (Object x) of
        (k, Some err) \<Rightarrow> Inl (KeyError (Object x) err)
      | (k, None) \<Rightarrow> fifo_items keyFunc xs (jm_set k x items))"

definition fifo_replace :: "('o keyed \<Rightarrow> string \<times> js_error option) \<Rightarrow> 'o list \<Rightarrow> string \<Rightarrow> 'o fifo \<Rightarrow>
    'o cache_error option \<times> 'o fifo" where
  "fifo_replace keyFunc xs r s =
     (case fifo_items keyFunc xs [] of
        Inl err \<Rightarrow> (Some err, s)
      | Inr items \<Rightarrow>
          (let s = (if \<not> fi_populated s then
                 fifo_checkSynced (s\<lparr>fi_populated := True, fi_initialPopulationCount := length items\<rparr>) else s)
           in (None, s\<lparr>fi_items := items, fi_queue := jm_keys items, fi_rv := r\<rparr>)))"

definition fifo_resync :: "'o fifo \<Rightarrow> 'o fifo" where
  "fifo_resync s =
     (let inQueue = set (fi_queue s)
      in s\<lparr>fi_queue := fi_queue s @ filter (\<lambda>i. i \<notin> inQueue) (jm_keys (fi_items s))\<rparr>)"

definition fifo_getByKey :: "string \<Rightarrow> 'o fifo \<Rightarrow> 'o option \<times> bool \<times> 'o cache_error option" where
  "fifo_getByKey k s = (let item = jm_get (fi_items s) k in (item, item \<noteq> None, None))"

definition fifo_list :: "'o fifo \<Rightarrow> 'o list" where
  "fifo_list s = jm_values (fi_items s)"

definition fifo_bookmark :: "string \<Rightarrow> 'o fifo \<Rightarrow> 'o fifo" where
  "fifo_bookmark r s = s\<lparr>fi_rv := r\<rparr>"

section \<open>The invariant\<close>

text \<open>
  Every stored key is queued, so it will be popped; the queue has synced exactly when it is populated
  and the first population is used up.
\<close>

definition fifo_stored :: "string list \<Rightarrow> 'o fifo \<Rightarrow> bool" where
  "fifo_stored q s \<longleftrightarrow> jm_ok (fi_items s) \<and> dom (jm_get (fi_items s)) \<subseteq> set q"

definition fifo_sync :: "'o fifo \<Rightarrow> bool" where
  "fifo_sync s \<longleftrightarrow> (fi_synced s \<longleftrightarrow> fi_populated s \<and> fi_initialPopulationCount s = 0) \<and>
     (fi_initialPopulationCount s > 0 \<longrightarrow> fi_populated s)"

definition fifo_ok :: "'o fifo \<Rightarrow> bool" where
  "fifo_ok s \<longleftrightarrow> fifo_stored (fi_queue s) s \<and> fifo_sync s"

lemma checkSynced_simps [simp]:
  "fi_items (fifo_checkSynced s) = fi_items s" "fi_queue (fifo_checkSynced s) = fi_queue s"
  "fi_populated (fifo_checkSynced s) = fi_populated s" "fi_closed (fifo_checkSynced s) = fi_closed s"
  "fi_initialPopulationCount (fifo_checkSynced s) = fi_initialPopulationCount s"
  "fi_rv (fifo_checkSynced s) = fi_rv s"
  "fi_synced (fifo_checkSynced s) \<longleftrightarrow> fi_synced s \<or> fi_populated s \<and> fi_initialPopulationCount s = 0"
  by (auto simp: fifo_checkSynced_def Let_def)

lemma new_fifo_ok: "fifo_ok new_fifo"
  by (simp add: fifo_ok_def fifo_stored_def fifo_sync_def new_fifo_def)

lemma add_keeps: "fifo_ok s \<Longrightarrow> fifo_ok (snd (fifo_add keyFunc obj s))"
  by (auto simp: fifo_add_def fifo_ok_def fifo_stored_def fifo_sync_def Let_def dom_map_of_conv_image_fst jm_keys_set [simplified]
      split: prod.split option.split)

lemma delete_keeps: "fifo_ok s \<Longrightarrow> fifo_ok (snd (fifo_delete keyFunc obj s))"
  by (auto simp: fifo_delete_def fifo_ok_def fifo_stored_def fifo_sync_def Let_def dom_map_of_conv_image_fst jm_keys_del [simplified]
      split: prod.split option.split)

lemma fifo_items_ok: "fifo_items keyFunc xs items = Inr items' \<Longrightarrow> jm_ok items \<Longrightarrow> jm_ok items'"
  by (induction xs arbitrary: items) (auto split: prod.splits option.splits)

lemma replace_keeps: "fifo_ok s \<Longrightarrow> fifo_ok (snd (fifo_replace keyFunc xs r s))"
  using fifo_items_ok [of keyFunc xs "[]"]
  by (auto simp: fifo_replace_def fifo_ok_def fifo_stored_def fifo_sync_def Let_def dom_map_of_conv_image_fst split: sum.split)

lemma resync_keeps: "fifo_ok s \<Longrightarrow> fifo_ok (fifo_resync s)"
  by (auto simp: fifo_resync_def fifo_ok_def fifo_stored_def fifo_sync_def Let_def dom_map_of_conv_image_fst)

lemma other_keeps: "fifo_ok s \<Longrightarrow> fifo_ok (fifo_close s)" "fifo_ok s \<Longrightarrow> fifo_ok (fifo_bookmark r s)"
  by (simp_all add: fifo_close_def fifo_bookmark_def fifo_ok_def fifo_stored_def fifo_sync_def)

section \<open>pop\<close>

text \<open>The ids at the front of the queue whose item is gone, and the rest.\<close>

definition gone :: "'o fifo \<Rightarrow> string list \<Rightarrow> string list" where
  "gone s q = takeWhile (\<lambda>i. jm_get (fi_items s) i = None) q"

definition alive :: "'o fifo \<Rightarrow> string list \<Rightarrow> string list" where
  "alive s q = dropWhile (\<lambda>i. jm_get (fi_items s) i = None) q"

text \<open>One iteration of the loop, without the item.\<close>

definition take_id :: "string list \<Rightarrow> 'o fifo \<Rightarrow> 'o fifo" where
  "take_id q s = s\<lparr>fi_queue := q, fi_initialPopulationCount := fi_initialPopulationCount s - 1\<rparr>"

lemma pop_loop_Cons:
  "pop_loop process (i # q) s =
     (case jm_get (fi_items s) i of
        None \<Rightarrow> pop_loop process q
          (if fi_initialPopulationCount s > 0 then fifo_checkSynced (take_id q s) else take_id q s)
      | Some item \<Rightarrow> (Popped item (\<not> fi_synced s) (process item (\<not> fi_synced s)),
          if fi_initialPopulationCount s > 0 then fifo_checkSynced ((take_id q s)\<lparr>fi_items := jm_del i (fi_items s)\<rparr>)
          else (take_id q s)\<lparr>fi_items := jm_del i (fi_items s)\<rparr>))"
  by (simp add: take_id_def Let_def split: option.split)

lemma pop_loop_spec:
  assumes "fifo_sync s"
  shows "case alive s q of
      [] \<Rightarrow> (\<exists>s'. pop_loop process q s = (if fi_closed s then PopClosed else PopWaits, s') \<and> fifo_sync s' \<and>
        fi_items s' = fi_items s \<and> fi_queue s' = [] \<and> fi_populated s' = fi_populated s \<and>
        fi_initialPopulationCount s' = fi_initialPopulationCount s - length q)
    | i # q' \<Rightarrow> (\<exists>s' b. pop_loop process q s =
          (Popped (the (jm_get (fi_items s) i)) b (process (the (jm_get (fi_items s) i)) b), s') \<and> fifo_sync s' \<and>
        fi_items s' = jm_del i (fi_items s) \<and> fi_queue s' = q' \<and> fi_populated s' = fi_populated s \<and>
        (b \<longleftrightarrow> \<not> fi_populated s \<or> fi_initialPopulationCount s > length (gone s q)) \<and>
        fi_initialPopulationCount s' = fi_initialPopulationCount s - Suc (length (gone s q)))"
  using assms
proof (induction q arbitrary: s)
  case Nil
  then show ?case by (auto simp: alive_def fifo_sync_def)
next
  case (Cons i q)
  define t where "t = (if fi_initialPopulationCount s > 0 then fifo_checkSynced (take_id q s) else take_id q s)"
  have sync: "fifo_sync t" using Cons.prems by (auto simp: t_def fifo_sync_def take_id_def)
  have same: "fi_items t = fi_items s" "fi_populated t = fi_populated s" "fi_closed t = fi_closed s"
      "fi_initialPopulationCount t = fi_initialPopulationCount s - 1"
    by (auto simp: t_def take_id_def)
  show ?case
  proof (cases "jm_get (fi_items s) i")
    case None
    have a: "alive s (i # q) = alive t q" "gone s (i # q) = i # gone t q"
      using None by (simp_all add: alive_def gone_def same)
    have p: "pop_loop process (i # q) s = pop_loop process q t" unfolding pop_loop_Cons None t_def by simp
    have c: "n < c - 1 \<longleftrightarrow> Suc n < c" "c - 1 - n = c - Suc n" for n c :: nat by auto
    show ?thesis using Cons.IH [OF sync] unfolding a p same length_Cons c .
  next
    case (Some x)
    then have "alive s (i # q) = i # q" "gone s (i # q) = []" by (simp_all add: alive_def gone_def)
    moreover have "fifo_sync (if fi_initialPopulationCount s > 0
        then fifo_checkSynced ((take_id q s)\<lparr>fi_items := jm_del i (fi_items s)\<rparr>)
        else (take_id q s)\<lparr>fi_items := jm_del i (fi_items s)\<rparr>)"
      using Cons.prems by (auto simp: fifo_sync_def take_id_def)
    ultimately show ?thesis using Some Cons.prems
      unfolding pop_loop_Cons by (auto simp: take_id_def fifo_sync_def)
  qed
qed

lemma alive_stored:
  assumes "fifo_stored q s" and a: "alive s q = i # q'"
  shows "dom (jm_get (fi_items s)) - {i} \<subseteq> set q'"
proof -
  have "set q = set (gone s q) \<union> {i} \<union> set q'"
    using takeWhile_dropWhile_id [of "\<lambda>i. jm_get (fi_items s) i = None" q] a
    by (metis Un_insert_right alive_def gone_def list.simps(15) set_append sup_bot.right_neutral Un_assoc Un_commute)
  moreover have "dom (jm_get (fi_items s)) \<inter> set (gone s q) = {}"
    by (auto simp: gone_def dest: set_takeWhileD)
  ultimately show ?thesis using assms(1) unfolding fifo_stored_def by blast
qed

lemma pop_keeps:
  assumes "fifo_ok s"
  shows "fifo_ok (snd (fifo_pop process s))"
proof -
  have st: "fifo_stored (fi_queue s) s" and sy: "fifo_sync s" using assms by (auto simp: fifo_ok_def)
  show ?thesis
  proof (cases "alive s (fi_queue s)")
    case Nil
    then have "fi_items s = []"
      using st by (auto simp: fifo_stored_def alive_def dropWhile_eq_Nil_conv dom_map_of_conv_image_fst)
        (metis fst_conv image_eqI map_of_eq_None_iff old.prod.exhaust subsetD list.set_intros(1) neq_Nil_conv)
    with pop_loop_spec [OF sy, where q = "fi_queue s" and process = process] Nil show ?thesis
      by (auto simp: fifo_pop_def fifo_ok_def fifo_stored_def)
  next
    case (Cons i q)
    have k: "jm_ok (jm_del i (fi_items s))" "dom (jm_get (jm_del i (fi_items s))) \<subseteq> set q"
      using st alive_stored [OF st Cons] by (simp_all add: fifo_stored_def del: fun_upd_apply)
    from pop_loop_spec [OF sy, where q = "fi_queue s" and process = process] Cons obtain s' where
      "snd (fifo_pop process s) = s'" "fifo_sync s'" "fi_items s' = jm_del i (fi_items s)" "fi_queue s' = q"
      by (auto simp: fifo_pop_def)
    with k show ?thesis by (simp add: fifo_ok_def fifo_stored_def del: jm_get_del)
  qed
qed

section \<open>Sequences of calls\<close>

datatype 'o fifo_call = FifoAdd 'o | FifoDelete 'o | FifoPop "'o \<Rightarrow> bool \<Rightarrow> js_error option"
  | FifoReplace "'o list" string | FifoResync | FifoClose | FifoBookmark string

fun fifo_do :: "('o keyed \<Rightarrow> string \<times> js_error option) \<Rightarrow> 'o fifo_call \<Rightarrow> 'o fifo \<Rightarrow> 'o fifo" where
  "fifo_do keyFunc (FifoAdd x) s = snd (fifo_add keyFunc x s)"
| "fifo_do keyFunc (FifoDelete x) s = snd (fifo_delete keyFunc x s)"
| "fifo_do keyFunc (FifoPop process) s = snd (fifo_pop process s)"
| "fifo_do keyFunc (FifoReplace xs r) s = snd (fifo_replace keyFunc xs r s)"
| "fifo_do keyFunc FifoResync s = fifo_resync s"
| "fifo_do keyFunc FifoClose s = fifo_close s"
| "fifo_do keyFunc (FifoBookmark r) s = fifo_bookmark r s"

lemma fifo_call_keeps: "fifo_ok s \<Longrightarrow> fifo_ok (fifo_do keyFunc c s)"
  by (cases c) (simp_all add: add_keeps delete_keeps pop_keeps replace_keeps resync_keeps other_keeps)

lemma fifo_calls_keep: "fifo_ok s \<Longrightarrow> fifo_ok (fold (fifo_do keyFunc) calls s)"
  by (induction calls arbitrary: s) (simp_all add: fifo_call_keeps)

section \<open>Properties\<close>

text \<open>
  After any calls on a new FIFO, every stored item is queued, so \<open>pop\<close> waits (or reports the closed
  queue) only when nothing is stored; otherwise it returns the stored item whose id comes first in the
  queue, takes exactly that item out, and tells whether the item is of the first population.
\<close>

theorem fifo_pop_first:
  "let s = fold (fifo_do keyFunc) calls new_fifo in
   if fi_items s = [] then fst (fifo_pop process s) = (if fi_closed s then PopClosed else PopWaits)
   else \<exists>gone i x q s' b. fi_queue s = gone @ i # q \<and> (\<forall>j \<in> set gone. jm_get (fi_items s) j = None) \<and>
     jm_get (fi_items s) i = Some x \<and> fifo_pop process s = (Popped x b (process x b), s') \<and>
     fi_items s' = jm_del i (fi_items s) \<and> fi_queue s' = q \<and>
     b = (\<not> fi_populated s \<or> length gone < fi_initialPopulationCount s)"
proof -
  define s where "s = fold (fifo_do keyFunc) calls new_fifo"
  have ok: "fifo_ok s" unfolding s_def by (rule fifo_calls_keep [OF new_fifo_ok])
  then have sy: "fifo_sync s" and st: "dom (jm_get (fi_items s)) \<subseteq> set (fi_queue s)"
    by (auto simp: fifo_ok_def fifo_stored_def)
  have split: "fi_queue s = gone s (fi_queue s) @ alive s (fi_queue s)" by (simp add: gone_def alive_def)
  have gone: "\<forall>j \<in> set (gone s (fi_queue s)). jm_get (fi_items s) j = None"
    by (auto simp: gone_def dest: set_takeWhileD)
  show ?thesis
  proof (cases "alive s (fi_queue s)")
    case Nil
    with split gone have "\<forall>j \<in> set (fi_queue s). jm_get (fi_items s) j = None" by simp
    with st have "dom (jm_get (fi_items s)) = {}" by fastforce
    then have "fi_items s = []" by (simp add: dom_map_of_conv_image_fst)
    with pop_loop_spec [OF sy, where q = "fi_queue s" and process = process] Nil show ?thesis
      unfolding s_def [symmetric] by (auto simp: Let_def fifo_pop_def)
  next
    case (Cons i q)
    then obtain x where x: "jm_get (fi_items s) i = Some x"
      using hd_dropWhile [of "\<lambda>i. jm_get (fi_items s) i = None" "fi_queue s"] by (auto simp: alive_def)
    then have ne: "fi_items s \<noteq> []" by auto
    from pop_loop_spec [OF sy, where q = "fi_queue s" and process = process] Cons x obtain s' b where
      "fifo_pop process s = (Popped x b (process x b), s')" "fi_items s' = jm_del i (fi_items s)" "fi_queue s' = q"
      "b = (\<not> fi_populated s \<or> length (gone s (fi_queue s)) < fi_initialPopulationCount s)"
      by (auto simp: fifo_pop_def)
    note pop = this
    have "fi_queue s = gone s (fi_queue s) @ i # q" using split Cons by simp
    with pop x gone have "\<exists>gone i x q s' b. fi_queue s = gone @ i # q \<and>
      (\<forall>j \<in> set gone. jm_get (fi_items s) j = None) \<and> jm_get (fi_items s) i = Some x \<and>
      fifo_pop process s = (Popped x b (process x b), s') \<and> fi_items s' = jm_del i (fi_items s) \<and> fi_queue s' = q \<and>
      b = (\<not> fi_populated s \<or> length gone < fi_initialPopulationCount s)" by blast
    with ne show ?thesis unfolding s_def [symmetric] Let_def by simp
  qed
qed

definition text_key :: "string keyed \<Rightarrow> string \<times> js_error option" where
  "text_key x = (case x of ExplicitKey k \<Rightarrow> (k, None) | Object s \<Rightarrow> (s, None))"

lemma fifo_pop_first_witness:
  "fst (fifo_pop (\<lambda>x b. None) (fold (fifo_do text_key) [FifoReplace [''a'', ''b''] ''1'', FifoDelete ''a''] new_fifo)) =
    Popped ''b'' True None"
proof -
  let ?s = "fold (fifo_do text_key) [FifoReplace [''a'', ''b''] ''1'', FifoDelete ''a''] new_fifo"
  have "fi_items ?s = [(''b'', ''b'')]" "fi_queue ?s = [''a'', ''b'']" "fi_initialPopulationCount ?s = 2"
    by code_simp+
  then show ?thesis
    using fifo_pop_first [of text_key "[FifoReplace [''a'', ''b''] ''1'', FifoDelete ''a'']" "\<lambda>x b. None"]
    unfolding Let_def by (auto simp: Cons_eq_append_conv split: if_splits)
qed

text \<open>
  After any calls on a new FIFO, it has synced exactly when it has been populated and the items of
  the first population have been taken from the queue; a pop takes the ids before its item off that
  count too.
\<close>

theorem fifo_synced:
  "let s = fold (fifo_do keyFunc) calls new_fifo in
   (fi_synced s \<longleftrightarrow> fi_populated s \<and> fi_initialPopulationCount s = 0) \<and>
   fi_initialPopulationCount (snd (fifo_pop process s)) =
     fi_initialPopulationCount s - (length (fi_queue s) - length (fi_queue (snd (fifo_pop process s))))"
proof -
  define s where "s = fold (fifo_do keyFunc) calls new_fifo"
  have ok: "fifo_ok s" unfolding s_def by (rule fifo_calls_keep [OF new_fifo_ok])
  then have sy: "fifo_sync s" by (simp add: fifo_ok_def)
  have len: "length (fi_queue s) = length (gone s (fi_queue s)) + length (alive s (fi_queue s))"
    unfolding gone_def alive_def by (metis length_append takeWhile_dropWhile_id)
  have "fi_initialPopulationCount (snd (fifo_pop process s)) =
      fi_initialPopulationCount s - (length (fi_queue s) - length (fi_queue (snd (fifo_pop process s))))"
    using pop_loop_spec [OF sy, where q = "fi_queue s" and process = process] len
    by (cases "alive s (fi_queue s)") (auto simp: fifo_pop_def)
  with sy show ?thesis unfolding s_def [symmetric] Let_def by (simp add: fifo_sync_def)
qed

end
