(* ===== verification/SortedMap.thy ===== *)
theory SortedMap
  imports JsPrelude
begin

text \<open>
  \<open>SortedMap\<close> of \<open>src/collections.ts\<close>: an array of entries kept in the order of a comparison
  function and searched by bisection. The interface \<open>key_order\<close> holds what a comparison of keys must
  satisfy; under it the array is a finite map whose entries come out in order.
\<close>

type_synonym ('k, 'v) smap = "('k \<times> 'v) list"

section \<open>Operations\<close>

text \<open>\<open>lowerBound\<close>: the loop of the bisection between \<open>low\<close> and \<open>high\<close>.\<close>

function bisect :: "('k \<Rightarrow> 'k \<Rightarrow> int) \<Rightarrow> ('k, 'v) smap \<Rightarrow> 'k \<Rightarrow> nat \<Rightarrow> nat \<Rightarrow> nat" where
  "bisect cmp items key low high =
     (if low < high then
        (let mid = (low + high) div 2 in
         if mid \<ge> length items then low
         else if cmp (fst (items ! mid)) key < 0 then bisect cmp items key (mid + 1) high
         else bisect cmp items key low mid)
      else low)"
  by pat_completeness auto
termination
  by (relation "measure (\<lambda>(cmp, items, key, low, high). high - low)") auto

declare bisect.simps [simp del]

definition lowerBound :: "('k \<Rightarrow> 'k \<Rightarrow> int) \<Rightarrow> ('k, 'v) smap \<Rightarrow> 'k \<Rightarrow> nat" where
  "lowerBound cmp items key = bisect cmp items key 0 (length items)"

definition sm_set :: "('k \<Rightarrow> 'k \<Rightarrow> int) \<Rightarrow> 'k \<Rightarrow> 'v \<Rightarrow> ('k, 'v) smap \<Rightarrow> ('k, 'v) smap" where
  "sm_set cmp key v items =
     (let i = lowerBound cmp items key in
      if i < length items \<and> cmp (fst (items ! i)) key = 0 then items[i := (key, v)]
      else take i items @ (key, v) # drop i items)"

definition sm_get :: "('k \<Rightarrow> 'k \<Rightarrow> int) \<Rightarrow> ('k, 'v) smap \<Rightarrow> 'k \<Rightarrow> 'v option" where
  "sm_get cmp items key =
     (let i = lowerBound cmp items key in
      if i < length items \<and> cmp (fst (items ! i)) key = 0 then Some (snd (items ! i)) else None)"

definition sm_delete :: "('k \<Rightarrow> 'k \<Rightarrow> int) \<Rightarrow> 'k \<Rightarrow> ('k, 'v) smap \<Rightarrow> ('k, 'v) smap" where
  "sm_delete cmp key items =
     (let i = lowerBound cmp items key in
      if i < length items \<and> cmp (fst (items ! i)) key = 0 then take i items @ drop (i + 1) items else items)"

definition sm_clearBefore :: "('k \<Rightarrow> 'k \<Rightarrow> int) \<Rightarrow> 'k \<Rightarrow> ('k, 'v) smap \<Rightarrow> nat \<times> ('k, 'v) smap" where
  "sm_clearBefore cmp key items = (let n = lowerBound cmp items key in (n, drop n items))"

definition sm_entriesFrom :: "('k \<Rightarrow> 'k \<Rightarrow> int) \<Rightarrow> 'k \<Rightarrow> ('k, 'v) smap \<Rightarrow> ('k \<times> 'v) list" where
  "sm_entriesFrom cmp key items = drop (lowerBound cmp items key) items"

section \<open>Orders on keys\<close>

text \<open>
  A comparison of keys: a linear order, given by the sign of a number. Two keys compare equal only
  when they are the same key.
\<close>

locale key_order =
  fixes cmp :: "'k \<Rightarrow> 'k \<Rightarrow> int"
  assumes cmp_same: "cmp x y = 0 \<longleftrightarrow> x = y"
    and cmp_flip: "cmp x y < 0 \<longleftrightarrow> cmp y x > 0"
    and cmp_trans: "cmp x y < 0 \<Longrightarrow> cmp y z < 0 \<Longrightarrow> cmp x z < 0"
begin

definition ordered :: "('k, 'v) smap \<Rightarrow> bool" where
  "ordered items \<longleftrightarrow> sorted_wrt (\<lambda>x y. cmp x y < 0) (map fst items)"

lemma cmp_refl [simp]: "cmp x x = 0"
  by (simp add: cmp_same)

lemma cmp_cases: obtains "cmp x y < 0" | "x = y" | "cmp y x < 0"
  by (metis cmp_flip cmp_same linorder_less_linear)

lemma cmp_asym: "cmp x y < 0 \<Longrightarrow> \<not> cmp y x < 0"
  using cmp_flip [of x y] by linarith

lemma ordered_Nil [simp, intro]: "ordered []"
  by (simp add: ordered_def)

lemma ordered_nth: "ordered items \<Longrightarrow> i < j \<Longrightarrow> j < length items \<Longrightarrow> cmp (fst (items ! i)) (fst (items ! j)) < 0"
  unfolding ordered_def by (simp add: sorted_wrt_iff_nth_less)

lemma ordered_distinct: "ordered items \<Longrightarrow> distinct (map fst items)"
  unfolding ordered_def by (induction items) (use cmp_same in fastforce)+

lemma ordered_fresh: "ordered (xs @ (key, v) # ys) \<Longrightarrow> key \<notin> fst ` set xs \<and> key \<notin> fst ` set ys"
  by (frule ordered_distinct) auto

lemma ordered_append:
  "ordered (xs @ ys) \<longleftrightarrow> ordered xs \<and> ordered ys \<and> (\<forall>x \<in> set xs. \<forall>y \<in> set ys. cmp (fst x) (fst y) < 0)"
  by (auto simp: ordered_def sorted_wrt_append)

lemma ordered_Cons: "ordered (x # xs) \<longleftrightarrow> (\<forall>y \<in> set xs. cmp (fst x) (fst y) < 0) \<and> ordered xs"
  by (auto simp: ordered_def)

text \<open>What bisection finds: the entries below the key stand before the bound, the others after it.\<close>

lemma bisect_spec:
  assumes "ordered items" "low \<le> high" "high \<le> length items"
    and "\<And>i. i < low \<Longrightarrow> cmp (fst (items ! i)) key < 0"
    and "\<And>i. high \<le> i \<Longrightarrow> i < length items \<Longrightarrow> \<not> cmp (fst (items ! i)) key < 0"
  shows "bisect cmp items key low high \<le> length items \<and>
    (\<forall>i < length items. cmp (fst (items ! i)) key < 0 \<longleftrightarrow> i < bisect cmp items key low high)"
  using assms
proof (induction "high - low" arbitrary: low high rule: less_induct)
  case less
  note ord = less.prems(1) and bounds = less.prems(2,3) and low_below = less.prems(4) and high_above = less.prems(5)
  show ?case
  proof (cases "low < high")
    case False
    then have eq: "bisect cmp items key low high = low" by (simp add: bisect.simps)
    from False bounds have "low = high" by simp
    with bounds low_below high_above show ?thesis unfolding eq by (meson not_le)
  next
    case True
    define mid where "mid = (low + high) div 2"
    have mid: "low \<le> mid" "mid < high" "mid < length items" using True bounds by (auto simp: mid_def)
    show ?thesis
    proof (cases "cmp (fst (items ! mid)) key < 0")
      case below: True
      have eq: "bisect cmp items key low high = bisect cmp items key (mid + 1) high"
        using True mid below by (subst bisect.simps) (simp add: Let_def flip: mid_def)
      have "cmp (fst (items ! i)) key < 0" if "i < mid + 1" for i
      proof (cases "i = mid")
        case False
        then have "cmp (fst (items ! i)) (fst (items ! mid)) < 0" using that mid ordered_nth [OF ord, of i mid] by simp
        then show ?thesis using below cmp_trans by blast
      qed (use below in simp)
      then show ?thesis unfolding eq by (intro less.hyps) (use ord bounds mid high_above in auto)
    next
      case above: False
      have eq: "bisect cmp items key low high = bisect cmp items key low mid"
        using True mid above by (subst bisect.simps) (simp add: Let_def flip: mid_def)
      have "\<not> cmp (fst (items ! i)) key < 0" if "mid \<le> i" "i < length items" for i
      proof (cases "i = mid")
        case False
        then have "cmp (fst (items ! mid)) (fst (items ! i)) < 0" using that mid ordered_nth [OF ord, of mid i] by simp
        then show ?thesis using above cmp_trans by blast
      qed (use above in simp)
      then show ?thesis unfolding eq by (intro less.hyps) (use ord bounds mid low_below in auto)
    qed
  qed
qed

lemma lowerBound_spec:
  assumes "ordered items"
  shows "lowerBound cmp items key \<le> length items"
    and "\<And>i. i < length items \<Longrightarrow> cmp (fst (items ! i)) key < 0 \<longleftrightarrow> i < lowerBound cmp items key"
  using bisect_spec [OF assms, of 0 "length items" key] by (auto simp: lowerBound_def)

text \<open>A map is split at a key into the entries below it, the entry of the key, and the entries above.\<close>

lemma split_at:
  assumes "ordered items"
  obtains (present) xs v ys where "items = xs @ (key, v) # ys" "lowerBound cmp items key = length xs"
  | (absent) xs ys where "items = xs @ ys" "lowerBound cmp items key = length xs" "key \<notin> set (map fst items)"
proof -
  define n where "n = lowerBound cmp items key"
  note bound = lowerBound_spec [OF assms, where key = key, folded n_def]
  have len: "length (take n items) = n" using bound(1) by simp
  have at: "i = n" if "i < length items" "fst (items ! i) = key" for i
  proof (rule ccontr)
    assume "i \<noteq> n"
    moreover have "\<not> i < n" using bound(2) [OF that(1)] that(2) by simp
    ultimately have "n < i" by simp
    then have "cmp (fst (items ! n)) key < 0" using ordered_nth [OF assms, of n i] that by simp
    then show False using bound(2) [of n] \<open>n < i\<close> that(1) by simp
  qed
  show thesis
  proof (cases "n < length items \<and> fst (items ! n) = key")
    case True
    then have "items ! n = (key, snd (items ! n))" by (metis prod.collapse)
    then have "items = take n items @ (key, snd (items ! n)) # drop (Suc n) items"
      using True id_take_nth_drop [of n items] by simp
    then show ?thesis
      by (rule present) (simp only: len n_def [symmetric])
  next
    case False
    then have "key \<notin> set (map fst items)" using at by (metis in_set_conv_nth length_map nth_map)
    then show ?thesis by (intro absent [of "take n items" "drop n items"]) (simp_all add: bound(1) flip: n_def)
  qed
qed

lemma lowerBound_at:
  assumes "ordered items" "items = xs @ ys" "lowerBound cmp items key = length xs"
  shows "x \<in> set xs \<Longrightarrow> cmp (fst x) key < 0" and "y \<in> set ys \<Longrightarrow> cmp (fst y) key \<ge> 0"
proof -
  note bound = lowerBound_spec(2) [OF assms(1), where key = key, unfolded assms(3)]
  show "cmp (fst x) key < 0" if "x \<in> set xs"
    proof -
    from that obtain j where j: "j < length xs" "x = xs ! j" by (auto simp: in_set_conv_nth)
    then show ?thesis using bound [of j] assms(2) by (simp add: nth_append)
  qed
  show "cmp (fst y) key \<ge> 0" if "y \<in> set ys"
  proof -
    from that obtain j where j: "j < length ys" "y = ys ! j" by (auto simp: in_set_conv_nth)
    then show ?thesis using bound [of "length xs + j"] assms(2) by (simp add: nth_append)
  qed
qed

section \<open>The operations are those of a map\<close>

lemma get_spec:
  assumes o: "ordered items"
  shows "sm_get cmp items key = map_of items key"
  using o
proof (cases rule: split_at [where key = key])
  case (present xs v ys)
  moreover from this o have "map_of xs key = None" using ordered_fresh [of xs key v ys] by (simp add: map_of_eq_None_iff)
  ultimately show ?thesis by (simp add: sm_get_def map_add_def)
next
  case (absent xs ys)
  then have "length xs < length items \<Longrightarrow> fst (items ! length xs) \<noteq> key"
    by (metis length_map nth_map nth_mem)
  moreover have "map_of items key = None" using absent(3) by (simp add: map_of_eq_None_iff)
  ultimately show ?thesis using absent(2) by (auto simp: sm_get_def Let_def cmp_same)
qed

lemma set_present:
  assumes "ordered items" "items = xs @ (key, v') # ys" "lowerBound cmp items key = length xs"
  shows "sm_set cmp key v items = xs @ (key, v) # ys"
  using assms by (simp add: sm_set_def Let_def)

lemma set_absent:
  assumes "ordered items" "items = xs @ ys" "lowerBound cmp items key = length xs" "key \<notin> set (map fst items)"
  shows "sm_set cmp key v items = xs @ (key, v) # ys"
proof -
  have "length xs < length items \<Longrightarrow> fst (items ! length xs) \<noteq> key"
    using assms(4) by (metis length_map nth_map nth_mem)
  then show ?thesis using assms(3) by (auto simp: sm_set_def Let_def cmp_same assms(2))
qed

lemma set_fresh:
  assumes "ordered items" "key \<notin> fst ` set items"
  shows "set (sm_set cmp key v items) = insert (key, v) (set items)"
  using assms(1)
proof (cases rule: split_at [where key = key])
  case (present xs w ys)
  with assms(2) show ?thesis by force
next
  case (absent xs ys)
  then show ?thesis using set_absent [OF assms(1) absent] by auto
qed

lemma set_last:
  assumes "ordered (xs @ [(key, w)])"
  shows "sm_set cmp key v (xs @ [(key, w)]) = xs @ [(key, v)]"
  using assms
proof (cases rule: split_at [where key = key])
  case (present xs' w' ys)
  then have "xs' = xs \<and> ys = []"
    using assms ordered_fresh [of xs key w "[]"] ordered_fresh [of xs' key w' ys]
    by (cases ys rule: rev_cases) auto
  then show ?thesis using set_present [OF assms present] by simp
next
  case (absent xs' ys)
  from absent(3) show ?thesis by simp
qed

lemma set_new:
  assumes "ordered xs" "\<And>e. e \<in> set xs \<Longrightarrow> cmp (fst e) key < 0"
  shows "sm_set cmp key v xs = xs @ [(key, v)]"
proof -
  have fresh: "key \<notin> fst ` set xs" using assms(2) cmp_refl [of key] by (metis imageE less_irrefl)
  from assms(1) show ?thesis
  proof (cases rule: split_at [where key = key])
    case (absent ys zs)
    have "zs = []" using lowerBound_at(2) [OF assms(1) absent(1,2)] assms(2) absent(1) by (cases zs) force+
    then show ?thesis using set_absent [OF assms(1) absent] absent(1) by simp
  qed (use fresh in auto)
qed

lemma set_ordered: "ordered items \<Longrightarrow> ordered (sm_set cmp key v items)"
  and set_get: "ordered items \<Longrightarrow> map_of (sm_set cmp key v items) = (map_of items)(key \<mapsto> v)"
proof -
  assume o: "ordered items"
  have "ordered (sm_set cmp key v items) \<and> map_of (sm_set cmp key v items) = (map_of items)(key \<mapsto> v)"
    using o
  proof (cases rule: split_at [where key = key])
    case (present xs v' ys)
    then have "map_of xs key = None" using o ordered_fresh [of xs key v' ys] by (simp add: map_of_eq_None_iff)
    then show ?thesis using o set_present [OF o present] present(1)
      by (auto simp: ordered_append ordered_Cons map_add_def fun_eq_iff split: option.split)
  next
    case (absent xs ys)
    have "key \<noteq> fst y" if "y \<in> set ys" for y using that absent(1,3) by auto
    moreover have "cmp (fst y) key \<ge> 0" if "y \<in> set ys" for y using lowerBound_at(2) [OF o absent(1,2) that] .
    ultimately have "cmp key (fst y) < 0" if "y \<in> set ys" for y using that cmp_cases by (metis not_le)
    moreover have "map_of xs key = None" using absent(1,3) by (auto simp: map_of_eq_None_iff)
    ultimately show ?thesis using o set_absent [OF o absent] absent(1) lowerBound_at(1) [OF o absent(1,2)]
      by (auto simp: ordered_append ordered_Cons map_add_def fun_eq_iff split: option.split)
  qed
  then show "ordered (sm_set cmp key v items)" "map_of (sm_set cmp key v items) = (map_of items)(key \<mapsto> v)" by auto
qed

lemma delete_spec:
  assumes "ordered items"
  shows "sm_delete cmp key items = filter (\<lambda>e. fst e \<noteq> key) items"
  using assms
proof (cases rule: split_at [where key = key])
  case (present xs v ys)
  then have "key \<notin> fst ` set xs" "key \<notin> fst ` set ys" using assms ordered_fresh [of xs key v ys] by simp_all
  then have "filter (\<lambda>e. fst e \<noteq> key) xs = xs" "filter (\<lambda>e. fst e \<noteq> key) ys = ys" by (force simp: filter_id_conv)+
  with present show ?thesis by (simp add: sm_delete_def Let_def)
next
  case (absent xs ys)
  then have "length xs < length items \<Longrightarrow> fst (items ! length xs) \<noteq> key" by (metis length_map nth_map nth_mem)
  moreover have "filter (\<lambda>e. fst e \<noteq> key) items = items" using absent(3) by (force simp: filter_id_conv)
  ultimately show ?thesis using absent(2) by (auto simp: sm_delete_def Let_def cmp_same)
qed

lemma ordered_filter: "ordered items \<Longrightarrow> ordered (filter P items)"
  by (simp add: ordered_def sorted_wrt_map sorted_wrt_filter)

lemma entriesFrom_spec: "ordered items \<Longrightarrow> sm_entriesFrom cmp key items = filter (\<lambda>e. cmp (fst e) key \<ge> 0) items"
proof -
  assume o: "ordered items"
  define n where "n = lowerBound cmp items key"
  have n: "n \<le> length items" using lowerBound_spec(1) [OF o] n_def by simp
  have split: "items = take n items @ drop n items" "lowerBound cmp items key = length (take n items)"
    using n n_def by simp_all
  have "\<forall>x \<in> set (take n items). cmp (fst x) key < 0" "\<forall>y \<in> set (drop n items). cmp (fst y) key \<ge> 0"
    using lowerBound_at [OF o split] by blast+
  then have "filter (\<lambda>e. cmp (fst e) key \<ge> 0) (take n items) = []"
    "filter (\<lambda>e. cmp (fst e) key \<ge> 0) (drop n items) = drop n items"
    by (simp_all add: filter_empty_conv filter_id_conv not_le)
  then show ?thesis unfolding sm_entriesFrom_def n_def [symmetric]
    by (subst (2) split(1)) (simp only: filter_append append_Nil)
qed

lemma clearBefore_spec: "ordered items \<Longrightarrow> snd (sm_clearBefore cmp key items) = filter (\<lambda>e. cmp (fst e) key \<ge> 0) items"
  by (drule entriesFrom_spec [of _ key]) (simp only: sm_clearBefore_def sm_entriesFrom_def Let_def snd_conv)

text \<open>Two maps with the same entries are the same array.\<close>

lemma ordered_unique: "ordered xs \<Longrightarrow> ordered ys \<Longrightarrow> set xs = set ys \<Longrightarrow> xs = ys"
proof (induction xs arbitrary: ys)
  case (Cons x xs)
  from Cons.prems(3) obtain y ys' where ys: "ys = y # ys'" by (cases ys) auto
  note x = Cons.prems(1) [unfolded ordered_Cons] and y = Cons.prems(2) [unfolded ys ordered_Cons]
  have mem: "insert x (set xs) = insert y (set ys')" using Cons.prems(3) ys by simp
  have xy: "x = y"
  proof (rule ccontr)
    assume "x \<noteq> y"
    moreover have "x \<in> insert y (set ys')" "y \<in> insert x (set xs)" unfolding mem [symmetric] by simp (simp add: mem)
    ultimately have "x \<in> set ys'" "y \<in> set xs" by simp_all
    then have "cmp (fst y) (fst x) < 0" "cmp (fst x) (fst y) < 0" using x y by simp_all
    then show False using cmp_asym by blast
  qed
  have "x \<notin> set xs" using x cmp_refl [of "fst x"] by fastforce
  moreover have "x \<notin> set ys'" using y cmp_refl [of "fst x"] unfolding xy by fastforce
  ultimately
  have "set xs = set ys'" using mem unfolding xy by (metis insert_ident)
  with x y have "xs = ys'" by (intro Cons.IH) simp_all
  then show ?case by (simp add: xy ys)
qed simp

end

section \<open>The orders the program uses\<close>

text \<open>Code units of strings and numbers.\<close>

definition order_cmp :: "'a :: linorder \<Rightarrow> 'a \<Rightarrow> int" where
  "order_cmp x y = (if x < y then -1 else if x > y then 1 else 0)"

definition number_cmp :: "nat \<Rightarrow> nat \<Rightarrow> int" where
  "number_cmp l r = int l - int r"

interpretation natural: key_order order_cmp
  by unfold_locales (auto simp: order_cmp_def split: if_splits)

interpretation numbers: key_order number_cmp
  by unfold_locales (auto simp: number_cmp_def)

end
