(* ===== verification/Json.thy ===== *)
theory Json
  imports ObjectMeta "HOL-Library.Word"
begin

text \<open>
  JSON values, \<open>src/deep-equal.ts\<close>, and the hashing of templates: \<open>src/fnv.ts\<close>,
  \<open>src/util/hash/hash.ts\<close> and \<open>safeEncodeString\<close> of \<open>apimachinery/pkg/util/rand/rand.ts\<close>. Numbers are
  integers; an object is its list of own properties in order, where a property may be \<open>undefined\<close>.
\<close>

datatype json = JUndef | JNull | JBool bool | JNum int | JStr string | JDate int
  | JArr "json list" | JObj "(string \<times> json) list"

section \<open>deepEqual\<close>

record equal_context =
  ec_ignored :: "string list"
  ec_ignoreUndefined :: bool

definition no_options :: equal_context where
  "no_options = \<lparr>ec_ignored = [], ec_ignoreUndefined = False\<rparr>"

definition childPath :: "string \<Rightarrow> string \<Rightarrow> string" where
  "childPath parent key = (if parent = [] then key else parent @ CHR ''.'' # key)"

definition comparableKeys :: "(string \<times> json) list \<Rightarrow> equal_context \<Rightarrow> string \<Rightarrow> string list" where
  "comparableKeys fs c path =
     map fst (filter (\<lambda>(k, v). childPath path k \<notin> set (ec_ignored c) \<and> (ec_ignoreUndefined c \<longrightarrow> v \<noteq> JUndef)) fs)"

text \<open>
  \<open>deepEqualAtPath\<close>. Two primitives are compared by \<open>===\<close>. The elements of arrays are visited in
  order, the comparable keys of the left object by \<open>equal_fields\<close>; \<open>has\<close> is the operator \<open>in\<close>.
\<close>

fun equal_at :: "equal_context \<Rightarrow> string \<Rightarrow> json \<Rightarrow> json \<Rightarrow> bool"
  and equal_list :: "equal_context \<Rightarrow> string \<Rightarrow> nat \<Rightarrow> json list \<Rightarrow> json list \<Rightarrow> bool"
  and equal_fields :: "equal_context \<Rightarrow> string \<Rightarrow> (string \<times> json) list \<Rightarrow> (string \<times> json) list \<Rightarrow> bool" where
  "equal_at c path (JArr xs) r =
     (path \<in> set (ec_ignored c) \<or>
      (case r of JArr ys \<Rightarrow> length xs = length ys \<and> equal_list c path 0 xs ys | _ \<Rightarrow> False))"
| "equal_at c path (JObj fs) r =
     (path \<in> set (ec_ignored c) \<or>
      (case r of
         JObj gs \<Rightarrow> length (comparableKeys fs c path) = length (comparableKeys gs c path) \<and> equal_fields c path fs gs
       | _ \<Rightarrow> False))"
| "equal_at c path l r = (path \<in> set (ec_ignored c) \<or> l = r)"
| "equal_list c path i [] ys = True"
| "equal_list c path i (x # xs) ys =
     ((case ys of [] \<Rightarrow> True | y # ys' \<Rightarrow> equal_at c (childPath path (show_nat i)) x y \<and> equal_list c path (i + 1) xs ys'))"
| "equal_fields c path [] gs = True"
| "equal_fields c path ((k, v) # fs) gs =
     ((childPath path k \<notin> set (ec_ignored c) \<and> (ec_ignoreUndefined c \<longrightarrow> v \<noteq> JUndef) \<longrightarrow>
        (case map_of gs k of None \<Rightarrow> False | Some w \<Rightarrow> equal_at c (childPath path k) v w)) \<and>
      equal_fields c path fs gs)"

definition deepEqual :: "equal_context \<Rightarrow> json \<Rightarrow> json \<Rightarrow> bool" where
  "deepEqual c l r = equal_at c [] l r"

text \<open>Objects hold a key once, at every level.\<close>

fun json_ok :: "json \<Rightarrow> bool" where
  "json_ok (JArr xs) = list_all json_ok xs"
| "json_ok (JObj fs) = (distinct (map fst fs) \<and> list_all (\<lambda>(k, v). json_ok v) fs)"
| "json_ok _ = True"

fun dropUndefinedFields :: "json \<Rightarrow> json" where
  "dropUndefinedFields (JArr xs) = JArr (map dropUndefinedFields xs)"
| "dropUndefinedFields (JObj fs) =
     JObj (map (\<lambda>(k, v). (k, dropUndefinedFields v)) (filter (\<lambda>(k, v). v \<noteq> JUndef) fs))"
| "dropUndefinedFields v = v"

text \<open>The reference: two values are equal when they agree after sorting the fields of every object.\<close>

fun canon :: "json \<Rightarrow> json" where
  "canon (JArr xs) = JArr (map canon xs)"
| "canon (JObj fs) = JObj (sort_key fst (map (\<lambda>(k, v). (k, canon v)) fs))"
| "canon v = v"

lemma no_options_simps [simp]: "ec_ignored no_options = []" "ec_ignoreUndefined no_options = False"
  by (simp_all add: no_options_def)

lemma comparableKeys_plain [simp]: "comparableKeys fs no_options path = map fst fs"
  by (simp add: comparableKeys_def)

lemma equal_list_plain:
  "length xs = length ys \<Longrightarrow> (\<And>x y path. x \<in> set xs \<Longrightarrow> y \<in> set ys \<Longrightarrow> equal_at no_options path x y \<longleftrightarrow> canon x = canon y) \<Longrightarrow>
    equal_list no_options path i xs ys \<longleftrightarrow> map canon xs = map canon ys"
  by (induction xs ys arbitrary: i rule: list_induct2) auto

lemma equal_fields_plain:
  "(\<And>k v w path. (k, v) \<in> set fs \<Longrightarrow> (k, w) \<in> set gs \<Longrightarrow> equal_at no_options path v w \<longleftrightarrow> canon v = canon w) \<Longrightarrow>
    equal_fields no_options path fs gs \<longleftrightarrow>
      (\<forall>(k, v) \<in> set fs. \<exists>w. map_of gs k = Some w \<and> canon v = canon w)"
proof (induction fs)
  case (Cons f fs)
  obtain k v where f: "f = (k, v)" by (cases f)
  have "equal_fields no_options path fs gs \<longleftrightarrow> (\<forall>(k, v) \<in> set fs. \<exists>w. map_of gs k = Some w \<and> canon v = canon w)"
    by (rule Cons.IH) (use Cons.prems in auto)
  moreover have "equal_at no_options (childPath path k) v w \<longleftrightarrow> canon v = canon w" if "map_of gs k = Some w" for w
    using Cons.prems [of k v w] f map_of_SomeD [OF that] by simp
  ultimately show ?case unfolding f by (auto split: option.split)
qed simp

text \<open>Sorted fields with distinct keys are determined by their set.\<close>

lemma sort_fields_eq:
  assumes "distinct (map fst xs)" and "distinct (map fst ys)"
  shows "sort_key fst xs = sort_key fst ys \<longleftrightarrow> set xs = set (ys :: (string \<times> 'a) list)"
proof
  assume "sort_key fst xs = sort_key fst ys"
  then show "set xs = set ys" by (metis set_sort)
next
  assume "set xs = set ys"
  then have "mset xs = mset ys" using assms by (metis distinct_map set_eq_iff_mset_eq_distinct)
  moreover have "inj_on fst (set ys)" using assms(2) by (simp add: distinct_map)
  ultimately show "sort_key fst xs = sort_key fst ys"
    by (metis mset_eq_setD mset_sort properties_for_sort_key sorted_sort_key sort_key_inj_key_eq)
qed

lemma fields_eq:
  fixes fs gs :: "(string \<times> json) list"
  assumes "distinct (map fst fs)" and "distinct (map fst gs)" and "length fs = length gs"
  shows "(\<forall>(k, v) \<in> set fs. \<exists>w. map_of gs k = Some w \<and> canon v = canon w) \<longleftrightarrow>
    sort_key fst (map (\<lambda>(k, v). (k, canon v)) fs) = sort_key fst (map (\<lambda>(k, v). (k, canon v)) gs)"
    (is "?l \<longleftrightarrow> _")
proof -
  let ?fs = "map (\<lambda>(k, v). (k, canon v)) fs" and ?gs = "map (\<lambda>(k, v). (k, canon v)) gs"
  have d: "distinct (map fst ?fs)" "distinct (map fst ?gs)"
    using assms by (simp_all add: comp_def case_prod_unfold)
  have "?l \<longleftrightarrow> set ?fs \<subseteq> set ?gs"
    using assms(2) by (force simp: map_of_eq_Some_iff)
  also have "\<dots> \<longleftrightarrow> set ?fs = set ?gs"
    using d assms(3) by (metis (no_types, lifting) card_subset_eq distinct_card distinct_map length_map List.finite_set order_refl)
  also have "\<dots> \<longleftrightarrow> sort_key fst ?fs = sort_key fst ?gs" by (rule sort_fields_eq [OF d, symmetric])
  finally show ?thesis .
qed

lemma equal_at_canon: "json_ok l \<Longrightarrow> json_ok r \<Longrightarrow> equal_at no_options path l r \<longleftrightarrow> canon l = canon r"
proof (induction l arbitrary: r path)
  case (JArr xs)
  show ?case
  proof (cases r)
    case r: (JArr ys)
    have "equal_list no_options path 0 xs ys \<longleftrightarrow> map canon xs = map canon ys" if "length xs = length ys"
      using that JArr r by (intro equal_list_plain) (auto simp: list_all_iff)
    with r show ?thesis by (auto dest: map_eq_imp_length_eq)
  qed auto
next
  case (JObj fs)
  show ?case
  proof (cases r)
    case r: (JObj gs)
    have p: "equal_fields no_options path fs gs \<longleftrightarrow>
        (\<forall>(k, v) \<in> set fs. \<exists>w. map_of gs k = Some w \<and> canon v = canon w)"
    proof (rule equal_fields_plain)
      fix k v w path
      assume m: "(k, v) \<in> set fs" "(k, w) \<in> set gs"
      then have "json_ok v" "json_ok w" using JObj.prems r by (auto simp: list_all_iff)
      with m JObj.IH show "equal_at no_options path v w \<longleftrightarrow> canon v = canon w" by force
    qed
    show ?thesis
    proof (cases "length fs = length gs")
      case True
      with p JObj.prems r fields_eq [of fs gs] show ?thesis by simp
    next
      case False
      then have "canon (JObj fs) \<noteq> canon r" using r by (auto dest!: arg_cong [where f = length])
      with False r show ?thesis by simp
    qed
  qed auto
next
  case JUndef
  show ?case by (cases r) simp_all
next
  case JNull
  show ?case by (cases r) simp_all
next
  case (JBool b)
  show ?case by (cases r) simp_all
next
  case (JNum i)
  show ?case by (cases r) simp_all
next
  case (JStr x)
  show ?case by (cases r) simp_all
next
  case (JDate i)
  show ?case by (cases r) simp_all
qed

section \<open>fnv\<close>

unbundle bit_operations_syntax

text \<open>\<open>Fnv32a\<close>: its state is the number \<open>value\<close>, a 32-bit word; \<open>Math.imul(..) >>> 0\<close> is multiplication of words.\<close>

type_synonym fnv = "32 word"

definition fnv_reset :: fnv where
  "fnv_reset = 0x811c9dc5"

definition fnv_write :: "nat list \<Rightarrow> fnv \<Rightarrow> fnv" where
  "fnv_write bytes value = foldl (\<lambda>v b. (v XOR word_of_nat b) * 0x01000193) value bytes"

definition fnv_sum32 :: "fnv \<Rightarrow> nat" where
  "fnv_sum32 value = unat value"

text \<open>\<open>TextEncoder.encode\<close> of code units below 256.\<close>

definition text_bytes :: "string \<Rightarrow> nat list" where
  "text_bytes s = concat (map (\<lambda>c. let n = of_char c in if n < 128 then [n] else [192 + n div 64, 128 + n mod 64]) s)"

section \<open>hash.ts\<close>

fun stable_json :: "json \<Rightarrow> string" where
  "stable_json JUndef = ''null''"
| "stable_json JNull = ''null''"
| "stable_json (JBool b) = (if b then ''true'' else ''false'')"
| "stable_json (JNum i) = show_int i"
| "stable_json (JStr s) = json_string s"
| "stable_json (JDate t) = ''{}''"
| "stable_json (JArr xs) = CHR ''['' # js_join '','' (map stable_json xs) @ '']''"
| "stable_json (JObj fs) =
     CHR ''{'' # js_join '','' (map (\<lambda>(k, v). json_string k @ CHR '':'' # v)
       (sort_key fst (map (\<lambda>(k, v). (k, stable_json v)) (filter (\<lambda>(k, v). v \<noteq> JUndef) fs)))) @ ''}''"

definition jsonMarshal :: "json \<Rightarrow> nat list" where
  "jsonMarshal v = text_bytes (stable_json v)"

definition dumpForHash :: "nat list \<Rightarrow> string" where
  "dumpForHash bytes = ''([]uint8)['' @ js_join '' '' (map show_nat bytes) @ '']''"

definition deepHashObject :: "nat list \<Rightarrow> fnv" where
  "deepHashObject bytes = fnv_write (text_bytes (dumpForHash bytes)) fnv_reset"

section \<open>rand.ts\<close>

definition alphanums :: string where
  "alphanums = ''bcdfghjklmnpqrstvwxz2456789''"

definition safeEncodeString :: "string \<Rightarrow> string" where
  "safeEncodeString s = map (\<lambda>c. alphanums ! (of_char c mod length alphanums)) s"

text \<open>\<open>computeHash\<close> of \<open>controller-utils.ts\<close>; only the low 32 bits of the collision count are written.\<close>

definition count_bytes :: "int \<Rightarrow> nat list" where
  "count_bytes n = (let m = nat (n mod 2 ^ 32) in
     [m mod 256, m div 256 mod 256, m div 65536 mod 256, m div 16777216 mod 256, 0, 0, 0, 0])"

definition computeHash :: "json \<Rightarrow> int option \<Rightarrow> string" where
  "computeHash template collisionCount =
     (let v = deepHashObject (jsonMarshal template);
          v = (case collisionCount of None \<Rightarrow> v | Some n \<Rightarrow> fnv_write (count_bytes n) v)
      in safeEncodeString (show_nat (fnv_sum32 v)))"

section \<open>Properties of hashes\<close>

lemma fnv_write_append: "fnv_write (xs @ ys) v = fnv_write ys (fnv_write xs v)"
  by (simp add: fnv_write_def)

text \<open>The prime is odd, so multiplying by it can be undone.\<close>

lemma fnv_prime_inj: "(x :: 32 word) * 0x01000193 = y * 0x01000193 \<longleftrightarrow> x = y"
proof
  assume "x * 0x01000193 = y * 0x01000193"
  then have "x * 0x01000193 * 0x359c449b = y * 0x01000193 * 0x359c449b" by simp
  moreover have "(0x01000193 :: 32 word) * 0x359c449b = 1" by (simp add: word_eq_iff_unsigned [where ?'a = nat] unsigned_numeral)
  ultimately show "x = y" by (simp only: mult.assoc mult_1_right)
qed simp

lemma word_of_nat_byte: "a < 256 \<Longrightarrow> b < 256 \<Longrightarrow> (word_of_nat a :: 32 word) = word_of_nat b \<longleftrightarrow> a = b"
  by (simp add: word_of_nat_eq_iff take_bit_nat_eq_self)

lemma fnv_step_inj: "fnv_write [a] v = fnv_write [b] w \<longleftrightarrow> v XOR word_of_nat a = w XOR word_of_nat b"
  by (simp add: fnv_write_def fnv_prime_inj)

lemma xor_cancel: "v XOR x = w XOR x \<longleftrightarrow> v = w" "x XOR v = x XOR w \<longleftrightarrow> v = (w :: 'a :: len word)"
  by (metis xor.assoc xor_self_eq xor.right_neutral, metis xor.assoc xor_self_eq xor.left_neutral)

lemma fnv_write_inj: "fnv_write xs v = fnv_write xs w \<longleftrightarrow> v = w"
proof (induction xs arbitrary: v w)
  case (Cons x xs)
  have "fnv_write (x # xs) u = fnv_write xs (fnv_write [x] u)" for u by (simp add: fnv_write_def)
  with Cons show ?case by (simp add: fnv_step_inj xor_cancel)
qed (simp add: fnv_write_def)

text \<open>
  Two byte strings that differ in exactly one byte have different hashes: every round of FNV is a
  bijection of the 32-bit state (the prime is invertible modulo \<open>2 ^ 32\<close>).
\<close>

theorem fnv_one_byte:
  assumes "a < 256" and "b < 256" and "a \<noteq> b"
  shows "fnv_sum32 (fnv_write (xs @ a # ys) v) \<noteq> fnv_sum32 (fnv_write (xs @ b # ys) v)"
proof -
  have "fnv_write (xs @ c # ys) v = fnv_write ys (fnv_write [c] (fnv_write xs v))" for c
    by (simp add: fnv_write_def)
  moreover have "fnv_write [a] (fnv_write xs v) \<noteq> fnv_write [b] (fnv_write xs v)"
    using assms by (simp add: fnv_step_inj xor_cancel word_of_nat_byte)
  ultimately show ?thesis by (simp add: fnv_sum32_def fnv_write_inj flip: word_unat_eq_iff)
qed

lemma fnv_one_byte_witness: "fnv_sum32 (fnv_write [1, 2, 3] fnv_reset) \<noteq> fnv_sum32 (fnv_write [1, 7, 3] fnv_reset)"
  using fnv_one_byte [of 2 7 "[1]" "[3]" fnv_reset] by simp

lemma alphanums_nth: "i < 27 \<Longrightarrow> alphanums ! i \<in> set alphanums"
  by (rule nth_mem) (simp add: alphanums_def)

lemma safeEncodeString_chars: "set (safeEncodeString s) \<subseteq> set alphanums"
proof -
  have "length alphanums = 27" by (simp add: alphanums_def)
  then show ?thesis by (auto simp: safeEncodeString_def intro: alphanums_nth)
qed

lemma show_nat_length: "n < 10 ^ k \<Longrightarrow> k > 0 \<Longrightarrow> length (show_nat n) \<le> k"
proof (induction k arbitrary: n)
  case (Suc k)
  show ?case
  proof (cases "n < 10")
    case False
    with Suc.prems have "n div 10 < 10 ^ k" "k > 0" by (auto simp: less_mult_imp_div_less intro!: gr0I)
    with Suc.IH False show ?thesis by (subst show_nat.simps) simp
  qed (subst show_nat.simps, simp)
qed simp

lemma computeHash_shape: "computeHash t c \<noteq> [] \<and> length (computeHash t c) \<le> 10 \<and> set (computeHash t c) \<subseteq> set alphanums"
proof -
  have "fnv_sum32 v < 10 ^ 10" for v
  proof -
    have "unat v < 2 ^ LENGTH(32)" by (rule unsigned_less)
    then show ?thesis by (simp add: fnv_sum32_def)
  qed
  then have "length (show_nat (fnv_sum32 v)) \<le> 10" for v by (rule show_nat_length) simp
  then show ?thesis using safeEncodeString_chars by (auto simp: computeHash_def safeEncodeString_def Let_def)
qed

section \<open>Properties of equality\<close>

text \<open>
  C36. Without options, \<open>deepEqual\<close> of two JSON values is equality up to the order of the fields of
  their objects, at every level; in particular it is an equivalence relation.
\<close>

theorem deep_equal_canon:
  assumes "json_ok l" and "json_ok r"
  shows "deepEqual no_options l r \<longleftrightarrow> canon l = canon r"
  unfolding deepEqual_def by (rule equal_at_canon [OF assms])

lemma deep_equal_canon_witness:
  "deepEqual no_options (JObj [(''a'', JNum 1), (''b'', JArr [JNull])]) (JObj [(''b'', JArr [JNull]), (''a'', JNum 1)])"
  using deep_equal_canon [of "JObj [(''a'', JNum 1), (''b'', JArr [JNull])]" "JObj [(''b'', JArr [JNull]), (''a'', JNum 1)]"]
  by (simp add: sort_key_def)

end
