(* ===== verification/Etcd.thy ===== *)
theory Etcd
  imports SortedMap Json
begin

text \<open>
  The in-memory etcd of \<open>src/cluster/etcd.ts\<close>: the class \<open>FakeState\<close> with its key histories, range
  reads at a revision, puts, deletes, transactions, compaction and watches, and \<open>Range\<close>,
  \<open>prefixRangeEnd\<close> and the helpers. A key is its list of UTF-16 code units (keys hold no surrogate
  pairs), a buffer its list of bytes; the code's conversions of keys to buffers and back are the
  identity. \<open>localeCompare\<close>, which orders the histories, is the parameter \<open>lc\<close>. An operation that
  throws returns the error together with the state it leaves.
\<close>

type_synonym utf16 = "nat list"
type_synonym bytes = "nat list"

section \<open>Messages\<close>

datatype etcd_code = ErrEmptyKey | ErrCompacted | ErrFutureRev | ErrInvalidRange
  | ErrInvalidArgument | ErrUnsupported | ErrClosed

datatype etcd_error = EtcdError (ee_message: string) (ee_code: etcd_code)

record response_header =
  rh_cluster_id :: string
  rh_member_id :: string
  rh_revision :: string
  rh_raft_term :: string

record key_value =
  kv_key :: utf16
  kv_value :: bytes
  kv_create_revision :: string
  kv_mod_revision :: string
  kv_version :: string
  kv_lease :: string

record range_response =
  rr_header :: response_header
  rr_kvs :: "key_value list"
  rr_count :: string
  rr_more :: bool

record put_response =
  pr_header :: response_header
  pr_prev_kv :: "key_value option"

record delete_response =
  dr_header :: response_header
  dr_deleted :: string
  dr_prev_kvs :: "key_value list"

datatype event_type = PutEvent | DeleteEvent

record watch_event =
  we_type :: event_type
  we_kv :: key_value
  we_prev_kv :: "key_value option"

record watch_response =
  wr_header :: response_header
  wr_watch_id :: string
  wr_created :: bool
  wr_canceled :: bool
  wr_compact_revision :: string
  wr_cancel_reason :: string
  wr_events :: "watch_event list"

datatype sort_target = SortKey | SortVersion | SortCreate | SortMod | SortValue
datatype sort_order = SortNone | SortAscend | SortDescend
datatype compare_result = CompareEqual | CompareGreater | CompareLess | CompareNotEqual
datatype compare_target = TargetVersion | TargetCreate | TargetMod | TargetValue | TargetLease

text \<open>A \<open>Compare\<close>; the numbers may come as strings, which \<open>Number\<close> converts.\<close>

record compare =
  ct_result :: "compare_result option"
  ct_target :: "compare_target option"
  ct_key :: "utf16 option"
  ct_version :: "int option"
  ct_create_revision :: "int option"
  ct_mod_revision :: "int option"
  ct_value :: "bytes option"
  ct_lease :: "int option"

record range_options =
  ro_key :: utf16
  ro_rangeEnd :: utf16
  ro_limit :: nat
  ro_revision :: "int option"
  ro_sortTarget :: sort_target
  ro_sortOrder :: sort_order
  ro_keysOnly :: bool
  ro_countOnly :: bool
  ro_minModRevision :: "int option"
  ro_maxModRevision :: "int option"
  ro_minCreateRevision :: "int option"
  ro_maxCreateRevision :: "int option"

record delete_options =
  do_key :: utf16
  do_rangeEnd :: utf16
  do_prevKv :: bool

record put_options =
  po_key :: utf16
  po_value :: "bytes option"
  po_prevKv :: bool
  po_ignoreValue :: bool

record watch_options =
  wo_key :: utf16
  wo_rangeEnd :: utf16
  wo_startRevision :: "int option"
  wo_prevKv :: bool
  wo_filters :: "event_type list"

text \<open>A request of a transaction; only the presence of a nested transaction matters.\<close>

record request_op =
  request_range :: "range_options option"
  request_put :: "put_options option"
  request_delete_range :: "delete_options option"
  request_txn :: bool

datatype response_op = RangeDone range_response | PutDone put_response | DeleteDone delete_response

record txn_request =
  tr_compare :: "compare list"
  tr_success :: "request_op list"
  tr_failure :: "request_op list"

record txn_response =
  ts_header :: response_header
  ts_succeeded :: bool
  ts_responses :: "response_op list"

record stored_value =
  sv_key :: utf16
  sv_value :: bytes
  sv_createRevision :: nat
  sv_modRevision :: nat
  sv_version :: nat

record stored_revision =
  sr_key :: utf16
  sr_value :: "bytes option"
  sr_createRevision :: nat
  sr_modRevision :: nat
  sr_version :: nat
  sr_deleted :: bool
  sr_historyRevision :: nat

record revision_event =
  re_revision :: nat
  re_event :: watch_event

section \<open>Keys and ranges\<close>

definition zeroKey :: utf16 where
  "zeroKey = [0]"

definition isKeyInRange :: "utf16 \<Rightarrow> utf16 \<Rightarrow> utf16 \<Rightarrow> bool" where
  "isKeyInRange key start rangeEnd =
     (if rangeEnd = [] then key = start
      else if rangeEnd = zeroKey then key \<ge> start
      else key \<ge> start \<and> key < rangeEnd)"

text \<open>The loop of \<open>prefixRangeEnd\<close> over the reversed characters.\<close>

fun bump_last :: "nat list \<Rightarrow> utf16 option" where
  "bump_last [] = None"
| "bump_last (c # rest) = (if c = 0xffff then bump_last rest else Some (rev rest @ [c + 1]))"

definition prefixRangeEnd :: "utf16 \<Rightarrow> utf16" where
  "prefixRangeEnd p =
     (if length p = 0 then zeroKey
      else case bump_last (rev p) of Some e \<Rightarrow> e | None \<Rightarrow> zeroKey)"

definition namespacedKey :: "utf16 \<Rightarrow> utf16 \<Rightarrow> utf16" where
  "namespacedKey ns key = ns @ key"

definition unprefixKey :: "utf16 \<Rightarrow> utf16 \<Rightarrow> utf16" where
  "unprefixKey key ns = (if ns \<noteq> [] \<and> prefix ns key then drop (length ns) key else key)"

definition namespacedRangeEnd :: "utf16 \<Rightarrow> utf16 \<Rightarrow> utf16" where
  "namespacedRangeEnd ns rangeEnd =
     (if rangeEnd = [] then []
      else if rangeEnd = zeroKey then (if ns = [] then zeroKey else prefixRangeEnd ns)
      else ns @ rangeEnd)"

definition rangesOverlap :: "utf16 \<times> utf16 \<Rightarrow> utf16 \<times> utf16 \<Rightarrow> bool" where
  "rangesOverlap left right \<longleftrightarrow>
     isKeyInRange (fst left) (fst right) (snd right) \<or> isKeyInRange (fst right) (fst left) (snd left)"

text \<open>The class \<open>Range\<close>: an empty buffer compares as infinity.\<close>

definition compareBuffers :: "bytes \<Rightarrow> bytes \<Rightarrow> int" where
  "compareBuffers a b =
     (if length a = 0 then (if length b = 0 then 0 else 1)
      else if length b = 0 then -1
      else order_cmp a b)"

definition range_includes :: "bytes \<times> bytes \<Rightarrow> bytes \<Rightarrow> bool" where
  "range_includes r v \<longleftrightarrow> compareBuffers (fst r) v \<le> 0 \<and> compareBuffers (snd r) v > 0"

definition range_compare :: "bytes \<times> bytes \<Rightarrow> bytes \<times> bytes \<Rightarrow> int" where
  "range_compare this other =
     (let ivbCmpBegin = compareBuffers (fst this) (fst other);
          ivbCmpEnd = compareBuffers (fst this) (snd other);
          iveCmpBegin = compareBuffers (snd this) (fst other)
      in if ivbCmpBegin < 0 \<and> iveCmpBegin \<le> 0 then -1
         else if ivbCmpEnd \<ge> 0 then 1
         else 0)"

definition range_prefix :: "utf16 \<Rightarrow> utf16 \<times> utf16" where
  "range_prefix p = (p, prefixRangeEnd p)"

section \<open>Revisions of a key\<close>

definition toPublicKv :: "stored_value \<Rightarrow> utf16 \<Rightarrow> bool \<Rightarrow> key_value" where
  "toPublicKv v ns keysOnly =
     \<lparr>kv_key = (if prefix ns (sv_key v) then drop (length ns) (sv_key v) else sv_key v),
      kv_value = (if keysOnly then [] else sv_value v),
      kv_create_revision = show_nat (sv_createRevision v),
      kv_mod_revision = show_nat (sv_modRevision v),
      kv_version = show_nat (sv_version v),
      kv_lease = []\<rparr>"

definition value_of :: "stored_revision \<Rightarrow> stored_value" where
  "value_of r = \<lparr>sv_key = sr_key r, sv_value = (case sr_value r of Some v \<Rightarrow> v | None \<Rightarrow> []),
     sv_createRevision = sr_createRevision r, sv_modRevision = sr_modRevision r, sv_version = sr_version r\<rparr>"

definition currentValue :: "stored_revision list \<Rightarrow> stored_value option" where
  "currentValue revisions =
     (if revisions = [] \<or> sr_deleted (last revisions) then None else Some (value_of (last revisions)))"

text \<open>The bisection of \<open>findRevisionAtOrBefore\<close>.\<close>

function find_revision :: "stored_revision list \<Rightarrow> nat \<Rightarrow> int \<Rightarrow> int \<Rightarrow> stored_revision option \<Rightarrow> stored_revision option" where
  "find_revision revisions revision low high result =
     (if low \<le> high then
        (let mid = (low + high) div 2 in
         if mid < 0 \<or> nat mid \<ge> length revisions then result
         else let candidate = revisions ! nat mid in
           if sr_modRevision candidate \<le> revision
           then find_revision revisions revision (mid + 1) high (Some candidate)
           else find_revision revisions revision low (mid - 1) result)
      else result)"
  by pat_completeness auto
termination
  by (relation "measure (\<lambda>(revs, r, low, high, res). nat (high - low + 1))") auto

declare find_revision.simps [simp del]

definition findRevisionAtOrBefore :: "stored_revision list \<Rightarrow> nat \<Rightarrow> stored_revision option" where
  "findRevisionAtOrBefore revisions revision = find_revision revisions revision 0 (int (length revisions) - 1) None"

definition resolveStoredValueAt :: "stored_revision list \<Rightarrow> nat \<Rightarrow> stored_value option" where
  "resolveStoredValueAt revisions revision =
     (case findRevisionAtOrBefore revisions revision of
        None \<Rightarrow> None
      | Some r \<Rightarrow> if sr_deleted r then None else Some (value_of r))"

section \<open>Watchers\<close>

datatype emission = EmitConnected watch_response | EmitData watch_response
  | EmitPut key_value "key_value option" | EmitDelete key_value "key_value option"
  | EmitError etcd_error | EmitDisconnected etcd_error | EmitEnd

record watcher =
  wt_id :: nat
  wt_namespace :: utf16
  wt_options :: watch_options
  wt_connected :: bool
  wt_ended :: bool
  wt_out :: "emission list"

definition header_at :: "nat \<Rightarrow> response_header" where
  "header_at revision = \<lparr>rh_cluster_id = ''0'', rh_member_id = ''0'', rh_revision = show_nat revision, rh_raft_term = ''0''\<rparr>"

definition watcher_connect :: "response_header \<Rightarrow> watcher \<Rightarrow> watcher" where
  "watcher_connect hdr w =
     (if wt_connected w \<or> wt_ended w then w
      else w\<lparr>wt_connected := True,
             wt_out := wt_out w @ [EmitConnected
               \<lparr>wr_header = hdr, wr_watch_id = show_nat (wt_id w), wr_created = True, wr_canceled = False,
                wr_compact_revision = ''0'', wr_cancel_reason = [], wr_events = []\<rparr>]\<rparr>)"

text \<open>The events of a batch that a watcher reports, with the revision of the last one.\<close>

definition watched_event :: "utf16 \<Rightarrow> watch_options \<Rightarrow> revision_event \<Rightarrow> watch_event option" where
  "watched_event ns opts r =
     (let e = re_event r; rawEventKey = kv_key (we_kv e) in
      if \<not> isKeyInRange rawEventKey (namespacedKey ns (wo_key opts)) (namespacedRangeEnd ns (wo_rangeEnd opts)) then None
      else if we_type e \<in> set (wo_filters opts) then None
      else Some \<lparr>we_type = we_type e,
                 we_kv = (we_kv e)\<lparr>kv_key := unprefixKey rawEventKey ns\<rparr>,
                 we_prev_kv = (if wo_prevKv opts
                   then map_option (\<lambda>p. p\<lparr>kv_key := unprefixKey (kv_key p) ns\<rparr>) (we_prev_kv e) else None)\<rparr>)"

fun watched_batch :: "utf16 \<Rightarrow> watch_options \<Rightarrow> revision_event list \<Rightarrow> watch_event list \<times> nat option" where
  "watched_batch ns opts [] = ([], None)"
| "watched_batch ns opts (r # rs) =
     (let (matched, rev) = watched_batch ns opts rs in
      case watched_event ns opts r of
        None \<Rightarrow> (matched, rev)
      | Some e \<Rightarrow> (e # matched, case rev of Some v \<Rightarrow> Some v | None \<Rightarrow> Some (re_revision r)))"

definition emit_event :: "watch_event \<Rightarrow> emission" where
  "emit_event e = (case we_type e of PutEvent \<Rightarrow> EmitPut (we_kv e) (we_prev_kv e)
     | DeleteEvent \<Rightarrow> EmitDelete (we_kv e) (we_prev_kv e))"

definition handleMany :: "revision_event list \<Rightarrow> watcher \<Rightarrow> watcher" where
  "handleMany records w =
     (if \<not> wt_connected w \<or> wt_ended w then w
      else case watched_batch (wt_namespace w) (wt_options w) records of
        (matched, None) \<Rightarrow> w
      | (matched, Some responseRevision) \<Rightarrow>
          if matched = [] then w
          else w\<lparr>wt_out := wt_out w @ EmitData
               \<lparr>wr_header = header_at responseRevision, wr_watch_id = show_nat (wt_id w), wr_created = False,
                wr_canceled = False, wr_compact_revision = ''0'', wr_cancel_reason = [], wr_events = matched\<rparr>
               # map emit_event matched\<rparr>)"

definition watcher_fail :: "etcd_error \<Rightarrow> response_header \<Rightarrow> nat \<Rightarrow> watcher \<Rightarrow> watcher" where
  "watcher_fail err hdr compactRevision w =
     w\<lparr>wt_connected := False,
       wt_out := wt_out w @ [EmitError err, EmitData
         \<lparr>wr_header = hdr, wr_watch_id = show_nat (wt_id w), wr_created = False, wr_canceled = True,
          wr_compact_revision = show_nat compactRevision, wr_cancel_reason = ee_message err, wr_events = []\<rparr>]\<rparr>"

definition watcher_end :: "watcher \<Rightarrow> watcher" where
  "watcher_end w = (if wt_ended w then w
     else w\<lparr>wt_ended := True, wt_connected := False, wt_out := wt_out w @ [EmitEnd]\<rparr>)"

definition watcher_disconnect :: "etcd_error \<Rightarrow> watcher \<Rightarrow> watcher" where
  "watcher_disconnect err w = (if wt_ended w then w
     else w\<lparr>wt_ended := True, wt_connected := False, wt_out := wt_out w @ [EmitDisconnected err]\<rparr>)"

section \<open>The state\<close>

record fake_state =
  es_revision :: nat
  es_nextWatchId :: nat
  es_nextLeaseId :: nat
  es_compactedRevision :: nat
  es_histories :: "(utf16, stored_revision list) smap"
  es_history :: "(nat, revision_event list) smap"
  es_watchers :: "watcher list"
  es_leases :: "(string, utf16) jmap"
  es_retainedRevisions :: nat

definition new_fake_state :: "int option \<Rightarrow> fake_state" where
  "new_fake_state retained =
     \<lparr>es_revision = 0, es_nextWatchId = 1, es_nextLeaseId = 1, es_compactedRevision = 0, es_histories = [],
      es_history = [], es_watchers = [], es_leases = [],
      es_retainedRevisions = nat (max 1 (case retained of Some n \<Rightarrow> n | None \<Rightarrow> 3))\<rparr>"

type_synonym order = "utf16 \<Rightarrow> utf16 \<Rightarrow> int"

definition etcd_header :: "fake_state \<Rightarrow> response_header" where
  "etcd_header s = header_at (es_revision s)"

text \<open>The history of a key, empty when it was never written.\<close>

definition revisions_of :: "order \<Rightarrow> utf16 \<Rightarrow> fake_state \<Rightarrow> stored_revision list" where
  "revisions_of lc key s = (case sm_get lc (es_histories s) key of Some rs \<Rightarrow> rs | None \<Rightarrow> [])"

definition resolveRevision :: "int option \<Rightarrow> fake_state \<Rightarrow> etcd_error + nat" where
  "resolveRevision requested s =
     (case requested of
        None \<Rightarrow> Inr (es_revision s)
      | Some r \<Rightarrow>
          if r \<le> 0 then Inr (es_revision s)
          else if r > int (es_revision s) then
            Inl (EtcdError ''etcdserver: mvcc: required revision is a future revision'' ErrFutureRev)
          else Inr (nat r))"

definition compactedRevisionForRange :: "int \<Rightarrow> fake_state \<Rightarrow> nat option" where
  "compactedRevisionForRange revision s =
     (if revision \<le> 0 then None
      else if revision \<le> int (es_compactedRevision s) then Some (es_compactedRevision s)
      else None)"

definition compacted_error :: etcd_error where
  "compacted_error = EtcdError ''etcdserver: mvcc: required revision has been compacted'' ErrCompacted"

definition no_key_error :: etcd_error where
  "no_key_error = EtcdError ''etcdserver: key is not provided'' ErrEmptyKey"

definition assertValidRange :: "utf16 \<Rightarrow> utf16 \<Rightarrow> etcd_error option" where
  "assertValidRange key rangeEnd = (if length key = 0 \<and> rangeEnd \<noteq> zeroKey then Some no_key_error else None)"

text \<open>\<open>iterateRange\<close> starts at the first key not below \<open>start\<close> and stops at the first key outside the range.\<close>

definition iterateRange :: "order \<Rightarrow> (utf16, 'v) smap \<Rightarrow> utf16 \<Rightarrow> utf16 \<Rightarrow> (utf16 \<times> 'v) list" where
  "iterateRange lc items start rangeEnd =
     takeWhile (\<lambda>e. isKeyInRange (fst e) start rangeEnd) (sm_entriesFrom lc start items)"

section \<open>Range reads\<close>

text \<open>The primary part of a sort key is a number or a text, compared by \<open><\<close>.\<close>

datatype sort_primary = PrimaryNumber nat | PrimaryText utf16

instantiation sort_primary :: linorder
begin

fun less_eq_sort_primary :: "sort_primary \<Rightarrow> sort_primary \<Rightarrow> bool" where
  "less_eq_sort_primary (PrimaryNumber m) (PrimaryNumber n) = (m \<le> n)"
| "less_eq_sort_primary (PrimaryNumber m) (PrimaryText t) = True"
| "less_eq_sort_primary (PrimaryText s) (PrimaryNumber n) = False"
| "less_eq_sort_primary (PrimaryText s) (PrimaryText t) = (s \<le> t)"

definition less_sort_primary :: "sort_primary \<Rightarrow> sort_primary \<Rightarrow> bool" where
  "less_sort_primary x y \<longleftrightarrow> x \<le> y \<and> \<not> y \<le> x"

instance
proof
  fix x y z :: sort_primary
  show "x < y \<longleftrightarrow> x \<le> y \<and> \<not> y \<le> x" by (simp add: less_sort_primary_def)
  show "x \<le> x" by (cases x) auto
  show "x \<le> y \<Longrightarrow> y \<le> z \<Longrightarrow> x \<le> z" by (cases x; cases y; cases z) auto
  show "x \<le> y \<Longrightarrow> y \<le> x \<Longrightarrow> x = y" by (cases x; cases y) auto
  show "x \<le> y \<or> y \<le> x" by (cases x; cases y) auto
qed

end

type_synonym sort_key = "sort_primary \<times> utf16"

definition makeSortKey :: "stored_value \<Rightarrow> sort_target \<Rightarrow> sort_key" where
  "makeSortKey v target =
     ((case target of
         SortCreate \<Rightarrow> PrimaryNumber (sv_createRevision v)
       | SortMod \<Rightarrow> PrimaryNumber (sv_modRevision v)
       | SortVersion \<Rightarrow> PrimaryNumber (sv_version v)
       | SortValue \<Rightarrow> PrimaryText (sv_value v)
       | SortKey \<Rightarrow> PrimaryText (sv_key v)), sv_key v)"

definition compareSortKeys :: "order \<Rightarrow> sort_order \<Rightarrow> sort_key \<Rightarrow> sort_key \<Rightarrow> int" where
  "compareSortKeys lc ord left right =
     (let factor = (if ord = SortDescend then -1 else 1) in
      if fst left < fst right then -1 * factor
      else if fst left > fst right then 1 * factor
      else lc (snd left) (snd right))"

definition passesRangeFilters :: "stored_value \<Rightarrow> range_options \<Rightarrow> bool" where
  "passesRangeFilters v opts \<longleftrightarrow>
     (case ro_minModRevision opts of Some n \<Rightarrow> int (sv_modRevision v) \<ge> n | None \<Rightarrow> True) \<and>
     (case ro_maxModRevision opts of Some n \<Rightarrow> int (sv_modRevision v) \<le> n | None \<Rightarrow> True) \<and>
     (case ro_minCreateRevision opts of Some n \<Rightarrow> int (sv_createRevision v) \<ge> n | None \<Rightarrow> True) \<and>
     (case ro_maxCreateRevision opts of Some n \<Rightarrow> int (sv_createRevision v) \<le> n | None \<Rightarrow> True)"

text \<open>The loop that fills \<open>ordered\<close>.\<close>

fun range_collect :: "order \<Rightarrow> range_options \<Rightarrow> nat \<Rightarrow> (utf16 \<times> stored_revision list) list \<Rightarrow>
    (sort_key, stored_value) smap \<Rightarrow> (sort_key, stored_value) smap" where
  "range_collect lc opts revision [] ordered = ordered"
| "range_collect lc opts revision ((k, revisions) # es) ordered =
     (case resolveStoredValueAt revisions revision of
        None \<Rightarrow> range_collect lc opts revision es ordered
      | Some v \<Rightarrow>
          if \<not> passesRangeFilters v opts then range_collect lc opts revision es ordered
          else range_collect lc opts revision es
            (sm_set (compareSortKeys lc (ro_sortOrder opts)) (makeSortKey v (ro_sortTarget opts)) v ordered))"

definition etcd_range :: "order \<Rightarrow> utf16 \<Rightarrow> range_options \<Rightarrow> fake_state \<Rightarrow> etcd_error + range_response" where
  "etcd_range lc ns opts s =
     (case assertValidRange (ro_key opts) (ro_rangeEnd opts) of
        Some err \<Rightarrow> Inl err
      | None \<Rightarrow>
     case resolveRevision (ro_revision opts) s of
        Inl err \<Rightarrow> Inl err
      | Inr revision \<Rightarrow>
          if (case ro_revision opts of Some r \<Rightarrow> r > 0 | None \<Rightarrow> False) \<and>
             compactedRevisionForRange (int revision) s \<noteq> None then Inl compacted_error
          else
            let ordered = range_collect lc opts revision
                  (iterateRange lc (es_histories s) (namespacedKey ns (ro_key opts)) (namespacedRangeEnd ns (ro_rangeEnd opts))) [];
                count = length ordered;
                listed = (if ro_limit opts > 0 then take (ro_limit opts) ordered else ordered)
            in Inr \<lparr>rr_header = header_at revision,
                    rr_kvs = (if ro_countOnly opts then [] else map (\<lambda>e. toPublicKv (snd e) ns (ro_keysOnly opts)) listed),
                    rr_count = show_nat count,
                    rr_more = ro_limit opts > 0 \<and> count > ro_limit opts\<rparr>)"

section \<open>Writes\<close>

definition bumpRevision :: "fake_state \<Rightarrow> fake_state" where
  "bumpRevision s = s\<lparr>es_revision := es_revision s + 1\<rparr>"

text \<open>The loop that drops the oldest revisions of a key and raises the compacted revision.\<close>

fun trim_revisions :: "nat \<Rightarrow> stored_revision list \<Rightarrow> nat \<Rightarrow> stored_revision list \<times> nat" where
  "trim_revisions retained [] compacted = ([], compacted)"
| "trim_revisions retained (r # rs) compacted =
     (if length (r # rs) > retained then trim_revisions retained rs (max compacted (sr_historyRevision r))
      else (r # rs, compacted))"

definition appendRevision :: "order \<Rightarrow> utf16 \<Rightarrow> stored_revision \<Rightarrow> watch_event \<Rightarrow> fake_state \<Rightarrow> revision_event \<times> fake_state" where
  "appendRevision lc key r event s =
     (let record = \<lparr>re_revision = sr_modRevision r, re_event = event\<rparr>;
          records = (case sm_get number_cmp (es_history s) (sr_modRevision r) of Some rs \<Rightarrow> rs | None \<Rightarrow> []) @ [record];
          (revisions, compacted) = trim_revisions (es_retainedRevisions s) (revisions_of lc key s @ [r]) (es_compactedRevision s)
      in (record,
          s\<lparr>es_history := sm_set number_cmp (sr_modRevision r) records (es_history s),
            es_compactedRevision := compacted,
            es_histories := sm_set lc key revisions (es_histories s)\<rparr>))"

definition applyPutAtRevision :: "order \<Rightarrow> utf16 \<Rightarrow> put_options \<Rightarrow> nat \<Rightarrow> fake_state \<Rightarrow>
    (etcd_error + put_response \<times> revision_event list) \<times> fake_state" where
  "applyPutAtRevision lc ns opts revision s =
     (if length (po_key opts) = 0 then (Inl no_key_error, s)
      else let key = namespacedKey ns (po_key opts); existing = currentValue (revisions_of lc key s) in
        if po_ignoreValue opts \<and> existing = None then
          (Inl (EtcdError ''etcdserver: key not found'' ErrInvalidArgument), s)
        else
          let nextValue = \<lparr>sv_key = key,
                sv_value = (case existing of
                    Some e \<Rightarrow> if po_ignoreValue opts then sv_value e else (case po_value opts of Some v \<Rightarrow> v | None \<Rightarrow> [])
                  | None \<Rightarrow> (case po_value opts of Some v \<Rightarrow> v | None \<Rightarrow> [])),
                sv_createRevision = (case existing of Some e \<Rightarrow> sv_createRevision e | None \<Rightarrow> revision),
                sv_modRevision = revision,
                sv_version = (case existing of Some e \<Rightarrow> sv_version e | None \<Rightarrow> 0) + 1\<rparr>;
              (record, s') = appendRevision lc key
                \<lparr>sr_key = key, sr_value = Some (sv_value nextValue), sr_createRevision = sv_createRevision nextValue,
                 sr_modRevision = revision, sr_version = sv_version nextValue, sr_deleted = False,
                 sr_historyRevision = revision\<rparr>
                \<lparr>we_type = PutEvent, we_kv = toPublicKv nextValue [] False,
                 we_prev_kv = map_option (\<lambda>e. toPublicKv e [] False) existing\<rparr> s
          in (Inr (\<lparr>pr_header = header_at revision,
                    pr_prev_kv = (if po_prevKv opts then map_option (\<lambda>e. toPublicKv e ns False) existing else None)\<rparr>,
                   [record]), s'))"

definition collectDeleted :: "order \<Rightarrow> utf16 \<Rightarrow> delete_options \<Rightarrow> fake_state \<Rightarrow> etcd_error + stored_value list" where
  "collectDeleted lc ns opts s =
     (case assertValidRange (do_key opts) (do_rangeEnd opts) of
        Some err \<Rightarrow> Inl err
      | None \<Rightarrow> Inr (List.map_filter (\<lambda>e. currentValue (snd e))
          (iterateRange lc (es_histories s) (namespacedKey ns (do_key opts)) (namespacedRangeEnd ns (do_rangeEnd opts)))))"

text \<open>The loop of \<open>applyDeleteAtRevision\<close> over the values it deletes.\<close>

fun delete_values :: "order \<Rightarrow> nat \<Rightarrow> stored_value list \<Rightarrow> fake_state \<Rightarrow> revision_event list \<times> fake_state" where
  "delete_values lc revision [] s = ([], s)"
| "delete_values lc revision (v # vs) s =
     (let absolutePrevKv = toPublicKv v [] False;
          (record, s') = appendRevision lc (sv_key v)
            \<lparr>sr_key = sv_key v, sr_value = None, sr_createRevision = sv_createRevision v, sr_modRevision = revision,
             sr_version = sv_version v, sr_deleted = True, sr_historyRevision = revision\<rparr>
            \<lparr>we_type = DeleteEvent, we_kv = absolutePrevKv\<lparr>kv_mod_revision := show_nat revision\<rparr>,
             we_prev_kv = Some absolutePrevKv\<rparr> s;
          (records, s'') = delete_values lc revision vs s'
      in (record # records, s''))"

definition applyDeleteAtRevision :: "order \<Rightarrow> utf16 \<Rightarrow> delete_options \<Rightarrow> nat \<Rightarrow> stored_value list \<Rightarrow> fake_state \<Rightarrow>
    (delete_response \<times> revision_event list) \<times> fake_state" where
  "applyDeleteAtRevision lc ns opts revision deleted s =
     (let (records, s') = delete_values lc revision deleted s in
      ((\<lparr>dr_header = header_at revision, dr_deleted = show_nat (length deleted),
         dr_prev_kvs = (if do_prevKv opts then map (\<lambda>v. toPublicKv v ns False) deleted else [])\<rparr>, records), s'))"

definition publish :: "revision_event list \<Rightarrow> fake_state \<Rightarrow> fake_state" where
  "publish records s = s\<lparr>es_watchers := map (handleMany records) (es_watchers s)\<rparr>"

definition etcd_put :: "order \<Rightarrow> utf16 \<Rightarrow> put_options \<Rightarrow> fake_state \<Rightarrow> (etcd_error + put_response) \<times> fake_state" where
  "etcd_put lc ns opts s =
     (let s = bumpRevision s in
      case applyPutAtRevision lc ns opts (es_revision s) s of
        (Inl err, s) \<Rightarrow> (Inl err, s)
      | (Inr (response, records), s) \<Rightarrow> (Inr response, publish records s))"

definition etcd_delete :: "order \<Rightarrow> utf16 \<Rightarrow> delete_options \<Rightarrow> fake_state \<Rightarrow> (etcd_error + delete_response) \<times> fake_state" where
  "etcd_delete lc ns opts s =
     (case collectDeleted lc ns opts s of
        Inl err \<Rightarrow> (Inl err, s)
      | Inr deleted \<Rightarrow>
          if length deleted = 0 then
            (Inr \<lparr>dr_header = etcd_header s, dr_deleted = ''0'', dr_prev_kvs = []\<rparr>, s)
          else
            let s = bumpRevision s;
                ((response, records), s) = applyDeleteAtRevision lc ns opts (es_revision s) deleted s
            in (Inr response, publish records s))"

section \<open>Transactions\<close>

definition cmp_holds :: "compare_result option \<Rightarrow> int \<Rightarrow> bool" where
  "cmp_holds result c =
     (case result of
        Some CompareGreater \<Rightarrow> c > 0
      | Some CompareLess \<Rightarrow> c < 0
      | Some CompareNotEqual \<Rightarrow> c \<noteq> 0
      | _ \<Rightarrow> c = 0)"

definition or_zero :: "int option \<Rightarrow> int" where
  "or_zero n = (case n of Some i \<Rightarrow> i | None \<Rightarrow> 0)"

definition evaluateCompare :: "order \<Rightarrow> compare \<Rightarrow> fake_state \<Rightarrow> bool" where
  "evaluateCompare lc c s =
     (let key = (case ct_key c of Some k \<Rightarrow> k | None \<Rightarrow> []);
          current = currentValue (revisions_of lc key s);
          number = (\<lambda>f. case current of Some v \<Rightarrow> int (f v) | None \<Rightarrow> 0)
      in cmp_holds (ct_result c)
           (case ct_target c of
              Some TargetValue \<Rightarrow>
                order_cmp (case current of Some v \<Rightarrow> sv_value v | None \<Rightarrow> []) (case ct_value c of Some v \<Rightarrow> v | None \<Rightarrow> [])
            | Some TargetCreate \<Rightarrow> number sv_createRevision - or_zero (ct_create_revision c)
            | Some TargetMod \<Rightarrow> number sv_modRevision - or_zero (ct_mod_revision c)
            | Some TargetLease \<Rightarrow> 0 - or_zero (ct_lease c)
            | _ \<Rightarrow> number sv_version - or_zero (ct_version c)))"

text \<open>The range a request writes, and the check that no two writes of a transaction overlap.\<close>

definition write_range :: "request_op \<Rightarrow> (utf16 \<times> utf16) option" where
  "write_range op =
     (case request_put op of
        Some p \<Rightarrow> Some (po_key p, [])
      | None \<Rightarrow> map_option (\<lambda>d. (do_key d, do_rangeEnd d)) (request_delete_range op))"

fun write_ranges_valid :: "request_op list \<Rightarrow> (utf16 \<times> utf16) list \<Rightarrow> etcd_error option" where
  "write_ranges_valid [] ranges = None"
| "write_ranges_valid (op # ops) ranges =
     (case write_range op of
        None \<Rightarrow> write_ranges_valid ops ranges
      | Some r \<Rightarrow>
          if \<exists>existing \<in> set ranges. rangesOverlap existing r then
            Some (EtcdError ''etcdserver: duplicate key given in txn request'' ErrInvalidArgument)
          else write_ranges_valid ops (ranges @ [r]))"

definition assertTxnWriteRangesValid :: "request_op list \<Rightarrow> etcd_error option" where
  "assertTxnWriteRangesValid ops = write_ranges_valid ops []"

text \<open>
  One request of a transaction at its revision: the response, the records, or the error that ends the
  transaction, and the state, which keeps what was written before an error.
\<close>

definition txn_op :: "order \<Rightarrow> nat \<Rightarrow> request_op \<Rightarrow> fake_state \<Rightarrow>
    (etcd_error + response_op list \<times> revision_event list) \<times> fake_state" where
  "txn_op lc revision op s =
     (case request_range op of
        Some r \<Rightarrow>
          (case etcd_range lc [] r s of
             Inl err \<Rightarrow> (Inl err, s)
           | Inr response \<Rightarrow> (Inr ([RangeDone response], []), s))
      | None \<Rightarrow>
     case request_put op of
        Some p \<Rightarrow>
          (case applyPutAtRevision lc [] p revision s of
             (Inl err, s) \<Rightarrow> (Inl err, s)
           | (Inr (response, records), s) \<Rightarrow> (Inr ([PutDone response], records), s))
      | None \<Rightarrow>
     case request_delete_range op of
        Some d \<Rightarrow>
          (case collectDeleted lc [] d s of
             Inl err \<Rightarrow> (Inl err, s)
           | Inr deleted \<Rightarrow>
               if length deleted = 0 then
                 (Inr ([DeleteDone \<lparr>dr_header = header_at revision, dr_deleted = ''0'', dr_prev_kvs = []\<rparr>], []), s)
               else
                 let ((response, records), s) = applyDeleteAtRevision lc [] d revision deleted s
                 in (Inr ([DeleteDone response], records), s))
      | None \<Rightarrow>
     if request_txn op then
       (Inl (EtcdError ''nested transactions are not implemented in the fake etcd'' ErrUnsupported), s)
     else (Inr ([], []), s))"

fun txn_ops :: "order \<Rightarrow> nat \<Rightarrow> request_op list \<Rightarrow> fake_state \<Rightarrow>
    (etcd_error + response_op list \<times> revision_event list) \<times> fake_state" where
  "txn_ops lc revision [] s = (Inr ([], []), s)"
| "txn_ops lc revision (op # ops) s =
     (case txn_op lc revision op s of
        (Inl err, s) \<Rightarrow> (Inl err, s)
      | (Inr (responses, records), s) \<Rightarrow>
          (case txn_ops lc revision ops s of
             (Inl err, s) \<Rightarrow> (Inl err, s)
           | (Inr (responses', records'), s) \<Rightarrow> (Inr (responses @ responses', records @ records'), s)))"

definition op_writes :: "request_op \<Rightarrow> bool" where
  "op_writes op \<longleftrightarrow> request_put op \<noteq> None \<or> request_delete_range op \<noteq> None"

definition etcd_txn :: "order \<Rightarrow> txn_request \<Rightarrow> fake_state \<Rightarrow> (etcd_error + txn_response) \<times> fake_state" where
  "etcd_txn lc request s =
     (let succeeded = list_all (\<lambda>c. evaluateCompare lc c s) (tr_compare request);
          operations = (if succeeded then tr_success request else tr_failure request)
      in case assertTxnWriteRangesValid operations of
           Some err \<Rightarrow> (Inl err, s)
         | None \<Rightarrow>
             let s = (if list_ex op_writes operations then bumpRevision s else s); revision = es_revision s in
             case txn_ops lc revision operations s of
               (Inl err, s) \<Rightarrow> (Inl err, s)
             | (Inr (responses, records), s) \<Rightarrow>
                 (Inr \<lparr>ts_header = header_at revision, ts_succeeded = succeeded, ts_responses = responses\<rparr>,
                  if length records > 0 then publish records s else s))"

section \<open>Compaction\<close>

text \<open>
  The loop of \<open>compact\<close> deletes from the map it iterates over: the iterator of an array goes on with
  the next index, after the deletion has moved the later entries down.
\<close>

lemma length_sm_delete: "length (sm_delete c k items) \<le> length items"
  by (auto simp: sm_delete_def Let_def)

function compact_loop :: "nat \<Rightarrow> nat \<Rightarrow> (nat, 'v) smap \<Rightarrow> (nat, 'v) smap" where
  "compact_loop revision i items =
     (if i < length items then
        (let h = fst (items ! i) in
         if h > revision then items
         else compact_loop revision (i + 1) (sm_delete number_cmp h items))
      else items)"
  by pat_completeness auto

termination
proof (relation "measure (\<lambda>(revision, i, items). length items - i)")
  fix revision i and items :: "(nat, 'v) smap" and h
  assume "i < length items"
  then show "((revision, i + 1, sm_delete number_cmp h items), revision, i, items)
      \<in> measure (\<lambda>(revision, i, items). length items - i)"
    using length_sm_delete [of number_cmp h items] by simp
qed simp

declare compact_loop.simps [simp del]

definition etcd_compact :: "int \<Rightarrow> fake_state \<Rightarrow> (etcd_error + response_header) \<times> fake_state" where
  "etcd_compact requested s =
     (case resolveRevision (Some requested) s of
        Inl err \<Rightarrow> (Inl err, s)
      | Inr revision \<Rightarrow>
          if revision \<le> 0 then (Inr (etcd_header s), s)
          else (Inr (etcd_header s),
            s\<lparr>es_compactedRevision := max (es_compactedRevision s) revision,
              es_history := compact_loop revision 0 (es_history s)\<rparr>))"

section \<open>Watches\<close>

definition etcd_watch :: "utf16 \<Rightarrow> watch_options \<Rightarrow> fake_state \<Rightarrow> (etcd_error + nat) \<times> fake_state" where
  "etcd_watch ns opts s =
     (case assertValidRange (wo_key opts) (wo_rangeEnd opts) of
        Some err \<Rightarrow> (Inl err, s)
      | None \<Rightarrow>
          (Inr (es_nextWatchId s),
           s\<lparr>es_nextWatchId := es_nextWatchId s + 1,
             es_watchers := es_watchers s @ [\<lparr>wt_id = es_nextWatchId s, wt_namespace = ns, wt_options = opts,
               wt_connected = False, wt_ended = False, wt_out = []\<rparr>]\<rparr>))"

text \<open>
  The microtask that connects the watcher: it goes live at the current revision, is to be cancelled
  when its start has been compacted, or first gets the kept history from its start. The second
  component tells that the cancellation, which runs in a timer, is pending.
\<close>

definition connect_watcher :: "fake_state \<Rightarrow> watcher \<Rightarrow> watcher \<times> nat option" where
  "connect_watcher s w =
     (let start = (case wo_startRevision (wt_options w) of Some r \<Rightarrow> r | None \<Rightarrow> 0) in
      if start \<le> 0 then (watcher_connect (etcd_header s) w, None)
      else case compactedRevisionForRange start s of
        Some compactRevision \<Rightarrow> (watcher_connect (etcd_header s) w, Some compactRevision)
      | None \<Rightarrow>
          (fold (\<lambda>(revision, records) w. handleMany records w)
             (sm_entriesFrom number_cmp (nat start) (es_history s)) (watcher_connect (etcd_header s) w), None))"

definition update_watcher :: "nat \<Rightarrow> (watcher \<Rightarrow> watcher) \<Rightarrow> fake_state \<Rightarrow> fake_state" where
  "update_watcher i f s = s\<lparr>es_watchers := map (\<lambda>w. if wt_id w = i then f w else w) (es_watchers s)\<rparr>"

definition detachWatcher :: "nat \<Rightarrow> fake_state \<Rightarrow> fake_state" where
  "detachWatcher i s = s\<lparr>es_watchers := filter (\<lambda>w. wt_id w \<noteq> i) (es_watchers s)\<rparr>"

definition watch_connects :: "nat \<Rightarrow> fake_state \<Rightarrow> fake_state" where
  "watch_connects i s = update_watcher i (\<lambda>w. fst (connect_watcher s w)) s"

text \<open>
  The timer that cancels a compacted watch, and \<open>cancelWatcher\<close>. \<open>w\<close> is the watcher as it is at the time,
  in the state or, when it has left it already, as it was left: a compacted watch is told so in both
  cases, an ended one is not ended again.
\<close>

definition watch_compacted :: "watcher \<Rightarrow> nat \<Rightarrow> fake_state \<Rightarrow> watcher \<times> fake_state" where
  "watch_compacted w compactRevision s =
     (watcher_fail (EtcdError ''Watcher canceled: '' ErrCompacted) (etcd_header s) compactRevision w,
      detachWatcher (wt_id w) s)"

definition cancelWatcher :: "watcher \<Rightarrow> fake_state \<Rightarrow> watcher \<times> fake_state" where
  "cancelWatcher w s = (watcher_end w, if wt_ended w then s else detachWatcher (wt_id w) s)"

definition etcd_close :: "fake_state \<Rightarrow> fake_state" where
  "etcd_close s = s\<lparr>es_watchers := [], es_leases := []\<rparr>"

section \<open>Locks\<close>

datatype lock_error = TtlTooShort int | LockHeld utf16 | LockEtcd etcd_error

text \<open>The timers of a lease, which call \<open>revokeLease\<close>, are outside the state.\<close>

definition acquireLock :: "order \<Rightarrow> utf16 \<Rightarrow> utf16 \<Rightarrow> int \<Rightarrow> fake_state \<Rightarrow> (lock_error + string) \<times> fake_state" where
  "acquireLock lc ns key ttlSeconds s =
     (if ttlSeconds < 1 then (Inl (TtlTooShort ttlSeconds), s)
      else
        let absoluteKey = namespacedKey ns key;
            leaseId = show_nat (es_nextLeaseId s);
            s = s\<lparr>es_nextLeaseId := es_nextLeaseId s + 1\<rparr>;
            request = \<lparr>tr_compare = [\<lparr>ct_result = Some CompareEqual, ct_target = Some TargetCreate, ct_key = Some absoluteKey,
                ct_version = None, ct_create_revision = Some 0, ct_mod_revision = None, ct_value = None, ct_lease = None\<rparr>],
              tr_success = [\<lparr>request_range = None,
                request_put = Some \<lparr>po_key = absoluteKey, po_value = Some [], po_prevKv = False, po_ignoreValue = False\<rparr>,
                request_delete_range = None, request_txn = False\<rparr>],
              tr_failure = []\<rparr>
        in case etcd_txn lc request s of
             (Inl err, s) \<Rightarrow> (Inl (LockEtcd err), s)
           | (Inr response, s) \<Rightarrow>
               if \<not> ts_succeeded response then (Inl (LockHeld key), s)
               else (Inr leaseId, s\<lparr>es_leases := jm_set leaseId absoluteKey (es_leases s)\<rparr>))"

definition revokeLease :: "order \<Rightarrow> string \<Rightarrow> fake_state \<Rightarrow> fake_state" where
  "revokeLease lc i s =
     (case jm_get (es_leases s) i of
        None \<Rightarrow> s
      | Some key \<Rightarrow>
          let s = s\<lparr>es_leases := jm_del i (es_leases s)\<rparr> in
          if currentValue (revisions_of lc key s) \<noteq> None
          then snd (etcd_delete lc [] \<lparr>do_key = key, do_rangeEnd = [], do_prevKv = False\<rparr> s)
          else s)"

section \<open>Requests of a namespace\<close>

definition namespacedRangeOptions :: "utf16 \<Rightarrow> range_options \<Rightarrow> range_options" where
  "namespacedRangeOptions ns opts =
     opts\<lparr>ro_key := namespacedKey ns (ro_key opts), ro_rangeEnd := namespacedRangeEnd ns (ro_rangeEnd opts)\<rparr>"

definition namespacedPutOptions :: "utf16 \<Rightarrow> put_options \<Rightarrow> put_options" where
  "namespacedPutOptions ns opts = opts\<lparr>po_key := namespacedKey ns (po_key opts)\<rparr>"

definition namespacedDeleteOptions :: "utf16 \<Rightarrow> delete_options \<Rightarrow> delete_options" where
  "namespacedDeleteOptions ns opts =
     opts\<lparr>do_key := namespacedKey ns (do_key opts), do_rangeEnd := namespacedRangeEnd ns (do_rangeEnd opts)\<rparr>"

text \<open>The request of \<open>get(key)\<close>, before its options are changed.\<close>

definition single_range :: "utf16 \<Rightarrow> range_options" where
  "single_range key =
     \<lparr>ro_key = key, ro_rangeEnd = [], ro_limit = 1, ro_revision = None, ro_sortTarget = SortKey, ro_sortOrder = SortNone,
      ro_keysOnly = False, ro_countOnly = False, ro_minModRevision = None, ro_maxModRevision = None,
      ro_minCreateRevision = None, ro_maxCreateRevision = None\<rparr>"

text \<open>The request of \<open>getAll().prefix(p)\<close>.\<close>

definition prefix_range :: "utf16 \<Rightarrow> range_options" where
  "prefix_range p =
     (single_range (fst (range_prefix p)))\<lparr>ro_rangeEnd := snd (range_prefix p), ro_limit := 0\<rparr>"

end
