(* ===== verification/EtcdLaws.thy ===== *)
theory EtcdLaws
  imports Etcd
begin

text \<open>
  The invariant of the etcd state and what every call does to the histories of the keys: a history
  only grows at its end, with revisions later than all that were there, and loses old revisions at its
  front. \<open>etcd_keys\<close> is the interface of the order in which keys are kept, which the code takes from
  \<open>localeCompare\<close>: a consistent order in which only equal keys compare as equal. It need not be the order
  of \<open><\<close> on strings. (\<open>localeCompare\<close> also calls two different spellings of one text equal, as Unicode
  defines it; keys of that kind are left out of the picture.)
\<close>

locale etcd_keys = key_order lc for lc :: order

interpretation code_units: etcd_keys order_cmp
  by unfold_locales (auto simp: order_cmp_def split: if_splits)

text \<open>An order like that of a locale, which puts an upper-case letter between lower-case ones.\<close>

definition fold_case :: "utf16 \<Rightarrow> utf16" where
  "fold_case = map (\<lambda>c. if 65 \<le> c \<and> c \<le> 90 then c + 32 else c)"

definition locale_order :: order where
  "locale_order x y = (if fold_case x = fold_case y then - order_cmp x y else order_cmp (fold_case x) (fold_case y))"

interpretation folded: etcd_keys locale_order
proof
  fix x y z
  show "locale_order x y = 0 \<longleftrightarrow> x = y" by (auto simp: locale_order_def order_cmp_def)
  show "locale_order x y < 0 \<longleftrightarrow> locale_order y x > 0" by (auto simp: locale_order_def order_cmp_def)
  show "locale_order x y < 0 \<Longrightarrow> locale_order y z < 0 \<Longrightarrow> locale_order x z < 0"
    by (auto simp: locale_order_def order_cmp_def split: if_splits)
qed

section \<open>Calls\<close>

datatype etcd_call =
    CallPut utf16 put_options | CallDelete utf16 delete_options | CallTxn txn_request | CallCompact int
  | CallWatch utf16 watch_options | CallConnect nat | CallCompacted watcher nat | CallCancel watcher
  | CallLock utf16 utf16 int | CallRevoke string

text \<open>Whether a call throws, and the state it leaves.\<close>

fun etcd_try :: "order \<Rightarrow> etcd_call \<Rightarrow> fake_state \<Rightarrow> bool \<times> fake_state" where
  "etcd_try lc (CallPut ns opts) s = (let (r, s') = etcd_put lc ns opts s in (is_ok r, s'))"
| "etcd_try lc (CallDelete ns opts) s = (let (r, s') = etcd_delete lc ns opts s in (is_ok r, s'))"
| "etcd_try lc (CallTxn request) s = (let (r, s') = etcd_txn lc request s in (is_ok r, s'))"
| "etcd_try lc (CallCompact n) s = (let (r, s') = etcd_compact n s in (is_ok r, s'))"
| "etcd_try lc (CallWatch ns opts) s = (let (r, s') = etcd_watch ns opts s in (is_ok r, s'))"
| "etcd_try lc (CallConnect i) s = (True, watch_connects i s)"
| "etcd_try lc (CallCompacted w n) s = (True, snd (watch_compacted w n s))"
| "etcd_try lc (CallCancel w) s = (True, snd (cancelWatcher w s))"
| "etcd_try lc (CallLock ns key ttl) s = (let (r, s') = acquireLock lc ns key ttl s in (is_ok r, s'))"
| "etcd_try lc (CallRevoke i) s = (True, revokeLease lc i s)"

definition etcd_do :: "order \<Rightarrow> etcd_call \<Rightarrow> fake_state \<Rightarrow> fake_state" where
  "etcd_do lc call s = snd (etcd_try lc call s)"

section \<open>The invariant\<close>

definition history_ok :: "nat \<Rightarrow> utf16 \<times> stored_revision list \<Rightarrow> bool" where
  "history_ok revision e \<longleftrightarrow> snd e \<noteq> [] \<and> sorted (map sr_modRevision (snd e)) \<and>
     (\<forall>r \<in> set (snd e). sr_key r = fst e \<and> sr_historyRevision r = sr_modRevision r \<and>
        0 < sr_modRevision r \<and> sr_modRevision r \<le> revision \<and> 0 < sr_createRevision r \<and> 0 < sr_version r)"

definition etcd_ok :: "order \<Rightarrow> fake_state \<Rightarrow> bool" where
  "etcd_ok lc s \<longleftrightarrow>
     sorted_wrt (\<lambda>x y. lc x y < 0) (map fst (es_histories s)) \<and>
     (\<forall>e \<in> set (es_histories s). history_ok (es_revision s) e) \<and>
     sorted_wrt (\<lambda>x y. number_cmp x y < 0) (map fst (es_history s)) \<and>
     (\<forall>h \<in> fst ` set (es_history s). 0 < h \<and> h \<le> es_revision s) \<and>
     es_retainedRevisions s \<ge> 1"

lemma new_state_ok: "etcd_ok lc (new_fake_state n)"
  by (simp add: etcd_ok_def new_fake_state_def)

text \<open>The part of the state a call may change without touching keys.\<close>

definition same_store :: "fake_state \<Rightarrow> fake_state \<Rightarrow> bool" where
  "same_store s s' \<longleftrightarrow> es_revision s' = es_revision s \<and> es_histories s' = es_histories s \<and>
     es_history s' = es_history s \<and> es_retainedRevisions s' = es_retainedRevisions s"

lemma same_store_ok: "same_store s s' \<Longrightarrow> etcd_ok lc s' = etcd_ok lc s"
  by (simp add: etcd_ok_def same_store_def)

lemma same_store_revisions: "same_store s s' \<Longrightarrow> revisions_of lc k s' = revisions_of lc k s"
  by (simp add: revisions_of_def same_store_def)

lemma same_store_simps [simp]:
  "same_store s s" "same_store s (publish recs s)" "same_store s (s\<lparr>es_watchers := ws\<rparr>)"
  "same_store s (s\<lparr>es_leases := ls\<rparr>)" "same_store s (s\<lparr>es_nextLeaseId := n\<rparr>)"
  by (simp_all add: same_store_def publish_def)

text \<open>Histories between two states: every key keeps a tail of what it had, followed by later revisions.\<close>

definition grows :: "order \<Rightarrow> nat \<Rightarrow> fake_state \<Rightarrow> fake_state \<Rightarrow> bool" where
  "grows lc rho s s' \<longleftrightarrow> es_revision s \<le> es_revision s' \<and>
     (\<forall>k. \<exists>new. suffix (revisions_of lc k s') (revisions_of lc k s @ new) \<and>
        (\<forall>r \<in> set new. rho < sr_modRevision r) \<and> (revisions_of lc k s \<noteq> [] \<longrightarrow> revisions_of lc k s' \<noteq> []))"

lemma grows_refl: "grows lc rho s s"
  unfolding grows_def by (auto intro: exI [of _ "[]"])

lemma grows_same: "same_store s s' \<Longrightarrow> grows lc rho s s'"
  using grows_refl [of lc rho s] by (simp add: grows_def same_store_revisions) (simp add: same_store_def)

lemma grows_trans:
  assumes "grows lc rho s s'" "grows lc rho s' s''"
  shows "grows lc rho s s''"
  unfolding grows_def
proof (intro conjI allI)
  show "es_revision s \<le> es_revision s''" using assms by (auto simp: grows_def)
  fix k
  obtain new where new: "suffix (revisions_of lc k s') (revisions_of lc k s @ new)" "\<forall>r \<in> set new. rho < sr_modRevision r"
    and keep: "revisions_of lc k s \<noteq> [] \<longrightarrow> revisions_of lc k s' \<noteq> []"
    using assms(1) by (auto simp: grows_def)
  obtain new' where new': "suffix (revisions_of lc k s'') (revisions_of lc k s' @ new')" "\<forall>r \<in> set new'. rho < sr_modRevision r"
    and keep': "revisions_of lc k s' \<noteq> [] \<longrightarrow> revisions_of lc k s'' \<noteq> []"
    using assms(2) by (auto simp: grows_def)
  have "suffix (revisions_of lc k s' @ new') (revisions_of lc k s @ (new @ new'))"
    using new(1) by (auto simp: suffix_def)
  then have "suffix (revisions_of lc k s'') (revisions_of lc k s @ (new @ new'))"
    using new'(1) suffix_order.trans by blast
  moreover have "\<forall>r \<in> set (new @ new'). rho < sr_modRevision r" using new(2) new'(2) by auto
  ultimately show "\<exists>new. suffix (revisions_of lc k s'') (revisions_of lc k s @ new) \<and>
      (\<forall>r \<in> set new. rho < sr_modRevision r) \<and> (revisions_of lc k s \<noteq> [] \<longrightarrow> revisions_of lc k s'' \<noteq> [])"
    using keep keep' by blast
qed

lemma grows_mono: "grows lc rho s s' \<Longrightarrow> rho' \<le> rho \<Longrightarrow> grows lc rho' s s'"
  unfolding grows_def by (meson le_less_trans)

section \<open>Writes keep the invariant\<close>

lemma trim_spec:
  "fst (trim_revisions n rs c) = drop (length rs - n) rs \<and> snd (trim_revisions n rs c) \<ge> c \<and>
   (\<forall>m. c \<le> m \<and> (\<forall>r \<in> set rs. sr_historyRevision r \<le> m) \<longrightarrow> snd (trim_revisions n rs c) \<le> m)"
proof (induction n rs c rule: trim_revisions.induct)
  case (2 n r rs c)
  show ?case
  proof (cases "length (r # rs) > n")
    case True
    then have "drop (length (r # rs) - n) (r # rs) = drop (length rs - n) rs"
      by (simp add: Suc_diff_le less_Suc_eq_le)
    with True 2 [OF True] show ?thesis by (simp del: length_Cons)
  qed simp
qed simp

definition appended :: "order \<Rightarrow> nat \<Rightarrow> fake_state \<Rightarrow> fake_state \<Rightarrow> bool" where
  "appended lc rho s s' \<longleftrightarrow> etcd_ok lc s' \<and> grows lc rho s s' \<and> es_revision s' = es_revision s \<and>
     es_watchers s' = es_watchers s \<and> es_compactedRevision s \<le> es_compactedRevision s'"

context etcd_keys
begin

lemma ordered_iff: "ordered items \<longleftrightarrow> sorted_wrt (\<lambda>x y. lc x y < 0) (map fst items)"
  by (simp add: ordered_def)

lemma ok_ordered: "etcd_ok lc s \<Longrightarrow> ordered (es_histories s)"
  and ok_history: "etcd_ok lc s \<Longrightarrow> numbers.ordered (es_history s)"
  by (auto simp: etcd_ok_def ordered_def numbers.ordered_def)

lemma revisions_get: "etcd_ok lc s \<Longrightarrow> revisions_of lc k s = (case map_of (es_histories s) k of Some rs \<Rightarrow> rs | None \<Rightarrow> [])"
  by (simp add: revisions_of_def get_spec ok_ordered)

lemma revisions_ok:
  assumes "etcd_ok lc s" "revisions_of lc k s \<noteq> []"
  shows "history_ok (es_revision s) (k, revisions_of lc k s)"
proof -
  from assms obtain rs where "map_of (es_histories s) k = Some rs" "revisions_of lc k s = rs"
    by (auto simp: revisions_get split: option.splits)
  with assms(1) show ?thesis using map_of_SomeD by (fastforce simp: etcd_ok_def)
qed

lemma revisions_mem:
  assumes "etcd_ok lc s"
  shows "(k, rs) \<in> set (es_histories s) \<longleftrightarrow> rs \<noteq> [] \<and> revisions_of lc k s = rs"
proof -
  have d: "distinct (map fst (es_histories s))" using ordered_distinct ok_ordered assms by blast
  have "rs \<noteq> []" if "(k, rs) \<in> set (es_histories s)" using that assms by (auto simp: etcd_ok_def history_ok_def)
  moreover have "(k, rs) \<in> set (es_histories s) \<longleftrightarrow> map_of (es_histories s) k = Some rs"
    using d by (simp add: map_of_eq_Some_iff)
  ultimately show ?thesis using assms by (auto simp: revisions_get split: option.splits simp del: map_of_eq_Some_iff)
qed

lemma append_spec:
  assumes ok: "etcd_ok lc s" and r: "sr_key r = key" "sr_modRevision r = es_revision s"
      "sr_historyRevision r = es_revision s" "0 < es_revision s" "0 < sr_createRevision r" "0 < sr_version r"
    and rho: "rho < es_revision s"
  shows "appended lc rho s (snd (appendRevision lc key r event s))"
    and "revisions_of lc k (snd (appendRevision lc key r event s)) \<noteq> [] \<longleftrightarrow> k = key \<or> revisions_of lc k s \<noteq> []"
    and "last (revisions_of lc key (snd (appendRevision lc key r event s))) = r"
    and "k \<noteq> key \<Longrightarrow> revisions_of lc k (snd (appendRevision lc key r event s)) = revisions_of lc k s"
proof -
  define s' where "s' = snd (appendRevision lc key r event s)"
  define rs where "rs = revisions_of lc key s @ [r]"
  define kept where "kept = drop (length rs - es_retainedRevisions s) rs"
  have n: "es_retainedRevisions s \<ge> 1" using ok by (simp add: etcd_ok_def)
  then have kept_ne: "kept \<noteq> []" by (simp add: kept_def rs_def)
  have kept_last: "last kept = r" using kept_ne last_drop [of "length rs - es_retainedRevisions s" rs] by (simp add: kept_def) (simp add: rs_def)
  have trim: "fst (trim_revisions (es_retainedRevisions s) rs c) = kept" for c using trim_spec by (simp add: kept_def)
  have hist: "es_histories s' = sm_set lc key kept (es_histories s)"
    and rest: "es_revision s' = es_revision s" "es_watchers s' = es_watchers s" "es_retainedRevisions s' = es_retainedRevisions s"
    and comp: "es_compactedRevision s' = snd (trim_revisions (es_retainedRevisions s) rs (es_compactedRevision s))"
    and log: "\<exists>recs. es_history s' = sm_set number_cmp (es_revision s) recs (es_history s)"
    using trim [of "es_compactedRevision s"] r by (auto simp: s'_def appendRevision_def rs_def Let_def split: prod.split)
  have ord': "ordered (es_histories s')" by (simp add: hist set_ordered ok_ordered ok)
  have get': "map_of (es_histories s') = (map_of (es_histories s))(key \<mapsto> kept)"
    by (simp add: hist set_get ok_ordered ok)
  have revs': "revisions_of lc k s' = (if k = key then kept else revisions_of lc k s)" for k
    using get' by (simp add: revisions_of_def get_spec ord' ok_ordered ok)
  have old: "history_ok (es_revision s) (key, revisions_of lc key s)" if "revisions_of lc key s \<noteq> []"
    using revisions_ok ok that by blast
  have "history_ok (es_revision s) (key, rs)"
  proof (cases "revisions_of lc key s = []")
    case True
    then show ?thesis using r by (simp add: history_ok_def rs_def)
  next
    case False
    from old [OF False] show ?thesis using r by (auto simp: history_ok_def rs_def sorted_append)
  qed
  then have kept_ok: "history_ok (es_revision s) (key, kept)"
    using kept_ne unfolding history_ok_def kept_def by (auto simp: sorted_wrt_drop simp flip: drop_map dest: in_set_dropD)
  have mem: "e \<in> set (es_histories s') \<Longrightarrow> e = (key, kept) \<or> e \<in> set (es_histories s)" for e
  proof -
    assume "e \<in> set (es_histories s')"
    then have "map_of (es_histories s') (fst e) = Some (snd e)" using ordered_distinct [OF ord'] by simp
    then have "e = (key, kept) \<or> map_of (es_histories s) (fst e) = Some (snd e)"
      unfolding get' by (cases e) (auto split: if_splits)
    then show ?thesis using map_of_SomeD by fastforce
  qed
  obtain recs where recs: "es_history s' = sm_set number_cmp (es_revision s) recs (es_history s)" using log by blast
  have hmem: "fst ` set (es_history s') = insert (es_revision s) (fst ` set (es_history s))"
  proof -
    have "dom (map_of (es_history s')) = insert (es_revision s) (dom (map_of (es_history s)))"
      using numbers.set_get [OF ok_history [OF ok]] recs by simp
    then show ?thesis by (simp add: dom_map_of_conv_image_fst)
  qed
  have ok': "etcd_ok lc s'"
    unfolding etcd_ok_def
    using ord' mem kept_ok ok numbers.set_ordered [OF ok_history [OF ok], of "es_revision s" recs] recs rest hmem r(4)
    by (auto simp: ordered_def numbers.ordered_def etcd_ok_def)
  have "\<exists>new. suffix (revisions_of lc k s') (revisions_of lc k s @ new) \<and>
      (\<forall>x \<in> set new. rho < sr_modRevision x) \<and> (revisions_of lc k s \<noteq> [] \<longrightarrow> revisions_of lc k s' \<noteq> [])" for k
    by (rule exI [of _ "if k = key then [r] else []"]) (use r rho kept_ne in \<open>auto simp: revs' kept_def rs_def suffix_drop\<close>)
  then have grow: "grows lc rho s s'" unfolding grows_def using rest by simp
  have "es_compactedRevision s \<le> es_compactedRevision s'" using trim_spec comp by simp
  with ok' grow rest show "appended lc rho s s'" by (simp add: appended_def)
  show "revisions_of lc k s' \<noteq> [] \<longleftrightarrow> k = key \<or> revisions_of lc k s \<noteq> []" using revs' kept_ne by auto
  show "last (revisions_of lc key s') = r" using revs' kept_last by simp
  show "k \<noteq> key \<Longrightarrow> revisions_of lc k s' = revisions_of lc k s" using revs' by simp
qed

lemma appended_refl: "etcd_ok lc s \<Longrightarrow> appended lc rho s s"
  by (simp add: appended_def grows_refl)

lemma appended_trans: "appended lc rho s s' \<Longrightarrow> appended lc rho s' s'' \<Longrightarrow> appended lc rho s s''"
  unfolding appended_def by (metis grows_trans order.trans)

lemma current_ok:
  assumes "etcd_ok lc s" "currentValue (revisions_of lc k s) = Some v"
  shows "sv_key v = k" "0 < sv_createRevision v" "0 < sv_version v" "0 < sv_modRevision v" "sv_modRevision v \<le> es_revision s"
proof -
  have ne: "revisions_of lc k s \<noteq> []" and v: "v = value_of (last (revisions_of lc k s))"
    using assms(2) by (auto simp: currentValue_def split: if_splits)
  have "history_ok (es_revision s) (k, revisions_of lc k s)" using revisions_ok [OF assms(1) ne] .
  moreover have "last (revisions_of lc k s) \<in> set (revisions_of lc k s)" using ne by simp
  ultimately show "sv_key v = k" "0 < sv_createRevision v" "0 < sv_version v" "0 < sv_modRevision v" "sv_modRevision v \<le> es_revision s"
    unfolding v history_ok_def value_of_def by auto
qed

definition counted :: "stored_value \<Rightarrow> bool" where
  "counted v \<longleftrightarrow> 0 < sv_createRevision v \<and> 0 < sv_version v"

lemma current_counted: "etcd_ok lc s \<Longrightarrow> currentValue (revisions_of lc k s) = Some v \<Longrightarrow> counted v"
  using current_ok by (simp add: counted_def)

lemma range_revisions:
  assumes "etcd_ok lc s" "e \<in> set (iterateRange lc (es_histories s) start rangeEnd)"
  shows "snd e = revisions_of lc (fst e) s"
proof -
  have "e \<in> set (es_histories s)"
    using assms(2) set_takeWhileD unfolding iterateRange_def entriesFrom_spec [OF ok_ordered [OF assms(1)]] by fastforce
  then show ?thesis using revisions_mem [OF assms(1), of "fst e" "snd e"] by simp
qed

lemma collected_counted:
  assumes "etcd_ok lc s" "collectDeleted lc ns opts s = Inr vs"
  shows "\<forall>v \<in> set vs. counted v"
proof
  fix v assume "v \<in> set vs"
  then obtain e where "e \<in> set (iterateRange lc (es_histories s) (namespacedKey ns (do_key opts)) (namespacedRangeEnd ns (do_rangeEnd opts)))"
    and "currentValue (snd e) = Some v"
    using assms(2) by (auto simp: collectDeleted_def List.map_filter_def split: option.splits)
  then show "counted v" using range_revisions [OF assms(1)] current_counted [OF assms(1)] by metis
qed

lemma put_appended:
  assumes "etcd_ok lc s" "rho < es_revision s"
  shows "appended lc rho s (snd (applyPutAtRevision lc ns opts (es_revision s) s))"
  unfolding applyPutAtRevision_def Let_def
  using assms append_spec(1) [OF assms(1) _ _ _ _ _ _ assms(2)] current_ok(2) [OF assms(1)]
  by (auto simp: appended_refl case_prod_beta split: option.split)

lemma delete_values_appended:
  assumes "etcd_ok lc s" "rho < es_revision s" "\<forall>v \<in> set vs. counted v"
  shows "appended lc rho s (snd (delete_values lc (es_revision s) vs s))"
  using assms
proof (induction vs arbitrary: s)
  case (Cons v vs)
  define s1 where "s1 = snd (appendRevision lc (sv_key v)
    \<lparr>sr_key = sv_key v, sr_value = None, sr_createRevision = sv_createRevision v, sr_modRevision = es_revision s,
     sr_version = sv_version v, sr_deleted = True, sr_historyRevision = es_revision s\<rparr>
    \<lparr>we_type = DeleteEvent, we_kv = (toPublicKv v [] False)\<lparr>kv_mod_revision := show_nat (es_revision s)\<rparr>,
     we_prev_kv = Some (toPublicKv v [] False)\<rparr> s)"
  have s1: "appended lc rho s s1" unfolding s1_def using Cons.prems by (intro append_spec(1)) (auto simp: counted_def)
  then have "etcd_ok lc s1" "es_revision s1 = es_revision s" by (auto simp: appended_def)
  moreover have "rho < es_revision s" "\<forall>v \<in> set vs. counted v" using Cons.prems by auto
  ultimately have "appended lc rho s1 (snd (delete_values lc (es_revision s) vs s1))" using Cons.IH [of s1] by simp
  with s1 have "appended lc rho s (snd (delete_values lc (es_revision s) vs s1))" by (rule appended_trans)
  then show ?case unfolding s1_def by (simp add: Let_def case_prod_beta)
qed (simp add: appended_refl)

lemma delete_appended:
  "etcd_ok lc s \<Longrightarrow> rho < es_revision s \<Longrightarrow> \<forall>v \<in> set vs. counted v \<Longrightarrow>
    appended lc rho s (snd (applyDeleteAtRevision lc ns opts (es_revision s) vs s))"
  using delete_values_appended [of s rho vs] by (simp add: applyDeleteAtRevision_def case_prod_beta)

lemma txn_op_appended:
  assumes "etcd_ok lc s" "op_writes op \<longrightarrow> rho < es_revision s"
  shows "appended lc rho s (snd (txn_op lc (es_revision s) op s))"
  unfolding txn_op_def Let_def
  using assms put_appended [of s rho "[]"] delete_appended [of s rho _ "[]"] appended_refl [of s rho] collected_counted [OF assms(1)]
  by (auto simp: op_writes_def case_prod_beta split: option.split sum.split)

lemma txn_ops_appended:
  assumes "etcd_ok lc s" "list_ex op_writes ops \<longrightarrow> rho < es_revision s"
  shows "appended lc rho s (snd (txn_ops lc (es_revision s) ops s))"
  using assms
proof (induction ops arbitrary: s)
  case (Cons op ops)
  define s1 where "s1 = snd (txn_op lc (es_revision s) op s)"
  have s1: "appended lc rho s s1" unfolding s1_def using Cons.prems by (intro txn_op_appended) auto
  then have "etcd_ok lc s1" and same: "es_revision s1 = es_revision s" by (auto simp: appended_def)
  then have "appended lc rho s1 (snd (txn_ops lc (es_revision s1) ops s1))" using Cons.prems by (intro Cons.IH) auto
  then have "appended lc rho s1 (snd (txn_ops lc (es_revision s) ops s1))" by (simp only: same)
  with s1 have "appended lc rho s (snd (txn_ops lc (es_revision s) ops s1))" by (rule appended_trans)
  with s1 show ?case unfolding s1_def by (auto simp: case_prod_beta split: sum.split)
qed (simp add: appended_refl)

section \<open>Every call\<close>

text \<open>What a call does to the store: it keeps the invariant, and later revisions are added at the end.\<close>

definition moves_on :: "fake_state \<Rightarrow> fake_state \<Rightarrow> bool" where
  "moves_on s s' \<longleftrightarrow> etcd_ok lc s' \<and> grows lc (es_revision s) s s' \<and> es_compactedRevision s \<le> es_compactedRevision s'"

lemma moves_on_refl: "etcd_ok lc s \<Longrightarrow> moves_on s s"
  by (simp add: moves_on_def grows_refl)

lemma moves_on_trans: "moves_on s s' \<Longrightarrow> moves_on s' s'' \<Longrightarrow> moves_on s s''"
  unfolding moves_on_def using grows_trans grows_mono by (metis grows_def order.trans)

lemma moves_on_same: "etcd_ok lc s \<Longrightarrow> same_store s s' \<Longrightarrow> es_compactedRevision s' = es_compactedRevision s \<Longrightarrow> moves_on s s'"
  by (simp add: moves_on_def grows_same same_store_ok)

lemma bump_ok: "etcd_ok lc s \<Longrightarrow> etcd_ok lc (bumpRevision s)"
  by (fastforce simp: etcd_ok_def bumpRevision_def history_ok_def)

lemma bump_grows: "grows lc rho s (bumpRevision s)"
  using grows_refl [of lc rho s] by (simp add: grows_def bumpRevision_def revisions_of_def)

lemma bump_appended: "etcd_ok lc s \<Longrightarrow> appended lc (es_revision s) (bumpRevision s) s' \<Longrightarrow> moves_on s s'"
  unfolding moves_on_def appended_def using grows_trans [OF bump_grows] by (auto simp: bumpRevision_def)

lemma moves_on_publish: "moves_on s s' \<Longrightarrow> moves_on s (publish recs s')"
proof -
  assume "moves_on s s'"
  moreover from this have "moves_on s' (publish recs s')"
    by (intro moves_on_same) (auto simp: moves_on_def publish_def same_store_def)
  ultimately show ?thesis by (rule moves_on_trans)
qed

lemma put_moves: "etcd_ok lc s \<Longrightarrow> moves_on s (snd (etcd_put lc ns opts s))"
proof -
  assume ok: "etcd_ok lc s"
  have "appended lc (es_revision s) (bumpRevision s)
      (snd (applyPutAtRevision lc ns opts (es_revision (bumpRevision s)) (bumpRevision s)))"
    by (intro put_appended bump_ok ok) (simp add: bumpRevision_def)
  then have "moves_on s (snd (applyPutAtRevision lc ns opts (es_revision (bumpRevision s)) (bumpRevision s)))"
    by (rule bump_appended [OF ok])
  then show ?thesis
    by (auto simp: etcd_put_def Let_def moves_on_publish case_prod_beta split: sum.split)
qed

lemma delete_moves: "etcd_ok lc s \<Longrightarrow> moves_on s (snd (etcd_delete lc ns opts s))"
proof -
  assume ok: "etcd_ok lc s"
  have "moves_on s (snd (applyDeleteAtRevision lc ns opts (es_revision (bumpRevision s)) vs (bumpRevision s)))"
    if "\<forall>v \<in> set vs. counted v" for vs
    by (intro bump_appended [OF ok] delete_appended bump_ok ok) (use that in \<open>simp_all add: bumpRevision_def\<close>)
  then show ?thesis using collected_counted [OF ok]
    by (auto simp: etcd_delete_def Let_def moves_on_publish moves_on_refl ok case_prod_beta split: sum.split)
qed

lemma txn_moves: "etcd_ok lc s \<Longrightarrow> moves_on s (snd (etcd_txn lc request s))"
proof -
  assume ok: "etcd_ok lc s"
  have "moves_on s (snd (txn_ops lc (es_revision s1) ops s1))"
    if s1: "s1 = (if list_ex op_writes ops then bumpRevision s else s)" for ops s1
  proof (cases "list_ex op_writes ops")
    case True
    then show ?thesis unfolding s1
      by (simp, intro bump_appended [OF ok] txn_ops_appended bump_ok ok) (simp add: bumpRevision_def)
  next
    case False
    then show ?thesis using txn_ops_appended [OF ok, of ops "es_revision s"] s1
      by (simp add: moves_on_def appended_def)
  qed
  note ops = this
  define operations where "operations = (if list_all (\<lambda>c. evaluateCompare lc c s) (tr_compare request)
    then tr_success request else tr_failure request)"
  define s1 where "s1 = (if list_ex op_writes operations then bumpRevision s else s)"
  have "moves_on s (snd (txn_ops lc (es_revision s1) operations s1))" by (rule ops [OF s1_def])
  then show ?thesis
    unfolding etcd_txn_def Let_def operations_def [symmetric] s1_def [symmetric]
    by (cases "txn_ops lc (es_revision s1) operations s1")
      (auto simp: moves_on_refl ok moves_on_publish split: sum.split option.split)
qed

lemma compact_loop_filter: "numbers.ordered h \<Longrightarrow> \<exists>P. compact_loop n i h = filter P h"
proof (induction n i h rule: compact_loop.induct)
  case (1 n i h)
  show ?case
  proof (cases "i < length h \<and> fst (h ! i) \<le> n")
    case False
    then have "compact_loop n i h = h" by (subst compact_loop.simps) auto
    then show ?thesis by (intro exI [of _ "\<lambda>_. True"]) simp
  next
    case True
    define k where "k = fst (h ! i)"
    define h' where "h' = filter (\<lambda>e. fst e \<noteq> k) h"
    have eq: "sm_delete number_cmp k h = h'" using numbers.delete_spec [OF 1(2)] by (simp add: h'_def)
    have "compact_loop n i h = compact_loop n (i + 1) h'" using True eq
      by (subst compact_loop.simps) (simp add: Let_def k_def)
    moreover have "\<exists>P. compact_loop n (i + 1) h' = filter P h'"
      using 1(1) [of k] True eq numbers.ordered_filter [OF 1(2)] unfolding h'_def k_def by auto
    ultimately show ?thesis unfolding h'_def by (metis filter_filter)
  qed
qed

lemma compact_moves: "etcd_ok lc s \<Longrightarrow> moves_on s (snd (etcd_compact n s))"
proof -
  assume ok: "etcd_ok lc s"
  have "etcd_ok lc (s\<lparr>es_compactedRevision := c, es_history := compact_loop r 0 (es_history s)\<rparr>)" for c r
  proof -
    obtain P where P: "compact_loop r 0 (es_history s) = filter P (es_history s)"
      using compact_loop_filter [OF ok_history [OF ok]] by blast
    have "numbers.ordered (filter P (es_history s))" using numbers.ordered_filter ok_history [OF ok] by blast
    with ok show ?thesis unfolding P by (auto simp: etcd_ok_def numbers.ordered_def)
  qed
  moreover have "grows lc rho s (s\<lparr>es_compactedRevision := c, es_history := h\<rparr>)" for rho c h
    using grows_refl [of lc rho s] by (simp add: grows_def revisions_of_def)
  ultimately show ?thesis
    by (auto simp: etcd_compact_def moves_on_refl ok moves_on_def grows_refl split: sum.split)
qed

lemma moves_on_leases: "moves_on s s' \<Longrightarrow> moves_on s (s'\<lparr>es_leases := ls\<rparr>)"
  by (rule moves_on_trans, assumption, rule moves_on_same) (auto simp: moves_on_def)

lemma lock_moves: "etcd_ok lc s \<Longrightarrow> moves_on s (snd (acquireLock lc ns key ttl s))"
proof -
  assume ok: "etcd_ok lc s"
  define s1 where "s1 = s\<lparr>es_nextLeaseId := es_nextLeaseId s + 1\<rparr>"
  have s1: "moves_on s s1" "etcd_ok lc s1"
    using ok moves_on_same [of s s1] same_store_ok [of s s1 lc] by (auto simp: s1_def)
  have "moves_on s (snd (etcd_txn lc request s1))" for request
    using s1 txn_moves moves_on_trans by blast
  then have txn: "moves_on s (snd (case etcd_txn lc request s1 of (Inl err, s) \<Rightarrow> (f err, s)
      | (Inr response, s) \<Rightarrow> if g response then (h, s) else (i, s\<lparr>es_leases := k (es_leases s)\<rparr>)))" for request f g h i k
    by (cases "etcd_txn lc request s1") (auto simp: moves_on_leases split: sum.split, (metis moves_on_leases snd_conv)+)
  show ?thesis
  proof (cases "ttl < 1")
    case True
    then show ?thesis by (simp add: acquireLock_def moves_on_refl ok)
  next
    case False
    then show ?thesis unfolding acquireLock_def Let_def s1_def [symmetric] by (simp only: if_False) (rule txn)
  qed
qed

lemma revoke_moves: "etcd_ok lc s \<Longrightarrow> moves_on s (revokeLease lc i s)"
proof -
  assume ok: "etcd_ok lc s"
  have "moves_on s (s\<lparr>es_leases := ls\<rparr>) \<and> etcd_ok lc (s\<lparr>es_leases := ls\<rparr>)" for ls
    using ok moves_on_same by (auto simp: moves_on_def)
  then show ?thesis unfolding revokeLease_def Let_def
    using delete_moves moves_on_trans by (auto simp: moves_on_refl ok split: option.split) blast+
qed

theorem call_moves: "etcd_ok lc s \<Longrightarrow> moves_on s (etcd_do lc call s)"
  by (cases call)
    (auto simp: etcd_do_def put_moves delete_moves txn_moves compact_moves lock_moves revoke_moves
      etcd_watch_def watch_connects_def update_watcher_def watch_compacted_def cancelWatcher_def detachWatcher_def
      moves_on_same moves_on_refl case_prod_beta same_store_def split: option.split intro: moves_on_same)

lemma calls_move: "etcd_ok lc s \<Longrightarrow> moves_on s (fold (etcd_do lc) calls s)"
proof (induction calls arbitrary: s)
  case (Cons c cs)
  then have c: "moves_on s (etcd_do lc c s)" by (intro call_moves)
  then have "moves_on (etcd_do lc c s) (fold (etcd_do lc) cs (etcd_do lc c s))" by (intro Cons.IH) (simp add: moves_on_def)
  with c show ?case using moves_on_trans by simp
qed (simp add: moves_on_refl)

end

end
