(* ===== verification/EtcdReads.thy ===== *)
theory EtcdReads
  imports EtcdLaws
begin

text \<open>
  Reads at a revision: bisection finds the last revision not after it, a read in the past returns what
  a read at that time returned, and the ranges that stand for prefixes. Old values are right as long as
  the key still holds a revision that old; the last section shows that the compacted revision, which
  the code checks instead, does not guarantee it.
\<close>

section \<open>The revision at or before\<close>

lemma find_revision_spec:
  assumes "sorted (map sr_modRevision rs)"
    and "0 \<le> low" "low \<le> high + 1" "high < int (length rs)"
    and "\<And>i. int i < low \<Longrightarrow> sr_modRevision (rs ! i) \<le> n"
    and "\<And>i. high < int i \<Longrightarrow> i < length rs \<Longrightarrow> n < sr_modRevision (rs ! i)"
    and "result = (if low = 0 then None else Some (rs ! nat (low - 1)))"
  shows "\<exists>m. m \<le> length rs \<and> (\<forall>i < m. sr_modRevision (rs ! i) \<le> n) \<and>
    (\<forall>i. m \<le> i \<and> i < length rs \<longrightarrow> n < sr_modRevision (rs ! i)) \<and>
    find_revision rs n low high result = (if m = 0 then None else Some (rs ! (m - 1)))"
  using assms
proof (induction rs n low high result rule: find_revision.induct)
  case (1 rs n low high result)
  note srt = "1.prems"(1) and b = "1.prems"(2-4) and lo = "1.prems"(5) and hi = "1.prems"(6) and res = "1.prems"(7)
  show ?case
  proof (cases "low \<le> high")
    case False
    then have "low = high + 1" using b by simp
    then have "find_revision rs n low high result = (if nat low = 0 then None else Some (rs ! (nat low - 1)))"
    proof -
      have "low \<noteq> 0 \<Longrightarrow> nat (low - 1) = nat low - 1" using b by arith
      then show ?thesis using res False b by (subst find_revision.simps) auto
    qed
    moreover have "\<forall>i < nat low. sr_modRevision (rs ! i) \<le> n" using lo by simp
    moreover have "\<forall>i. nat low \<le> i \<and> i < length rs \<longrightarrow> n < sr_modRevision (rs ! i)"
      using hi \<open>low = high + 1\<close> by (metis less_add_one nat_le_iff order_less_le_trans)
    ultimately show ?thesis using b \<open>low = high + 1\<close> by (intro exI [of _ "nat low"]) simp
  next
    case True
    define mid where "mid = (low + high) div 2"
    have mid: "low \<le> mid" "mid \<le> high" "\<not> (mid < 0 \<or> nat mid \<ge> length rs)" using True b by (auto simp: mid_def)
    have mono: "sr_modRevision (rs ! i) \<le> sr_modRevision (rs ! j)" if "i \<le> j" "j < length rs" for i j
      using sorted_nth_mono [OF srt, of i j] that by simp
    show ?thesis
    proof (cases "sr_modRevision (rs ! nat mid) \<le> n")
      case le: True
      have eq: "find_revision rs n low high result = find_revision rs n (mid + 1) high (Some (rs ! nat mid))"
        using True mid le by (subst find_revision.simps) (simp add: Let_def mid_def)
      have "sr_modRevision (rs ! i) \<le> n" if "int i < mid + 1" for i
        using mono [of i "nat mid"] that mid le by (simp add: nat_le_iff) linarith
      then show ?thesis unfolding eq
        using "1.IH"(1) [OF True mid_def mid(3) refl le] srt b mid hi by simp
    next
      case gt: False
      have eq: "find_revision rs n low high result = find_revision rs n low (mid - 1) result"
        using True mid gt by (subst find_revision.simps) (simp add: Let_def mid_def)
      have "n < sr_modRevision (rs ! i)" if "mid - 1 < int i" "i < length rs" for i
        using mono [of "nat mid" i] that mid gt by linarith
      then show ?thesis unfolding eq
        using "1.IH"(2) [OF True mid_def mid(3) refl gt] srt b mid lo res by simp
    qed
  qed
qed

lemma find_revision_last:
  assumes "sorted (map sr_modRevision rs)"
  shows "findRevisionAtOrBefore rs n =
    (let old = filter (\<lambda>r. sr_modRevision r \<le> n) rs in if old = [] then None else Some (last old))"
proof -
  obtain m where m: "m \<le> length rs" "\<forall>i < m. sr_modRevision (rs ! i) \<le> n"
      "\<forall>i. m \<le> i \<and> i < length rs \<longrightarrow> n < sr_modRevision (rs ! i)"
    and found: "findRevisionAtOrBefore rs n = (if m = 0 then None else Some (rs ! (m - 1)))"
    using find_revision_spec [OF assms, of 0 "int (length rs) - 1" n None]
    unfolding findRevisionAtOrBefore_def by auto
  have "filter (\<lambda>r. sr_modRevision r \<le> n) (take m rs) = take m rs"
    using m(1,2) by (auto simp: filter_id_conv in_set_conv_nth)
  moreover have "filter (\<lambda>r. sr_modRevision r \<le> n) (drop m rs) = []"
    using m(1,3) by (auto simp: filter_empty_conv in_set_conv_nth not_le)
  ultimately have "filter (\<lambda>r. sr_modRevision r \<le> n) rs = take m rs"
    by (metis append_Nil2 append_take_drop_id filter_append)
  moreover have "take m rs = [] \<longleftrightarrow> m = 0" using m(1) by auto
  moreover from this have "m > 0 \<Longrightarrow> last (take m rs) = rs ! (m - 1)"
    using m(1) by (subst last_conv_nth) auto
  ultimately show ?thesis using found by simp
qed

text \<open>At the current revision every revision counts, so the value found is the current one.\<close>

lemma resolve_current:
  "history_ok n (k, rs) \<or> rs = [] \<Longrightarrow> resolveStoredValueAt rs n = currentValue rs"
proof (cases "rs = []")
  case True
  then show ?thesis
    by (simp add: resolveStoredValueAt_def currentValue_def find_revision_last)
next
  case False
  assume "history_ok n (k, rs) \<or> rs = []"
  with False have ok: "history_ok n (k, rs)" by simp
  then have "filter (\<lambda>r. sr_modRevision r \<le> n) rs = rs" by (auto simp: history_ok_def filter_id_conv)
  with ok False show ?thesis
    by (simp add: resolveStoredValueAt_def currentValue_def find_revision_last history_ok_def)
qed

text \<open>In the past: revisions that came later do not count, and the tail kept still has the one sought.\<close>

lemma resolve_past:
  assumes "sorted (map sr_modRevision rs')" "suffix rs' (rs @ new)"
    and "\<forall>r \<in> set rs. sr_modRevision r \<le> n" "\<forall>r \<in> set new. n < sr_modRevision r"
    and kept: "rs \<noteq> [] \<longrightarrow> rs' \<noteq> [] \<and> sr_modRevision (hd rs') \<le> n"
  shows "resolveStoredValueAt rs' n = currentValue rs"
proof -
  let ?old = "filter (\<lambda>r. sr_modRevision r \<le> n)"
  obtain zs where zs: "rs @ new = zs @ rs'" using assms(2) by (auto simp: suffix_def)
  have all: "?old rs = rs" "?old new = []" using assms(3,4) by (auto simp: filter_id_conv filter_empty_conv)
  have split: "rs = ?old zs @ ?old rs'" using arg_cong [OF zs, of ?old] all by simp
  have "?old rs' = [] \<longleftrightarrow> rs = []"
  proof
    assume "?old rs' = []"
    moreover have "rs \<noteq> [] \<Longrightarrow> hd rs' \<in> set (?old rs')" using kept by simp
    ultimately show "rs = []" by (metis empty_iff empty_set)
  qed (use split in simp)
  moreover have "?old rs' \<noteq> [] \<Longrightarrow> last (?old rs') = last rs" by (subst split) simp
  ultimately show ?thesis
    by (simp add: resolveStoredValueAt_def find_revision_last [OF assms(1)] currentValue_def Let_def)
qed

section \<open>Ranges\<close>

context etcd_keys
begin

sublocale sort: key_order "compareSortKeys lc ord" for ord
proof
  fix x y z :: sort_key
  show "compareSortKeys lc ord x y = 0 \<longleftrightarrow> x = y"
    using cmp_same [of "snd x" "snd y"]
    by (cases rule: linorder_cases [of "fst x" "fst y"]) (auto simp: compareSortKeys_def prod_eq_iff)
  show "compareSortKeys lc ord x y < 0 \<longleftrightarrow> compareSortKeys lc ord y x > 0"
    using cmp_flip [of "snd x" "snd y"]
    by (cases rule: linorder_cases [of "fst x" "fst y"]) (auto simp: compareSortKeys_def)
  have less: "compareSortKeys lc ord x y < 0 \<longleftrightarrow>
      (if ord = SortDescend then fst y < fst x else fst x < fst y) \<or> fst x = fst y \<and> lc (snd x) (snd y) < 0" for x y
    by (cases rule: linorder_cases [of "fst x" "fst y"]) (auto simp: compareSortKeys_def)
  show "compareSortKeys lc ord x y < 0 \<Longrightarrow> compareSortKeys lc ord y z < 0 \<Longrightarrow> compareSortKeys lc ord x z < 0"
    unfolding less using cmp_trans [of "snd x" "snd y" "snd z"] by (cases "ord = SortDescend") (auto dest: less_trans)
qed

text \<open>The values a read collects, as a set.\<close>

definition value_entry :: "range_options \<Rightarrow> nat \<Rightarrow> stored_revision list \<Rightarrow> (sort_key \<times> stored_value) set" where
  "value_entry opts n rs =
     (case resolveStoredValueAt rs n of
        Some v \<Rightarrow> if passesRangeFilters v opts then {(makeSortKey v (ro_sortTarget opts), v)} else {}
      | None \<Rightarrow> {})"

definition read_values :: "range_options \<Rightarrow> nat \<Rightarrow> (utf16 \<times> stored_revision list) set \<Rightarrow> (sort_key \<times> stored_value) set" where
  "read_values opts n es = (\<Union>e \<in> es. value_entry opts n (snd e))"

lemma resolve_key:
  "history_ok m (k, rs) \<Longrightarrow> resolveStoredValueAt rs n = Some v \<Longrightarrow> sv_key v = k"
proof -
  assume ok: "history_ok m (k, rs)" and v: "resolveStoredValueAt rs n = Some v"
  let ?old = "filter (\<lambda>r. sr_modRevision r \<le> n) rs"
  from ok v have "?old \<noteq> []" "v = value_of (last ?old)"
    by (auto simp: resolveStoredValueAt_def find_revision_last history_ok_def Let_def split: if_splits option.splits)
  moreover from this(1) have "last ?old \<in> set rs" using last_in_set [of ?old] by auto
  ultimately show ?thesis using ok by (auto simp: history_ok_def value_of_def)
qed

lemma collect_spec:
  assumes "sort.ordered (ro_sortOrder opts) acc" "\<forall>e \<in> set es. history_ok m e" "distinct (map fst es)"
    and "\<forall>a \<in> set acc. snd (fst a) \<notin> fst ` set es"
  shows "sort.ordered (ro_sortOrder opts) (range_collect lc opts n es acc) \<and>
    set (range_collect lc opts n es acc) = set acc \<union> read_values opts n (set es)"
  using assms
proof (induction es arbitrary: acc)
  case (Cons e es)
  obtain k rs where e: "e = (k, rs)" by (cases e)
  note acc = Cons.prems(1) and hist = Cons.prems(2) and dist = Cons.prems(3) and fresh = Cons.prems(4)
  have rest: "sort.ordered (ro_sortOrder opts) (range_collect lc opts n es acc') \<and>
      set (range_collect lc opts n es acc') = set acc' \<union> read_values opts n (set es)"
    if "sort.ordered (ro_sortOrder opts) acc'" "\<forall>a \<in> set acc'. a \<in> set acc \<or> snd (fst a) = k" for acc'
    using that hist dist fresh e by (intro Cons.IH) auto
  show ?case
  proof (cases "\<exists>v. resolveStoredValueAt rs n = Some v \<and> passesRangeFilters v opts")
    case False
    then have "read_values opts n (set (e # es)) = read_values opts n (set es)"
      by (simp add: read_values_def e value_entry_def split: option.split)
    moreover have "range_collect lc opts n (e # es) acc = range_collect lc opts n es acc"
      using False by (simp add: e split: option.split)
    ultimately show ?thesis using rest [OF acc] by simp
  next
    case True
    then obtain v where v: "resolveStoredValueAt rs n = Some v" "passesRangeFilters v opts" by blast
    define sk where "sk = makeSortKey v (ro_sortTarget opts)"
    have "sv_key v = k" using resolve_key v(1) hist e by auto
    then have sk: "snd sk = k" by (simp add: sk_def makeSortKey_def)
    then have new: "sk \<notin> fst ` set acc" using fresh e by force
    define acc' where "acc' = sm_set (compareSortKeys lc (ro_sortOrder opts)) sk v acc"
    have acc': "sort.ordered (ro_sortOrder opts) acc'" "set acc' = insert (sk, v) (set acc)"
      using sort.set_ordered [OF acc] sort.set_fresh [OF acc new] by (simp_all add: acc'_def)
    have "read_values opts n (set (e # es)) = insert (sk, v) (read_values opts n (set es))"
      using v by (simp add: read_values_def e value_entry_def sk_def)
    moreover have "range_collect lc opts n (e # es) acc = range_collect lc opts n es acc'"
      using v by (simp add: e acc'_def sk_def)
    ultimately show ?thesis using rest [OF acc'(1)] acc'(2) sk by auto
  qed
qed (simp add: read_values_def)

lemma ordered_takeWhile: "ordered xs \<Longrightarrow> ordered (takeWhile P xs)"
  by (metis takeWhile_dropWhile_id ordered_append)

text \<open>A read depends on the histories only through the values it collects.\<close>

lemma range_entries:
  fixes start rangeEnd :: utf16
  assumes "etcd_ok lc s"
  defines "es \<equiv> iterateRange lc (es_histories s) start rangeEnd"
  shows "sort.ordered (ro_sortOrder opts) (range_collect lc opts n es [])"
    and "set (range_collect lc opts n es []) = read_values opts n (set es)"
proof -
  have ord: "ordered (es_histories s)" by (rule ok_ordered) fact
  have "es = takeWhile (\<lambda>e. isKeyInRange (fst e) start rangeEnd) (filter (\<lambda>e. lc (fst e) start \<ge> 0) (es_histories s))"
    by (simp add: es_def iterateRange_def entriesFrom_spec ord)
  then have sub: "\<forall>e \<in> set es. e \<in> set (es_histories s)" and "ordered es"
    using ordered_filter [OF ord] by (auto dest: set_takeWhileD intro: ordered_takeWhile)
  have "distinct (map fst es)" using ordered_distinct \<open>ordered es\<close> by blast
  moreover have "\<forall>e \<in> set es. history_ok (es_revision s) e" using sub assms by (auto simp: etcd_ok_def)
  ultimately have "sort.ordered (ro_sortOrder opts) (range_collect lc opts n es []) \<and>
      set (range_collect lc opts n es []) = set [] \<union> read_values opts n (set es)"
    by (intro collect_spec) auto
  then show "sort.ordered (ro_sortOrder opts) (range_collect lc opts n es [])"
    and "set (range_collect lc opts n es []) = read_values opts n (set es)" by auto
qed

end

text \<open>
  A range read walks the keys in the order of \<open>localeCompare\<close>, from the first one not before \<open>start\<close>, and
  stops at the first key that is outside the range by \<open><\<close>. It finds the whole range if the stored keys of
  the range stand together: none comes before \<open>start\<close>, and no stored key outside the range comes between
  \<open>start\<close> and one of them.
\<close>

definition together :: "order \<Rightarrow> fake_state \<Rightarrow> utf16 \<Rightarrow> utf16 \<Rightarrow> bool" where
  "together lc s start rangeEnd \<longleftrightarrow>
     (\<forall>k \<in> fst ` set (es_histories s). isKeyInRange k start rangeEnd \<longrightarrow>
        0 \<le> lc k start \<and>
        (\<forall>j \<in> fst ` set (es_histories s). 0 \<le> lc j start \<and> lc j k < 0 \<longrightarrow> isKeyInRange j start rangeEnd))"

text \<open>They do where the stored keys and \<open>start\<close> are in the order of \<open><\<close>.\<close>

lemma together_less:
  assumes "\<forall>j \<in> insert start (fst ` set (es_histories s)). \<forall>k \<in> insert start (fst ` set (es_histories s)). lc j k < 0 \<longleftrightarrow> j < k"
  shows "together lc s start rangeEnd"
  unfolding together_def
proof (intro ballI impI conjI)
  fix k assume k: "k \<in> fst ` set (es_histories s)" "isKeyInRange k start rangeEnd"
  then have "start \<le> k" by (auto simp: isKeyInRange_def split: if_splits)
  then have "\<not> lc k start < 0" using assms k(1) by (metis insertCI not_le)
  then show "0 \<le> lc k start" by simp
  fix j assume j: "j \<in> fst ` set (es_histories s)" "0 \<le> lc j start \<and> lc j k < 0"
  then have "start \<le> j" "j < k" using assms k(1) by (metis insertCI not_le)+
  then show "isKeyInRange j start rangeEnd" using k(2) by (auto simp: isKeyInRange_def split: if_splits)
qed

lemma takeWhile_range:
  assumes "sorted_wrt R xs" "\<And>x. x \<in> set xs \<Longrightarrow> P x \<Longrightarrow> Q x"
    "\<And>x y. x \<in> set xs \<Longrightarrow> y \<in> set xs \<Longrightarrow> Q x \<Longrightarrow> R x y \<Longrightarrow> P y \<Longrightarrow> P x"
  shows "takeWhile P (filter Q xs) = filter P xs"
  using assms
proof (induction xs)
  case (Cons x xs)
  have IH: "takeWhile P (filter Q xs) = filter P xs"
    using Cons.prems by (intro Cons.IH) auto
  show ?case
  proof (cases "P x")
    case False
    then have "Q x \<Longrightarrow> filter P xs = []" using Cons.prems(1,3) by (auto simp: filter_empty_conv)
    with False IH show ?thesis by auto
  qed (use IH Cons.prems(2) in auto)
qed simp

context etcd_keys
begin

text \<open>A single key always does.\<close>

lemma together_single: "together lc s start []"
  by (auto simp: together_def isKeyInRange_def)

text \<open>No key is lost, so what stands together stood together before.\<close>

lemma together_before:
  assumes "etcd_ok lc s" "moves_on s s'" "together lc s' start rangeEnd"
  shows "together lc s start rangeEnd"
proof -
  have "fst ` set (es_histories t) = {k. revisions_of lc k t \<noteq> []}" if "etcd_ok lc t" for t
    using revisions_mem [OF that] by force
  moreover have "etcd_ok lc s'" "\<forall>k. revisions_of lc k s \<noteq> [] \<longrightarrow> revisions_of lc k s' \<noteq> []"
    using assms(2) by (auto simp: moves_on_def grows_def)
  ultimately have "fst ` set (es_histories s) \<subseteq> fst ` set (es_histories s')" using assms(1) by auto
  then show ?thesis using assms(3) unfolding together_def by blast
qed

lemma iterate_range:
  assumes "ordered (es_histories s)" "together lc s start rangeEnd"
  shows "iterateRange lc (es_histories s) start rangeEnd = filter (\<lambda>e. isKeyInRange (fst e) start rangeEnd) (es_histories s)"
proof -
  have "sorted_wrt (\<lambda>x y. lc (fst x) (fst y) < 0) (es_histories s)"
    using assms(1) by (simp add: ordered_def sorted_wrt_map)
  then show ?thesis
    unfolding iterateRange_def entriesFrom_spec [OF assms(1)]
  proof (rule takeWhile_range)
    fix x y
    assume x: "x \<in> set (es_histories s)" and y: "y \<in> set (es_histories s)"
    show "isKeyInRange (fst x) start rangeEnd \<Longrightarrow> 0 \<le> lc (fst x) start"
      using assms(2) x unfolding together_def by blast
    show "0 \<le> lc (fst x) start \<Longrightarrow> lc (fst x) (fst y) < 0 \<Longrightarrow> isKeyInRange (fst y) start rangeEnd \<Longrightarrow>
        isKeyInRange (fst x) start rangeEnd"
      using assms(2) x y unfolding together_def by blast
  qed
qed

lemma read_all:
  assumes "etcd_ok lc s" "together lc s start rangeEnd"
  shows "read_values opts n (set (iterateRange lc (es_histories s) start rangeEnd)) =
    (\<Union>k \<in> {k. isKeyInRange k start rangeEnd}. value_entry opts n (revisions_of lc k s))"
proof -
  have "value_entry opts n [] = {}" by (simp add: value_entry_def resolveStoredValueAt_def find_revision_last)
  moreover have "set (iterateRange lc (es_histories s) start rangeEnd) =
      {(k, rs). isKeyInRange k start rangeEnd \<and> rs \<noteq> [] \<and> revisions_of lc k s = rs}"
    using iterate_range [OF ok_ordered [OF assms(1)] assms(2)] revisions_mem [OF assms(1)] by auto
  ultimately show ?thesis unfolding read_values_def by fastforce
qed

lemma past_value:
  assumes ok: "etcd_ok lc s" and later: "moves_on s s'"
    and kept: "revisions_of lc k s \<noteq> [] \<Longrightarrow> sr_modRevision (hd (revisions_of lc k s')) \<le> es_revision s"
  shows "resolveStoredValueAt (revisions_of lc k s') (es_revision s) = currentValue (revisions_of lc k s)"
proof -
  from later have ok': "etcd_ok lc s'" and grown: "grows lc (es_revision s) s s'" by (auto simp: moves_on_def)
  obtain new where new: "suffix (revisions_of lc k s') (revisions_of lc k s @ new)" "\<forall>r \<in> set new. es_revision s < sr_modRevision r"
    and ne: "revisions_of lc k s \<noteq> [] \<longrightarrow> revisions_of lc k s' \<noteq> []"
    using grown by (auto simp: grows_def)
  have "sorted (map sr_modRevision (revisions_of lc k s'))"
    using revisions_ok [OF ok', of k] by (cases "revisions_of lc k s' = []") (auto simp: history_ok_def)
  moreover have "\<forall>r \<in> set (revisions_of lc k s). sr_modRevision r \<le> es_revision s"
    using revisions_ok [OF ok, of k] by (cases "revisions_of lc k s = []") (auto simp: history_ok_def)
  ultimately show ?thesis using new ne kept by (intro resolve_past) auto
qed

lemma current_value: "etcd_ok lc s \<Longrightarrow> resolveStoredValueAt (revisions_of lc k s) (es_revision s) = currentValue (revisions_of lc k s)"
  using resolve_current [of "es_revision s" k "revisions_of lc k s"] revisions_ok by blast

lemma collect_revision: "range_collect lc (opts\<lparr>ro_revision := r\<rparr>) n es acc = range_collect lc opts n es acc"
  by (induction es arbitrary: acc) (auto simp: passesRangeFilters_def split: option.split)

lemma snapshot:
  assumes ok: "etcd_ok lc s" and later: "moves_on s s'" and pos: "0 < es_revision s"
    and available: "es_compactedRevision s' < es_revision s"
    and kept: "\<And>k. revisions_of lc k s \<noteq> [] \<Longrightarrow> sr_modRevision (hd (revisions_of lc k s')) \<le> es_revision s"
    and found: "together lc s' (namespacedKey ns (ro_key opts)) (namespacedRangeEnd ns (ro_rangeEnd opts))"
  shows "etcd_range lc ns (opts\<lparr>ro_revision := Some (int (es_revision s))\<rparr>) s' = etcd_range lc ns (opts\<lparr>ro_revision := None\<rparr>) s"
proof -
  from later have ok': "etcd_ok lc s'" and le: "es_revision s \<le> es_revision s'" by (auto simp: moves_on_def grows_def)
  define start where "start = namespacedKey ns (ro_key opts)"
  define rangeEnd where "rangeEnd = namespacedRangeEnd ns (ro_rangeEnd opts)"
  have found': "together lc s' start rangeEnd" "together lc s start rangeEnd"
    using found together_before [OF ok later] by (simp_all add: start_def rangeEnd_def)
  define collected where "collected t = range_collect lc opts (es_revision s) (iterateRange lc (es_histories t) start rangeEnd) []" for t :: fake_state
  have "resolveStoredValueAt (revisions_of lc k s') (es_revision s) = resolveStoredValueAt (revisions_of lc k s) (es_revision s)" for k
    using past_value [OF ok later kept, of k] current_value [OF ok] by simp
  then have "value_entry opts (es_revision s) (revisions_of lc k s') = value_entry opts (es_revision s) (revisions_of lc k s)" for k
    by (simp add: value_entry_def)
  then have "set (collected s') = set (collected s)"
    unfolding collected_def range_entries(2) [OF ok'] range_entries(2) [OF ok] read_all [OF ok' found'(1)] read_all [OF ok found'(2)] by simp
  then have same: "collected s' = collected s"
    using sort.ordered_unique [OF range_entries(1) [OF ok'] range_entries(1) [OF ok]] unfolding collected_def by blast
  have now: "resolveRevision None s = Inr (es_revision s)"
    and past: "resolveRevision (Some (int (es_revision s))) s' = Inr (es_revision s)"
    using pos le by (simp_all add: resolveRevision_def)
  have reach: "compactedRevisionForRange (int (es_revision s)) s' = None"
    using available by (simp add: compactedRevisionForRange_def)
  show ?thesis
    using same unfolding etcd_range_def collected_def start_def rangeEnd_def
    by (simp add: now past reach collect_revision Let_def split: option.split)
qed

end

section \<open>Prefixes\<close>

text \<open>The successor of a prefix, from its front.\<close>

fun successor :: "nat list \<Rightarrow> utf16 option" where
  "successor [] = None"
| "successor (c # p) = (case successor p of Some e \<Rightarrow> Some (c # e) | None \<Rightarrow> if c = 0xffff then None else Some [c + 1])"

lemma bump_last_successor: "bump_last (rev p) = successor p"
proof -
  have "bump_last (xs @ [c]) = (case bump_last xs of Some e \<Rightarrow> Some (c # e) | None \<Rightarrow> if c = 0xffff then None else Some [c + 1])" for xs c
    by (induction xs) auto
  then show ?thesis by (induction p) auto
qed

lemma prefixRangeEnd_eq: "prefixRangeEnd p = (case successor p of Some e \<Rightarrow> e | None \<Rightarrow> zeroKey)"
  by (simp add: prefixRangeEnd_def bump_last_successor)

text \<open>The characters of a string are at most \<open>0xffff\<close>.\<close>

abbreviation units :: "utf16 \<Rightarrow> bool" where
  "units k \<equiv> \<forall>c \<in> set k. c \<le> 0xffff"

lemma successor_bounds:
  "units k \<Longrightarrow> (case successor p of Some e \<Rightarrow> p \<le> k \<and> k < e | None \<Rightarrow> p \<le> k) \<longleftrightarrow> prefix p k"
proof (induction p arbitrary: k)
  case (Cons c p)
  show ?case
  proof (cases k)
    case k: (Cons x k')
    have IH: "(case successor p of Some e \<Rightarrow> p \<le> k' \<and> k' < e | None \<Rightarrow> p \<le> k') \<longleftrightarrow> prefix p k'"
      using Cons k by auto
    have x: "x \<le> 0xffff" using Cons.prems k by simp
    show ?thesis using IH x unfolding k by (auto split: option.splits)
  qed (auto split: option.split)
qed simp

lemma successor_not_special: "successor p = Some e \<Longrightarrow> e \<noteq> [] \<and> e \<noteq> zeroKey"
proof (induction p arbitrary: e)
  case (Cons c p)
  then show ?case by (cases "successor p") (auto simp: zeroKey_def split: if_splits)
qed simp

lemma prefix_range:
  "units k \<Longrightarrow> isKeyInRange k p (prefixRangeEnd p) \<longleftrightarrow> prefix p k"
  using successor_bounds [of k p] successor_not_special [of p]
  by (auto simp: isKeyInRange_def prefixRangeEnd_eq zeroKey_def split: option.splits)

lemma shift_range: "ns @ p \<le> ns @ k \<longleftrightarrow> p \<le> (k :: utf16)" "ns @ p < ns @ k \<longleftrightarrow> p < (k :: utf16)"
  by (induction ns) auto

lemma between_prefix: "ns @ p \<le> k \<Longrightarrow> k < ns @ e \<Longrightarrow> prefix ns (k :: utf16)"
proof (induction ns arbitrary: k)
  case (Cons c ns)
  then show ?case by (cases k) auto
qed simp

lemma above_prefix: "ns @ p \<le> k \<Longrightarrow> ns \<le> (k :: utf16)"
proof (induction ns arbitrary: k)
  case (Cons c ns)
  then show ?case by (cases k) auto
qed simp

section \<open>Claims\<close>


text \<open>
  The range a client asks for with a prefix, within a namespace, holds exactly the keys of that
  namespace that start with the prefix: this is what \<open>prefixRangeEnd\<close> and \<open>namespacedRangeEnd\<close> compute,
  also for the empty prefix and for prefixes that end in the largest code unit.
\<close>

theorem prefix_range_keys:
  assumes "units (ns @ p @ k)"
  shows "isKeyInRange k (namespacedKey ns p) (namespacedRangeEnd ns (prefixRangeEnd p)) \<longleftrightarrow> prefix (ns @ p) k"
proof (cases "successor p")
  case (Some e)
  note e = successor_not_special [OF Some]
  have "isKeyInRange k (ns @ p) (ns @ e) \<longleftrightarrow> ns @ p \<le> k \<and> k < ns @ e"
    using e by (auto simp: isKeyInRange_def zeroKey_def append_eq_Cons_conv)
  also have "\<dots> \<longleftrightarrow> (\<exists>k'. k = ns @ k' \<and> p \<le> k' \<and> k' < e)"
    using between_prefix [of ns p k e] by (auto simp: shift_range prefix_def)
  also have "\<dots> \<longleftrightarrow> prefix (ns @ p) k"
    using assms successor_bounds [of _ p] Some by (auto simp: prefix_def) (metis Un_iff set_append)+
  finally show ?thesis using e Some by (simp add: namespacedKey_def namespacedRangeEnd_def prefixRangeEnd_eq)
next
  case None
  then have top: "p \<le> k' \<longleftrightarrow> prefix p k'" if "units k'" for k' using that successor_bounds [of k' p] by simp
  have "isKeyInRange k (ns @ p) (prefixRangeEnd ns) \<longleftrightarrow> ns @ p \<le> k \<and> isKeyInRange k ns (prefixRangeEnd ns)"
    using above_prefix [of ns p k] successor_not_special [of ns]
    by (auto simp: isKeyInRange_def prefixRangeEnd_eq zeroKey_def split: option.split)
  also have "\<dots> \<longleftrightarrow> ns @ p \<le> k \<and> prefix ns k" using prefix_range assms by simp
  also have "\<dots> \<longleftrightarrow> prefix (ns @ p) k" using top assms by (auto simp: shift_range prefix_def)
  finally show ?thesis using None prefix_range [of k p] assms
    by (simp add: namespacedKey_def namespacedRangeEnd_def prefixRangeEnd_eq zeroKey_def)
qed

section \<open>Examples\<close>

text \<open>A put of a value without options.\<close>

definition plain_put :: "utf16 \<Rightarrow> bytes \<Rightarrow> etcd_call" where
  "plain_put k v = CallPut [] \<lparr>po_key = k, po_value = Some v, po_prevKv = False, po_ignoreValue = False\<rparr>"

definition two_keys :: fake_state where
  "two_keys = fold (etcd_do order_cmp) [plain_put [97] [1], plain_put [98] [2]] (new_fake_state None)"

text \<open>The values a read of one key returns.\<close>

definition values_at :: "utf16 \<Rightarrow> int option \<Rightarrow> fake_state \<Rightarrow> etcd_error + bytes list" where
  "values_at k revision s =
     map_sum id (\<lambda>r. map kv_value (rr_kvs r)) (etcd_range order_cmp [] ((single_range k)\<lparr>ro_revision := revision\<rparr>) s)"

text \<open>
  A key that is written often enough loses the revision that was current at an old time, while the
  compacted revision stays below that time: the read is let through and reports the key missing. In
  the code's own terms: revision 2 is after the compacted revision 1, the key existed at revision 2,
  and the read at revision 2 finds no key.
\<close>

lemma retention_gap:
  "values_at [97] None two_keys = Inr [[1]] \<and> es_revision two_keys = 2 \<and>
   (let s = fold (etcd_do order_cmp) [plain_put [97] [3], plain_put [97] [4], plain_put [97] [5]] two_keys
    in es_compactedRevision s = 1 \<and> values_at [97] (Some 2) s = Inr [])"
  by code_simp

text \<open>
  What happens otherwise: in the order of \<open>locale_order\<close>, with \<open>p/a\<close>, \<open>P/b\<close> and \<open>p/c\<close> stored, a read of
  the prefix \<open>p/\<close> misses \<open>p/c\<close>.
\<close>

lemma prefix_p: "prefix_range [112, 47] = (single_range [112, 47])\<lparr>ro_rangeEnd := [112, 48], ro_limit := 0\<rparr>"
  by (simp add: prefix_range_def range_prefix_def prefixRangeEnd_def)

lemma locale_range_gap:
  "(let s = fold (etcd_do locale_order) [plain_put [112, 47, 97] [1], plain_put [80, 47, 98] [2], plain_put [112, 47, 99] [3]]
        (new_fake_state None)
    in map_sum id (\<lambda>r. map kv_key (rr_kvs r)) (etcd_range locale_order [] (prefix_range [112, 47]) s)) = Inr [[112, 47, 97]]"
  unfolding prefix_p by code_simp

text \<open>
  A transaction that fails half-way keeps what it wrote: the first put stays in the store, at its
  revision, and no watcher is told.
\<close>

lemma partial_transaction:
  "(let put = \<lambda>k ignore. \<lparr>request_range = None, request_put = Some \<lparr>po_key = k, po_value = Some [7], po_prevKv = False,
          po_ignoreValue = ignore\<rparr>, request_delete_range = None, request_txn = False\<rparr>;
        (result, s) = etcd_txn order_cmp \<lparr>tr_compare = [], tr_success = [put [97] False, put [98] True], tr_failure = []\<rparr>
          (new_fake_state None)
    in \<not> is_ok result \<and> values_at [97] None s = Inr [[7]] \<and> es_revision s = 1)"
  by code_simp

text \<open>Compaction, which deletes entries of the map it walks over, keeps every second record.\<close>

lemma compaction_leaves_records:
  "(let s = fold (etcd_do order_cmp) [plain_put [97] [1], plain_put [98] [2], plain_put [99] [3], plain_put [100] [4], CallCompact 4]
        (new_fake_state None)
    in map fst (es_history s) = [2, 4] \<and> es_compactedRevision s = 4)"
  by code_simp

text \<open>A put that is refused has already taken a revision.\<close>

lemma refused_put_takes_revision:
  "(let s = etcd_do order_cmp (plain_put [] [1]) (new_fake_state None) in es_revision s = 1 \<and> es_history s = [])"
  by code_simp

lemma order_cmp_ok: "etcd_keys order_cmp" "etcd_ok order_cmp two_keys"
proof -
  show "etcd_keys order_cmp" ..
  show "etcd_ok order_cmp two_keys"
    using code_units.calls_move [OF new_state_ok] unfolding two_keys_def code_units.moves_on_def by blast
qed




lemma prefix_range_keys_witness:
  "isKeyInRange [114, 47, 112, 47, 97] (namespacedKey [114, 47] [112, 47])
     (namespacedRangeEnd [114, 47] (prefixRangeEnd [112, 47])) \<longleftrightarrow> prefix [114, 47, 112, 47] [114, 47, 112, 47, 97 :: nat]"
  using prefix_range_keys [of "[114, 47]" "[112, 47]" "[114, 47, 112, 47, 97]"] by simp

end
