(* ===== verification/EtcdWatch.thy ===== *)
theory EtcdWatch
  imports EtcdReads
begin

text \<open>
  Watches and conditional transactions of the etcd. Every successful write publishes one batch of
  records and files the same batch in the history under its revision, so a watcher that comes later and
  replays the history sees what a live one saw. A compare on the revision of a key makes a transaction
  succeed at most once.
\<close>

section \<open>The view of a client\<close>

text \<open>The current key-value pairs by key, and how a watch event changes such a view.\<close>

definition public :: "order \<Rightarrow> fake_state \<Rightarrow> utf16 \<Rightarrow> key_value option" where
  "public lc s = (\<lambda>k. map_option (\<lambda>v. toPublicKv v [] False) (currentValue (revisions_of lc k s)))"

definition apply_event :: "watch_event \<Rightarrow> (utf16 \<Rightarrow> key_value option) \<Rightarrow> utf16 \<Rightarrow> key_value option" where
  "apply_event e m =
     (case we_type e of
        PutEvent \<Rightarrow> m(kv_key (we_kv e) \<mapsto> we_kv e)
      | DeleteEvent \<Rightarrow> m(kv_key (we_kv e) := None))"

lemma toPublicKv_key [simp]: "kv_key (toPublicKv v [] b) = sv_key v"
  by (simp add: toPublicKv_def)

lemma public_same: "same_store s s' \<Longrightarrow> public lc s' = public lc s"
  by (simp add: public_def same_store_revisions)

section \<open>Batches\<close>

text \<open>
  The state while the records of one revision are filed: \<open>h\<close> is the history before, \<open>ws\<close> the
  watchers, \<open>m\<close> the view before; the records filed so far lead from it to the current view.
\<close>

definition logged :: "order \<Rightarrow> (utf16 \<Rightarrow> key_value option) \<Rightarrow> nat \<Rightarrow> (nat, revision_event list) smap \<Rightarrow> revision_event list \<Rightarrow>
    watcher list \<Rightarrow> fake_state \<Rightarrow> bool" where
  "logged lc m r h recs ws s \<longleftrightarrow> etcd_ok lc s \<and> es_revision s = r \<and> es_watchers s = ws \<and>
     es_history s = h @ (if recs = [] then [] else [(r, recs)]) \<and>
     public lc s = fold (\<lambda>x. apply_event (re_event x)) recs m"

definition before :: "nat \<Rightarrow> (nat, 'v) smap \<Rightarrow> bool" where
  "before r h \<longleftrightarrow> 0 < r \<and> numbers.ordered h \<and> (\<forall>e \<in> set h. fst e < r)"

context etcd_keys
begin

lemma append_logged:
  assumes "before r h" "logged lc m r h recs ws s"
    and x: "sr_key x = k" "sr_modRevision x = r" "sr_historyRevision x = r" "0 < sr_createRevision x" "0 < sr_version x"
    and event: "\<And>m. apply_event event m = m(k := if sr_deleted x then None else Some (toPublicKv (value_of x) [] False))"
  shows "logged lc m r h (recs @ [fst (appendRevision lc k x event s)]) ws (snd (appendRevision lc k x event s))"
proof -
  define s' where "s' = snd (appendRevision lc k x event s)"
  have s: "etcd_ok lc s" "es_revision s = r" "es_watchers s = ws" using assms(2) by (auto simp: logged_def)
  have pos: "0 < es_revision s" "r - 1 < es_revision s" using assms(1) s(2) by (auto simp: before_def)
  note spec = append_spec [OF s(1) x(1) x(2) [folded s(2)] x(3) [folded s(2)] pos(1) x(4,5) pos(2), where event = event, folded s'_def]
  have ok: "etcd_ok lc s'" "es_revision s' = r" "es_watchers s' = ws" using spec(1) s by (auto simp: appended_def)
  have "public lc s' = (public lc s)(k := if sr_deleted x then None else Some (toPublicKv (value_of x) [] False))"
    using spec(2) [of k] spec(3,4) by (auto simp: public_def currentValue_def fun_eq_iff)
  then have pub: "public lc s' = fold (\<lambda>x. apply_event (re_event x)) (recs @ [fst (appendRevision lc k x event s)]) m"
    using assms(2) event by (simp add: logged_def appendRevision_def Let_def case_prod_beta)
  have new: "sm_set number_cmp r v h = h @ [(r, v)]" for v
    using assms(1) by (intro numbers.set_new) (auto simp: before_def number_cmp_def)
  have ord: "numbers.ordered (h @ [(r, recs)])"
    using assms(1) by (auto simp: before_def numbers.ordered_append numbers.ordered_Cons number_cmp_def)
  have none: "map_of h r = None" using assms(1) by (auto simp: before_def map_of_eq_None_iff)
  then have "sm_get number_cmp h r = None" using assms(1) numbers.get_spec [of h r] by (simp add: before_def)
  moreover have "sm_get number_cmp (h @ [(r, recs)]) r = Some recs"
    using numbers.get_spec [OF ord, of r] none by (simp add: map_add_def)
  ultimately have "es_history s' = h @ [(r, recs @ [fst (appendRevision lc k x event s)])]"
    using assms(2) x(2) new numbers.set_last [OF ord]
    by (auto simp: s'_def logged_def appendRevision_def Let_def case_prod_beta)
  with ok pub show ?thesis by (simp add: logged_def s'_def)
qed

lemma put_logged:
  assumes "before r h" "logged lc m r h recs ws s" "applyPutAtRevision lc ns opts r s = (Inr (response, recs'), s')"
  shows "logged lc m r h (recs @ recs') ws s'"
proof -
  have "logged lc m r h (recs @ [fst (appendRevision lc k x event s)]) ws (snd (appendRevision lc k x event s))"
    if "sr_key x = k" "sr_modRevision x = r" "sr_historyRevision x = r" "\<not> sr_deleted x" "we_type event = PutEvent"
      "we_kv event = toPublicKv (value_of x) [] False" "0 < sr_createRevision x" "0 < sr_version x" for k x event
    using that by (intro append_logged [OF assms(1,2)]) (auto simp: apply_event_def value_of_def)
  moreover have "etcd_ok lc s" "0 < r" using assms(1,2) by (auto simp: logged_def before_def)
  ultimately show ?thesis using assms(3) current_ok(2) [of s]
    unfolding applyPutAtRevision_def Let_def
    by (auto simp: case_prod_beta value_of_def split: if_splits option.splits)
qed

lemma delete_values_logged:
  assumes "before r h" "logged lc m r h recs ws s" "\<forall>v \<in> set vs. counted v"
  shows "logged lc m r h (recs @ fst (delete_values lc r vs s)) ws (snd (delete_values lc r vs s))"
  using assms(2,3)
proof (induction vs arbitrary: recs s)
  case (Cons v vs)
  define x where "x = \<lparr>sr_key = sv_key v, sr_value = None, sr_createRevision = sv_createRevision v, sr_modRevision = r,
    sr_version = sv_version v, sr_deleted = True, sr_historyRevision = r\<rparr>"
  define event where "event = \<lparr>we_type = DeleteEvent, we_kv = (toPublicKv v [] False)\<lparr>kv_mod_revision := show_nat r\<rparr>,
    we_prev_kv = Some (toPublicKv v [] False)\<rparr>"
  have "logged lc m r h (recs @ [fst (appendRevision lc (sv_key v) x event s)]) ws (snd (appendRevision lc (sv_key v) x event s))"
    using Cons.prems by (intro append_logged [OF assms(1)]) (auto simp: x_def event_def apply_event_def counted_def)
  from Cons.IH [OF this] Cons.prems(2) show ?case by (simp add: Let_def case_prod_beta x_def event_def)
qed simp

lemma delete_logged:
  assumes "before r h" "logged lc m r h recs ws s" "applyDeleteAtRevision lc ns opts r vs s = ((response, recs'), s')"
    and "\<forall>v \<in> set vs. counted v"
  shows "logged lc m r h (recs @ recs') ws s'"
  using delete_values_logged [OF assms(1,2,4)] assms(3)
  by (auto simp: applyDeleteAtRevision_def case_prod_beta)

lemma txn_op_logged:
  assumes "before r h" "logged lc m r h recs ws s" "txn_op lc r op s = (Inr (responses, recs'), s')"
  shows "logged lc m r h (recs @ recs') ws s'"
proof -
  have "etcd_ok lc s" using assms(2) by (simp add: logged_def)
  then have del: "logged lc m r h (recs @ recs') ws s'"
    if "collectDeleted lc ns opts s = Inr vs" "applyDeleteAtRevision lc ns' opts' r vs s = ((response, recs'), s')"
    for ns ns' opts opts' vs response recs' s'
    using delete_logged [OF assms(1,2) that(2)] collected_counted that(1) by blast
  show ?thesis
    using assms(2,3) put_logged [OF assms(1,2)] del
    unfolding txn_op_def Let_def by (auto split: option.splits sum.splits prod.splits if_splits)
qed

lemma txn_ops_logged:
  assumes "before r h" "logged lc m r h recs ws s" "txn_ops lc r ops s = (Inr (responses, recs'), s')"
  shows "logged lc m r h (recs @ recs') ws s'"
  using assms(2,3)
proof (induction ops arbitrary: recs s responses recs')
  case (Cons op ops)
  from Cons.prems(2) obtain rs1 recs1 s1 rs2 recs2 where
    op: "txn_op lc r op s = (Inr (rs1, recs1), s1)" and ops: "txn_ops lc r ops s1 = (Inr (rs2, recs2), s')"
    and recs': "recs' = recs1 @ recs2"
    by (auto split: prod.splits sum.splits)
  have "logged lc m r h (recs @ recs1) ws s1" by (rule txn_op_logged [OF assms(1) Cons.prems(1) op])
  from Cons.IH [OF this ops] show ?case by (simp add: recs')
qed simp

end

lemma txn_op_no_records:
  "txn_op lc r op s = (Inr (responses, recs'), s') \<Longrightarrow> \<not> op_writes op \<Longrightarrow> recs' = [] \<and> s' = s"
  by (auto simp: txn_op_def op_writes_def split: option.splits sum.splits if_splits)

lemma txn_ops_no_records:
  "txn_ops lc r ops s = (Inr (responses, recs'), s') \<Longrightarrow> \<not> list_ex op_writes ops \<Longrightarrow> recs' = [] \<and> s' = s"
proof (induction ops arbitrary: s responses recs')
  case (Cons op ops)
  then show ?case by (auto dest!: txn_op_no_records split: prod.splits sum.splits)
qed simp

section \<open>Writes\<close>

fun is_write :: "etcd_call \<Rightarrow> bool" where
  "is_write (CallPut ns opts) = True"
| "is_write (CallDelete ns opts) = True"
| "is_write (CallTxn request) = True"
| "is_write c = False"

text \<open>A sequence of writes that all succeed.\<close>

fun etcd_writes :: "order \<Rightarrow> etcd_call list \<Rightarrow> fake_state \<Rightarrow> fake_state option" where
  "etcd_writes lc [] s = Some s"
| "etcd_writes lc (c # cs) s =
     (case etcd_try lc c s of (success, s') \<Rightarrow> if is_write c \<and> success then etcd_writes lc cs s' else None)"

text \<open>
  What a write does for the watchers: one batch is published, and filed under a new revision; its
  records turn the view before into the view after.
\<close>

definition published :: "order \<Rightarrow> (nat \<times> revision_event list) list \<Rightarrow> fake_state \<Rightarrow> fake_state \<Rightarrow> bool" where
  "published lc batches s s' \<longleftrightarrow>
     es_watchers s' = map (fold (\<lambda>b. handleMany (snd b)) batches) (es_watchers s) \<and>
     es_history s' = es_history s @ batches \<and> (\<forall>b \<in> set batches. es_revision s < fst b) \<and>
     public lc s' = fold (\<lambda>x. apply_event (re_event x)) (concat (map snd batches)) (public lc s)"

lemma handle_none [simp]: "handleMany [] w = w"
  by (simp add: handleMany_def)

lemma published_nothing: "published lc [] s s"
  by (simp add: published_def map_idI)

lemma published_batch:
  assumes "logged lc (public lc s) r (es_history s) recs (es_watchers s) s'" "es_revision s < r"
  shows "published lc (if recs = [] then [] else [(r, recs)]) s (publish recs s')"
  using assms public_same [of s' "publish recs s'"] by (auto simp: logged_def published_def publish_def map_idI)

lemma published_trans:
  assumes "published lc b s s'" "published lc b' s' s''" "es_revision s \<le> es_revision s'"
  shows "published lc (b @ b') s s''"
  using assms by (auto simp: published_def)

context etcd_keys
begin

lemma logged_start:
  assumes "etcd_ok lc s"
  shows "before (es_revision s + 1) (es_history s)"
    and "logged lc (public lc s) (es_revision s + 1) (es_history s) [] (es_watchers s) (bumpRevision s)"
proof -
  have "public lc (bumpRevision s) = public lc s" by (simp add: public_def revisions_of_def bumpRevision_def)
  then show "logged lc (public lc s) (es_revision s + 1) (es_history s) [] (es_watchers s) (bumpRevision s)"
    using bump_ok [OF assms] by (simp add: logged_def) (simp add: bumpRevision_def)
  show "before (es_revision s + 1) (es_history s)"
    using assms ok_history [OF assms] by (auto simp: before_def etcd_ok_def)
qed

lemma put_publishes:
  assumes "etcd_ok lc s" "etcd_put lc ns opts s = (Inr response, s')"
  shows "\<exists>batches. published lc batches s s'"
proof -
  from assms(2) obtain recs s1 where
    put: "applyPutAtRevision lc ns opts (es_revision s + 1) (bumpRevision s) = (Inr (response, recs), s1)"
    and s': "s' = publish recs s1"
    by (auto simp: etcd_put_def Let_def bumpRevision_def split: prod.splits sum.splits)
  show ?thesis
    unfolding s' using put_logged [OF logged_start [OF assms(1)] put] published_batch by fastforce
qed

lemma delete_publishes:
  assumes "etcd_ok lc s" "etcd_delete lc ns opts s = (Inr response, s')"
  shows "\<exists>batches. published lc batches s s'"
proof (cases "s' = s")
  case True
  then show ?thesis using published_nothing by blast
next
  case False
  with assms(2) obtain vs recs s1 where
    del: "applyDeleteAtRevision lc ns opts (es_revision s + 1) vs (bumpRevision s) = ((response, recs), s1)"
    and s': "s' = publish recs s1" and vs: "collectDeleted lc ns opts s = Inr vs"
    by (auto simp: etcd_delete_def Let_def bumpRevision_def split: prod.splits sum.splits if_splits)
  show ?thesis
    unfolding s' using delete_logged [OF logged_start [OF assms(1)] del collected_counted [OF assms(1) vs]] published_batch
    by fastforce
qed

lemma txn_publishes:
  assumes "etcd_ok lc s" "etcd_txn lc request s = (Inr response, s')"
  shows "\<exists>batches. published lc batches s s'"
proof -
  define operations where "operations = (if list_all (\<lambda>c. evaluateCompare lc c s) (tr_compare request)
    then tr_success request else tr_failure request)"
  define s1 where "s1 = (if list_ex op_writes operations then bumpRevision s else s)"
  from assms(2) obtain responses recs s2 where
    ops: "txn_ops lc (es_revision s1) operations s1 = (Inr (responses, recs), s2)"
    and s': "s' = (if length recs > 0 then publish recs s2 else s2)"
    unfolding etcd_txn_def Let_def operations_def [symmetric] s1_def [symmetric]
    by (auto split: prod.splits sum.splits option.splits)
  have "publish [] s2 = s2" by (simp add: publish_def map_idI)
  with s' have s': "s' = publish recs s2" by auto
  show ?thesis
  proof (cases "list_ex op_writes operations")
    case True
    then have "s1 = bumpRevision s" "es_revision s1 = es_revision s + 1" by (simp_all add: s1_def bumpRevision_def)
    with ops have "txn_ops lc (es_revision s + 1) operations (bumpRevision s) = (Inr (responses, recs), s2)" by simp
    then show ?thesis
      unfolding s' using txn_ops_logged [OF logged_start [OF assms(1)]] published_batch by fastforce
  next
    case False
    then have "recs = []" "s2 = s" using txn_ops_no_records [OF ops] by (auto simp: s1_def)
    then show ?thesis using published_nothing s' \<open>publish [] s2 = s2\<close> by auto
  qed
qed

lemma write_publishes:
  assumes "etcd_ok lc s" "etcd_try lc c s = (True, s')" "is_write c"
  shows "\<exists>batches. published lc batches s s'"
  using assms put_publishes delete_publishes txn_publishes
  by (cases c) (auto split: prod.splits sum.splits)

lemma writes_publish:
  "etcd_ok lc s \<Longrightarrow> etcd_writes lc calls s = Some s' \<Longrightarrow> moves_on s s' \<and> (\<exists>batches. published lc batches s s')"
proof (induction calls arbitrary: s)
  case (Cons c cs)
  from Cons.prems(2) obtain s1 where c: "etcd_try lc c s = (True, s1)" "is_write c" and cs: "etcd_writes lc cs s1 = Some s'"
    by (auto split: prod.splits if_splits)
  have step: "moves_on s s1" using call_moves [OF Cons.prems(1), of c] c(1) by (simp add: etcd_do_def)
  then have ok: "etcd_ok lc s1" "es_revision s \<le> es_revision s1" by (auto simp: moves_on_def grows_def)
  with Cons.IH [OF ok(1) cs] write_publishes [OF Cons.prems(1) c] show ?case
    using published_trans moves_on_trans [OF step] by blast
qed (use published_nothing moves_on_refl in auto)

end

section \<open>What a watcher reports\<close>

text \<open>The data messages of a watcher: the revision header and the events of each.\<close>

definition watch_stream :: "watcher \<Rightarrow> (response_header \<times> watch_event list) list" where
  "watch_stream w = List.map_filter (\<lambda>e. case e of EmitData r \<Rightarrow> Some (wr_header r, wr_events r) | _ \<Rightarrow> None) (wt_out w)"

definition batch_stream :: "utf16 \<Rightarrow> watch_options \<Rightarrow> revision_event list \<Rightarrow> (response_header \<times> watch_event list) list" where
  "batch_stream ns opts recs =
     (case watched_batch ns opts recs of
        (matched, Some r) \<Rightarrow> if matched = [] then [] else [(header_at r, matched)]
      | _ \<Rightarrow> [])"

definition live :: "watcher \<Rightarrow> bool" where
  "live w \<longleftrightarrow> wt_connected w \<and> \<not> wt_ended w"

lemma map_filter_append: "List.map_filter f (xs @ ys) = List.map_filter f xs @ List.map_filter f ys"
  by (simp add: List.map_filter_def)

lemma handle_stream:
  assumes "live w"
  shows "live (handleMany recs w) \<and> wt_namespace (handleMany recs w) = wt_namespace w \<and>
    wt_options (handleMany recs w) = wt_options w \<and>
    watch_stream (handleMany recs w) = watch_stream w @ batch_stream (wt_namespace w) (wt_options w) recs"
proof -
  have "List.map_filter (\<lambda>e. case e of EmitData r \<Rightarrow> Some (wr_header r, wr_events r) | _ \<Rightarrow> None) (map emit_event es) = []" for es
    by (induction es) (auto simp: emit_event_def List.map_filter_simps split: event_type.split)
  with assms show ?thesis
    by (auto simp: live_def handleMany_def watch_stream_def batch_stream_def List.map_filter_simps map_filter_append
        split: prod.split option.split)
qed

lemma handle_batches:
  "live w \<Longrightarrow> watch_stream (fold (\<lambda>b. handleMany (snd b)) batches w) =
    watch_stream w @ concat (map (\<lambda>b. batch_stream (wt_namespace w) (wt_options w) (snd b)) batches)"
proof (induction batches arbitrary: w)
  case (Cons b bs)
  then show ?case using handle_stream [OF Cons.prems, of "snd b"] by simp
qed simp

lemma batch_stream_start: "batch_stream ns (opts\<lparr>wo_startRevision := r\<rparr>) recs = batch_stream ns opts recs"
proof -
  have "watched_batch ns (opts\<lparr>wo_startRevision := r\<rparr>) recs = watched_batch ns opts recs"
    by (induction recs) (auto simp: watched_event_def Let_def)
  then show ?thesis by (simp add: batch_stream_def)
qed

section \<open>Listing and watching\<close>

definition client_view :: "order \<Rightarrow> utf16 \<Rightarrow> utf16 \<Rightarrow> fake_state \<Rightarrow> utf16 \<Rightarrow> key_value option" where
  "client_view lc start rangeEnd s = (\<lambda>k. if isKeyInRange k start rangeEnd then public lc s k else None)"

lemma root_key [simp]: "namespacedKey [] k = k" "unprefixKey k [] = k" "namespacedRangeEnd [] e = e"
  by (simp_all add: namespacedKey_def unprefixKey_def namespacedRangeEnd_def)




text \<open>The view of a list response, and the list request of a range.\<close>

definition view_of :: "key_value list \<Rightarrow> utf16 \<Rightarrow> key_value option" where
  "view_of kvs = map_of (map (\<lambda>kv. (kv_key kv, kv)) kvs)"

definition list_request :: "utf16 \<Rightarrow> utf16 \<Rightarrow> range_options" where
  "list_request start rangeEnd = (single_range start)\<lparr>ro_rangeEnd := rangeEnd, ro_limit := 0\<rparr>"

lemma map_of_functional: "(\<And>v. (k, v) \<in> set xs \<longleftrightarrow> f k = Some v) \<Longrightarrow> map_of xs k = f k"
  by (metis map_of_SomeD not_None_eq weak_map_of_SomeI)

context etcd_keys
begin

lemma list_view:
  assumes ok: "etcd_ok lc s" and found: "together lc s start rangeEnd"
    and list: "etcd_range lc [] (list_request start rangeEnd) s = Inr response"
  shows "view_of (rr_kvs response) = client_view lc start rangeEnd s"
proof -
  define opts where "opts = list_request start rangeEnd"
  define collected where "collected = range_collect lc opts (es_revision s) (iterateRange lc (es_histories s) start rangeEnd) []"
  have opts: "ro_key opts = start" "ro_rangeEnd opts = rangeEnd" "ro_limit opts = 0" "ro_revision opts = None"
      "ro_countOnly opts = False" "ro_keysOnly opts = False" "passesRangeFilters v opts" for v
    by (simp_all add: opts_def list_request_def single_range_def passesRangeFilters_def)
  have kvs: "rr_kvs response = map (\<lambda>e. toPublicKv (snd e) [] False) collected"
    using list unfolding opts_def [symmetric]
    by (auto simp: etcd_range_def opts resolveRevision_def collected_def Let_def split: option.splits)
  have key: "sv_key v = k" if "currentValue (revisions_of lc k s) = Some v" for k v
    using that resolve_key [of "es_revision s" k "revisions_of lc k s" "es_revision s" v] current_value [OF ok]
      revisions_ok [OF ok] by (cases "revisions_of lc k s = []") (auto simp: currentValue_def)
  have "set collected = (\<Union>k \<in> {k. isKeyInRange k start rangeEnd}. value_entry opts (es_revision s) (revisions_of lc k s))"
    unfolding collected_def range_entries(2) [OF ok] read_all [OF ok found] ..
  then have "set (rr_kvs response) = {kv. \<exists>k v. isKeyInRange k start rangeEnd \<and> currentValue (revisions_of lc k s) = Some v \<and> kv = toPublicKv v [] False}"
    unfolding kvs by (force simp: value_entry_def current_value [OF ok] opts split: option.splits)
  then have "(k, kv) \<in> set (map (\<lambda>kv. (kv_key kv, kv)) (rr_kvs response)) \<longleftrightarrow> client_view lc start rangeEnd s k = Some kv" for k kv
    using key by (auto simp: client_view_def public_def image_iff)
  then show ?thesis unfolding view_of_def by (intro ext map_of_functional) blast
qed

end

section \<open>Conditional transactions\<close>

text \<open>The compare of an optimistic update: the key is still at the revision that was read.\<close>

definition unchanged :: "utf16 \<Rightarrow> nat \<Rightarrow> compare" where
  "unchanged k m = \<lparr>ct_result = Some CompareEqual, ct_target = Some TargetMod, ct_key = Some k, ct_version = None,
     ct_create_revision = None, ct_mod_revision = Some (int m), ct_value = None, ct_lease = None\<rparr>"

lemma unchanged_iff:
  "evaluateCompare lc (unchanged k m) s \<longleftrightarrow>
     (case currentValue (revisions_of lc k s) of Some v \<Rightarrow> sv_modRevision v = m | None \<Rightarrow> m = 0)"
  by (auto simp: evaluateCompare_def unchanged_def cmp_holds_def or_zero_def split: option.split)

text \<open>A key whose last revision is newer than some revision stays so.\<close>

definition newer :: "order \<Rightarrow> nat \<Rightarrow> utf16 \<Rightarrow> fake_state \<Rightarrow> bool" where
  "newer lc n k s \<longleftrightarrow> revisions_of lc k s \<noteq> [] \<and> n < sr_modRevision (last (revisions_of lc k s))"

lemma newer_grows: "newer lc n k s \<Longrightarrow> grows lc n s s' \<Longrightarrow> newer lc n k s'"
proof -
  assume new: "newer lc n k s" and "grows lc n s s'"
  then obtain rs where rs: "suffix (revisions_of lc k s') (revisions_of lc k s @ rs)" "\<forall>r \<in> set rs. n < sr_modRevision r"
    and ne: "revisions_of lc k s' \<noteq> []"
    by (auto simp: grows_def newer_def)
  have "last (revisions_of lc k s') = last (revisions_of lc k s @ rs)" using rs(1) ne by (auto simp: suffix_def)
  also have "\<dots> = (if rs = [] then last (revisions_of lc k s) else last rs)" by simp
  finally show ?thesis using new rs(2) ne by (auto simp: newer_def)
qed

lemma newer_changed: "newer lc n k s \<Longrightarrow> 0 < m \<Longrightarrow> m \<le> n \<Longrightarrow> \<not> evaluateCompare lc (unchanged k m) s"
  by (auto simp: unchanged_iff newer_def currentValue_def value_of_def)

context etcd_keys
begin

lemma put_newer:
  assumes "etcd_ok lc s" "n < es_revision s" "applyPutAtRevision lc [] p (es_revision s) s = (Inr r, s')"
  shows "newer lc n (po_key p) s'"
proof -
  have "newer lc n key (snd (appendRevision lc key x event s))"
    if "sr_key x = key" "sr_modRevision x = es_revision s" "sr_historyRevision x = es_revision s"
      "0 < sr_createRevision x" "0 < sr_version x" for key x event
  proof -
    from assms(2) have pos: "0 < es_revision s" by simp
    show ?thesis
      using append_spec(2,3) [OF assms(1) that(1-3) pos that(4,5) assms(2)] assms(2) that(2) by (simp add: newer_def)
  qed
  with assms(2,3) current_ok(2) [OF assms(1)] show ?thesis
    unfolding applyPutAtRevision_def Let_def by (auto simp: case_prod_beta namespacedKey_def split: if_splits option.splits)
qed

lemma txn_ops_put:
  assumes "etcd_ok lc s" "n < es_revision s" "txn_ops lc (es_revision s) ops s = (Inr r, s')"
    and "op \<in> set ops" "request_range op = None" "request_put op = Some p"
  shows "newer lc n (po_key p) s'"
  using assms(1-4)
proof (induction ops arbitrary: s r)
  case (Cons o1 ops)
  from Cons.prems(3) obtain r1 s1 r2 where o1: "txn_op lc (es_revision s) o1 s = (Inr r1, s1)"
    and rest: "txn_ops lc (es_revision s) ops s1 = (Inr r2, s')"
    by (auto split: prod.splits sum.splits)
  have "appended lc n s s1" using txn_op_appended [OF Cons.prems(1), of o1 n] o1 Cons.prems(2) by simp
  then have ok: "etcd_ok lc s1" "es_revision s1 = es_revision s" by (auto simp: appended_def)
  have "appended lc n s1 s'" using txn_ops_appended [OF ok(1), of ops n] rest Cons.prems(2) ok(2) by simp
  then have grown: "grows lc n s1 s'" by (simp add: appended_def)
  show ?case
  proof (cases "op = o1")
    case True
    then obtain put where "applyPutAtRevision lc [] p (es_revision s) s = (Inr put, s1)"
      using o1 assms(5,6) by (auto simp: txn_op_def split: prod.splits sum.splits)
    then show ?thesis using put_newer [OF Cons.prems(1,2)] newer_grows grown by blast
  next
    case False
    then show ?thesis using Cons.IH [OF ok(1)] ok(2) rest Cons.prems(2,4) by auto
  qed
qed simp

lemma cas_once:
  assumes ok: "etcd_ok lc s" and txn: "etcd_txn lc request s = (Inr response, s1)" "ts_succeeded response"
    and guard: "unchanged k m \<in> set (tr_compare request)" "0 < m"
    and op: "op \<in> set (tr_success request)" "request_range op = None" "request_put op = Some p" "po_key p = k"
  shows "newer lc m k (fold (etcd_do lc) calls s1) \<and> etcd_ok lc (fold (etcd_do lc) calls s1)"
proof -
  have all: "list_all (\<lambda>c. evaluateCompare lc c s) (tr_compare request)"
    using txn by (auto simp: etcd_txn_def Let_def split: prod.splits sum.splits option.splits if_splits)
  then have "evaluateCompare lc (unchanged k m) s" using guard(1) by (auto simp: list_all_iff)
  then have rs: "revisions_of lc k s \<noteq> []" "sr_modRevision (last (revisions_of lc k s)) = m"
    using guard(2) by (auto simp: unchanged_iff currentValue_def value_of_def split: if_splits)
  have m: "m \<le> es_revision s" using revisions_ok [OF ok rs(1)] rs last_in_set [OF rs(1)] by (auto simp: history_ok_def)
  have writes: "list_ex op_writes (tr_success request)" using op by (auto simp: list_ex_iff op_writes_def)
  define sb where "sb = bumpRevision s"
  have sb: "etcd_ok lc sb" "m < es_revision sb" using bump_ok [OF ok] m by (simp_all add: sb_def bumpRevision_def)
  from txn(1) all writes obtain responses records s2 where
    ops: "txn_ops lc (es_revision sb) (tr_success request) sb = (Inr (responses, records), s2)"
    and s1: "s1 = publish records s2 \<or> s1 = s2"
    by (auto simp: etcd_txn_def Let_def sb_def split: prod.splits sum.splits option.splits if_splits)
  have "newer lc m k s2" using txn_ops_put [OF sb ops op(1-3)] op(4) by simp
  then have new: "newer lc m k s1" using s1 same_store_revisions [of s2 s1] by (auto simp: newer_def)
  have "moves_on s s1" using txn_moves [OF ok, of request] txn(1) by simp
  then have ok1: "etcd_ok lc s1" and le: "m \<le> es_revision s1" using m by (auto simp: moves_on_def grows_def)
  have "moves_on s1 (fold (etcd_do lc) calls s1)" by (rule calls_move [OF ok1])
  then have "grows lc m s1 (fold (etcd_do lc) calls s1)" "etcd_ok lc (fold (etcd_do lc) calls s1)"
    using le grows_mono by (auto simp: moves_on_def)
  with new show ?thesis using newer_grows by blast
qed

end

section \<open>Claims\<close>

text \<open>
  C3. A watcher that starts late misses nothing: let a watcher be live at some revision, and any puts,
  deletes and transactions follow, all successful. A second watcher with the same key range and
  filters, opened afterwards with the next revision as its start, is sent exactly the data messages
  the live one was sent in between: the same batches, headers and events in the same order. The start
  must not have been compacted.
\<close>

theorem etcd_watch_replay:
  assumes "etcd_keys lc" "etcd_ok lc s" "etcd_writes lc calls s = Some s'"
    and "i < length (es_watchers s)" "w = es_watchers s ! i" "wt_connected w" "\<not> wt_ended w"
    and "es_compactedRevision s' \<le> es_revision s"
    and "late = \<lparr>wt_id = n, wt_namespace = wt_namespace w,
      wt_options = (wt_options w)\<lparr>wo_startRevision := Some (int (es_revision s) + 1)\<rparr>,
      wt_connected = False, wt_ended = False, wt_out = []\<rparr>"
  shows "watch_stream (es_watchers s' ! i) = watch_stream w @ watch_stream (fst (connect_watcher s' late))"
proof -
  obtain batches where batches: "published lc batches s s'" and moved: "etcd_keys.moves_on lc s s'"
    using etcd_keys.writes_publish [OF assms(1-3)] by blast
  define data where "data = concat (map (\<lambda>b. batch_stream (wt_namespace w) (wt_options w) (snd b)) batches)"
  have "live w" using assms(6,7) by (simp add: live_def)
  then have seen: "watch_stream (es_watchers s' ! i) = watch_stream w @ data"
    using batches assms(4,5) by (simp add: published_def handle_batches data_def)
  define w0 where "w0 = watcher_connect (etcd_header s') late"
  have w0: "live w0" "watch_stream w0 = []" "wt_namespace w0 = wt_namespace w"
      "wt_options w0 = (wt_options w)\<lparr>wo_startRevision := Some (int (es_revision s) + 1)\<rparr>"
    by (simp_all add: w0_def assms(9) watcher_connect_def live_def watch_stream_def List.map_filter_simps)
  have hist: "es_history s' = es_history s @ batches" and new: "\<forall>b \<in> set batches. es_revision s < fst b"
    using batches by (auto simp: published_def)
  have old: "\<forall>b \<in> set (es_history s). fst b \<le> es_revision s" using assms(2) by (auto simp: etcd_ok_def)
  have "etcd_ok lc s'" using moved assms(1) by (simp add: etcd_keys.moves_on_def)
  then have "numbers.ordered (es_history s')" using etcd_keys.ok_history [OF assms(1)] by blast
  then have "sm_entriesFrom number_cmp (es_revision s + 1) (es_history s') =
      filter (\<lambda>e. number_cmp (fst e) (es_revision s + 1) \<ge> 0) (es_history s @ batches)"
    using numbers.entriesFrom_spec hist by metis
  also have "\<dots> = batches"
  proof -
    have "filter (\<lambda>e. number_cmp (fst e) (es_revision s + 1) \<ge> 0) (es_history s) = []"
      using old by (auto simp: filter_empty_conv number_cmp_def)
    moreover have "filter (\<lambda>e. number_cmp (fst e) (es_revision s + 1) \<ge> 0) batches = batches"
      using new by (auto simp: filter_id_conv number_cmp_def)
    ultimately show ?thesis by simp
  qed
  finally have entries: "sm_entriesFrom number_cmp (es_revision s + 1) (es_history s') = batches" .
  have start: "nat (int (es_revision s) + 1) = Suc (es_revision s)" by simp
  have handle: "(\<lambda>(r :: nat, records). handleMany records) = (\<lambda>b. handleMany (snd b))" by auto
  have "fst (connect_watcher s' late) = fold (\<lambda>b. handleMany (snd b)) batches w0"
    using assms(8) entries unfolding connect_watcher_def
    by (simp add: assms(9) compactedRevisionForRange_def w0_def Let_def handle start)
  then have "watch_stream (fst (connect_watcher s' late)) = data"
    using handle_batches [OF w0(1)] w0 by (simp add: data_def batch_stream_start)
  with seen show ?thesis by simp
qed


text \<open>
  C4. Optimistic updates: once a transaction that was conditional on the revision of a key has
  succeeded in writing the key, no transaction with the same condition succeeds ever again, whatever
  calls come between, deletions of the key included. So of all the clients that read a key at one
  revision at most one update takes effect.
\<close>

theorem etcd_cas:
  assumes "etcd_keys lc" "etcd_ok lc s"
    and "etcd_txn lc request s = (Inr response, s1)" "ts_succeeded response"
    and "unchanged k m \<in> set (tr_compare request)" "0 < m"
    and "op \<in> set (tr_success request)" "request_range op = None" "request_put op = Some p" "po_key p = k"
    and "etcd_txn lc request' (fold (etcd_do lc) calls s1) = (Inr response', s2)"
    and "unchanged k m \<in> set (tr_compare request')"
  shows "\<not> ts_succeeded response'"
proof -
  have "newer lc m k (fold (etcd_do lc) calls s1)" using etcd_keys.cas_once [OF assms(1-10)] by blast
  then have "\<not> evaluateCompare lc (unchanged k m) (fold (etcd_do lc) calls s1)" using newer_changed assms(6) by blast
  then have "\<not> list_all (\<lambda>c. evaluateCompare lc c (fold (etcd_do lc) calls s1)) (tr_compare request')"
    using assms(12) by (auto simp: list_all_iff)
  with assms(11) show ?thesis
    by (auto simp: etcd_txn_def Let_def split: prod.splits sum.splits option.splits if_splits)
qed

section \<open>Witnesses\<close>

definition watched_keys :: fake_state where
  "watched_keys = fold (etcd_do order_cmp) [plain_put [97] [1],
     CallWatch [] \<lparr>wo_key = [97], wo_rangeEnd = [122], wo_startRevision = None, wo_prevKv = True, wo_filters = []\<rparr>,
     CallConnect 1] (new_fake_state None)"

lemma watched_ok: "etcd_ok order_cmp watched_keys"
  using code_units.calls_move [OF new_state_ok] unfolding watched_keys_def code_units.moves_on_def by blast

definition writes_sample :: "etcd_call list" where
  "writes_sample = [plain_put [98] [2], plain_put [97] [3],
     CallDelete [] \<lparr>do_key = [97], do_rangeEnd = [], do_prevKv = True\<rparr>]"

definition late_watcher :: watcher where
  "late_watcher = \<lparr>wt_id = 9, wt_namespace = [],
     wt_options = \<lparr>wo_key = [97], wo_rangeEnd = [122], wo_startRevision = Some 2, wo_prevKv = True, wo_filters = []\<rparr>,
     wt_connected = False, wt_ended = False, wt_out = []\<rparr>"

lemma etcd_watch_replay_witness:
  "let s' = fold (etcd_do order_cmp) writes_sample watched_keys; w = es_watchers watched_keys ! 0
   in watch_stream (es_watchers s' ! 0) = watch_stream w @ watch_stream (fst (connect_watcher s' late_watcher)) \<and>
      length (watch_stream (es_watchers s' ! 0)) = 3"
proof -
  define s' where "s' = fold (etcd_do order_cmp) writes_sample watched_keys"
  define w where "w = es_watchers watched_keys ! 0"
  have writes: "etcd_writes order_cmp writes_sample watched_keys = Some s'" unfolding s'_def by code_simp
  have w: "wt_connected w" "\<not> wt_ended w" "0 < length (es_watchers watched_keys)" "es_compactedRevision s' \<le> es_revision watched_keys"
    unfolding w_def s'_def by code_simp+
  have late: "late_watcher = \<lparr>wt_id = 9, wt_namespace = wt_namespace w,
      wt_options = (wt_options w)\<lparr>wo_startRevision := Some (int (es_revision watched_keys) + 1)\<rparr>,
      wt_connected = False, wt_ended = False, wt_out = []\<rparr>" unfolding w_def by code_simp
  have "etcd_keys order_cmp" ..
  from etcd_watch_replay [OF this watched_ok writes w(3) w_def w(1,2,4) late]
  have eq: "watch_stream (es_watchers s' ! 0) = watch_stream w @ watch_stream (fst (connect_watcher s' late_watcher))" .
  have "length (watch_stream (es_watchers s' ! 0)) = 3" unfolding s'_def by code_simp
  with eq show ?thesis unfolding s'_def w_def Let_def by blast
qed


text \<open>Two clients that read key \<open>a\<close> at revision 1 and write it back.\<close>

definition update_request :: "bytes \<Rightarrow> txn_request" where
  "update_request v = \<lparr>tr_compare = [unchanged [97] 1],
     tr_success = [\<lparr>request_range = None, request_put = Some \<lparr>po_key = [97], po_value = Some v, po_prevKv = False,
       po_ignoreValue = False\<rparr>, request_delete_range = None, request_txn = False\<rparr>],
     tr_failure = []\<rparr>"

lemma etcd_cas_witness:
  "let (result, s1) = etcd_txn order_cmp (update_request [5]) two_keys;
       (result', s2) = etcd_txn order_cmp (update_request [6]) s1
   in (case result of Inr r \<Rightarrow> ts_succeeded r | Inl _ \<Rightarrow> False) \<and>
      (case result' of Inr r \<Rightarrow> \<not> ts_succeeded r | Inl _ \<Rightarrow> False)"
proof -
  obtain result s1 where first: "etcd_txn order_cmp (update_request [5]) two_keys = (result, s1)" by fastforce
  obtain result' s2 where second: "etcd_txn order_cmp (update_request [6]) s1 = (result', s2)" by fastforce
  have one: "case fst (etcd_txn order_cmp (update_request [5]) two_keys) of Inr r \<Rightarrow> ts_succeeded r | Inl _ \<Rightarrow> False" by code_simp
  have two: "is_ok (fst (etcd_txn order_cmp (update_request [6]) (snd (etcd_txn order_cmp (update_request [5]) two_keys))))" by code_simp
  from one first obtain r where r: "result = Inr r" "ts_succeeded r" by (auto split: sum.splits)
  from two first second obtain r' where r': "result' = Inr r'" by (auto split: sum.splits)
  have keys: "etcd_keys order_cmp" ..
  have "\<not> ts_succeeded r'"
    by (rule etcd_cas [OF keys order_cmp_ok(2) first [unfolded r(1)] r(2), of "[97]" 1 _ _ "update_request [6]" "[]" r' s2])
      (use second r' in \<open>auto simp: update_request_def\<close>)
  then show ?thesis by (simp add: first second r r')
qed

end
