(* ===== verification/AppsTypes.thy ===== *)
theory AppsTypes
  imports ObjectMeta LabelSelector Json
begin

text \<open>
  The API objects of the deployment and replica set controllers, label selectors as objects
  (\<open>apimachinery/pkg/apis/meta/v1/helpers.ts\<close>, \<open>src/util/labels/labels.ts\<close>), controller references
  (\<open>controller_ref.ts\<close>) and group versions (\<open>runtime/schema/group_version.ts\<close>). A pod template is a
  JSON value, as the code compares and hashes it. Numbers of replicas are integers.
\<close>

text \<open>The operator \<open>x ?? y\<close>.\<close>

fun nvl :: "'a option \<Rightarrow> 'a \<Rightarrow> 'a" where
  "nvl None d = d"
| "nvl (Some x) d = x"

lemma nvl_split: "P (nvl x d) \<longleftrightarrow> (x = None \<longrightarrow> P d) \<and> (\<forall>y. x = Some y \<longrightarrow> P y)"
  by (cases x) auto

text \<open>The property access \<open>x?.f\<close>.\<close>

definition chain :: "'a option \<Rightarrow> ('a \<Rightarrow> 'b option) \<Rightarrow> 'b option" where
  "chain x f = (case x of None \<Rightarrow> None | Some a \<Rightarrow> f a)"

lemma chain_simps [simp]: "chain None f = None" "chain (Some a) f = f a"
  by (simp_all add: chain_def)

section \<open>Objects\<close>

record label_selector_requirement =
  lsr_key :: string
  lsr_operator :: string
  lsr_values :: "string list option"

record label_selector =
  lsl_matchLabels :: "label_set option"
  lsl_matchExpressions :: "label_selector_requirement list option"

definition empty_selector :: label_selector where
  "empty_selector = \<lparr>lsl_matchLabels = None, lsl_matchExpressions = None\<rparr>"

text \<open>
  A time in a condition: a \<open>Date\<close> object, or, once the object has been through the JSON of the API server,
  the text of that time. Milliseconds since the epoch.
\<close>

datatype js_time = JsDate int | JsText int

datatype int_or_string = IntVal int | StrVal string

record rolling_update =
  ru_maxSurge :: "int_or_string option"
  ru_maxUnavailable :: "int_or_string option"

record deployment_strategy =
  ds_type :: "string option"
  ds_rollingUpdate :: "rolling_update option"

record deployment_spec =
  dp_minReadySeconds :: "int option"
  dp_paused :: "bool option"
  dp_progressDeadlineSeconds :: "int option"
  dp_replicas :: "int option"
  dp_revisionHistoryLimit :: "int option"
  dp_selector :: "label_selector option"
  dp_strategy :: "deployment_strategy option"
  dp_template :: "json option"

record deployment_condition =
  dc_type :: string
  dc_status :: string
  dc_lastUpdateTime :: "js_time option"
  dc_lastTransitionTime :: "js_time option"
  dc_reason :: "string option"
  dc_message :: "string option"

text \<open>
  \<open>dt_undefined\<close> names the fields that are there with the value undefined, which a deep comparison tells
  from fields that are not there; a status read from the API has none.
\<close>

record deployment_status =
  dt_undefined :: "string list"
  dt_availableReplicas :: "int option"
  dt_collisionCount :: "int option"
  dt_conditions :: "deployment_condition list option"
  dt_observedGeneration :: "int option"
  dt_readyReplicas :: "int option"
  dt_replicas :: "int option"
  dt_terminatingReplicas :: "int option"
  dt_unavailableReplicas :: "int option"
  dt_updatedReplicas :: "int option"

definition empty_status :: deployment_status where
  "empty_status = \<lparr>dt_undefined = [], dt_availableReplicas = None, dt_collisionCount = None, dt_conditions = None,
     dt_observedGeneration = None, dt_readyReplicas = None, dt_replicas = None, dt_terminatingReplicas = None,
     dt_unavailableReplicas = None, dt_updatedReplicas = None\<rparr>"

record deployment = api_object +
  dep_spec :: "deployment_spec option"
  dep_status :: "deployment_status option"

record replica_set_condition =
  rc_type :: string
  rc_status :: string
  rc_lastTransitionTime :: "js_time option"
  rc_reason :: "string option"
  rc_message :: "string option"

record replica_set_spec =
  rp_minReadySeconds :: "int option"
  rp_replicas :: "int option"
  rp_selector :: label_selector
  rp_template :: "json option"

record replica_set_status =
  rt_availableReplicas :: "int option"
  rt_conditions :: "replica_set_condition list option"
  rt_fullyLabeledReplicas :: "int option"
  rt_observedGeneration :: "int option"
  rt_readyReplicas :: "int option"
  rt_replicas :: "int option"
  rt_terminatingReplicas :: "int option"

record replica_set = api_object +
  rset_spec :: "replica_set_spec option"
  rset_status :: "replica_set_status option"

text \<open>The readings the code repeats: \<open>deployment.spec?.replicas ?? 1\<close> and the like.\<close>

definition desired_of :: "deployment \<Rightarrow> int" where
  "desired_of d = nvl (chain (dep_spec d) dp_replicas) 1"

definition size_of :: "replica_set \<Rightarrow> int" where
  "size_of rs = nvl (chain (rset_spec rs) rp_replicas) 1"

definition available_of :: "replica_set \<Rightarrow> int" where
  "available_of rs = nvl (chain (rset_status rs) rt_availableReplicas) 0"

definition name_of :: "'a api_object_scheme \<Rightarrow> string" where
  "name_of obj = nvl (chain (ao_metadata obj) om_name) []"

definition annotation :: "'a api_object_scheme \<Rightarrow> string \<Rightarrow> string option" where
  "annotation obj k = chain (chain (ao_metadata obj) om_annotations) (\<lambda>m. jm_get m k)"

section \<open>Selectors\<close>

text \<open>\<open>nothing()\<close> of \<open>selector.ts\<close> is the selector without a match; an operator that is not one of the four is refused.\<close>

fun match_label_requirements :: "label_set \<Rightarrow> js_error + requirement list" where
  "match_label_requirements [] = Inr []"
| "match_label_requirements ((key, v) # rest) =
     (case newRequirement None key EqualsOp [v] of
        (_, Some err) \<Rightarrow> Inl err
      | (r, None) \<Rightarrow> map_sum id (\<lambda>rs. r # rs) (match_label_requirements rest))"

definition expression_operator :: "string \<Rightarrow> operator option" where
  "expression_operator s =
     (if s = ''In'' then Some InOp else if s = ''NotIn'' then Some NotIn
      else if s = ''Exists'' then Some ExistsOp else if s = ''DoesNotExist'' then Some DoesNotExist else None)"

fun expression_requirements :: "label_selector_requirement list \<Rightarrow> js_error + requirement list" where
  "expression_requirements [] = Inr []"
| "expression_requirements (e # rest) =
     (case expression_operator (lsr_operator e) of
        None \<Rightarrow> Inl (PlainError ([CHR 0x22] @ lsr_operator e @ [CHR 0x22] @ '' is not a valid label selector operator''))
      | Some op \<Rightarrow>
          (case newRequirement None (lsr_key e) op (nvl (lsr_values e) []) of
             (_, Some err) \<Rightarrow> Inl err
           | (r, None) \<Rightarrow> map_sum id (\<lambda>rs. r # rs) (expression_requirements rest)))"

definition labelSelectorAsSelector :: "(string \<Rightarrow> string \<Rightarrow> int) \<Rightarrow> label_selector option \<Rightarrow> js_error + selector" where
  "labelSelectorAsSelector lc ps =
     (case ps of
        None \<Rightarrow> Inr NothingSelector
      | Some s \<Rightarrow>
          if length (nvl (lsl_matchLabels s) []) + length (nvl (lsl_matchExpressions s) []) = 0 then Inr everything
          else case match_label_requirements (nvl (lsl_matchLabels s) []) of
            Inl err \<Rightarrow> Inl err
          | Inr rs \<Rightarrow>
              (case expression_requirements (nvl (lsl_matchExpressions s) []) of
                 Inl err \<Rightarrow> Inl err
               | Inr rs' \<Rightarrow> Inr (sel_add lc (rs @ rs') (InternalSelector []))))"

definition cloneSelectorAndAddLabel :: "label_selector \<Rightarrow> string \<Rightarrow> string \<Rightarrow> label_selector" where
  "cloneSelectorAndAddLabel s labelKey labelValue =
     (if labelKey = [] then s
      else \<lparr>lsl_matchLabels = Some (jm_set labelKey labelValue (nvl (lsl_matchLabels s) [])),
            lsl_matchExpressions = lsl_matchExpressions s\<rparr>)"

section \<open>Group versions\<close>

datatype group_version = GroupVersion (gv_group: string) (gv_version: string)
datatype group_version_kind = GroupVersionKind (gvk_group: string) (gvk_version: string) (gvk_kind: string)

definition groupVersion_string :: "group_version \<Rightarrow> string" where
  "groupVersion_string gv = (if length (gv_group gv) > 0 then gv_group gv @ ''/'' @ gv_version gv else gv_version gv)"

definition gvk_groupVersion :: "group_version_kind \<Rightarrow> group_version" where
  "gvk_groupVersion k = GroupVersion (gvk_group k) (gvk_version k)"

definition withKind :: "group_version \<Rightarrow> string \<Rightarrow> group_version_kind" where
  "withKind gv kind = GroupVersionKind (gv_group gv) (gv_version gv) kind"

definition gvk_string :: "group_version_kind \<Rightarrow> string" where
  "gvk_string k = gvk_group k @ ''/'' @ gvk_version k @ '', Kind='' @ gvk_kind k"

definition parseGroupVersion :: "string \<Rightarrow> group_version \<times> js_error option" where
  "parseGroupVersion gv =
     (if length gv = 0 \<or> gv = ''/'' then (GroupVersion [] [], None)
      else case js_split CHR ''/'' gv of
        [_] \<Rightarrow> (GroupVersion [] gv, None)
      | [g, v] \<Rightarrow> (GroupVersion g v, None)
      | _ \<Rightarrow> (GroupVersion [] [], Some (PlainError (''unexpected GroupVersion string: '' @ gv))))"

definition fromAPIVersionAndKind :: "string \<Rightarrow> string \<Rightarrow> group_version_kind" where
  "fromAPIVersionAndKind apiVersion kind =
     (case parseGroupVersion apiVersion of
        (gv, None) \<Rightarrow> GroupVersionKind (gv_group gv) (gv_version gv) kind
      | (_, Some _) \<Rightarrow> GroupVersionKind [] [] kind)"

lemma group_version_roundtrip:
  "CHR ''/'' \<notin> set (gv_group gv) \<Longrightarrow> CHR ''/'' \<notin> set (gv_version gv) \<Longrightarrow> gv_group gv = [] \<or> gv_version gv \<noteq> [] \<Longrightarrow>
    parseGroupVersion (groupVersion_string gv) = (gv, None)"
  by (cases gv) (auto simp: parseGroupVersion_def groupVersion_string_def js_split_append js_split_no_sep append_eq_Cons_conv)

section \<open>Controller references\<close>

text \<open>The copy that \<open>getControllerOf\<close> makes has the fields of the reference found.\<close>

definition getControllerOfNoCopy :: "'a api_object_scheme \<Rightarrow> owner_reference option" where
  "getControllerOfNoCopy obj = List.find (\<lambda>r. or_controller r = Some True) (nvl (chain (ao_metadata obj) om_ownerReferences) [])"

definition getControllerOf :: "'a api_object_scheme \<Rightarrow> owner_reference option" where
  "getControllerOf obj = getControllerOfNoCopy obj"

definition isControlledBy :: "'a api_object_scheme \<Rightarrow> 'b api_object_scheme \<Rightarrow> bool" where
  "isControlledBy obj owner =
     (case getControllerOfNoCopy obj of
        None \<Rightarrow> False
      | Some r \<Rightarrow> Some (or_uid r) = chain (ao_metadata owner) om_uid)"

definition newControllerRef :: "'a api_object_scheme \<Rightarrow> group_version_kind \<Rightarrow> owner_reference" where
  "newControllerRef owner gvk =
     \<lparr>or_apiVersion = groupVersion_string (gvk_groupVersion gvk), or_kind = gvk_kind gvk,
      or_name = nvl (chain (ao_metadata owner) om_name) [], or_uid = nvl (chain (ao_metadata owner) om_uid) [],
      or_controller = Some True, or_blockOwnerDeletion = Some True\<rparr>"

section \<open>Templates\<close>

text \<open>\<open>value.key\<close> of a JSON object, and its replacement.\<close>

definition json_field :: "string \<Rightarrow> json \<Rightarrow> json" where
  "json_field k j = (case j of JObj fs \<Rightarrow> (case map_of fs k of Some v \<Rightarrow> v | None \<Rightarrow> JUndef) | _ \<Rightarrow> JUndef)"

definition set_json_field :: "string \<Rightarrow> json \<Rightarrow> json \<Rightarrow> json" where
  "set_json_field k v j = (case j of JObj fs \<Rightarrow> JObj (jm_set k v fs) | _ \<Rightarrow> j)"

definition delete_json_field :: "string \<Rightarrow> json \<Rightarrow> json" where
  "delete_json_field k j = (case j of JObj fs \<Rightarrow> JObj (jm_del k fs) | _ \<Rightarrow> j)"

text \<open>The string labels of a template, for selectors.\<close>

definition json_labels :: "json \<Rightarrow> label_set" where
  "json_labels j = (case j of JObj fs \<Rightarrow> List.map_filter (\<lambda>(k, v). case v of JStr s \<Rightarrow> Some (k, s) | _ \<Rightarrow> None) fs | _ \<Rightarrow> [])"

definition template_labels :: "json \<Rightarrow> label_set" where
  "template_labels t = json_labels (json_field ''labels'' (json_field ''metadata'' t))"

end
