(* ===== verification/Pods.thy ===== *)
theory Pods
  imports AppsTypes
begin

text \<open>
  Pods: the fields the controllers read, the helpers of \<open>cluster/api/v1/pod/util.ts\<close>, and what
  \<open>controller/controller-utils.ts\<close> does with pods: filters, availability, and the order in which pods are
  deleted. Times are milliseconds. Texts are compared by code units.
\<close>

section \<open>Objects\<close>

record pod_condition =
  pc_type :: string
  pc_status :: string
  pc_lastProbeTime :: "int option"
  pc_lastTransitionTime :: "int option"
  pc_reason :: "string option"
  pc_message :: "string option"

record container_status =
  cs_name :: string
  cs_ready :: bool
  cs_restartCount :: int

record exit_codes =
  ec_operator :: string
  ec_values :: "int list option"

record restart_rule =
  rr_action :: string
  rr_exitCodes :: "exit_codes option"

record pod_container =
  pk_name :: string
  pk_restartPolicy :: "string option"
  pk_restartPolicyRules :: "restart_rule list option"

record pod_spec =
  ps_nodeName :: "string option"
  ps_restartPolicy :: "string option"
  ps_containers :: "pod_container list"
  ps_initContainers :: "pod_container list option"

record pod_status =
  pt_conditions :: "pod_condition list option"
  pt_containerStatuses :: "container_status list option"
  pt_initContainerStatuses :: "container_status list option"
  pt_observedGeneration :: "int option"
  pt_phase :: "string option"

definition empty_pod_status :: pod_status where
  "empty_pod_status = \<lparr>pt_conditions = None, pt_containerStatuses = None, pt_initContainerStatuses = None,
     pt_observedGeneration = None, pt_phase = None\<rparr>"

record pod = api_object +
  pod_specification :: "pod_spec option"
  pod_state :: "pod_status option"

definition phase_of :: "pod \<Rightarrow> string option" where
  "phase_of p = chain (pod_state p) pt_phase"

definition deletion_of :: "'a api_object_scheme \<Rightarrow> int option" where
  "deletion_of obj = chain (ao_metadata obj) om_deletionTimestamp"

definition labels_of :: "'a api_object_scheme \<Rightarrow> label_set" where
  "labels_of obj = nvl (chain (ao_metadata obj) om_labels) []"

section \<open>Pod utilities\<close>

definition getContainerStatus :: "container_status list option \<Rightarrow> string \<Rightarrow> container_status option" where
  "getContainerStatus statuses name = chain statuses (List.find (\<lambda>s. cs_name s = name))"

fun find_index :: "('a \<Rightarrow> bool) \<Rightarrow> 'a list \<Rightarrow> int" where
  "find_index P [] = -1"
| "find_index P (x # xs) = (if P x then 0 else let i = find_index P xs in if i < 0 then -1 else i + 1)"

definition getPodConditionFromList :: "pod_condition list option \<Rightarrow> string \<Rightarrow> int \<times> pod_condition option" where
  "getPodConditionFromList conditions conditionType =
     (case conditions of
        None \<Rightarrow> (-1, None)
      | Some cs \<Rightarrow>
          let i = find_index (\<lambda>c. pc_type c = conditionType) cs in
          (i, if i \<ge> 0 then Some (cs ! nat i) else None))"

definition getPodCondition :: "pod_status option \<Rightarrow> string \<Rightarrow> pod_condition option" where
  "getPodCondition status conditionType =
     chain status (\<lambda>st. snd (getPodConditionFromList (pt_conditions st) conditionType))"

definition calculatePodConditionObservedGeneration :: "pod_status option \<Rightarrow> int \<Rightarrow> string \<Rightarrow> int" where
  "calculatePodConditionObservedGeneration status generation conditionType = (if status = None then 0 else generation)"

definition calculatePodStatusObservedGeneration :: "pod \<Rightarrow> int" where
  "calculatePodStatusObservedGeneration p = nvl (chain (ao_metadata p) om_generation) 0"

definition isPodPhaseTerminal :: "string option \<Rightarrow> bool" where
  "isPodPhaseTerminal phase \<longleftrightarrow> phase = Some ''Failed'' \<or> phase = Some ''Succeeded''"

definition isPodTerminal :: "pod \<Rightarrow> bool" where
  "isPodTerminal p \<longleftrightarrow> isPodPhaseTerminal (phase_of p)"

definition getPodReadyCondition :: "pod_status \<Rightarrow> pod_condition option" where
  "getPodReadyCondition status = getPodCondition (Some status) ''Ready''"

definition getContainersReadyCondition :: "pod_status \<Rightarrow> pod_condition option" where
  "getContainersReadyCondition status = getPodCondition (Some status) ''ContainersReady''"

definition isPodReadyConditionTrue :: "pod_status \<Rightarrow> bool" where
  "isPodReadyConditionTrue status \<longleftrightarrow> (case getPodReadyCondition status of None \<Rightarrow> False | Some c \<Rightarrow> pc_status c = ''True'')"

definition isContainersReadyConditionTrue :: "pod_status \<Rightarrow> bool" where
  "isContainersReadyConditionTrue status \<longleftrightarrow>
     (case getContainersReadyCondition status of None \<Rightarrow> False | Some c \<Rightarrow> pc_status c = ''True'')"

definition isPodReady :: "pod \<Rightarrow> bool" where
  "isPodReady p \<longleftrightarrow> isPodReadyConditionTrue (nvl (pod_state p) empty_pod_status)"

definition readyDurationElapsed :: "int \<Rightarrow> int \<Rightarrow> int \<Rightarrow> bool" where
  "readyDurationElapsed lastTransitionTime minReadySeconds now \<longleftrightarrow> lastTransitionTime + minReadySeconds * 1000 \<le> now"

definition isPodAvailable :: "pod \<Rightarrow> int \<Rightarrow> int \<Rightarrow> bool" where
  "isPodAvailable p minReadySeconds now \<longleftrightarrow>
     isPodReady p \<and>
     (minReadySeconds = 0 \<or>
      (case chain (getPodReadyCondition (nvl (pod_state p) empty_pod_status)) pc_lastTransitionTime of
         None \<Rightarrow> False
       | Some t \<Rightarrow> readyDurationElapsed t minReadySeconds now))"

definition isRestartableInitContainer :: "pod_container option \<Rightarrow> bool" where
  "isRestartableInitContainer c \<longleftrightarrow> chain c pk_restartPolicy = Some ''Always''"

definition updatePodCondition :: "int \<Rightarrow> pod_status \<Rightarrow> pod_condition \<Rightarrow> bool \<times> pod_status" where
  "updatePodCondition now status condition =
     (let condition = condition\<lparr>pc_lastTransitionTime := Some now\<rparr> in
      case getPodCondition (Some status) (pc_type condition) of
        None \<Rightarrow> (True, status\<lparr>pt_conditions := Some (nvl (pt_conditions status) [] @ [condition])\<rparr>)
      | Some old \<Rightarrow>
          (let condition = (if pc_status condition = pc_status old
                 then condition\<lparr>pc_lastTransitionTime := pc_lastTransitionTime old\<rparr> else condition);
               isEqual = (pc_status condition = pc_status old \<and> pc_reason condition = pc_reason old \<and>
                 pc_message condition = pc_message old \<and> pc_lastProbeTime condition = pc_lastProbeTime old \<and>
                 pc_lastTransitionTime condition = pc_lastTransitionTime old);
               cs = nvl (pt_conditions status) [];
               i = find_index (\<lambda>c. pc_type c = pc_type condition) cs
           in (\<not> isEqual, if i \<noteq> -1 then status\<lparr>pt_conditions := Some (cs[nat i := condition])\<rparr> else status)))"

fun matching_rule :: "restart_rule list \<Rightarrow> int \<Rightarrow> restart_rule option" where
  "matching_rule [] exitCode = None"
| "matching_rule (r # rs) exitCode =
     (case rr_exitCodes r of
        None \<Rightarrow> matching_rule rs exitCode
      | Some codes \<Rightarrow>
          let matched = exitCode \<in> set (nvl (ec_values codes) []) in
          if ec_operator codes = ''In'' \<and> matched \<or> ec_operator codes = ''NotIn'' \<and> \<not> matched then Some r
          else matching_rule rs exitCode)"

definition findMatchingContainerRestartRule :: "pod_container \<Rightarrow> int \<Rightarrow> restart_rule option" where
  "findMatchingContainerRestartRule c exitCode = matching_rule (nvl (pk_restartPolicyRules c) []) exitCode"

definition policy_restarts :: "string option \<Rightarrow> int \<Rightarrow> bool option" where
  "policy_restarts policy exitCode =
     (if policy = Some ''Always'' then Some True
      else if policy = Some ''OnFailure'' then Some (exitCode \<noteq> 0)
      else if policy = Some ''Never'' then Some False
      else None)"

definition containerShouldRestart :: "pod_container \<Rightarrow> pod_spec option \<Rightarrow> int \<Rightarrow> bool" where
  "containerShouldRestart c podSpec exitCode =
     (let byRule = (case findMatchingContainerRestartRule c exitCode of
            None \<Rightarrow> False
          | Some r \<Rightarrow> rr_action r = ''Restart'' \<or> rr_action r = ''RestartAllContainers'');
          byPod = nvl (policy_restarts (chain podSpec ps_restartPolicy) exitCode) True
      in if pk_restartPolicy c = None then byPod
         else if byRule then True
         else nvl (policy_restarts (pk_restartPolicy c) exitCode) byPod)"

definition allContainersCouldRestart :: "pod_spec option \<Rightarrow> bool" where
  "allContainersCouldRestart spec \<longleftrightarrow>
     (case spec of
        None \<Rightarrow> False
      | Some sp \<Rightarrow> list_ex (\<lambda>c. list_ex (\<lambda>r. rr_action r = ''RestartAllContainers'') (nvl (pk_restartPolicyRules c) []))
          (nvl (ps_initContainers sp) [] @ ps_containers sp))"

section \<open>Filters and availability\<close>

definition podKey :: "pod \<Rightarrow> string" where
  "podKey p = nvl (chain (ao_metadata p) om_namespace) ''default'' @ ''/'' @ name_of p"

definition isPodActive :: "pod \<Rightarrow> bool" where
  "isPodActive p \<longleftrightarrow> phase_of p \<noteq> Some ''Succeeded'' \<and> phase_of p \<noteq> Some ''Failed'' \<and> deletion_of p = None"

definition isPodTerminating :: "pod \<Rightarrow> bool" where
  "isPodTerminating p \<longleftrightarrow> \<not> isPodTerminal p \<and> deletion_of p \<noteq> None"

definition filterActivePods :: "pod list \<Rightarrow> pod list" where
  "filterActivePods pods = filter isPodActive pods"

definition filterTerminatingPods :: "pod list \<Rightarrow> pod list" where
  "filterTerminatingPods pods = filter isPodTerminating pods"

definition filterClaimedPods :: "'a api_object_scheme \<Rightarrow> selector \<Rightarrow> pod list \<Rightarrow> pod list" where
  "filterClaimedPods controller s pods = filter (\<lambda>p. isControlledBy p controller \<and> sel_matches s (labels_of p)) pods"

definition nextPodAvailabilityCheck :: "pod \<Rightarrow> int \<Rightarrow> int \<Rightarrow> int option" where
  "nextPodAvailabilityCheck p minReadySeconds now =
     (if \<not> isPodReady p \<or> minReadySeconds \<le> 0 then None
      else case chain (getPodReadyCondition (nvl (pod_state p) empty_pod_status)) pc_lastTransitionTime of
        None \<Rightarrow> None
      | Some t \<Rightarrow> let nextCheck = t + minReadySeconds * 1000 - now in if nextCheck > 0 then Some nextCheck else None)"

fun min_check :: "int \<Rightarrow> int \<Rightarrow> pod list \<Rightarrow> (int \<times> pod) option \<Rightarrow> (int \<times> pod) option" where
  "min_check minReadySeconds now [] best = best"
| "min_check minReadySeconds now (p # pods) best =
     min_check minReadySeconds now pods
       (case nextPodAvailabilityCheck p minReadySeconds now of
          None \<Rightarrow> best
        | Some t \<Rightarrow> (case best of None \<Rightarrow> Some (t, p) | Some (b, q) \<Rightarrow> if t < b then Some (t, p) else best))"

definition findMinNextPodAvailabilitySimpleCheck :: "pod list \<Rightarrow> int \<Rightarrow> int \<Rightarrow> (int \<times> pod) option" where
  "findMinNextPodAvailabilitySimpleCheck pods minReadySeconds now = min_check minReadySeconds now pods None"

text \<open>\<open>evaluated\<close> is the time the owner's status was computed at, \<open>now\<close> the time of the clock.\<close>

definition findMinNextPodAvailabilityCheck :: "pod list \<Rightarrow> int \<Rightarrow> int \<Rightarrow> int \<Rightarrow> int option" where
  "findMinNextPodAvailabilityCheck pods minReadySeconds evaluated now =
     (case findMinNextPodAvailabilitySimpleCheck pods minReadySeconds evaluated of
        None \<Rightarrow> None
      | Some (_, p) \<Rightarrow> Some (nvl (nextPodAvailabilityCheck p minReadySeconds now) 0))"

section \<open>The order in which pods are deleted\<close>

definition podDeletionCost :: string where
  "podDeletionCost = ''controller.kubernetes.io/pod-deletion-cost''"

definition validFirstDigit :: "string \<Rightarrow> bool" where
  "validFirstDigit s \<longleftrightarrow> s \<noteq> [] \<and> (hd s = CHR ''-'' \<or> s = ''0'' \<or> CHR ''1'' \<le> hd s \<and> hd s \<le> CHR ''9'')"

definition getDeletionCostFromPodAnnotations :: "label_set option \<Rightarrow> int \<times> (js_error + num_error) option" where
  "getDeletionCostFromPodAnnotations m =
     (case chain m (\<lambda>m. jm_get m podDeletionCost) of
        None \<Rightarrow> (0, None)
      | Some v \<Rightarrow>
          if \<not> validFirstDigit v then (0, Some (Inl (PlainError (''invalid value '' @ json_string v))))
          else case go_parse_int v 10 32 of
            (n, None) \<Rightarrow> (n, None)
          | (_, Some err) \<Rightarrow> (0, Some (Inr err)))"

definition deletionCost :: "pod \<Rightarrow> int" where
  "deletionCost p = fst (getDeletionCostFromPodAnnotations (chain (ao_metadata p) om_annotations))"

definition nodeName_of :: "pod \<Rightarrow> string" where
  "nodeName_of p = nvl (chain (pod_specification p) ps_nodeName) []"

definition podPhaseOrdinal :: "pod \<Rightarrow> int" where
  "podPhaseOrdinal p =
     (case phase_of p of
        None \<Rightarrow> 0
      | Some s \<Rightarrow> if s = ''Pending'' then 0 else if s = ''Unknown'' then 1 else if s = ''Running'' then 2 else 0)"

definition podReadyTime :: "pod \<Rightarrow> int" where
  "podReadyTime p =
     (if isPodReady p then nvl (chain (getPodReadyCondition (nvl (pod_state p) empty_pod_status)) pc_lastTransitionTime) 0 else 0)"

definition isZeroTime :: "int option \<Rightarrow> bool" where
  "isZeroTime t \<longleftrightarrow> t = None \<or> t = Some 0"

definition afterOrZero :: "int option \<Rightarrow> int option \<Rightarrow> bool" where
  "afterOrZero l r = (if isZeroTime l \<or> isZeroTime r then isZeroTime l else nvl l 0 > nvl r 0)"

text \<open>\<open>Math.floor(Math.log2(d))\<close> of a positive number.\<close>

fun floor_log2 :: "nat \<Rightarrow> int" where
  "floor_log2 n = (if n < 2 then 0 else 1 + floor_log2 (n div 2))"

declare floor_log2.simps [simp del]

definition logarithmicRankDiff :: "int \<Rightarrow> int \<Rightarrow> int \<Rightarrow> int" where
  "logarithmicRankDiff leftTime rightTime now =
     (let r1 = (if now - leftTime > 0 then floor_log2 (nat (now - leftTime)) else -1);
          r2 = (if now - rightTime > 0 then floor_log2 (nat (now - rightTime)) else -1)
      in r1 - r2)"

definition max_restarts :: "container_status list \<Rightarrow> int" where
  "max_restarts cs = fold (\<lambda>c m. max m (cs_restartCount c)) cs 0"

definition maxContainerRestarts :: "pod \<Rightarrow> int \<times> int" where
  "maxContainerRestarts p =
     (let names = map pk_name (filter (\<lambda>c. pk_restartPolicy c = Some ''Always'')
            (nvl (chain (pod_specification p) ps_initContainers) []))
      in (max_restarts (nvl (chain (pod_state p) pt_containerStatuses) []),
          max_restarts (filter (\<lambda>c. cs_name c \<in> set names) (nvl (chain (pod_state p) pt_initContainerStatuses) []))))"

definition compareMaxContainerRestarts :: "pod \<Rightarrow> pod \<Rightarrow> bool option" where
  "compareMaxContainerRestarts left right =
     (let (r1, s1) = maxContainerRestarts left; (r2, s2) = maxContainerRestarts right in
      if r1 \<noteq> r2 then Some (r1 > r2) else if s1 \<noteq> s2 then Some (s1 > s2) else None)"

text \<open>\<open>now\<close> is there when the times are compared by their logarithms.\<close>

definition uid_less :: "pod \<Rightarrow> pod \<Rightarrow> bool" where
  "uid_less left right \<longleftrightarrow> nvl (chain (ao_metadata left) om_uid) [] < nvl (chain (ao_metadata right) om_uid) []"

definition times_less :: "int option \<Rightarrow> pod \<Rightarrow> pod \<Rightarrow> int option \<Rightarrow> int option \<Rightarrow> bool" where
  "times_less now left right t1 t2 =
     (if now = None \<or> t1 = None \<or> t2 = None then afterOrZero t1 t2
      else let rankDiff = logarithmicRankDiff (the t1) (the t2) (the now) in
        if rankDiff = 0 then uid_less left right else rankDiff < 0)"

text \<open>A pod comes with its rank, the number of active related pods on its node.\<close>

definition ranked_less :: "int option \<Rightarrow> pod \<times> int \<Rightarrow> pod \<times> int \<Rightarrow> bool" where
  "ranked_less now x y =
     (let left = fst x; right = fst y; n1 = nodeName_of left; n2 = nodeName_of right;
          t1 = podReadyTime left; t2 = podReadyTime right;
          c1 = chain (ao_metadata left) om_creationTimestamp; c2 = chain (ao_metadata right) om_creationTimestamp in
      if n1 \<noteq> n2 \<and> (length n1 = 0 \<or> length n2 = 0) then length n1 = 0
      else if podPhaseOrdinal left \<noteq> podPhaseOrdinal right then podPhaseOrdinal left < podPhaseOrdinal right
      else if isPodReady left \<noteq> isPodReady right then \<not> isPodReady left
      else if deletionCost left \<noteq> deletionCost right then deletionCost left < deletionCost right
      else if snd x \<noteq> snd y then snd x > snd y
      else if isPodReady left \<and> isPodReady right \<and> t1 \<noteq> t2 then
        (if isZeroTime (Some t1) \<or> isZeroTime (Some t2) then afterOrZero (Some t1) (Some t2)
         else times_less now left right (Some t1) (Some t2))
      else case compareMaxContainerRestarts left right of
        Some b \<Rightarrow> b
      | None \<Rightarrow> if c1 \<noteq> c2 then times_less now left right c1 c2 else False)"

text \<open>
  The sort swaps each element back as long as it is less than the one before it; the elements before it
  are kept in reverse here.
\<close>

fun sift_back :: "('a \<Rightarrow> 'a \<Rightarrow> bool) \<Rightarrow> 'a \<Rightarrow> 'a list \<Rightarrow> 'a list" where
  "sift_back lt x [] = [x]"
| "sift_back lt x (y # ys) = (if lt x y then y # sift_back lt x ys else x # y # ys)"

definition swap_sort :: "('a \<Rightarrow> 'a \<Rightarrow> bool) \<Rightarrow> 'a list \<Rightarrow> 'a list" where
  "swap_sort lt xs = List.rev (fold (sift_back lt) xs [])"

definition pods_on_node :: "pod list \<Rightarrow> (string, int) jmap" where
  "pods_on_node related =
     fold (\<lambda>p m. if isPodActive p then jm_set (nodeName_of p) (nvl (jm_get m (nodeName_of p)) 0 + 1) m else m) related []"

definition ranked_pods :: "pod list \<Rightarrow> pod list \<Rightarrow> (pod \<times> int) list" where
  "ranked_pods pods related = (let m = pods_on_node related in map (\<lambda>p. (p, nvl (jm_get m (nodeName_of p)) 0)) pods)"

text \<open>The pods are sorted in place: the first component is what the caller's list holds afterwards.\<close>

definition getPodsToDelete :: "int \<Rightarrow> pod list \<Rightarrow> pod list \<Rightarrow> nat \<Rightarrow> pod list \<times> pod list" where
  "getPodsToDelete now pods related diff =
     (let pods = (if diff < length pods then map fst (swap_sort (ranked_less (Some now)) (ranked_pods pods related)) else pods)
      in (pods, take diff pods))"

subsection \<open>What the order guarantees\<close>

text \<open>
  The first five criteria are a number each, compared in turn; only later criteria, on times, are not
  transitive. The sort orders by these numbers whatever the rest says.
\<close>

definition deletion_rank :: "pod \<times> int \<Rightarrow> int list" where
  "deletion_rank x =
     [if nodeName_of (fst x) = [] then 0 else 1, podPhaseOrdinal (fst x), if isPodReady (fst x) then 1 else 0,
      deletionCost (fst x), - snd x]"

lemma ranked_less_first:
  "\<exists>rest. ranked_less now x y =
    (if nodeName_of (fst x) \<noteq> nodeName_of (fst y) \<and> (nodeName_of (fst x) = [] \<or> nodeName_of (fst y) = [])
     then nodeName_of (fst x) = []
     else if podPhaseOrdinal (fst x) \<noteq> podPhaseOrdinal (fst y) then podPhaseOrdinal (fst x) < podPhaseOrdinal (fst y)
     else if isPodReady (fst x) \<noteq> isPodReady (fst y) then \<not> isPodReady (fst x)
     else if deletionCost (fst x) \<noteq> deletionCost (fst y) then deletionCost (fst x) < deletionCost (fst y)
     else if snd x \<noteq> snd y then snd x > snd y
     else rest)"
  unfolding ranked_less_def Let_def length_0_conv by (rule exI, rule refl)

lemma ranked_less_rank:
  "deletion_rank x < deletion_rank y \<Longrightarrow> ranked_less now x y"
  "deletion_rank y < deletion_rank x \<Longrightarrow> \<not> ranked_less now x y"
proof -
  obtain rest where r: "ranked_less now x y =
    (if nodeName_of (fst x) \<noteq> nodeName_of (fst y) \<and> (nodeName_of (fst x) = [] \<or> nodeName_of (fst y) = [])
     then nodeName_of (fst x) = []
     else if podPhaseOrdinal (fst x) \<noteq> podPhaseOrdinal (fst y) then podPhaseOrdinal (fst x) < podPhaseOrdinal (fst y)
     else if isPodReady (fst x) \<noteq> isPodReady (fst y) then \<not> isPodReady (fst x)
     else if deletionCost (fst x) \<noteq> deletionCost (fst y) then deletionCost (fst x) < deletionCost (fst y)
     else if snd x \<noteq> snd y then snd x > snd y
     else rest)"
    using ranked_less_first by blast
  show "deletion_rank x < deletion_rank y \<Longrightarrow> ranked_less now x y"
    "deletion_rank y < deletion_rank x \<Longrightarrow> \<not> ranked_less now x y"
    unfolding r deletion_rank_def by (auto split: if_splits)
qed

lemma mset_sift_back: "mset (sift_back lt x ys) = add_mset x (mset ys)"
  by (induction ys) auto

lemma mset_swap_sort [simp]: "mset (swap_sort lt xs) = mset xs"
proof -
  have "mset (fold (sift_back lt) xs ys) = mset xs + mset ys" for ys
    by (induction xs arbitrary: ys) (simp_all add: mset_sift_back)
  then show ?thesis by (simp add: swap_sort_def)
qed

lemma sift_back_sorted:
  fixes f :: "'a \<Rightarrow> 'b :: linorder"
  assumes "\<And>x y. f x < f y \<Longrightarrow> lt x y" "\<And>x y. f y < f x \<Longrightarrow> \<not> lt x y"
  shows "sorted_wrt (\<lambda>x y. f y \<le> f x) ys \<Longrightarrow> sorted_wrt (\<lambda>x y. f y \<le> f x) (sift_back lt x ys)"
proof (induction ys)
  case (Cons y ys)
  show ?case
  proof (cases "lt x y")
    case True
    then have "f x \<le> f y" using assms(2) [of y x] by (metis not_le)
    moreover have "set (sift_back lt x ys) = insert x (set ys)"
      using mset_sift_back [of lt x ys] by (metis set_mset_add_mset_insert set_mset_mset)
    ultimately show ?thesis using Cons True by auto
  next
    case False
    then have "f y \<le> f x" using assms(1) [of x y] by (metis not_le)
    then show ?thesis using Cons.prems False by auto
  qed
qed simp

lemma swap_sort_sorted:
  fixes f :: "'a \<Rightarrow> 'b :: linorder"
  assumes "\<And>x y. f x < f y \<Longrightarrow> lt x y" "\<And>x y. f y < f x \<Longrightarrow> \<not> lt x y"
  shows "sorted_wrt (\<lambda>x y. f x \<le> f y) (swap_sort lt xs)"
proof -
  have "sorted_wrt (\<lambda>x y. f y \<le> f x) (fold (sift_back lt) xs ys)" if "sorted_wrt (\<lambda>x y. f y \<le> f x) ys" for ys
    using that by (induction xs arbitrary: ys) (simp_all add: sift_back_sorted [where f = f, OF assms])
  then show ?thesis by (simp add: swap_sort_def sorted_wrt_rev)
qed

end
