(* ===== verification/ApiErrors.thy ===== *)
theory ApiErrors
  imports FieldErrors
begin

text \<open>
  Errors as the API client raises them (\<open>src/client/errors.ts\<close>) and the retry loop (\<open>src/retry.ts\<close>).
  An error has a name, a message, perhaps an HTTP code, and the reasons of the causes of its body.
\<close>

section \<open>Errors\<close>

datatype api_error = ApiError (ae_name: string) (ae_code: "int option") (ae_message: string) (ae_causes: "string list")

definition plain_error :: "string \<Rightarrow> api_error" where
  "plain_error msg = ApiError ''Error'' None msg []"

definition of_js_error :: "js_error \<Rightarrow> api_error" where
  "of_js_error err = plain_error (error_string err)"

text \<open>\<open>s.includes(t)\<close>\<close>

fun js_includes :: "string \<Rightarrow> string \<Rightarrow> bool" where
  "js_includes [] t \<longleftrightarrow> t = []"
| "js_includes (c # s) t \<longleftrightarrow> take (length t) (c # s) = t \<or> js_includes s t"

definition isApiError :: "api_error \<Rightarrow> string \<Rightarrow> int \<Rightarrow> bool" where
  "isApiError err name code \<longleftrightarrow>
     ae_name err = name \<or> ae_code err = Some code \<or> js_includes (ae_message err) (''HTTP-Code: '' @ show_int code)"

definition isNotFoundError :: "api_error \<Rightarrow> bool" where
  "isNotFoundError err \<longleftrightarrow> isApiError err ''NotFound'' 404"

definition isConflictError :: "api_error \<Rightarrow> bool" where
  "isConflictError err \<longleftrightarrow> isApiError err ''Conflict'' 409"

definition isInvalidError :: "api_error \<Rightarrow> bool" where
  "isInvalidError err \<longleftrightarrow> isApiError err ''Invalid'' 422"

definition isUnsupportedMediaTypeError :: "api_error \<Rightarrow> bool" where
  "isUnsupportedMediaTypeError err \<longleftrightarrow> isApiError err ''UnsupportedMediaType'' 415"

definition hasStatusCause :: "api_error \<Rightarrow> string \<Rightarrow> bool" where
  "hasStatusCause err name \<longleftrightarrow> name \<in> set (ae_causes err)"

section \<open>Retrying\<close>

text \<open>
  \<open>retry_loop n\<close> runs the operation with \<open>n\<close> attempts left. \<open>wait k\<close> is what happens to the world while the
  loop sleeps after attempt \<open>k\<close>; the delay is random.
\<close>

fun retry_loop :: "(api_error \<Rightarrow> bool) \<Rightarrow> (nat \<Rightarrow> 's \<Rightarrow> 's) \<Rightarrow> ('s \<Rightarrow> (api_error + 'a) \<times> 's) \<Rightarrow> nat \<Rightarrow> nat \<Rightarrow>
    's \<Rightarrow> (api_error + 'a) \<times> 's" where
  "retry_loop shouldRetry wait operation attempt 0 s = (Inl (plain_error ''retry called with no attempts''), s)"
| "retry_loop shouldRetry wait operation attempt (Suc n) s =
     (case operation s of
        (Inr x, s) \<Rightarrow> (Inr x, s)
      | (Inl err, s) \<Rightarrow>
          if \<not> shouldRetry err then (Inl err, s)
          else if n = 0 then (Inl err, s)
          else retry_loop shouldRetry wait operation (attempt + 1) n (wait attempt s))"

definition js_retry :: "(api_error \<Rightarrow> bool) \<Rightarrow> (nat \<Rightarrow> 's \<Rightarrow> 's) \<Rightarrow> nat \<Rightarrow> ('s \<Rightarrow> (api_error + 'a) \<times> 's) \<Rightarrow>
    's \<Rightarrow> (api_error + 'a) \<times> 's" where
  "js_retry shouldRetry wait retries operation s = retry_loop shouldRetry wait operation 0 (retries + 1) s"

definition retryConflicts :: "(nat \<Rightarrow> 's \<Rightarrow> 's) \<Rightarrow> ('s \<Rightarrow> (api_error + 'a) \<times> 's) \<Rightarrow> 's \<Rightarrow> (api_error + 'a) \<times> 's" where
  "retryConflicts wait operation s = js_retry isConflictError wait 4 operation s"

text \<open>What an operation and the waiting keep, the retry loop keeps.\<close>

lemma retry_keeps:
  assumes "\<And>s. P s \<Longrightarrow> P (snd (operation s))" "\<And>k s. P s \<Longrightarrow> P (wait k s)" "P s"
  shows "P (snd (retry_loop shouldRetry wait operation attempt n s))"
  using assms(3)
proof (induction n arbitrary: attempt s)
  case (Suc n)
  have "P (snd (operation s))" using assms(1) Suc.prems .
  then show ?case using Suc.IH assms(2) by (auto simp: case_prod_beta split: sum.split)
qed simp

lemma retryConflicts_keeps:
  assumes "\<And>s. P s \<Longrightarrow> P (snd (operation s))" "\<And>k s. P s \<Longrightarrow> P (wait k s)" "P s"
  shows "P (snd (retryConflicts wait operation s))"
  unfolding retryConflicts_def js_retry_def using assms by (rule retry_keeps)

text \<open>A value that comes out was returned by the operation in some state it ran in.\<close>

lemma retry_result:
  "fst (retry_loop shouldRetry wait operation attempt n s) = Inr x \<Longrightarrow> \<exists>t. fst (operation t) = Inr x \<and>
    snd (retry_loop shouldRetry wait operation attempt n s) = snd (operation t)"
proof (induction n arbitrary: attempt s)
  case (Suc n)
  obtain r s' where op: "operation s = (r, s')" by (cases "operation s")
  show ?case
  proof (cases r)
    case (Inl err)
    then show ?thesis using Suc.IH [of "attempt + 1" "wait attempt s'"] Suc.prems op
      by (auto split: if_splits)
  next
    case (Inr y)
    then have "fst (operation s) = Inr x" "snd (retry_loop shouldRetry wait operation attempt (Suc n) s) = snd (operation s)"
      using Suc.prems op by auto
    then show ?thesis by blast
  qed
qed simp

end
