(* ===== verification/Expectations.thy ===== *)
theory Expectations
  imports Cache
begin

text \<open>
  The expectations of controllers, \<open>controller/controller-utils.ts\<close>: a controller that has asked for
  creations or deletions does nothing more until it has seen them, or until five minutes have passed.
  Both stores are caches over the contract of a store. Each method is one step under its lock; times are
  milliseconds. The message of a missing key leaves out the JSON text of the object.
\<close>

section \<open>One controllee\<close>

record controllee_expectations =
  ex_add :: int
  ex_del :: int
  ex_key :: string
  ex_timestamp :: int

definition expectationsTimeoutMs :: int where
  "expectationsTimeoutMs = 5 * 60 * 1000"

definition expectations_add :: "int \<Rightarrow> int \<Rightarrow> controllee_expectations \<Rightarrow> controllee_expectations" where
  "expectations_add a d e = e\<lparr>ex_add := ex_add e + a, ex_del := ex_del e + d\<rparr>"

definition fulfilled :: "controllee_expectations \<Rightarrow> bool" where
  "fulfilled e \<longleftrightarrow> ex_add e \<le> 0 \<and> ex_del e \<le> 0"

definition expectations_expired :: "int \<Rightarrow> controllee_expectations \<Rightarrow> bool" where
  "expectations_expired now e \<longleftrightarrow> now - ex_timestamp e > expectationsTimeoutMs"

definition own_key :: "('o \<Rightarrow> string) \<Rightarrow> 'o keyed \<Rightarrow> string \<times> js_error option" where
  "own_key f obj =
     (case obj of
        ExplicitKey k \<Rightarrow> (k, None)
      | Object x \<Rightarrow> if f x \<noteq> [] then (f x, None) else ([], Some (PlainError ''could not find key for obj '')))"

definition expKeyFunc :: "controllee_expectations keyed \<Rightarrow> string \<times> js_error option" where
  "expKeyFunc = own_key ex_key"

definition exp_conf :: "controllee_expectations cache_conf" where
  "exp_conf = \<lparr>cc_keyFunc = expKeyFunc, cc_transformer = None\<rparr>"

section \<open>ControllerExpectations\<close>

definition getExpectations :: "(controllee_expectations, 's) store_ops \<Rightarrow> string \<Rightarrow> 's \<Rightarrow>
    controllee_expectations option \<times> bool \<times> controllee_expectations cache_error option" where
  "getExpectations ops k s = cache_getByKey ops k s"

definition satisfiedExpectations :: "(controllee_expectations, 's) store_ops \<Rightarrow> int \<Rightarrow> string \<Rightarrow> 's \<Rightarrow> bool" where
  "satisfiedExpectations ops now k s =
     (case getExpectations ops k s of
        (exp, present, err) \<Rightarrow>
          if present then (case exp of None \<Rightarrow> False | Some e \<Rightarrow> fulfilled e \<or> expectations_expired now e)
          else True)"

definition deleteExpectations :: "(controllee_expectations, 's) store_ops \<Rightarrow> string \<Rightarrow> 's \<Rightarrow> 's" where
  "deleteExpectations ops k s =
     (case cache_getByKey ops k s of
        (Some e, True, None) \<Rightarrow> snd (cache_delete ops exp_conf e s)
      | _ \<Rightarrow> s)"

definition setExpectations :: "(controllee_expectations, 's) store_ops \<Rightarrow> int \<Rightarrow> string \<Rightarrow> int \<Rightarrow> int \<Rightarrow> 's \<Rightarrow>
    controllee_expectations cache_error option \<times> 's" where
  "setExpectations ops now k a d s =
     cache_add ops exp_conf \<lparr>ex_add = a, ex_del = d, ex_key = k, ex_timestamp = now\<rparr> s"

definition raiseExpectations :: "(controllee_expectations, 's) store_ops \<Rightarrow> string \<Rightarrow> int \<Rightarrow> int \<Rightarrow> 's \<Rightarrow> 's" where
  "raiseExpectations ops k a d s =
     (case getExpectations ops k s of
        (Some e, True, None) \<Rightarrow> snd (cache_update ops exp_conf (expectations_add a d e) s)
      | _ \<Rightarrow> s)"

definition lowerExpectations :: "(controllee_expectations, 's) store_ops \<Rightarrow> string \<Rightarrow> int \<Rightarrow> int \<Rightarrow> 's \<Rightarrow> 's" where
  "lowerExpectations ops k a d s =
     (case getExpectations ops k s of
        (Some e, True, None) \<Rightarrow> snd (cache_update ops exp_conf (expectations_add (- a) (- d) e) s)
      | _ \<Rightarrow> s)"

section \<open>UIDTrackingControllerExpectations\<close>

record uid_set =
  us_uids :: "string list"
  us_key :: string

definition uid_conf :: "uid_set cache_conf" where
  "uid_conf = \<lparr>cc_keyFunc = own_key us_key, cc_transformer = None\<rparr>"

record ('s, 'u) uid_tracker =
  ut_expectations :: 's
  ut_uids :: 'u

type_synonym ('s, 'u) tracker_ops = "(controllee_expectations, 's) store_ops \<times> (uid_set, 'u) store_ops"

definition getUIDs :: "(uid_set, 'u) store_ops \<Rightarrow> string \<Rightarrow> 'u \<Rightarrow> string list option" where
  "getUIDs ops k u = (case cache_getByKey ops k u of (x, True, None) \<Rightarrow> map_option us_uids x | _ \<Rightarrow> None)"

definition ut_expectCreations :: "('s, 'u) tracker_ops \<Rightarrow> int \<Rightarrow> string \<Rightarrow> int \<Rightarrow> ('s, 'u) uid_tracker \<Rightarrow>
    controllee_expectations cache_error option \<times> ('s, 'u) uid_tracker" where
  "ut_expectCreations ops now k adds t =
     (case setExpectations (fst ops) now k adds 0 (ut_expectations t) of (err, s) \<Rightarrow> (err, t\<lparr>ut_expectations := s\<rparr>))"

text \<open>An error of the set of names comes before the expectations are set.\<close>

definition ut_expectDeletions :: "('s, 'u) tracker_ops \<Rightarrow> int \<Rightarrow> string \<Rightarrow> string list \<Rightarrow> ('s, 'u) uid_tracker \<Rightarrow>
    (uid_set cache_error + controllee_expectations cache_error) option \<times> ('s, 'u) uid_tracker" where
  "ut_expectDeletions ops now k deletedKeys t =
     (let uids = js_add_all deletedKeys [] in
      case cache_add (snd ops) uid_conf \<lparr>us_uids = uids, us_key = k\<rparr> (ut_uids t) of
        (Some err, u) \<Rightarrow> (Some (Inl err), t\<lparr>ut_uids := u\<rparr>)
      | (None, u) \<Rightarrow>
          (case setExpectations (fst ops) now k 0 (int (length uids)) (ut_expectations t) of
             (err, s) \<Rightarrow> (map_option Inr err, t\<lparr>ut_uids := u, ut_expectations := s\<rparr>)))"

definition ut_creationObserved :: "('s, 'u) tracker_ops \<Rightarrow> string \<Rightarrow> ('s, 'u) uid_tracker \<Rightarrow> ('s, 'u) uid_tracker" where
  "ut_creationObserved ops k t = t\<lparr>ut_expectations := lowerExpectations (fst ops) k 1 0 (ut_expectations t)\<rparr>"

definition ut_deletionObserved :: "('s, 'u) tracker_ops \<Rightarrow> string \<Rightarrow> string \<Rightarrow> ('s, 'u) uid_tracker \<Rightarrow> ('s, 'u) uid_tracker" where
  "ut_deletionObserved ops k deleteKey t =
     (case getUIDs (snd ops) k (ut_uids t) of
        None \<Rightarrow> t
      | Some uids \<Rightarrow>
          if deleteKey \<in> set uids then
            t\<lparr>ut_expectations := lowerExpectations (fst ops) k 0 1 (ut_expectations t),
              ut_uids := snd (cache_update (snd ops) uid_conf \<lparr>us_uids = remove1 deleteKey uids, us_key = k\<rparr> (ut_uids t))\<rparr>
          else t)"

definition ut_deleteExpectations :: "('s, 'u) tracker_ops \<Rightarrow> string \<Rightarrow> ('s, 'u) uid_tracker \<Rightarrow> ('s, 'u) uid_tracker" where
  "ut_deleteExpectations ops k t =
     (let t = t\<lparr>ut_expectations := deleteExpectations (fst ops) k (ut_expectations t)\<rparr> in
      case cache_getByKey (snd ops) k (ut_uids t) of
        (Some x, True, None) \<Rightarrow> t\<lparr>ut_uids := snd (cache_delete (snd ops) uid_conf x (ut_uids t))\<rparr>
      | _ \<Rightarrow> t)"

definition ut_satisfied :: "('s, 'u) tracker_ops \<Rightarrow> int \<Rightarrow> string \<Rightarrow> ('s, 'u) uid_tracker \<Rightarrow> bool" where
  "ut_satisfied ops now k t = satisfiedExpectations (fst ops) now k (ut_expectations t)"

text \<open>The calls on a tracker; each carries the time of the clock where it reads it.\<close>

datatype tracker_call = ExpectCreations int string int | ExpectDeletions int string "string list"
  | CreationObserved string | DeletionObserved string string | DeleteExpectations string

fun tracker_do :: "('s, 'u) tracker_ops \<Rightarrow> tracker_call \<Rightarrow> ('s, 'u) uid_tracker \<Rightarrow> ('s, 'u) uid_tracker" where
  "tracker_do ops (ExpectCreations now k n) t = snd (ut_expectCreations ops now k n t)"
| "tracker_do ops (ExpectDeletions now k ks) t = snd (ut_expectDeletions ops now k ks t)"
| "tracker_do ops (CreationObserved k) t = ut_creationObserved ops k t"
| "tracker_do ops (DeletionObserved k d) t = ut_deletionObserved ops k d t"
| "tracker_do ops (DeleteExpectations k) t = ut_deleteExpectations ops k t"

section \<open>The tracker as two maps\<close>

text \<open>What a call does to the expectation and the names of one key.\<close>

fun track_step :: "tracker_call \<Rightarrow> string \<Rightarrow> controllee_expectations option \<times> string list option \<Rightarrow>
    controllee_expectations option \<times> string list option" where
  "track_step (ExpectCreations now k n) j (e, u) =
     (if j = k \<and> k \<noteq> [] then (Some \<lparr>ex_add = n, ex_del = 0, ex_key = k, ex_timestamp = now\<rparr>, u) else (e, u))"
| "track_step (ExpectDeletions now k ks) j (e, u) =
     (if j = k \<and> k \<noteq> []
      then (Some \<lparr>ex_add = 0, ex_del = int (length (js_add_all ks [])), ex_key = k, ex_timestamp = now\<rparr>, Some (js_add_all ks []))
      else (e, u))"
| "track_step (CreationObserved k) j (e, u) = (if j = k then (map_option (expectations_add (- 1) 0) e, u) else (e, u))"
| "track_step (DeletionObserved k d) j (e, u) =
     (if j = k \<and> u \<noteq> None \<and> d \<in> set (the u) then (map_option (expectations_add 0 (- 1)) e, Some (remove1 d (the u))) else (e, u))"
| "track_step (DeleteExpectations k) j (e, u) = (if j = k then (None, None) else (e, u))"

locale tracker =
  exps: store_contract eops eok econtents UNIV + uids: store_contract uops uok ucontents UNIV
  for eops :: "(controllee_expectations, 's) store_ops" and eok econtents
    and uops :: "(uid_set, 'u) store_ops" and uok ucontents
begin

text \<open>Stored objects carry the key they are stored under, and sets of names have no duplicates.\<close>

definition tok :: "('s, 'u) uid_tracker \<Rightarrow> bool" where
  "tok t \<longleftrightarrow> eok (ut_expectations t) \<and> uok (ut_uids t) \<and>
     (\<forall>k e. jm_get (econtents (ut_expectations t)) k = Some e \<longrightarrow> ex_key e = k \<and> k \<noteq> []) \<and>
     (\<forall>k x. jm_get (ucontents (ut_uids t)) k = Some x \<longrightarrow> us_key x = k \<and> k \<noteq> [] \<and> distinct (us_uids x))"

definition exp_at :: "('s, 'u) uid_tracker \<Rightarrow> string \<Rightarrow> controllee_expectations option" where
  "exp_at t k = jm_get (econtents (ut_expectations t)) k"

definition uids_at :: "('s, 'u) uid_tracker \<Rightarrow> string \<Rightarrow> string list option" where
  "uids_at t k = map_option us_uids (jm_get (ucontents (ut_uids t)) k)"

lemma exp_entry: "ex_key e \<noteq> [] \<Longrightarrow> cache_entry exp_conf e = Inr (ex_key e, e)"
  by (simp add: cache_entry_def exp_conf_def expKeyFunc_def own_key_def)

lemma uid_entry: "us_key x \<noteq> [] \<Longrightarrow> cache_entry uid_conf x = Inr (us_key x, x)"
  by (simp add: cache_entry_def uid_conf_def own_key_def)

lemma no_key: "ex_key e = [] \<Longrightarrow> \<exists>err. cache_entry exp_conf e = Inl err"
  "us_key x = [] \<Longrightarrow> \<exists>err. cache_entry uid_conf x = Inl err"
  by (simp_all add: cache_entry_def exp_conf_def uid_conf_def expKeyFunc_def own_key_def)

lemma exp_put:
  assumes "eok s" "ex_key e \<noteq> []"
  shows "\<exists>s'. cache_add eops exp_conf e s = (None, s') \<and> eok s' \<and> econtents s' = jm_set (ex_key e) e (econtents s)"
    "\<exists>s'. cache_update eops exp_conf e s = (None, s') \<and> eok s' \<and> econtents s' = jm_set (ex_key e) e (econtents s)"
  using exps.add_law [OF assms(1), of e "ex_key e"] exps.update_law [OF assms(1), of e "ex_key e"] exp_entry [OF assms(2)]
  by (auto simp: cache_add_def cache_update_def store_result_def)

lemma uid_put:
  assumes "uok s" "us_key x \<noteq> []"
  shows "\<exists>s'. cache_add uops uid_conf x s = (None, s') \<and> uok s' \<and> ucontents s' = jm_set (us_key x) x (ucontents s)"
    "\<exists>s'. cache_update uops uid_conf x s = (None, s') \<and> uok s' \<and> ucontents s' = jm_set (us_key x) x (ucontents s)"
  using uids.add_law [OF assms(1), of x "us_key x"] uids.update_law [OF assms(1), of x "us_key x"] uid_entry [OF assms(2)]
  by (auto simp: cache_add_def cache_update_def store_result_def)

lemma exp_get: "eok (ut_expectations t) \<Longrightarrow> getExpectations eops k (ut_expectations t) = (exp_at t k, exp_at t k \<noteq> None, None)"
  by (simp add: getExpectations_def cache_getByKey_def exps.get_law exp_at_def)

lemma uid_get: "uok (ut_uids t) \<Longrightarrow> getUIDs uops k (ut_uids t) = uids_at t k"
  by (cases "jm_get (ucontents (ut_uids t)) k") (simp_all add: getUIDs_def cache_getByKey_def uids.get_law uids_at_def)

lemma lower_spec:
  fixes k a d
  assumes "tok t"
  defines "s' \<equiv> lowerExpectations eops k a d (ut_expectations t)"
  shows "eok s' \<and> jm_get (econtents s') = (jm_get (econtents (ut_expectations t)))(k := map_option (expectations_add (- a) (- d)) (exp_at t k))"
proof -
  have ok: "eok (ut_expectations t)" using assms(1) by (simp add: tok_def)
  show ?thesis
  proof (cases "exp_at t k")
    case None
    then show ?thesis using ok by (auto simp: s'_def lowerExpectations_def exp_get [OF ok] exp_at_def)
  next
    case (Some e)
    then have "ex_key e = k" "k \<noteq> []" using assms(1) by (auto simp: tok_def exp_at_def)
    then show ?thesis
      using Some exp_put(2) [OF ok, of "expectations_add (- a) (- d) e"]
      by (auto simp: s'_def lowerExpectations_def exp_get [OF ok] expectations_add_def)
  qed
qed

lemma length_add_all: "distinct (js_add_all ks [])"
  by simp

lemma call_spec:
  assumes t: "tok t"
  shows "tok (tracker_do (eops, uops) c t) \<and>
    (\<forall>j. (exp_at (tracker_do (eops, uops) c t) j, uids_at (tracker_do (eops, uops) c t) j) = track_step c j (exp_at t j, uids_at t j))"
proof -
  have ok: "eok (ut_expectations t)" "uok (ut_uids t)" using t by (simp_all add: tok_def)
  show ?thesis
  proof (cases c)
    case (ExpectCreations now k n)
    let ?e = "\<lparr>ex_add = n, ex_del = 0, ex_key = k, ex_timestamp = now\<rparr>"
    show ?thesis
    proof (cases "k = []")
      case True
      then obtain err where "cache_entry exp_conf ?e = Inl err" using no_key(1) [of ?e] by auto
      then have "tracker_do (eops, uops) c t = t"
        by (simp add: ExpectCreations ut_expectCreations_def setExpectations_def cache_add_def)
      with t True show ?thesis by (simp add: ExpectCreations)
    next
      case False
      then obtain s' where s': "cache_add eops exp_conf ?e (ut_expectations t) = (None, s')" "eok s'"
          "econtents s' = jm_set k ?e (econtents (ut_expectations t))"
        using exp_put(1) [OF ok(1), of ?e] by auto
      then have "tracker_do (eops, uops) c t = t\<lparr>ut_expectations := s'\<rparr>"
        by (simp add: ExpectCreations ut_expectCreations_def setExpectations_def)
      with t s' False show ?thesis by (auto simp: ExpectCreations tok_def exp_at_def uids_at_def)
    qed
  next
    case (ExpectDeletions now k ks)
    let ?x = "\<lparr>us_uids = js_add_all ks [], us_key = k\<rparr>"
    let ?e = "\<lparr>ex_add = 0, ex_del = int (length (js_add_all ks [])), ex_key = k, ex_timestamp = now\<rparr>"
    show ?thesis
    proof (cases "k = []")
      case True
      then obtain err where "cache_entry uid_conf ?x = Inl err" using no_key(2) [of ?x] by auto
      then have "tracker_do (eops, uops) c t = t"
        by (simp add: ExpectDeletions ut_expectDeletions_def cache_add_def Let_def)
      with t True show ?thesis by (simp add: ExpectDeletions)
    next
      case False
      then obtain u' where u': "cache_add uops uid_conf ?x (ut_uids t) = (None, u')" "uok u'"
          "ucontents u' = jm_set k ?x (ucontents (ut_uids t))"
        using uid_put(1) [OF ok(2), of ?x] by auto
      obtain s' where s': "cache_add eops exp_conf ?e (ut_expectations t) = (None, s')" "eok s'"
          "econtents s' = jm_set k ?e (econtents (ut_expectations t))"
        using exp_put(1) [OF ok(1), of ?e] False by auto
      have "tracker_do (eops, uops) c t = t\<lparr>ut_uids := u', ut_expectations := s'\<rparr>"
        using u'(1) s'(1) by (simp add: ExpectDeletions ut_expectDeletions_def setExpectations_def Let_def)
      with t s' u' False show ?thesis by (auto simp: ExpectDeletions tok_def exp_at_def uids_at_def)
    qed
  next
    case (CreationObserved k)
    show ?thesis
      using lower_spec [OF t, of k 1 0] t
      by (auto simp: CreationObserved ut_creationObserved_def tok_def exp_at_def uids_at_def expectations_add_def)
  next
    case (DeletionObserved k d)
    show ?thesis
    proof (cases "uids_at t k \<noteq> None \<and> d \<in> set (the (uids_at t k))")
      case False
      then have "tracker_do (eops, uops) c t = t"
        by (auto simp: DeletionObserved ut_deletionObserved_def uid_get [OF ok(2)] split: option.split)
      with False t show ?thesis by (auto simp: DeletionObserved)
    next
      case True
      then obtain us where us: "uids_at t k = Some us" "d \<in> set us" by auto
      then have k: "k \<noteq> []" "distinct us" using t by (auto simp: tok_def uids_at_def)
      let ?x = "\<lparr>us_uids = remove1 d us, us_key = k\<rparr>"
      obtain u' where u': "cache_update uops uid_conf ?x (ut_uids t) = (None, u')" "uok u'"
          "ucontents u' = jm_set k ?x (ucontents (ut_uids t))"
        using uid_put(2) [OF ok(2), of ?x] k by auto
      have "tracker_do (eops, uops) c t =
          t\<lparr>ut_expectations := lowerExpectations eops k 0 1 (ut_expectations t), ut_uids := u'\<rparr>"
        using us u'(1) by (simp add: DeletionObserved ut_deletionObserved_def uid_get [OF ok(2)])
      then show ?thesis
        using lower_spec [OF t, of k 0 1] t us k u'(2,3)
        by (auto simp: DeletionObserved tok_def exp_at_def uids_at_def expectations_add_def)
    qed
  next
    case (DeleteExpectations k)
    have e: "\<exists>s'. deleteExpectations eops k (ut_expectations t) = s' \<and> eok s' \<and>
        jm_get (econtents s') = (jm_get (econtents (ut_expectations t)))(k := None)"
    proof (cases "exp_at t k")
      case None
      then show ?thesis using ok by (auto simp: deleteExpectations_def cache_getByKey_def exps.get_law exp_at_def)
    next
      case (Some e)
      then have "ex_key e = k" "k \<noteq> []" using t by (auto simp: tok_def exp_at_def)
      then show ?thesis
        using Some exps.delete_get [OF ok(1), of exp_conf e k]
        by (auto simp: deleteExpectations_def cache_getByKey_def exps.get_law exp_at_def exp_conf_def expKeyFunc_def own_key_def)
    qed
    have u: "\<exists>u'. (case cache_getByKey uops k (ut_uids t) of (Some x, True, None) \<Rightarrow> snd (cache_delete uops uid_conf x (ut_uids t))
          | _ \<Rightarrow> ut_uids t) = u' \<and> uok u' \<and> jm_get (ucontents u') = (jm_get (ucontents (ut_uids t)))(k := None)"
    proof (cases "jm_get (ucontents (ut_uids t)) k")
      case None
      then show ?thesis using ok by (auto simp: cache_getByKey_def uids.get_law)
    next
      case (Some x)
      then have "us_key x = k" "k \<noteq> []" using t by (auto simp: tok_def)
      then show ?thesis
        using Some uids.delete_get [OF ok(2), of uid_conf x k]
        by (auto simp: cache_getByKey_def uids.get_law uid_conf_def own_key_def)
    qed
    have "tracker_do (eops, uops) c t = t\<lparr>ut_expectations := deleteExpectations eops k (ut_expectations t),
        ut_uids := (case cache_getByKey uops k (ut_uids t) of (Some x, True, None) \<Rightarrow> snd (cache_delete uops uid_conf x (ut_uids t))
          | _ \<Rightarrow> ut_uids t)\<rparr>"
      by (auto simp: DeleteExpectations ut_deleteExpectations_def Let_def split: prod.split option.split bool.split)
    then show ?thesis using e u t by (auto simp: DeleteExpectations tok_def exp_at_def uids_at_def)
  qed
qed

lemma calls_spec:
  assumes "tok t"
  shows "tok (fold (tracker_do (eops, uops)) calls t) \<and>
    (exp_at (fold (tracker_do (eops, uops)) calls t) j, uids_at (fold (tracker_do (eops, uops)) calls t) j) =
      fold (\<lambda>c. track_step c j) calls (exp_at t j, uids_at t j)"
  using assms
proof (induction calls arbitrary: t)
  case (Cons c calls)
  from call_spec [OF Cons.prems, of c] Cons.IH [of "tracker_do (eops, uops) c t"] show ?case by simp
qed simp

lemma satisfied_spec:
  assumes "tok t"
  shows "ut_satisfied (eops, uops) now k t \<longleftrightarrow>
    (case exp_at t k of None \<Rightarrow> True | Some e \<Rightarrow> fulfilled e \<or> expectations_expired now e)"
  using assms exp_get [of t k] by (auto simp: ut_satisfied_def satisfiedExpectations_def tok_def split: option.split)

end

section \<open>Observing what was expected\<close>

text \<open>A call that sets or drops the expectations of a key.\<close>

fun resets :: "string \<Rightarrow> tracker_call \<Rightarrow> bool" where
  "resets k (ExpectCreations now j n) = (j = k)"
| "resets k (ExpectDeletions now j ks) = (j = k)"
| "resets k (DeleteExpectations j) = (j = k)"
| "resets k c = False"

definition creations_seen :: "string \<Rightarrow> tracker_call list \<Rightarrow> nat" where
  "creations_seen k calls = length (filter (\<lambda>c. c = CreationObserved k) calls)"

definition deletions_seen :: "string \<Rightarrow> tracker_call list \<Rightarrow> string set" where
  "deletions_seen k calls = {d. DeletionObserved k d \<in> set calls}"

lemma seen_simps [simp]:
  "creations_seen k [] = 0" "deletions_seen k [] = {}"
  "creations_seen k (c # calls) = (if c = CreationObserved k then Suc (creations_seen k calls) else creations_seen k calls)"
  "deletions_seen k (c # calls) = (case c of DeletionObserved j d \<Rightarrow> if j = k then {d} else {} | _ \<Rightarrow> {}) \<union> deletions_seen k calls"
  by (auto simp: creations_seen_def deletions_seen_def split: tracker_call.split)

text \<open>The additions go down by one for each creation seen, the deletions by one for each name seen that was still expected.\<close>

lemma steps_count:
  assumes "\<forall>c \<in> set calls. \<not> resets k c" "distinct us"
  shows "\<exists>e' us'. fold (\<lambda>c. track_step c k) calls (Some e, Some us) = (Some e', Some us') \<and> set us' = set us - deletions_seen k calls \<and>
    distinct us' \<and> ex_add e' = ex_add e - int (creations_seen k calls) \<and>
    ex_del e' = ex_del e - int (length us) + int (length us') \<and> ex_timestamp e' = ex_timestamp e"
  using assms
proof (induction calls arbitrary: e us)
  case (Cons c calls)
  have "\<exists>e1 us1. track_step c k (Some e, Some us) = (Some e1, Some us1) \<and> distinct us1 \<and>
      set us1 = set us - (case c of DeletionObserved j d \<Rightarrow> if j = k then {d} else {} | _ \<Rightarrow> {}) \<and>
      ex_add e1 = ex_add e - (if c = CreationObserved k then 1 else 0) \<and>
      ex_del e1 = ex_del e - int (length us) + int (length us1) \<and> ex_timestamp e1 = ex_timestamp e"
    using Cons.prems
    by (cases c) (auto simp: expectations_add_def length_remove1 of_nat_diff Suc_le_eq dest: length_pos_if_in_set)
  then obtain e1 us1 where step: "track_step c k (Some e, Some us) = (Some e1, Some us1)" "distinct us1"
      "set us1 = set us - (case c of DeletionObserved j d \<Rightarrow> if j = k then {d} else {} | _ \<Rightarrow> {})"
      "ex_add e1 = ex_add e - (if c = CreationObserved k then 1 else 0)"
      "ex_del e1 = ex_del e - int (length us) + int (length us1)" "ex_timestamp e1 = ex_timestamp e"
    by blast
  with Cons.IH [OF _ step(2), of e1] Cons.prems(1) show ?case by (force split: if_splits)
qed simp

lemma steps_creations:
  assumes "\<forall>c \<in> set calls. \<not> resets k c" "ex_del e \<le> 0"
  shows "\<exists>e' u'. fold (\<lambda>c. track_step c k) calls (Some e, u) = (Some e', u') \<and>
    ex_add e' = ex_add e - int (creations_seen k calls) \<and> ex_del e' \<le> 0 \<and> ex_timestamp e' = ex_timestamp e"
  using assms
proof (induction calls arbitrary: e u)
  case (Cons c calls)
  have "\<exists>e1 u1. track_step c k (Some e, u) = (Some e1, u1) \<and> ex_del e1 \<le> 0 \<and>
      ex_add e1 = ex_add e - (if c = CreationObserved k then 1 else 0) \<and> ex_timestamp e1 = ex_timestamp e"
    using Cons.prems by (cases c) (auto simp: expectations_add_def)
  then obtain e1 u1 where step: "track_step c k (Some e, u) = (Some e1, u1)" "ex_del e1 \<le> 0"
      "ex_add e1 = ex_add e - (if c = CreationObserved k then 1 else 0)" "ex_timestamp e1 = ex_timestamp e"
    by blast
  with Cons.IH [OF _ step(2), of u1] Cons.prems(1) show ?case by (force split: if_splits)
qed simp

interpretation stores: tracker "ts_ops rv" "store_ok UNIV" ts_items "ts_ops rw" "store_ok UNIV" ts_items for rv rw
  ..

definition new_tracker :: "(controllee_expectations thread_safe_map, uid_set thread_safe_map) uid_tracker" where
  "new_tracker = \<lparr>ut_expectations = new_thread_safe_map [], ut_uids = new_thread_safe_map []\<rparr>"

definition tracker_stores ::
  "(controllee_expectations thread_safe_map, uid_set thread_safe_map) tracker_ops" where
  "tracker_stores = (ts_ops (\<lambda>_. None), ts_ops (\<lambda>_. None))"

definition tracker_run ::
  "tracker_call list \<Rightarrow> (controllee_expectations thread_safe_map, uid_set thread_safe_map) uid_tracker" where
  "tracker_run calls = fold (tracker_do tracker_stores) calls new_tracker"

lemma new_tracker_ok: "stores.tok new_tracker"
  by (simp add: stores.tok_def new_tracker_def new_store_ok indexers_total_def)
    (simp add: new_thread_safe_map_def)

text \<open>
  C20. Whatever calls were made before, a controller that has asked for creations waits until it has seen
  that many, and one that has asked for deletions waits until every name has been seen deleted at least
  once, however often and whatever else is reported; it also goes on once five minutes have passed.
\<close>

theorem expectations_satisfied:
  assumes "k \<noteq> []" and "\<forall>c \<in> set seen. \<not> resets k c"
  shows "(ut_satisfied tracker_stores now k (tracker_run (earlier @ ExpectCreations asked k n # seen)) \<longleftrightarrow>
      n \<le> int (creations_seen k seen) \<or> now - asked > expectationsTimeoutMs) \<and>
    (ut_satisfied tracker_stores now k (tracker_run (earlier @ ExpectDeletions asked k ks # seen)) \<longleftrightarrow>
      set ks \<subseteq> deletions_seen k seen \<or> now - asked > expectationsTimeoutMs)"
proof -
  define t where "t c = tracker_run (earlier @ c # seen)" for c
  have start: "stores.tok (fold (tracker_do tracker_stores) earlier new_tracker)" (is "stores.tok ?t0")
    using stores.calls_spec [OF new_tracker_ok] unfolding tracker_stores_def by blast
  have run: "stores.tok (t c) \<and> (stores.exp_at (t c) k, stores.uids_at (t c) k) =
      fold (\<lambda>c. track_step c k) (c # seen) (stores.exp_at ?t0 k, stores.uids_at ?t0 k)" for c
    using stores.calls_spec [OF start, of "\<lambda>_. None" "\<lambda>_. None" "c # seen"] unfolding t_def tracker_run_def fold_append comp_def tracker_stores_def by simp
  have sat: "ut_satisfied tracker_stores now k (t c) \<longleftrightarrow>
      (case stores.exp_at (t c) k of None \<Rightarrow> True | Some e \<Rightarrow> fulfilled e \<or> expectations_expired now e)" for c
    using stores.satisfied_spec [of "t c"] run [of c] unfolding tracker_stores_def by blast
  from steps_creations [OF assms(2), of "\<lparr>ex_add = n, ex_del = 0, ex_key = k, ex_timestamp = asked\<rparr>" "stores.uids_at ?t0 k"]
  have created: "ut_satisfied tracker_stores now k (t (ExpectCreations asked k n)) \<longleftrightarrow>
      n \<le> int (creations_seen k seen) \<or> now - asked > expectationsTimeoutMs"
    using sat [of "ExpectCreations asked k n"] run [of "ExpectCreations asked k n"] assms(1)
    by (auto simp: fulfilled_def expectations_expired_def)
  from steps_count [OF assms(2), of "js_add_all ks []"
      "\<lparr>ex_add = 0, ex_del = int (length (js_add_all ks [])), ex_key = k, ex_timestamp = asked\<rparr>"]
  obtain e' us' where r: "fold (\<lambda>c. track_step c k) seen
      (Some \<lparr>ex_add = 0, ex_del = int (length (js_add_all ks [])), ex_key = k, ex_timestamp = asked\<rparr>, Some (js_add_all ks []))
        = (Some e', Some us')" "set us' = set ks - deletions_seen k seen"
      "ex_add e' \<le> 0" "ex_del e' = int (length us')" "ex_timestamp e' = asked" by auto
  have "us' = [] \<longleftrightarrow> set ks \<subseteq> deletions_seen k seen" using r(2) by (metis Diff_eq_empty_iff set_empty)
  then have "ut_satisfied tracker_stores now k (t (ExpectDeletions asked k ks)) \<longleftrightarrow>
      set ks \<subseteq> deletions_seen k seen \<or> now - asked > expectationsTimeoutMs"
    using sat [of "ExpectDeletions asked k ks"] run [of "ExpectDeletions asked k ks"] r assms(1)
    by (auto simp: fulfilled_def expectations_expired_def)
  with created show ?thesis unfolding t_def ..
qed

lemma expectations_satisfied_witness:
  "\<not> ut_satisfied tracker_stores 9 ''k'' (tracker_run
      ([ExpectCreations 4 ''k'' 2] @ ExpectDeletions 5 ''k'' [''a'', ''b''] # [DeletionObserved ''k'' ''a'', DeletionObserved ''k'' ''a'']))"
  using expectations_satisfied [of "''k''" "[DeletionObserved ''k'' ''a'', DeletionObserved ''k'' ''a'']" 9 "[ExpectCreations 4 ''k'' 2]" 5 0 "[''a'', ''b'']"]
  by (simp add: expectationsTimeoutMs_def)

end
