(* ===== verification/ReplicaSets.thy ===== *)
theory ReplicaSets
  imports Pods ApiErrors Expectations
begin

text \<open>
  The replica set controller: \<open>controller/replicaset/replica-set.ts\<close> and \<open>replica-set-utils.ts\<close>. The
  API server and whatever else changes behind it is the world \<open>'w\<close>, which the operations of a record take
  and return. Calls started together run one after the other in the order in which they are started.
\<close>

section \<open>Status (replica-set-utils.ts)\<close>

definition newReplicaSetCondition :: "string \<Rightarrow> string \<Rightarrow> string \<Rightarrow> string \<Rightarrow> int \<Rightarrow> replica_set_condition" where
  "newReplicaSetCondition condType status reason message now =
     \<lparr>rc_type = condType, rc_status = status, rc_lastTransitionTime = Some (JsDate now), rc_reason = Some reason, rc_message = Some message\<rparr>"

definition getCondition :: "replica_set_status option \<Rightarrow> string \<Rightarrow> replica_set_condition option" where
  "getCondition status condType = List.find (\<lambda>c. rc_type c = condType) (nvl (chain status rt_conditions) [])"

definition rs_filterOutCondition :: "replica_set_condition list \<Rightarrow> string \<Rightarrow> replica_set_condition list" where
  "rs_filterOutCondition conditions condType = filter (\<lambda>c. rc_type c \<noteq> condType) conditions"

definition setCondition :: "replica_set_condition \<Rightarrow> replica_set_status \<Rightarrow> replica_set_status" where
  "setCondition condition status =
     (case getCondition (Some status) (rc_type condition) of
        Some c \<Rightarrow>
          if rc_status c = rc_status condition \<and> rc_reason c = rc_reason condition then status
          else status\<lparr>rt_conditions := Some (rs_filterOutCondition (nvl (rt_conditions status) []) (rc_type condition) @ [condition])\<rparr>
      | None \<Rightarrow> status\<lparr>rt_conditions := Some (rs_filterOutCondition (nvl (rt_conditions status) []) (rc_type condition) @ [condition])\<rparr>)"

definition removeCondition :: "string \<Rightarrow> replica_set_status \<Rightarrow> replica_set_status" where
  "removeCondition condType status =
     (let conditions = rs_filterOutCondition (nvl (rt_conditions status) []) condType in
      status\<lparr>rt_conditions := (if length conditions > 0 then Some conditions else None)\<rparr>)"

definition empty_rs_status :: replica_set_status where
  "empty_rs_status = \<lparr>rt_availableReplicas = None, rt_conditions = None, rt_fullyLabeledReplicas = None,
     rt_observedGeneration = None, rt_readyReplicas = None, rt_replicas = Some 0, rt_terminatingReplicas = None\<rparr>"

definition minReady_of :: "replica_set \<Rightarrow> int" where
  "minReady_of rs = nvl (chain (rset_spec rs) rp_minReadySeconds) 0"

definition calculateStatus :: "replica_set \<Rightarrow> pod list \<Rightarrow> pod list \<Rightarrow> api_error option \<Rightarrow> bool \<Rightarrow> int \<Rightarrow> replica_set_status" where
  "calculateStatus rs activePods terminatingPods manageReplicasErr enableStatusTerminatingReplicas now =
     (let status = nvl (rset_status rs) empty_rs_status;
          templateLabel = ValidatedSetSelector (template_labels (nvl (chain (rset_spec rs) rp_template) JUndef));
          fully = length (filter (\<lambda>p. sel_matches templateLabel (labels_of p)) activePods);
          ready = length (filter isPodReady activePods);
          available = length (filter (\<lambda>p. isPodReady p \<and> isPodAvailable p (minReady_of rs) now) activePods);
          failureCond = getCondition (rset_status rs) ''ReplicaFailure'';
          diff = int (length activePods) - size_of rs;
          status = (case manageReplicasErr of
              Some err \<Rightarrow>
                if failureCond = None then
                  setCondition (newReplicaSetCondition ''ReplicaFailure'' ''True''
                    (if diff < 0 then ''FailedCreate'' else if diff > 0 then ''FailedDelete'' else []) (ae_message err) now) status
                else status
            | None \<Rightarrow> if failureCond \<noteq> None then removeCondition ''ReplicaFailure'' status else status)
      in status\<lparr>rt_replicas := Some (int (length activePods)), rt_fullyLabeledReplicas := Some (int fully),
           rt_readyReplicas := Some (int ready), rt_availableReplicas := Some (int available),
           rt_terminatingReplicas := (if enableStatusTerminatingReplicas then Some (int (length terminatingPods)) else None)\<rparr>)"

text \<open>The client calls of the status update.\<close>

record 'w status_api =
  sa_replaceStatus :: "string \<Rightarrow> string \<Rightarrow> replica_set \<Rightarrow> 'w \<Rightarrow> (api_error + replica_set) \<times> 'w"
  sa_read :: "string \<Rightarrow> string \<Rightarrow> 'w \<Rightarrow> (api_error + replica_set) \<times> 'w"

fun status_loop :: "'w status_api \<Rightarrow> string \<Rightarrow> string \<Rightarrow> replica_set_status \<Rightarrow> nat \<Rightarrow> replica_set \<Rightarrow> 'w \<Rightarrow>
    (api_error + replica_set) \<times> 'w" where
  "status_loop api ns name newStatus retries current w =
     (case sa_replaceStatus api ns name (current\<lparr>rset_status := Some newStatus\<rparr>) w of
        (Inr updated, w) \<Rightarrow> (Inr updated, w)
      | (Inl err, w) \<Rightarrow>
          (case retries of
             0 \<Rightarrow> (Inl err, w)
           | Suc n \<Rightarrow>
               (case sa_read api ns name w of
                  (Inl getErr, w) \<Rightarrow> (Inl getErr, w)
                | (Inr fresh, w) \<Rightarrow> status_loop api ns name newStatus n fresh w)))"

declare status_loop.simps [simp del]

definition status_settled :: "replica_set \<Rightarrow> replica_set_status \<Rightarrow> bool" where
  "status_settled rs new \<longleftrightarrow>
     (let old = rset_status rs in
      Some (nvl (chain old rt_replicas) 0) = rt_replicas new \<and>
      Some (nvl (chain old rt_fullyLabeledReplicas) 0) = rt_fullyLabeledReplicas new \<and>
      Some (nvl (chain old rt_readyReplicas) 0) = rt_readyReplicas new \<and>
      Some (nvl (chain old rt_availableReplicas) 0) = rt_availableReplicas new \<and>
      chain old rt_terminatingReplicas = rt_terminatingReplicas new \<and>
      chain (ao_metadata rs) om_generation = chain old rt_observedGeneration \<and>
      nvl (chain old rt_conditions) [] = nvl (rt_conditions new) [])"

definition updateReplicaSetStatus :: "'w status_api \<Rightarrow> string \<Rightarrow> string \<Rightarrow> replica_set \<Rightarrow> replica_set_status \<Rightarrow> 'w \<Rightarrow>
    (api_error + replica_set) \<times> 'w" where
  "updateReplicaSetStatus api ns name rs newStatus w =
     (if status_settled rs newStatus then (Inr rs, w)
      else status_loop api ns name (newStatus\<lparr>rt_observedGeneration := chain (ao_metadata rs) om_generation\<rparr>) 1 rs w)"

section \<open>Creating and deleting pods\<close>

text \<open>A batch of calls that run together, and their results in order.\<close>

fun run_batch :: "('s \<Rightarrow> api_error option \<times> 's) \<Rightarrow> nat \<Rightarrow> 's \<Rightarrow> api_error option list \<times> 's" where
  "run_batch fn 0 s = ([], s)"
| "run_batch fn (Suc n) s = (case fn s of (r, s) \<Rightarrow> (case run_batch fn n s of (rs, s) \<Rightarrow> (r # rs, s)))"

definition first_error :: "api_error option list \<Rightarrow> api_error option" where
  "first_error errors = (case List.find (\<lambda>e. e \<noteq> None) errors of None \<Rightarrow> None | Some e \<Rightarrow> e)"

function batch_loop :: "('s \<Rightarrow> api_error option \<times> 's) \<Rightarrow> nat \<Rightarrow> nat \<Rightarrow> nat \<Rightarrow> 's \<Rightarrow> (nat \<times> api_error option) \<times> 's" where
  "batch_loop fn remaining batchSize successes s =
     (if batchSize = 0 then ((successes, None), s)
      else case run_batch fn batchSize s of
        (errors, s) \<Rightarrow>
          let successes = successes + length (filter (\<lambda>e. e = None) errors) in
          case first_error errors of
            Some err \<Rightarrow> ((successes, Some err), s)
          | None \<Rightarrow> batch_loop fn (remaining - batchSize) (min (2 * batchSize) (remaining - batchSize)) successes s)"
  by pat_completeness auto

termination batch_loop
  by (relation "measures [\<lambda>(fn, remaining, batchSize, successes, s). remaining,
      \<lambda>(fn, remaining, batchSize, successes, s). batchSize]") auto

declare batch_loop.simps [simp del]

definition slowStartBatch :: "nat \<Rightarrow> nat \<Rightarrow> ('s \<Rightarrow> api_error option \<times> 's) \<Rightarrow> 's \<Rightarrow> (nat \<times> api_error option) \<times> 's" where
  "slowStartBatch n initialBatchSize fn s = batch_loop fn n (min n initialBatchSize) 0 s"

record 'w pod_control =
  pd_createPods :: "string \<Rightarrow> json \<Rightarrow> replica_set \<Rightarrow> owner_reference \<Rightarrow> 'w \<Rightarrow> api_error option \<times> 'w"
  pd_deletePod :: "string \<Rightarrow> string \<Rightarrow> replica_set \<Rightarrow> 'w \<Rightarrow> api_error option \<times> 'w"

definition replicaSetControllerKind :: group_version_kind where
  "replicaSetControllerKind = GroupVersionKind ''apps'' ''v1'' ''ReplicaSet''"

definition getPodKeys :: "pod list \<Rightarrow> string list" where
  "getPodKeys pods = map podKey pods"

text \<open>One call of \<open>createPods\<close>; an error because the namespace goes away counts as a success.\<close>

definition create_one :: "'w pod_control \<Rightarrow> replica_set \<Rightarrow> 'w \<Rightarrow> api_error option \<times> 'w" where
  "create_one control rs w =
     (case pd_createPods control (nvl (chain (ao_metadata rs) om_namespace) ''default'')
             (nvl (chain (rset_spec rs) rp_template) (JObj [])) rs (newControllerRef rs replicaSetControllerKind) w of
        (Some err, w) \<Rightarrow> (if hasStatusCause err ''NamespaceTerminating'' then None else Some err, w)
      | (None, w) \<Rightarrow> (None, w))"

text \<open>The deletion of one pod: an error takes the pod out of the expectations again.\<close>

definition delete_one :: "'w pod_control \<Rightarrow> ('s, 'u) tracker_ops \<Rightarrow> string \<Rightarrow> replica_set \<Rightarrow> pod \<Rightarrow>
    ('s, 'u) uid_tracker \<times> 'w \<Rightarrow> api_error option \<times> ('s, 'u) uid_tracker \<times> 'w" where
  "delete_one control ops key rs p tw =
     (if name_of p = [] then (None, tw)
      else case pd_deletePod control (nvl (chain (ao_metadata rs) om_namespace) ''default'') (name_of p) rs (snd tw) of
        (None, w) \<Rightarrow> (None, fst tw, w)
      | (Some err, w) \<Rightarrow>
          (if isNotFoundError err then None else Some err, ut_deletionObserved ops key (podKey p) (fst tw), w))"

fun delete_all :: "'w pod_control \<Rightarrow> ('s, 'u) tracker_ops \<Rightarrow> string \<Rightarrow> replica_set \<Rightarrow> pod list \<Rightarrow>
    ('s, 'u) uid_tracker \<times> 'w \<Rightarrow> api_error option list \<times> ('s, 'u) uid_tracker \<times> 'w" where
  "delete_all control ops key rs [] tw = ([], tw)"
| "delete_all control ops key rs (p # ps) tw =
     (case delete_one control ops key rs p tw of
        (e, tw) \<Rightarrow> (case delete_all control ops key rs ps tw of (es, tw) \<Rightarrow> (e # es, tw)))"

text \<open>\<open>related\<close> is what \<open>getIndirectlyRelatedPods\<close> returns; \<open>now\<close> the time of the clock.\<close>

definition manageReplicas :: "'w pod_control \<Rightarrow> ('s, 'u) tracker_ops \<Rightarrow> nat \<Rightarrow> int \<Rightarrow> pod list \<Rightarrow> pod list \<Rightarrow> replica_set \<Rightarrow>
    ('s, 'u) uid_tracker \<times> 'w \<Rightarrow> api_error option \<times> ('s, 'u) uid_tracker \<times> 'w" where
  "manageReplicas control ops burstReplicas now related activePods rs tw =
     (let diff = int (length activePods) - size_of rs in
      case metaNamespaceKeyFunc (Object rs) of
        (_, Some _) \<Rightarrow> (None, tw)
      | (key, None) \<Rightarrow>
          if diff < 0 then
            (let n = min (nat (- diff)) burstReplicas;
                 t = snd (ut_expectCreations ops now key (int n) (fst tw))
             in case slowStartBatch n 1 (create_one control rs) (snd tw) of
                  ((successes, err), w) \<Rightarrow> (err, (ut_creationObserved ops key ^^ (n - successes)) t, w))
          else if diff > 0 then
            (let n = min (nat diff) burstReplicas;
                 podsToDelete = snd (getPodsToDelete now activePods related n);
                 t = snd (ut_expectDeletions ops now key (getPodKeys podsToDelete) (fst tw))
             in case delete_all control ops key rs podsToDelete (t, snd tw) of
                  (errors, tw) \<Rightarrow> (first_error errors, tw))
          else (None, tw))"

section \<open>The sync\<close>

text \<open>
  What a sync uses besides: the consistency store, the lister and the index of the pods, the adoption of
  pods (\<open>claimPods\<close>), the related pods, and the delayed addition to the queue. \<open>isNotFound\<close> of the
  lister's error also accepts the lister's own message.
\<close>

record 'w sync_env =
  sy_control :: "'w pod_control"
  sy_status :: "'w status_api"
  sy_ensureReady :: "string \<Rightarrow> string \<Rightarrow> 'w \<Rightarrow> api_error option \<times> 'w"
  sy_clear :: "string \<Rightarrow> string \<Rightarrow> string \<Rightarrow> 'w \<Rightarrow> 'w"
  sy_wroteAt :: "string \<Rightarrow> string \<Rightarrow> string \<Rightarrow> string \<Rightarrow> 'w \<Rightarrow> 'w"
  sy_get :: "string \<Rightarrow> string \<Rightarrow> 'w \<Rightarrow> api_error + replica_set option"
  sy_podsByOwner :: "replica_set \<Rightarrow> 'w \<Rightarrow> api_error + pod list"
  sy_claimPods :: "replica_set \<Rightarrow> selector \<Rightarrow> pod list \<Rightarrow> 'w \<Rightarrow> (api_error + pod list) \<times> 'w"
  sy_relatedPods :: "replica_set \<Rightarrow> 'w \<Rightarrow> pod list"
  sy_addAfter :: "string \<Rightarrow> int \<Rightarrow> 'w \<Rightarrow> 'w"
  sy_now :: "'w \<Rightarrow> int"

definition isReplicaSetNotFoundError :: "api_error \<Rightarrow> string \<Rightarrow> bool" where
  "isReplicaSetNotFoundError err name \<longleftrightarrow>
     isNotFoundError err \<or> ae_message err = ''replicaset '' @ name @ '' not found''"

definition next_sync :: "replica_set \<Rightarrow> pod list \<Rightarrow> int \<Rightarrow> int \<Rightarrow> int option" where
  "next_sync updated activePods evaluated now =
     (if minReady_of updated > 0 \<and>
         nvl (chain (rset_status updated) rt_readyReplicas) 0 \<noteq> nvl (chain (rset_status updated) rt_availableReplicas) 0
      then Some (nvl (findMinNextPodAvailabilityCheck activePods (minReady_of updated) evaluated now) (minReady_of updated * 1000))
      else None)"

text \<open>The part of the sync after the pods have been claimed.\<close>

definition sync_claimed :: "'w sync_env \<Rightarrow> ('s, 'u) tracker_ops \<Rightarrow> nat \<Rightarrow> bool \<Rightarrow> string \<Rightarrow> string \<Rightarrow> string \<Rightarrow> replica_set \<Rightarrow> bool \<Rightarrow>
    pod list \<Rightarrow> pod list \<Rightarrow> ('s, 'u) uid_tracker \<times> 'w \<Rightarrow> api_error option \<times> ('s, 'u) uid_tracker \<times> 'w" where
  "sync_claimed env ops burst feature key ns name rs needsSync activePods terminatingPods tw =
     (case (if needsSync \<and> deletion_of rs = None
            then manageReplicas (sy_control env) ops burst (sy_now env (snd tw)) (sy_relatedPods env rs (snd tw)) activePods rs tw
            else (None, tw)) of
        (manageErr, t, w) \<Rightarrow>
          let now = sy_now env w;
              newStatus = calculateStatus rs activePods terminatingPods manageErr feature now in
          case updateReplicaSetStatus (sy_status env) ns name rs newStatus w of
            (Inl err, w) \<Rightarrow> (Some err, t, w)
          | (Inr updated, w) \<Rightarrow>
              let w = sy_wroteAt env (nvl (chain (ao_metadata rs) om_namespace) ''default'') (name_of rs)
                    (nvl (chain (ao_metadata rs) om_uid) []) (nvl (chain (ao_metadata updated) om_resourceVersion) []) w in
              if manageErr \<noteq> None then (manageErr, t, w)
              else case next_sync updated activePods now (sy_now env w) of
                None \<Rightarrow> (None, t, w)
              | Some ms \<Rightarrow> (None, t, sy_addAfter env key ms w))"

definition syncReplicaSet :: "(string \<Rightarrow> string \<Rightarrow> int) \<Rightarrow> 'w sync_env \<Rightarrow> ('s, 'u) tracker_ops \<Rightarrow> nat \<Rightarrow> bool \<Rightarrow> string \<Rightarrow>
    ('s, 'u) uid_tracker \<times> 'w \<Rightarrow> api_error option \<times> ('s, 'u) uid_tracker \<times> 'w" where
  "syncReplicaSet lc env ops burst feature key tw =
     (case splitMetaNamespaceKey key of
        (_, _, Some err) \<Rightarrow> (Some (of_js_error err), tw)
      | (ns, name, None) \<Rightarrow>
          (case sy_ensureReady env ns name (snd tw) of
             (Some err, w) \<Rightarrow> (Some err, fst tw, w)
           | (None, w) \<Rightarrow>
               let gone = (None, ut_deleteExpectations ops key (fst tw), sy_clear env ns name [] w) in
               (case sy_get env ns name w of
                  Inl err \<Rightarrow> if isReplicaSetNotFoundError err name then gone else (Some err, fst tw, w)
                | Inr None \<Rightarrow> gone
                | Inr (Some rs) \<Rightarrow>
                    let needsSync = ut_satisfied ops (sy_now env w) key (fst tw) in
                    (case labelSelectorAsSelector lc (map_option rp_selector (rset_spec rs)) of
                       Inl _ \<Rightarrow> (None, fst tw, w)
                     | Inr s \<Rightarrow>
                         (case sy_podsByOwner env rs w of
                            Inl err \<Rightarrow> (Some err, fst tw, w)
                          | Inr allPods \<Rightarrow>
                              (case sy_claimPods env rs s (filterActivePods allPods) w of
                                 (Inl err, w) \<Rightarrow> (Some err, fst tw, w)
                               | (Inr activePods, w) \<Rightarrow>
                                   let terminatingPods = (if feature then filterClaimedPods rs s (filterTerminatingPods allPods) else [])
                                   in sync_claimed env ops burst feature key ns name rs needsSync activePods terminatingPods (fst tw, w)))))))"

section \<open>Batches\<close>

text \<open>\<open>made\<close> counts the calls that returned no error, \<open>calls\<close> all of them.\<close>

definition counts :: "('s \<Rightarrow> api_error option \<times> 's) \<Rightarrow> ('s \<Rightarrow> nat) \<Rightarrow> bool" where
  "counts fn made \<longleftrightarrow> (\<forall>s. made (snd (fn s)) = made s + (if fst (fn s) = None then 1 else 0))"

definition ticks :: "('s \<Rightarrow> api_error option \<times> 's) \<Rightarrow> ('s \<Rightarrow> nat) \<Rightarrow> bool" where
  "ticks fn calls \<longleftrightarrow> (\<forall>s. calls (snd (fn s)) = Suc (calls s))"

definition succeeded :: "api_error option list \<Rightarrow> nat" where
  "succeeded errors = length (filter (\<lambda>e. e = None) errors)"

lemma first_error_None: "first_error errors = None \<longleftrightarrow> succeeded errors = length errors"
proof -
  have "first_error errors = None \<longleftrightarrow> (\<forall>e \<in> set errors. e = None)"
    by (induction errors) (auto simp: first_error_def split: option.splits)
  also have "\<dots> \<longleftrightarrow> succeeded errors = length errors"
    unfolding succeeded_def by (metis (mono_tags, lifting) filter_True filter_id_conv length_filter_less nat_less_le)
  finally show ?thesis .
qed

lemma run_batch_counts:
  "length (fst (run_batch fn n s)) = n"
  "counts fn made \<Longrightarrow> made (snd (run_batch fn n s)) = made s + succeeded (fst (run_batch fn n s))"
  "ticks fn calls \<Longrightarrow> calls (snd (run_batch fn n s)) = calls s + n"
  by (induction n arbitrary: s) (simp_all add: case_prod_beta succeeded_def counts_def ticks_def)

lemma batch_loop_counts:
  assumes "counts fn made" "batchSize \<le> remaining" "batchSize = 0 \<longrightarrow> remaining = 0"
  shows "\<exists>n err s'. batch_loop fn remaining batchSize successes s = ((successes + n, err), s') \<and>
    made s' = made s + n \<and> n \<le> remaining \<and> (err = None \<longleftrightarrow> n = remaining) \<and>
    (\<forall>calls. ticks fn calls \<longrightarrow> calls s' \<le> calls s + remaining \<and> calls s + n \<le> calls s' \<and>
      (err \<noteq> None \<longrightarrow> calls s' \<le> calls s + 2 * n + batchSize))"
  using assms(2,3)
proof (induction remaining arbitrary: batchSize successes s rule: less_induct)
  case (less remaining)
  obtain errors s1 where b: "run_batch fn batchSize s = (errors, s1)" by (cases "run_batch fn batchSize s")
  have len: "length errors = batchSize" and made: "made s1 = made s + succeeded errors"
    and calls: "\<And>calls. ticks fn calls \<Longrightarrow> calls s1 = calls s + batchSize"
    using run_batch_counts [where fn = fn and n = batchSize and s = s] assms(1) b by auto
  have le: "succeeded errors \<le> length errors" by (simp add: succeeded_def)
  show ?case
  proof (cases "batchSize = 0")
    case True
    with less.prems show ?thesis
      by (intro exI [of _ 0] exI [of _ None] exI [of _ s]) (subst batch_loop.simps, simp)
  next
    case pos: False
    show ?thesis
    proof (cases "first_error errors")
      case None
      then have all: "succeeded errors = batchSize" using len by (simp add: first_error_None)
      let ?r = "remaining - batchSize"
      have "?r < remaining" using pos less.prems by simp
      from less.IH [OF this, of "min (2 * batchSize) ?r" "successes + batchSize" s1] pos
      obtain n err s' where rest:
          "batch_loop fn ?r (min (2 * batchSize) ?r) (successes + batchSize) s1 = ((successes + batchSize + n, err), s')"
          "made s' = made s1 + n" "n \<le> ?r" "err = None \<longleftrightarrow> n = ?r"
          "\<And>calls. ticks fn calls \<Longrightarrow> calls s' \<le> calls s1 + ?r \<and> calls s1 + n \<le> calls s' \<and>
            (err \<noteq> None \<longrightarrow> calls s' \<le> calls s1 + 2 * n + min (2 * batchSize) ?r)"
        by auto
      have "batch_loop fn remaining batchSize successes s = ((successes + (batchSize + n), err), s')"
        using pos b None all rest(1) by (simp add: batch_loop.simps [of fn remaining batchSize] succeeded_def [symmetric] ac_simps)
      moreover have "calls s' \<le> calls s + remaining \<and> calls s + (batchSize + n) \<le> calls s' \<and>
          (err \<noteq> None \<longrightarrow> calls s' \<le> calls s + 2 * (batchSize + n) + batchSize)" if "ticks fn calls" for calls
        using rest(5) [OF that] calls [OF that] less.prems by auto
      ultimately show ?thesis using rest(2-4) made all less.prems
        by (intro exI [of _ "batchSize + n"] exI [of _ err] exI [of _ s']) auto
    next
      case (Some err)
      then have lt: "succeeded errors < batchSize" using le len first_error_None [of errors] by (simp add: nat_less_le)
      have "batch_loop fn remaining batchSize successes s = ((successes + succeeded errors, Some err), s1)"
        using pos b Some by (simp add: batch_loop.simps [of fn remaining batchSize] succeeded_def)
      moreover have "calls s1 \<le> calls s + remaining \<and> calls s + succeeded errors \<le> calls s1 \<and>
          calls s1 \<le> calls s + 2 * succeeded errors + batchSize" if "ticks fn calls" for calls
        using calls [OF that] lt less.prems by simp
      ultimately show ?thesis using lt made less.prems
        by (intro exI [of _ "succeeded errors"] exI [of _ "Some err"] exI [of _ s1]) simp
    qed
  qed
qed

lemma slow_start_counts:
  assumes "counts fn made"
  shows "\<exists>m err s'. slowStartBatch n 1 fn s = ((m, err), s') \<and> made s' = made s + m \<and> m \<le> n \<and> (err = None \<longleftrightarrow> m = n) \<and>
    (\<forall>calls. ticks fn calls \<longrightarrow> calls s' \<le> calls s + n \<and> calls s + m \<le> calls s' \<and> (err \<noteq> None \<longrightarrow> calls s' \<le> calls s + 2 * m + 1))"
proof -
  have "min n 1 \<le> n" "min n 1 = 0 \<longrightarrow> n = 0" by auto
  from batch_loop_counts [OF assms this, of 0 s] show ?thesis unfolding slowStartBatch_def by fastforce
qed

text \<open>\<open>made\<close> counts the creations that returned no error to the batch, \<open>deleted\<close> the deletions that did not fail.\<close>

definition control_makes :: "'w pod_control \<Rightarrow> ('w \<Rightarrow> nat) \<Rightarrow> ('w \<Rightarrow> nat) \<Rightarrow> bool" where
  "control_makes control made deleted \<longleftrightarrow>
     (\<forall>rs w. made (snd (create_one control rs w)) = made w + (if fst (create_one control rs w) = None then 1 else 0) \<and>
        deleted (snd (create_one control rs w)) = deleted w) \<and>
     (\<forall>ns name rs w. made (snd (pd_deletePod control ns name rs w)) = made w \<and>
        deleted (snd (pd_deletePod control ns name rs w)) = deleted w + (if fst (pd_deletePod control ns name rs w) = None then 1 else 0))"

lemma control_create:
  assumes "control_makes control made deleted"
  shows "made (snd (create_one control rs w)) = made w + (if fst (create_one control rs w) = None then 1 else 0) \<and>
    deleted (snd (create_one control rs w)) = deleted w"
  using assms unfolding control_makes_def by blast

lemma control_delete:
  assumes "control_makes control made deleted"
  shows "made (snd (pd_deletePod control ns name rs w)) = made w \<and>
    deleted (snd (pd_deletePod control ns name rs w)) = deleted w + (if fst (pd_deletePod control ns name rs w) = None then 1 else 0)"
  using assms unfolding control_makes_def by blast

text \<open>
  Three counters of what the API server did: the creations it accepted, those it refused because the
  namespace is terminating, and the deletions it accepted. Every call moves its own by one; a call that
  fails otherwise moves none.
\<close>

definition control_counts :: "'w pod_control \<Rightarrow> ('w \<Rightarrow> nat) \<Rightarrow> ('w \<Rightarrow> nat) \<Rightarrow> ('w \<Rightarrow> nat) \<Rightarrow> bool" where
  "control_counts control created terminating deleted \<longleftrightarrow>
     (\<forall>ns template rs ref w w'. \<forall>r. pd_createPods control ns template rs ref w = (r, w') \<longrightarrow>
        created w' = created w + (if r = None then 1 else 0) \<and> deleted w' = deleted w \<and>
        terminating w' = terminating w +
          (case r of None \<Rightarrow> 0 | Some err \<Rightarrow> if hasStatusCause err ''NamespaceTerminating'' then 1 else 0)) \<and>
     (\<forall>ns name rs w w'. \<forall>r. pd_deletePod control ns name rs w = (r, w') \<longrightarrow>
        created w' = created w \<and> terminating w' = terminating w \<and> deleted w' = deleted w + (if r = None then 1 else 0))"

lemma control_countsD:
  assumes "control_counts control created terminating deleted"
  shows "control_makes control (\<lambda>w. created w + terminating w) deleted"
    "created w \<le> created (snd (create_one control rs w))" "terminating w \<le> terminating (snd (create_one control rs w))"
    "created (snd (pd_deletePod control ns name rs w)) = created w"
    "terminating (snd (pd_deletePod control ns name rs w)) = terminating w"
proof -
  have c: "created (snd (create_one control rs w)) + terminating (snd (create_one control rs w)) =
        created w + terminating w + (if fst (create_one control rs w) = None then 1 else 0) \<and>
      deleted (snd (create_one control rs w)) = deleted w \<and>
      created w \<le> created (snd (create_one control rs w)) \<and> terminating w \<le> terminating (snd (create_one control rs w))" for rs w
  proof -
    obtain r w' where r: "pd_createPods control (nvl (chain (ao_metadata rs) om_namespace) ''default'')
        (nvl (chain (rset_spec rs) rp_template) (JObj [])) rs (newControllerRef rs replicaSetControllerKind) w = (r, w')"
      by fastforce
    from assms r have "created w' = created w + (if r = None then 1 else 0) \<and> deleted w' = deleted w \<and>
        terminating w' = terminating w +
          (case r of None \<Rightarrow> 0 | Some err \<Rightarrow> if hasStatusCause err ''NamespaceTerminating'' then 1 else 0)"
      unfolding control_counts_def by blast
    then show ?thesis using r by (simp add: create_one_def split: option.splits)
  qed
  have d: "created (snd (pd_deletePod control ns name rs w)) = created w \<and> terminating (snd (pd_deletePod control ns name rs w)) = terminating w \<and>
      deleted (snd (pd_deletePod control ns name rs w)) = deleted w + (if fst (pd_deletePod control ns name rs w) = None then 1 else 0)"
    for ns name rs w
    using assms unfolding control_counts_def by (cases "pd_deletePod control ns name rs w") auto
  show "control_makes control (\<lambda>w. created w + terminating w) deleted"
    using c d by (simp add: control_makes_def)
  show "created w \<le> created (snd (create_one control rs w))" "terminating w \<le> terminating (snd (create_one control rs w))"
    using c by blast+
  show "created (snd (pd_deletePod control ns name rs w)) = created w"
    "terminating (snd (pd_deletePod control ns name rs w)) = terminating w" using d by blast+
qed

lemma batch_deleted:
  assumes "control_makes control made deleted"
  shows "deleted (snd (batch_loop (create_one control rs) remaining batchSize successes w)) = deleted w"
proof (induction "create_one control rs" remaining batchSize successes w rule: batch_loop.induct)
  case (1 remaining batchSize successes w)
  have run: "deleted (snd (run_batch (create_one control rs) n w)) = deleted w" for n w
    by (induction n arbitrary: w) (simp_all add: case_prod_beta control_create [OF assms])
  show ?case
    using 1 run [of batchSize w]
    by (subst batch_loop.simps) (auto simp: Let_def split: prod.split option.split)
qed

lemma mset_ranked: "mset (map fst (swap_sort lt (ranked_pods pods related))) = mset pods"
proof -
  have "map fst (ranked_pods pods related) = pods" by (simp add: ranked_pods_def Let_def comp_def)
  then show ?thesis by (metis mset_map mset_swap_sort)
qed

lemma pods_to_delete_mset:
  "mset (snd (getPodsToDelete now pods related n)) \<subseteq># mset pods"
  "length (snd (getPodsToDelete now pods related n)) \<le> n"
proof -
  have m: "mset (map fst (swap_sort (ranked_less (Some now)) (ranked_pods pods related))) = mset pods"
    by (rule mset_ranked)
  have t: "mset (take n xs) \<subseteq># mset xs" for xs :: "pod list"
    by (metis append_take_drop_id mset_append mset_subset_eq_add_left)
  from t [of "map fst (swap_sort (ranked_less (Some now)) (ranked_pods pods related))"] t [of pods]
  show "mset (snd (getPodsToDelete now pods related n)) \<subseteq># mset pods"
    unfolding m by (simp add: getPodsToDelete_def Let_def)
  show "length (snd (getPodsToDelete now pods related n)) \<le> n" by (simp add: getPodsToDelete_def Let_def)
qed

context tracker begin

lemma call_at:
  assumes "tok t"
  shows "exp_at (tracker_do (eops, uops) c t) j = fst (track_step c j (exp_at t j, uids_at t j))"
    "uids_at (tracker_do (eops, uops) c t) j = snd (track_step c j (exp_at t j, uids_at t j))"
    "tok (tracker_do (eops, uops) c t)"
  using call_spec [OF assms, of c] by (metis fst_conv, metis snd_conv, blast)

lemma creations_observed:
  assumes "tok t" "exp_at t k = Some e"
  shows "tok ((ut_creationObserved (eops, uops) k ^^ m) t) \<and>
    exp_at ((ut_creationObserved (eops, uops) k ^^ m) t) k = Some (e\<lparr>ex_add := ex_add e - int m\<rparr>)"
proof (induction m)
  case (Suc m)
  with call_at [of "(ut_creationObserved (eops, uops) k ^^ m) t" "CreationObserved k"]
  show ?case by (auto simp: expectations_add_def)
qed (simp add: assms)

lemma delete_all_counts:
  assumes "control_makes control made deleted"
    and "tok t" "exp_at t k = Some e" "uids_at t k = Some us"
    and "\<forall>p \<in> set ps. name_of p \<noteq> [] \<and> podKey p \<in> set us" "distinct (map podKey ps)"
  shows "\<exists>es t' w' e'. delete_all control (eops, uops) k rs ps (t, w) = (es, t', w') \<and> tok t' \<and> made w' = made w \<and>
    deleted w \<le> deleted w' \<and> deleted w' \<le> deleted w + length ps \<and> exp_at t' k = Some e' \<and> ex_add e' = ex_add e \<and>
    ex_del e' = ex_del e - int (length ps) + int (deleted w' - deleted w)"
  using assms(2-)
proof (induction ps arbitrary: t w e us)
  case (Cons p ps)
  obtain r w1 where d: "pd_deletePod control (nvl (chain (ao_metadata rs) om_namespace) ''default'') (name_of p) rs w = (r, w1)"
    by (cases "pd_deletePod control (nvl (chain (ao_metadata rs) om_namespace) ''default'') (name_of p) rs w")
  have w1: "made w1 = made w" "deleted w1 = deleted w + (if r = None then 1 else 0)"
    using control_delete [OF assms(1), of "nvl (chain (ao_metadata rs) om_namespace) ''default''" "name_of p" rs w] d by auto
  have p: "name_of p \<noteq> []" "podKey p \<in> set us" using Cons.prems(4) by auto
  let ?t = "if r = None then t else ut_deletionObserved (eops, uops) k (podKey p) t"
  obtain e0 where one: "delete_one control (eops, uops) k rs p (t, w) = (e0, ?t, w1)"
    using p d by (cases r) (auto simp: delete_one_def)
  have us: "distinct us" using Cons.prems(1,3) by (auto simp: tok_def uids_at_def)
  obtain e1 us1 where t1: "tok ?t" "exp_at ?t k = Some e1" "uids_at ?t k = Some us1" "set us - {podKey p} \<subseteq> set us1"
      "ex_add e1 = ex_add e" "ex_del e1 = ex_del e - (if r = None then 0 else 1)"
    using call_at [OF Cons.prems(1), of "DeletionObserved k (podKey p)"] Cons.prems(1-3) p us
    by (cases "r = None") (auto simp: expectations_add_def)
  have "\<forall>q \<in> set ps. podKey q \<noteq> podKey p" using Cons.prems(5) by (simp add: image_iff) metis
  then have "\<forall>q \<in> set ps. name_of q \<noteq> [] \<and> podKey q \<in> set us1" using Cons.prems(4) t1(4) by auto
  with Cons.IH [OF t1(1-3), of w1] Cons.prems(5) obtain es t' w' e' where
    rest: "delete_all control (eops, uops) k rs ps (?t, w1) = (es, t', w')" "tok t'" "made w' = made w1"
      "deleted w1 \<le> deleted w'" "deleted w' \<le> deleted w1 + length ps" "exp_at t' k = Some e'" "ex_add e' = ex_add e1"
      "ex_del e' = ex_del e1 - int (length ps) + int (deleted w' - deleted w1)" by auto
  have "delete_all control (eops, uops) k rs (p # ps) (t, w) = (e0 # es, t', w')"
    using one rest(1) by simp
  then show ?case using rest t1 w1 by (auto split: if_splits)
qed auto

lemma tok_sets:
  assumes "tok t" "k \<noteq> []"
  shows "tok (snd (ut_expectCreations (eops, uops) now k n t))"
    "exp_at (snd (ut_expectCreations (eops, uops) now k n t)) k = Some \<lparr>ex_add = n, ex_del = 0, ex_key = k, ex_timestamp = now\<rparr>"
    "tok (snd (ut_expectDeletions (eops, uops) now k ks t))"
    "exp_at (snd (ut_expectDeletions (eops, uops) now k ks t)) k =
      Some \<lparr>ex_add = 0, ex_del = int (length (js_add_all ks [])), ex_key = k, ex_timestamp = now\<rparr>"
    "uids_at (snd (ut_expectDeletions (eops, uops) now k ks t)) k = Some (js_add_all ks [])"
  using call_at [OF assms(1), of "ExpectCreations now k n"] call_at [OF assms(1), of "ExpectDeletions now k ks"] assms(2)
  by simp_all

lemma manage_creates:
  assumes "control_makes control made deleted" "tok t" "metaNamespaceKeyFunc (Object rs) = (k, None)" "k \<noteq> []"
    and "int (length activePods) < size_of rs"
  shows "\<exists>err t' w' e. manageReplicas control (eops, uops) burst now related activePods rs (t, w) = (err, t', w') \<and>
    made w \<le> made w' \<and> made w' \<le> made w + min (nat (size_of rs - int (length activePods))) burst \<and>
    deleted w' = deleted w \<and> exp_at t' k = Some e \<and> ex_add e = int (made w' - made w) \<and> ex_del e = 0"
proof -
  define n where "n = min (nat (- (int (length activePods) - size_of rs))) burst"
  define t1 where "t1 = snd (ut_expectCreations (eops, uops) now k (int n) t)"
  note t1 = tok_sets(1,2) [OF assms(2,4), of now "int n", folded t1_def]
  have "counts (create_one control rs) made" using control_create [OF assms(1)] by (simp add: counts_def)
  from slow_start_counts [OF this, of n w] obtain m err w' where
    b: "slowStartBatch n 1 (create_one control rs) w = ((m, err), w')" "made w' = made w + m" "m \<le> n" by blast
  have "deleted w' = deleted w"
    using batch_deleted [OF assms(1), of rs n "min n 1" 0 w] b(1) by (simp add: slowStartBatch_def)
  moreover have "manageReplicas control (eops, uops) burst now related activePods rs (t, w) =
      (err, (ut_creationObserved (eops, uops) k ^^ (n - m)) t1, w')"
    using b(1) assms(3,5) by (simp add: manageReplicas_def Let_def t1_def n_def)
  moreover note creations_observed [OF t1, of "n - m"]
  ultimately show ?thesis using b(2,3) by (fastforce simp: n_def)
qed

lemma manage_deletes:
  assumes "control_makes control made deleted" "tok t" "metaNamespaceKeyFunc (Object rs) = (k, None)" "k \<noteq> []"
    and "size_of rs < int (length activePods)"
    and "\<forall>p \<in> set activePods. name_of p \<noteq> []" "distinct (map podKey activePods)"
  shows "\<exists>err t' w' e. manageReplicas control (eops, uops) burst now related activePods rs (t, w) = (err, t', w') \<and>
    made w' = made w \<and> deleted w \<le> deleted w' \<and>
    deleted w' \<le> deleted w + min (nat (int (length activePods) - size_of rs)) burst \<and>
    exp_at t' k = Some e \<and> ex_add e = 0 \<and> ex_del e = int (deleted w' - deleted w)"
proof -
  define n where "n = min (nat (int (length activePods) - size_of rs)) burst"
  define ps where "ps = snd (getPodsToDelete now activePods related n)"
  define t1 where "t1 = snd (ut_expectDeletions (eops, uops) now k (getPodKeys ps) t)"
  have ps: "mset ps \<subseteq># mset activePods" "length ps \<le> n" unfolding ps_def by (rule pods_to_delete_mset)+
  then have sub: "set ps \<subseteq> set activePods" by (metis mset_subset_eqD set_mset_mset subsetI)
  have "mset (map podKey ps) \<subseteq># mset (map podKey activePods)" using ps(1) by (simp add: image_mset_subseteq_mono)
  then have d: "distinct (map podKey ps)"
    using assms(7) by (metis distinct_append mset_append mset_eq_imp_distinct_iff mset_subset_eq_exists_conv ex_mset)
  then have "length (js_add_all (getPodKeys ps) []) = length ps"
    by (metis distinct_card distinct_js_add_all distinct.simps(1) getPodKeys_def length_map list.set(1) set_js_add_all sup_bot_right)
  with tok_sets(3-5) [OF assms(2,4), of now "getPodKeys ps", folded t1_def]
  have t1: "tok t1" "exp_at t1 k = Some \<lparr>ex_add = 0, ex_del = int (length ps), ex_key = k, ex_timestamp = now\<rparr>"
      "uids_at t1 k = Some (js_add_all (getPodKeys ps) [])" by simp_all
  have "\<forall>p \<in> set ps. name_of p \<noteq> [] \<and> podKey p \<in> set (js_add_all (getPodKeys ps) [])"
    using sub assms(6) by (auto simp: getPodKeys_def)
  from delete_all_counts [OF assms(1) t1 this d, of rs w] obtain es t' w' e where
    del: "delete_all control (eops, uops) k rs ps (t1, w) = (es, t', w')" "made w' = made w" "deleted w \<le> deleted w'"
      "deleted w' \<le> deleted w + length ps" "exp_at t' k = Some e" "ex_add e = 0" "ex_del e = int (deleted w' - deleted w)"
    by auto
  have "manageReplicas control (eops, uops) burst now related activePods rs (t, w) = (first_error es, t', w')"
    using del(1) assms(3,5) by (simp add: manageReplicas_def Let_def t1_def ps_def n_def)
  then show ?thesis using del ps(2) by (fastforce simp: n_def)
qed

end

text \<open>A counter that no call takes back is not taken back by a round.\<close>

lemma batch_mono:
  fixes c :: "'s \<Rightarrow> nat"
  assumes "\<And>w. c w \<le> c (snd (fn w))"
  shows "c w \<le> c (snd (batch_loop fn remaining batchSize successes w))"
  using assms
proof (induction fn remaining batchSize successes w rule: batch_loop.induct)
  case (1 fn remaining batchSize successes w)
  have run: "c w \<le> c (snd (run_batch fn n w))" for n w
    by (induction n arbitrary: w) (auto simp: case_prod_beta intro: order_trans [OF "1.prems"])
  show ?case
    using "1.IH" [OF _ _ _ _ "1.prems"] run [of w batchSize]
    by (subst batch_loop.simps) (force simp: Let_def split: prod.split option.split intro: order_trans)
qed

lemma delete_all_mono:
  assumes "\<And>ns name rs w. c w \<le> (c (snd (pd_deletePod control ns name rs w)) :: nat)"
  shows "c w \<le> c (snd (snd (delete_all control ops key rs ps (t, w))))"
proof (induction ps arbitrary: t w)
  case (Cons p ps)
  obtain e t1 w1 where one: "delete_one control ops key rs p (t, w) = (e, t1, w1)" by (metis prod_cases3)
  then have "c w \<le> c w1"
    using assms [of w "nvl (chain (ao_metadata rs) om_namespace) ''default''" "name_of p" rs]
    by (auto simp: delete_one_def split: prod.splits option.splits if_splits)
  also have "\<dots> \<le> c (snd (snd (delete_all control ops key rs ps (t1, w1))))" by (rule Cons.IH)
  finally show ?case by (simp add: one case_prod_beta)
qed simp

lemma manage_mono:
  assumes "\<And>rs w. c w \<le> (c (snd (create_one control rs w)) :: nat)"
    and "\<And>ns name rs w. c w \<le> c (snd (pd_deletePod control ns name rs w))"
  shows "c (snd tw) \<le> c (snd (snd (manageReplicas control ops burst now related activePods rs tw)))"
  by (simp add: manageReplicas_def slowStartBatch_def Let_def case_prod_beta batch_mono [where c = c, OF assms(1)]
      delete_all_mono [where c = c, OF assms(2)] split: option.split)

section \<open>Properties\<close>

text \<open>
  A batch that starts slowly makes at most the calls asked for. Without an error it makes them all and
  counts them all; after a failure no further batch starts, so of at most \<open>2 m + 1\<close> calls \<open>m\<close> were
  successful, and the count returned is exactly the number of calls that succeeded.
\<close>

theorem slow_start:
  assumes "counts fn made" and "ticks fn calls"
  shows "\<exists>m err s'. slowStartBatch n 1 fn s = ((m, err), s') \<and> made s' = made s + m \<and> m \<le> n \<and> (err = None \<longleftrightarrow> m = n) \<and>
    calls s + m \<le> calls s' \<and> calls s' \<le> calls s + n \<and> (err \<noteq> None \<longrightarrow> calls s' \<le> calls s + 2 * m + 1)"
  using slow_start_counts [OF assms(1), of n s] assms(2) by blast

text \<open>A server that takes five pods and refuses the next.\<close>

definition five_pods :: "nat \<times> nat \<Rightarrow> api_error option \<times> nat \<times> nat" where
  "five_pods s = (if snd s < 5 then (None, Suc (fst s), Suc (snd s)) else (Some (plain_error ''full''), Suc (fst s), snd s))"

lemma slow_start_witness: "\<exists>m err s'. slowStartBatch 9 1 five_pods (0, 0) = ((m, err), s') \<and> snd s' = m \<and> m \<le> 9 \<and> fst s' \<le> 9"
proof -
  have "counts five_pods snd" "ticks five_pods fst" by (simp_all add: counts_def ticks_def five_pods_def)
  from slow_start [OF this, of 9 "(0, 0)"] show ?thesis by auto
qed

text \<open>
  C21. When there are too many pods, the ones deleted come before every pod that stays in the order:
  unassigned before assigned, then pending, unknown, running, then not ready before ready, then the lower
  deletion cost, then the node with more related pods. Nothing is deleted that was not in the list, and
  the times compared last, which are not transitive, cannot disturb this.
\<close>

theorem pods_deleted_first:
  assumes "getPodsToDelete now pods related diff = (kept_order, chosen)" and "p \<in> set chosen"
    and "q \<in> set (drop diff kept_order)"
  shows "mset kept_order = mset pods \<and> chosen = take diff kept_order \<and>
    deletion_rank (p, nvl (jm_get (pods_on_node related) (nodeName_of p)) 0)
      \<le> deletion_rank (q, nvl (jm_get (pods_on_node related) (nodeName_of q)) 0)"
proof -
  let ?lt = "ranked_less (Some now)" and ?xs = "ranked_pods pods related"
  have lt: "diff < length pods" using assms by (auto simp: getPodsToDelete_def Let_def split: if_splits)
  then have o: "kept_order = map fst (swap_sort ?lt ?xs)" "chosen = take diff kept_order"
    using assms(1) by (auto simp: getPodsToDelete_def Let_def)
  have "mset (swap_sort ?lt ?xs) = mset ?xs" by simp
  then have set: "set (swap_sort ?lt ?xs) = set ?xs" by (rule mset_eq_setD)
  have rank: "x \<in> set (swap_sort ?lt ?xs) \<Longrightarrow> x = (fst x, nvl (jm_get (pods_on_node related) (nodeName_of (fst x))) 0)" for x
    unfolding set by (auto simp: ranked_pods_def Let_def)
  have "sorted_wrt (\<lambda>x y. deletion_rank x \<le> deletion_rank y) (swap_sort ?lt ?xs)"
    by (rule swap_sort_sorted) (fact ranked_less_rank)+
  then have sorted: "x \<in> set (take diff (swap_sort ?lt ?xs)) \<Longrightarrow> y \<in> set (drop diff (swap_sort ?lt ?xs)) \<Longrightarrow>
      deletion_rank x \<le> deletion_rank y" for x y
    by (metis append_take_drop_id sorted_wrt_append)
  obtain x where x: "x \<in> set (take diff (swap_sort ?lt ?xs))" "p = fst x" using assms(2) o by (auto simp: take_map)
  obtain y where y: "y \<in> set (drop diff (swap_sort ?lt ?xs))" "q = fst y" using assms(3) o by (auto simp: drop_map)
  have "mset kept_order = mset pods" unfolding o(1) by (rule mset_ranked)
  then show ?thesis
    using sorted [OF x(1) y(1)] rank [of x] rank [of y] x y o(2) by (metis in_set_dropD in_set_takeD)
qed

text \<open>Two pods, one on a node and running, one waiting for a node.\<close>

definition pod_on :: "string \<Rightarrow> string \<Rightarrow> string \<Rightarrow> pod" where
  "pod_on name node phase =
     \<lparr>ao_metadata = Some (empty_meta\<lparr>om_name := Some name\<rparr>),
      pod_specification = Some \<lparr>ps_nodeName = Some node, ps_restartPolicy = None, ps_containers = [], ps_initContainers = None\<rparr>,
      pod_state = Some (empty_pod_status\<lparr>pt_phase := Some phase\<rparr>)\<rparr>"

lemma pods_deleted_first_witness:
  "deletion_rank (pod_on ''b'' [] ''Pending'', 0) \<le> deletion_rank (pod_on ''a'' ''node'' ''Running'', 0)"
proof -
  let ?a = "pod_on ''a'' ''node'' ''Running''" and ?b = "pod_on ''b'' [] ''Pending''"
  have "getPodsToDelete 5 [?a, ?b] [] 1 = ([?b, ?a], [?b])"
    by (simp add: getPodsToDelete_def ranked_pods_def pods_on_node_def swap_sort_def ranked_less_def Let_def
        nodeName_of_def pod_on_def)
  from pods_deleted_first [OF this, of ?b ?a] show ?thesis by (simp add: pods_on_node_def)
qed

text \<open>
  C19. One round of \<open>manageReplicas\<close>, from any state of the expectations. When the replica set has as many
  pods as it asks for, nothing is done. Otherwise the round creates at most the pods that are missing and
  deletes at most the surplus, neither more than the burst, and it leaves the controller expecting exactly
  the deletions that the API server accepted, and the creations that it accepted or refused because the
  namespace is terminating, which the code counts as made; all other failures are taken out of the
  expectations again. The replica set has a key, and the pods have names and keys of their own.
\<close>

theorem manage_replicas:
  assumes "control_counts control created terminating deleted"
    and "metaNamespaceKeyFunc (Object rs) = (k, None)" "k \<noteq> []"
    and "\<forall>p \<in> set activePods. name_of p \<noteq> []" "distinct (map podKey activePods)"
    and "manageReplicas control tracker_stores burst now related activePods rs (tracker_run earlier, w) = (err, t', w')"
  shows "if int (length activePods) = size_of rs then err = None \<and> t' = tracker_run earlier \<and> w' = w
    else created w \<le> created w' \<and> terminating w \<le> terminating w' \<and> deleted w \<le> deleted w' \<and>
      (created w' - created w) + (terminating w' - terminating w) \<le> min (nat (size_of rs - int (length activePods))) burst \<and>
      deleted w' - deleted w \<le> min (nat (int (length activePods) - size_of rs)) burst \<and>
      (\<exists>e. getExpectations (fst tracker_stores) k (ut_expectations t') = (Some e, True, None) \<and>
        ex_add e = int (created w' - created w) + int (terminating w' - terminating w) \<and>
        ex_del e = int (deleted w' - deleted w))"
proof -
  have ok: "stores.tok (tracker_run earlier)"
    using stores.calls_spec [OF new_tracker_ok] unfolding tracker_run_def tracker_stores_def by blast
  have get: "getExpectations (fst tracker_stores) k (ut_expectations t') = (Some e, True, None)" if "stores.exp_at t' k = Some e" for e
    using that by (simp add: stores.exp_at_def getExpectations_def cache_getByKey_def tracker_stores_def ts_ops_def ts_get_def)
  note D = control_countsD [OF assms(1)]
  have mono: "created w \<le> created w'" "terminating w \<le> terminating w'"
    using manage_mono [where c = created and tw = "(tracker_run earlier, w)", OF D(2)]
      manage_mono [where c = terminating and tw = "(tracker_run earlier, w)", OF D(3)] D(4,5) assms(6)
    by (metis order_refl snd_conv)+
  consider (right) "int (length activePods) = size_of rs" | (few) "int (length activePods) < size_of rs"
    | (many) "size_of rs < int (length activePods)" by linarith
  then show ?thesis
  proof cases
    case right
    then show ?thesis using assms(2,6) by (simp add: manageReplicas_def Let_def)
  next
    case few
    with stores.manage_creates [OF D(1) ok assms(2,3) few, of "\<lambda>_. None" "\<lambda>_. None" burst now related w] assms(6) mono
    show ?thesis unfolding tracker_stores_def [symmetric] using get by fastforce
  next
    case many
    with stores.manage_deletes [OF D(1) ok assms(2,3) many assms(4,5), of "\<lambda>_. None" "\<lambda>_. None" burst now related w] assms(6) mono
    show ?thesis unfolding tracker_stores_def [symmetric] using get by fastforce
  qed
qed

text \<open>
  A server that takes three pods, then refuses one because the namespace is terminating, and all others
  for another reason.
\<close>

definition limited_control :: "(nat \<times> nat \<times> nat) pod_control" where
  "limited_control = \<lparr>pd_createPods = \<lambda>ns template rs ref (c, n, d).
       if c < 3 then (None, Suc c, n, d)
       else if n = 0 then (Some (ApiError ''Forbidden'' None ''gone'' [''NamespaceTerminating'']), c, 1, d)
       else (Some (plain_error ''full''), c, n, d),
     pd_deletePod = \<lambda>ns name rs (c, n, d). (None, c, n, Suc d)\<rparr>"

definition eight_replicas :: replica_set where
  "eight_replicas = \<lparr>ao_metadata = Some (empty_meta\<lparr>om_name := Some ''rs'', om_namespace := Some ''default''\<rparr>),
     rset_spec = Some \<lparr>rp_minReadySeconds = None, rp_replicas = Some 8, rp_selector = empty_selector, rp_template = None\<rparr>,
     rset_status = None\<rparr>"

lemma manage_replicas_witness:
  "\<exists>err t' c n d e. manageReplicas limited_control tracker_stores 500 0 [] [] eight_replicas (tracker_run [], 0, 0, 0) = (err, t', c, n, d) \<and>
    c + n \<le> 8 \<and> d = 0 \<and> getExpectations (fst tracker_stores) ''default/rs'' (ut_expectations t') = (Some e, True, None) \<and>
    ex_add e = int c + int n"
proof -
  have counts: "control_counts limited_control fst (fst \<circ> snd) (snd \<circ> snd)"
    by (auto simp: control_counts_def limited_control_def hasStatusCause_def plain_error_def split: if_splits)
  have key: "metaNamespaceKeyFunc (Object eight_replicas) = (''default/rs'', None)"
    by (simp add: eight_replicas_def objectToName_def objectName_string_def metaObjectToName_def)
  have size: "size_of eight_replicas = 8" by (simp add: eight_replicas_def size_of_def)
  obtain err t' w' where run: "manageReplicas limited_control tracker_stores 500 0 [] [] eight_replicas (tracker_run [], 0, 0, 0) = (err, t', w')"
    by (metis prod_cases3)
  from manage_replicas [OF counts key _ _ _ run] show ?thesis
    using run size by (cases w') fastforce
qed

text \<open>A server that takes three pods.\<close>

definition counting_control :: "(nat \<times> nat) pod_control" where
  "counting_control = \<lparr>pd_createPods = \<lambda>ns template rs ref w. if fst w < 3 then (None, Suc (fst w), snd w) else (Some (plain_error ''full''), w),
     pd_deletePod = \<lambda>ns name rs w. (None, fst w, Suc (snd w))\<rparr>"

lemma control_other:
  "sy_status (env\<lparr>sy_control := c\<rparr>) = sy_status env" "sy_ensureReady (env\<lparr>sy_control := c\<rparr>) = sy_ensureReady env"
  "sy_clear (env\<lparr>sy_control := c\<rparr>) = sy_clear env" "sy_wroteAt (env\<lparr>sy_control := c\<rparr>) = sy_wroteAt env"
  "sy_get (env\<lparr>sy_control := c\<rparr>) = sy_get env" "sy_podsByOwner (env\<lparr>sy_control := c\<rparr>) = sy_podsByOwner env"
  "sy_claimPods (env\<lparr>sy_control := c\<rparr>) = sy_claimPods env" "sy_relatedPods (env\<lparr>sy_control := c\<rparr>) = sy_relatedPods env"
  "sy_addAfter (env\<lparr>sy_control := c\<rparr>) = sy_addAfter env" "sy_now (env\<lparr>sy_control := c\<rparr>) = sy_now env"
  by simp_all

lemma sync_claimed_waits:
  "\<not> (needsSync \<and> deletion_of rs = None) \<Longrightarrow>
    sync_claimed (env\<lparr>sy_control := control\<rparr>) ops burst feature key ns name rs needsSync activePods terminatingPods tw =
      sync_claimed env ops burst feature key ns name rs needsSync activePods terminatingPods tw"
  by (simp only: sync_claimed_def if_False control_other)

text \<open>
  C22. As long as the expectations of a replica set are not met, a sync neither creates nor deletes pods: it
  does exactly the same whatever the operations that create and delete pods would do.
\<close>

theorem sync_waits:
  assumes "splitMetaNamespaceKey key = (ns, name, None)"
    and "\<not> ut_satisfied ops (sy_now env (snd (sy_ensureReady env ns name (snd tw)))) key (fst tw)"
  shows "syncReplicaSet lc (env\<lparr>sy_control := control\<rparr>) ops burst feature key tw = syncReplicaSet lc env ops burst feature key tw"
proof -
  obtain r w where e: "sy_ensureReady env ns name (snd tw) = (r, w)" by (cases "sy_ensureReady env ns name (snd tw)")
  with assms(2) have unmet: "ut_satisfied ops (sy_now env w) key (fst tw) = False" by simp
  show ?thesis
    unfolding syncReplicaSet_def assms(1) Let_def control_other e prod.case unmet
    by (simp only: sync_claimed_waits simp_thms)
qed

lemma sync_waits_witness:
  "\<exists>env :: (nat \<times> nat) sync_env. \<forall>control. syncReplicaSet (\<lambda>s t. 0) (env\<lparr>sy_control := control\<rparr>) tracker_stores 500 True ''default/rs''
      (tracker_run [ExpectCreations 0 ''default/rs'' 3], 0, 0) =
    syncReplicaSet (\<lambda>s t. 0) env tracker_stores 500 True ''default/rs'' (tracker_run [ExpectCreations 0 ''default/rs'' 3], 0, 0)"
proof -
  let ?env = "\<lparr>sy_control = counting_control, sy_status = \<lparr>sa_replaceStatus = \<lambda>ns name rs w. (Inr rs, w), sa_read = \<lambda>ns name w. (Inr eight_replicas, w)\<rparr>,
    sy_ensureReady = \<lambda>ns name w. (None, w), sy_clear = \<lambda>ns name uid w. w, sy_wroteAt = \<lambda>ns name uid rv w. w,
    sy_get = \<lambda>ns name w. Inr (Some eight_replicas), sy_podsByOwner = \<lambda>rs w. Inr [], sy_claimPods = \<lambda>rs s pods w. (Inr pods, w),
    sy_relatedPods = \<lambda>rs w. [], sy_addAfter = \<lambda>key ms w. w, sy_now = \<lambda>w. 5\<rparr> :: (nat \<times> nat) sync_env"
  have "splitMetaNamespaceKey ''default/rs'' = (''default'', ''rs'', None)"
    by (simp add: splitMetaNamespaceKey_def)
  moreover have "\<not> ut_satisfied tracker_stores 5 ''default/rs'' (tracker_run [ExpectCreations 0 ''default/rs'' 3])"
    by (simp add: tracker_stores_def tracker_run_def) code_simp
  ultimately show ?thesis
    using sync_waits [of "''default/rs''" "''default''" "''rs''" tracker_stores ?env "(tracker_run [ExpectCreations 0 ''default/rs'' 3], 0, 0)"]
    by (intro exI [of _ ?env]) simp
qed

end
