(* ===== verification/DeploymentUtil.thy ===== *)
theory DeploymentUtil
  imports AppsTypes
begin

text \<open>
  The arithmetic of deployments: \<open>src/controller/deployment/util/deployment-util.ts\<close>, the scaled values
  of \<open>apimachinery/pkg/util/intstr/intstr.ts\<close> and the orders and filters of replica sets of
  \<open>controller-utils.ts\<close>. Numbers are exact: JavaScript's doubles agree as long as the products of two
  replica counts stay below \<open>2^53\<close>. \<open>localeCompare\<close> is the parameter \<open>lc\<close>. An in-place change of an
  object is a function to the changed object.
\<close>

type_synonym locale_compare = "string \<Rightarrow> string \<Rightarrow> int"

section \<open>Values that are a number or a percentage\<close>

definition getIntOrPercentValueSafely :: "int_or_string \<Rightarrow> js_error + int \<times> bool" where
  "getIntOrPercentValueSafely v =
     (case v of
        IntVal i \<Rightarrow> Inr (i, False)
      | StrVal s \<Rightarrow>
          if s = [] \<or> last s \<noteq> CHR 0x25 then Inl (PlainError ''invalid type: string is not a percentage'')
          else if \<not> is_decimal (butlast s) then Inl (PlainError (''invalid value '' @ [CHR 0x22] @ s @ [CHR 0x22]))
          else Inr (decimal_val (butlast s), True))"

definition ceil_div :: "int \<Rightarrow> int \<Rightarrow> int" where
  "ceil_div a b = - ((- a) div b)"

definition getScaledValueFromIntOrPercent :: "int_or_string option \<Rightarrow> int \<Rightarrow> bool \<Rightarrow> js_error + int" where
  "getScaledValueFromIntOrPercent intOrPercent whole roundUp =
     (case intOrPercent of
        None \<Rightarrow> Inl (PlainError ''nil value for IntOrString'')
      | Some v \<Rightarrow>
          (case getIntOrPercentValueSafely v of
             Inl err \<Rightarrow> Inl (PlainError (''invalid value for IntOrString: '' @ error_string err))
           | Inr (i, isPercent) \<Rightarrow>
               if isPercent then Inr (if roundUp then ceil_div (i * whole) 100 else (i * whole) div 100)
               else Inr i))"

section \<open>Fenceposts\<close>

definition resolveFenceposts :: "int_or_string option \<Rightarrow> int_or_string option \<Rightarrow> int \<Rightarrow> js_error + int \<times> int" where
  "resolveFenceposts maxSurgeValue maxUnavailableValue desired =
     (case getScaledValueFromIntOrPercent (Some (nvl maxSurgeValue (IntVal 0))) desired True of
        Inl err \<Rightarrow> Inl err
      | Inr surge \<Rightarrow>
          (case getScaledValueFromIntOrPercent (Some (nvl maxUnavailableValue (IntVal 0))) desired False of
             Inl err \<Rightarrow> Inl err
           | Inr unavailable \<Rightarrow> Inr (surge, if surge = 0 \<and> unavailable = 0 then 1 else unavailable)))"

definition strategy_of :: "deployment \<Rightarrow> deployment_strategy option" where
  "strategy_of d = chain (dep_spec d) dp_strategy"

definition rollingUpdate_of :: "deployment \<Rightarrow> rolling_update option" where
  "rollingUpdate_of d = chain (strategy_of d) ds_rollingUpdate"

definition isRollingUpdate :: "deployment \<Rightarrow> bool" where
  "isRollingUpdate d \<longleftrightarrow> chain (strategy_of d) ds_type = Some ''RollingUpdate''"

text \<open>An error of the fenceposts leaves both values 0.\<close>

definition fenceposts_of :: "deployment \<Rightarrow> int \<times> int" where
  "fenceposts_of d =
     (case resolveFenceposts (chain (rollingUpdate_of d) ru_maxSurge) (chain (rollingUpdate_of d) ru_maxUnavailable) (desired_of d) of
        Inl _ \<Rightarrow> (0, 0)
      | Inr p \<Rightarrow> p)"

definition maxUnavailable :: "deployment \<Rightarrow> int" where
  "maxUnavailable d =
     (if \<not> isRollingUpdate d \<or> desired_of d = 0 then 0
      else let unavailable = snd (fenceposts_of d) in
        if unavailable > desired_of d then desired_of d else unavailable)"

definition minAvailable :: "deployment \<Rightarrow> int" where
  "minAvailable d = (if \<not> isRollingUpdate d then 0 else desired_of d - maxUnavailable d)"

definition maxSurge :: "deployment \<Rightarrow> int" where
  "maxSurge d = (if \<not> isRollingUpdate d then 0 else fst (fenceposts_of d))"

section \<open>Replica sets: filters, orders and sums\<close>

definition filterActiveReplicaSets :: "replica_set list \<Rightarrow> replica_set list" where
  "filterActiveReplicaSets rss = filter (\<lambda>rs. nvl (chain (rset_spec rs) rp_replicas) 0 > 0) rss"

definition creationTimestampMs :: "'a api_object_scheme \<Rightarrow> int" where
  "creationTimestampMs obj = nvl (chain (ao_metadata obj) om_creationTimestamp) 0"

definition by_creation :: "locale_compare \<Rightarrow> replica_set \<Rightarrow> replica_set \<Rightarrow> int" where
  "by_creation lc left right =
     (if creationTimestampMs left \<noteq> creationTimestampMs right then creationTimestampMs left - creationTimestampMs right
      else lc (name_of left) (name_of right))"

definition getReplicaCount :: "replica_set list \<Rightarrow> int" where
  "getReplicaCount rss = fold (\<lambda>rs acc. acc + size_of rs) rss 0"

definition getActualReplicaCount :: "replica_set list \<Rightarrow> int" where
  "getActualReplicaCount rss = fold (\<lambda>rs acc. acc + nvl (chain (rset_status rs) rt_replicas) 0) rss 0"

definition getReadyReplicaCount :: "replica_set list \<Rightarrow> int" where
  "getReadyReplicaCount rss = fold (\<lambda>rs acc. acc + nvl (chain (rset_status rs) rt_readyReplicas) 0) rss 0"

definition getAvailableReplicaCount :: "replica_set list \<Rightarrow> int" where
  "getAvailableReplicaCount rss = fold (\<lambda>rs acc. acc + available_of rs) rss 0"

fun terminating_count :: "replica_set list \<Rightarrow> int \<Rightarrow> int option" where
  "terminating_count [] acc = Some acc"
| "terminating_count (rs # rss) acc =
     (if nvl (chain (rset_status rs) rt_observedGeneration) 0 = 0 \<and> chain (rset_status rs) rt_terminatingReplicas = None
      then terminating_count rss acc
      else case chain (rset_status rs) rt_terminatingReplicas of
        None \<Rightarrow> None
      | Some n \<Rightarrow> terminating_count rss (acc + n))"

definition getTerminatingReplicaCount :: "replica_set list \<Rightarrow> int option" where
  "getTerminatingReplicaCount rss = terminating_count rss 0"

section \<open>Revisions and annotations\<close>

definition revisionAnnotation :: string where
  "revisionAnnotation = ''deployment.kubernetes.io/revision''"

definition desiredReplicasAnnotation :: string where
  "desiredReplicasAnnotation = ''deployment.kubernetes.io/desired-replicas''"

definition maxReplicasAnnotation :: string where
  "maxReplicasAnnotation = ''deployment.kubernetes.io/max-replicas''"

definition revisionHistoryAnnotation :: string where
  "revisionHistoryAnnotation = ''deployment.kubernetes.io/revision-history''"

definition maxInt32 :: int where
  "maxInt32 = 2147483647"

text \<open>\<open>revision\<close>; the pair holds the error, if any.\<close>

definition revision_of :: "replica_set \<Rightarrow> int \<times> num_error option" where
  "revision_of rs =
     (case annotation rs revisionAnnotation of
        None \<Rightarrow> (0, None)
      | Some v \<Rightarrow> (case go_parse_int v 10 64 of (n, None) \<Rightarrow> (n, None) | (_, Some err) \<Rightarrow> (0, Some err)))"

definition maxRevision :: "replica_set list \<Rightarrow> int" where
  "maxRevision rss = fold (\<lambda>rs m. case revision_of rs of (v, None) \<Rightarrow> if v > m then v else m | _ \<Rightarrow> m) rss 0"

definition by_revision :: "locale_compare \<Rightarrow> replica_set \<Rightarrow> replica_set \<Rightarrow> int" where
  "by_revision lc left right =
     (let (l, lerr) = revision_of left; (r, rerr) = revision_of right in
      if lerr \<noteq> None \<or> rerr \<noteq> None \<or> l = r then by_creation lc left right else l - r)"

text \<open>Annotations are there once \<open>metadata.annotations ??= {}\<close> has run.\<close>

definition annotations_of :: "replica_set \<Rightarrow> label_set" where
  "annotations_of rs = nvl (chain (ao_metadata rs) om_annotations) []"

definition set_annotations :: "label_set \<Rightarrow> replica_set \<Rightarrow> replica_set" where
  "set_annotations m rs = rs\<lparr>ao_metadata := Some ((nvl (ao_metadata rs) empty_meta)\<lparr>om_annotations := Some m\<rparr>)\<rparr>"

definition skipCopyAnnotation :: "string \<Rightarrow> bool" where
  "skipCopyAnnotation key \<longleftrightarrow> key = ''kubectl.kubernetes.io/last-applied-configuration'' \<or> key = revisionAnnotation \<or>
     key = revisionHistoryAnnotation \<or> key = desiredReplicasAnnotation \<or> key = maxReplicasAnnotation \<or>
     key = ''deprecated.deployment.rollback.to''"

fun copy_annotations :: "(string \<times> string) list \<Rightarrow> label_set \<times> bool \<Rightarrow> label_set \<times> bool" where
  "copy_annotations [] (m, changed) = (m, changed)"
| "copy_annotations ((k, v) # rest) (m, changed) =
     (if skipCopyAnnotation k \<or> jm_get m k = Some v then copy_annotations rest (m, changed)
      else copy_annotations rest (jm_set k v m, True))"

definition copyDeploymentAnnotationsToReplicaSet :: "deployment \<Rightarrow> replica_set \<Rightarrow> bool \<times> replica_set" where
  "copyDeploymentAnnotationsToReplicaSet d rs =
     (let (m, changed) = copy_annotations (nvl (chain (ao_metadata d) om_annotations) []) (annotations_of rs, False)
      in (changed, set_annotations m rs))"

definition setDeploymentRevision :: "deployment \<Rightarrow> string \<Rightarrow> bool \<times> deployment" where
  "setDeploymentRevision d revn =
     (let meta = nvl (ao_metadata d) empty_meta; m = nvl (om_annotations meta) [] in
      if jm_get m revisionAnnotation \<noteq> Some revn
      then (True, d\<lparr>ao_metadata := Some (meta\<lparr>om_annotations := Some (jm_set revisionAnnotation revn m)\<rparr>)\<rparr>)
      else (False, d\<lparr>ao_metadata := Some (meta\<lparr>om_annotations := Some m\<rparr>)\<rparr>))"

definition set_annotation :: "string \<Rightarrow> string \<Rightarrow> label_set \<Rightarrow> bool \<times> label_set" where
  "set_annotation k v m = (if jm_get m k \<noteq> Some v then (True, jm_set k v m) else (False, m))"

definition setReplicasAnnotations :: "replica_set \<Rightarrow> int \<Rightarrow> int \<Rightarrow> bool \<times> replica_set" where
  "setReplicasAnnotations rs desiredReplicas maxReplicas =
     (let (u1, m) = set_annotation desiredReplicasAnnotation (show_int desiredReplicas) (annotations_of rs);
          (u2, m) = set_annotation maxReplicasAnnotation (show_int maxReplicas) m
      in (u1 \<or> u2, set_annotations m rs))"

definition replicasAnnotationsNeedUpdate :: "replica_set \<Rightarrow> int \<Rightarrow> int \<Rightarrow> bool" where
  "replicasAnnotationsNeedUpdate rs desiredReplicas maxReplicas \<longleftrightarrow>
     (case chain (ao_metadata rs) om_annotations of
        None \<Rightarrow> True
      | Some m \<Rightarrow> jm_get m desiredReplicasAnnotation \<noteq> Some (show_int desiredReplicas) \<or>
          jm_get m maxReplicasAnnotation \<noteq> Some (show_int maxReplicas))"

text \<open>The loop that makes room in the revision history.\<close>

fun drop_revisions :: "int \<Rightarrow> string list \<Rightarrow> int \<Rightarrow> string list \<times> int" where
  "drop_revisions limit [] totalLen = ([], totalLen)"
| "drop_revisions limit (r # rs) totalLen =
     (if totalLen > limit then drop_revisions limit rs (totalLen - int (length r) - 1) else (r # rs, totalLen))"

definition history_annotation :: "string \<Rightarrow> string \<Rightarrow> int \<Rightarrow> label_set \<Rightarrow> label_set" where
  "history_annotation historyValue oldRevision limit m =
     (let oldRevisions = js_split CHR '','' historyValue in
      if length (hd oldRevisions) = 0 then jm_set revisionHistoryAnnotation oldRevision m
      else let (kept, totalLen) = drop_revisions limit oldRevisions (int (length historyValue) + int (length oldRevision) + 1)
        in if totalLen \<le> limit then jm_set revisionHistoryAnnotation (js_join '','' (kept @ [oldRevision])) m else m)"

definition setNewReplicaSetAnnotations :: "deployment \<Rightarrow> replica_set \<Rightarrow> string \<Rightarrow> bool \<Rightarrow> int \<Rightarrow> bool \<times> replica_set" where
  "setNewReplicaSetAnnotations d newRS newRevision present revHistoryLimitInChars =
     (let (changed, rs) = copyDeploymentAnnotationsToReplicaSet d newRS;
          m = annotations_of rs;
          oldRevision = nvl (jm_get m revisionAnnotation) [];
          (oldRevisionInt, oldRevisionErr) = go_parse_int oldRevision 10 64
      in if oldRevisionErr \<noteq> None \<and> oldRevision \<noteq> [] then (False, rs)
      else let oldRevisionInt = (if oldRevisionErr \<noteq> None then 0 else oldRevisionInt);
               (newRevisionInt, newRevisionErr) = go_parse_int newRevision 10 64
      in if newRevisionErr \<noteq> None then (False, rs)
      else let later = oldRevisionInt < newRevisionInt;
               m = (if later then jm_set revisionAnnotation newRevision m else m);
               m = (if oldRevision \<noteq> [] \<and> later
                    then history_annotation (nvl (jm_get m revisionHistoryAnnotation) []) oldRevision revHistoryLimitInChars m else m);
               rs = set_annotations m rs;
               (updated, rs) = (if \<not> present then setReplicasAnnotations rs (desired_of d) (desired_of d + maxSurge d) else (False, rs))
      in (changed \<or> later \<or> updated, rs))"

definition getNonNegativeInt32FromAnnotation :: "replica_set \<Rightarrow> string \<Rightarrow> int \<times> bool" where
  "getNonNegativeInt32FromAnnotation rs key =
     (case annotation rs key of
        None \<Rightarrow> (0, False)
      | Some v \<Rightarrow> (case go_parse_uint v 10 32 of (n, err) \<Rightarrow> if err \<noteq> None \<or> n > maxInt32 then (0, False) else (n, True)))"

definition getDesiredReplicasAnnotation :: "replica_set \<Rightarrow> int \<times> bool" where
  "getDesiredReplicasAnnotation rs = getNonNegativeInt32FromAnnotation rs desiredReplicasAnnotation"

definition getMaxReplicasAnnotation :: "replica_set \<Rightarrow> int \<times> bool" where
  "getMaxReplicasAnnotation rs = getNonNegativeInt32FromAnnotation rs maxReplicasAnnotation"


section \<open>Conditions\<close>

definition newDeploymentCondition :: "int \<Rightarrow> string \<Rightarrow> string \<Rightarrow> string \<Rightarrow> string \<Rightarrow> deployment_condition" where
  "newDeploymentCondition now type status reason message =
     \<lparr>dc_type = type, dc_status = status, dc_lastUpdateTime = Some (JsDate now), dc_lastTransitionTime = Some (JsDate now),
      dc_reason = Some reason, dc_message = Some message\<rparr>"

definition getDeploymentCondition :: "deployment_status option \<Rightarrow> string \<Rightarrow> deployment_condition option" where
  "getDeploymentCondition status condType = List.find (\<lambda>c. dc_type c = condType) (nvl (chain status dt_conditions) [])"

definition filterOutCondition :: "deployment_condition list \<Rightarrow> string \<Rightarrow> deployment_condition list" where
  "filterOutCondition conditions condType = filter (\<lambda>c. dc_type c \<noteq> condType) conditions"

definition setDeploymentCondition :: "deployment_condition \<Rightarrow> deployment_status \<Rightarrow> deployment_status" where
  "setDeploymentCondition condition status =
     (let current = getDeploymentCondition (Some status) (dc_type condition);
          same_status = (case current of Some c \<Rightarrow> dc_status c = dc_status condition | None \<Rightarrow> False) in
      if same_status \<and> dc_reason (the current) = dc_reason condition then status
      else let condition = (if same_status then condition\<lparr>dc_lastTransitionTime := dc_lastTransitionTime (the current)\<rparr> else condition)
        in status\<lparr>dt_conditions := Some (filterOutCondition (nvl (dt_conditions status) []) (dc_type condition) @ [condition])\<rparr>)"

definition removeDeploymentCondition :: "string \<Rightarrow> deployment_status \<Rightarrow> deployment_status" where
  "removeDeploymentCondition condType status =
     status\<lparr>dt_conditions := Some (filterOutCondition (nvl (dt_conditions status) []) condType)\<rparr>"

definition replicaSetToDeploymentCondition :: "replica_set_condition \<Rightarrow> deployment_condition" where
  "replicaSetToDeploymentCondition c =
     \<lparr>dc_type = rc_type c, dc_status = rc_status c, dc_lastUpdateTime = rc_lastTransitionTime c,
      dc_lastTransitionTime = rc_lastTransitionTime c, dc_reason = rc_reason c, dc_message = rc_message c\<rparr>"

section \<open>New and old replica sets\<close>

definition podTemplateHashLabel :: string where
  "podTemplateHashLabel = ''pod-template-hash''"

definition templateWithoutHash :: "json \<Rightarrow> json" where
  "templateWithoutHash t =
     (let meta = json_field ''metadata'' t; ls = json_field ''labels'' meta in
      case ls of
        JObj _ \<Rightarrow> set_json_field ''metadata'' (set_json_field ''labels'' (delete_json_field podTemplateHashLabel ls) meta) t
      | _ \<Rightarrow> t)"

definition equalIgnoreHash :: "json option \<Rightarrow> json option \<Rightarrow> bool" where
  "equalIgnoreHash t1 t2 = deepEqual no_options (templateWithoutHash (nvl t1 (JObj []))) (templateWithoutHash (nvl t2 (JObj [])))"

text \<open>The list is sorted in place: the first component is what the caller's list holds afterwards.\<close>

definition findNewReplicaSet :: "locale_compare \<Rightarrow> deployment \<Rightarrow> replica_set list \<Rightarrow> replica_set list \<times> replica_set option" where
  "findNewReplicaSet lc d rss =
     (let rss = js_sort (by_creation lc) rss in
      (rss, List.find (\<lambda>rs. equalIgnoreHash (chain (rset_spec rs) rp_template) (chain (dep_spec d) dp_template)) rss))"

definition findOldReplicaSets :: "locale_compare \<Rightarrow> deployment \<Rightarrow> replica_set list \<Rightarrow>
    replica_set list \<times> replica_set list \<times> replica_set list" where
  "findOldReplicaSets lc d rss =
     (let (rss, newRS) = findNewReplicaSet lc d rss;
          old = filter (\<lambda>rs. \<not> (case newRS of None \<Rightarrow> False
                                 | Some n \<Rightarrow> chain (ao_metadata rs) om_uid = chain (ao_metadata n) om_uid)) rss
      in (rss, filter (\<lambda>rs. size_of rs \<noteq> 0) old, old))"

definition findActiveOrLatest :: "locale_compare \<Rightarrow> replica_set option \<Rightarrow> replica_set list \<Rightarrow> replica_set option" where
  "findActiveOrLatest lc newRS oldRSs =
     (if newRS = None \<and> oldRSs = [] then None
      else let newest_first = List.rev (js_sort (by_creation lc) oldRSs) in
        case filterActiveReplicaSets (newest_first @ (case newRS of None \<Rightarrow> [] | Some rs \<Rightarrow> [rs])) of
          [] \<Rightarrow> (case newRS of Some rs \<Rightarrow> Some rs | None \<Rightarrow> Some (hd newest_first))
        | [rs] \<Rightarrow> Some rs
        | _ \<Rightarrow> None)"

section \<open>Proportional scaling\<close>

text \<open>\<open>Math.round(a / b)\<close>, which rounds a half up.\<close>

definition round_div :: "int \<Rightarrow> int \<Rightarrow> int" where
  "round_div a b = (2 * a + b) div (2 * b)"

definition getReplicaSetFraction :: "replica_set \<Rightarrow> deployment \<Rightarrow> int" where
  "getReplicaSetFraction rs d =
     (if desired_of d = 0 then - size_of rs
      else let (annotated, ok) = getMaxReplicasAnnotation rs;
               scale_from = (if \<not> ok \<or> annotated = 0 then nvl (chain (dep_status d) dt_replicas) 0 else annotated)
        in if scale_from = 0 then 0
           else round_div (size_of rs * (desired_of d + maxSurge d)) scale_from - size_of rs)"

definition getReplicaSetProportion :: "replica_set \<Rightarrow> deployment \<Rightarrow> int \<Rightarrow> int \<Rightarrow> int" where
  "getReplicaSetProportion rs d toAdd added =
     (if size_of rs = 0 \<or> toAdd = 0 \<or> toAdd = added then 0
      else if toAdd > 0 then min (getReplicaSetFraction rs d) (toAdd - added)
      else max (getReplicaSetFraction rs d) (toAdd - added))"

definition isSaturated :: "deployment \<Rightarrow> replica_set option \<Rightarrow> bool" where
  "isSaturated d rs =
     (case rs of
        None \<Rightarrow> False
      | Some r \<Rightarrow>
          (case annotation r desiredReplicasAnnotation of
             None \<Rightarrow> False
           | Some v \<Rightarrow>
               (case go_parse_int v 10 0 of
                  (_, Some _) \<Rightarrow> False
                | (n, None) \<Rightarrow> size_of r = desired_of d \<and> n = desired_of d \<and> available_of r = desired_of d)))"

definition newRSNewReplicas :: "deployment \<Rightarrow> replica_set list \<Rightarrow> replica_set \<Rightarrow> js_error + int" where
  "newRSNewReplicas d allRSs newRS =
     (if chain (strategy_of d) ds_type = Some ''RollingUpdate'' then
        (case getScaledValueFromIntOrPercent (Some (nvl (chain (rollingUpdate_of d) ru_maxSurge) (IntVal 0))) (desired_of d) True of
           Inl err \<Rightarrow> Inl err
         | Inr surge \<Rightarrow>
             let currentPodCount = getReplicaCount allRSs; maxTotalPods = desired_of d + surge in
             if currentPodCount \<ge> maxTotalPods then Inr (size_of newRS)
             else Inr (size_of newRS + min (maxTotalPods - currentPodCount) (desired_of d - size_of newRS)))
      else if chain (strategy_of d) ds_type = Some ''Recreate'' then Inr (desired_of d)
      else Inl (PlainError (''deployment type '' @ nvl (chain (strategy_of d) ds_type) ''undefined'' @ '' isn't supported'')))"

section \<open>Progress\<close>

definition deploymentComplete :: "deployment \<Rightarrow> deployment_status \<Rightarrow> bool" where
  "deploymentComplete d status \<longleftrightarrow>
     nvl (dt_updatedReplicas status) 0 = desired_of d \<and> nvl (dt_replicas status) 0 = desired_of d \<and>
     nvl (dt_availableReplicas status) 0 = desired_of d \<and>
     nvl (dt_observedGeneration status) 0 \<ge> nvl (chain (ao_metadata d) om_generation) 0"

definition deploymentProgressing :: "deployment \<Rightarrow> deployment_status \<Rightarrow> bool" where
  "deploymentProgressing d status \<longleftrightarrow>
     (let old = nvl (dep_status d) empty_status in
      nvl (dt_updatedReplicas status) 0 > nvl (dt_updatedReplicas old) 0 \<or>
      nvl (dt_replicas status) 0 - nvl (dt_updatedReplicas status) 0 < nvl (dt_replicas old) 0 - nvl (dt_updatedReplicas old) 0 \<or>
      nvl (dt_readyReplicas status) 0 > nvl (dt_readyReplicas old) 0 \<or>
      nvl (dt_availableReplicas status) 0 > nvl (dt_availableReplicas old) 0)"

definition hasRevisionHistoryLimit :: "deployment \<Rightarrow> bool" where
  "hasRevisionHistoryLimit d \<longleftrightarrow>
     (case chain (dep_spec d) dp_revisionHistoryLimit of None \<Rightarrow> False | Some n \<Rightarrow> n \<noteq> maxInt32)"

definition hasProgressDeadline :: "deployment \<Rightarrow> bool" where
  "hasProgressDeadline d \<longleftrightarrow>
     (case chain (dep_spec d) dp_progressDeadlineSeconds of None \<Rightarrow> False | Some n \<Rightarrow> n \<noteq> maxInt32)"

text \<open>
  \<open>now\<close> is the time of the clock in milliseconds. A time that is a text has no method \<open>getTime\<close>, so the call
  throws.
\<close>

definition get_time :: "js_time \<Rightarrow> js_error + int" where
  "get_time t = (case t of JsDate ms \<Rightarrow> Inr ms | JsText _ \<Rightarrow> Inl (PlainError ''getTime is not a function''))"

definition deploymentTimedOut :: "int \<Rightarrow> deployment \<Rightarrow> deployment_status \<Rightarrow> js_error + bool" where
  "deploymentTimedOut now d status =
     (if \<not> hasProgressDeadline d then Inr False
      else case getDeploymentCondition (Some status) ''Progressing'' of
        None \<Rightarrow> Inr False
      | Some c \<Rightarrow>
          if dc_reason c = Some ''NewReplicaSetAvailable'' then Inr False
          else if dc_reason c = Some ''ProgressDeadlineExceeded'' then Inr True
          else (case dc_lastUpdateTime c of
                  None \<Rightarrow> Inr False
                | Some t \<Rightarrow> map_sum id (\<lambda>from. from + nvl (chain (dep_spec d) dp_progressDeadlineSeconds) 0 * 1000 < now) (get_time t)))"

end
