(* ===== verification/DeploymentController.thy ===== *)
theory DeploymentController
  imports DeploymentUtil Pods ApiErrors
begin

text \<open>
  The deployment controller, \<open>controller/deployment/deployment-controller.ts\<close> and \<open>recreate.ts\<close>: scaling,
  rolling and recreating roll outs, status and cleanup. The API server is a record of operations on a
  world \<open>'w\<close>. The state of the controller holds its maps of replica sets and deployments (the indexer
  gets the same objects under the same keys), the deployment \<open>d\<close> under sync, which the code changes in
  place, and the events and requeue requests so far. \<open>rs.spec ??= ...\<close> on a shared replica set is not
  recorded: every later reading gives the same for a missing spec. Time is read from the world.
\<close>

section \<open>State and interfaces\<close>

record 'w deploy_env =
  de_replaceReplicaSet :: "string \<Rightarrow> string \<Rightarrow> replica_set \<Rightarrow> 'w \<Rightarrow> (api_error + replica_set) \<times> 'w"
  de_createReplicaSet :: "string \<Rightarrow> replica_set \<Rightarrow> 'w \<Rightarrow> (api_error + replica_set) \<times> 'w"
  de_deleteReplicaSet :: "string \<Rightarrow> string \<Rightarrow> 'w \<Rightarrow> api_error option \<times> 'w"
  de_replaceDeploymentStatus :: "string \<Rightarrow> string \<Rightarrow> deployment \<Rightarrow> 'w \<Rightarrow> api_error option \<times> 'w"
  de_getReplicaSet :: "string \<Rightarrow> string \<Rightarrow> 'w \<Rightarrow> api_error + replica_set"
  de_wait :: "nat \<Rightarrow> 'w \<Rightarrow> 'w"
  de_now :: "'w \<Rightarrow> int"
  de_lc :: locale_compare

datatype deploy_event = DeployEvent (dv_type: string) (dv_reason: string) (dv_message: string)
datatype requeue = RequeueRateLimited | RequeueAfter int

record 'w deploy_state =
  dx_d :: deployment
  dx_replicaSets :: "(string, replica_set) jmap"
  dx_deployments :: "(string, deployment) jmap"
  dx_events :: "deploy_event list"
  dx_requeues :: "requeue list"
  dx_world :: 'w

definition namespace_or :: "'a api_object_scheme \<Rightarrow> string \<Rightarrow> string" where
  "namespace_or obj ns = nvl (chain (ao_metadata obj) om_namespace) ns"

definition replicaSetKey :: "replica_set \<Rightarrow> string" where
  "replicaSetKey rs = namespace_or rs ''default'' @ ''/'' @ name_of rs"

definition deploymentKey :: "deployment \<Rightarrow> string option" where
  "deploymentKey d = (case metaNamespaceKeyFunc (Object d) of (k, None) \<Rightarrow> Some k | (_, Some _) \<Rightarrow> None)"

definition dx_event :: "string \<Rightarrow> string \<Rightarrow> string \<Rightarrow> 'w deploy_state \<Rightarrow> 'w deploy_state" where
  "dx_event type reason message s = s\<lparr>dx_events := dx_events s @ [DeployEvent type reason message]\<rparr>"

definition keep_replicaSet :: "replica_set \<Rightarrow> 'w deploy_state \<Rightarrow> 'w deploy_state" where
  "keep_replicaSet rs s = s\<lparr>dx_replicaSets := jm_set (replicaSetKey rs) rs (dx_replicaSets s)\<rparr>"

section \<open>Calls of the API\<close>

text \<open>A spec is there once \<open>rs.spec ??= { selector }\<close> has run.\<close>

definition with_spec :: "deployment \<Rightarrow> replica_set \<Rightarrow> replica_set" where
  "with_spec d rs = rs\<lparr>rset_spec := Some (nvl (rset_spec rs)
     \<lparr>rp_minReadySeconds = None, rp_replicas = None, rp_selector = nvl (chain (dep_spec d) dp_selector) empty_selector,
      rp_template = None\<rparr>)\<rparr>"

definition with_replicas :: "int \<Rightarrow> replica_set \<Rightarrow> replica_set" where
  "with_replicas n rs = rs\<lparr>rset_spec := map_option (rp_replicas_update (\<lambda>_. Some n)) (rset_spec rs)\<rparr>"

definition max_replicas :: "deployment \<Rightarrow> int" where
  "max_replicas d = desired_of d + maxSurge d"

definition scale_message :: "string \<Rightarrow> int \<Rightarrow> int \<Rightarrow> string" where
  "scale_message name oldScale newScale =
     ''Scaled '' @ (if oldScale < newScale then ''up'' else ''down'') @ '' replica set '' @ name @ '' from '' @
     show_int oldScale @ '' to '' @ show_int newScale"

text \<open>The result: whether it scaled, the replica set afterwards, the error.\<close>

definition scaleReplicaSet :: "'w deploy_env \<Rightarrow> replica_set \<Rightarrow> int \<Rightarrow> bool \<Rightarrow> 'w deploy_state \<Rightarrow>
    (bool \<times> replica_set option \<times> api_error option) \<times> 'w deploy_state" where
  "scaleReplicaSet env rs newScale forceUpdate s =
     (let d = dx_d s; name = name_of rs; ns = namespace_or rs (namespace_or d ''default'') in
      if name = [] then ((False, None, None), s)
      else
        let rs = with_spec d rs in
        if \<not> forceUpdate \<and> size_of rs = newScale then ((False, Some rs, None), s)
        else
          let sizeNeedsUpdate = (size_of rs \<noteq> newScale);
              annotationsNeedUpdate = replicasAnnotationsNeedUpdate rs (desired_of d) (max_replicas d) in
          if \<not> sizeNeedsUpdate \<and> \<not> annotationsNeedUpdate then ((False, Some rs, None), s)
          else
            let rsCopy = snd (setReplicasAnnotations (with_replicas newScale rs) (desired_of d) (max_replicas d)) in
            case de_replaceReplicaSet env name ns rsCopy (dx_world s) of
              (Inl err, w) \<Rightarrow> ((False, Some rs, Some err), s\<lparr>dx_world := w\<rparr>)
            | (Inr updated, w) \<Rightarrow>
                let s = keep_replicaSet updated (s\<lparr>dx_world := w\<rparr>) in
                if sizeNeedsUpdate
                then ((True, Some updated, None), dx_event ''Normal'' ''ScalingReplicaSet'' (scale_message name (size_of rs) newScale) s)
                else ((False, Some updated, None), s))"

definition updateReplicaSetObject :: "'w deploy_env \<Rightarrow> replica_set \<Rightarrow> 'w deploy_state \<Rightarrow>
    (api_error + replica_set option) \<times> 'w deploy_state" where
  "updateReplicaSetObject env rs s =
     (let name = name_of rs; ns = namespace_or rs (namespace_or (dx_d s) ''default'') in
      if name = [] then (Inr None, s)
      else case retryConflicts (\<lambda>k s. s\<lparr>dx_world := de_wait env k (dx_world s)\<rparr>)
              (\<lambda>s. case de_replaceReplicaSet env name ns rs (dx_world s) of
                 (Inl err, w) \<Rightarrow> (Inl err, s\<lparr>dx_world := w\<rparr>)
               | (Inr updated, w) \<Rightarrow> (Inr updated, keep_replicaSet updated (s\<lparr>dx_world := w\<rparr>))) s of
        (Inl err, s) \<Rightarrow> (Inl err, s)
      | (Inr updated, s) \<Rightarrow> (Inr (Some updated), s))"

definition createReplicaSet :: "'w deploy_env \<Rightarrow> replica_set \<Rightarrow> 'w deploy_state \<Rightarrow> (api_error + replica_set) \<times> 'w deploy_state" where
  "createReplicaSet env rs s =
     (case de_createReplicaSet env (namespace_or (dx_d s) ''default'') rs (dx_world s) of
        (Inl err, w) \<Rightarrow> (Inl err, s\<lparr>dx_world := w\<rparr>)
      | (Inr created, w) \<Rightarrow> (Inr created, keep_replicaSet created (s\<lparr>dx_world := w\<rparr>)))"

definition updateDeploymentStatus :: "'w deploy_env \<Rightarrow> 'w deploy_state \<Rightarrow> api_error option \<times> 'w deploy_state" where
  "updateDeploymentStatus env s =
     (let d = dx_d s; name = name_of d; ns = namespace_or d ''default'' in
      if name = [] then (None, s)
      else case retryConflicts (\<lambda>k s. s\<lparr>dx_world := de_wait env k (dx_world s)\<rparr>)
              (\<lambda>s. case de_replaceDeploymentStatus env name ns (dx_d s) (dx_world s) of
                 (Some err, w) \<Rightarrow> (Inl err, s\<lparr>dx_world := w\<rparr>)
               | (None, w) \<Rightarrow> (Inr (), s\<lparr>dx_world := w, dx_deployments := jm_set (nvl (deploymentKey (dx_d s)) []) (dx_d s) (dx_deployments s)\<rparr>)) s of
        (Inl err, s) \<Rightarrow> (Some err, s)
      | (Inr _, s) \<Rightarrow> (None, s))"

section \<open>Scaling\<close>

definition by_size_newer :: "locale_compare \<Rightarrow> replica_set \<Rightarrow> replica_set \<Rightarrow> int" where
  "by_size_newer lc left right = (if size_of right - size_of left \<noteq> 0 then size_of right - size_of left else - by_creation lc left right)"

definition by_size_older :: "locale_compare \<Rightarrow> replica_set \<Rightarrow> replica_set \<Rightarrow> int" where
  "by_size_older lc left right = (if size_of right - size_of left \<noteq> 0 then size_of right - size_of left else by_creation lc left right)"

text \<open>The loop that fills \<open>nameToSize\<close>, with the number of replicas added so far.\<close>

fun proportions :: "deployment \<Rightarrow> int \<Rightarrow> replica_set list \<Rightarrow> (string, int) jmap \<times> int \<Rightarrow> (string, int) jmap \<times> int" where
  "proportions d toAdd [] (m, added) = (m, added)"
| "proportions d toAdd (rs # rss) (m, added) =
     (if toAdd \<noteq> 0 then
        let p = getReplicaSetProportion rs d toAdd added in
        proportions d toAdd rss (jm_set (name_of rs) (size_of rs + p) m, added + p)
      else proportions d toAdd rss (jm_set (name_of rs) (size_of rs) m, added))"

text \<open>The first replica set takes what is left over.\<close>

definition give_leftover :: "int \<Rightarrow> replica_set list \<Rightarrow> (string, int) jmap \<times> int \<Rightarrow> (string, int) jmap" where
  "give_leftover toAdd rss r =
     (case rss of
        [] \<Rightarrow> fst r
      | rs # _ \<Rightarrow>
          if toAdd \<noteq> 0 then jm_set (name_of rs) (max (nvl (jm_get (fst r) (name_of rs)) 0 + (toAdd - snd r)) 0) (fst r)
          else fst r)"

fun scale_each :: "'w deploy_env \<Rightarrow> (string, int) jmap \<Rightarrow> replica_set list \<Rightarrow> 'w deploy_state \<Rightarrow> api_error option \<times> 'w deploy_state" where
  "scale_each env sizes [] s = (None, s)"
| "scale_each env sizes (rs # rss) s =
     (case scaleReplicaSet env rs (nvl (jm_get sizes (name_of rs)) 0) True s of
        ((_, _, Some err), s) \<Rightarrow> (Some err, s)
      | ((_, _, None), s) \<Rightarrow> scale_each env sizes rss s)"

fun scale_to_zero :: "'w deploy_env \<Rightarrow> replica_set list \<Rightarrow> 'w deploy_state \<Rightarrow> api_error option \<times> 'w deploy_state" where
  "scale_to_zero env [] s = (None, s)"
| "scale_to_zero env (rs # rss) s =
     (case scaleReplicaSet env rs 0 False s of
        ((_, _, Some err), s) \<Rightarrow> (Some err, s)
      | ((_, _, None), s) \<Rightarrow> scale_to_zero env rss s)"

definition opt_list :: "'a option \<Rightarrow> 'a list" where
  "opt_list x = (case x of None \<Rightarrow> [] | Some a \<Rightarrow> [a])"

definition proportional_order :: "locale_compare \<Rightarrow> int \<Rightarrow> replica_set list \<Rightarrow> replica_set list" where
  "proportional_order lc toAdd rss =
     (if toAdd > 0 then js_sort (by_size_newer lc) rss else if toAdd < 0 then js_sort (by_size_older lc) rss else rss)"

definition allowed_size :: "deployment \<Rightarrow> int" where
  "allowed_size d = (if desired_of d > 0 then max_replicas d else 0)"

definition proportional_sizes :: "locale_compare \<Rightarrow> deployment \<Rightarrow> replica_set list \<Rightarrow> replica_set list \<times> (string, int) jmap" where
  "proportional_sizes lc d active =
     (let toAdd = allowed_size d - getReplicaCount active;
          rss = proportional_order lc toAdd active
      in (rss, give_leftover toAdd rss (proportions d toAdd rss ([], 0))))"

definition deploy_scale :: "'w deploy_env \<Rightarrow> replica_set option \<Rightarrow> replica_set list \<Rightarrow> 'w deploy_state \<Rightarrow>
    api_error option \<times> 'w deploy_state" where
  "deploy_scale env newRS oldRSs s =
     (let d = dx_d s in
      case findActiveOrLatest (de_lc env) newRS oldRSs of
        Some rs \<Rightarrow>
          if size_of rs = desired_of d then (None, s)
          else (case scaleReplicaSet env rs (desired_of d) False s of ((_, _, err), s) \<Rightarrow> (err, s))
      | None \<Rightarrow>
          if isSaturated d newRS then scale_to_zero env (filterActiveReplicaSets oldRSs) s
          else if \<not> isRollingUpdate d then (None, s)
          else case proportional_sizes (de_lc env) d (filterActiveReplicaSets (oldRSs @ opt_list newRS)) of
            (rss, sizes) \<Rightarrow> scale_each env sizes rss s)"

section \<open>Rolling\<close>

definition reconcileNewReplicaSet :: "'w deploy_env \<Rightarrow> replica_set list \<Rightarrow> replica_set \<Rightarrow> 'w deploy_state \<Rightarrow>
    (bool \<times> api_error option) \<times> 'w deploy_state" where
  "reconcileNewReplicaSet env allRSs newRS s =
     (let d = dx_d s; desired = desired_of d; current = size_of newRS in
      if current = desired then ((False, None), s)
      else if current > desired then
        (case scaleReplicaSet env newRS desired False s of ((scaled, _, err), s) \<Rightarrow> ((scaled, err), s))
      else case newRSNewReplicas d allRSs newRS of
        Inl err \<Rightarrow> ((False, Some (of_js_error err)), s)
      | Inr n \<Rightarrow> (case scaleReplicaSet env newRS n False s of ((scaled, _, err), s) \<Rightarrow> ((scaled, err), s)))"

definition invalid_scale_down :: "string \<Rightarrow> replica_set \<Rightarrow> int \<Rightarrow> int \<Rightarrow> api_error" where
  "invalid_scale_down what rs replicas n =
     plain_error (what @ '', got invalid request to scale down '' @ namespace_or rs ''default'' @ ''/'' @ name_of rs @ '' '' @
       show_int replicas @ '' -> '' @ show_int n)"

text \<open>
  The loop of \<open>cleanupUnhealthyReplicas\<close>: \<open>fin\<close> holds the part of the list it has passed, with the updated
  objects. The result is the list, the number scaled down, and the error.
\<close>

fun cleanup_loop :: "'w deploy_env \<Rightarrow> int \<Rightarrow> replica_set list \<Rightarrow> replica_set list \<Rightarrow> int \<Rightarrow> 'w deploy_state \<Rightarrow>
    (replica_set list \<times> int \<times> api_error option) \<times> 'w deploy_state" where
  "cleanup_loop env maxCleanup fin [] scaledDown s = ((fin, scaledDown, None), s)"
| "cleanup_loop env maxCleanup fin (rs # rss) scaledDown s =
     (if scaledDown \<ge> maxCleanup then ((fin @ rs # rss, scaledDown, None), s)
      else if size_of rs = 0 \<or> size_of rs = available_of rs then cleanup_loop env maxCleanup (fin @ [rs]) rss scaledDown s
      else
        let down = min (maxCleanup - scaledDown) (size_of rs - available_of rs); n = size_of rs - down in
        if n > size_of rs then
          (([], 0, Some (invalid_scale_down ''when cleaning up unhealthy replicas'' rs (size_of rs) n)), s)
        else case scaleReplicaSet env rs n False s of
          ((_, _, Some err), s) \<Rightarrow> ((fin @ rs # rss, scaledDown, Some err), s)
        | ((_, updated, None), s) \<Rightarrow> cleanup_loop env maxCleanup (fin @ [nvl updated rs]) rss (scaledDown + down) s)"

definition cleanupUnhealthyReplicas :: "'w deploy_env \<Rightarrow> replica_set list \<Rightarrow> int \<Rightarrow> 'w deploy_state \<Rightarrow>
    (replica_set list \<times> int \<times> api_error option) \<times> 'w deploy_state" where
  "cleanupUnhealthyReplicas env oldRSs maxCleanupCount s =
     cleanup_loop env maxCleanupCount [] (js_sort (by_creation (de_lc env)) oldRSs) 0 s"

fun scale_down_loop :: "'w deploy_env \<Rightarrow> int \<Rightarrow> replica_set list \<Rightarrow> int \<Rightarrow> 'w deploy_state \<Rightarrow>
    (int \<times> api_error option) \<times> 'w deploy_state" where
  "scale_down_loop env downCount [] scaledDown s = ((scaledDown, None), s)"
| "scale_down_loop env downCount (rs # rss) scaledDown s =
     (if scaledDown \<ge> downCount then ((scaledDown, None), s)
      else if size_of rs = 0 then scale_down_loop env downCount rss scaledDown s
      else
        let down = min (size_of rs) (downCount - scaledDown); n = size_of rs - down in
        if n > size_of rs then ((0, Some (invalid_scale_down ''when scaling down old RS'' rs (size_of rs) n)), s)
        else case scaleReplicaSet env rs n False s of
          ((_, _, Some err), s) \<Rightarrow> ((scaledDown, Some err), s)
        | ((_, _, None), s) \<Rightarrow> scale_down_loop env downCount rss (scaledDown + down) s)"

definition scaleDownOldReplicaSetsForRollingUpdate :: "'w deploy_env \<Rightarrow> replica_set list \<Rightarrow> replica_set list \<Rightarrow> 'w deploy_state \<Rightarrow>
    (int \<times> api_error option) \<times> 'w deploy_state" where
  "scaleDownOldReplicaSetsForRollingUpdate env allRSs oldRSs s =
     (let d = dx_d s; least = desired_of d - maxUnavailable d; available = getAvailableReplicaCount allRSs in
      if available \<le> least then ((0, None), s)
      else scale_down_loop env (available - least) (js_sort (by_creation (de_lc env)) oldRSs) 0 s)"

definition reconcileOldReplicaSets :: "'w deploy_env \<Rightarrow> replica_set list \<Rightarrow> replica_set list \<Rightarrow> replica_set \<Rightarrow> 'w deploy_state \<Rightarrow>
    (bool \<times> api_error option) \<times> 'w deploy_state" where
  "reconcileOldReplicaSets env allRSs oldRSs newRS s =
     (let d = dx_d s; least = desired_of d - maxUnavailable d;
          newUnavailable = size_of newRS - available_of newRS;
          maxScaledDown = getReplicaCount allRSs - least - newUnavailable in
      if getReplicaCount oldRSs = 0 then ((False, None), s)
      else if maxScaledDown \<le> 0 then ((False, None), s)
      else case cleanupUnhealthyReplicas env oldRSs maxScaledDown s of
        ((_, _, Some _), s) \<Rightarrow> ((False, None), s)
      | ((remaining, cleaned, None), s) \<Rightarrow>
          (case scaleDownOldReplicaSetsForRollingUpdate env (remaining @ [newRS]) remaining s of
             ((_, Some _), s) \<Rightarrow> ((False, None), s)
           | ((scaled, None), s) \<Rightarrow> ((cleaned + scaled > 0, None), s)))"

section \<open>What scaling changes\<close>

text \<open>A replace of the API returns the object with the replicas that were written and the status that was known.\<close>

definition keeps_replicas :: "'w deploy_env \<Rightarrow> bool" where
  "keeps_replicas env \<longleftrightarrow>
     (\<forall>name ns rs w. case de_replaceReplicaSet env name ns rs w of
        (Inr rs', _) \<Rightarrow> size_of rs' = size_of rs \<and> available_of rs' = available_of rs \<and> name_of rs' = name_of rs \<and>
          replicaSetKey rs' = replicaSetKey rs
      | (Inl _, _) \<Rightarrow> True)"

definition at_key :: "'w deploy_state \<Rightarrow> string \<Rightarrow> replica_set option" where
  "at_key s k = jm_get (dx_replicaSets s) k"

text \<open>
  A replica set the controller holds: it has a name, and the controller's map has it with the same replicas
  and the same available ones. \<open>known\<close> adds that its status is not behind a scale-down: no more pods are
  available than are asked for.
\<close>

definition held :: "'w deploy_state \<Rightarrow> replica_set \<Rightarrow> bool" where
  "held s rs \<longleftrightarrow> name_of rs \<noteq> [] \<and>
     (\<exists>r. at_key s (replicaSetKey rs) = Some r \<and> size_of r = size_of rs \<and> available_of r = available_of rs)"

definition known :: "'w deploy_state \<Rightarrow> replica_set \<Rightarrow> bool" where
  "known s rs \<longleftrightarrow> name_of rs \<noteq> [] \<and> 0 \<le> available_of rs \<and> available_of rs \<le> size_of rs \<and>
     (\<exists>r. at_key s (replicaSetKey rs) = Some r \<and> size_of r = size_of rs \<and> available_of r = available_of rs)"

lemma copy_facts [simp]:
  "size_of (with_spec d rs) = size_of rs" "available_of (with_spec d rs) = available_of rs"
  "replicaSetKey (with_spec d rs) = replicaSetKey rs" "name_of (with_spec d rs) = name_of rs"
  "size_of (with_replicas n (with_spec d rs)) = n" "available_of (with_replicas n rs) = available_of rs"
  "replicaSetKey (with_replicas n rs) = replicaSetKey rs" "name_of (with_replicas n rs) = name_of rs"
  "name_of (snd (setReplicasAnnotations rs a b)) = name_of rs"
  "size_of (snd (setReplicasAnnotations rs a b)) = size_of rs"
  "available_of (snd (setReplicasAnnotations rs a b)) = available_of rs"
  "replicaSetKey (snd (setReplicasAnnotations rs a b)) = replicaSetKey rs"
  by (auto simp: with_spec_def with_replicas_def size_of_def available_of_def replicaSetKey_def namespace_or_def name_of_def
      setReplicasAnnotations_def set_annotations_def set_annotation_def empty_meta_def chain_def Let_def
      split: option.split prod.split)

text \<open>Scaling leaves the map as it is or stores one object, and the deployment as it is.\<close>

lemma scale_result:
  assumes "keeps_replicas env" "name_of rs \<noteq> []" "scaleReplicaSet env rs n force s = ((scaled, updated, err), s')"
  obtains (same) r where "dx_replicaSets s' = dx_replicaSets s" "dx_d s' = dx_d s" "updated = Some r"
      "size_of r = size_of rs" "available_of r = available_of rs" "replicaSetKey r = replicaSetKey rs" "name_of r = name_of rs"
      "err \<noteq> None \<or> size_of rs = n"
  | (stored) r where "dx_replicaSets s' = jm_set (replicaSetKey rs) r (dx_replicaSets s)" "dx_d s' = dx_d s"
      "updated = Some r" "err = None" "size_of r = n" "available_of r = available_of rs" "replicaSetKey r = replicaSetKey rs"
      "name_of r = name_of rs"
proof -
  let ?copy = "snd (setReplicasAnnotations (with_replicas n (with_spec (dx_d s) rs)) (desired_of (dx_d s)) (max_replicas (dx_d s)))"
  let ?ns = "namespace_or rs (namespace_or (dx_d s) ''default'')"
  obtain res w where call: "de_replaceReplicaSet env (name_of rs) ?ns ?copy (dx_world s) = (res, w)"
    by (cases "de_replaceReplicaSet env (name_of rs) ?ns ?copy (dx_world s)")
  have law: "case de_replaceReplicaSet env (name_of rs) ?ns ?copy (dx_world s) of
      (Inr rs', _) \<Rightarrow> size_of rs' = size_of ?copy \<and> available_of rs' = available_of ?copy \<and> name_of rs' = name_of ?copy \<and>
        replicaSetKey rs' = replicaSetKey ?copy
    | (Inl _, _) \<Rightarrow> True"
    by (rule assms(1) [unfolded keeps_replicas_def, rule_format])
  show thesis
  proof (cases "updated = Some (with_spec (dx_d s) rs) \<and> dx_replicaSets s' = dx_replicaSets s \<and> dx_d s' = dx_d s \<and> (err \<noteq> None \<or> size_of rs = n)")
    case True
    then show thesis using same [of "with_spec (dx_d s) rs"] by simp
  next
    case False
    have "\<exists>r. res = Inr r \<and> updated = Some r \<and> err = None \<and> dx_d s' = dx_d s \<and>
        dx_replicaSets s' = jm_set (replicaSetKey r) r (dx_replicaSets s)"
      using assms(2,3) call False
      by (cases res) (auto simp: scaleReplicaSet_def Let_def keep_replicaSet_def dx_event_def split: if_splits)
    then show thesis using law call stored by auto
  qed
qed

section \<open>Rolling keeps pods available\<close>

text \<open>
  The pods of the old replica sets that are sure to stay available, when the unavailable ones go first:
  for each key, the available replicas, capped by the replicas asked for.
\<close>

definition served :: "'w deploy_state \<Rightarrow> string list \<Rightarrow> int" where
  "served s ks = (\<Sum>k \<leftarrow> ks. case at_key s k of None \<Rightarrow> 0 | Some r \<Rightarrow> min (available_of r) (size_of r))"

lemma served_same: "dx_replicaSets s' = dx_replicaSets s \<Longrightarrow> served s' ks = served s ks"
  by (simp add: served_def at_key_def)

lemma served_put:
  assumes "distinct ks" "dx_replicaSets s' = jm_set k r (dx_replicaSets s)" "at_key s k = Some r0"
  shows "served s' ks = served s ks +
    (if k \<in> set ks then min (available_of r) (size_of r) - min (available_of r0) (size_of r0) else 0)"
  using assms(1)
proof (induction ks)
  case (Cons j ks)
  have "at_key s' i = (if i = k then Some r else at_key s i)" for i using assms(2) by (simp add: at_key_def)
  with Cons assms(3) show ?case by (auto simp: served_def)
qed (simp add: served_def)

lemma known_mono:
  assumes "known s rs" "dx_replicaSets s' = jm_set k r (dx_replicaSets s)" "replicaSetKey rs \<noteq> k"
  shows "known s' rs"
  using assms by (auto simp: known_def at_key_def)

lemma known_held: "known s rs \<longleftrightarrow> held s rs \<and> 0 \<le> available_of rs \<and> available_of rs \<le> size_of rs"
  by (auto simp: known_def held_def)

lemma held_mono:
  assumes "held s rs" "dx_replicaSets s' = jm_set k r (dx_replicaSets s)" "replicaSetKey rs \<noteq> k"
  shows "held s' rs"
  using assms by (auto simp: held_def at_key_def)

lemma held_same: "dx_replicaSets s' = dx_replicaSets s \<Longrightarrow> held s' rs = held s rs"
  by (simp add: held_def at_key_def)

lemma known_same: "dx_replicaSets s' = dx_replicaSets s \<Longrightarrow> known s' rs = known s rs"
  by (simp add: known_def at_key_def)

text \<open>
  One scaling of a known replica set: the others stay known, it is known again when what is asked covers
  what is available, and at most the replicas taken away are lost.
\<close>

lemma scale_known:
  assumes "keeps_replicas env" "known s rs" "distinct ks" "n \<le> size_of rs"
    and "scaleReplicaSet env rs n force s = ((scaled, updated, err), s')"
  shows "dx_d s' = dx_d s"
    and "\<And>x. known s x \<Longrightarrow> replicaSetKey x \<noteq> replicaSetKey rs \<Longrightarrow> known s' x"
    and "served s' ks \<ge> served s ks - (if err = None then size_of rs - n else 0)"
    and "available_of rs \<le> n \<Longrightarrow> served s' ks = served s ks \<and>
      (err = None \<longrightarrow> (\<exists>r. updated = Some r \<and> known s' r \<and> replicaSetKey r = replicaSetKey rs \<and> available_of r = available_of rs))"
proof -
  have k: "name_of rs \<noteq> []" "0 \<le> available_of rs" "available_of rs \<le> size_of rs" using assms(2) by (auto simp: known_def)
  obtain r0 where r0: "at_key s (replicaSetKey rs) = Some r0" "size_of r0 = size_of rs" "available_of r0 = available_of rs"
    using assms(2) by (auto simp: known_def)
  have *: "dx_d s' = dx_d s \<and> (\<forall>x. known s x \<longrightarrow> replicaSetKey x \<noteq> replicaSetKey rs \<longrightarrow> known s' x) \<and>
      served s' ks \<ge> served s ks - (if err = None then size_of rs - n else 0) \<and>
      (available_of rs \<le> n \<longrightarrow> served s' ks = served s ks \<and>
        (err = None \<longrightarrow> (\<exists>r. updated = Some r \<and> known s' r \<and> replicaSetKey r = replicaSetKey rs \<and> available_of r = available_of rs)))"
    using assms(1) k(1) assms(5)
  proof (cases rule: scale_result)
    case (same r)
    have sv: "served s' ks = served s ks" by (rule served_same [OF same(1)])
    have kn: "known s' x = known s x" for x by (rule known_same [OF same(1)])
    have "known s r" using assms(2) same(4-7) by (simp add: known_def)
    then show ?thesis unfolding sv kn using same(2,3,5,6) assms(4) by auto
  next
    case (stored r)
    have sv: "served s' ks = served s ks +
        (if replicaSetKey rs \<in> set ks then min (available_of rs) n - min (available_of rs) (size_of rs) else 0)"
      using served_put [OF assms(3) stored(1) r0(1)] stored(5,6) r0(2,3) by simp
    have kr: "known s' r" if "available_of rs \<le> n"
      using stored that k(1,2) by (simp add: known_def at_key_def)
    have "known s' x" if "known s x" "replicaSetKey x \<noteq> replicaSetKey rs" for x
      by (rule known_mono [OF that(1) stored(1) that(2)])
    moreover have "served s' ks \<ge> served s ks - (if err = None then size_of rs - n else 0)"
      using sv stored(4) k assms(4) by auto
    moreover have "served s' ks = served s ks" if "available_of rs \<le> n" using sv that k by auto
    ultimately show ?thesis using stored(2-7) kr by blast
  qed
  then show "dx_d s' = dx_d s"
    and "\<And>x. known s x \<Longrightarrow> replicaSetKey x \<noteq> replicaSetKey rs \<Longrightarrow> known s' x"
    and "served s' ks \<ge> served s ks - (if err = None then size_of rs - n else 0)"
    and "available_of rs \<le> n \<Longrightarrow> served s' ks = served s ks \<and>
      (err = None \<longrightarrow> (\<exists>r. updated = Some r \<and> known s' r \<and> replicaSetKey r = replicaSetKey rs \<and> available_of r = available_of rs))"
    by blast+
qed

lemma cleanup_served:
  assumes "keeps_replicas env" "distinct ks"
    and "\<forall>x \<in> set (fin @ rss). known s x" "distinct (map replicaSetKey (fin @ rss))"
    and "cleanup_loop env m fin rss down s = ((rs', n, err), s')"
  shows "dx_d s' = dx_d s \<and> served s' ks = served s ks \<and>
    (err = None \<longrightarrow> (\<forall>x \<in> set rs'. known s' x) \<and> map replicaSetKey rs' = map replicaSetKey (fin @ rss) \<and>
      map available_of rs' = map available_of (fin @ rss))"
  using assms(3-5)
proof (induction rss arbitrary: fin down s)
  case (Cons rs rss)
  let ?down = "min (m - down) (size_of rs - available_of rs)"
  consider (enough) "down \<ge> m" | (skip) "down < m" "size_of rs = 0 \<or> size_of rs = available_of rs"
    | (scale) "down < m" "\<not> (size_of rs = 0 \<or> size_of rs = available_of rs)" by linarith
  then show ?case
  proof cases
    case enough
    then show ?thesis using Cons.prems by auto
  next
    case skip
    then show ?thesis using Cons.IH [of "fin @ [rs]" s down] Cons.prems by simp
  next
    case scale
    have rs: "known s rs" using Cons.prems(1) by simp
    then have "?down \<ge> 0" using scale(1) by (simp add: known_def)
    then have valid: "\<not> size_of rs - ?down > size_of rs" by linarith
    obtain b u e s1 where call: "scaleReplicaSet env rs (size_of rs - ?down) False s = ((b, u, e), s1)"
      by (metis prod.collapse)
    have "size_of rs - ?down \<le> size_of rs" "available_of rs \<le> size_of rs - ?down" using valid by auto
    note k = scale_known [OF assms(1) rs assms(2) this(1) call] scale_known(4) [OF assms(1) rs assms(2) this(1) call this(2)]
    show ?thesis
    proof (cases e)
      case (Some x)
      then show ?thesis using Cons.prems(3) scale call k(1,5) valid by (auto simp: Let_def)
    next
      case None
      then obtain r where r: "u = Some r" "known s1 r" "replicaSetKey r = replicaSetKey rs" "available_of r = available_of rs"
        using k(5) by auto
      have "\<forall>x \<in> set (fin @ rss). replicaSetKey x \<noteq> replicaSetKey rs"
        using Cons.prems(2) by (simp add: image_iff) (metis UnE)
      then have others: "\<forall>x \<in> set (fin @ rss). known s1 x" using Cons.prems(1) k(2) by simp
      have "cleanup_loop env m (fin @ [r]) rss (down + ?down) s1 = ((rs', n, err), s')"
        using Cons.prems(3) scale call None r(1) valid by (simp add: Let_def)
      from Cons.IH [OF _ _ this] show ?thesis
        using others r Cons.prems(2) k(1,5) None by auto
    qed
  qed
qed simp

lemma down_served:
  assumes "keeps_replicas env" "distinct ks"
    and "\<forall>x \<in> set rss. known s x" "distinct (map replicaSetKey rss)"
    and "scale_down_loop env c rss t s = (r, s')"
  shows "dx_d s' = dx_d s \<and> served s' ks \<ge> served s ks - max 0 (c - t)"
  using assms(3-5)
proof (induction rss arbitrary: t s)
  case (Cons rs rss)
  let ?down = "min (size_of rs) (c - t)"
  have rs: "known s rs" "0 \<le> size_of rs" using Cons.prems(1) by (auto simp: known_def)
  show ?case
  proof (cases "t \<ge> c \<or> size_of rs = 0")
    case True
    then show ?thesis using Cons.IH [of s t] Cons.prems by (auto split: if_splits)
  next
    case False
    obtain b u e s1 where call: "scaleReplicaSet env rs (size_of rs - ?down) False s = ((b, u, e), s1)"
      by (metis prod.collapse)
    have "?down \<ge> 0" using False rs(2) by simp
    then have le: "size_of rs - ?down \<le> size_of rs" by linarith
    then have valid: "\<not> size_of rs - ?down > size_of rs" by linarith
    note k = scale_known [OF assms(1) rs(1) assms(2) le call]
    show ?thesis
    proof (cases e)
      case (Some x)
      then have "s' = s1" using Cons.prems(3) False valid call by (simp add: Let_def)
      then show ?thesis using Some k(1,3) by simp
    next
      case None
      have "\<forall>x \<in> set rss. replicaSetKey x \<noteq> replicaSetKey rs" using Cons.prems(2) by (simp add: image_iff) metis
      then have others: "\<forall>x \<in> set rss. known s1 x" using Cons.prems(1) k(2) by simp
      have "scale_down_loop env c rss (t + ?down) s1 = (r, s')"
        using Cons.prems(3) False valid call None by (simp add: Let_def)
      from Cons.IH [OF others _ this] Cons.prems(2)
      have "dx_d s' = dx_d s1" "served s' ks \<ge> served s1 ks - max 0 (c - (t + ?down))" by auto
      moreover have "served s1 ks \<ge> served s ks - ?down" using k(3) None by simp
      ultimately show ?thesis using k(1) False by auto
    qed
  qed
qed simp

lemma served_known:
  assumes "\<forall>x \<in> set rss. known s x"
  shows "served s (map replicaSetKey rss) = (\<Sum>x \<leftarrow> rss. available_of x)"
  using assms by (induction rss) (auto simp: served_def known_def)

lemma fold_sum: "fold (\<lambda>x n. n + f x) xs n = n + (\<Sum>x \<leftarrow> xs. f x :: int)"
  by (induction xs arbitrary: n) auto

lemma sum_list_mset_eq: "mset xs = mset ys \<Longrightarrow> (\<Sum>x \<leftarrow> xs. f x :: int) = (\<Sum>x \<leftarrow> ys. f x)"
  by (metis mset_map sum_mset_sum_list)

text \<open>
  C5. A rolling update never takes available pods away below the limit. Let no old replica set report more
  available pods than it asks for (a status that lags behind an earlier scale-down can), and let the API's
  replace return what was written. Whatever \<open>reconcileOldReplicaSets\<close> then scales down, and whichever call of
  the API fails, the pods of the old replica sets that stay available, with those of the new one, are at
  least \<open>desired - maxUnavailable\<close>, or as many as before if it was less.
\<close>

theorem rolling_keeps_available:
  assumes "keeps_replicas env" and "\<forall>rs \<in> set oldRSs. held s rs"
    and lag: "\<forall>rs \<in> set oldRSs. 0 \<le> available_of rs \<and> available_of rs \<le> size_of rs"
    and "distinct (map replicaSetKey oldRSs)"
    and "reconcileOldReplicaSets env allRSs oldRSs newRS s = (r, s')"
  shows "served s' (map replicaSetKey oldRSs) + available_of newRS \<ge>
    min (served s (map replicaSetKey oldRSs) + available_of newRS) (desired_of (dx_d s) - maxUnavailable (dx_d s))"
proof -
  have known: "\<forall>rs \<in> set oldRSs. known s rs" using assms(2,3) by (simp add: known_held)
  let ?ks = "map replicaSetKey oldRSs" and ?old = "js_sort (by_creation (de_lc env)) oldRSs"
  let ?m = "getReplicaCount allRSs - (desired_of (dx_d s) - maxUnavailable (dx_d s)) - (size_of newRS - available_of newRS)"
  have d: "distinct (map replicaSetKey ?old)"
    using assms(4) by (metis mset_eq_imp_distinct_iff mset_js_sort mset_map)
  show ?thesis
  proof (cases "getReplicaCount oldRSs = 0 \<or> ?m \<le> 0")
    case True
    then have "s' = s" using assms(5) by (auto simp: reconcileOldReplicaSets_def Let_def split: if_splits)
    then show ?thesis by simp
  next
    case False
    obtain rest n e s1 where c: "cleanup_loop env ?m [] ?old 0 s = ((rest, n, e), s1)" by (metis prod.collapse)
    have "\<forall>x \<in> set ([] @ ?old). known s x" using known by simp
    from cleanup_served [OF assms(1,4) this _ c] d
    have s1: "dx_d s1 = dx_d s" "served s1 ?ks = served s ?ks"
      and rest: "e = None \<Longrightarrow> (\<forall>x \<in> set rest. known s1 x) \<and> map replicaSetKey rest = map replicaSetKey ?old \<and>
        map available_of rest = map available_of ?old" by auto
    show ?thesis
    proof (cases e)
      case (Some x)
      then have "s' = s1" using assms(5) False c
        by (simp add: reconcileOldReplicaSets_def cleanupUnhealthyReplicas_def Let_def)
      then show ?thesis using s1(2) by simp
    next
      case None
      let ?least = "desired_of (dx_d s) - maxUnavailable (dx_d s)"
      have av: "(\<Sum>x \<leftarrow> rest. available_of x) = served s ?ks"
        using rest [OF None] served_known [OF known] sum_list_mset_eq [of ?old oldRSs available_of] by simp
      have count: "getAvailableReplicaCount (rest @ [newRS]) = served s ?ks + available_of newRS"
        by (simp add: getAvailableReplicaCount_def fold_sum av)
      obtain q s2 where q: "scaleDownOldReplicaSetsForRollingUpdate env (rest @ [newRS]) rest s1 = (q, s2)"
        by (metis prod.collapse)
      have s2: "s' = s2" using assms(5) False c None q
        by (auto simp: reconcileOldReplicaSets_def cleanupUnhealthyReplicas_def Let_def split: prod.splits option.splits)
      show ?thesis
      proof (cases "served s ?ks + available_of newRS \<le> ?least")
        case True
        then have "s2 = s1" using q count s1(1) by (simp add: scaleDownOldReplicaSetsForRollingUpdate_def Let_def)
        then show ?thesis using s1(2) s2 by simp
      next
        case more: False
        let ?rest = "js_sort (by_creation (de_lc env)) rest"
        have "scale_down_loop env (served s ?ks + available_of newRS - ?least) ?rest 0 s1 = (q, s2)"
          using q count s1(1) more by (simp add: scaleDownOldReplicaSetsForRollingUpdate_def Let_def)
        moreover have "distinct (map replicaSetKey ?rest)"
          using rest [OF None] d by (metis mset_eq_imp_distinct_iff mset_js_sort mset_map)
        moreover have "\<forall>x \<in> set ?rest. known s1 x" using rest [OF None] by simp
        ultimately have "served s2 ?ks \<ge> served s1 ?ks - max 0 (served s ?ks + available_of newRS - ?least - 0)"
          using down_served [OF assms(1,4)] by blast
        then show ?thesis using s1(2) s2 more by simp
      qed
    qed
  qed
qed


text \<open>A server that answers every replace with the object it got.\<close>

definition echo_env :: "unit deploy_env" where
  "echo_env = \<lparr>de_replaceReplicaSet = \<lambda>name ns rs w. (Inr rs, w), de_createReplicaSet = \<lambda>ns rs w. (Inr rs, w),
     de_deleteReplicaSet = \<lambda>name ns w. (None, w), de_replaceDeploymentStatus = \<lambda>name ns d w. (None, w),
     de_getReplicaSet = \<lambda>name ns w. Inl (plain_error ''gone''), de_wait = \<lambda>k w. w, de_now = \<lambda>w. 0, de_lc = \<lambda>a b. 0\<rparr>"

definition sized :: "string \<Rightarrow> int \<Rightarrow> int \<Rightarrow> replica_set" where
  "sized name replicas available =
     \<lparr>ao_metadata = Some (empty_meta\<lparr>om_name := Some name\<rparr>),
      rset_spec = Some \<lparr>rp_minReadySeconds = None, rp_replicas = Some replicas, rp_selector = empty_selector, rp_template = None\<rparr>,
      rset_status = Some \<lparr>rt_availableReplicas = Some available, rt_conditions = None, rt_fullyLabeledReplicas = None,
        rt_observedGeneration = None, rt_readyReplicas = None, rt_replicas = None, rt_terminatingReplicas = None\<rparr>\<rparr>"

definition rolling_deployment :: "int \<Rightarrow> deployment" where
  "rolling_deployment n =
     \<lparr>ao_metadata = None, dep_spec = Some \<lparr>dp_minReadySeconds = None, dp_paused = None, dp_progressDeadlineSeconds = None,
        dp_replicas = Some n, dp_revisionHistoryLimit = None, dp_selector = None,
        dp_strategy = Some \<lparr>ds_type = Some ''RollingUpdate'', ds_rollingUpdate =
          Some \<lparr>ru_maxSurge = Some (IntVal 1), ru_maxUnavailable = Some (IntVal 1)\<rparr>\<rparr>, dp_template = None\<rparr>,
      dep_status = None\<rparr>"

definition rolling_state :: "int \<Rightarrow> replica_set list \<Rightarrow> unit deploy_state" where
  "rolling_state n rss =
     \<lparr>dx_d = rolling_deployment n, dx_replicaSets = map (\<lambda>rs. (replicaSetKey rs, rs)) rss, dx_deployments = [], dx_events = [],
      dx_requeues = [], dx_world = ()\<rparr>"

lemma sized_simps [simp]:
  "size_of (sized name n a) = n" "available_of (sized name n a) = a" "name_of (sized name n a) = name"
  "replicaSetKey (sized name n a) = ''default/'' @ name"
  by (simp_all add: sized_def size_of_def available_of_def name_of_def replicaSetKey_def namespace_or_def empty_meta_def)

lemma echo_keeps: "keeps_replicas echo_env"
  by (simp add: keeps_replicas_def echo_env_def)

lemma rolling_deployment_simps [simp]:
  "desired_of (rolling_deployment n) = n" "isRollingUpdate (rolling_deployment n)"
  "chain (strategy_of (rolling_deployment n)) ds_type = Some ''RollingUpdate''"
  "chain (rollingUpdate_of (rolling_deployment n)) ru_maxSurge = Some (IntVal 1)"
  by (simp_all add: rolling_deployment_def desired_of_def isRollingUpdate_def strategy_of_def rollingUpdate_of_def)

lemma rolling_keeps_available_witness:
  "\<exists>r s'. reconcileOldReplicaSets echo_env [sized ''a'' 4 3, sized ''b'' 2 1] [sized ''a'' 4 3] (sized ''b'' 2 1)
      (rolling_state 4 [sized ''a'' 4 3, sized ''b'' 2 1]) = (r, s') \<and>
    served s' [''default/a''] + 1 \<ge> 3"
proof -
  let ?s = "rolling_state 4 [sized ''a'' 4 3, sized ''b'' 2 1]"
  obtain r s' where call: "reconcileOldReplicaSets echo_env [sized ''a'' 4 3, sized ''b'' 2 1] [sized ''a'' 4 3] (sized ''b'' 2 1) ?s = (r, s')"
    by (metis prod.collapse)
  have "held ?s (sized ''a'' 4 3)" by (simp add: held_def at_key_def rolling_state_def)
  moreover have "served ?s [''default/a''] = 3" by (simp add: served_def at_key_def rolling_state_def)
  moreover have "dx_d ?s = rolling_deployment 4" "maxUnavailable (rolling_deployment 4) = 1"
    by (simp add: rolling_state_def) code_simp
  ultimately show ?thesis
    using rolling_keeps_available [OF echo_keeps _ _ _ call] call by auto
qed

section \<open>Rolling stays within the surge\<close>

text \<open>The replicas that the controller's replica sets ask for in all.\<close>

definition asked :: "'w deploy_state \<Rightarrow> string list \<Rightarrow> int" where
  "asked s ks = (\<Sum>k \<leftarrow> ks. case at_key s k of None \<Rightarrow> 0 | Some r \<Rightarrow> size_of r)"

lemma asked_same: "dx_replicaSets s' = dx_replicaSets s \<Longrightarrow> asked s' ks = asked s ks"
  by (simp add: asked_def at_key_def)

lemma asked_put:
  assumes "distinct ks" "dx_replicaSets s' = jm_set k r (dx_replicaSets s)" "at_key s k = Some r0"
  shows "asked s' ks = asked s ks + (if k \<in> set ks then size_of r - size_of r0 else 0)"
  using assms(1)
proof (induction ks)
  case (Cons j ks)
  have "at_key s' i = (if i = k then Some r else at_key s i)" for i using assms(2) by (simp add: at_key_def)
  with Cons assms(3) show ?case by (auto simp: asked_def)
qed (simp add: asked_def)

lemma asked_held:
  assumes "\<forall>x \<in> set rss. held s x"
  shows "asked s (map replicaSetKey rss) = getReplicaCount rss"
proof -
  have "getReplicaCount rss = (\<Sum>x \<leftarrow> rss. size_of x)" by (simp add: getReplicaCount_def fold_sum)
  with assms show ?thesis by (induction rss) (auto simp: asked_def held_def getReplicaCount_def fold_sum)
qed

lemma asked_known: "\<forall>x \<in> set rss. known s x \<Longrightarrow> asked s (map replicaSetKey rss) = getReplicaCount rss"
  by (rule asked_held) (simp add: known_held)

text \<open>
  C13. Scaling the new replica set of a rolling update never asks for more pods than \<open>desired + maxSurge\<close>, or
  than were asked for before: however the call of the API ends, \<open>reconcileNewReplicaSet\<close> keeps the sum of
  the replicas that all replica sets of the deployment ask for within that limit, whatever their statuses
  say. The replica sets are the ones the controller holds, and the API's replace returns what was written.
\<close>

theorem rolling_within_surge:
  assumes "keeps_replicas env" and "\<forall>rs \<in> set allRSs. held s rs" and "distinct (map replicaSetKey allRSs)"
    and "newRS \<in> set allRSs"
    and "chain (strategy_of (dx_d s)) ds_type = Some ''RollingUpdate''"
    and "getScaledValueFromIntOrPercent (Some (nvl (chain (rollingUpdate_of (dx_d s)) ru_maxSurge) (IntVal 0)))
      (desired_of (dx_d s)) True = Inr surge"
    and "reconcileNewReplicaSet env allRSs newRS s = (r, s')"
  shows "asked s' (map replicaSetKey allRSs) \<le>
    max (asked s (map replicaSetKey allRSs)) (desired_of (dx_d s) + surge)"
proof -
  let ?ks = "map replicaSetKey allRSs" and ?count = "getReplicaCount allRSs"
  have scaled: "asked s1 ?ks \<le> max ?count (?count + n - size_of newRS)"
    if call: "scaleReplicaSet env newRS n False s = ((b, u, e), s1)" for n b u e s1
  proof -
    have new: "held s newRS" "name_of newRS \<noteq> []" using assms(2,4) by (auto simp: held_def)
    obtain r0 where r0: "at_key s (replicaSetKey newRS) = Some r0" "size_of r0 = size_of newRS"
      using new(1) by (auto simp: held_def)
    from assms(1) new(2) call show ?thesis
    proof (cases rule: scale_result)
      case same
      then show ?thesis using asked_same [OF same(1), of ?ks] asked_held [OF assms(2)] by simp
    next
      case (stored x)
      then show ?thesis using asked_put [OF assms(3) stored(1) r0(1)] r0(2) assms(4) asked_held [OF assms(2)] by simp
    qed
  qed
  obtain b u e s1 where to_desired: "scaleReplicaSet env newRS (desired_of (dx_d s)) False s = ((b, u, e), s1)"
    by (metis prod.collapse)
  define n where "n = (if ?count \<ge> desired_of (dx_d s) + surge then size_of newRS
    else size_of newRS + min (desired_of (dx_d s) + surge - ?count) (desired_of (dx_d s) - size_of newRS))"
  obtain b' u' e' s2 where to_more: "scaleReplicaSet env newRS n False s = ((b', u', e'), s2)"
    by (metis prod.collapse)
  have "newRSNewReplicas (dx_d s) allRSs newRS = Inr n" using assms(5,6) by (simp add: newRSNewReplicas_def Let_def n_def)
  then have "s' = (if size_of newRS = desired_of (dx_d s) then s else if size_of newRS > desired_of (dx_d s) then s1 else s2)"
    using assms(7) to_desired to_more by (simp add: reconcileNewReplicaSet_def Let_def split: if_splits)
  then show ?thesis
    using scaled [OF to_desired] scaled [OF to_more] asked_held [OF assms(2)] by (auto simp: n_def split: if_splits)
qed

lemma rolling_within_surge_witness:
  "\<exists>r s'. reconcileNewReplicaSet echo_env [sized ''a'' 4 3, sized ''b'' 0 0] (sized ''b'' 0 0)
      (rolling_state 4 [sized ''a'' 4 3, sized ''b'' 0 0]) = (r, s') \<and> asked s' [''default/a'', ''default/b''] \<le> 5"
proof -
  let ?rss = "[sized ''a'' 4 3, sized ''b'' 0 0]"
  let ?s = "rolling_state 4 ?rss"
  obtain r s' where call: "reconcileNewReplicaSet echo_env ?rss (sized ''b'' 0 0) ?s = (r, s')" by (metis prod.collapse)
  have d: "dx_d ?s = rolling_deployment 4" by (simp add: rolling_state_def)
  have k: "\<forall>rs \<in> set ?rss. held ?s rs" by (simp add: held_def at_key_def rolling_state_def)
  have a: "asked ?s (map replicaSetKey ?rss) = 4" using asked_held [OF k] by (simp add: getReplicaCount_def)
  have "getScaledValueFromIntOrPercent (Some (IntVal 1)) 4 True = Inr 1" by code_simp
  then have "asked s' (map replicaSetKey ?rss) \<le> max 4 (4 + 1)"
    using rolling_within_surge [OF echo_keeps k _ _ _ _ call, of 1] d a by simp
  then show ?thesis using call by auto
qed


section \<open>Proportional scaling\<close>

text \<open>
  The sizes that the loop writes add up to what there was and what it added; it writes under the names of
  its replica sets only.
\<close>

lemma proportions_sum:
  assumes "proportions d toAdd rss (m, added) = (m', added')" "distinct (map name_of rss)"
  shows "(\<Sum>x \<leftarrow> rss. nvl (jm_get m' (name_of x)) 0) = (\<Sum>x \<leftarrow> rss. size_of x) + (added' - added) \<and>
    (\<forall>k. k \<notin> set (map name_of rss) \<longrightarrow> jm_get m' k = jm_get m k)"
  using assms
proof (induction rss arbitrary: m added)
  case (Cons rs rss)
  obtain m1 a1 where step: "proportions d toAdd rss (m1, a1) = (m', added')"
    "m1 = jm_set (name_of rs) (size_of rs + (a1 - added)) m"
  proof
    let ?p = "if toAdd = 0 then 0 else getReplicaSetProportion rs d toAdd added"
    show "proportions d toAdd rss (jm_set (name_of rs) (size_of rs + (added + ?p - added)) m, added + ?p) = (m', added')"
      using Cons.prems(1) by (simp add: Let_def split: if_splits)
  qed simp
  have "(\<Sum>x \<leftarrow> rss. nvl (jm_get m' (name_of x)) 0) = (\<Sum>x \<leftarrow> rss. size_of x) + (added' - a1)"
    "\<forall>k. k \<notin> set (map name_of rss) \<longrightarrow> jm_get m' k = jm_get m1 k"
    using Cons.IH [OF step(1)] Cons.prems(2) by auto
  then show ?case using step(2) Cons.prems(2) by simp
qed simp

text \<open>Sorting by a comparison that goes by a rank first sorts by the rank, whatever it does among equals.\<close>

lemma js_sort_rank:
  fixes f :: "'a \<Rightarrow> int"
  assumes "\<And>x y. f x < f y \<Longrightarrow> cmp x y \<le> 0" "\<And>x y. f y < f x \<Longrightarrow> \<not> cmp x y \<le> 0"
  shows "sorted_wrt (\<lambda>x y. f x \<le> f y) (js_sort cmp xs)"
proof (induction xs)
  case (Cons x xs)
  have "sorted_wrt (\<lambda>x y. f x \<le> f y) ys \<Longrightarrow> sorted_wrt (\<lambda>x y. f x \<le> f y) (insert_cmp cmp x ys)" for ys
  proof (induction ys)
    case (Cons y ys)
    have set: "set (insert_cmp cmp x zs) = insert x (set zs)" for zs by (induction zs) auto
    have "cmp x y \<le> 0 \<Longrightarrow> f x \<le> f y" "\<not> cmp x y \<le> 0 \<Longrightarrow> f y \<le> f x" using assms by force+
    then show ?case using Cons by (auto simp: set intro: order_trans)
  qed simp
  then show ?case using Cons.IH by (simp add: js_sort_Cons)
qed simp

lemma proportional_order_first:
  assumes "toAdd \<noteq> 0" "proportional_order lc toAdd active = x # xs"
  shows "\<forall>y \<in> set active. size_of y \<le> size_of x"
proof -
  have "sorted_wrt (\<lambda>x y. - size_of x \<le> - size_of y) (js_sort (by_size_newer lc) active)"
    "sorted_wrt (\<lambda>x y. - size_of x \<le> - size_of y) (js_sort (by_size_older lc) active)"
    by (rule js_sort_rank; simp add: by_size_newer_def by_size_older_def)+
  then have "sorted_wrt (\<lambda>x y. - size_of x \<le> - size_of y) (x # xs)"
    using assms by (auto simp: proportional_order_def split: if_splits)
  moreover have "set active = set (x # xs)" unfolding assms(2) [symmetric] by (simp add: proportional_order_def)
  ultimately show ?thesis by auto
qed

text \<open>
  C23. Proportional scaling hands out exactly the pods that are allowed. Take replica sets with names of their
  own that all ask for pods. However the shares were rounded, the first one, the largest, takes what the
  others leave of \<open>desired + maxSurge\<close> (of zero when no pods are desired), or nothing if they leave nothing:
  so the sizes add up to what is allowed unless the others alone exceed it. When the allowed number is what
  they have already, every size stays.
\<close>

theorem proportional_scaling:
  assumes "active \<noteq> []" and "distinct (map name_of active)" and "\<forall>x \<in> set active. size_of x > 0"
    and "proportional_sizes lc d active = (rss, sizes)"
  shows "\<exists>first others. rss = first # others \<and> mset rss = mset active \<and>
    (let rest = (\<Sum>x \<leftarrow> others. nvl (jm_get sizes (name_of x)) 0) in
      jm_get sizes (name_of first) = Some (max (allowed_size d - rest) 0) \<and>
      (\<Sum>x \<leftarrow> rss. nvl (jm_get sizes (name_of x)) 0) = max (allowed_size d) rest) \<and>
    (if allowed_size d = getReplicaCount active then \<forall>x \<in> set active. jm_get sizes (name_of x) = Some (size_of x)
     else \<forall>x \<in> set active. size_of x \<le> size_of first)"
proof -
  let ?add = "allowed_size d - getReplicaCount active"
  have r: "rss = proportional_order lc ?add active"
    and s: "sizes = give_leftover ?add rss (proportions d ?add rss ([], 0))"
    using assms(4) by (auto simp: proportional_sizes_def Let_def)
  have m: "mset rss = mset active" by (simp add: r proportional_order_def)
  then obtain x xs where x: "rss = x # xs" using assms(1) by (cases rss) auto
  have dist: "distinct (map name_of rss)" using assms(2) m by (metis mset_eq_imp_distinct_iff mset_map)
  have set: "set rss = set active" using m by (rule mset_eq_setD)
  obtain m' added where p: "proportions d ?add rss ([], 0) = (m', added)" by (metis prod.collapse)
  have count: "(\<Sum>x \<leftarrow> rss. size_of x) = getReplicaCount active"
    using sum_list_mset_eq [OF m, of size_of] by (simp add: getReplicaCount_def fold_sum)
  have sum: "(\<Sum>x \<leftarrow> rss. nvl (jm_get m' (name_of x)) 0) = getReplicaCount active + added"
    using proportions_sum [OF p dist] count by simp
  show ?thesis
  proof (cases "?add = 0")
    case True
    have same: "added' = a \<and> (\<forall>y \<in> set ys. jm_get n' (name_of y) = Some (size_of y)) \<and>
        (\<forall>k. k \<notin> set (map name_of ys) \<longrightarrow> jm_get n' k = jm_get n k)"
      if "proportions d 0 ys (n, a) = (n', added')" "distinct (map name_of ys)" for ys n a n' added'
      using that by (induction ys arbitrary: n) auto
    have sizes: "sizes = m'" using s p x True by (simp add: give_leftover_def)
    have all: "\<forall>y \<in> set rss. jm_get sizes (name_of y) = Some (size_of y)"
      using same [of rss "[]" 0 m' added] p dist True sizes by simp
    have "(\<Sum>y \<leftarrow> xs. nvl (jm_get sizes (name_of y)) 0) = (\<Sum>y \<leftarrow> xs. size_of y)"
      using all x by (intro arg_cong [where f = sum_list] map_cong) auto
    moreover have "(\<Sum>y \<leftarrow> xs. size_of y) = allowed_size d - size_of x" using count x True by simp
    moreover have "size_of x > 0" using assms(3) set x by auto
    moreover have "\<forall>y \<in> set active. jm_get sizes (name_of y) = Some (size_of y)" using all set by simp
    ultimately show ?thesis using x m all True by (simp add: Let_def)
  next
    case False
    let ?first = "nvl (jm_get m' (name_of x)) 0 + (?add - added)"
    have sizes: "sizes = jm_set (name_of x) (max ?first 0) m'" using s p x False by (simp add: give_leftover_def)
    have "(\<Sum>y \<leftarrow> xs. nvl (jm_get sizes (name_of y)) 0) = (\<Sum>y \<leftarrow> xs. nvl (jm_get m' (name_of y)) 0)"
      using dist x sizes by (intro arg_cong [where f = sum_list] map_cong) (auto simp: image_iff)
    then have first: "?first = allowed_size d - (\<Sum>y \<leftarrow> xs. nvl (jm_get sizes (name_of y)) 0)"
      using sum x by simp
    have "jm_get sizes (name_of x) = Some (max ?first 0)" using sizes by simp
    moreover have "\<forall>y \<in> set active. size_of y \<le> size_of x"
      using proportional_order_first [OF False] r x by metis
    ultimately show ?thesis using m x False unfolding first by (simp add: Let_def)
  qed
qed

text \<open>Seven pods in two replica sets, eleven allowed.\<close>

lemma proportional_scaling_witness:
  "\<exists>rss sizes. proportional_sizes (\<lambda>a b. 0) (rolling_deployment 10) [sized ''a'' 5 3, sized ''b'' 2 1] = (rss, sizes) \<and>
    (\<Sum>x \<leftarrow> rss. nvl (jm_get sizes (name_of x)) 0) \<ge> 11"
proof -
  obtain rss sizes where p: "proportional_sizes (\<lambda>a b. 0) (rolling_deployment 10) [sized ''a'' 5 3, sized ''b'' 2 1] = (rss, sizes)"
    by (metis prod.collapse)
  have "maxSurge (rolling_deployment 10) = 1" by code_simp
  then have "allowed_size (rolling_deployment 10) = 11" by (simp add: allowed_size_def max_replicas_def)
  with proportional_scaling [OF _ _ _ p] p show ?thesis by (fastforce simp: Let_def)
qed

end
