(* ===== verification/DeploymentSync.thy ===== *)
theory DeploymentSync
  imports DeploymentController
begin

text \<open>
  The sync of a deployment, \<open>controller/deployment/deployment-controller.ts\<close> from \<open>syncDeployment\<close> on, and
  \<open>recreate.ts\<close>: finding or creating the new replica set, rolling and recreating, cleaning up old replica
  sets, status and conditions. Every function works on the state of \<open>DeploymentController\<close>; the deployment
  under sync is \<open>dx_d\<close>. An exception that \<open>syncDeployment\<close> catches is the error it returns. The list of
  replica sets is sorted in place each time; sorting what is sorted changes nothing, so the list is
  passed as it came.
\<close>

section \<open>Status\<close>

text \<open>
  \<open>deepEqual\<close> of two statuses: the same fields are there, with the same values. A condition that lacks its
  reason, message or time is taken to lack the field.
\<close>

definition status_equal :: "deployment_status \<Rightarrow> deployment_status \<Rightarrow> bool" where
  "status_equal a b \<longleftrightarrow>
     set (dt_undefined a) = set (dt_undefined b) \<and> a\<lparr>dt_undefined := []\<rparr> = b\<lparr>dt_undefined := []\<rparr>"

definition undefined_field :: "string \<Rightarrow> 'a option \<Rightarrow> string list" where
  "undefined_field name v = (if v = None then [name] else [])"

definition availability_condition :: "int \<Rightarrow> deployment \<Rightarrow> int \<Rightarrow> deployment_condition" where
  "availability_condition now d available =
     (if available \<ge> desired_of d - maxUnavailable d
      then newDeploymentCondition now ''Available'' ''True'' ''MinimumReplicasAvailable'' ''Deployment has minimum availability.''
      else newDeploymentCondition now ''Available'' ''False'' ''MinimumReplicasUnavailable''
        ''Deployment does not have minimum availability.'')"

definition deploymentStatus :: "int \<Rightarrow> replica_set list \<Rightarrow> replica_set option \<Rightarrow> deployment \<Rightarrow> deployment_status" where
  "deploymentStatus now allRSs newRS d =
     (let available = getAvailableReplicaCount allRSs;
          generation = chain (ao_metadata d) om_generation;
          collisions = chain (dep_status d) dt_collisionCount;
          terminating = getTerminatingReplicaCount allRSs
      in setDeploymentCondition (availability_condition now d available)
        \<lparr>dt_undefined = undefined_field ''observedGeneration'' generation @ undefined_field ''collisionCount'' collisions @
            undefined_field ''terminatingReplicas'' terminating,
         dt_availableReplicas = Some available, dt_collisionCount = collisions,
         dt_conditions = Some (nvl (chain (dep_status d) dt_conditions) []), dt_observedGeneration = generation,
         dt_readyReplicas = Some (getReadyReplicaCount allRSs), dt_replicas = Some (getActualReplicaCount allRSs),
         dt_terminatingReplicas = terminating,
         dt_unavailableReplicas = Some (max (getReplicaCount allRSs - available) 0),
         dt_updatedReplicas = Some (case newRS of None \<Rightarrow> 0 | Some rs \<Rightarrow> getActualReplicaCount [rs])\<rparr>)"

definition replica_failures :: "replica_set \<Rightarrow> deployment_condition list" where
  "replica_failures rs =
     map replicaSetToDeploymentCondition (filter (\<lambda>c. rc_type c = ''ReplicaFailure'') (nvl (chain (rset_status rs) rt_conditions) []))"

definition getReplicaFailures :: "replica_set list \<Rightarrow> replica_set option \<Rightarrow> deployment_condition list" where
  "getReplicaFailures allRSs newRS =
     (let conditions = (case newRS of None \<Rightarrow> [] | Some rs \<Rightarrow> replica_failures rs) in
      if length conditions > 0 then conditions else concat (map replica_failures allRSs))"

definition set_status :: "deployment_status \<Rightarrow> 'w deploy_state \<Rightarrow> 'w deploy_state" where
  "set_status status s = s\<lparr>dx_d := (dx_d s)\<lparr>dep_status := Some status\<rparr>\<rparr>"

definition status_of :: "deployment \<Rightarrow> deployment_status" where
  "status_of d = nvl (dep_status d) empty_status"

definition put_condition :: "deployment_condition \<Rightarrow> 'w deploy_state \<Rightarrow> 'w deploy_state" where
  "put_condition c s = set_status (setDeploymentCondition c (status_of (dx_d s))) s"

definition syncDeploymentStatus :: "'w deploy_env \<Rightarrow> replica_set list \<Rightarrow> replica_set option \<Rightarrow> 'w deploy_state \<Rightarrow>
    api_error option \<times> 'w deploy_state" where
  "syncDeploymentStatus env allRSs newRS s =
     (let new = deploymentStatus (de_now env (dx_world s)) allRSs newRS (dx_d s) in
      if status_equal (status_of (dx_d s)) new then (None, s)
      else updateDeploymentStatus env (set_status new s))"

text \<open>\<open>requeueStuckDeployment\<close>, whose result nobody reads; it throws when the time is a text.\<close>

definition requeueStuckDeployment :: "int \<Rightarrow> deployment_status \<Rightarrow> 'w deploy_state \<Rightarrow> api_error option \<times> 'w deploy_state" where
  "requeueStuckDeployment now new s =
     (case getDeploymentCondition (dep_status (dx_d s)) ''Progressing'' of
        None \<Rightarrow> (None, s)
      | Some c \<Rightarrow>
          if \<not> hasProgressDeadline (dx_d s) then (None, s)
          else if deploymentComplete (dx_d s) new \<or> dc_reason c = Some ''ProgressDeadlineExceeded'' then (None, s)
          else (case dc_lastUpdateTime c of
                  None \<Rightarrow> (None, s)
                | Some t \<Rightarrow>
                    (case get_time t of
                       Inl err \<Rightarrow> (Some (of_js_error err), s)
                     | Inr from \<Rightarrow>
                         let after = from + nvl (chain (dep_spec (dx_d s)) dp_progressDeadlineSeconds) 0 * 1000 - now;
                             r = (if after < 1000 then RequeueRateLimited else RequeueAfter (after + 1000))
                         in (None, s\<lparr>dx_requeues := dx_requeues s @ [r]\<rparr>))))"

definition subject_message :: "deployment \<Rightarrow> replica_set option \<Rightarrow> string \<Rightarrow> string" where
  "subject_message d newRS what =
     (case newRS of
        Some rs \<Rightarrow> ''ReplicaSet '' @ [CHR 0x22] @ name_of rs @ [CHR 0x22] @ what
      | None \<Rightarrow> ''Deployment '' @ [CHR 0x22] @ name_of d @ [CHR 0x22] @ what)"

text \<open>The condition of the progress; \<open>cur\<close> is the one the deployment has.\<close>

definition progress_status :: "int \<Rightarrow> deployment \<Rightarrow> replica_set option \<Rightarrow> deployment_status \<Rightarrow> js_error + deployment_status" where
  "progress_status now d newRS new =
     (let cur = getDeploymentCondition (dep_status d) ''Progressing'';
          complete = (nvl (dt_replicas new) 0 = nvl (dt_updatedReplicas new) 0 \<and> chain cur dc_reason = Some ''NewReplicaSetAvailable'')
      in if \<not> hasProgressDeadline d \<or> complete then Inr new
      else if deploymentComplete d new then
        Inr (setDeploymentCondition (newDeploymentCondition now ''Progressing'' ''True'' ''NewReplicaSetAvailable''
          (subject_message d newRS '' has successfully progressed.'')) new)
      else if deploymentProgressing d new then
        (let c = newDeploymentCondition now ''Progressing'' ''True'' ''ReplicaSetUpdated''
               (subject_message d newRS '' is progressing.'')
         in case cur of
              None \<Rightarrow> Inr (setDeploymentCondition c new)
            | Some old \<Rightarrow>
                Inr (setDeploymentCondition
                  (if dc_status old = ''True'' then c\<lparr>dc_lastTransitionTime := dc_lastTransitionTime old\<rparr> else c)
                  (removeDeploymentCondition ''Progressing'' new)))
      else (case deploymentTimedOut now d new of
              Inl err \<Rightarrow> Inl err
            | Inr False \<Rightarrow> Inr new
            | Inr True \<Rightarrow>
                Inr (setDeploymentCondition (newDeploymentCondition now ''Progressing'' ''False'' ''ProgressDeadlineExceeded''
                  (subject_message d newRS '' has timed out progressing.'')) new)))"

definition syncRolloutStatus :: "'w deploy_env \<Rightarrow> replica_set list \<Rightarrow> replica_set option \<Rightarrow> 'w deploy_state \<Rightarrow>
    api_error option \<times> 'w deploy_state" where
  "syncRolloutStatus env allRSs newRS s =
     (let now = de_now env (dx_world s); d = dx_d s;
          new = deploymentStatus now allRSs newRS d;
          new = (if hasProgressDeadline d then new else removeDeploymentCondition ''Progressing'' new)
      in case progress_status now d newRS new of
           Inl err \<Rightarrow> (Some (of_js_error err), s)
         | Inr new \<Rightarrow>
             let failures = getReplicaFailures allRSs newRS;
                 new = (case failures of
                     [] \<Rightarrow> removeDeploymentCondition ''ReplicaFailure'' new
                   | c # _ \<Rightarrow> setDeploymentCondition c new)
             in if status_equal (status_of d) new then requeueStuckDeployment now new s
                else updateDeploymentStatus env (set_status new s))"

section \<open>The new replica set\<close>

definition generateReplicaSetName :: "string \<Rightarrow> string \<Rightarrow> string" where
  "generateReplicaSetName deploymentName podTemplateSpecHash =
     (let maxLength = 253 - 1 - int (length podTemplateSpecHash) in
      if int (length deploymentName) > maxLength \<and> maxLength > 0
      then take (nat maxLength) deploymentName @ ''-'' @ podTemplateSpecHash
      else deploymentName @ ''-'' @ podTemplateSpecHash)"

definition isAlreadyExistsError :: "api_error \<Rightarrow> bool" where
  "isAlreadyExistsError err \<longleftrightarrow>
     ae_name err = ''AlreadyExists'' \<or> js_includes (ae_message err) ''already exists'' \<or> js_includes (ae_message err) ''HTTP-Code: 409''"

definition ownerReference :: "deployment \<Rightarrow> owner_reference" where
  "ownerReference d =
     \<lparr>or_apiVersion = ''apps/v1'', or_kind = ''Deployment'', or_name = name_of d, or_uid = nvl (chain (ao_metadata d) om_uid) [],
      or_controller = Some True, or_blockOwnerDeletion = Some True\<rparr>"

text \<open>\<open>${err}\<close> of an error.\<close>

definition error_text :: "api_error \<Rightarrow> string" where
  "error_text err = (if ae_message err = [] then ae_name err else ae_name err @ '': '' @ ae_message err)"

definition object_or_empty :: "json \<Rightarrow> json" where
  "object_or_empty j = (if j = JUndef \<or> j = JNull then JObj [] else j)"

definition template_with_hash :: "json \<Rightarrow> string \<Rightarrow> json" where
  "template_with_hash t h =
     (let meta = object_or_empty (json_field ''metadata'' t); ls = object_or_empty (json_field ''labels'' meta)
      in set_json_field ''metadata'' (set_json_field ''labels'' (set_json_field podTemplateHashLabel (JStr h) ls) meta) t)"

definition template_of :: "deployment \<Rightarrow> json" where
  "template_of d = nvl (chain (dep_spec d) dp_template) (JObj [])"

definition template_hash :: "deployment \<Rightarrow> string" where
  "template_hash d = computeHash (template_of d) (chain (dep_status d) dt_collisionCount)"

definition fresh_replica_set :: "deployment \<Rightarrow> replica_set" where
  "fresh_replica_set d =
     (let h = template_hash d; t = template_with_hash (template_of d) h in
      \<lparr>ao_metadata = Some (empty_meta\<lparr>om_name := Some (generateReplicaSetName (name_of d) h),
         om_namespace := Some (namespace_or d ''default''), om_ownerReferences := Some [ownerReference d],
         om_labels := Some (template_labels t)\<rparr>),
       rset_spec = Some \<lparr>rp_minReadySeconds = chain (dep_spec d) dp_minReadySeconds, rp_replicas = Some 0,
         rp_selector = cloneSelectorAndAddLabel (nvl (chain (dep_spec d) dp_selector) empty_selector) podTemplateHashLabel h,
         rp_template = Some t\<rparr>,
       rset_status = None\<rparr>)"

definition maxRevHistoryLengthInChars :: int where
  "maxRevHistoryLengthInChars = 2000"

text \<open>Storing a status that changed; the replica set comes back unless the write failed.\<close>

definition finish_new :: "'w deploy_env \<Rightarrow> bool \<Rightarrow> replica_set option \<Rightarrow> replica_set option \<Rightarrow> 'w deploy_state \<Rightarrow>
    (replica_set option \<times> api_error option) \<times> 'w deploy_state" where
  "finish_new env needsUpdate rs on_error s =
     (if needsUpdate then
        (case updateDeploymentStatus env s of
           (Some err, s) \<Rightarrow> ((on_error, Some err), s)
         | (None, s) \<Rightarrow> ((rs, None), s))
      else ((rs, None), s))"

definition existing_new :: "'w deploy_env \<Rightarrow> replica_set \<Rightarrow> string \<Rightarrow> 'w deploy_state \<Rightarrow>
    (replica_set option \<times> api_error option) \<times> 'w deploy_state" where
  "existing_new env existing newRevision s =
     (let d = dx_d s;
          (annotationsUpdated, rs) = setNewReplicaSetAnnotations d existing newRevision True maxRevHistoryLengthInChars;
          minReady = chain (dep_spec d) dp_minReadySeconds
      in if annotationsUpdated \<or> nvl (chain (rset_spec rs) rp_minReadySeconds) 0 \<noteq> nvl minReady 0 then
           let rs = with_spec d rs; rs = rs\<lparr>rset_spec := map_option (rp_minReadySeconds_update (\<lambda>_. minReady)) (rset_spec rs)\<rparr> in
           (case updateReplicaSetObject env rs s of
              (Inl err, s) \<Rightarrow> ((None, Some err), s)
            | (Inr updated, s) \<Rightarrow> ((updated, None), s))
         else
           let s = set_status (status_of d) s;
               (revised, d) = setDeploymentRevision (dx_d s) (nvl (annotation rs revisionAnnotation) []);
               s = s\<lparr>dx_d := d\<rparr>;
               missing = (hasProgressDeadline d \<and> getDeploymentCondition (dep_status d) ''Progressing'' = None);
               s = (if missing then put_condition (newDeploymentCondition (de_now env (dx_world s)) ''Progressing'' ''True''
                      ''FoundNewReplicaSet'' (''Found new replica set '' @ [CHR 0x22] @ name_of rs @ [CHR 0x22])) s else s)
           in finish_new env (revised \<or> missing) (Some rs) None s)"

text \<open>After the API has answered: \<open>created\<close> is the replica set, new or found under the same name.\<close>

definition created_new :: "'w deploy_env \<Rightarrow> replica_set \<Rightarrow> bool \<Rightarrow> int \<Rightarrow> string \<Rightarrow> 'w deploy_state \<Rightarrow>
    (replica_set option \<times> api_error option) \<times> 'w deploy_state" where
  "created_new env created alreadyExists copies newRevision s =
     (let s = (if \<not> alreadyExists \<and> copies > 0
               then dx_event ''Normal'' ''ScalingReplicaSet'' (''Scaled up replica set '' @ name_of created @ '' from 0 to '' @ show_int copies) s
               else s);
          s = set_status (status_of (dx_d s)) s;
          (revised, d) = setDeploymentRevision (dx_d s) newRevision;
          s = s\<lparr>dx_d := d\<rparr>;
          report = (\<not> alreadyExists \<and> hasProgressDeadline d);
          s = (if report then put_condition (newDeploymentCondition (de_now env (dx_world s)) ''Progressing'' ''True''
                 ''NewReplicaSetCreated'' (''Created new replica set '' @ [CHR 0x22] @ name_of created @ [CHR 0x22])) s else s)
      in finish_new env (revised \<or> report) (Some created) (Some created) s)"

text \<open>The hash collided with a replica set that is not the deployment's: count it, for the next hash.\<close>

definition count_collision :: "'w deploy_state \<Rightarrow> 'w deploy_state" where
  "count_collision s =
     set_status ((status_of (dx_d s))\<lparr>dt_collisionCount := Some (nvl (dt_collisionCount (status_of (dx_d s))) 0 + 1),
       dt_undefined := filter (\<lambda>f. f \<noteq> ''collisionCount'') (dt_undefined (status_of (dx_d s)))\<rparr>) s"

definition create_failed :: "'w deploy_env \<Rightarrow> string \<Rightarrow> api_error \<Rightarrow> 'w deploy_state \<Rightarrow> 'w deploy_state" where
  "create_failed env name err s =
     (let message = ''Failed to create new replica set '' @ [CHR 0x22] @ name @ [CHR 0x22] @ '': '' @ error_text err;
          s = (if hasProgressDeadline (dx_d s)
               then snd (updateDeploymentStatus env (put_condition (newDeploymentCondition (de_now env (dx_world s))
                      ''Progressing'' ''False'' ''ReplicaSetCreateError'' message) s))
               else s)
      in dx_event ''Warning'' ''ReplicaSetCreateError'' message s)"

definition create_new :: "'w deploy_env \<Rightarrow> replica_set list \<Rightarrow> string \<Rightarrow> 'w deploy_state \<Rightarrow>
    (replica_set option \<times> api_error option) \<times> 'w deploy_state" where
  "create_new env oldRSs newRevision s =
     (let d = dx_d s; newRS = fresh_replica_set d in
      case newRSNewReplicas d (oldRSs @ [newRS]) newRS of
        Inl err \<Rightarrow> ((None, Some (of_js_error err)), s)
      | Inr copies \<Rightarrow>
          let newRS = snd (setNewReplicaSetAnnotations d (with_replicas copies newRS) newRevision False maxRevHistoryLengthInChars) in
          case createReplicaSet env newRS s of
            (Inr created, s) \<Rightarrow> created_new env created False copies newRevision s
          | (Inl err, s) \<Rightarrow>
              if isAlreadyExistsError err then
                (case de_getReplicaSet env (namespace_or newRS ''default'') (name_of newRS) (dx_world s) of
                   Inl getErr \<Rightarrow> ((None, Some getErr), s)
                 | Inr rs \<Rightarrow>
                     if (case getControllerOf rs of None \<Rightarrow> False | Some r \<Rightarrow> Some (or_uid r) = chain (ao_metadata d) om_uid) \<and>
                        equalIgnoreHash (chain (dep_spec d) dp_template) (chain (rset_spec rs) rp_template)
                     then created_new env rs True copies newRevision s
                     else ((None, Some err), snd (updateDeploymentStatus env (count_collision s))))
              else if hasStatusCause err ''NamespaceTerminating'' then ((None, Some err), s)
              else ((None, Some err), create_failed env (name_of newRS) err s))"

definition getNewReplicaSet :: "'w deploy_env \<Rightarrow> replica_set list \<Rightarrow> replica_set list \<Rightarrow> bool \<Rightarrow> 'w deploy_state \<Rightarrow>
    (replica_set option \<times> api_error option) \<times> 'w deploy_state" where
  "getNewReplicaSet env rsList oldRSs createIfNotExisted s =
     (let newRevision = show_int (maxRevision oldRSs + 1) in
      case snd (findNewReplicaSet (de_lc env) (dx_d s) rsList) of
        Some existing \<Rightarrow> existing_new env existing newRevision s
      | None \<Rightarrow> if \<not> createIfNotExisted then ((None, None), s) else create_new env oldRSs newRevision s)"

definition getAllReplicaSetsAndSyncRevision :: "'w deploy_env \<Rightarrow> replica_set list \<Rightarrow> bool \<Rightarrow> 'w deploy_state \<Rightarrow>
    (api_error + replica_set option \<times> replica_set list) \<times> 'w deploy_state" where
  "getAllReplicaSetsAndSyncRevision env rsList createIfNotExisted s =
     (let oldRSs = snd (snd (findOldReplicaSets (de_lc env) (dx_d s) rsList)) in
      case getNewReplicaSet env rsList oldRSs createIfNotExisted s of
        ((_, Some err), s) \<Rightarrow> (Inl err, s)
      | ((newRS, None), s) \<Rightarrow> (Inr (newRS, oldRSs), s))"

section \<open>Cleaning up\<close>

definition idle :: "replica_set \<Rightarrow> bool" where
  "idle rs \<longleftrightarrow> nvl (chain (rset_status rs) rt_replicas) 0 = 0 \<and> size_of rs = 0 \<and>
     nvl (chain (ao_metadata rs) om_generation) 0 \<le> nvl (chain (rset_status rs) rt_observedGeneration) 0 \<and>
     chain (ao_metadata rs) om_deletionTimestamp = None"

fun delete_idle :: "'w deploy_env \<Rightarrow> replica_set list \<Rightarrow> 'w deploy_state \<Rightarrow> api_error option \<times> 'w deploy_state" where
  "delete_idle env [] s = (None, s)"
| "delete_idle env (rs # rss) s =
     (if \<not> idle rs \<or> name_of rs = [] then delete_idle env rss s
      else case de_deleteReplicaSet env (name_of rs) (namespace_or rs (namespace_or (dx_d s) ''default'')) (dx_world s) of
        (Some err, w) \<Rightarrow> if isNotFoundError err then delete_idle env rss (s\<lparr>dx_world := w\<rparr>) else (Some err, s\<lparr>dx_world := w\<rparr>)
      | (None, w) \<Rightarrow> delete_idle env rss (s\<lparr>dx_world := w\<rparr>))"

definition cleanable :: "locale_compare \<Rightarrow> deployment \<Rightarrow> replica_set list \<Rightarrow> replica_set list" where
  "cleanable lc d oldRSs =
     (let alive = filter (\<lambda>rs. chain (ao_metadata rs) om_deletionTimestamp = None) oldRSs;
          diff = int (length alive) - nvl (chain (dep_spec d) dp_revisionHistoryLimit) 0
      in if diff \<le> 0 then [] else take (nat diff) (js_sort (by_revision lc) alive))"

definition cleanupDeployment :: "'w deploy_env \<Rightarrow> replica_set list \<Rightarrow> 'w deploy_state \<Rightarrow> api_error option \<times> 'w deploy_state" where
  "cleanupDeployment env oldRSs s =
     (if \<not> hasRevisionHistoryLimit (dx_d s) then (None, s) else delete_idle env (cleanable (de_lc env) (dx_d s) oldRSs) s)"

section \<open>Roll outs\<close>

text \<open>Each step returns an error or goes on.\<close>

definition complete_rollout :: "'w deploy_env \<Rightarrow> replica_set list \<Rightarrow> replica_set list \<Rightarrow> replica_set \<Rightarrow> 'w deploy_state \<Rightarrow>
    api_error option \<times> 'w deploy_state" where
  "complete_rollout env allRSs oldRSs newRS s =
     (case (if deploymentComplete (dx_d s) (status_of (dx_d s)) then cleanupDeployment env oldRSs s else (None, s)) of
        (Some err, s) \<Rightarrow> (Some err, s)
      | (None, s) \<Rightarrow> syncRolloutStatus env allRSs (Some newRS) s)"

definition rolloutRolling :: "'w deploy_env \<Rightarrow> replica_set list \<Rightarrow> 'w deploy_state \<Rightarrow> api_error option \<times> 'w deploy_state" where
  "rolloutRolling env rsList s =
     (case getAllReplicaSetsAndSyncRevision env rsList True s of
        (Inl err, s) \<Rightarrow> (Some err, s)
      | (Inr (None, _), s) \<Rightarrow> (None, s)
      | (Inr (Some newRS, oldRSs), s) \<Rightarrow>
          let allRSs = oldRSs @ [newRS] in
          (case reconcileNewReplicaSet env allRSs newRS s of
             ((_, Some err), s) \<Rightarrow> (Some err, s)
           | ((True, None), s) \<Rightarrow> syncRolloutStatus env allRSs (Some newRS) s
           | ((False, None), s) \<Rightarrow>
               (case reconcileOldReplicaSets env allRSs (filterActiveReplicaSets oldRSs) newRS s of
                  ((_, Some err), s) \<Rightarrow> (Some err, s)
                | ((True, None), s) \<Rightarrow> syncRolloutStatus env allRSs (Some newRS) s
                | ((False, None), s) \<Rightarrow> complete_rollout env allRSs oldRSs newRS s)))"

text \<open>
  \<open>scaleDownOldReplicaSetsForRecreate\<close> stores what the API returns in the objects of the list, so the list
  comes back with the result.
\<close>

fun recreate_loop :: "'w deploy_env \<Rightarrow> replica_set list \<Rightarrow> replica_set list \<Rightarrow> bool \<Rightarrow> 'w deploy_state \<Rightarrow>
    (bool \<times> api_error option \<times> replica_set list) \<times> 'w deploy_state" where
  "recreate_loop env fin [] scaled s = ((scaled, None, fin), s)"
| "recreate_loop env fin (rs # rss) scaled s =
     (if size_of rs = 0 then recreate_loop env (fin @ [rs]) rss scaled s
      else case scaleReplicaSet env rs 0 False s of
        ((_, _, Some err), s) \<Rightarrow> ((False, Some err, fin @ rs # rss), s)
      | ((True, updated, None), s) \<Rightarrow>
          recreate_loop env (fin @ [case updated of None \<Rightarrow> rs | Some u \<Rightarrow>
              rs\<lparr>ao_metadata := ao_metadata u, rset_spec := rset_spec u, rset_status := rset_status u\<rparr>]) rss True s
      | ((False, _, None), s) \<Rightarrow> recreate_loop env (fin @ [rs]) rss scaled s)"

definition scaleDownOldReplicaSetsForRecreate :: "'w deploy_env \<Rightarrow> replica_set list \<Rightarrow> 'w deploy_state \<Rightarrow>
    (bool \<times> api_error option \<times> replica_set list) \<times> 'w deploy_state" where
  "scaleDownOldReplicaSetsForRecreate env oldRSs s = recreate_loop env [] oldRSs False s"

definition scaleUpNewReplicaSetForRecreate :: "'w deploy_env \<Rightarrow> replica_set \<Rightarrow> 'w deploy_state \<Rightarrow>
    (bool \<times> api_error option) \<times> 'w deploy_state" where
  "scaleUpNewReplicaSetForRecreate env newRS s =
     (case scaleReplicaSet env newRS (desired_of (dx_d s)) False s of ((scaled, _, err), s) \<Rightarrow> ((scaled, err), s))"

text \<open>The active objects of a list are the ones that were scaled; the others are as they were.\<close>

fun put_active :: "replica_set list \<Rightarrow> replica_set list \<Rightarrow> replica_set list" where
  "put_active [] updated = []"
| "put_active (rs # rss) updated =
     (if filterActiveReplicaSets [rs] = [] then rs # put_active rss updated
      else case updated of [] \<Rightarrow> rs # put_active rss [] | u # us \<Rightarrow> u # put_active rss us)"

definition pod_running :: "pod \<Rightarrow> bool" where
  "pod_running p \<longleftrightarrow> phase_of p \<noteq> Some ''Failed'' \<and> phase_of p \<noteq> Some ''Succeeded''"

definition oldPodsRunning :: "replica_set option \<Rightarrow> replica_set list \<Rightarrow> (string, pod list) jmap \<Rightarrow> bool" where
  "oldPodsRunning newRS oldRSs podMap \<longleftrightarrow>
     getActualReplicaCount oldRSs > 0 \<or>
     list_ex (\<lambda>(uid, pods). chain (chain newRS ao_metadata) om_uid \<noteq> Some uid \<and> list_ex pod_running pods) podMap"

definition scale_up_recreate :: "'w deploy_env \<Rightarrow> replica_set list \<Rightarrow> replica_set list \<Rightarrow> replica_set \<Rightarrow> 'w deploy_state \<Rightarrow>
    api_error option \<times> 'w deploy_state" where
  "scale_up_recreate env allRSs oldRSs newRS s =
     (case scaleUpNewReplicaSetForRecreate env newRS s of
        ((_, Some err), s) \<Rightarrow> (Some err, s)
      | ((_, None), s) \<Rightarrow> complete_rollout env allRSs oldRSs newRS s)"

definition rolloutRecreate :: "'w deploy_env \<Rightarrow> replica_set list \<Rightarrow> (string, pod list) jmap \<Rightarrow> 'w deploy_state \<Rightarrow>
    api_error option \<times> 'w deploy_state" where
  "rolloutRecreate env rsList podMap s =
     (case getAllReplicaSetsAndSyncRevision env rsList False s of
        (Inl err, s) \<Rightarrow> (Some err, s)
      | (Inr (newRS, oldRSs), s) \<Rightarrow>
          (case scaleDownOldReplicaSetsForRecreate env (filterActiveReplicaSets oldRSs) s of
             ((_, Some err, _), s) \<Rightarrow> (Some err, s)
           | ((scaledDown, None, updated), s) \<Rightarrow>
               let oldRSs = put_active oldRSs updated in
               if scaledDown \<or> oldPodsRunning newRS oldRSs podMap
               then syncRolloutStatus env (oldRSs @ opt_list newRS) newRS s
               else case newRS of
                 Some rs \<Rightarrow> scale_up_recreate env (oldRSs @ [rs]) oldRSs rs s
               | None \<Rightarrow>
                   (case getAllReplicaSetsAndSyncRevision env rsList True s of
                      (Inl err, s) \<Rightarrow> (Some err, s)
                    | (Inr (None, _), s) \<Rightarrow> (None, s)
                    | (Inr (Some rs, oldRSs), s) \<Rightarrow> scale_up_recreate env (oldRSs @ [rs]) oldRSs rs s)))"

section \<open>The sync\<close>

definition syncStatusOnly :: "'w deploy_env \<Rightarrow> replica_set list \<Rightarrow> 'w deploy_state \<Rightarrow> api_error option \<times> 'w deploy_state" where
  "syncStatusOnly env rsList s =
     (case getAllReplicaSetsAndSyncRevision env rsList False s of
        (Inl err, s) \<Rightarrow> (Some err, s)
      | (Inr (newRS, oldRSs), s) \<Rightarrow> syncDeploymentStatus env (oldRSs @ opt_list newRS) newRS s)"

definition is_paused :: "deployment \<Rightarrow> bool" where
  "is_paused d \<longleftrightarrow> chain (dep_spec d) dp_paused = Some True"

definition deploy_sync :: "'w deploy_env \<Rightarrow> replica_set list \<Rightarrow> 'w deploy_state \<Rightarrow> api_error option \<times> 'w deploy_state" where
  "deploy_sync env rsList s =
     (case getAllReplicaSetsAndSyncRevision env rsList False s of
        (Inl err, s) \<Rightarrow> (Some err, s)
      | (Inr (newRS, oldRSs), s) \<Rightarrow>
          (case deploy_scale env newRS oldRSs s of
             (Some err, s) \<Rightarrow> (Some err, s)
           | (None, s) \<Rightarrow>
               (case (if is_paused (dx_d s) then cleanupDeployment env oldRSs s else (None, s)) of
                  (Some err, s) \<Rightarrow> (Some err, s)
                | (None, s) \<Rightarrow> syncDeploymentStatus env (oldRSs @ opt_list newRS) newRS s)))"

definition checkPausedConditions :: "'w deploy_env \<Rightarrow> 'w deploy_state \<Rightarrow> api_error option \<times> 'w deploy_state" where
  "checkPausedConditions env s =
     (if \<not> hasProgressDeadline (dx_d s) then (None, s)
      else
        let s = set_status (status_of (dx_d s)) s;
            reason = chain (getDeploymentCondition (dep_status (dx_d s)) ''Progressing'') dc_reason;
            paused = (reason = Some ''DeploymentPaused''); now = de_now env (dx_world s)
        in if reason = Some ''ProgressDeadlineExceeded'' then (None, s)
        else if is_paused (dx_d s) \<and> \<not> paused then
          updateDeploymentStatus env (put_condition (newDeploymentCondition now ''Progressing'' ''Unknown'' ''DeploymentPaused'' ''Deployment is paused'') s)
        else if \<not> is_paused (dx_d s) \<and> paused then
          updateDeploymentStatus env (put_condition (newDeploymentCondition now ''Progressing'' ''Unknown'' ''DeploymentResumed'' ''Deployment is resumed'') s)
        else (None, s))"

definition scaling_wanted :: "deployment \<Rightarrow> replica_set list \<Rightarrow> bool" where
  "scaling_wanted d rss \<longleftrightarrow>
     list_ex (\<lambda>rs. case getDesiredReplicasAnnotation rs of (n, ok) \<Rightarrow> ok \<and> n \<noteq> desired_of d) (filterActiveReplicaSets rss)"

definition isScalingEvent :: "'w deploy_env \<Rightarrow> replica_set list \<Rightarrow> 'w deploy_state \<Rightarrow> (api_error + bool) \<times> 'w deploy_state" where
  "isScalingEvent env rsList s =
     (case getAllReplicaSetsAndSyncRevision env rsList False s of
        (Inl err, s) \<Rightarrow> (Inl err, s)
      | (Inr (newRS, oldRSs), s) \<Rightarrow> (Inr (scaling_wanted (dx_d s) (oldRSs @ opt_list newRS)), s))"

text \<open>What a sync reads besides: the lister, the adoption of replica sets, and the index of pods by owner.\<close>

record 'w deploy_reads =
  dr_getDeployment :: "string \<Rightarrow> string \<Rightarrow> 'w \<Rightarrow> api_error + deployment option"
  dr_getReplicaSets :: "deployment \<Rightarrow> 'w \<Rightarrow> (api_error + replica_set list) \<times> 'w"
  dr_podsByOwner :: "replica_set \<Rightarrow> 'w \<Rightarrow> api_error + pod list"

definition uid_of :: "'a api_object_scheme \<Rightarrow> string" where
  "uid_of obj = nvl (chain (ao_metadata obj) om_uid) []"

fun pods_of_sets :: "'w deploy_reads \<Rightarrow> 'w \<Rightarrow> replica_set list \<Rightarrow> (string, pod list) jmap \<Rightarrow> api_error + (string, pod list) jmap" where
  "pods_of_sets reads w [] m = Inr m"
| "pods_of_sets reads w (rs # rss) m =
     (if uid_of rs = [] then pods_of_sets reads w rss m
      else case dr_podsByOwner reads rs w of
        Inl err \<Rightarrow> Inl err
      | Inr pods \<Rightarrow> pods_of_sets reads w rss (jm_set (uid_of rs) pods m))"

definition getPodMapForDeployment :: "'w deploy_reads \<Rightarrow> 'w \<Rightarrow> replica_set list \<Rightarrow> api_error + (string, pod list) jmap" where
  "getPodMapForDeployment reads w rss =
     pods_of_sets reads w rss (fold (\<lambda>rs m. if uid_of rs = [] then m else jm_set (uid_of rs) [] m) rss [])"

definition selects_all :: "deployment \<Rightarrow> bool" where
  "selects_all d \<longleftrightarrow> nvl (chain (dep_spec d) dp_selector) empty_selector = empty_selector"

definition refuse_selector :: "'w deploy_env \<Rightarrow> 'w deploy_state \<Rightarrow> 'w deploy_state" where
  "refuse_selector env s =
     (let s = dx_event ''Warning'' ''SelectingAll'' ''This deployment is selecting all pods. A non-empty selector is required.'' s;
          generation = chain (ao_metadata (dx_d s)) om_generation
      in if nvl (chain (dep_status (dx_d s)) dt_observedGeneration) 0 < nvl generation 0
         then snd (updateDeploymentStatus env (set_status ((status_of (dx_d s))\<lparr>dt_observedGeneration := generation\<rparr>) s))
         else s)"

definition roll_out :: "'w deploy_env \<Rightarrow> replica_set list \<Rightarrow> (string, pod list) jmap \<Rightarrow> 'w deploy_state \<Rightarrow> api_error option \<times> 'w deploy_state" where
  "roll_out env rsList podMap s =
     (case chain (strategy_of (dx_d s)) ds_type of
        None \<Rightarrow> rolloutRolling env rsList s
      | Some t \<Rightarrow>
          if t = ''Recreate'' then rolloutRecreate env rsList podMap s
          else if t = ''RollingUpdate'' then rolloutRolling env rsList s
          else (Some (plain_error (''unexpected deployment strategy type: '' @ t)), s))"

definition sync_found :: "'w deploy_env \<Rightarrow> 'w deploy_reads \<Rightarrow> 'w deploy_state \<Rightarrow> api_error option \<times> 'w deploy_state" where
  "sync_found env reads s =
     (if selects_all (dx_d s) then (None, refuse_selector env s)
      else case dr_getReplicaSets reads (dx_d s) (dx_world s) of
        (Inl err, w) \<Rightarrow> (Some err, s\<lparr>dx_world := w\<rparr>)
      | (Inr rsList, w) \<Rightarrow>
          let s = s\<lparr>dx_world := w\<rparr> in
          (case getPodMapForDeployment reads w rsList of
             Inl err \<Rightarrow> (Some err, s)
           | Inr podMap \<Rightarrow>
               if chain (ao_metadata (dx_d s)) om_deletionTimestamp \<noteq> None then syncStatusOnly env rsList s
               else case checkPausedConditions env s of
                 (Some err, s) \<Rightarrow> (Some err, s)
               | (None, s) \<Rightarrow>
                   if is_paused (dx_d s) then deploy_sync env rsList s
                   else case isScalingEvent env rsList s of
                     (Inl err, s) \<Rightarrow> (Some err, s)
                   | (Inr True, s) \<Rightarrow> deploy_sync env rsList s
                   | (Inr False, s) \<Rightarrow> roll_out env rsList podMap s))"

definition syncDeployment :: "'w deploy_env \<Rightarrow> 'w deploy_reads \<Rightarrow> string \<Rightarrow> 'w deploy_state \<Rightarrow> api_error option \<times> 'w deploy_state" where
  "syncDeployment env reads key s =
     (case splitMetaNamespaceKey key of
        (_, _, Some err) \<Rightarrow> (Some (of_js_error err), s)
      | (ns, name, None) \<Rightarrow>
          (case dr_getDeployment reads ns name (dx_world s) of
             Inl err \<Rightarrow> (if isNotFoundError err then None else Some err, s)
           | Inr None \<Rightarrow> (None, s)
           | Inr (Some d) \<Rightarrow> sync_found env reads (s\<lparr>dx_d := d\<rparr>)))"

text \<open>What happens to the key after a sync.\<close>

datatype key_fate = KeyForget | KeyAddRateLimited

definition handleErr :: "api_error option \<Rightarrow> nat \<Rightarrow> key_fate" where
  "handleErr err numRequeues =
     (case err of
        None \<Rightarrow> KeyForget
      | Some e \<Rightarrow>
          if hasStatusCause e ''NamespaceTerminating'' then KeyForget
          else if numRequeues < 15 then KeyAddRateLimited
          else KeyForget)"

end
