(* ===== verification/DeploymentLaws.thy ===== *)
theory DeploymentLaws
  imports DeploymentSync
begin

text \<open>
  What the sync of a deployment guarantees: a rolling update makes progress in every round until it is
  done, a paused deployment creates nothing, recreating waits for the old pods, cleaning up keeps the
  history and every replica set in use, the status counts what the replica sets report, and a new replica
  set is created within the surge.
\<close>

section \<open>Rolling makes progress\<close>

text \<open>An API server that accepts every replace.\<close>

definition accepts_replace :: "'w deploy_env \<Rightarrow> bool" where
  "accepts_replace env \<longleftrightarrow> (\<forall>name ns rs w. is_ok (fst (de_replaceReplicaSet env name ns rs w)))"

text \<open>How far the replica sets are from the goal: all pods in the new one.\<close>

definition size_at :: "'w deploy_state \<Rightarrow> string \<Rightarrow> int" where
  "size_at s k = (case at_key s k of None \<Rightarrow> 0 | Some r \<Rightarrow> size_of r)"

definition distance :: "'w deploy_state \<Rightarrow> string \<Rightarrow> string list \<Rightarrow> int" where
  "distance s new ks = \<bar>desired_of (dx_d s) - size_at s new\<bar> + asked s ks"

lemma asked_size: "asked s ks = (\<Sum>k \<leftarrow> ks. size_at s k)"
  by (simp add: asked_def size_at_def)

lemma asked_other: "dx_replicaSets s' = jm_set k r (dx_replicaSets s) \<Longrightarrow> k \<notin> set ks \<Longrightarrow> asked s' ks = asked s ks"
  by (induction ks) (auto simp: asked_def at_key_def)

text \<open>One scaling that changes the size stores the new size.\<close>

lemma scale_stores:
  assumes "keeps_replicas env" "accepts_replace env" "known s rs" "n \<noteq> size_of rs"
  obtains r s' where "scaleReplicaSet env rs n False s = ((True, Some r, None), s')" "dx_d s' = dx_d s"
    "dx_replicaSets s' = jm_set (replicaSetKey rs) r (dx_replicaSets s)" "size_of r = n"
proof -
  obtain b u e s' where call: "scaleReplicaSet env rs n False s = ((b, u, e), s')" by (metis prod.collapse)
  have name: "name_of rs \<noteq> []" using assms(3) by (simp add: known_def)
  let ?copy = "snd (setReplicasAnnotations (with_replicas n (with_spec (dx_d s) rs)) (desired_of (dx_d s)) (max_replicas (dx_d s)))"
  obtain x w where x: "de_replaceReplicaSet env (name_of rs) (namespace_or rs (namespace_or (dx_d s) ''default'')) ?copy (dx_world s) = (Inr x, w)"
    using assms(2) unfolding accepts_replace_def by (metis (no_types, lifting) old.sum.exhaust prod.collapse sum.case(1))
  have "b \<and> e = None"
    using call name assms(4) x by (auto simp: scaleReplicaSet_def Let_def)
  with call have call': "scaleReplicaSet env rs n False s = ((True, u, None), s')" by simp
  from assms(1) name call' show thesis
  proof (cases rule: scale_result)
    case same
    then show thesis using assms(4) by simp
  next
    case (stored r)
    then show thesis using that call' by simp
  qed
qed

lemma known_sizes: "\<forall>x \<in> set rss. known s x \<Longrightarrow> 0 \<le> (\<Sum>x \<leftarrow> rss. size_of x)"
  by (rule sum_list_nonneg) (auto simp: known_def)

lemma scale_down_progress:
  assumes "keeps_replicas env" "accepts_replace env"
    and "\<forall>x \<in> set rss. known s x" "distinct (map replicaSetKey rss)" "t \<le> c"
  shows "\<exists>s'. scale_down_loop env c rss t s = ((t + min (c - t) (\<Sum>x \<leftarrow> rss. size_of x), None), s') \<and> dx_d s' = dx_d s \<and>
    asked s' (map replicaSetKey rss) = asked s (map replicaSetKey rss) - min (c - t) (\<Sum>x \<leftarrow> rss. size_of x) \<and>
    (\<forall>k. k \<notin> set (map replicaSetKey rss) \<longrightarrow> at_key s' k = at_key s k)"
  using assms(3-5)
proof (induction rss arbitrary: t s)
  case (Cons rs rss)
  let ?sum = "\<Sum>x \<leftarrow> rss. size_of x" and ?down = "min (size_of rs) (c - t)"
  have rs: "known s rs" "0 \<le> size_of rs" "size_at s (replicaSetKey rs) = size_of rs"
    using Cons.prems(1) by (auto simp: known_def size_at_def)
  have nonneg: "?sum \<ge> 0" using Cons.prems(1) by (intro known_sizes [of _ s]) simp
  show ?case
  proof (cases "t \<ge> c")
    case True
    then show ?thesis using Cons.prems(3) rs(2) nonneg by auto
  next
    case more: False
    show ?thesis
    proof (cases "size_of rs = 0")
      case True
      then show ?thesis using Cons.IH [of s t] Cons.prems more rs(3)
        by (auto simp: asked_size) (simp add: size_at_def)
    next
      case False
      have "size_of rs - ?down \<noteq> size_of rs" using more False rs(2) by linarith
      from scale_stores [OF assms(1,2) rs(1) this] obtain r s1 where
        call: "scaleReplicaSet env rs (size_of rs - ?down) False s = ((True, Some r, None), s1)" "dx_d s1 = dx_d s"
        and put: "dx_replicaSets s1 = jm_set (replicaSetKey rs) r (dx_replicaSets s)" "size_of r = size_of rs - ?down" by blast
      have ne: "\<forall>x \<in> set rss. replicaSetKey x \<noteq> replicaSetKey rs" using Cons.prems(2) by (simp add: image_iff) metis
      have others: "\<forall>x \<in> set rss. known s1 x"
        using Cons.prems(1) ne known_mono [OF _ put(1)] by auto
      have "distinct (map replicaSetKey rss)" "t + ?down \<le> c" using Cons.prems(2) more by auto
      from Cons.IH [OF others this] obtain s' where
        IH: "scale_down_loop env c rss (t + ?down) s1 = ((t + ?down + min (c - (t + ?down)) ?sum, None), s')" "dx_d s' = dx_d s1"
          "asked s' (map replicaSetKey rss) = asked s1 (map replicaSetKey rss) - min (c - (t + ?down)) ?sum"
          "\<forall>k. k \<notin> set (map replicaSetKey rss) \<longrightarrow> at_key s' k = at_key s1 k" by blast
      have "\<not> size_of rs - ?down > size_of rs" using more rs(2) by linarith
      then have "scale_down_loop env c (rs # rss) t s = ((t + ?down + min (c - (t + ?down)) ?sum, None), s')"
        using more False call(1) IH(1) by (simp add: Let_def)
      moreover have "t + ?down + min (c - (t + ?down)) ?sum = t + min (c - t) (size_of rs + ?sum)"
        using more nonneg by linarith
      moreover have "size_at s' (replicaSetKey rs) = size_of rs - ?down"
        using IH(4) Cons.prems(2) put by (simp add: size_at_def at_key_def)
      moreover have "asked s1 (map replicaSetKey rss) = asked s (map replicaSetKey rss)"
        by (rule asked_other [OF put(1)]) (use ne in \<open>auto simp: image_iff\<close>)
      moreover have "\<forall>k. k \<notin> set (map replicaSetKey (rs # rss)) \<longrightarrow> at_key s' k = at_key s k"
        using IH(4) put(1) by (simp add: at_key_def)
      ultimately show ?thesis using IH(2,3) call(2) rs(3) nonneg more by (auto simp: asked_size)
    qed
  qed
qed simp

lemma cleanup_healthy:
  "\<forall>x \<in> set rss. available_of x = size_of x \<Longrightarrow> cleanup_loop env m fin rss n s = ((fin @ rss, n, None), s)"
  by (induction rss arbitrary: fin) auto

lemma sort_sum: "(\<Sum>x \<leftarrow> js_sort cmp xs. f x :: int) = (\<Sum>x \<leftarrow> xs. f x)"
  by (rule sum_list_mset_eq) simp

lemma available_all: "\<forall>x \<in> set rss. available_of x = size_of x \<Longrightarrow> getAvailableReplicaCount rss = (\<Sum>x \<leftarrow> rss. size_of x)"
  by (induction rss) (auto simp: getAvailableReplicaCount_def fold_sum)

lemma replica_count: "getReplicaCount rss = (\<Sum>x \<leftarrow> rss. size_of x)"
  by (simp add: getReplicaCount_def fold_sum)

text \<open>With every pod available, the old replica sets give what the limit allows.\<close>

lemma reconcile_old_healthy:
  fixes s :: "'w deploy_state"
  assumes "keeps_replicas env" "accepts_replace env" "\<forall>rs \<in> set oldRSs. known s rs \<and> available_of rs = size_of rs"
    and "available_of newRS = size_of newRS" "distinct (map replicaSetKey (newRS # oldRSs))"
    and "(\<Sum>x \<leftarrow> oldRSs. size_of x) > 0" "c > 0"
    and c: "c = (\<Sum>x \<leftarrow> oldRSs. size_of x) + size_of newRS - (desired_of (dx_d s) - maxUnavailable (dx_d s))"
  shows "\<exists>s2. reconcileOldReplicaSets env (oldRSs @ [newRS]) oldRSs newRS s = ((True, None), s2) \<and> dx_d s2 = dx_d s \<and>
    asked s2 (map replicaSetKey oldRSs) < asked s (map replicaSetKey oldRSs) \<and>
    size_at s2 (replicaSetKey newRS) = size_at s (replicaSetKey newRS)"
proof -
  let ?ks = "map replicaSetKey oldRSs" and ?old = "\<Sum>x \<leftarrow> oldRSs. size_of x"
  let ?sorted = "js_sort (by_creation (de_lc env)) oldRSs" and ?again = "js_sort (by_creation (de_lc env)) (js_sort (by_creation (de_lc env)) oldRSs)"
  have healthy: "\<forall>x \<in> set ?sorted. available_of x = size_of x" using assms(3) by simp
  have clean: "cleanupUnhealthyReplicas env oldRSs c s = ((?sorted, 0, None), s)"
    using cleanup_healthy [OF healthy, of env c "[]"] by (simp add: cleanupUnhealthyReplicas_def)
  have avail: "getAvailableReplicaCount (?sorted @ [newRS]) = ?old + size_of newRS"
    using available_all [of "?sorted @ [newRS]"] healthy assms(4) sort_sum [of size_of _ oldRSs] by simp
  have "distinct (map replicaSetKey ?again)"
    using assms(5) by (metis distinct.simps(2) list.map(2) mset_eq_imp_distinct_iff mset_js_sort mset_map)
  moreover have "\<forall>x \<in> set ?again. known s x" using assms(3) by simp
  ultimately obtain s2 where s2: "scale_down_loop env c ?again 0 s = ((min c ?old, None), s2)" "dx_d s2 = dx_d s"
      "asked s2 (map replicaSetKey ?again) = asked s (map replicaSetKey ?again) - min c ?old"
      "\<forall>k. k \<notin> set (map replicaSetKey ?again) \<longrightarrow> at_key s2 k = at_key s k"
    using scale_down_progress [OF assms(1,2), of ?again s 0 c] assms(7) by (auto simp: sort_sum)
  have "asked t (map replicaSetKey ?again) = asked t ?ks" for t :: "'w deploy_state"
    by (simp add: asked_size comp_def sort_sum)
  then have "asked s2 ?ks < asked s ?ks" using s2(3) assms(6,7) by simp
  moreover have "size_at s2 (replicaSetKey newRS) = size_at s (replicaSetKey newRS)"
    using s2(4) assms(5) by (simp add: size_at_def)
  moreover have down: "scaleDownOldReplicaSetsForRollingUpdate env (?sorted @ [newRS]) ?sorted s = ((min c ?old, None), s2)"
    using avail s2(1) assms(7) by (simp add: scaleDownOldReplicaSetsForRollingUpdate_def Let_def c)
  moreover have "getReplicaCount (oldRSs @ [newRS]) - (desired_of (dx_d s) - maxUnavailable (dx_d s)) - (size_of newRS - available_of newRS) = c"
    using assms(4) by (simp add: c replica_count)
  then have "reconcileOldReplicaSets env (oldRSs @ [newRS]) oldRSs newRS s = ((True, None), s2)"
    using clean down assms(6,7) by (simp only: reconcileOldReplicaSets_def Let_def) (simp add: replica_count)
  ultimately show ?thesis using s2(2) by blast
qed

text \<open>Scaling the new replica set to another size.\<close>

lemma scale_new_healthy:
  assumes "keeps_replicas env" "accepts_replace env" "known s newRS" "replicaSetKey newRS \<notin> set ks" "n \<noteq> size_of newRS"
  shows "\<exists>r s1. scaleReplicaSet env newRS n False s = ((True, Some r, None), s1) \<and>
    distance s1 (replicaSetKey newRS) ks = \<bar>desired_of (dx_d s) - n\<bar> + asked s ks"
proof -
  from scale_stores [OF assms(1,2,3,5)] obtain r s1 where
    call: "scaleReplicaSet env newRS n False s = ((True, Some r, None), s1)" "dx_d s1 = dx_d s"
    and put: "dx_replicaSets s1 = jm_set (replicaSetKey newRS) r (dx_replicaSets s)" "size_of r = n" by blast
  have "asked s1 ks = asked s ks" by (rule asked_other [OF put(1) assms(4)])
  then show ?thesis using call put by (auto simp: distance_def size_at_def at_key_def)
qed

text \<open>
  C14. A rolling update makes progress: when every pod asked for is available and the API server accepts what
  it is sent, a round of \<open>reconcileNewReplicaSet\<close> and, if that scales nothing, \<open>reconcileOldReplicaSets\<close>
  reports no error and brings the replica sets strictly nearer to the goal, all desired pods in the new one
  and none in the old ones, unless they are there. Percentages that round to no surge and nobody
  unavailable cannot stop it, as one pod may then be unavailable.
\<close>

theorem rolling_progress:
  assumes "keeps_replicas env" and "accepts_replace env"
    and "\<forall>rs \<in> set (newRS # oldRSs). known s rs \<and> available_of rs = size_of rs"
    and "distinct (map replicaSetKey (newRS # oldRSs))"
    and "chain (strategy_of (dx_d s)) ds_type = Some ''RollingUpdate''" and "0 \<le> desired_of (dx_d s)"
    and "resolveFenceposts (chain (rollingUpdate_of (dx_d s)) ru_maxSurge) (chain (rollingUpdate_of (dx_d s)) ru_maxUnavailable)
      (desired_of (dx_d s)) = Inr (surge, unavailable)" and "0 \<le> surge" and "0 \<le> unavailable"
  shows "\<exists>scaled s1. reconcileNewReplicaSet env (oldRSs @ [newRS]) newRS s = ((scaled, None), s1) \<and>
    (if scaled then distance s1 (replicaSetKey newRS) (map replicaSetKey oldRSs) < distance s (replicaSetKey newRS) (map replicaSetKey oldRSs)
     else s1 = s \<and> (\<exists>scaled' s2. reconcileOldReplicaSets env (oldRSs @ [newRS]) oldRSs newRS s = ((scaled', None), s2) \<and>
       (if scaled' then distance s2 (replicaSetKey newRS) (map replicaSetKey oldRSs) < distance s (replicaSetKey newRS) (map replicaSetKey oldRSs)
        else distance s (replicaSetKey newRS) (map replicaSetKey oldRSs) = 0)))"
proof -
  let ?d = "dx_d s" and ?new = "replicaSetKey newRS" and ?ks = "map replicaSetKey oldRSs"
  let ?desired = "desired_of ?d" and ?size = "size_of newRS" and ?old = "\<Sum>x \<leftarrow> oldRSs. size_of x"
  have new: "known s newRS" "0 \<le> ?size" "size_at s ?new = ?size" using assms(3) by (auto simp: known_def size_at_def)
  have "\<forall>x \<in> set oldRSs. known s x" using assms(3) by simp
  note old = this known_sizes [OF this]
  have dist: "distance s ?new ?ks = \<bar>?desired - ?size\<bar> + ?old" and asked_old: "asked s ?ks = ?old"
    using asked_known [OF old(1)] by (simp_all add: distance_def new(3) replica_count)
  have fence: "surge > 0 \<or> unavailable > 0"
    "getScaledValueFromIntOrPercent (Some (nvl (chain (rollingUpdate_of ?d) ru_maxSurge) (IntVal 0))) ?desired True = Inr surge"
    using assms(7-9) by (auto simp: resolveFenceposts_def Let_def split: sum.splits if_splits)
  have un: "maxUnavailable ?d = min unavailable ?desired"
    using assms(5-7,9) by (auto simp: maxUnavailable_def isRollingUpdate_def fenceposts_of_def)
  have scaled: "n \<noteq> ?size \<Longrightarrow> \<exists>r s1. scaleReplicaSet env newRS n False s = ((True, Some r, None), s1) \<and>
      distance s1 ?new ?ks = \<bar>?desired - n\<bar> + ?old" for n
    using scale_new_healthy [OF assms(1,2) new(1), of ?ks n] assms(4) asked_old by simp
  have same: "scaleReplicaSet env newRS ?size False s = ((False, Some (with_spec ?d newRS), None), s)"
    using new(1) by (simp add: scaleReplicaSet_def known_def Let_def)
  have grow: "newRSNewReplicas ?d (oldRSs @ [newRS]) newRS =
      Inr (if ?old + ?size \<ge> ?desired + surge then ?size else ?size + min (?desired + surge - (?old + ?size)) (?desired - ?size))"
    using assms(5) fence(2) by (simp add: newRSNewReplicas_def Let_def replica_count)
  have shrink: "\<exists>scaled' s2. reconcileOldReplicaSets env (oldRSs @ [newRS]) oldRSs newRS s = ((scaled', None), s2) \<and>
      (if scaled' then distance s2 ?new ?ks < distance s ?new ?ks else distance s ?new ?ks = 0)"
    if enough: "?size = ?desired \<or> ?size < ?desired \<and> ?old + ?size \<ge> ?desired + surge"
  proof (cases "?old = 0")
    case True
    then have "?size = ?desired" using enough assms(8) by linarith
    then show ?thesis using True dist by (auto simp: reconcileOldReplicaSets_def replica_count)
  next
    case False
    have c: "?old + ?size - (?desired - maxUnavailable ?d) > 0"
      unfolding un using enough fence(1) assms(6,8,9) old(2) new(2) False by linarith
    have p: "?old > 0" "\<forall>rs \<in> set oldRSs. known s rs \<and> available_of rs = size_of rs" "available_of newRS = ?size"
      using False old(2) assms(3) by auto
    from reconcile_old_healthy [OF assms(1,2) p(2,3) assms(4) p(1) c refl] obtain s2 where
      "reconcileOldReplicaSets env (oldRSs @ [newRS]) oldRSs newRS s = ((True, None), s2)" "dx_d s2 = dx_d s"
      "asked s2 ?ks < asked s ?ks" "size_at s2 ?new = size_at s ?new" by blast
    then show ?thesis by (intro exI [of _ True] exI [of _ s2]) (simp add: distance_def)
  qed
  consider (equal) "?size = ?desired" | (more) "?size > ?desired" | (full) "?size < ?desired" "?old + ?size \<ge> ?desired + surge"
    | (less) "?size < ?desired" "?old + ?size < ?desired + surge" by linarith
  then show ?thesis
  proof cases
    case equal
    then show ?thesis using shrink by (intro exI [of _ False] exI [of _ s]) (simp add: reconcileNewReplicaSet_def)
  next
    case more
    then show ?thesis using scaled [of ?desired] dist by (auto simp: reconcileNewReplicaSet_def)
  next
    case full
    then show ?thesis using shrink grow same
      by (intro exI [of _ False] exI [of _ s]) (simp add: reconcileNewReplicaSet_def Let_def)
  next
    case less
    let ?n = "?size + min (?desired + surge - (?old + ?size)) (?desired - ?size)"
    have "?n \<noteq> ?size" "\<bar>?desired - ?n\<bar> < \<bar>?desired - ?size\<bar>" using less by linarith+
    then show ?thesis using scaled [of ?n] grow less dist by (auto simp: reconcileNewReplicaSet_def)
  qed
qed

lemma rolling_progress_witness:
  "\<exists>scaled s1. reconcileNewReplicaSet echo_env [sized ''a'' 4 4, sized ''b'' 0 0] (sized ''b'' 0 0)
      (rolling_state 4 [sized ''b'' 0 0, sized ''a'' 4 4]) = ((scaled, None), s1) \<and>
    (scaled \<longrightarrow> distance s1 ''default/b'' [''default/a''] < 8)"
proof -
  let ?a = "sized ''a'' 4 4" and ?b = "sized ''b'' 0 0"
  let ?s = "rolling_state 4 [?b, ?a]"
  have acc: "accepts_replace echo_env" by (simp add: accepts_replace_def echo_env_def)
  have kn: "\<forall>rs \<in> set (?b # [?a]). known ?s rs \<and> available_of rs = size_of rs"
    by (simp add: known_def at_key_def rolling_state_def)
  have d: "dx_d ?s = rolling_deployment 4" by (simp add: rolling_state_def)
  have f: "resolveFenceposts (Some (IntVal 1)) (chain (rollingUpdate_of (rolling_deployment 4)) ru_maxUnavailable) 4 = Inr (1, 1)"
    by code_simp
  have dist: "distance ?s ''default/b'' [''default/a''] = 8"
    by (simp add: distance_def d size_at_def asked_def at_key_def rolling_state_def)
  have keys: "distinct (map replicaSetKey [?b, ?a])" by simp
  have strategy: "chain (strategy_of (dx_d ?s)) ds_type = Some ''RollingUpdate''" "0 \<le> desired_of (dx_d ?s)" by (simp_all add: d)
  have fence: "resolveFenceposts (chain (rollingUpdate_of (dx_d ?s)) ru_maxSurge) (chain (rollingUpdate_of (dx_d ?s)) ru_maxUnavailable)
      (desired_of (dx_d ?s)) = Inr (1, 1)" by (simp add: d f)
  obtain scaled s1 where r: "reconcileNewReplicaSet echo_env ([?a] @ [?b]) ?b ?s = ((scaled, None), s1)"
      "if scaled then distance s1 (replicaSetKey ?b) (map replicaSetKey [?a]) < distance ?s (replicaSetKey ?b) (map replicaSetKey [?a])
       else True"
    using rolling_progress [OF echo_keeps acc kn keys strategy fence] by (metis zero_le_one)
  from r(2) dist have "scaled \<longrightarrow> distance s1 ''default/b'' [''default/a''] < 8" by (cases scaled) simp_all
  with r(1) show ?thesis by auto
qed

section \<open>Only roll outs create replica sets\<close>

text \<open>Everything but \<open>create_new\<close> is the same with another \<open>createNamespacedReplicaSet\<close>.\<close>

abbreviation with_create :: "(string \<Rightarrow> replica_set \<Rightarrow> 'w \<Rightarrow> (api_error + replica_set) \<times> 'w) \<Rightarrow> 'w deploy_env \<Rightarrow> 'w deploy_env" where
  "with_create c env \<equiv> env\<lparr>de_createReplicaSet := c\<rparr>"

lemma env_fields:
  "de_replaceReplicaSet (with_create c env) = de_replaceReplicaSet env" "de_deleteReplicaSet (with_create c env) = de_deleteReplicaSet env"
  "de_replaceDeploymentStatus (with_create c env) = de_replaceDeploymentStatus env"
  "de_getReplicaSet (with_create c env) = de_getReplicaSet env" "de_wait (with_create c env) = de_wait env"
  "de_now (with_create c env) = de_now env" "de_lc (with_create c env) = de_lc env"
  by simp_all

lemma other_create_calls:
  "scaleReplicaSet (with_create c env) = scaleReplicaSet env"
  "updateReplicaSetObject (with_create c env) = updateReplicaSetObject env"
  "updateDeploymentStatus (with_create c env) = updateDeploymentStatus env"
  by (intro ext, simp only: scaleReplicaSet_def updateReplicaSetObject_def updateDeploymentStatus_def env_fields)+

lemma other_create_loops:
  "scale_each (with_create c env) = scale_each env"
  "scale_to_zero (with_create c env) = scale_to_zero env"
  "delete_idle (with_create c env) = delete_idle env"
  "recreate_loop (with_create c env) = recreate_loop env"
proof -
  have "scale_each (with_create c env) m rss s = scale_each env m rss s" for m rss s
    by (induction rss arbitrary: s) (auto simp: other_create_calls split: prod.split option.split)
  then show "scale_each (with_create c env) = scale_each env" by (intro ext)
  have "scale_to_zero (with_create c env) rss s = scale_to_zero env rss s" for rss s
    by (induction rss arbitrary: s) (auto simp: other_create_calls split: prod.split option.split)
  then show "scale_to_zero (with_create c env) = scale_to_zero env" by (intro ext)
  have "delete_idle (with_create c env) rss s = delete_idle env rss s" for rss s
    by (induction rss arbitrary: s) (auto split: prod.split option.split)
  then show "delete_idle (with_create c env) = delete_idle env" by (intro ext)
  have "recreate_loop (with_create c env) fin rss b s = recreate_loop env fin rss b s" for fin rss b s
    by (induction rss arbitrary: fin b s) (auto simp: other_create_calls split: prod.split option.split bool.split)
  then show "recreate_loop (with_create c env) = recreate_loop env" by (intro ext)
qed

lemmas create_free = env_fields other_create_calls other_create_loops

lemma other_create_steps:
  "finish_new (with_create c env) = finish_new env"
  "deploy_scale (with_create c env) = deploy_scale env"
  "cleanupDeployment (with_create c env) = cleanupDeployment env"
  "syncDeploymentStatus (with_create c env) = syncDeploymentStatus env"
  "syncRolloutStatus (with_create c env) = syncRolloutStatus env"
  "scaleDownOldReplicaSetsForRecreate (with_create c env) = scaleDownOldReplicaSetsForRecreate env"
  "checkPausedConditions (with_create c env) = checkPausedConditions env"
  "refuse_selector (with_create c env) = refuse_selector env"
  by (intro ext, simp only: finish_new_def deploy_scale_def cleanupDeployment_def syncDeploymentStatus_def syncRolloutStatus_def
      scaleDownOldReplicaSetsForRecreate_def checkPausedConditions_def refuse_selector_def create_free)+

lemma other_create_existing: "existing_new (with_create c env) = existing_new env"
  by (intro ext, simp only: existing_new_def create_free other_create_steps)

lemma other_create_all:
  "getAllReplicaSetsAndSyncRevision (with_create c env) rsList False = getAllReplicaSetsAndSyncRevision env rsList False"
  by (intro ext, simp only: getAllReplicaSetsAndSyncRevision_def getNewReplicaSet_def other_create_existing create_free if_True
      not_False_eq_True)

lemma other_create_sync:
  "deploy_sync (with_create c env) = deploy_sync env"
  "syncStatusOnly (with_create c env) = syncStatusOnly env"
  by (intro ext, simp only: deploy_sync_def syncStatusOnly_def other_create_all other_create_steps)+

text \<open>Writing the status keeps the deployment and the replica sets.\<close>

lemma update_status_keeps:
  "dx_d (snd (updateDeploymentStatus env s)) = dx_d s" "dx_replicaSets (snd (updateDeploymentStatus env s)) = dx_replicaSets s"
proof -
  let ?P = "\<lambda>t. dx_d t = dx_d s \<and> dx_replicaSets t = dx_replicaSets s"
  let ?op = "\<lambda>s. case de_replaceDeploymentStatus env (name_of (dx_d s)) (namespace_or (dx_d s) ''default'') (dx_d s) (dx_world s) of
      (Some err, w) \<Rightarrow> (Inl err, s\<lparr>dx_world := w\<rparr>)
    | (None, w) \<Rightarrow> (Inr (), s\<lparr>dx_world := w, dx_deployments := jm_set (nvl (deploymentKey (dx_d s)) []) (dx_d s) (dx_deployments s)\<rparr>)"
  have "?P (snd (updateDeploymentStatus env s))"
  proof (cases "name_of (dx_d s) = []")
    case False
    let ?op' = "\<lambda>t. case de_replaceDeploymentStatus env (name_of (dx_d s)) (namespace_or (dx_d s) ''default'') (dx_d t) (dx_world t) of
      (Some err, w) \<Rightarrow> (Inl err, t\<lparr>dx_world := w\<rparr>)
    | (None, w) \<Rightarrow> (Inr (), t\<lparr>dx_world := w, dx_deployments := jm_set (nvl (deploymentKey (dx_d t)) []) (dx_d t) (dx_deployments t)\<rparr>)"
    have "?P (snd (retryConflicts (\<lambda>k s. s\<lparr>dx_world := de_wait env k (dx_world s)\<rparr>) ?op' s))"
      by (rule retryConflicts_keeps) (auto split: prod.split option.split)
    then show ?thesis using False
      by (auto simp: updateDeploymentStatus_def Let_def split: prod.split sum.split)
  qed (simp add: updateDeploymentStatus_def)
  then show "dx_d (snd (updateDeploymentStatus env s)) = dx_d s" "dx_replicaSets (snd (updateDeploymentStatus env s)) = dx_replicaSets s"
    by auto
qed

lemma paused_conditions_spec: "dep_spec (dx_d (snd (checkPausedConditions env s))) = dep_spec (dx_d s)"
  by (simp add: checkPausedConditions_def Let_def update_status_keeps put_condition_def set_status_def)

text \<open>
  C17. A paused deployment creates no replica set: whatever the state, a sync of it never calls
  \<open>createNamespacedReplicaSet\<close>, so it comes out the same whatever that call would do. The same holds for a
  deployment that is being deleted.
\<close>

theorem paused_creates_nothing:
  assumes "splitMetaNamespaceKey key = (ns, name, None)" and "dr_getDeployment reads ns name (dx_world s) = Inr (Some d)"
    and "is_paused d \<or> deletion_of d \<noteq> None"
  shows "syncDeployment (env\<lparr>de_createReplicaSet := create\<rparr>) reads key s = syncDeployment env reads key s"
proof -
  have "is_paused (dx_d t) = is_paused d" if "checkPausedConditions env (s\<lparr>dx_d := d, dx_world := w\<rparr>) = (e, t)" for e t w
    using paused_conditions_spec [of env "s\<lparr>dx_d := d, dx_world := w\<rparr>"] that by (simp add: is_paused_def)
  then have "sync_found (with_create create env) reads (s\<lparr>dx_d := d\<rparr>) = sync_found env reads (s\<lparr>dx_d := d\<rparr>)"
    using assms(3) unfolding sync_found_def other_create_sync other_create_steps
    by (auto simp: Let_def deletion_of_def split: prod.split sum.split option.split)
  then show ?thesis using assms(1,2) by (simp add: syncDeployment_def)
qed

definition no_reads :: "deployment \<Rightarrow> unit deploy_reads" where
  "no_reads d = \<lparr>dr_getDeployment = \<lambda>ns name w. Inr (Some d), dr_getReplicaSets = \<lambda>d w. (Inr [], w), dr_podsByOwner = \<lambda>rs w. Inr []\<rparr>"

definition paused_deployment :: deployment where
  "paused_deployment = (rolling_deployment 3)\<lparr>dep_spec := map_option (dp_paused_update (\<lambda>_. Some True)) (dep_spec (rolling_deployment 3))\<rparr>"

lemma paused_creates_nothing_witness:
  "syncDeployment (echo_env\<lparr>de_createReplicaSet := \<lambda>ns rs w. (Inl (plain_error ''refused''), w)\<rparr>) (no_reads paused_deployment)
     ''default/web'' (rolling_state 3 []) =
   syncDeployment echo_env (no_reads paused_deployment) ''default/web'' (rolling_state 3 [])"
proof (rule paused_creates_nothing)
  show "splitMetaNamespaceKey ''default/web'' = (''default'', ''web'', None)" by (simp add: splitMetaNamespaceKey_def)
  show "is_paused paused_deployment \<or> deletion_of paused_deployment \<noteq> None"
    by (simp add: is_paused_def paused_deployment_def rolling_deployment_def)
qed (simp add: no_reads_def)

section \<open>Creating stays within the surge\<close>

lemma annotate_size: "size_of (snd (setNewReplicaSetAnnotations d rs r p n)) = size_of rs"
proof -
  have "size_of (set_annotations m rs) = size_of rs" for m rs by (simp add: set_annotations_def size_of_def)
  moreover from this have "size_of (snd (copyDeploymentAnnotationsToReplicaSet d rs)) = size_of rs"
    by (simp add: copyDeploymentAnnotationsToReplicaSet_def case_prod_beta)
  ultimately show ?thesis
    by (simp add: setNewReplicaSetAnnotations_def Let_def case_prod_beta)
qed

lemma fresh_size: "size_of (fresh_replica_set d) = 0" "size_of (with_replicas n (fresh_replica_set d)) = n"
  by (simp_all add: fresh_replica_set_def size_of_def with_replicas_def Let_def)

text \<open>
  C40. A rolling update creates its new replica set within \<open>desired + maxSurge\<close>: no replica set is ever sent to
  the API's create that asks for more pods than that limit leaves beside the old ones, nor for any pods when
  the old ones reach it already. So \<open>getNewReplicaSet\<close> comes out the same whatever a create of a larger one
  would do.
\<close>

theorem creation_within_surge:
  assumes "chain (strategy_of (dx_d s)) ds_type = Some ''RollingUpdate''"
    and "getScaledValueFromIntOrPercent (Some (nvl (chain (rollingUpdate_of (dx_d s)) ru_maxSurge) (IntVal 0)))
      (desired_of (dx_d s)) True = Inr surge"
    and "\<And>ns rs w. size_of rs \<le> max 0 (desired_of (dx_d s) + surge - getReplicaCount oldRSs) \<Longrightarrow>
      create ns rs w = de_createReplicaSet env ns rs w"
  shows "getNewReplicaSet (env\<lparr>de_createReplicaSet := create\<rparr>) rsList oldRSs createIfNotExisted s =
    getNewReplicaSet env rsList oldRSs createIfNotExisted s"
proof -
  let ?d = "dx_d s" and ?fresh = "fresh_replica_set (dx_d s)"
  have count: "getReplicaCount (oldRSs @ [?fresh]) = getReplicaCount oldRSs"
    by (simp add: getReplicaCount_def fresh_size)
  define n where "n = (if getReplicaCount oldRSs \<ge> desired_of ?d + surge then 0
    else min (desired_of ?d + surge - getReplicaCount oldRSs) (desired_of ?d))"
  have n: "newRSNewReplicas ?d (oldRSs @ [?fresh]) ?fresh = Inr n"
    using assms(1,2) by (simp add: newRSNewReplicas_def count fresh_size Let_def n_def)
  have n_le: "n \<le> max 0 (desired_of ?d + surge - getReplicaCount oldRSs)" by (simp add: n_def)
  let ?rs = "snd (setNewReplicaSetAnnotations ?d (with_replicas n ?fresh) (show_int (maxRevision oldRSs + 1)) False maxRevHistoryLengthInChars)"
  have "size_of ?rs = n" by (simp add: annotate_size fresh_size)
  then have "createReplicaSet (with_create create env) ?rs s = createReplicaSet env ?rs s"
    using assms(3) n_le by (simp add: createReplicaSet_def)
  moreover have "created_new (with_create create env) = created_new env" "create_failed (with_create create env) = create_failed env"
    by (intro ext, simp only: created_new_def create_failed_def create_free other_create_steps)+
  ultimately show ?thesis
    by (simp add: getNewReplicaSet_def other_create_existing create_new_def Let_def n create_free
        split: option.split sum.split prod.split)
qed

text \<open>Four pods are asked for, one more may be, and an old set asks for four: at most one more is ever asked for.\<close>

lemma creation_within_surge_witness:
  "getNewReplicaSet (echo_env\<lparr>de_createReplicaSet := \<lambda>ns rs w. if size_of rs \<le> 1 then (Inr rs, w) else (Inl (plain_error ''refused''), w)\<rparr>)
     [] [sized ''a'' 4 4] True (rolling_state 4 [sized ''a'' 4 4]) =
   getNewReplicaSet echo_env [] [sized ''a'' 4 4] True (rolling_state 4 [sized ''a'' 4 4])"
proof (rule creation_within_surge)
  have d: "dx_d (rolling_state 4 [sized ''a'' 4 4]) = rolling_deployment 4" by (simp add: rolling_state_def)
  show "chain (strategy_of (dx_d (rolling_state 4 [sized ''a'' 4 4]))) ds_type = Some ''RollingUpdate''" unfolding d by simp
  show "getScaledValueFromIntOrPercent (Some (nvl (chain (rollingUpdate_of (dx_d (rolling_state 4 [sized ''a'' 4 4]))) ru_maxSurge) (IntVal 0)))
      (desired_of (dx_d (rolling_state 4 [sized ''a'' 4 4]))) True = Inr 1" unfolding d by code_simp
  show "(if size_of rs \<le> 1 then (Inr rs, w) else (Inl (plain_error ''refused''), w)) = de_createReplicaSet echo_env ns rs w"
    if "size_of rs \<le> max 0 (desired_of (dx_d (rolling_state 4 [sized ''a'' 4 4])) + 1 - getReplicaCount [sized ''a'' 4 4])" for ns rs w
    using that unfolding d by (simp add: echo_env_def getReplicaCount_def)
qed

section \<open>Recreating waits for the old pods\<close>

lemma rollout_status_keeps:
  "dx_replicaSets (snd (syncRolloutStatus env allRSs newRS s)) = dx_replicaSets s"
proof -
  have "dx_replicaSets (snd (requeueStuckDeployment now new t)) = dx_replicaSets t" for now new and t :: "'a deploy_state"
    by (auto simp: requeueStuckDeployment_def Let_def split: option.split sum.split)
  then show ?thesis
    by (auto simp: syncRolloutStatus_def Let_def update_status_keeps set_status_def split: sum.split)
qed

text \<open>Scaling to zero never raises what is asked for.\<close>

lemma recreate_asks_less:
  assumes "keeps_replicas env" "distinct ks" "\<forall>x \<in> set rss. held s x \<and> size_of x \<ge> 0" "distinct (map replicaSetKey rss)"
    and "recreate_loop env fin rss b s = (r, s')"
  shows "asked s' ks \<le> asked s ks"
  using assms(3-5)
proof (induction rss arbitrary: fin b s)
  case (Cons rs rss)
  have ne: "\<forall>x \<in> set rss. replicaSetKey x \<noteq> replicaSetKey rs" using Cons.prems(2) by (simp add: image_iff) metis
  show ?case
  proof (cases "size_of rs = 0")
    case True
    then show ?thesis using Cons.IH [of s] Cons.prems by auto
  next
    case False
    obtain x u e s1 where call: "scaleReplicaSet env rs 0 False s = ((x, u, e), s1)" by (metis prod.collapse)
    have rs: "held s rs" "name_of rs \<noteq> []" "0 \<le> size_of rs" using Cons.prems(1) by (auto simp: held_def)
    obtain r0 where r0: "at_key s (replicaSetKey rs) = Some r0" "size_of r0 = size_of rs" "0 \<le> size_of rs"
      using rs(1,3) by (auto simp: held_def)
    from assms(1) rs(2) call have s1: "asked s1 ks \<le> asked s ks \<and> (\<forall>x \<in> set rss. held s1 x \<and> size_of x \<ge> 0)"
    proof (cases rule: scale_result)
      case same
      then show ?thesis using Cons.prems(1) asked_same [OF same(1)] held_same [OF same(1)] by simp
    next
      case (stored y)
      have "\<forall>x \<in> set rss. held s1 x \<and> size_of x \<ge> 0" using Cons.prems(1) ne held_mono [OF _ stored(1)] by simp
      then show ?thesis using asked_put [OF assms(2) stored(1) r0(1)] stored(5) r0(2,3) by simp
    qed
    obtain fin' b' where "recreate_loop env fin' rss b' s1 = (r, s') \<or> s' = s1"
      using Cons.prems(3) False call by (cases e; cases x) auto
    then show ?thesis using Cons.IH [of s1 fin' b'] s1 Cons.prems(2) by auto
  qed
qed simp

lemma active_size: "nvl (chain (rset_spec rs) rp_replicas) 0 > 0 \<Longrightarrow> size_of rs \<ge> 0"
  by (cases "chain (rset_spec rs) rp_replicas") (auto simp: size_of_def)

text \<open>
  C15. A deployment with the strategy Recreate waits: as long as a pod of another replica set than the new one
  has neither failed nor succeeded, a roll out creates no replica set (it is the same whatever a create
  would do), and scales none up: over any keys, no more pods are asked for afterwards than when the
  replica sets were read. This includes the rounds in which the old sets are scaled to zero already and
  their pods still run. The old replica sets are ones the controller holds, with keys of their own, and the
  API's replace returns what was written.
\<close>

theorem recreate_waits:
  assumes "keeps_replicas env"
    and "getAllReplicaSetsAndSyncRevision env rsList False s = (Inr (newRS, oldRSs), s1)"
    and "\<forall>x \<in> set oldRSs. held s1 x" and "distinct (map replicaSetKey oldRSs)" and "distinct ks"
    and "(uid, pods) \<in> set podMap" and "chain (chain newRS ao_metadata) om_uid \<noteq> Some uid"
    and "p \<in> set pods" and "pod_running p"
  shows "rolloutRecreate (env\<lparr>de_createReplicaSet := create\<rparr>) rsList podMap s = rolloutRecreate env rsList podMap s \<and>
    asked (snd (rolloutRecreate env rsList podMap s)) ks \<le> asked s1 ks"
proof -
  have running: "oldPodsRunning newRS rss podMap" for rss
    using assms(6-9) by (auto simp: oldPodsRunning_def list_ex_iff)
  let ?active = "filterActiveReplicaSets oldRSs"
  obtain b e updated s2 where down: "scaleDownOldReplicaSetsForRecreate env ?active s1 = ((b, e, updated), s2)" by (metis prod.collapse)
  have "\<forall>x \<in> set ?active. held s1 x \<and> size_of x \<ge> 0" "distinct (map replicaSetKey ?active)"
    using assms(3,4) by (auto simp: filterActiveReplicaSets_def distinct_map_filter active_size)
  then have "asked s2 ks \<le> asked s1 ks"
    using recreate_asks_less [OF assms(1,5), of ?active s1] down
    unfolding scaleDownOldReplicaSetsForRecreate_def by blast
  moreover have "asked (snd (syncRolloutStatus env rss n s2)) ks = asked s2 ks" for rss n
    by (rule asked_same) (rule rollout_status_keeps)
  ultimately show ?thesis
    using assms(2) down running
    by (cases e) (simp_all add: rolloutRecreate_def other_create_all other_create_steps Let_def)
qed

definition running_pod :: pod where
  "running_pod = \<lparr>ao_metadata = None, pod_specification = None, pod_state = Some (empty_pod_status\<lparr>pt_phase := Some ''Running''\<rparr>)\<rparr>"

text \<open>Replica sets of an older template.\<close>

definition outdated :: "string \<Rightarrow> int \<Rightarrow> int \<Rightarrow> replica_set" where
  "outdated name n a =
     (sized name n a)\<lparr>rset_spec := Some \<lparr>rp_minReadySeconds = None, rp_replicas = Some n, rp_selector = empty_selector,
        rp_template = Some (JObj [(''version'', JStr ''1'')])\<rparr>\<rparr>"

lemma outdated_simps [simp]:
  "size_of (outdated name n a) = n" "available_of (outdated name n a) = a" "name_of (outdated name n a) = name"
  "replicaSetKey (outdated name n a) = ''default/'' @ name"
  by (simp_all add: outdated_def sized_def size_of_def available_of_def name_of_def replicaSetKey_def namespace_or_def empty_meta_def)

text \<open>One old set is scaled to zero with two pods still there, the other asks for two.\<close>

lemma recreate_waits_witness:
  "asked (snd (rolloutRecreate echo_env [outdated ''a'' 0 2, outdated ''b'' 2 2] [(''old'', [running_pod])]
     (rolling_state 3 [outdated ''a'' 0 2, outdated ''b'' 2 2]))) [''default/a'', ''default/b''] \<le> 2"
proof -
  let ?rss = "[outdated ''a'' 0 2, outdated ''b'' 2 2]"
  let ?s = "rolling_state 3 ?rss"
  have "getAllReplicaSetsAndSyncRevision echo_env ?rss False ?s = (Inr (None, ?rss), ?s)"
    by code_simp
  moreover have "pod_running running_pod" by (simp add: pod_running_def running_pod_def phase_of_def)
  moreover have "asked ?s [''default/a'', ''default/b''] = 2" by (simp add: asked_def at_key_def rolling_state_def)
  moreover have "\<forall>x \<in> set ?rss. held ?s x" by (simp add: held_def at_key_def rolling_state_def)
  ultimately show ?thesis
    using recreate_waits [OF echo_keeps, of ?rss ?s None ?rss ?s "[''default/a'', ''default/b'']" "''old''" "[running_pod]"
        "[(''old'', [running_pod])]" running_pod "\<lambda>ns rs w. (Inr rs, w)"]
    by simp
qed

section \<open>Cleaning up keeps the history\<close>

lemma delete_idle_logs:
  assumes "\<forall>name ns w. logs (snd (de_deleteReplicaSet env name ns w)) = logs w @ [(ns, name)]"
    and "delete_idle env rss s = (err, s')"
  shows "\<exists>ys. logs (dx_world s') = logs (dx_world s) @
      map (\<lambda>rs. (namespace_or rs (namespace_or (dx_d s) ''default''), name_of rs)) ys \<and>
    subseq ys rss \<and> (\<forall>rs \<in> set ys. idle rs)"
  using assms(2)
proof (induction rss arbitrary: s)
  case (Cons rs rss)
  show ?case
  proof (cases "\<not> idle rs \<or> name_of rs = []")
    case True
    then obtain ys where "logs (dx_world s') = logs (dx_world s) @
        map (\<lambda>rs. (namespace_or rs (namespace_or (dx_d s) ''default''), name_of rs)) ys" "subseq ys rss" "\<forall>rs \<in> set ys. idle rs"
      using Cons.IH [of s] Cons.prems by auto
    then show ?thesis by (intro exI [of _ ys]) auto
  next
    case False
    let ?ns = "namespace_or rs (namespace_or (dx_d s) ''default'')"
    obtain e w where del: "de_deleteReplicaSet env (name_of rs) ?ns (dx_world s) = (e, w)"
      by (cases "de_deleteReplicaSet env (name_of rs) ?ns (dx_world s)")
    have w: "logs w = logs (dx_world s) @ [(?ns, name_of rs)]" using assms(1) del by (metis snd_conv)
    consider (stop) "s' = s\<lparr>dx_world := w\<rparr>" | (go) "delete_idle env rss (s\<lparr>dx_world := w\<rparr>) = (err, s')"
      using Cons.prems False del by (cases e) (auto split: if_splits)
    then show ?thesis
    proof cases
      case stop
      then show ?thesis using w False by (intro exI [of _ "[rs]"]) simp
    next
      case go
      from Cons.IH [OF this] obtain ys where "logs (dx_world s') = logs w @
          map (\<lambda>rs. (namespace_or rs (namespace_or (dx_d s) ''default''), name_of rs)) ys" "subseq ys rss" "\<forall>rs \<in> set ys. idle rs"
        by auto
      then show ?thesis using w False by (intro exI [of _ "rs # ys"]) auto
    qed
  qed
qed (auto intro: exI [of _ "[]"])

lemma subseq_mset: "subseq xs ys \<Longrightarrow> mset xs \<subseteq># mset ys"
  by (induction rule: list_emb.induct) (auto intro: subset_mset.order_trans)

text \<open>Where every revision can be read, \<open>by_revision\<close> sorts by it.\<close>

lemma sorted_by_revision:
  assumes "\<forall>rs \<in> set xs. snd (revision_of rs) = None"
  shows "sorted_wrt (\<lambda>x y. fst (revision_of x) \<le> fst (revision_of y)) (js_sort (by_revision lc) xs)"
proof -
  define cmp where "cmp x y =
    (if fst (revision_of x) = fst (revision_of y) then by_creation lc x y else fst (revision_of x) - fst (revision_of y))" for x y
  have ins: "insert_cmp (by_revision lc) x ys = insert_cmp cmp x ys"
    if "\<forall>rs \<in> set (x # ys). snd (revision_of rs) = None" for x ys
    using that by (induction ys) (auto simp: by_revision_def cmp_def Let_def split: prod.splits)
  have "js_sort (by_revision lc) xs = js_sort cmp xs" using assms
  proof (induction xs)
    case (Cons x xs)
    then have "\<forall>rs \<in> set (x # js_sort cmp xs). snd (revision_of rs) = None" by simp
    then show ?case using Cons ins by (simp add: js_sort_Cons)
  qed simp
  moreover have "sorted_wrt (\<lambda>x y. fst (revision_of x) \<le> fst (revision_of y)) (js_sort cmp xs)"
    by (rule js_sort_rank) (simp_all add: cmp_def)
  ultimately show ?thesis by simp
qed

lemma cleanable_split:
  fixes d :: deployment
  defines "limit \<equiv> nvl (chain (dep_spec d) dp_revisionHistoryLimit) 0"
  assumes "alive = filter (\<lambda>rs. chain (ao_metadata rs) om_deletionTimestamp = None) oldRSs" "0 \<le> limit"
  shows "\<exists>kept_sets. mset (cleanable lc d oldRSs @ kept_sets) = mset alive \<and>
    int (length kept_sets) = min (int (length alive)) limit \<and>
    ((\<forall>rs \<in> set alive. snd (revision_of rs) = None) \<longrightarrow>
       (\<forall>x \<in> set (cleanable lc d oldRSs). \<forall>y \<in> set kept_sets. fst (revision_of x) \<le> fst (revision_of y)))"
proof (cases "int (length alive) - limit \<le> 0")
  case True
  then show ?thesis using assms by (intro exI [of _ alive]) (simp add: cleanable_def Let_def)
next
  case False
  let ?n = "nat (int (length alive) - limit)" and ?xs = "js_sort (by_revision lc) alive"
  have c: "cleanable lc d oldRSs = take ?n ?xs" using False assms by (simp add: cleanable_def Let_def)
  have "mset (take ?n ?xs @ drop ?n ?xs) = mset alive" by simp
  moreover have "int (length (drop ?n ?xs)) = min (int (length alive)) limit" using False assms(3) by simp
  moreover have "\<forall>x \<in> set (take ?n ?xs). \<forall>y \<in> set (drop ?n ?xs). fst (revision_of x) \<le> fst (revision_of y)"
    if "\<forall>rs \<in> set alive. snd (revision_of rs) = None"
    using sorted_by_revision [OF that, of lc] by (metis append_take_drop_id sorted_wrt_append)
  ultimately show ?thesis unfolding c by blast
qed

text \<open>
  C16. Cleaning up a deployment deletes only old replica sets that have no pods and ask for none, whose last
  change has been observed and that are not being deleted yet, each once; without a revision history limit it
  deletes nothing. As many of the old replica sets that are not being deleted are kept as the limit says, or
  all when there are fewer, and where the revisions can be read the kept ones are at least as new as every
  deleted one. All this holds whichever deletion fails.
\<close>

theorem cleanup_keeps_history:
  assumes "\<forall>name ns w. logs (snd (de_deleteReplicaSet env name ns w)) = logs w @ [(ns, name)]"
    and "cleanupDeployment env oldRSs s = (err, s')"
    and "alive = filter (\<lambda>rs. chain (ao_metadata rs) om_deletionTimestamp = None) oldRSs"
    and "limit = nvl (chain (dep_spec (dx_d s)) dp_revisionHistoryLimit) 0" "0 \<le> limit"
  shows "\<exists>deleted kept_sets others.
    logs (dx_world s') = logs (dx_world s) @
      map (\<lambda>rs. (namespace_or rs (namespace_or (dx_d s) ''default''), name_of rs)) deleted \<and>
    (\<forall>rs \<in> set deleted. nvl (chain (rset_status rs) rt_replicas) 0 = 0 \<and> size_of rs = 0 \<and>
       nvl (chain (ao_metadata rs) om_generation) 0 \<le> nvl (chain (rset_status rs) rt_observedGeneration) 0 \<and>
       chain (ao_metadata rs) om_deletionTimestamp = None) \<and>
    (if hasRevisionHistoryLimit (dx_d s)
     then mset (deleted @ kept_sets @ others) = mset alive \<and> int (length kept_sets) = min (int (length alive)) limit \<and>
       ((\<forall>rs \<in> set alive. snd (revision_of rs) = None) \<longrightarrow>
          (\<forall>x \<in> set deleted. \<forall>y \<in> set kept_sets. fst (revision_of x) \<le> fst (revision_of y)))
     else deleted = [])"
proof (cases "hasRevisionHistoryLimit (dx_d s)")
  case False
  then show ?thesis using assms(2) by (intro exI [of _ "[]"]) (simp add: cleanupDeployment_def)
next
  case True
  let ?cs = "cleanable (de_lc env) (dx_d s) oldRSs"
  have "delete_idle env ?cs s = (err, s')" using assms(2) True by (simp add: cleanupDeployment_def)
  from delete_idle_logs [OF assms(1) this] obtain ys where ys: "logs (dx_world s') = logs (dx_world s) @
      map (\<lambda>rs. (namespace_or rs (namespace_or (dx_d s) ''default''), name_of rs)) ys"
    "subseq ys ?cs" "\<forall>rs \<in> set ys. idle rs" by blast
  obtain zs where zs: "mset (?cs @ zs) = mset alive" "int (length zs) = min (int (length alive)) limit"
    "(\<forall>rs \<in> set alive. snd (revision_of rs) = None) \<longrightarrow> (\<forall>x \<in> set ?cs. \<forall>y \<in> set zs. fst (revision_of x) \<le> fst (revision_of y))"
    using cleanable_split [OF assms(3)] assms(4,5) by blast
  from subseq_mset [OF ys(2)] obtain us where us: "mset ?cs = mset ys + mset us"
    by (metis ex_mset mset_subset_eq_exists_conv)
  then have "set ys \<subseteq> set ?cs" by (metis set_mset_mset set_mset_union Un_upper1)
  moreover have "mset (ys @ zs @ us) = mset alive" using zs(1) us by (simp add: ac_simps)
  ultimately show ?thesis using ys(1,3) zs(2,3) True
    by (intro exI [of _ ys] exI [of _ zs] exI [of _ us]) (auto simp: idle_def)
qed

definition logging_env :: "(string \<times> string) list deploy_env" where
  "logging_env = \<lparr>de_replaceReplicaSet = \<lambda>name ns rs w. (Inr rs, w), de_createReplicaSet = \<lambda>ns rs w. (Inr rs, w),
     de_deleteReplicaSet = \<lambda>name ns w. (None, w @ [(ns, name)]), de_replaceDeploymentStatus = \<lambda>name ns d w. (None, w),
     de_getReplicaSet = \<lambda>name ns w. Inl (plain_error ''gone''), de_wait = \<lambda>k w. w, de_now = \<lambda>w. 0, de_lc = \<lambda>a b. 0\<rparr>"

text \<open>A deployment that keeps one old replica set, and has two.\<close>

definition brief_deployment :: deployment where
  "brief_deployment = (rolling_deployment 3)\<lparr>dep_spec :=
     map_option (\<lambda>sp. sp\<lparr>dp_revisionHistoryLimit := Some 1\<rparr>) (dep_spec (rolling_deployment 3))\<rparr>"

definition brief_state :: "(string \<times> string) list deploy_state" where
  "brief_state = \<lparr>dx_d = brief_deployment, dx_replicaSets = [], dx_deployments = [], dx_events = [], dx_requeues = [], dx_world = []\<rparr>"

lemma cleanup_keeps_history_witness:
  "dx_world (snd (cleanupDeployment logging_env [sized ''a'' 0 0, sized ''b'' 0 0] brief_state)) = [(''default'', ''a'')] \<and>
   (\<exists>deleted :: replica_set list. map name_of deleted = [''a''] \<and> (\<forall>rs \<in> set deleted. size_of rs = 0))"
proof -
  let ?rss = "[sized ''a'' 0 0, sized ''b'' 0 0]"
  obtain err s' where call: "cleanupDeployment logging_env ?rss brief_state = (err, s')" by (metis prod.collapse)
  have run: "dx_world (snd (cleanupDeployment logging_env ?rss brief_state)) = [(''default'', ''a'')]" by code_simp
  have log: "\<forall>name ns w. id (snd (de_deleteReplicaSet logging_env name ns w)) = id w @ [(ns, name)]" by (simp add: logging_env_def)
  have limit: "(0 :: int) \<le> nvl (chain (dep_spec (dx_d brief_state)) dp_revisionHistoryLimit) 0" by code_simp
  from cleanup_keeps_history [OF log call refl refl limit] obtain deleted :: "replica_set list" where
    "dx_world s' = dx_world brief_state @ map (\<lambda>rs. (namespace_or rs (namespace_or (dx_d brief_state) ''default''), name_of rs)) deleted"
    "\<forall>rs \<in> set deleted. size_of rs = 0" by auto
  moreover have "dx_world brief_state = []" by (simp add: brief_state_def)
  ultimately have "map name_of deleted = [''a'']" using run call by (auto simp: map_eq_Cons_conv)
  with \<open>\<forall>rs \<in> set deleted. size_of rs = 0\<close> show ?thesis
    by (intro conjI run exI [of _ deleted])
qed

section \<open>The status\<close>

text \<open>Setting a condition replaces the one of its type.\<close>

lemma set_condition:
  assumes "distinct (map dc_type (nvl (dt_conditions st) []))"
  shows "distinct (map dc_type (nvl (dt_conditions (setDeploymentCondition c st)) []))"
    and "\<exists>c'. getDeploymentCondition (Some (setDeploymentCondition c st)) (dc_type c) = Some c' \<and> dc_status c' = dc_status c"
    and "t \<noteq> dc_type c \<Longrightarrow> getDeploymentCondition (Some (setDeploymentCondition c st)) t = getDeploymentCondition (Some st) t"
proof -
  have find: "List.find P (filter Q xs @ [c]) = (if P c then (case List.find P (filter Q xs) of None \<Rightarrow> Some c | x \<Rightarrow> x) else List.find P (filter Q xs))"
    for P Q :: "deployment_condition \<Rightarrow> bool" and xs c by (induction xs) auto
  have gone: "List.find (\<lambda>c. dc_type c = t) (filter (\<lambda>c. dc_type c \<noteq> t) xs) = None" for xs t by (induction xs) auto
  have kept: "t \<noteq> u \<Longrightarrow> List.find (\<lambda>c. dc_type c = t) (filter (\<lambda>c. dc_type c \<noteq> u) xs) = List.find (\<lambda>c. dc_type c = t) xs" for xs t u
    by (induction xs) auto
  note defs = setDeploymentCondition_def getDeploymentCondition_def filterOutCondition_def Let_def find gone kept distinct_map_filter
  show "distinct (map dc_type (nvl (dt_conditions (setDeploymentCondition c st)) []))"
    and "\<exists>c'. getDeploymentCondition (Some (setDeploymentCondition c st)) (dc_type c) = Some c' \<and> dc_status c' = dc_status c"
    and "t \<noteq> dc_type c \<Longrightarrow> getDeploymentCondition (Some (setDeploymentCondition c st)) t = getDeploymentCondition (Some st) t"
    using assms by (auto simp: defs split: option.splits)
qed

definition status_counts :: "replica_set list \<Rightarrow> replica_set option \<Rightarrow> deployment \<Rightarrow> deployment_status" where
  "status_counts allRSs newRS d = (deploymentStatus 0 allRSs newRS d)\<lparr>dt_conditions := Some (nvl (chain (dep_status d) dt_conditions) [])\<rparr>"

lemma deployment_status_split:
  "deploymentStatus now allRSs newRS d =
    setDeploymentCondition (availability_condition now d (getAvailableReplicaCount allRSs)) (status_counts allRSs newRS d)"
  by (simp add: status_counts_def deploymentStatus_def setDeploymentCondition_def getDeploymentCondition_def Let_def)

lemma availability_facts:
  "dc_type (availability_condition now d n) = ''Available''"
  "dc_status (availability_condition now d n) = (if n \<ge> desired_of d - maxUnavailable d then ''True'' else ''False'')"
  by (simp_all add: availability_condition_def newDeploymentCondition_def)

lemma status_condition_kept:
  assumes "distinct (map dc_type (nvl (chain (dep_status d) dt_conditions) []))" "t \<noteq> ''Available''"
  shows "getDeploymentCondition (Some (deploymentStatus now allRSs newRS d)) t = getDeploymentCondition (dep_status d) t"
  using set_condition(3) [of "status_counts allRSs newRS d" t "availability_condition now d (getAvailableReplicaCount allRSs)"] assms
  by (simp add: deployment_status_split availability_facts) (simp add: getDeploymentCondition_def status_counts_def)

lemma terminating_sum:
  "terminating_count rss acc =
     (if \<exists>rs \<in> set rss. chain (rset_status rs) rt_terminatingReplicas = None \<and> nvl (chain (rset_status rs) rt_observedGeneration) 0 \<noteq> 0 then None
      else Some (acc + (\<Sum>rs \<leftarrow> rss. nvl (chain (rset_status rs) rt_terminatingReplicas) 0)))"
  by (induction rss acc rule: terminating_count.induct) (auto split: option.splits)

text \<open>
  C18. The status that is computed counts what the replica sets report: all pods, the ready and the available
  ones of all replica sets, the updated ones of the new one; the terminating ones only if every replica set
  whose controller has observed it reports them; and as unavailable what is asked for beyond the available ones, never a negative number. Where
  the deployment has at most one condition of each type, so has the status: one of type Available, which says
  True exactly when the available pods reach \<open>desired - maxUnavailable\<close>, and the others as they were.
\<close>

theorem status_available:
  fixes d :: deployment
  assumes "distinct (map dc_type (nvl (chain (dep_status d) dt_conditions) []))"
    and "status = deploymentStatus now allRSs newRS d"
    and "available = (\<Sum>rs \<leftarrow> allRSs. nvl (chain (rset_status rs) rt_availableReplicas) 0)"
  shows "dt_availableReplicas status = Some available \<and>
    dt_replicas status = Some (\<Sum>rs \<leftarrow> allRSs. nvl (chain (rset_status rs) rt_replicas) 0) \<and>
    dt_readyReplicas status = Some (\<Sum>rs \<leftarrow> allRSs. nvl (chain (rset_status rs) rt_readyReplicas) 0) \<and>
    dt_updatedReplicas status = Some (case newRS of None \<Rightarrow> 0 | Some rs \<Rightarrow> nvl (chain (rset_status rs) rt_replicas) 0) \<and>
    dt_unavailableReplicas status =
      Some (max ((\<Sum>rs \<leftarrow> allRSs. nvl (chain (rset_spec rs) rp_replicas) 1) - available) 0) \<and>
    dt_terminatingReplicas status =
      (if \<exists>rs \<in> set allRSs. chain (rset_status rs) rt_terminatingReplicas = None \<and>
          nvl (chain (rset_status rs) rt_observedGeneration) 0 \<noteq> 0 then None
       else Some (\<Sum>rs \<leftarrow> allRSs. nvl (chain (rset_status rs) rt_terminatingReplicas) 0)) \<and>
    dt_observedGeneration status = chain (ao_metadata d) om_generation \<and>
    dt_collisionCount status = chain (dep_status d) dt_collisionCount \<and>
    distinct (map dc_type (nvl (dt_conditions status) [])) \<and>
    (\<exists>c. getDeploymentCondition (Some status) ''Available'' = Some c \<and>
      dc_status c = (if available \<ge> desired_of d - maxUnavailable d then ''True'' else ''False'')) \<and>
    (\<forall>t. t \<noteq> ''Available'' \<longrightarrow> getDeploymentCondition (Some status) t = getDeploymentCondition (dep_status d) t)"
proof -
  have av: "getAvailableReplicaCount allRSs = available"
    by (simp add: assms(3) getAvailableReplicaCount_def available_of_def fold_sum)
  let ?c = "availability_condition now d available" and ?st = "status_counts allRSs newRS d"
  have st: "distinct (map dc_type (nvl (dt_conditions ?st) []))" using assms(1) by (simp add: status_counts_def)
  have same: "dt_availableReplicas (setDeploymentCondition c x) = dt_availableReplicas x"
    "dt_unavailableReplicas (setDeploymentCondition c x) = dt_unavailableReplicas x"
    "dt_replicas (setDeploymentCondition c x) = dt_replicas x"
    "dt_readyReplicas (setDeploymentCondition c x) = dt_readyReplicas x"
    "dt_updatedReplicas (setDeploymentCondition c x) = dt_updatedReplicas x"
    "dt_terminatingReplicas (setDeploymentCondition c x) = dt_terminatingReplicas x"
    "dt_observedGeneration (setDeploymentCondition c x) = dt_observedGeneration x"
    "dt_collisionCount (setDeploymentCondition c x) = dt_collisionCount x" for c x
    by (simp_all add: setDeploymentCondition_def Let_def)
  have counts: "dt_availableReplicas status = Some available"
    "dt_replicas status = Some (\<Sum>rs \<leftarrow> allRSs. nvl (chain (rset_status rs) rt_replicas) 0)"
    "dt_readyReplicas status = Some (\<Sum>rs \<leftarrow> allRSs. nvl (chain (rset_status rs) rt_readyReplicas) 0)"
    "dt_updatedReplicas status = Some (case newRS of None \<Rightarrow> 0 | Some rs \<Rightarrow> nvl (chain (rset_status rs) rt_replicas) 0)"
    "dt_unavailableReplicas status = Some (max ((\<Sum>rs \<leftarrow> allRSs. nvl (chain (rset_spec rs) rp_replicas) 1) - available) 0)"
    "dt_terminatingReplicas status =
      (if \<exists>rs \<in> set allRSs. chain (rset_status rs) rt_terminatingReplicas = None \<and>
          nvl (chain (rset_status rs) rt_observedGeneration) 0 \<noteq> 0 then None
       else Some (\<Sum>rs \<leftarrow> allRSs. nvl (chain (rset_status rs) rt_terminatingReplicas) 0))"
    "dt_observedGeneration status = chain (ao_metadata d) om_generation"
    "dt_collisionCount status = chain (dep_status d) dt_collisionCount"
    unfolding assms(2) deploymentStatus_def Let_def same av
    by (simp_all add: getActualReplicaCount_def getReadyReplicaCount_def getReplicaCount_def getTerminatingReplicaCount_def
        size_of_def terminating_sum fold_sum split: option.split)
  have "distinct (map dc_type (nvl (dt_conditions status) []))"
    "\<exists>c. getDeploymentCondition (Some status) ''Available'' = Some c \<and> dc_status c = dc_status ?c"
    using set_condition(1,2) [OF st, of ?c] by (simp_all add: assms(2) deployment_status_split availability_facts(1) av)
  then show ?thesis using counts status_condition_kept [OF assms(1), of _ now allRSs newRS]
    by (simp only: assms(2) [symmetric] availability_facts(2)) blast
qed

lemma status_available_witness:
  "\<exists>c. getDeploymentCondition (Some (deploymentStatus 7 [sized ''a'' 3 2] None (rolling_deployment 3))) ''Available'' = Some c \<and>
    dc_status c = ''True''"
proof -
  have "dep_status (rolling_deployment 3) = None" "maxUnavailable (rolling_deployment 3) = 1"
    by (simp add: rolling_deployment_def) code_simp
  then show ?thesis
    using status_available [of "rolling_deployment 3" _ 7 "[sized ''a'' 3 2]" None, OF _ refl refl]
    by (simp add: sized_def)
qed

text \<open>
  A roll out that is stuck fails with an error once the deployment has been read back from the API server:
  the time of its Progressing condition is then a text without \<open>getTime\<close>. Neither is the exceeded deadline
  reported nor anything written.
\<close>

theorem stuck_deadline_throws:
  assumes "hasProgressDeadline (dx_d s)"
    and "getDeploymentCondition (dep_status (dx_d s)) ''Progressing'' = Some c" and "dc_lastUpdateTime c = Some (JsText t)"
    and "dc_reason c \<noteq> Some ''NewReplicaSetAvailable''" and "dc_reason c \<noteq> Some ''ProgressDeadlineExceeded''"
    and "\<not> deploymentComplete (dx_d s) (deploymentStatus (de_now env (dx_world s)) allRSs newRS (dx_d s))"
    and "\<not> deploymentProgressing (dx_d s) (deploymentStatus (de_now env (dx_world s)) allRSs newRS (dx_d s))"
    and "distinct (map dc_type (nvl (chain (dep_status (dx_d s)) dt_conditions) []))"
  shows "\<exists>err. syncRolloutStatus env allRSs newRS s = (Some err, s)"
proof -
  let ?new = "deploymentStatus (de_now env (dx_world s)) allRSs newRS (dx_d s)"
  have "getDeploymentCondition (Some ?new) ''Progressing'' = Some c"
    using status_condition_kept [OF assms(8), of "''Progressing''"] assms(2) by simp
  then have "deploymentTimedOut (de_now env (dx_world s)) (dx_d s) ?new = Inl (PlainError ''getTime is not a function'')"
    using assms(1,3-5) by (simp add: deploymentTimedOut_def get_time_def)
  then show ?thesis using assms(1,2,4,6,7) by (simp add: syncRolloutStatus_def progress_status_def Let_def)
qed

definition stuck_condition :: deployment_condition where
  "stuck_condition = \<lparr>dc_type = ''Progressing'', dc_status = ''True'', dc_lastUpdateTime = Some (JsText 0),
     dc_lastTransitionTime = Some (JsText 0), dc_reason = Some ''ReplicaSetUpdated'', dc_message = None\<rparr>"

definition stuck_deployment :: deployment where
  "stuck_deployment = (rolling_deployment 3)\<lparr>dep_spec := map_option (\<lambda>sp. sp\<lparr>dp_progressDeadlineSeconds := Some 600\<rparr>) (dep_spec (rolling_deployment 3)),
     dep_status := Some (empty_status\<lparr>dt_conditions := Some [stuck_condition]\<rparr>)\<rparr>"

lemma stuck_deadline_throws_witness:
  "\<exists>err. syncRolloutStatus echo_env [] None ((rolling_state 3 [])\<lparr>dx_d := stuck_deployment\<rparr>) =
    (Some err, (rolling_state 3 [])\<lparr>dx_d := stuck_deployment\<rparr>)"
proof (rule stuck_deadline_throws)
  let ?s = "(rolling_state 3 [])\<lparr>dx_d := stuck_deployment\<rparr>"
  show "hasProgressDeadline (dx_d ?s)" by simp code_simp
  show "getDeploymentCondition (dep_status (dx_d ?s)) ''Progressing'' = Some stuck_condition" by simp code_simp
  show "dc_lastUpdateTime stuck_condition = Some (JsText 0)" by code_simp
  show "dc_reason stuck_condition \<noteq> Some ''NewReplicaSetAvailable''" by code_simp
  show "dc_reason stuck_condition \<noteq> Some ''ProgressDeadlineExceeded''" by code_simp
  show "\<not> deploymentComplete (dx_d ?s) (deploymentStatus (de_now echo_env (dx_world ?s)) [] None (dx_d ?s))"
    by (simp add: echo_env_def rolling_state_def) code_simp
  show "\<not> deploymentProgressing (dx_d ?s) (deploymentStatus (de_now echo_env (dx_world ?s)) [] None (dx_d ?s))"
    by (simp add: echo_env_def rolling_state_def) code_simp
  show "distinct (map dc_type (nvl (chain (dep_status (dx_d ?s)) dt_conditions) []))" by simp code_simp
qed

text \<open>
  A status read back from the API server has no undefined fields, the computed one has whenever the
  deployment has no collision count: the two never compare equal, so every sync writes the status again.
\<close>

lemma status_never_settles:
  assumes "dt_undefined (status_of (dx_d s)) = []" and "chain (dep_status (dx_d s)) dt_collisionCount = None"
  shows "syncDeploymentStatus env allRSs newRS s =
    updateDeploymentStatus env (set_status (deploymentStatus (de_now env (dx_world s)) allRSs newRS (dx_d s)) s)"
proof -
  have "''collisionCount'' \<in> set (dt_undefined (deploymentStatus (de_now env (dx_world s)) allRSs newRS (dx_d s)))"
    using assms(2) by (simp add: deploymentStatus_def Let_def setDeploymentCondition_def undefined_field_def)
  then show ?thesis using assms(1) by (auto simp: syncDeploymentStatus_def status_equal_def Let_def)
qed

end
