(* ===== verification/JsNumber.thy ===== *)
theory JsNumber
  imports JsPrelude
begin

text \<open>
  \<open>Number(s)\<close> of a text and \<open>n.toString(16)\<close>. The value is read exactly, where JavaScript rounds to a
  double: they agree on the integers below \<open>2^53\<close> that the program writes and reads.
\<close>

definition char_hex :: "char \<Rightarrow> nat option" where
  "char_hex c =
     (if CHR ''0'' \<le> c \<and> c \<le> CHR ''9'' then Some (of_char c - 48)
      else if CHR ''A'' \<le> c \<and> c \<le> CHR ''F'' then Some (of_char c - 65 + 10)
      else if CHR ''a'' \<le> c \<and> c \<le> CHR ''f'' then Some (of_char c - 97 + 10)
      else None)"

text \<open>The digits of a base, at least one.\<close>

definition based_number :: "nat \<Rightarrow> string \<Rightarrow> int option" where
  "based_number base s =
     (if s \<noteq> [] \<and> list_all (\<lambda>c. case char_hex c of Some d \<Rightarrow> d < base | None \<Rightarrow> False) s
      then Some (int (foldl (\<lambda>n c. n * base + the (char_hex c)) 0 s)) else None)"

text \<open>
  A decimal literal: digits, perhaps a fraction and an exponent. The result is an integer or, like NaN
  and every fraction, none.
\<close>

definition decimal_exponent :: "string \<Rightarrow> int option" where
  "decimal_exponent s =
     (let digits = (\<lambda>t. t \<noteq> [] \<and> list_all is_digit t) in
      if s = [] then Some 0
      else if hd s \<noteq> CHR ''e'' \<and> hd s \<noteq> CHR ''E'' then None
      else if take 1 (tl s) = ''-'' then
        (if digits (drop 2 s) then Some (- int (digits_val 0 (drop 2 s))) else None)
      else let t = (if take 1 (tl s) = ''+'' then drop 2 s else tl s)
        in if digits t then Some (int (digits_val 0 t)) else None)"

definition scaled :: "int \<Rightarrow> int \<Rightarrow> int option" where
  "scaled m e = (if e \<ge> 0 then Some (m * 10 ^ nat e)
     else if m mod 10 ^ nat (- e) = 0 then Some (m div 10 ^ nat (- e)) else None)"

definition unsigned_number :: "string \<Rightarrow> int option" where
  "unsigned_number s =
     (let whole = takeWhile is_digit s; rest = dropWhile is_digit s; dot = take 1 rest = ''.'';
          fraction = (if dot then takeWhile is_digit (tl rest) else []);
          tail = (if dot then dropWhile is_digit (tl rest) else rest)
      in if whole = [] \<and> fraction = [] then None
         else case decimal_exponent tail of
           None \<Rightarrow> None
         | Some e \<Rightarrow> scaled (int (digits_val 0 (whole @ fraction))) (e - int (length fraction)))"

definition js_number :: "string \<Rightarrow> int option" where
  "js_number text =
     (let s = js_trim text in
      if s = [] then Some 0
      else if take 2 s = ''0x'' \<or> take 2 s = ''0X'' then based_number 16 (drop 2 s)
      else if take 2 s = ''0o'' \<or> take 2 s = ''0O'' then based_number 8 (drop 2 s)
      else if take 2 s = ''0b'' \<or> take 2 s = ''0B'' then based_number 2 (drop 2 s)
      else if hd s = CHR ''+'' then unsigned_number (tl s)
      else if hd s = CHR ''-'' then map_option uminus (unsigned_number (tl s))
      else unsigned_number s)"

definition hex_char :: "nat \<Rightarrow> char" where
  "hex_char d = (if d < 10 then char_of (48 + d) else char_of (87 + d))"

fun show_hex :: "nat \<Rightarrow> string" where
  "show_hex n = (if n < 16 then [hex_char n] else show_hex (n div 16) @ [hex_char (n mod 16)])"

declare show_hex.simps [simp del]

section \<open>Reading what was printed\<close>

lemma digits_not_space: "is_digit c \<Longrightarrow> \<not> js_space c"
  by (auto simp: is_digit_def js_space_def less_eq_char_def)

lemma trim_no_space: "\<forall>c \<in> set s. \<not> js_space c \<Longrightarrow> js_trim s = s"
proof -
  assume "\<forall>c \<in> set s. \<not> js_space c"
  moreover from this have "\<forall>c \<in> set (rev s). \<not> js_space c" by simp
  ultimately have "dropWhile js_space s = s" "dropWhile js_space (rev s) = rev s"
    by (metis dropWhile_eq_self_iff hd_in_set)+
  then show ?thesis by (simp add: js_trim_def)
qed

lemma digits_unsigned:
  assumes "s \<noteq> []" "\<forall>c \<in> set s. is_digit c"
  shows "unsigned_number s = Some (int (digits_val 0 s))"
proof -
  have whole: "takeWhile is_digit s = s" "dropWhile is_digit s = []" using assms(2) by simp_all
  show ?thesis unfolding unsigned_number_def whole Let_def decimal_exponent_def scaled_def using assms(1) by simp
qed

lemma not_digits: "\<not> is_digit CHR ''x''" "\<not> is_digit CHR ''X''" "\<not> is_digit CHR ''o''" "\<not> is_digit CHR ''O''"
    "\<not> is_digit CHR ''b''" "\<not> is_digit CHR ''B''" "\<not> is_digit CHR ''+''" "\<not> is_digit CHR ''-''"
  by (simp_all add: is_digit_def less_eq_char_def)

lemma js_number_digits:
  assumes "s \<noteq> []" "\<forall>c \<in> set s. is_digit c"
  shows "js_number s = Some (int (digits_val 0 s))"
proof -
  have trim: "js_trim s = s" using assms(2) digits_not_space trim_no_space by blast
  have two: "take 2 s = [c, d] \<longleftrightarrow> False" if "\<not> is_digit d" for c d
  proof
    assume "take 2 s = [c, d]"
    then have "d \<in> set s" using in_set_takeD [of d 2 s] by simp
    with assms(2) that show False by blast
  qed simp
  have "is_digit (hd s)" using assms by simp
  then have one: "hd s = c \<longleftrightarrow> False" if "\<not> is_digit c" for c using that by metis
  show ?thesis
    unfolding js_number_def trim Let_def two [OF not_digits(1)] two [OF not_digits(2)] two [OF not_digits(3)]
      two [OF not_digits(4)] two [OF not_digits(5)] two [OF not_digits(6)] one [OF not_digits(7)] one [OF not_digits(8)]
    using assms(1) digits_unsigned [OF assms] by simp
qed

lemma js_number_show_nat [simp]: "js_number (show_nat n) = Some (int n)"
  using js_number_digits [OF show_nat_not_Nil show_nat_digits] by simp

lemma char_hex_char [simp]: "d < 16 \<Longrightarrow> char_hex (hex_char d) = Some d"
  by (simp add: char_hex_def hex_char_def less_eq_char_def)

lemma show_hex_not_Nil [simp]: "show_hex n \<noteq> []"
  by (subst show_hex.simps) simp

lemma show_hex_chars: "c \<in> set (show_hex n) \<Longrightarrow> \<exists>d < 16. c = hex_char d"
proof (induction n rule: show_hex.induct)
  case (1 n)
  have "\<exists>d < 16. hex_char (n mod 16) = hex_char d" by (rule exI [of _ "n mod 16"]) simp
  with 1 show ?case by (cases "n < 16") (auto simp: show_hex.simps [of n])
qed

end
