(* ===== verification/Net.thy ===== *)
theory Net
  imports JsNumber "HOL-Library.Word"
begin

text \<open>
  IP addresses and CIDR ranges: \<open>src/go/net/ip.ts\<close> and \<open>src/net.ts\<close>. An address is its list of 16 bytes;
  the numbers of addresses are \<open>int\<close>, the 32-bit operations of \<open>numberToIp\<close> are on words. A value \<open>undefined\<close> is \<open>None\<close>, a
  thrown error a message.
\<close>

unbundle bit_operations_syntax

section \<open>go/net/ip.ts\<close>

definition ipv4 :: "nat \<Rightarrow> nat \<Rightarrow> nat \<Rightarrow> nat \<Rightarrow> nat list" where
  "ipv4 a b c d = replicate 10 0 @ [255, 255, a, b, c, d]"

definition octet :: "string \<Rightarrow> nat option" where
  "octet part = (if part = [] \<or> \<not> list_all is_digit part then None
     else let n = digits_val 0 part in if n > 255 then None else Some n)"

definition parseIPv4Sloppy :: "string \<Rightarrow> nat list option" where
  "parseIPv4Sloppy value =
     (case js_split CHR ''.'' value of
        [p, q, r, t] \<Rightarrow>
          (case (octet p, octet q, octet r, octet t) of
             (Some a, Some b, Some c, Some d) \<Rightarrow> Some (ipv4 a b c d)
           | _ \<Rightarrow> None)
      | _ \<Rightarrow> None)"

definition isIPv4 :: "nat list \<Rightarrow> bool" where
  "isIPv4 ip \<longleftrightarrow> length ip = 16 \<and> list_all (\<lambda>i. ip ! i = 0) [0..<10] \<and> ip ! 10 = 255 \<and> ip ! 11 = 255"

text \<open>\<open>xtoi\<close>: the number, the characters read, and whether it was one and not too big.\<close>

fun xtoi_loop :: "string \<Rightarrow> nat \<Rightarrow> nat \<Rightarrow> nat \<times> nat \<times> bool" where
  "xtoi_loop [] n c = (n, c, c > 0)"
| "xtoi_loop (x # s) n c =
     (case char_hex x of
        None \<Rightarrow> (n, c, c > 0)
      | Some d \<Rightarrow> if n * 16 + d \<ge> 0xffffff then (0, c, False) else xtoi_loop s (n * 16 + d) (c + 1))"

definition xtoi :: "string \<Rightarrow> nat \<times> nat \<times> bool" where
  "xtoi value = xtoi_loop value 0 0"

text \<open>
  The loop of \<open>parseIPv6Sloppy\<close>; where it breaks, the bytes, the text that remains, the place of the
  ellipsis and the number of bytes read.
\<close>

function ipv6_loop :: "nat list \<Rightarrow> string \<Rightarrow> nat option \<Rightarrow> nat \<Rightarrow> (nat list \<times> string \<times> nat option \<times> nat) option" where
  "ipv6_loop ip remaining ellipsis i =
     (if i < 16 then
        (let (n, c, ok) = xtoi remaining in
         if \<not> ok \<or> n > 0xffff then None
         else if c < length remaining \<and> remaining ! c = CHR ''.'' then
           (if ellipsis = None \<and> i \<noteq> 12 then None
            else if i + 4 > 16 then None
            else case parseIPv4Sloppy remaining of
              None \<Rightarrow> None
            | Some ip4 \<Rightarrow>
                Some (ip[i := ip4 ! 12, i + 1 := ip4 ! 13, i + 2 := ip4 ! 14, i + 3 := ip4 ! 15], [], ellipsis, i + 4))
         else
           let ip = ip[i := n div 256 mod 256, i + 1 := n mod 256]; i = i + 2; remaining = drop c remaining in
           if remaining = [] then Some (ip, remaining, ellipsis, i)
           else if hd remaining \<noteq> CHR '':'' \<or> length remaining = 1 then None
           else let remaining = tl remaining in
             if hd remaining = CHR '':'' then
               (if ellipsis \<noteq> None then None
                else let remaining = tl remaining in
                  if remaining = [] then Some (ip, remaining, Some i, i) else ipv6_loop ip remaining (Some i) i)
             else ipv6_loop ip remaining ellipsis i)
      else Some (ip, remaining, ellipsis, i))"
  by pat_completeness auto
termination
  by (relation "measure (\<lambda>(ip, remaining, ellipsis, i). 16 - i)") auto

declare ipv6_loop.simps [simp del]

text \<open>The two loops at its end, which move the bytes after the ellipsis to the end and fill with zeros.\<close>

definition expand_ellipsis :: "nat list \<Rightarrow> nat \<Rightarrow> nat \<Rightarrow> nat list" where
  "expand_ellipsis ip ellipsis i =
     (let n = 16 - i; ip = fold (\<lambda>j ip. ip[j + n := ip ! j]) (rev [ellipsis..<i]) ip
      in fold (\<lambda>j ip. ip[j := 0]) (rev [ellipsis..<ellipsis + n]) ip)"

definition parseIPv6Sloppy :: "string \<Rightarrow> nat list option" where
  "parseIPv6Sloppy value =
     (let ip = replicate 16 0; leading = take 2 value = ''::''; remaining = (if leading then drop 2 value else value);
          ellipsis = (if leading then Some 0 else None)
      in if leading \<and> remaining = [] then Some ip
         else case ipv6_loop ip remaining ellipsis 0 of
           None \<Rightarrow> None
         | Some (ip, remaining, ellipsis, i) \<Rightarrow>
             if remaining \<noteq> [] then None
             else if i < 16 then map_option (\<lambda>e. expand_ellipsis ip e i) ellipsis
             else if ellipsis \<noteq> None then None
             else Some ip)"

fun parse_from :: "string \<Rightarrow> string \<Rightarrow> nat list option" where
  "parse_from value [] = None"
| "parse_from value (c # s) =
     (if c = CHR ''.'' then parseIPv4Sloppy value
      else if c = CHR '':'' then parseIPv6Sloppy value
      else parse_from value s)"

definition parseIP :: "string \<Rightarrow> nat list option" where
  "parseIP value = parse_from value value"

text \<open>\<open>formatIP\<close>: the groups, the longest run of zeros, and the text.\<close>

fun ip_groups :: "nat list \<Rightarrow> nat list" where
  "ip_groups (a # b # ip) = (a * 256 + b) # ip_groups ip"
| "ip_groups _ = []"

lemma zero_run_pos: "i < length groups \<Longrightarrow> groups ! i = 0 \<Longrightarrow> 0 < length (takeWhile (\<lambda>g. g = 0) (drop i groups))"
  by (simp flip: Cons_nth_drop_Suc)

function best_run :: "nat list \<Rightarrow> nat \<Rightarrow> nat option \<Rightarrow> nat \<Rightarrow> nat option \<times> nat" where
  "best_run groups i bestStart bestLength =
     (if i < length groups then
        (if groups ! i \<noteq> 0 then best_run groups (i + 1) bestStart bestLength
         else let j = i + length (takeWhile (\<lambda>g. g = 0) (drop i groups)) in
           if j - i > bestLength \<and> j - i \<ge> 2 then best_run groups j (Some i) (j - i)
           else best_run groups j bestStart bestLength)
      else (bestStart, bestLength))"
  by pat_completeness auto

termination
proof (relation "measure (\<lambda>(groups, i, b, l). length groups - i)", goal_cases)
  case (3 groups i bestStart bestLength j)
  have "0 < length (takeWhile (\<lambda>g. g = 0) (drop i groups))" using 3 by (intro zero_run_pos) auto
  with 3 show ?case by (simp only: in_measure prod.case)
next
  case (4 groups i bestStart bestLength j)
  have "0 < length (takeWhile (\<lambda>g. g = 0) (drop i groups))" using 4 by (intro zero_run_pos) auto
  with 4 show ?case by (simp only: in_measure prod.case)
qed simp_all

declare best_run.simps [simp del]

definition hex_join :: "nat list \<Rightarrow> string" where
  "hex_join groups = js_join '':'' (map show_hex groups)"

definition formatIP :: "nat list \<Rightarrow> string" where
  "formatIP ip =
     (if isIPv4 ip then js_join ''.'' (map show_nat [ip ! 12, ip ! 13, ip ! 14, ip ! 15])
      else let groups = ip_groups ip in
        case best_run groups 0 None 0 of
          (None, _) \<Rightarrow> hex_join groups
        | (Some start, n) \<Rightarrow>
            let preceding = take start groups; after = drop (start + n) groups in
            if preceding = [] \<and> after = [] then ''::''
            else if preceding = [] then ''::'' @ hex_join after
            else if after = [] then hex_join preceding @ ''::''
            else hex_join preceding @ ''::'' @ hex_join after)"

definition joinHostPort :: "string \<Rightarrow> string \<Rightarrow> string" where
  "joinHostPort host port =
     (if CHR '':'' \<in> set host then ''['' @ host @ '']:'' @ port else host @ '':'' @ port)"

definition isUnspecifiedIP :: "nat list option \<Rightarrow> bool" where
  "isUnspecifiedIP ip = (case ip of None \<Rightarrow> False | Some bs \<Rightarrow> formatIP bs = ''0.0.0.0'' \<or> formatIP bs = ''::'')"

section \<open>net.ts\<close>

definition normalizeIPLiteral :: "string \<Rightarrow> string" where
  "normalizeIPLiteral ip = (if ip \<noteq> [] \<and> hd ip = CHR ''['' \<and> last ip = CHR '']'' then butlast (tl ip) else ip)"

definition isIPLiteral :: "string \<Rightarrow> bool" where
  "isIPLiteral ip \<longleftrightarrow> parseIP (normalizeIPLiteral ip) \<noteq> None"

datatype ip_family = V4 | V6

definition ipFamily :: "string \<Rightarrow> ip_family option" where
  "ipFamily ip = map_option (\<lambda>parsed. if isIPv4 parsed then V4 else V6) (parseIP (normalizeIPLiteral ip))"

definition bytes_number :: "nat list \<Rightarrow> int" where
  "bytes_number bytes = foldl (\<lambda>value b. value * 256 + int b) 0 bytes"

definition ipToBigInt :: "string \<Rightarrow> int option" where
  "ipToBigInt ip =
     map_option (\<lambda>parsed. bytes_number (if isIPv4 parsed then drop 12 parsed else parsed)) (parseIP (normalizeIPLiteral ip))"

definition bigIntToIPv6 :: "int \<Rightarrow> string" where
  "bigIntToIPv6 value = formatIP (map (\<lambda>index. nat (value div 256 ^ (15 - index) mod 256)) [0..<16])"

definition ipToNumber :: "string \<Rightarrow> int option" where
  "ipToNumber ip =
     (let parts = js_split CHR ''.'' ip in
      if length parts \<noteq> 4 then None
      else fold (\<lambda>part value. case (value, octet part) of (Some v, Some n) \<Rightarrow> Some (v * 256 + int n) | _ \<Rightarrow> None) parts (Some 0))"

definition numberToIp :: "int \<Rightarrow> string" where
  "numberToIp value =
     (let w = word_of_int value :: 32 word; part = (\<lambda>n. show_nat (unat (drop_bit n w AND 255)))
      in js_join ''.'' [part 24, part 16, part 8, part 0])"

definition max_prefix :: "ip_family \<Rightarrow> nat" where
  "max_prefix f = (case f of V4 \<Rightarrow> 32 | V6 \<Rightarrow> 128)"

definition cidr_valid :: "string \<Rightarrow> bool" where
  "cidr_valid cidr \<longleftrightarrow>
     (case js_split CHR ''/'' cidr of
        [address, prefixText] \<Rightarrow>
          (case (ipFamily address, js_number prefixText) of
             (Some f, Some p) \<Rightarrow> 0 \<le> p \<and> p \<le> int (max_prefix f)
           | _ \<Rightarrow> False)
      | _ \<Rightarrow> False)"

record cidr =
  cidr_family :: ip_family
  cidr_network :: int
  cidr_broadcast :: int
  cidr_usableFirst :: int
  cidr_usableLast :: int

definition make_cidr :: "ip_family \<Rightarrow> int \<Rightarrow> nat \<Rightarrow> cidr" where
  "make_cidr family base p =
     (let size = 2 ^ (max_prefix family - p); network = base div size * size; broadcast = network + size - 1
      in \<lparr>cidr_family = family, cidr_network = network, cidr_broadcast = broadcast,
          cidr_usableFirst = (if family = V4 \<and> size > 2 then network + 1 else network),
          cidr_usableLast = (if family = V4 \<and> size > 2 then broadcast - 1 else broadcast)\<rparr>)"

definition new_cidr :: "string \<Rightarrow> string + cidr" where
  "new_cidr text =
     (let invalid = Inl (''Invalid CIDR range: '' @ text) in
      if \<not> cidr_valid text then invalid
      else case js_split CHR ''/'' text of
        [address, prefixText] \<Rightarrow>
          (case (ipFamily address, ipToBigInt address, js_number prefixText) of
             (Some f, Some base, Some p) \<Rightarrow> if p < 0 \<or> p > int (max_prefix f) then invalid else Inr (make_cidr f base (nat p))
           | _ \<Rightarrow> invalid)
      | _ \<Rightarrow> invalid)"

definition ipv4Number :: "int \<Rightarrow> cidr \<Rightarrow> string + int" where
  "ipv4Number value c =
     (if cidr_family c \<noteq> V4 then Inl ''CIDR numeric bounds are only available for IPv4 ranges'' else Inr value)"

definition cidr_first :: "cidr \<Rightarrow> string + int" where
  "cidr_first c = ipv4Number (cidr_usableFirst c) c"

definition cidr_last :: "cidr \<Rightarrow> string + int" where
  "cidr_last c = ipv4Number (cidr_usableLast c) c"

definition cidr_contains :: "string \<Rightarrow> cidr \<Rightarrow> bool" where
  "cidr_contains ip c \<longleftrightarrow> ipFamily ip = Some (cidr_family c) \<and>
     (case ipToBigInt ip of None \<Rightarrow> False | Some v \<Rightarrow> v \<ge> cidr_network c \<and> v \<le> cidr_broadcast c)"

definition containsUsableAddress :: "string \<Rightarrow> cidr \<Rightarrow> bool" where
  "containsUsableAddress ip c \<longleftrightarrow> ipFamily ip = Some (cidr_family c) \<and>
     (case ipToBigInt ip of None \<Rightarrow> False | Some v \<Rightarrow> v \<ge> cidr_usableFirst c \<and> v \<le> cidr_usableLast c)"

definition formatValue :: "int \<Rightarrow> cidr \<Rightarrow> string" where
  "formatValue value c = (if cidr_family c = V4 then numberToIp value else bigIntToIPv6 value)"

definition firstAddress :: "cidr \<Rightarrow> string option" where
  "firstAddress c = (if cidr_usableFirst c \<le> cidr_usableLast c then Some (formatValue (cidr_usableFirst c) c) else None)"

definition addressAfter :: "string \<Rightarrow> cidr \<Rightarrow> string option" where
  "addressAfter ip c =
     (case ipToBigInt ip of
        None \<Rightarrow> None
      | Some value \<Rightarrow>
          if \<not> containsUsableAddress ip c \<or> value \<ge> cidr_usableLast c then None else Some (formatValue (value + 1) c))"

definition cidr_addresses :: "cidr \<Rightarrow> string list" where
  "cidr_addresses c = map (\<lambda>v. formatValue v c) [cidr_usableFirst c..cidr_usableLast c]"

end
