(* ===== verification/NetLaws.thy ===== *)
theory NetLaws
  imports Net
begin

text \<open>
  What holds of addresses and ranges: printing and parsing are inverse, for dotted numbers and for
  IPv6 texts with their ellipsis, and a range contains the addresses that share its prefix.
\<close>

section \<open>Dotted numbers\<close>

lemma octet_show [simp]: "n < 256 \<Longrightarrow> octet (show_nat n) = Some n"
  using show_nat_digits [of n] by (simp add: octet_def list_all_iff Let_def)

lemma no_dot: "CHR ''.'' \<notin> set (show_nat n)" "CHR '':'' \<notin> set (show_nat n)"
proof -
  have "\<not> is_digit CHR ''.''" "\<not> is_digit CHR '':''" by (simp_all add: is_digit_def less_eq_char_def)
  then show "CHR ''.'' \<notin> set (show_nat n)" "CHR '':'' \<notin> set (show_nat n)" using show_nat_digits [of n] by blast+
qed

lemma split_dotted: "js_split CHR ''.'' (js_join ''.'' (map show_nat [a, b, c, d])) = map show_nat [a, b, c, d]"
  by (rule js_split_join) (use no_dot in auto)

lemma parse_dotted:
  assumes "a < 256" "b < 256" "c < 256" "d < 256"
  shows "parseIP (js_join ''.'' (map show_nat [a, b, c, d])) = Some (ipv4 a b c d)"
proof -
  let ?s = "js_join ''.'' (map show_nat [a, b, c, d])"
  have skip: "parse_from v (p @ CHR ''.'' # t) = parseIPv4Sloppy v"
    if "CHR ''.'' \<notin> set p" "CHR '':'' \<notin> set p" for v p t
    using that by (induction p) auto
  have "?s = show_nat a @ CHR ''.'' # js_join ''.'' (map show_nat [b, c, d])" by simp
  then have "parseIP ?s = parseIPv4Sloppy ?s" unfolding parseIP_def using skip no_dot by metis
  then show ?thesis using assms by (simp add: parseIPv4Sloppy_def split_dotted [simplified])
qed

lemma word_part: 
  assumes "n < 32" "0 \<le> v" "v < 2 ^ 32"
  shows "unat (drop_bit n (word_of_int v :: 32 word) AND 255) = nat (v div 2 ^ n mod 256)"
proof -
  have "uint (word_of_int v :: 32 word) = v" using assms(2,3) by (simp add: uint_word_of_int)
  then have "uint (drop_bit n (word_of_int v :: 32 word) AND 255) = drop_bit n v AND 255"
    using assms by (simp only: unsigned_and_eq unsigned_drop_bit_eq) (simp add: take_bit_int_eq_self)
  also have "\<dots> = take_bit 8 (drop_bit n v)" by (simp add: take_bit_eq_mask mask_numeral)
  also have "\<dots> = v div 2 ^ n mod 256" by (simp only: drop_bit_eq_div take_bit_eq_mod) simp
  finally show ?thesis by (metis unat_eq_nat_uint)
qed

lemma number_parts:
  assumes "0 \<le> v" "v < 2 ^ 32"
  shows "numberToIp v = js_join ''.'' (map show_nat
    [nat (v div 16777216), nat (v div 65536 mod 256), nat (v div 256 mod 256), nat (v mod 256)])"
proof -
  have "v div 16777216 < 256" using assms by (simp add: div_less_iff_less_mult)
  moreover have "0 \<le> v div 16777216" using assms by simp
  ultimately have top: "v div 16777216 mod 256 = v div 16777216" by simp
  note part = word_part [OF _ assms]
  show ?thesis
    unfolding numberToIp_def Let_def part [of 24, simplified] part [of 16, simplified] part [of 8, simplified] part [of 0, simplified]
    by (simp add: top part [of 0, simplified])
qed


lemma number_bytes:
  assumes "0 \<le> (v :: int)" "v < 2 ^ 32"
  shows "nat (v div 16777216) < 256" "nat (v div 65536 mod 256) < 256" "nat (v div 256 mod 256) < 256" "nat (v mod 256) < 256"
  using assms by (simp_all add: nat_less_iff div_less_iff_less_mult)

lemma number_again:
  assumes "0 \<le> (v :: int)"
  shows "((v div 16777216 * 256 + v div 65536 mod 256) * 256 + v div 256 mod 256) * 256 + v mod 256 = v"
proof -
  have "v div 16777216 = v div 256 div 256 div 256" "v div 65536 = v div 256 div 256" by (simp_all add: zdiv_zmult2_eq [symmetric])
  then show ?thesis by (simp add: div_mult_mod_eq)
qed

lemma dotted_number:
  assumes "a < 256" "b < 256" "c < 256" "d < 256"
  shows "ipToNumber (js_join ''.'' (map show_nat [a, b, c, d])) = Some (((int a * 256 + int b) * 256 + int c) * 256 + int d)"
  unfolding ipToNumber_def Let_def split_dotted using assms by simp

lemma number_parse:
  assumes "0 \<le> v" "v < 2 ^ 32"
  shows "ipToNumber (numberToIp v) = Some v"
proof -
  have "0 \<le> v div 16777216" "0 \<le> v div 65536 mod 256" "0 \<le> v div 256 mod 256" "0 \<le> v mod 256" using assms(1) by simp_all
  then show ?thesis
    unfolding number_parts [OF assms] dotted_number [OF number_bytes [OF assms]]
    by (simp only: nat_0_le number_again [OF assms(1)])
qed

lemma isIPv4_ipv4 [simp]: "isIPv4 (ipv4 a b c d)"
  by (simp add: isIPv4_def ipv4_def nth_append list_all_iff)

lemma literal_digits: "is_digit (hd s) \<Longrightarrow> normalizeIPLiteral s = s"
  by (auto simp: normalizeIPLiteral_def is_digit_def less_eq_char_def)

lemma ipv4_number [simp]:
  "bytes_number (drop 12 (ipv4 a b c d)) = ((int a * 256 + int b) * 256 + int c) * 256 + int d"
  by (simp add: bytes_number_def ipv4_def)

lemma dotted_digit: "s = js_join ''.'' (map show_nat [a, b, c, d]) \<Longrightarrow> is_digit (hd s)"
proof -
  assume s: "s = js_join ''.'' (map show_nat [a, b, c, d])"
  obtain x t where "show_nat a = x # t" by (cases "show_nat a") (simp_all only: show_nat_not_Nil)
  with s show_nat_digits [of a] show "is_digit (hd s)" by simp
qed

lemma number_literal:
  assumes "0 \<le> v" "v < 2 ^ 32"
  shows "ipFamily (numberToIp v) = Some V4" "ipToBigInt (numberToIp v) = Some v"
proof -
  have "is_digit (hd (numberToIp v))" by (rule dotted_digit [OF number_parts [OF assms]])
  then have eq: "normalizeIPLiteral (numberToIp v) = numberToIp v" by (rule literal_digits)
  have parse: "parseIP (numberToIp v) = Some (ipv4 (nat (v div 16777216)) (nat (v div 65536 mod 256)) (nat (v div 256 mod 256)) (nat (v mod 256)))"
    unfolding number_parts [OF assms] by (rule parse_dotted [OF number_bytes [OF assms]])
  have "0 \<le> v div 16777216" using assms by simp
  moreover have "0 \<le> v div 65536 mod 256" "0 \<le> v div 256 mod 256" "0 \<le> v mod 256" by simp_all
  ultimately show "ipFamily (numberToIp v) = Some V4" "ipToBigInt (numberToIp v) = Some v"
    using number_again [OF assms(1)]
    by (simp_all only: ipFamily_def ipToBigInt_def eq parse option.map isIPv4_ipv4 if_True ipv4_number nat_0_le)
qed

section \<open>IPv6 texts\<close>

definition hex_val :: "nat \<Rightarrow> string \<Rightarrow> nat" where
  "hex_val n s = foldl (\<lambda>n c. n * 16 + the (char_hex c)) n s"

lemma hex_val_simps [simp]: "hex_val n [] = n" "hex_val n (c # s) = hex_val (n * 16 + the (char_hex c)) s"
  "hex_val n (s @ t) = hex_val (hex_val n s) t"
  by (simp_all add: hex_val_def)

lemma hex_val_mono: "n \<le> hex_val n s"
proof (induction s arbitrary: n)
  case (Cons c s)
  have "n * 16 + the (char_hex c) \<le> hex_val (n * 16 + the (char_hex c)) s" by (rule Cons.IH)
  then show ?case by simp
qed simp

lemma hex_val_show [simp]: "hex_val 0 (show_hex n) = n"
proof (induction n rule: show_hex.induct)
  case (1 n)
  then show ?case by (cases "n < 16") (simp_all add: show_hex.simps [of n])
qed

lemma show_hex_char: "c \<in> set (show_hex n) \<Longrightarrow> char_hex c \<noteq> None"
  using show_hex_chars by fastforce

lemma hex_not_special: "char_hex CHR '':'' = None" "char_hex CHR ''.'' = None"
  by (simp_all add: char_hex_def less_eq_char_def)

lemma xtoi_hex:
  assumes "\<forall>c \<in> set s. char_hex c \<noteq> None" "rest = [] \<or> char_hex (hd rest) = None" "hex_val n s < 0xffffff"
  shows "xtoi_loop (s @ rest) n c = (hex_val n s, c + length s, c + length s > 0)"
  using assms
proof (induction s arbitrary: n c)
  case Nil
  then show ?case by (cases rest) auto
next
  case (Cons x s)
  then obtain d where "char_hex x = Some d" by auto
  moreover from this have "n * 16 + d < 0xffffff" using Cons.prems(3) hex_val_mono [of "n * 16 + d" s] by simp
  ultimately show ?case using Cons by simp
qed

lemma xtoi_show:
  assumes "n < 65536" "rest = [] \<or> hd rest = CHR '':''"
  shows "xtoi (show_hex n @ rest) = (n, length (show_hex n), True)"
  using xtoi_hex [of "show_hex n" rest 0 0] show_hex_char [of _ n] assms hex_not_special
  by (auto simp: xtoi_def)

text \<open>One group of the loop.\<close>

definition put_group :: "nat list \<Rightarrow> nat \<Rightarrow> nat \<Rightarrow> nat list" where
  "put_group ip i n = ip[i := n div 256, i + 1 := n mod 256]"

lemma loop_group:
  assumes "i < 16" "n < 65536" "rest = [] \<or> hd rest = CHR '':''"
  shows "ipv6_loop ip (show_hex n @ rest) ellipsis i =
    (if rest = [] then Some (put_group ip i n, [], ellipsis, i + 2)
     else if length rest = 1 then None
     else if hd (tl rest) = CHR '':'' then
       (if ellipsis \<noteq> None then None
        else if tl (tl rest) = [] then Some (put_group ip i n, [], Some (i + 2), i + 2)
        else ipv6_loop (put_group ip i n) (tl (tl rest)) (Some (i + 2)) (i + 2))
     else ipv6_loop (put_group ip i n) (tl rest) ellipsis (i + 2))"
proof -
  have "\<not> (length (show_hex n) < length (show_hex n @ rest) \<and> (show_hex n @ rest) ! length (show_hex n) = CHR ''.'')"
    using assms(3) by (cases rest) auto
  moreover have "n div 256 mod 256 = n div 256" using assms(2) by simp
  ultimately show ?thesis
    using assms xtoi_show [OF assms(2,3)] by (subst ipv6_loop.simps) (auto simp: Let_def put_group_def)
qed

definition group_bytes :: "nat list \<Rightarrow> nat list" where
  "group_bytes groups = concat (map (\<lambda>g. [g div 256, g mod 256]) groups)"

lemma group_bytes_simps [simp]: "group_bytes [] = []" "group_bytes (g # gs) = g div 256 # g mod 256 # group_bytes gs"
    "group_bytes (gs @ hs) = group_bytes gs @ group_bytes hs" "length (group_bytes gs) = 2 * length gs"
  by (simp_all add: group_bytes_def) (induction gs; simp add: group_bytes_def)

definition put_groups :: "nat list \<Rightarrow> nat \<Rightarrow> nat list \<Rightarrow> nat list" where
  "put_groups ip i groups = take i ip @ group_bytes groups @ drop (i + 2 * length groups) ip"

lemma put_group_eq: "i + 1 < length ip \<Longrightarrow> put_group ip i n = put_groups ip i [n]"
  by (rule nth_equalityI) (auto simp: put_group_def put_groups_def nth_append nth_list_update nth_Cons' min_def intro!: arg_cong [of _ _ "nth ip"])

lemma put_groups_Cons:
  "i + 2 * length (n # groups) \<le> length ip \<Longrightarrow> put_groups (put_group ip i n) (i + 2) groups = put_groups ip i (n # groups)"
  by (simp add: put_group_eq put_groups_def add.commute [of i])

lemma length_put_group [simp]: "length (put_group ip i n) = length ip"
  by (simp add: put_group_def)

lemma hex_join_Cons: "gs \<noteq> [] \<Longrightarrow> hex_join (g # gs) = show_hex g @ '':'' @ hex_join gs"
  and hex_join_one [simp]: "hex_join [g] = show_hex g"
  by (simp_all add: hex_join_def js_join_Cons)

lemma hex_join_head: "gs \<noteq> [] \<Longrightarrow> hex_join gs \<noteq> [] \<and> hd (hex_join gs) \<noteq> CHR '':''"
proof -
  assume "gs \<noteq> []"
  then obtain g gs' where gs: "gs = g # gs'" by (cases gs) auto
  have "hd (show_hex g) \<noteq> CHR '':''" using show_hex_char [of "hd (show_hex g)" g] hex_not_special by auto
  then show ?thesis unfolding gs by (cases "gs' = []") (simp_all add: hex_join_Cons)
qed

lemma loop_join:
  assumes "gs \<noteq> []" "i + 2 * length gs \<le> length ip" "length ip = 16" "\<forall>g \<in> set gs. g < 65536"
  shows "ipv6_loop ip (hex_join gs) ellipsis i = Some (put_groups ip i gs, [], ellipsis, i + 2 * length gs)"
  using assms
proof (induction gs arbitrary: ip i)
  case (Cons g gs)
  show ?case
  proof (cases "gs = []")
    case True
    then show ?thesis using Cons.prems loop_group [of i g "[]" ip ellipsis] by (simp add: put_group_eq)
  next
    case False
    have "length (hex_join gs) \<noteq> 0" "hd (hex_join gs) \<noteq> CHR '':''" using hex_join_head [OF False] by auto
    then have "ipv6_loop ip (hex_join (g # gs)) ellipsis i = ipv6_loop (put_group ip i g) (hex_join gs) ellipsis (i + 2)"
      using Cons.prems loop_group [of i g "CHR '':'' # hex_join gs" ip ellipsis] by (simp add: hex_join_Cons [OF False])
    then show ?thesis using Cons.IH [of "i + 2" "put_group ip i g"] Cons.prems False put_groups_Cons [of i g gs ip] by simp
  qed
qed simp

lemma loop_ellipsis:
  assumes "gs \<noteq> []" "i + 2 * length gs \<le> length ip" "length ip = 16" "\<forall>g \<in> set gs. g < 65536"
  defines "j \<equiv> i + 2 * length gs"
  shows "ipv6_loop ip (hex_join gs @ ''::'' @ rest) None i =
    (if rest = [] then Some (put_groups ip i gs, [], Some j, j) else ipv6_loop (put_groups ip i gs) rest (Some j) j)"
  using assms(1-4) unfolding j_def
proof (induction gs arbitrary: ip i)
  case (Cons g gs)
  show ?case
  proof (cases "gs = []")
    case True
    then show ?thesis using Cons.prems loop_group [of i g "''::'' @ rest" ip None] by (simp add: put_group_eq)
  next
    case False
    have "hex_join gs \<noteq> []" "hd (hex_join gs) \<noteq> CHR '':''" using hex_join_head [OF False] by auto
    then have "ipv6_loop ip (hex_join (g # gs) @ ''::'' @ rest) None i =
        ipv6_loop (put_group ip i g) (hex_join gs @ ''::'' @ rest) None (i + 2)"
      using Cons.prems loop_group [of i g "CHR '':'' # hex_join gs @ ''::'' @ rest" ip None] by (simp add: hex_join_Cons [OF False])
    then show ?thesis using Cons.IH [of "i + 2" "put_group ip i g"] Cons.prems False put_groups_Cons [of i g gs ip] by simp
  qed
qed simp

lemma shift_loop:
  assumes "e \<le> i" "i + n \<le> length ip"
  shows "length (fold (\<lambda>j ip. ip[j + n := ip ! j]) (rev [e..<i]) ip) = length ip" (is ?len)
    and "k < length ip \<Longrightarrow> fold (\<lambda>j ip. ip[j + n := ip ! j]) (rev [e..<i]) ip ! k =
      (if e + n \<le> k \<and> k < i + n then ip ! (k - n) else ip ! k)"
  using assms
proof (induction i arbitrary: ip)
  case (Suc i)
  { case 1
    then show ?case using Suc.IH(1) [of "ip[i + n := ip ! i]"] by (cases "e = Suc i") simp_all }
  { case 2
    then show ?case
    proof (cases "e = Suc i")
      case False
      with 2 have "e \<le> i" by simp
      with 2 Suc.IH(2) [of "ip[i + n := ip ! i]"] show ?thesis by (auto simp: nth_list_update less_Suc_eq)
    qed auto }
qed auto

lemma zero_loop:
  "length (fold (\<lambda>j ip. ip[j := 0]) js ip) = length ip"
  "k < length ip \<Longrightarrow> fold (\<lambda>j ip. ip[j := 0]) js ip ! k = (if k \<in> set js then 0 else ip ! k)"
  by (induction js arbitrary: ip) (auto simp: nth_list_update)

lemma expand_eq:
  assumes "e \<le> i" "i < 16" "length ip = 16"
  shows "expand_ellipsis ip e i = take e ip @ replicate (16 - i) 0 @ drop e (take i ip)"
proof (rule nth_equalityI)
  show "length (expand_ellipsis ip e i) = length (take e ip @ replicate (16 - i) 0 @ drop e (take i ip))"
    using assms shift_loop(1) [of e i "16 - i" ip] by (simp add: expand_ellipsis_def zero_loop Let_def)
  fix k assume "k < length (expand_ellipsis ip e i)"
  then have "k < 16" using assms shift_loop(1) [of e i "16 - i" ip] by (simp add: expand_ellipsis_def zero_loop Let_def)
  then show "expand_ellipsis ip e i ! k = (take e ip @ replicate (16 - i) 0 @ drop e (take i ip)) ! k"
    using assms shift_loop(1) [of e i "16 - i" ip] shift_loop(2) [where e = e and i = i and n = "16 - i" and ip = ip and k = k]
    by (auto simp: expand_ellipsis_def zero_loop Let_def nth_append min_def intro!: arg_cong [of _ _ "nth ip"])
qed

definition run_ok :: "nat list \<Rightarrow> nat option \<times> nat \<Rightarrow> bool" where
  "run_ok groups r \<longleftrightarrow> (case r of (None, _) \<Rightarrow> True
     | (Some start, n) \<Rightarrow> 2 \<le> n \<and> start + n \<le> length groups \<and> take n (drop start groups) = replicate n 0)"

lemma best_run_ok: "run_ok groups (b, l) \<Longrightarrow> run_ok groups (best_run groups i b l)"
proof (induction groups i b l rule: best_run.induct)
  case (1 groups i b l)
  define n where "n = length (takeWhile (\<lambda>g. g = 0) (drop i groups))"
  have "takeWhile (\<lambda>g. g = 0) (drop i groups) = replicate n 0"
    unfolding n_def by (rule replicate_length_same [symmetric]) (auto dest: set_takeWhileD)
  then have "take n (drop i groups) = replicate n 0" unfolding n_def by (simp add: takeWhile_eq_take [symmetric])
  moreover have "i + n \<le> length groups" if "i < length groups"
    using length_takeWhile_le [of "\<lambda>g. g = 0" "drop i groups"] that by (simp add: n_def)
  ultimately have "run_ok groups (Some i, n)" if "i < length groups" "2 \<le> n" using that by (simp add: run_ok_def)
  with 1 show ?case by (subst best_run.simps) (auto simp: n_def Let_def)
qed

lemma groups_bytes:
  "even (length bs) \<Longrightarrow> \<forall>b \<in> set bs. b < 256 \<Longrightarrow> group_bytes (ip_groups bs) = bs \<and> (\<forall>g \<in> set (ip_groups bs). g < 65536) \<and>
    2 * length (ip_groups bs) = length bs"
  by (induction bs rule: ip_groups.induct) auto

lemma zero_groups: "group_bytes (replicate n 0) = replicate (2 * n) 0"
  by (induction n) simp_all

lemma parse_colon: "CHR ''.'' \<notin> set s \<Longrightarrow> CHR '':'' \<in> set s \<Longrightarrow> parse_from v s = parseIPv6Sloppy v"
  by (induction s) auto

lemma no_dot_hex: "CHR ''.'' \<notin> set (hex_join gs)"
proof (induction gs)
  case (Cons g gs)
  have "CHR ''.'' \<notin> set (show_hex g)" using show_hex_char [of "CHR ''.''" g] hex_not_special by auto
  with Cons show ?case by (cases "gs = []") (simp_all add: hex_join_Cons)
qed (simp add: hex_join_def)

lemma no_leading: "gs \<noteq> [] \<Longrightarrow> take 2 (hex_join gs @ t) \<noteq> ''::''"
  using hex_join_head [of gs] by (cases "hex_join gs") auto

lemma parse_format6:
  assumes bs: "length bs = 16" "\<forall>b \<in> set bs. b < 256" and six: "\<not> isIPv4 bs"
  shows "parseIPv6Sloppy (formatIP bs) = Some bs \<and> CHR ''.'' \<notin> set (formatIP bs) \<and> CHR '':'' \<in> set (formatIP bs)"
proof -
  define gs where "gs = ip_groups bs"
  have gs: "group_bytes gs = bs" "\<forall>g \<in> set gs. g < 65536" "length gs = 8"
    using groups_bytes [of bs] bs by (auto simp: gs_def)
  obtain b n where run: "best_run gs 0 None 0 = (b, n)" by fastforce
  have ok: "run_ok gs (b, n)" using best_run_ok [of gs None 0 0] run by (simp add: run_ok_def)
  have put: "put_groups ip i xs = take i ip @ group_bytes xs @ drop (i + 2 * length xs) ip" for ip i xs by (simp add: put_groups_def)
  show ?thesis
  proof (cases b)
    case None
    have printed: "formatIP bs = hex_join gs" using six run None by (simp add: formatIP_def gs_def [symmetric])
    have "gs \<noteq> []" using gs(3) by auto
    then have "ipv6_loop (replicate 16 0) (hex_join gs) None 0 = Some (bs, [], None, 16)"
      using loop_join [of gs 0 "replicate 16 0" None] gs by (simp add: put)
    moreover have "take 2 (hex_join gs) \<noteq> ''::''" using no_leading [OF \<open>gs \<noteq> []\<close>, of "[]"] by simp
    moreover have "CHR '':'' \<in> set (hex_join gs)" using gs(3) by (cases gs; cases "tl gs") (auto simp: hex_join_Cons)
    ultimately show ?thesis using no_dot_hex unfolding printed by (simp add: parseIPv6Sloppy_def Let_def)
  next
    case (Some start)
    define A B where "A = take start gs" and "B = drop (start + n) gs"
    have zeros: "take n (drop start gs) = replicate n 0" and n: "2 \<le> n" "start + n \<le> 8"
      using ok Some gs(3) by (auto simp: run_ok_def)
    have "drop start gs = take n (drop start gs) @ drop (start + n) gs"
      using append_take_drop_id [of n "drop start gs"] by (simp add: add.commute)
    then have split: "gs = A @ replicate n 0 @ B"
      unfolding A_def B_def zeros using append_take_drop_id [of start gs] by simp
    have len: "length A + n + length B = 8" using split gs(3) by (metis length_append length_replicate add.assoc)
    have small: "\<forall>g \<in> set A. g < 65536" "\<forall>g \<in> set B. g < 65536" using gs(2) by (auto simp: split)
    have bytes: "bs = group_bytes A @ replicate (2 * n) 0 @ group_bytes B" using gs(1) by (simp add: split zero_groups)
    have printed: "formatIP bs = (if A = [] \<and> B = [] then ''::'' else if A = [] then ''::'' @ hex_join B
        else if B = [] then hex_join A @ ''::'' else hex_join A @ ''::'' @ hex_join B)"
      using six run Some by (simp add: formatIP_def gs_def [symmetric] A_def [symmetric] B_def [symmetric] Let_def del: take_eq_Nil drop_eq_Nil)
    have loopB: "ipv6_loop ip (hex_join B) e i = Some (put_groups ip i B, [], e, i + 2 * length B)"
      if "B \<noteq> []" "i = 2 * length A" "length ip = 16" for ip e i using loop_join [of B i ip e] that len small by simp
    have loopA: "ipv6_loop (replicate 16 0) (hex_join A @ ''::'' @ hex_join B) None 0 =
        Some (group_bytes A @ group_bytes B @ replicate (2 * n) 0, [], Some (2 * length A), 2 * (length A + length B))"
      if "A \<noteq> []"
    proof (cases "B = []")
      case True
      have "2 * n = 16 - 2 * length A" using len True by simp
      then show ?thesis using loop_ellipsis [of A 0 "replicate 16 0" "[]"] len small that True by (simp add: put hex_join_def)
    next
      case False
      let ?ip = "put_groups (replicate 16 0) 0 A"
      have ip: "?ip = group_bytes A @ replicate (16 - 2 * length A) 0" by (simp add: put)
      have "hex_join B \<noteq> []" using hex_join_head [OF False] by simp
      then have "ipv6_loop (replicate 16 0) (hex_join A @ ''::'' @ hex_join B) None 0 =
          ipv6_loop ?ip (hex_join B) (Some (2 * length A)) (2 * length A)"
        using loop_ellipsis [of A 0 "replicate 16 0" "hex_join B"] len small that by simp
      also have "\<dots> = Some (put_groups ?ip (2 * length A) B, [], Some (2 * length A), 2 * length A + 2 * length B)"
        using len by (intro loopB) (simp_all add: False ip)
      also have "put_groups ?ip (2 * length A) B = group_bytes A @ group_bytes B @ replicate (2 * n) 0"
      proof -
        have "16 - 2 * length A - 2 * length B = 2 * n" using len by simp
        then show ?thesis unfolding put [of ?ip] unfolding ip by simp
      qed
      finally show ?thesis by simp
    qed
    have expand: "expand_ellipsis (group_bytes A @ group_bytes B @ replicate (2 * n) 0) (2 * length A) (2 * (length A + length B)) = bs"
    proof -
      have "16 - 2 * (length A + length B) = 2 * n" "2 * (length A + length B) < 16" using len n by simp_all
      then show ?thesis using expand_eq [of "2 * length A" "2 * (length A + length B)" "group_bytes A @ group_bytes B @ replicate (2 * n) 0"] len
        by (simp add: bytes)
    qed
    have i: "2 * (length A + length B) < 16" using len n by simp
    show ?thesis
    proof (cases "A = []")
      case noA: True
      show ?thesis
      proof (cases "B = []")
        case True
        have "2 * n = 16" using len noA True by simp
        then show ?thesis unfolding printed using noA True by (simp add: parseIPv6Sloppy_def Let_def bytes)
      next
        case False
        have "16 - 2 * length B = 2 * n" using len noA by simp
        then have "ipv6_loop (replicate 16 0) (hex_join B) (Some 0) 0 = Some (group_bytes B @ replicate (2 * n) 0, [], Some 0, 2 * length B)"
          using loopB [of 0 "replicate 16 0" "Some 0"] False noA by (simp add: put)
        then have "parseIPv6Sloppy (''::'' @ hex_join B) = Some bs"
          using hex_join_head [OF False] expand i noA by (simp add: parseIPv6Sloppy_def Let_def)
        then show ?thesis unfolding printed using noA False no_dot_hex by simp
      qed
    next
      case False
      have "formatIP bs = hex_join A @ ''::'' @ hex_join B" unfolding printed using False by (auto simp: hex_join_def)
      moreover have "parseIPv6Sloppy (hex_join A @ ''::'' @ hex_join B) = Some bs"
        using loopA [OF False] no_leading [OF False] expand i unfolding parseIPv6Sloppy_def Let_def by simp
      ultimately show ?thesis using no_dot_hex by simp
    qed
  qed
qed

lemma mapped_bytes:
  assumes "isIPv4 ip"
  shows "ip = ipv4 (ip ! 12) (ip ! 13) (ip ! 14) (ip ! 15)"
proof -
  have first: "take 10 ip = replicate 10 0" using assms by (intro nth_equalityI) (auto simp: isIPv4_def list_all_iff)
  have "length ip = 16" using assms by (simp add: isIPv4_def)
  then have last: "drop 10 ip = [ip ! 10, ip ! 11, ip ! 12, ip ! 13, ip ! 14, ip ! 15]" by (simp flip: Cons_nth_drop_Suc)
  have "ip = take 10 ip @ drop 10 ip" by simp
  also have "\<dots> = ipv4 (ip ! 12) (ip ! 13) (ip ! 14) (ip ! 15)"
    unfolding first last ipv4_def using assms by (simp add: isIPv4_def)
  finally show ?thesis .
qed

text \<open>
  C37. An address that is printed is read back: for every list of 16 bytes, \<open>parseIP (formatIP ip)\<close> is that list,
  whether it is printed as four numbers, in full or with an ellipsis for the longest run of zeros.
\<close>

theorem ip_roundtrip:
  assumes "length ip = 16" "\<forall>b \<in> set ip. b < 256"
  shows "parseIP (formatIP ip) = Some ip"
proof (cases "isIPv4 ip")
  case True
  note mapped = mapped_bytes [OF True]
  have "ip ! 12 < 256" "ip ! 13 < 256" "ip ! 14 < 256" "ip ! 15 < 256" using assms nth_mem [of _ ip] by auto
  from parse_dotted [OF this] have "parseIP (js_join ''.'' (map show_nat [ip ! 12, ip ! 13, ip ! 14, ip ! 15])) = Some ip"
    by (simp only: mapped [symmetric])
  then show ?thesis using True by (simp only: formatIP_def if_True)
next
  case False
  note six = parse_format6 [OF assms False]
  have "parse_from (formatIP ip) (formatIP ip) = parseIPv6Sloppy (formatIP ip)" using six parse_colon by blast
  with six show ?thesis unfolding parseIP_def by metis
qed

lemma ip_roundtrip_witness: "parseIP (formatIP [0, 1, 0, 11, 0, 0, 0, 0, 0, 0, 0, 0, 0, 0, 0, 8]) =
    Some [0, 1, 0, 11, 0, 0, 0, 0, 0, 0, 0, 0, 0, 0, 0, 8] \<and>
    formatIP [0, 1, 0, 11, 0, 0, 0, 0, 0, 0, 0, 0, 0, 0, 0, 8] = ''1:b::8''"
proof
  show "parseIP (formatIP [0, 1, 0, 11, 0, 0, 0, 0, 0, 0, 0, 0, 0, 0, 0, 8]) =
      Some [0, 1, 0, 11, 0, 0, 0, 0, 0, 0, 0, 0, 0, 0, 0, 8]"
    by (rule ip_roundtrip) simp_all
  show "formatIP [0, 1, 0, 11, 0, 0, 0, 0, 0, 0, 0, 0, 0, 0, 0, 8] = ''1:b::8''" by code_simp
qed

section \<open>Ranges\<close>

lemma block_iff:
  assumes "0 < (block :: int)"
  shows "base div block * block \<le> v \<and> v \<le> base div block * block + block - 1 \<longleftrightarrow> v div block = base div block"
proof
  assume "base div block * block \<le> v \<and> v \<le> base div block * block + block - 1"
  then show "v div block = base div block" by (intro int_div_pos_eq [of _ _ _ "v - base div block * block"]) (use assms in auto)
next
  assume eq: "v div block = base div block"
  then have "base div block * block = v - v mod block" by (metis minus_mod_eq_div_mult)
  then show "base div block * block \<le> v \<and> v \<le> base div block * block + block - 1"
    using assms pos_mod_bound [OF assms, of v] pos_mod_sign [OF assms, of v] by linarith
qed

lemma split_cidr:
  assumes "CHR ''/'' \<notin> set address"
  shows "js_split CHR ''/'' (address @ ''/'' @ show_nat p) = [address, show_nat p]"
proof -
  have "CHR ''/'' \<notin> set (show_nat p)" using show_nat_digits [of p] by (auto simp: is_digit_def less_eq_char_def)
  then show ?thesis using assms by (simp add: js_split_append js_split_no_sep)
qed

text \<open>
  C38. A range \<open>address/p\<close> is accepted for every prefix length up to that of the family, and contains
  exactly the addresses of the family whose number shares the first \<open>p\<close> bits with the address. The usable
  ones are those, less the first and the last where an IPv4 range has more than two.
\<close>

theorem cidr_prefix:
  assumes "CHR ''/'' \<notin> set address" "ipFamily address = Some f" "ipToBigInt address = Some base" "p \<le> max_prefix f"
  defines "block \<equiv> 2 ^ (max_prefix f - p) :: int"
  shows "\<exists>c. new_cidr (address @ ''/'' @ show_nat p) = Inr c \<and>
    (\<forall>ip v. ipFamily ip = Some f \<and> ipToBigInt ip = Some v \<longrightarrow>
      cidr_contains ip c = (v div block = base div block) \<and>
      containsUsableAddress ip c =
        (v div block = base div block \<and> (f = V4 \<and> block > 2 \<longrightarrow> v mod block \<noteq> 0 \<and> v mod block \<noteq> block - 1))) \<and>
    (\<forall>ip. ipFamily ip \<noteq> Some f \<longrightarrow> \<not> cidr_contains ip c \<and> \<not> containsUsableAddress ip c)"
proof (intro exI conjI allI impI)
  let ?c = "make_cidr f base p"
  show "new_cidr (address @ ''/'' @ show_nat p) = Inr ?c"
    using assms(2-4) by (simp add: new_cidr_def cidr_valid_def split_cidr [OF assms(1), simplified])
  have pos: "0 < block" by (simp add: block_def)
  have c: "cidr_family ?c = f" "cidr_network ?c = base div block * block" "cidr_broadcast ?c = base div block * block + block - 1"
    "cidr_usableFirst ?c = (if f = V4 \<and> block > 2 then base div block * block + 1 else base div block * block)"
    "cidr_usableLast ?c = (if f = V4 \<and> block > 2 then base div block * block + block - 1 - 1 else base div block * block + block - 1)"
    by (auto simp: make_cidr_def block_def Let_def)
  fix ip v assume ip: "ipFamily ip = Some f \<and> ipToBigInt ip = Some v"
  show contains: "cidr_contains ip ?c = (v div block = base div block)"
    using ip block_iff [OF pos, of base v] by (simp add: cidr_contains_def c)
  have v: "v = v div block * block + v mod block" by simp
  show "containsUsableAddress ip ?c =
      (v div block = base div block \<and> (f = V4 \<and> block > 2 \<longrightarrow> v mod block \<noteq> 0 \<and> v mod block \<noteq> block - 1))"
  proof (cases "v div block = base div block")
    case True
    then show ?thesis using ip v pos_mod_bound [OF pos, of v] pos_mod_sign [OF pos, of v]
      by (simp add: containsUsableAddress_def c) linarith
  next
    case False
    then have "\<not> (base div block * block \<le> v \<and> v \<le> base div block * block + block - 1)" using block_iff [OF pos] by blast
    with False ip show ?thesis by (simp add: containsUsableAddress_def c) linarith
  qed
next
  fix ip assume "ipFamily ip \<noteq> Some f"
  then show "\<not> cidr_contains ip (make_cidr f base p)" "\<not> containsUsableAddress ip (make_cidr f base p)"
    by (simp_all add: cidr_contains_def containsUsableAddress_def make_cidr_def Let_def)
qed

text \<open>A range without a prefix length is the range of all addresses: \<open>Number("")\<close> is 0.\<close>

lemma empty_prefix_accepted: "map_sum id (\<lambda>c. (cidr_network c, cidr_broadcast c)) (new_cidr ''10.0.0.0/'') = Inr (0, 4294967295)"
  by code_simp

lemma cidr_prefix_witness:
  "\<exists>c. new_cidr ''10.96.0.0/12'' = Inr c \<and> cidr_contains ''10.111.255.255'' c \<and> \<not> containsUsableAddress ''10.111.255.255'' c \<and>
    \<not> cidr_contains ''10.112.0.0'' c"
proof -
  have base: "ipFamily ''10.96.0.0'' = Some V4" "ipToBigInt ''10.96.0.0'' = Some 174063616"
    "ipFamily ''10.111.255.255'' = Some V4" "ipToBigInt ''10.111.255.255'' = Some 175112191"
    "ipFamily ''10.112.0.0'' = Some V4" "ipToBigInt ''10.112.0.0'' = Some 175112192" by code_simp+
  have whole: "''10.96.0.0'' @ ''/'' @ show_nat 12 = ''10.96.0.0/12''" by code_simp
  from cidr_prefix [of "''10.96.0.0''" V4 174063616 12, unfolded whole] base
  obtain c where c: "new_cidr ''10.96.0.0/12'' = Inr c" and
    "\<forall>ip v. ipFamily ip = Some V4 \<and> ipToBigInt ip = Some v \<longrightarrow>
      cidr_contains ip c = (v div 2 ^ (max_prefix V4 - 12) = 174063616 div 2 ^ (max_prefix V4 - 12)) \<and>
      containsUsableAddress ip c = (v div 2 ^ (max_prefix V4 - 12) = 174063616 div 2 ^ (max_prefix V4 - 12) \<and>
        (V4 = V4 \<and> (2::int) ^ (max_prefix V4 - 12) > 2 \<longrightarrow>
          v mod 2 ^ (max_prefix V4 - 12) \<noteq> 0 \<and> v mod 2 ^ (max_prefix V4 - 12) \<noteq> 2 ^ (max_prefix V4 - 12) - 1))"
    by (auto simp: max_prefix_def)
  with base c show ?thesis by (intro exI [of _ c]) (simp add: max_prefix_def)
qed

end
