(* ===== verification/EtcdClient.thy ===== *)
theory EtcdClient
  imports EtcdWatch ApiErrors JsNumber
begin

text \<open>
  The client side of \<open>src/cluster/etcd.ts\<close> as the storage classes use it: the request builders, \<open>Lock\<close> and
  \<open>withLock\<close>. The operations are a record, so that the storage classes are clients of any store; the
  contract they rely on is the locale \<open>keyed_store\<close>, interpreted on the etcd. Each \<open>await\<close> is a point where
  others may act; within \<open>withLock\<close> only those who do not take the lock do.
\<close>

section \<open>Errors\<close>

text \<open>The classes of errors of the storage layer; other errors are plain or of the API.\<close>

datatype store_error = AlreadyAllocated string int | NotAllocated string int | Failed api_error
  | EtcdFailed etcd_error | LockFailed lock_error

definition store_error_message :: "store_error \<Rightarrow> string" where
  "store_error_message err =
     (case err of
        AlreadyAllocated name i \<Rightarrow> ''index '' @ show_int i @ '' is already allocated in range '' @ name
      | NotAllocated name i \<Rightarrow> ''index '' @ show_int i @ '' is not allocated in range '' @ name
      | Failed e \<Rightarrow> ae_message e
      | EtcdFailed e \<Rightarrow> ee_message e
      | LockFailed (TtlTooShort n) \<Rightarrow> ''The TTL in an etcd lease must be at least 1 second. Got: '' @ show_int n
      | LockFailed (LockHeld k) \<Rightarrow> ''Failed to acquire a lock on '' @ map char_of k
      | LockFailed (LockEtcd e) \<Rightarrow> ee_message e)"

abbreviation plain :: "string \<Rightarrow> store_error" where
  "plain msg \<equiv> Failed (plain_error msg)"

section \<open>Texts and keys\<close>

definition str_key :: "string \<Rightarrow> utf16" where
  "str_key s = map of_char s"

text \<open>\<open>buffer.toString()\<close> of what \<open>Buffer.from(text)\<close> made of code units below 256.\<close>

fun bytes_text :: "bytes \<Rightarrow> string" where
  "bytes_text [] = []"
| "bytes_text (b # bs) =
     (if b < 128 then char_of b # bytes_text bs
      else case bs of [] \<Rightarrow> [] | c # bs' \<Rightarrow> char_of ((b - 192) * 64 + (c - 128)) # bytes_text bs')"

section \<open>Requests\<close>

record 's kv_ops =
  kv_get :: "utf16 \<Rightarrow> 's \<Rightarrow> etcd_error + key_value option"
  kv_list :: "utf16 \<Rightarrow> int option \<Rightarrow> 's \<Rightarrow> etcd_error + range_response"
  kv_put :: "utf16 \<Rightarrow> bytes \<Rightarrow> 's \<Rightarrow> (etcd_error + put_response) \<times> 's"
  kv_txn :: "txn_request \<Rightarrow> 's \<Rightarrow> (etcd_error + txn_response) \<times> 's"
  kv_lock :: "utf16 \<Rightarrow> int \<Rightarrow> 's \<Rightarrow> (lock_error + string) \<times> 's"
  kv_unlock :: "string \<Rightarrow> 's \<Rightarrow> 's"

definition single_exec :: "order \<Rightarrow> utf16 \<Rightarrow> fake_state \<Rightarrow> etcd_error + key_value option" where
  "single_exec lc key s = map_sum id (\<lambda>r. case rr_kvs r of [] \<Rightarrow> None | kv # _ \<Rightarrow> Some kv) (etcd_range lc [] (single_range key) s)"

definition multi_exec :: "order \<Rightarrow> utf16 \<Rightarrow> int option \<Rightarrow> fake_state \<Rightarrow> etcd_error + range_response" where
  "multi_exec lc p revision s = etcd_range lc [] ((prefix_range p)\<lparr>ro_revision := revision\<rparr>) s"

definition value_put :: "utf16 \<Rightarrow> bytes \<Rightarrow> put_options" where
  "value_put key value = \<lparr>po_key = key, po_value = Some value, po_prevKv = False, po_ignoreValue = False\<rparr>"

definition put_exec :: "order \<Rightarrow> utf16 \<Rightarrow> bytes \<Rightarrow> fake_state \<Rightarrow> (etcd_error + put_response) \<times> fake_state" where
  "put_exec lc key value s = etcd_put lc [] (value_put key value) s"

text \<open>
  The conditional requests of the storage classes: \<open>if(key, "Version", "==", 0)\<close> and \<open>if(key, "Mod", "==", n)\<close>
  with a put or a delete of the key.
\<close>

datatype guard = Absent | AtRevision int
datatype action = PutValue bytes | RemoveKey

definition guard_compare :: "utf16 \<Rightarrow> guard \<Rightarrow> compare" where
  "guard_compare key g =
     \<lparr>ct_result = Some CompareEqual, ct_target = Some (case g of Absent \<Rightarrow> TargetVersion | AtRevision n \<Rightarrow> TargetMod),
      ct_key = Some (namespacedKey [] key), ct_version = (case g of Absent \<Rightarrow> Some 0 | AtRevision n \<Rightarrow> None),
      ct_create_revision = None, ct_mod_revision = (case g of Absent \<Rightarrow> None | AtRevision n \<Rightarrow> Some n),
      ct_value = None, ct_lease = None\<rparr>"

definition action_op :: "utf16 \<Rightarrow> action \<Rightarrow> request_op" where
  "action_op key a =
     \<lparr>request_range = None,
      request_put = (case a of PutValue v \<Rightarrow> Some (namespacedPutOptions [] (value_put key v)) | RemoveKey \<Rightarrow> None),
      request_delete_range = (case a of PutValue v \<Rightarrow> None
        | RemoveKey \<Rightarrow> Some (namespacedDeleteOptions [] \<lparr>do_key = key, do_rangeEnd = [], do_prevKv = False\<rparr>)),
      request_txn = False\<rparr>"

definition guarded :: "utf16 \<Rightarrow> guard \<Rightarrow> action \<Rightarrow> txn_request" where
  "guarded key g a = \<lparr>tr_compare = [guard_compare key g], tr_success = [action_op key a], tr_failure = []\<rparr>"

definition etcd_ops :: "order \<Rightarrow> fake_state kv_ops" where
  "etcd_ops lc = \<lparr>kv_get = single_exec lc, kv_list = multi_exec lc, kv_put = put_exec lc, kv_txn = etcd_txn lc,
     kv_lock = (\<lambda>key ttl. acquireLock lc [] key ttl), kv_unlock = revokeLease lc\<rparr>"

text \<open>\<open>get(key).buffer()\<close>, \<open>.string()\<close> and \<open>.number()\<close>; null is \<open>None\<close>, \<open>NaN\<close> the inner \<open>None\<close>.\<close>

definition get_buffer :: "'s kv_ops \<Rightarrow> utf16 \<Rightarrow> 's \<Rightarrow> store_error + bytes option" where
  "get_buffer ops key s = map_sum EtcdFailed (map_option kv_value) (kv_get ops key s)"

definition get_string :: "'s kv_ops \<Rightarrow> utf16 \<Rightarrow> 's \<Rightarrow> store_error + string option" where
  "get_string ops key s = map_sum id (map_option bytes_text) (get_buffer ops key s)"

definition get_number :: "'s kv_ops \<Rightarrow> utf16 \<Rightarrow> 's \<Rightarrow> store_error + int option option" where
  "get_number ops key s = map_sum id (map_option js_number) (get_string ops key s)"

section \<open>withLock\<close>

definition tryAcquireLock :: "'s kv_ops \<Rightarrow> utf16 \<Rightarrow> int \<Rightarrow> 's \<Rightarrow> (store_error + string option) \<times> 's" where
  "tryAcquireLock ops key ttl s =
     (case kv_lock ops key ttl s of
        (Inr lease, s) \<Rightarrow> (Inr (Some lease), s)
      | (Inl (LockHeld k), s) \<Rightarrow> (Inr None, s)
      | (Inl err, s) \<Rightarrow> (Inl (LockFailed err), s))"

definition runWithEtcdLock :: "'s kv_ops \<Rightarrow> string \<Rightarrow> ('s \<Rightarrow> (store_error + 'a) \<times> 's) \<Rightarrow> 's \<Rightarrow> (store_error + 'a) \<times> 's" where
  "runWithEtcdLock ops lease fn s = (let (r, s) = fn s in (r, kv_unlock ops lease s))"

text \<open>
  The loop of \<open>withLock\<close>. Each element of \<open>waits\<close> is one round: what others do until the watcher of
  \<open>waitForLockDeleteOrAcquire\<close> is connected, and what they do until it fires or the time is over. When the
  rounds end the caller gives up with the error of the context or of the timeout.
\<close>

fun lock_loop :: "'s kv_ops \<Rightarrow> utf16 \<Rightarrow> int \<Rightarrow> (('s \<Rightarrow> 's) \<times> ('s \<Rightarrow> 's)) list \<Rightarrow> store_error \<Rightarrow>
    ('s \<Rightarrow> (store_error + 'a) \<times> 's) \<Rightarrow> 's \<Rightarrow> (store_error + 'a) \<times> 's" where
  "lock_loop ops key ttl waits giveup fn s =
     (case tryAcquireLock ops key ttl s of
        (Inl err, s) \<Rightarrow> (Inl err, s)
      | (Inr (Some lease), s) \<Rightarrow> runWithEtcdLock ops lease fn s
      | (Inr None, s) \<Rightarrow>
          (case waits of
             [] \<Rightarrow> (Inl giveup, s)
           | (connecting, waiting) # waits \<Rightarrow>
               (case tryAcquireLock ops key ttl (connecting s) of
                  (Inl err, s) \<Rightarrow> (Inl err, s)
                | (Inr (Some lease), s) \<Rightarrow> runWithEtcdLock ops lease fn s
                | (Inr None, s) \<Rightarrow> lock_loop ops key ttl waits giveup fn (waiting s))))"

definition lock_ttl :: "int \<Rightarrow> int" where
  "lock_ttl timeoutMs = max 1 (- ((- timeoutMs) div 1000))"

definition withLock :: "'s kv_ops \<Rightarrow> utf16 \<Rightarrow> int \<Rightarrow> (('s \<Rightarrow> 's) \<times> ('s \<Rightarrow> 's)) list \<Rightarrow> store_error \<Rightarrow>
    ('s \<Rightarrow> (store_error + 'a) \<times> 's) \<Rightarrow> 's \<Rightarrow> (store_error + 'a) \<times> 's" where
  "withLock ops key timeoutMs waits giveup fn s = lock_loop ops key (lock_ttl timeoutMs) waits giveup fn s"

declare lock_loop.simps [simp del]

section \<open>The contract\<close>

definition guard_met :: "guard \<Rightarrow> stored_value option \<Rightarrow> bool" where
  "guard_met g x = (case g of Absent \<Rightarrow> x = None
     | AtRevision n \<Rightarrow> (case x of None \<Rightarrow> False | Some v \<Rightarrow> int (sv_modRevision v) = n))"

text \<open>What a write leaves at its key.\<close>

definition written :: "nat \<Rightarrow> bytes \<Rightarrow> stored_value option \<Rightarrow> bool" where
  "written revision value x \<longleftrightarrow> (\<exists>v. x = Some v \<and> sv_value v = value \<and> sv_modRevision v = revision)"

definition acted :: "nat \<Rightarrow> action \<Rightarrow> stored_value option \<Rightarrow> bool" where
  "acted revision a x = (case a of PutValue value \<Rightarrow> written revision value x | RemoveKey \<Rightarrow> x = None)"

locale keyed_store =
  fixes ops :: "'s kv_ops" and ok :: "'s \<Rightarrow> bool" and stored :: "'s \<Rightarrow> utf16 \<Rightarrow> stored_value option"
    and revision :: "'s \<Rightarrow> nat" and holds :: "'s \<Rightarrow> string \<Rightarrow> utf16 \<Rightarrow> bool"
  assumes stored_key: "ok s \<Longrightarrow> stored s k = Some v \<Longrightarrow> sv_key v = k \<and> 0 < sv_modRevision v \<and> sv_modRevision v \<le> revision s"
    and get_law: "ok s \<Longrightarrow> k \<noteq> [] \<Longrightarrow> kv_get ops k s = Inr (map_option (\<lambda>v. toPublicKv v [] False) (stored s k))"
    and put_law: "ok s \<Longrightarrow> k \<noteq> [] \<Longrightarrow> \<exists>r s' x. kv_put ops k value s = (Inr r, s') \<and> ok s' \<and> revision s < revision s' \<and>
        stored s' = (stored s)(k := x) \<and> written (revision s') value x \<and> holds s' = holds s"
    and txn_law: "ok s \<Longrightarrow> k \<noteq> [] \<Longrightarrow> (case g of Absent \<Rightarrow> True | AtRevision n \<Rightarrow> 0 < n) \<Longrightarrow>
        \<exists>r s' x. kv_txn ops (guarded k g a) s = (Inr r, s') \<and> ok s' \<and> holds s' = holds s \<and>
          ts_succeeded r = guard_met g (stored s k) \<and> rh_revision (ts_header r) = show_nat (revision s') \<and>
          (if guard_met g (stored s k)
           then stored s' = (stored s)(k := x) \<and> acted (revision s') a x \<and> revision s < revision s'
           else stored s' = stored s \<and> revision s' = revision s)"
    and lock_free: "ok s \<Longrightarrow> k \<noteq> [] \<Longrightarrow> 1 \<le> ttl \<Longrightarrow> stored s k = None \<Longrightarrow>
        \<exists>lease s' x. kv_lock ops k ttl s = (Inr lease, s') \<and> ok s' \<and> stored s' = (stored s)(k \<mapsto> x) \<and> holds s' lease k"
    and lock_taken: "ok s \<Longrightarrow> k \<noteq> [] \<Longrightarrow> 1 \<le> ttl \<Longrightarrow> stored s k \<noteq> None \<Longrightarrow>
        \<exists>s'. kv_lock ops k ttl s = (Inl (LockHeld k), s') \<and> ok s' \<and> stored s' = stored s"
    and unlock_law: "ok s \<Longrightarrow> k \<noteq> [] \<Longrightarrow> holds s lease k \<Longrightarrow>
        ok (kv_unlock ops lease s) \<and> stored (kv_unlock ops lease s) = (stored s)(k := None)"
begin

text \<open>A lock that is free is taken, held during the operation and free again afterwards, whether it fails or not.\<close>

lemma lock_runs:
  assumes "ok s" "key \<noteq> []" "stored s key = None"
  shows "\<exists>lease s1 x. ok s1 \<and> holds s1 lease key \<and> stored s1 = (stored s)(key \<mapsto> x) \<and>
    withLock ops key timeoutMs waits giveup fn s = (let (r, s2) = fn s1 in (r, kv_unlock ops lease s2))"
proof -
  have "1 \<le> lock_ttl timeoutMs" by (simp add: lock_ttl_def)
  from lock_free [OF assms(1,2) this assms(3)]
  obtain lease s1 x where "kv_lock ops key (lock_ttl timeoutMs) s = (Inr lease, s1)" "ok s1"
    "stored s1 = (stored s)(key \<mapsto> x)" "holds s1 lease key" by blast
  then show ?thesis
    by (intro exI [of _ lease] exI [of _ s1] exI [of _ x])
      (simp add: withLock_def lock_loop.simps [of ops key "lock_ttl timeoutMs"] tryAcquireLock_def runWithEtcdLock_def)
qed

text \<open>While it is taken nobody else gets it: without a round in which it is freed the caller gives up.\<close>

lemma lock_excludes:
  assumes "ok s" "key \<noteq> []" "stored s key \<noteq> None"
  shows "\<exists>s'. withLock ops key timeoutMs [] giveup fn s = (Inl giveup, s') \<and> ok s' \<and> stored s' = stored s"
proof -
  have "1 \<le> lock_ttl timeoutMs" by (simp add: lock_ttl_def)
  from lock_taken [OF assms(1,2) this assms(3)] show ?thesis
    by (auto simp: withLock_def lock_loop.simps [of ops key "lock_ttl timeoutMs"] tryAcquireLock_def)
qed

lemma get_buffer_law: "ok s \<Longrightarrow> k \<noteq> [] \<Longrightarrow> get_buffer ops k s = Inr (map_option sv_value (stored s k))"
  by (simp add: get_buffer_def get_law option.map_comp comp_def) (simp add: toPublicKv_def)

end

section \<open>The etcd keeps the contract\<close>

definition stored_at :: "order \<Rightarrow> fake_state \<Rightarrow> utf16 \<Rightarrow> stored_value option" where
  "stored_at lc s k = currentValue (revisions_of lc k s)"

definition leased :: "fake_state \<Rightarrow> string \<Rightarrow> utf16 \<Rightarrow> bool" where
  "leased s lease k \<longleftrightarrow> jm_get (es_leases s) lease = Some k"

lemma stored_publish [simp]: "stored_at lc (publish recs s) = stored_at lc s" "es_leases (publish recs s) = es_leases s"
    "es_revision (publish recs s) = es_revision s" "etcd_ok lc (publish recs s) = etcd_ok lc s"
  using same_store_ok [of s "publish recs s" lc] by (simp_all add: stored_at_def fun_eq_iff publish_def revisions_of_def)

lemma stored_bump [simp]: "stored_at lc (bumpRevision s) = stored_at lc s" "es_leases (bumpRevision s) = es_leases s"
    "es_revision (bumpRevision s) = es_revision s + 1"
  by (simp_all add: stored_at_def fun_eq_iff bumpRevision_def revisions_of_def)

lemma append_leases: "es_leases (snd (appendRevision lc key r event s)) = es_leases s"
  by (simp add: appendRevision_def Let_def case_prod_beta)

lemma no_namespace [simp]: "namespacedKey [] k = k" "namespacedRangeEnd [] [] = []"
  by (simp_all add: namespacedKey_def namespacedRangeEnd_def)

lemma takeWhile_none: "\<forall>x \<in> set xs. \<not> P x \<Longrightarrow> takeWhile P xs = []"
  by (cases xs) auto

context etcd_keys
begin

lemma append_stored:
  fixes event :: watch_event
  assumes "etcd_ok lc s" "sr_key r = key" "sr_modRevision r = es_revision s" "sr_historyRevision r = es_revision s"
    "0 < es_revision s" "0 < sr_createRevision r" "0 < sr_version r"
  defines "s' \<equiv> snd (appendRevision lc key r event s)"
  shows "etcd_ok lc s'" "es_revision s' = es_revision s" "es_leases s' = es_leases s"
    "stored_at lc s' = (stored_at lc s)(key := if sr_deleted r then None else Some (value_of r))"
proof -
  note spec = append_spec [OF assms(1-7) assms(5), where event = event, folded s'_def]
  from spec(1) show "etcd_ok lc s'" "es_revision s' = es_revision s" by (auto simp: appended_def)
  show "es_leases s' = es_leases s" by (simp add: s'_def append_leases)
  show "stored_at lc s' = (stored_at lc s)(key := if sr_deleted r then None else Some (value_of r))"
    using spec(2) [of key] spec(3,4) by (auto simp: stored_at_def currentValue_def fun_eq_iff)
qed

lemma put_at:
  assumes "etcd_ok lc s" "key \<noteq> []" "0 < es_revision s"
  shows "\<exists>response recs s' x. applyPutAtRevision lc [] (value_put key value) (es_revision s) s = (Inr (response, recs), s') \<and>
    recs \<noteq> [] \<and> etcd_ok lc s' \<and> es_revision s' = es_revision s \<and> es_leases s' = es_leases s \<and>
    stored_at lc s' = (stored_at lc s)(key := x) \<and> written (es_revision s) value x"
proof -
  define existing where "existing = stored_at lc s key"
  define r where "r = \<lparr>sr_key = key, sr_value = Some value,
    sr_createRevision = (case existing of Some e \<Rightarrow> sv_createRevision e | None \<Rightarrow> es_revision s), sr_modRevision = es_revision s,
    sr_version = (case existing of Some e \<Rightarrow> sv_version e | None \<Rightarrow> 0) + 1, sr_deleted = False, sr_historyRevision = es_revision s\<rparr>"
  define event where "event = \<lparr>we_type = PutEvent, we_kv = toPublicKv (value_of r) [] False,
    we_prev_kv = map_option (\<lambda>e. toPublicKv e [] False) existing\<rparr>"
  have "0 < sr_createRevision r" using assms(3) current_ok(2) [OF assms(1)]
    by (auto simp: r_def existing_def stored_at_def split: option.split)
  then have new: "etcd_ok lc s'" "es_revision s' = es_revision s" "es_leases s' = es_leases s"
      "stored_at lc s' = (stored_at lc s)(key \<mapsto> value_of r)" if "s' = snd (appendRevision lc key r event s)" for s'
    using append_stored [OF assms(1), of r key event] assms(3) that by (simp_all add: r_def)
  have "written (es_revision s) value (Some (value_of r))" by (simp add: written_def value_of_def r_def)
  moreover have "applyPutAtRevision lc [] (value_put key value) (es_revision s) s =
      (Inr (\<lparr>pr_header = header_at (es_revision s), pr_prev_kv = None\<rparr>, [fst (appendRevision lc key r event s)]),
       snd (appendRevision lc key r event s))"
    using assms(2) by (cases existing)
      (simp_all add: applyPutAtRevision_def value_put_def Let_def case_prod_beta r_def existing_def stored_at_def event_def value_of_def)
  ultimately show ?thesis using new by blast
qed

lemma range_single: "ordered items \<Longrightarrow> iterateRange lc items k [] = (case map_of items k of None \<Rightarrow> [] | Some v \<Rightarrow> [(k, v)])"
proof -
  assume ord: "ordered items"
  show ?thesis
  proof (cases "map_of items k")
    case None
    then have "fst e \<noteq> k" if "e \<in> set items" for e using that by (metis map_of_eq_None_iff image_eqI)
    then show ?thesis unfolding iterateRange_def entriesFrom_spec [OF ord] using None
      by (simp add: takeWhile_none isKeyInRange_def)
  next
    case (Some v)
    then obtain xs ys where items: "items = xs @ (k, v) # ys" by (meson map_of_SomeD split_list)
    have "filter (\<lambda>e. lc (fst e) k \<ge> 0) xs = []"
      using ord unfolding items ordered_append by (auto simp: filter_empty_conv)
    moreover have "fst e \<noteq> k" if "e \<in> set ys" for e using that ordered_fresh ord unfolding items by force
    then have "takeWhile (\<lambda>e. isKeyInRange (fst e) k []) (filter (\<lambda>e. lc (fst e) k \<ge> 0) ys) = []"
      by (intro takeWhile_none) (auto simp: isKeyInRange_def)
    ultimately show ?thesis using Some unfolding iterateRange_def entriesFrom_spec [OF ord]
      unfolding items by (simp add: isKeyInRange_def)
  qed
qed

lemma range_stored:
  assumes "etcd_ok lc s"
  shows "List.map_filter (\<lambda>e. currentValue (snd e)) (iterateRange lc (es_histories s) k []) =
    (case stored_at lc s k of None \<Rightarrow> [] | Some v \<Rightarrow> [v])"
  using range_single [OF ok_ordered [OF assms]] revisions_get [OF assms, of k]
  by (auto simp: stored_at_def List.map_filter_simps currentValue_def split: option.split)

lemma delete_at:
  assumes "etcd_ok lc s" "stored_at lc s key = Some v" "0 < es_revision s"
  shows "\<exists>response recs s'. applyDeleteAtRevision lc [] opts (es_revision s) [v] s = ((response, recs), s') \<and>
    recs \<noteq> [] \<and> etcd_ok lc s' \<and> es_revision s' = es_revision s \<and> es_leases s' = es_leases s \<and>
    stored_at lc s' = (stored_at lc s)(key := None)"
proof -
  have v: "sv_key v = key" "0 < sv_createRevision v" "0 < sv_version v"
    using current_ok [OF assms(1)] assms(2) by (auto simp: stored_at_def)
  define r where "r = \<lparr>sr_key = key, sr_value = None, sr_createRevision = sv_createRevision v, sr_modRevision = es_revision s,
     sr_version = sv_version v, sr_deleted = True, sr_historyRevision = es_revision s\<rparr>"
  obtain response recs s' event where
    "applyDeleteAtRevision lc [] opts (es_revision s) [v] s = ((response, recs), s')" "recs \<noteq> []"
    "s' = snd (appendRevision lc key r event s)"
    by (auto simp: applyDeleteAtRevision_def Let_def case_prod_beta r_def v)
  moreover have "etcd_ok lc (snd (appendRevision lc key r event s))" "es_revision (snd (appendRevision lc key r event s)) = es_revision s"
      "es_leases (snd (appendRevision lc key r event s)) = es_leases s"
      "stored_at lc (snd (appendRevision lc key r event s)) = (stored_at lc s)(key := None)" for event
    using append_stored [OF assms(1), of r key event] assms(3) v by (simp_all add: r_def)
  ultimately show ?thesis by metis
qed

lemma etcd_get_law:
  assumes "etcd_ok lc s" "k \<noteq> []"
  shows "single_exec lc k s = Inr (map_option (\<lambda>v. toPublicKv v [] False) (stored_at lc s k))"
proof -
  have collect: "range_collect lc (single_range k) n (case map_of (es_histories s) k of None \<Rightarrow> [] | Some rs \<Rightarrow> [(k, rs)]) [] =
      (case stored_at lc s k of None \<Rightarrow> [] | Some v \<Rightarrow> [(makeSortKey v SortKey, v)])" if "n = es_revision s" for n
  proof (cases "map_of (es_histories s) k")
    case None
    then show ?thesis using revisions_get [OF assms(1), of k] by (simp add: stored_at_def currentValue_def)
  next
    case (Some rs)
    then have rs: "revisions_of lc k s = rs" using revisions_get [OF assms(1), of k] by simp
    then have "resolveStoredValueAt rs n = currentValue rs"
      using resolve_current [of "es_revision s" k rs] revisions_ok [OF assms(1), of k] that by blast
    then show ?thesis using Some rs
      by (auto simp: stored_at_def passesRangeFilters_def single_range_def sm_set_def lowerBound_def Let_def bisect.simps split: option.split)
  qed
  have "assertValidRange k [] = None" using assms(2) by (simp add: assertValidRange_def)
  then show ?thesis
    unfolding single_exec_def etcd_range_def
    using collect [OF refl] range_single [OF ok_ordered [OF assms(1)], of k]
    by (simp add: resolveRevision_def single_range_def Let_def split: option.split)
qed

lemma etcd_put_law:
  assumes "etcd_ok lc s" "k \<noteq> []"
  shows "\<exists>r s' x. put_exec lc k bs s = (Inr r, s') \<and> etcd_ok lc s' \<and> es_revision s < es_revision s' \<and>
    stored_at lc s' = (stored_at lc s)(k := x) \<and> written (es_revision s') bs x \<and> leased s' = leased s"
proof -
  obtain response recs s1 x where put: "applyPutAtRevision lc [] (value_put k bs) (es_revision (bumpRevision s)) (bumpRevision s) =
      (Inr (response, recs), s1)" and s1: "etcd_ok lc s1" "es_revision s1 = es_revision (bumpRevision s)"
      "es_leases s1 = es_leases (bumpRevision s)" "stored_at lc s1 = (stored_at lc (bumpRevision s))(k := x)"
      "written (es_revision (bumpRevision s)) bs x"
    using put_at [OF bump_ok [OF assms(1)] assms(2), of bs] by auto
  show ?thesis
    by (rule exI [of _ response], rule exI [of _ "publish recs s1"], rule exI [of _ x])
      (use put s1 in \<open>simp add: put_exec_def etcd_put_def Let_def leased_def fun_eq_iff\<close>)
qed

lemma guard_holds:
  assumes "etcd_ok lc s" "case g of Absent \<Rightarrow> True | AtRevision n \<Rightarrow> 0 < n"
  shows "evaluateCompare lc (guard_compare k g) s = guard_met g (stored_at lc s k)"
  using assms(2) current_ok(3) [OF assms(1), of k]
  by (cases g) (auto simp: evaluateCompare_def guard_compare_def cmp_holds_def or_zero_def guard_met_def stored_at_def split: option.split)

lemma etcd_txn_law:
  assumes "etcd_ok lc s" "k \<noteq> []" "case g of Absent \<Rightarrow> True | AtRevision n \<Rightarrow> 0 < n"
  shows "\<exists>r s' x. etcd_txn lc (guarded k g a) s = (Inr r, s') \<and> etcd_ok lc s' \<and> leased s' = leased s \<and>
    ts_succeeded r = guard_met g (stored_at lc s k) \<and> rh_revision (ts_header r) = show_nat (es_revision s') \<and>
    (if guard_met g (stored_at lc s k)
     then stored_at lc s' = (stored_at lc s)(k := x) \<and> acted (es_revision s') a x \<and> es_revision s < es_revision s'
     else stored_at lc s' = stored_at lc s \<and> es_revision s' = es_revision s)"
proof (cases "guard_met g (stored_at lc s k)")
  case False
  then show ?thesis
    using assms(1) guard_holds [OF assms(1,3), of k]
    by (simp add: etcd_txn_def guarded_def assertTxnWriteRangesValid_def header_at_def Let_def)
next
  case True
  let ?b = "bumpRevision s"
  have ok: "etcd_ok lc ?b" "0 < es_revision ?b" using bump_ok [OF assms(1)] by simp_all
  have guards: "list_all (\<lambda>c. evaluateCompare lc c s) [guard_compare k g]" using True guard_holds [OF assms(1,3), of k] by simp
  have ranges: "assertTxnWriteRangesValid [action_op k a] = None"
    by (simp add: assertTxnWriteRangesValid_def split: option.split)
  have writes: "list_ex op_writes [action_op k a]" by (cases a) (simp_all add: op_writes_def action_op_def)
  have "\<exists>responses recs s1 x. txn_op lc (es_revision ?b) (action_op k a) ?b = (Inr (responses, recs), s1) \<and>
      etcd_ok lc s1 \<and> es_revision s1 = es_revision ?b \<and> es_leases s1 = es_leases s \<and>
      stored_at lc s1 = (stored_at lc s)(k := x) \<and> acted (es_revision ?b) a x"
  proof (cases a)
    case (PutValue bs)
    then show ?thesis using put_at [OF ok(1) assms(2) ok(2), of bs]
      by (auto simp: txn_op_def action_op_def namespacedPutOptions_def value_put_def acted_def)
  next
    case RemoveKey
    let ?opts = "\<lparr>do_key = k, do_rangeEnd = [], do_prevKv = False\<rparr>"
    have op: "request_delete_range (action_op k a) = Some ?opts" "request_put (action_op k a) = None"
      "request_range (action_op k a) = None"
      by (simp_all add: action_op_def RemoveKey namespacedDeleteOptions_def)
    have found: "collectDeleted lc [] ?opts ?b = Inr (case stored_at lc s k of None \<Rightarrow> [] | Some v \<Rightarrow> [v])"
      using range_stored [OF ok(1), of k] assms(2) by (simp add: collectDeleted_def assertValidRange_def)
    have none: "stored_at lc s = (stored_at lc s)(k := None)" if "stored_at lc s k = None" using that by (simp add: fun_upd_idem)
    show ?thesis
    proof (cases "stored_at lc s k")
      case None
      then show ?thesis using op RemoveKey ok(1) found none by (auto simp: txn_op_def acted_def)
    next
      case (Some v)
      then obtain response recs s1 where "applyDeleteAtRevision lc [] ?opts (es_revision ?b) [v] ?b = ((response, recs), s1)"
        "etcd_ok lc s1" "es_revision s1 = es_revision ?b" "es_leases s1 = es_leases s" "stored_at lc s1 = (stored_at lc s)(k := None)"
        using delete_at [OF ok(1) _ ok(2), of k v ?opts] by auto
      then show ?thesis using op RemoveKey found Some by (simp add: txn_op_def acted_def Let_def)
    qed
  qed
  then obtain responses recs s1 x where op: "txn_op lc (es_revision ?b) (action_op k a) ?b = (Inr (responses, recs), s1)"
    and s1: "etcd_ok lc s1" "es_revision s1 = es_revision ?b" "es_leases s1 = es_leases s"
      "stored_at lc s1 = (stored_at lc s)(k := x)" "acted (es_revision ?b) a x" by blast
  let ?s' = "if length recs > 0 then publish recs s1 else s1"
  have "etcd_txn lc (guarded k g a) s =
      (Inr \<lparr>ts_header = header_at (es_revision ?b), ts_succeeded = True, ts_responses = responses\<rparr>, ?s')"
    using guards ranges writes op by (simp add: etcd_txn_def guarded_def Let_def)
  then show ?thesis using True s1
    by (intro exI [of _ "\<lparr>ts_header = header_at (es_revision ?b), ts_succeeded = True, ts_responses = responses\<rparr>"]
        exI [of _ ?s'] exI [of _ x]) (auto simp: leased_def fun_eq_iff header_at_def)
qed

lemma stored_fact: "etcd_ok lc s \<Longrightarrow> stored_at lc s k = Some v \<Longrightarrow> sv_key v = k \<and> 0 < sv_modRevision v \<and> sv_modRevision v \<le> es_revision s"
  using current_ok by (simp add: stored_at_def)

lemma etcd_lock_laws:
  assumes "etcd_ok lc s" "k \<noteq> []" "1 \<le> ttl"
  shows "stored_at lc s k = None \<Longrightarrow> \<exists>lease s' x. acquireLock lc [] k ttl s = (Inr lease, s') \<and> etcd_ok lc s' \<and>
      stored_at lc s' = (stored_at lc s)(k \<mapsto> x) \<and> leased s' lease k"
    and "stored_at lc s k \<noteq> None \<Longrightarrow> \<exists>s'. acquireLock lc [] k ttl s = (Inl (LockHeld k), s') \<and> etcd_ok lc s' \<and>
      stored_at lc s' = stored_at lc s"
proof -
  define s0 where "s0 = s\<lparr>es_nextLeaseId := es_nextLeaseId s + 1\<rparr>"
  have same: "same_store s s0" by (simp add: s0_def)
  have ok0: "etcd_ok lc s0" "stored_at lc s0 = stored_at lc s"
    using same_store_ok [OF same] same_store_revisions [OF same] assms(1) by (simp_all add: stored_at_def fun_eq_iff)
  define c where "c = \<lparr>ct_result = Some CompareEqual, ct_target = Some TargetCreate, ct_key = Some k, ct_version = None,
    ct_create_revision = Some 0, ct_mod_revision = None, ct_value = None, ct_lease = None\<rparr>"
  define request where "request = \<lparr>tr_compare = [c], tr_success = [action_op k (PutValue [])], tr_failure = []\<rparr>"
  have acquire: "acquireLock lc [] k ttl s =
      (case etcd_txn lc request s0 of
         (Inl err, s) \<Rightarrow> (Inl (LockEtcd err), s)
       | (Inr response, s1) \<Rightarrow>
           if \<not> ts_succeeded response then (Inl (LockHeld k), s1)
           else (Inr (show_nat (es_nextLeaseId s)), s1\<lparr>es_leases := jm_set (show_nat (es_nextLeaseId s)) k (es_leases s1)\<rparr>))"
    using assms(3) by (simp add: acquireLock_def request_def c_def s0_def action_op_def value_put_def namespacedPutOptions_def Let_def)
  have free: "evaluateCompare lc c s0 = evaluateCompare lc (guard_compare k Absent) s0"
    using current_ok(2,3) [OF ok0(1), of k]
    by (auto simp: evaluateCompare_def c_def guard_compare_def cmp_holds_def or_zero_def split: option.split)
  have txn: "etcd_txn lc request s0 = etcd_txn lc (guarded k Absent (PutValue [])) s0"
    unfolding etcd_txn_def request_def guarded_def txn_request.select_convs list.pred_inject free by simp
  note law = etcd_txn_law [OF ok0(1) assms(2), of Absent "PutValue []", simplified guard.case]
  { assume none: "stored_at lc s k = None"
    then obtain r s1 x where t: "etcd_txn lc request s0 = (Inr r, s1)" "etcd_ok lc s1" "ts_succeeded r"
      "stored_at lc s1 = (stored_at lc s)(k := x)" "written (es_revision s1) [] x"
      using law ok0(2) by (auto simp: txn guard_met_def acted_def)
    let ?s' = "s1\<lparr>es_leases := jm_set (show_nat (es_nextLeaseId s)) k (es_leases s1)\<rparr>"
    have "stored_at lc ?s' = stored_at lc s1" "etcd_ok lc ?s'" "leased ?s' (show_nat (es_nextLeaseId s)) k"
      using t(2) by (simp_all add: stored_at_def fun_eq_iff revisions_of_def leased_def etcd_ok_def)
    then show "\<exists>lease s' x. acquireLock lc [] k ttl s = (Inr lease, s') \<and> etcd_ok lc s' \<and>
        stored_at lc s' = (stored_at lc s)(k \<mapsto> x) \<and> leased s' lease k"
      using t acquire by (auto simp: written_def) }
  { assume "stored_at lc s k \<noteq> None"
    then show "\<exists>s'. acquireLock lc [] k ttl s = (Inl (LockHeld k), s') \<and> etcd_ok lc s' \<and> stored_at lc s' = stored_at lc s"
      using law ok0(2) acquire by (auto simp: txn guard_met_def) }
qed

lemma etcd_unlock_law:
  assumes "etcd_ok lc s" "k \<noteq> []" "leased s lease k"
  shows "etcd_ok lc (revokeLease lc lease s) \<and> stored_at lc (revokeLease lc lease s) = (stored_at lc s)(k := None)"
proof -
  define s0 where "s0 = s\<lparr>es_leases := jm_del lease (es_leases s)\<rparr>"
  have same: "same_store s s0" by (simp add: s0_def)
  have ok0: "etcd_ok lc s0" "stored_at lc s0 = stored_at lc s"
    using same_store_ok [OF same] same_store_revisions [OF same] assms(1) by (simp_all add: stored_at_def fun_eq_iff)
  have revoke: "revokeLease lc lease s = (if stored_at lc s0 k \<noteq> None
      then snd (etcd_delete lc [] \<lparr>do_key = k, do_rangeEnd = [], do_prevKv = False\<rparr> s0) else s0)"
    using assms(3) by (simp add: revokeLease_def leased_def s0_def stored_at_def Let_def)
  show ?thesis
  proof (cases "stored_at lc s0 k")
    case None
    then show ?thesis using ok0 revoke by (simp add: fun_upd_idem)
  next
    case (Some v)
    let ?opts = "\<lparr>do_key = k, do_rangeEnd = [], do_prevKv = False\<rparr>" and ?b = "bumpRevision s0"
    have b: "etcd_ok lc ?b" "stored_at lc ?b k = Some v" "0 < es_revision ?b" using bump_ok [OF ok0(1)] Some by simp_all
    obtain response recs s1 where del: "applyDeleteAtRevision lc [] ?opts (es_revision ?b) [v] ?b = ((response, recs), s1)"
      and s1: "etcd_ok lc s1" "stored_at lc s1 = (stored_at lc ?b)(k := None)"
      using delete_at [OF b, of ?opts] by blast
    have "collectDeleted lc [] ?opts s0 = Inr [v]"
      using range_stored [OF ok0(1), of k] Some assms(2) by (simp add: collectDeleted_def assertValidRange_def)
    then have "snd (etcd_delete lc [] ?opts s0) = publish recs s1" using del by (simp add: etcd_delete_def Let_def)
    then show ?thesis using revoke Some s1 ok0(2) by simp
  qed
qed

text \<open>The contract holds for the etcd with any order of keys.\<close>

sublocale client: keyed_store "etcd_ops lc" "etcd_ok lc" "stored_at lc" es_revision leased
proof
  fix s k v g a lease and ttl :: int and bs :: bytes
  assume ok: "etcd_ok lc s"
  show "stored_at lc s k = Some v \<Longrightarrow> sv_key v = k \<and> 0 < sv_modRevision v \<and> sv_modRevision v \<le> es_revision s"
    by (rule stored_fact [OF ok])
  assume k: "k \<noteq> []"
  show "kv_get (etcd_ops lc) k s = Inr (map_option (\<lambda>v. toPublicKv v [] False) (stored_at lc s k))"
    using etcd_get_law [OF ok k] by (simp add: etcd_ops_def)
  show "\<exists>r s' x. kv_put (etcd_ops lc) k bs s = (Inr r, s') \<and> etcd_ok lc s' \<and> es_revision s < es_revision s' \<and>
      stored_at lc s' = (stored_at lc s)(k := x) \<and> written (es_revision s') bs x \<and> leased s' = leased s"
    using etcd_put_law [OF ok k] by (simp add: etcd_ops_def)
  show "case g of Absent \<Rightarrow> True | AtRevision n \<Rightarrow> 0 < n \<Longrightarrow>
      \<exists>r s' x. kv_txn (etcd_ops lc) (guarded k g a) s = (Inr r, s') \<and> etcd_ok lc s' \<and> leased s' = leased s \<and>
        ts_succeeded r = guard_met g (stored_at lc s k) \<and> rh_revision (ts_header r) = show_nat (es_revision s') \<and>
        (if guard_met g (stored_at lc s k)
         then stored_at lc s' = (stored_at lc s)(k := x) \<and> acted (es_revision s') a x \<and> es_revision s < es_revision s'
         else stored_at lc s' = stored_at lc s \<and> es_revision s' = es_revision s)"
    using etcd_txn_law [OF ok k] by (simp add: etcd_ops_def)
  show "leased s lease k \<Longrightarrow> etcd_ok lc (kv_unlock (etcd_ops lc) lease s) \<and>
      stored_at lc (kv_unlock (etcd_ops lc) lease s) = (stored_at lc s)(k := None)"
    using etcd_unlock_law [OF ok k] by (simp add: etcd_ops_def)
  assume ttl: "1 \<le> ttl"
  show "stored_at lc s k = None \<Longrightarrow> \<exists>lease s' x. kv_lock (etcd_ops lc) k ttl s = (Inr lease, s') \<and> etcd_ok lc s' \<and>
      stored_at lc s' = (stored_at lc s)(k \<mapsto> x) \<and> leased s' lease k"
    using etcd_lock_laws(1) [OF ok k ttl] by (simp add: etcd_ops_def)
  show "stored_at lc s k \<noteq> None \<Longrightarrow> \<exists>s'. kv_lock (etcd_ops lc) k ttl s = (Inl (LockHeld k), s') \<and> etcd_ok lc s' \<and>
      stored_at lc s' = stored_at lc s"
    using etcd_lock_laws(2) [OF ok k ttl] by (simp add: etcd_ops_def)
qed

end

interpretation stores: keyed_store "etcd_ops order_cmp" "etcd_ok order_cmp" "stored_at order_cmp" es_revision leased ..

end
