(* ===== verification/Allocatable.thy ===== *)
theory Allocatable
  imports EtcdClient NetLaws
begin

text \<open>
  Ranges of numbers, ports and addresses that are handed out one by one
  (\<open>src/cluster/storage/allocatable.ts\<close>). A range keeps its state under three keys of the store: a bitmap,
  the cursor where the search starts, and the count of what is in use; a fourth key is its lock. The code
  only stores integers under the keys of numbers, so what \<open>Number\<close> makes of another text is left out. Within
  a lock nobody else writes the keys of the range, so its operation is one step.
\<close>

unbundle bit_operations_syntax

section \<open>Sequencing\<close>

text \<open>\<open>await\<close> of a promise that may be rejected, and the throw of an error.\<close>

definition bind_op :: "('s \<Rightarrow> ('e + 'a) \<times> 's) \<Rightarrow> ('a \<Rightarrow> 's \<Rightarrow> ('e + 'b) \<times> 's) \<Rightarrow> 's \<Rightarrow> ('e + 'b) \<times> 's" where
  "bind_op m f s = (case m s of (Inl err, s) \<Rightarrow> (Inl err, s) | (Inr x, s) \<Rightarrow> f x s)"

definition return_op :: "'a \<Rightarrow> 's \<Rightarrow> ('e + 'a) \<times> 's" where
  "return_op x s = (Inr x, s)"

definition throw_op :: "'e \<Rightarrow> 's \<Rightarrow> ('e + 'a) \<times> 's" where
  "throw_op err s = (Inl err, s)"

definition lift_op :: "('e + 'a) \<Rightarrow> 's \<Rightarrow> ('e + 'a) \<times> 's" where
  "lift_op r s = (r, s)"

lemma bind_simps [simp]:
  "bind_op (return_op x) f s = f x s" "bind_op (throw_op err) f s = (Inl err, s)" "bind_op (lift_op (Inr x)) f s = f x s"
  "bind_op (lift_op (Inl err)) f s = (Inl err, s)"
  by (simp_all add: bind_op_def return_op_def throw_op_def lift_op_def)

section \<open>AllocatableRange\<close>

record allocatable =
  ar_name :: string
  ar_size :: int

definition range_key :: "string \<Rightarrow> string \<Rightarrow> utf16" where
  "range_key name part = str_key (''/registry/ranges/'' @ name @ ''/'' @ part)"

definition bitmapKey :: "string \<Rightarrow> utf16" where
  "bitmapKey name = range_key name ''bitmap''"

definition cursorKey :: "string \<Rightarrow> utf16" where
  "cursorKey name = range_key name ''cursor''"

definition usedKey :: "string \<Rightarrow> utf16" where
  "usedKey name = range_key name ''used''"

definition lockKey :: "string \<Rightarrow> utf16" where
  "lockKey name = range_key name ''lock''"

definition put_bytes :: "'s kv_ops \<Rightarrow> utf16 \<Rightarrow> bytes \<Rightarrow> 's \<Rightarrow> (store_error + unit) \<times> 's" where
  "put_bytes ops key bs s = (let (r, s) = kv_put ops key bs s in (map_sum EtcdFailed (\<lambda>_. ()) r, s))"

definition put_number :: "'s kv_ops \<Rightarrow> utf16 \<Rightarrow> int \<Rightarrow> 's \<Rightarrow> (store_error + unit) \<times> 's" where
  "put_number ops key n s = put_bytes ops key (text_bytes (show_int n)) s"

definition range_reset :: "'s kv_ops \<Rightarrow> allocatable \<Rightarrow> 's \<Rightarrow> (store_error + unit) \<times> 's" where
  "range_reset ops r =
     bind_op (put_bytes ops (bitmapKey (ar_name r)) (replicate (nat ((ar_size r + 7) div 8)) 0)) (\<lambda>_.
     bind_op (put_number ops (cursorKey (ar_name r)) 0) (\<lambda>_.
     put_number ops (usedKey (ar_name r)) 0))"

definition found_number :: "string \<Rightarrow> store_error + int option option \<Rightarrow> store_error + int" where
  "found_number missing r =
     (case r of
        Inl err \<Rightarrow> Inl err
      | Inr None \<Rightarrow> Inl (plain missing)
      | Inr (Some None) \<Rightarrow> Inl (plain ''NaN'')
      | Inr (Some (Some n)) \<Rightarrow> Inr n)"

definition getCursor :: "'s kv_ops \<Rightarrow> allocatable \<Rightarrow> 's \<Rightarrow> (store_error + int) \<times> 's" where
  "getCursor ops r s =
     (found_number (''cursor not found for range '' @ ar_name r) (get_number ops (cursorKey (ar_name r)) s), s)"

definition getUsed :: "'s kv_ops \<Rightarrow> allocatable \<Rightarrow> 's \<Rightarrow> (store_error + int) \<times> 's" where
  "getUsed ops r s =
     (found_number (''used count not found for range '' @ ar_name r) (get_number ops (usedKey (ar_name r)) s), s)"

definition getBitmap :: "'s kv_ops \<Rightarrow> allocatable \<Rightarrow> 's \<Rightarrow> (store_error + bytes) \<times> 's" where
  "getBitmap ops r s =
     ((case get_buffer ops (bitmapKey (ar_name r)) s of
         Inl err \<Rightarrow> Inl err
       | Inr None \<Rightarrow> Inl (plain (''bitmap not found for range '' @ ar_name r))
       | Inr (Some bitmap) \<Rightarrow> Inr bitmap), s)"

definition validateIndex :: "allocatable \<Rightarrow> int \<Rightarrow> store_error option" where
  "validateIndex r i = (if i < 0 \<or> i \<ge> ar_size r
     then Some (plain (''index '' @ show_int i @ '' out of bounds for range '' @ ar_name r)) else None)"

text \<open>The bit of an index; a byte beyond the bitmap reads as undefined and a write there does nothing.\<close>

definition bit_at :: "bytes \<Rightarrow> int \<Rightarrow> bool" where
  "bit_at bitmap i =
     (let byte = nat (i div 8) in byte < length bitmap \<and> (bitmap ! byte AND push_bit (nat (i mod 8)) 1) \<noteq> 0)"

definition getBit :: "allocatable \<Rightarrow> bytes \<Rightarrow> int \<Rightarrow> store_error + bool" where
  "getBit r bitmap i = (case validateIndex r i of Some err \<Rightarrow> Inl err | None \<Rightarrow> Inr (bit_at bitmap i))"

definition write_bit :: "bytes \<Rightarrow> int \<Rightarrow> bool \<Rightarrow> bytes" where
  "write_bit bitmap i on =
     (let byte = nat (i div 8); mask = push_bit (nat (i mod 8)) (1 :: int) in
      bitmap[byte := nat ((if on then int (bitmap ! byte) OR mask else int (bitmap ! byte) AND NOT mask) mod 256)])"

definition setBit :: "allocatable \<Rightarrow> bytes \<Rightarrow> int \<Rightarrow> bool \<Rightarrow> store_error + bytes" where
  "setBit r bitmap i on = (case validateIndex r i of Some err \<Rightarrow> Inl err | None \<Rightarrow> Inr (write_bit bitmap i on))"

text \<open>The operator \<open>%\<close>.\<close>

definition js_rem :: "int \<Rightarrow> int \<Rightarrow> int" where
  "js_rem a b = sgn a * (\<bar>a\<bar> mod \<bar>b\<bar>)"

text \<open>The search of \<open>allocate\<close>, with \<open>n\<close> offsets left.\<close>

fun find_free :: "allocatable \<Rightarrow> bytes \<Rightarrow> int \<Rightarrow> int \<Rightarrow> nat \<Rightarrow> store_error + int option" where
  "find_free r bitmap cursor offset 0 = Inr None"
| "find_free r bitmap cursor offset (Suc n) =
     (let i = js_rem (cursor + offset) (ar_size r) in
      case getBit r bitmap i of
        Inl err \<Rightarrow> Inl err
      | Inr True \<Rightarrow> find_free r bitmap cursor (offset + 1) n
      | Inr False \<Rightarrow> Inr (Some i))"

record 's lock_env =
  le_waits :: "(('s \<Rightarrow> 's) \<times> ('s \<Rightarrow> 's)) list"
  le_giveup :: store_error

definition range_lock :: "'s kv_ops \<Rightarrow> 's lock_env \<Rightarrow> allocatable \<Rightarrow> ('s \<Rightarrow> (store_error + 'a) \<times> 's) \<Rightarrow>
    's \<Rightarrow> (store_error + 'a) \<times> 's" where
  "range_lock ops env r fn = withLock ops (lockKey (ar_name r)) 5000 (le_waits env) (le_giveup env) fn"

definition allocate_body :: "'s kv_ops \<Rightarrow> allocatable \<Rightarrow> 's \<Rightarrow> (store_error + int) \<times> 's" where
  "allocate_body ops r =
     bind_op (getCursor ops r) (\<lambda>cursor.
     bind_op (getUsed ops r) (\<lambda>used.
       if used \<ge> ar_size r then throw_op (plain (''no free space in range '' @ ar_name r))
       else
         bind_op (getBitmap ops r) (\<lambda>bitmap.
         bind_op (lift_op (find_free r bitmap cursor 0 (nat (ar_size r)))) (\<lambda>free.
           case free of
             None \<Rightarrow> throw_op (plain (''no free space in range '' @ ar_name r))
           | Some i \<Rightarrow>
               bind_op (lift_op (setBit r bitmap i True)) (\<lambda>bitmap.
               bind_op (put_bytes ops (bitmapKey (ar_name r)) bitmap) (\<lambda>_.
               bind_op (put_number ops (cursorKey (ar_name r)) (js_rem (i + 1) (ar_size r))) (\<lambda>_.
               bind_op (put_number ops (usedKey (ar_name r)) (used + 1)) (\<lambda>_.
               return_op i))))))))"

definition range_allocate :: "'s kv_ops \<Rightarrow> 's lock_env \<Rightarrow> allocatable \<Rightarrow> 's \<Rightarrow> (store_error + int) \<times> 's" where
  "range_allocate ops env r = range_lock ops env r (allocate_body ops r)"

definition claim_body :: "'s kv_ops \<Rightarrow> allocatable \<Rightarrow> int \<Rightarrow> 's \<Rightarrow> (store_error + unit) \<times> 's" where
  "claim_body ops r i =
     bind_op (getBitmap ops r) (\<lambda>bitmap.
     bind_op (lift_op (getBit r bitmap i)) (\<lambda>taken.
       if taken then throw_op (AlreadyAllocated (ar_name r) i)
       else
         bind_op (getUsed ops r) (\<lambda>used.
         bind_op (lift_op (setBit r bitmap i True)) (\<lambda>bitmap.
         bind_op (put_bytes ops (bitmapKey (ar_name r)) bitmap) (\<lambda>_.
         put_number ops (usedKey (ar_name r)) (used + 1))))))"

definition range_claim :: "'s kv_ops \<Rightarrow> 's lock_env \<Rightarrow> allocatable \<Rightarrow> int \<Rightarrow> 's \<Rightarrow> (store_error + unit) \<times> 's" where
  "range_claim ops env r i s =
     (case validateIndex r i of
        Some err \<Rightarrow> (Inl err, s)
      | None \<Rightarrow> range_lock ops env r (claim_body ops r i) s)"

definition release_body :: "'s kv_ops \<Rightarrow> allocatable \<Rightarrow> int \<Rightarrow> 's \<Rightarrow> (store_error + unit) \<times> 's" where
  "release_body ops r i =
     bind_op (getBitmap ops r) (\<lambda>bitmap.
     bind_op (lift_op (getBit r bitmap i)) (\<lambda>taken.
       if \<not> taken then throw_op (NotAllocated (ar_name r) i)
       else
         bind_op (getUsed ops r) (\<lambda>used.
         bind_op (lift_op (setBit r bitmap i False)) (\<lambda>bitmap.
         bind_op (put_bytes ops (bitmapKey (ar_name r)) bitmap) (\<lambda>_.
         put_number ops (usedKey (ar_name r)) (max 0 (used - 1)))))))"

definition range_release :: "'s kv_ops \<Rightarrow> 's lock_env \<Rightarrow> allocatable \<Rightarrow> int \<Rightarrow> 's \<Rightarrow> (store_error + unit) \<times> 's" where
  "range_release ops env r i s =
     (case validateIndex r i of
        Some err \<Rightarrow> (Inl err, s)
      | None \<Rightarrow> range_lock ops env r (release_body ops r i) s)"

definition range_has :: "'s kv_ops \<Rightarrow> 's lock_env \<Rightarrow> allocatable \<Rightarrow> int \<Rightarrow> 's \<Rightarrow> (store_error + bool) \<times> 's" where
  "range_has ops env r i s =
     (case validateIndex r i of
        Some err \<Rightarrow> (Inl err, s)
      | None \<Rightarrow> range_lock ops env r (bind_op (getBitmap ops r) (\<lambda>bitmap. lift_op (getBit r bitmap i))) s)"

section \<open>PortRange\<close>

record port_range =
  pr_range :: allocatable
  pr_from :: int
  pr_to :: int

definition open_ports :: "string \<Rightarrow> int \<Rightarrow> int \<Rightarrow> port_range" where
  "open_ports name from to = \<lparr>pr_range = \<lparr>ar_name = name, ar_size = to - from + 1\<rparr>, pr_from = from, pr_to = to\<rparr>"

definition create_ports :: "'s kv_ops \<Rightarrow> string \<Rightarrow> int \<Rightarrow> int \<Rightarrow> 's \<Rightarrow> (store_error + port_range) \<times> 's" where
  "create_ports ops name from to =
     bind_op (range_reset ops (pr_range (open_ports name from to))) (\<lambda>_. return_op (open_ports name from to))"

definition validatePort :: "port_range \<Rightarrow> int \<Rightarrow> store_error option" where
  "validatePort p port = (if port < pr_from p \<or> port > pr_to p
     then Some (plain (''invalid port '' @ show_int port @ '' for range '' @ ar_name (pr_range p))) else None)"

definition map_error :: "('e \<Rightarrow> 'e) \<Rightarrow> ('e + 'a) \<times> 's \<Rightarrow> ('e + 'a) \<times> 's" where
  "map_error f r = (map_sum f id (fst r), snd r)"

definition port_allocate :: "'s kv_ops \<Rightarrow> 's lock_env \<Rightarrow> port_range \<Rightarrow> 's \<Rightarrow> (store_error + int) \<times> 's" where
  "port_allocate ops env p = bind_op (range_allocate ops env (pr_range p)) (\<lambda>i. return_op (pr_from p + i))"

definition port_claim :: "'s kv_ops \<Rightarrow> 's lock_env \<Rightarrow> port_range \<Rightarrow> int \<Rightarrow> 's \<Rightarrow> (store_error + unit) \<times> 's" where
  "port_claim ops env p port s =
     (case validatePort p port of
        Some err \<Rightarrow> (Inl err, s)
      | None \<Rightarrow> map_error (\<lambda>err. case err of
            AlreadyAllocated _ _ \<Rightarrow> plain (''port '' @ show_int port @ '' is already allocated in range '' @ ar_name (pr_range p))
          | _ \<Rightarrow> err) (range_claim ops env (pr_range p) (port - pr_from p) s))"

definition port_release :: "'s kv_ops \<Rightarrow> 's lock_env \<Rightarrow> port_range \<Rightarrow> int \<Rightarrow> 's \<Rightarrow> (store_error + unit) \<times> 's" where
  "port_release ops env p port s =
     (case validatePort p port of
        Some err \<Rightarrow> (Inl err, s)
      | None \<Rightarrow> map_error (\<lambda>err. case err of
            NotAllocated _ _ \<Rightarrow> plain (''invalid port '' @ show_int port @ '' for range '' @ ar_name (pr_range p))
          | _ \<Rightarrow> err) (range_release ops env (pr_range p) (port - pr_from p) s))"

definition port_has :: "'s kv_ops \<Rightarrow> 's lock_env \<Rightarrow> port_range \<Rightarrow> int \<Rightarrow> 's \<Rightarrow> (store_error + bool) \<times> 's" where
  "port_has ops env p port s =
     (case validatePort p port of
        Some err \<Rightarrow> (Inl err, s)
      | None \<Rightarrow> range_has ops env (pr_range p) (port - pr_from p) s)"

section \<open>IpRange\<close>

record ip_range =
  ir_range :: allocatable
  ir_cidr :: cidr

definition open_ips :: "string \<Rightarrow> string \<Rightarrow> store_error + ip_range" where
  "open_ips name cidrStr =
     (case new_cidr cidrStr of
        Inl msg \<Rightarrow> Inl (plain msg)
      | Inr c \<Rightarrow>
          (case (cidr_last c, cidr_first c) of
             (Inr l, Inr f) \<Rightarrow> Inr \<lparr>ir_range = \<lparr>ar_name = name, ar_size = l - f + 1\<rparr>, ir_cidr = c\<rparr>
           | (Inl msg, _) \<Rightarrow> Inl (plain msg)
           | (_, Inl msg) \<Rightarrow> Inl (plain msg)))"

definition create_ips :: "'s kv_ops \<Rightarrow> string \<Rightarrow> string \<Rightarrow> 's \<Rightarrow> (store_error + ip_range) \<times> 's" where
  "create_ips ops name cidrStr =
     bind_op (lift_op (open_ips name cidrStr)) (\<lambda>ips. bind_op (range_reset ops (ir_range ips)) (\<lambda>_. return_op ips))"

definition invalid_ip :: "ip_range \<Rightarrow> string \<Rightarrow> store_error" where
  "invalid_ip ips ip = plain (''invalid ip '' @ ip @ '' for range '' @ ar_name (ir_range ips))"

definition ip_contains :: "ip_range \<Rightarrow> string \<Rightarrow> bool" where
  "ip_contains ips ip = containsUsableAddress ip (ir_cidr ips)"

definition indexForIp :: "ip_range \<Rightarrow> string \<Rightarrow> store_error + int" where
  "indexForIp ips ip =
     (if \<not> ip_contains ips ip then Inl (invalid_ip ips ip)
      else case (ipToNumber ip, cidr_first (ir_cidr ips)) of
        (Some n, Inr f) \<Rightarrow> Inr (n - f)
      | (Some n, Inl msg) \<Rightarrow> Inl (plain msg)
      | (None, _) \<Rightarrow> Inl (invalid_ip ips ip))"

definition ip_allocate :: "'s kv_ops \<Rightarrow> 's lock_env \<Rightarrow> ip_range \<Rightarrow> 's \<Rightarrow> (store_error + string) \<times> 's" where
  "ip_allocate ops env ips =
     bind_op (range_allocate ops env (ir_range ips)) (\<lambda>i.
       case cidr_first (ir_cidr ips) of Inl msg \<Rightarrow> throw_op (plain msg) | Inr f \<Rightarrow> return_op (numberToIp (f + i)))"

definition ip_claim :: "'s kv_ops \<Rightarrow> 's lock_env \<Rightarrow> ip_range \<Rightarrow> string \<Rightarrow> 's \<Rightarrow> (store_error + unit) \<times> 's" where
  "ip_claim ops env ips ip s =
     map_error (\<lambda>err. case err of
         AlreadyAllocated _ _ \<Rightarrow> plain (''ip '' @ ip @ '' is already allocated in range '' @ ar_name (ir_range ips))
       | _ \<Rightarrow> err)
       (bind_op (lift_op (indexForIp ips ip)) (range_claim ops env (ir_range ips)) s)"

definition ip_release :: "'s kv_ops \<Rightarrow> 's lock_env \<Rightarrow> ip_range \<Rightarrow> string \<Rightarrow> 's \<Rightarrow> (store_error + unit) \<times> 's" where
  "ip_release ops env ips ip s =
     map_error (\<lambda>err. case err of NotAllocated _ _ \<Rightarrow> invalid_ip ips ip | _ \<Rightarrow> err)
       (bind_op (lift_op (indexForIp ips ip)) (range_release ops env (ir_range ips)) s)"

definition ip_has :: "'s kv_ops \<Rightarrow> 's lock_env \<Rightarrow> ip_range \<Rightarrow> string \<Rightarrow> 's \<Rightarrow> (store_error + bool) \<times> 's" where
  "ip_has ops env ips ip = bind_op (lift_op (indexForIp ips ip)) (range_has ops env (ir_range ips))"

end
