(* ===== verification/AllocatableLaws.thy ===== *)
theory AllocatableLaws
  imports Allocatable
begin

text \<open>
  A range refines a set of indices with a cursor: every operation gives the result and the set that the
  specification gives, for any sequence of operations and any store with the contract \<open>keyed_store\<close>.
\<close>

section \<open>Bits\<close>

lemma bit_at_iff: "bit_at bitmap i \<longleftrightarrow> nat (i div 8) < length bitmap \<and> bit (bitmap ! nat (i div 8)) (nat (i mod 8))"
  by (simp add: bit_at_def Let_def bit_iff_and_push_bit_not_eq_0)

lemma bit_low_byte: "k < 8 \<Longrightarrow> bit (nat (x mod 256)) k \<longleftrightarrow> bit (x :: int) k"
proof -
  assume k: "k < 8"
  have "x mod 256 = take_bit 8 x" by (simp add: take_bit_eq_mod)
  then show ?thesis using k by (simp add: bit_nat_iff bit_take_bit_iff)
qed

lemma write_bit_spec:
  assumes "0 \<le> i" "nat (i div 8) < length bitmap" "0 \<le> j"
  shows "bit_at (write_bit bitmap i on) j \<longleftrightarrow> (if j = i then on else bit_at bitmap j)"
proof (cases "j div 8 = i div 8")
  case True
  have k: "nat (j mod 8) < 8" "nat (i mod 8) < 8" by (simp_all add: nat_less_iff)
  have "nat (j mod 8) = nat (i mod 8) \<longleftrightarrow> j mod 8 = i mod 8" by (simp add: eq_nat_nat_iff)
  also have "\<dots> \<longleftrightarrow> j = i" using True by (metis mult_div_mod_eq)
  finally have same: "nat (j mod 8) = nat (i mod 8) \<longleftrightarrow> j = i" .
  let ?b = "int (bitmap ! nat (i div 8))" and ?m = "2 ^ nat (i mod 8) :: int"
  have mask: "bit ?m (nat (j mod 8)) \<longleftrightarrow> j = i" using same by (auto simp: bit_exp_iff)
  have "bit_at (write_bit bitmap i on) j \<longleftrightarrow> bit (if on then ?b OR ?m else ?b AND NOT ?m) (nat (j mod 8))"
    using True assms(2) bit_low_byte [OF k(1)] by (simp add: bit_at_iff write_bit_def Let_def)
  also have "\<dots> \<longleftrightarrow> (if j = i then on else bit ?b (nat (j mod 8)))"
    using mask by (cases "j = i") (simp_all add: bit_or_iff bit_and_iff bit_not_iff)
  finally show ?thesis using True assms(2) by (simp add: bit_at_iff bit_of_nat_iff_bit)
next
  case False
  then have "nat (j div 8) \<noteq> nat (i div 8)" "j \<noteq> i" using assms(1,3) by (auto simp: eq_nat_nat_iff pos_imp_zdiv_nonneg_iff)
  then show ?thesis by (simp add: bit_at_iff write_bit_def Let_def)
qed

lemma write_bit_length [simp]: "length (write_bit bitmap i on) = length bitmap"
  by (simp add: write_bit_def Let_def)

section \<open>Texts of numbers\<close>

lemma bytes_text_bytes [simp]: "bytes_text (text_bytes s) = s"
proof (induction s)
  case (Cons c s)
  show ?case
  proof (cases "of_char c < (128 :: nat)")
    case True
    then show ?thesis using Cons by (simp add: text_bytes_def Let_def)
  next
    case False
    let ?n = "of_char c :: nat"
    have "192 + ?n div 64 - 192 = ?n div 64" "128 + ?n mod 64 - 128 = ?n mod 64" by simp_all
    then show ?thesis using Cons False by (simp add: text_bytes_def Let_def mult.commute [of _ 64])
  qed
qed (simp add: text_bytes_def)

lemma js_number_show_int: "0 \<le> n \<Longrightarrow> js_number (show_int n) = Some n"
  by (simp add: show_int_def)

section \<open>The specification\<close>

text \<open>The set of indices in use and the cursor.\<close>

type_synonym range_state = "int set \<times> int"

datatype range_call = Allocate | Claim int | Release int | Has int
datatype range_result = Index int | Done | Answer bool | Throws store_error

definition spec_throw :: "range_state \<Rightarrow> string \<Rightarrow> range_result \<times> range_state" where
  "spec_throw a msg = (Throws (plain msg), a)"

definition out_of_bounds :: "allocatable \<Rightarrow> int \<Rightarrow> string" where
  "out_of_bounds r i = ''index '' @ show_int i @ '' out of bounds for range '' @ ar_name r"

definition candidates :: "allocatable \<Rightarrow> int \<Rightarrow> int list" where
  "candidates r cursor = map (\<lambda>offset. (cursor + offset) mod ar_size r) [0..ar_size r - 1]"

fun spec_step :: "allocatable \<Rightarrow> range_call \<Rightarrow> range_state \<Rightarrow> range_result \<times> range_state" where
  "spec_step r Allocate (taken, cursor) =
     (case List.find (\<lambda>i. i \<notin> taken) (candidates r cursor) of
        None \<Rightarrow> (Throws (plain (''no free space in range '' @ ar_name r)), (taken, cursor))
      | Some i \<Rightarrow> (Index i, (insert i taken, (i + 1) mod ar_size r)))"
| "spec_step r (Claim i) (taken, cursor) =
     (if i < 0 \<or> ar_size r \<le> i then (Throws (plain (out_of_bounds r i)), (taken, cursor))
      else if i \<in> taken then (Throws (AlreadyAllocated (ar_name r) i), (taken, cursor))
      else (Done, (insert i taken, cursor)))"
| "spec_step r (Release i) (taken, cursor) =
     (if i < 0 \<or> ar_size r \<le> i then (Throws (plain (out_of_bounds r i)), (taken, cursor))
      else if i \<notin> taken then (Throws (NotAllocated (ar_name r) i), (taken, cursor))
      else (Done, (taken - {i}, cursor)))"
| "spec_step r (Has i) (taken, cursor) =
     (if i < 0 \<or> ar_size r \<le> i then (Throws (plain (out_of_bounds r i)), (taken, cursor))
      else (Answer (i \<in> taken), (taken, cursor)))"

definition result_of :: "('a \<Rightarrow> range_result) \<Rightarrow> store_error + 'a \<Rightarrow> range_result" where
  "result_of f r = (case r of Inl err \<Rightarrow> Throws err | Inr x \<Rightarrow> f x)"

definition range_step :: "'s kv_ops \<Rightarrow> 's lock_env \<Rightarrow> allocatable \<Rightarrow> range_call \<Rightarrow> 's \<Rightarrow> range_result \<times> 's" where
  "range_step ops env r c s =
     (case c of
        Allocate \<Rightarrow> apfst (result_of Index) (range_allocate ops env r s)
      | Claim i \<Rightarrow> apfst (result_of (\<lambda>_. Done)) (range_claim ops env r i s)
      | Release i \<Rightarrow> apfst (result_of (\<lambda>_. Done)) (range_release ops env r i s)
      | Has i \<Rightarrow> apfst (result_of Answer) (range_has ops env r i s))"

text \<open>How the keys of a range stand for its state.\<close>

definition valued :: "('k \<Rightarrow> stored_value option) \<Rightarrow> 'k \<Rightarrow> bytes \<Rightarrow> bool" where
  "valued st k v \<longleftrightarrow> (\<exists>x. st k = Some x \<and> sv_value x = v)"

definition bits_of :: "allocatable \<Rightarrow> bytes \<Rightarrow> int set" where
  "bits_of r bitmap = {i. 0 \<le> i \<and> i < ar_size r \<and> bit_at bitmap i}"

definition range_rep :: "(utf16 \<Rightarrow> stored_value option) \<Rightarrow> allocatable \<Rightarrow> range_state \<Rightarrow> bool" where
  "range_rep st r a \<longleftrightarrow> (case a of (taken, cursor) \<Rightarrow>
     (\<exists>bitmap. valued st (bitmapKey (ar_name r)) bitmap \<and> length bitmap = nat ((ar_size r + 7) div 8) \<and> taken = bits_of r bitmap) \<and>
     valued st (cursorKey (ar_name r)) (text_bytes (show_int cursor)) \<and> 0 \<le> cursor \<and>
     valued st (usedKey (ar_name r)) (text_bytes (show_int (int (card taken)))))"

lemma range_keys: "distinct [bitmapKey n, cursorKey n, usedKey n, lockKey n]" "lockKey n \<noteq> []" "bitmapKey n \<noteq> []"
    "cursorKey n \<noteq> []" "usedKey n \<noteq> []"
  by (auto simp: bitmapKey_def cursorKey_def usedKey_def lockKey_def range_key_def str_key_def inj_map_eq_map [OF inj_of_char]
     simp flip: map_append)

section \<open>The bitmap as a set\<close>

lemma bits_finite [simp]: "finite (bits_of r bitmap)"
  by (rule finite_subset [of _ "{0..<ar_size r}"]) (auto simp: bits_of_def)

lemma bits_bound: "bits_of r bitmap \<subseteq> {0..<ar_size r}"
  by (auto simp: bits_of_def)

lemma byte_in_range: "0 \<le> i \<Longrightarrow> i < size' \<Longrightarrow> length bitmap = nat ((size' + 7) div 8) \<Longrightarrow> nat (i div 8) < length bitmap"
  by (simp, presburger)

lemma bits_write:
  assumes "0 \<le> i" "i < ar_size r" "length bitmap = nat ((ar_size r + 7) div 8)"
  shows "bits_of r (write_bit bitmap i True) = insert i (bits_of r bitmap)"
    and "bits_of r (write_bit bitmap i False) = bits_of r bitmap - {i}"
  using write_bit_spec [OF assms(1) byte_in_range [OF assms]] assms(1,2) by (auto simp: bits_of_def split: if_splits)

lemma full_range: "int (card (bits_of r bitmap)) \<ge> ar_size r \<Longrightarrow> bits_of r bitmap = {0..<ar_size r}"
  by (rule card_subset_eq) (use bits_bound card_mono [OF _ bits_bound, of r bitmap] in auto)

lemma js_rem_pos: "0 \<le> a \<Longrightarrow> 0 < b \<Longrightarrow> js_rem a b = a mod b"
  by (simp add: js_rem_def sgn_if)

lemma find_free_spec:
  assumes "0 \<le> cursor" "0 < ar_size r" "0 \<le> offset"
  shows "find_free r bitmap cursor offset n =
    Inr (List.find (\<lambda>i. i \<notin> bits_of r bitmap) (map (\<lambda>offset. (cursor + offset) mod ar_size r) [offset..offset + int n - 1]))"
  using assms(3)
proof (induction n arbitrary: offset)
  case (Suc n)
  let ?i = "(cursor + offset) mod ar_size r"
  have i: "js_rem (cursor + offset) (ar_size r) = ?i" "0 \<le> ?i" "?i < ar_size r"
    using assms(1,2) Suc.prems by (simp_all add: js_rem_pos)
  have "[offset..offset + int (Suc n) - 1] = offset # [offset + 1..offset + 1 + int n - 1]"
    by (subst upto.simps) (simp add: algebra_simps)
  then show ?case using i Suc.IH [of "offset + 1"] Suc.prems
    by (auto simp: getBit_def validateIndex_def bits_of_def Let_def split: bool.split)
qed simp

lemma candidates_bound: "0 < ar_size r \<Longrightarrow> i \<in> set (candidates r cursor) \<Longrightarrow> 0 \<le> i \<and> i < ar_size r"
  by (auto simp: candidates_def)

lemma candidates_in: "i \<in> set (candidates r cursor) \<Longrightarrow> i \<in> {0..<ar_size r}"
  using candidates_bound [of r i cursor] by (cases "0 < ar_size r") (auto simp: candidates_def)

section \<open>Every operation refines its specification\<close>

text \<open>Keys other than those of the range keep their values.\<close>

definition same_except :: "allocatable \<Rightarrow> (utf16 \<Rightarrow> stored_value option) \<Rightarrow> (utf16 \<Rightarrow> stored_value option) \<Rightarrow> bool" where
  "same_except r st st' \<longleftrightarrow>
     (\<forall>k. k \<notin> {bitmapKey (ar_name r), cursorKey (ar_name r), usedKey (ar_name r)} \<longrightarrow> st' k = st k)"

definition refines :: "allocatable \<Rightarrow> ('a \<Rightarrow> range_result) \<Rightarrow> (utf16 \<Rightarrow> stored_value option) \<Rightarrow> range_result \<times> range_state \<Rightarrow>
    store_error + 'a \<Rightarrow> (utf16 \<Rightarrow> stored_value option) \<Rightarrow> bool" where
  "refines r f st spec res st' \<longleftrightarrow> result_of f res = fst spec \<and> range_rep st' r (snd spec) \<and> same_except r st st'"

lemma refines_same: "range_rep st r a \<Longrightarrow> result_of f res = x \<Longrightarrow> refines r f st (x, a) res st"
  by (simp add: refines_def same_except_def)

lemma spec_bad:
  assumes "i < 0 \<or> ar_size r \<le> i"
  shows "spec_step r (Claim i) a = (Throws (plain (out_of_bounds r i)), a)"
    "spec_step r (Release i) a = (Throws (plain (out_of_bounds r i)), a)"
    "spec_step r (Has i) a = (Throws (plain (out_of_bounds r i)), a)"
  using assms by (cases a; simp)+

context keyed_store
begin

lemma put_bytes_law:
  assumes "ok s" "k \<noteq> []"
  shows "\<exists>s' x. put_bytes ops k bs s = (Inr (), s') \<and> ok s' \<and> holds s' = holds s \<and>
    stored s' = (stored s)(k \<mapsto> x) \<and> sv_value x = bs"
  using put_law [OF assms, of bs] by (auto simp: put_bytes_def written_def)

lemma getBitmap_law: "ok s \<Longrightarrow> valued (stored s) (bitmapKey (ar_name r)) bitmap \<Longrightarrow> getBitmap ops r s = (Inr bitmap, s)"
  using get_buffer_law range_keys by (auto simp: getBitmap_def valued_def)

lemma get_number_law:
  "ok s \<Longrightarrow> k \<noteq> [] \<Longrightarrow> valued (stored s) k (text_bytes (show_int n)) \<Longrightarrow> 0 \<le> n \<Longrightarrow> get_number ops k s = Inr (Some (Some n))"
  using get_buffer_law by (auto simp: get_number_def get_string_def valued_def js_number_show_int)

lemma getCursor_law: "ok s \<Longrightarrow> valued (stored s) (cursorKey (ar_name r)) (text_bytes (show_int n)) \<Longrightarrow> 0 \<le> n \<Longrightarrow>
    getCursor ops r s = (Inr n, s)"
  and getUsed_law: "ok s \<Longrightarrow> valued (stored s) (usedKey (ar_name r)) (text_bytes (show_int n)) \<Longrightarrow> 0 \<le> n \<Longrightarrow>
    getUsed ops r s = (Inr n, s)"
  using range_keys by (simp_all add: getCursor_def getUsed_def get_number_law found_number_def)

lemma allocate_body_refines:
  assumes "ok s" "range_rep (stored s) r a" "allocate_body ops r s = (res, s')"
  shows "ok s' \<and> holds s' = holds s \<and> refines r Index (stored s) (spec_step r Allocate a) res (stored s')"
proof -
  obtain taken cursor bitmap where a: "a = (taken, cursor)" "taken = bits_of r bitmap"
    and bm: "valued (stored s) (bitmapKey (ar_name r)) bitmap" "length bitmap = nat ((ar_size r + 7) div 8)"
    and cu: "valued (stored s) (cursorKey (ar_name r)) (text_bytes (show_int cursor))" "0 \<le> cursor"
    and us: "valued (stored s) (usedKey (ar_name r)) (text_bytes (show_int (int (card taken))))"
    using assms(2) by (auto simp: range_rep_def)
  note reads = getCursor_law [OF assms(1) cu] getUsed_law [OF assms(1) us] getBitmap_law [OF assms(1) bm(1)]
  let ?full = "(Inl (plain (''no free space in range '' @ ar_name r)), s)"
  let ?find = "List.find (\<lambda>i. i \<notin> taken) (candidates r cursor)"
  show ?thesis
  proof (cases "ar_size r \<le> int (card taken)")
    case True
    then have "taken = {0..<ar_size r}" using full_range a(2) by blast
    then have "i \<in> taken" if "i \<in> set (candidates r cursor)" for i using candidates_in that by simp
    then have "?find = None" unfolding find_None_iff by blast
    moreover have "allocate_body ops r s = ?full"
      using True by (simp add: allocate_body_def bind_op_def [of "getCursor ops r"] bind_op_def [of "getUsed ops r"] reads throw_op_def)
    ultimately show ?thesis using assms by (auto simp: a(1) result_of_def intro!: refines_same)
  next
    case False
    then have pos: "0 < ar_size r" by linarith
    have search: "find_free r bitmap cursor 0 (nat (ar_size r)) = Inr ?find"
      using find_free_spec [OF cu(2) pos, of 0 bitmap "nat (ar_size r)"] pos by (simp add: a(2) candidates_def)
    show ?thesis
    proof (cases ?find)
      case None
      then have "allocate_body ops r s = ?full"
        using False search by (simp add: allocate_body_def bind_op_def [of "getCursor ops r"] bind_op_def [of "getUsed ops r"]
          bind_op_def [of "getBitmap ops r"] reads throw_op_def)
      then show ?thesis using assms None by (auto simp: a(1) result_of_def intro!: refines_same)
    next
      case (Some i)
      then have i: "0 \<le> i" "i < ar_size r" "i \<notin> taken" using candidates_bound [OF pos, of i cursor] by (auto simp: find_Some_iff)
      let ?bm = "write_bit bitmap i True"
      obtain s1 x1 where s1: "put_bytes ops (bitmapKey (ar_name r)) ?bm s = (Inr (), s1)" "ok s1" "holds s1 = holds s"
        "stored s1 = (stored s)(bitmapKey (ar_name r) \<mapsto> x1)" "sv_value x1 = ?bm"
        using put_bytes_law [OF assms(1)] range_keys by blast
      obtain s2 x2 where s2: "put_number ops (cursorKey (ar_name r)) ((i + 1) mod ar_size r) s1 = (Inr (), s2)" "ok s2" "holds s2 = holds s1"
        "stored s2 = (stored s1)(cursorKey (ar_name r) \<mapsto> x2)" "sv_value x2 = text_bytes (show_int ((i + 1) mod ar_size r))"
        using put_bytes_law [OF s1(2)] range_keys unfolding put_number_def by blast
      obtain s3 x3 where s3: "put_number ops (usedKey (ar_name r)) (int (card taken) + 1) s2 = (Inr (), s3)" "ok s3" "holds s3 = holds s2"
        "stored s3 = (stored s2)(usedKey (ar_name r) \<mapsto> x3)" "sv_value x3 = text_bytes (show_int (int (card taken) + 1))"
        using put_bytes_law [OF s2(2)] range_keys unfolding put_number_def by blast
      have "setBit r bitmap i True = Inr ?bm" using i by (simp add: setBit_def validateIndex_def)
      moreover have "js_rem (i + 1) (ar_size r) = (i + 1) mod ar_size r" using i(1) pos by (simp add: js_rem_pos)
      ultimately have "allocate_body ops r s = (Inr i, s3)"
        using False search Some by (simp add: allocate_body_def bind_op_def [of "getCursor ops r"] bind_op_def [of "getUsed ops r"]
          bind_op_def [of "getBitmap ops r"] bind_op_def [of "put_bytes ops k b" for k b] bind_op_def [of "put_number ops k b" for k b]
          reads s1(1) s2(1) s3(1) return_op_def)
      then have res: "res = Inr i" "s' = s3" using assms(3) by simp_all
      have "stored s3 = (stored s)(bitmapKey (ar_name r) \<mapsto> x1, cursorKey (ar_name r) \<mapsto> x2, usedKey (ar_name r) \<mapsto> x3)"
        by (simp add: s1(4) s2(4) s3(4))
      moreover have "card (insert i taken) = card taken + 1" using i(3) a(2) by simp
      ultimately have "range_rep (stored s3) r (insert i taken, (i + 1) mod ar_size r) \<and> same_except r (stored s) (stored s3)"
        using range_keys(1) [of "ar_name r"] bits_write(1) [OF i(1,2) bm(2)] bm(2) s1(5) s2(5) s3(5) pos
        by (auto simp: range_rep_def valued_def same_except_def a(2) add.commute)
      then show ?thesis using res s1(3) s2(3) s3(2,3) Some by (simp add: a(1) refines_def result_of_def)
    qed
  qed
qed

lemma put_pair:
  assumes "ok s" "range_rep (stored s) r (taken, cursor)" "length bitmap = nat ((ar_size r + 7) div 8)"
    and "n = int (card (bits_of r bitmap))"
  shows "\<exists>s'. bind_op (put_bytes ops (bitmapKey (ar_name r)) bitmap) (\<lambda>_. put_number ops (usedKey (ar_name r)) n) s = (Inr (), s') \<and>
    ok s' \<and> holds s' = holds s \<and> range_rep (stored s') r (bits_of r bitmap, cursor) \<and> same_except r (stored s) (stored s')"
proof -
  obtain s1 x1 where s1: "put_bytes ops (bitmapKey (ar_name r)) bitmap s = (Inr (), s1)" "ok s1" "holds s1 = holds s"
    "stored s1 = (stored s)(bitmapKey (ar_name r) \<mapsto> x1)" "sv_value x1 = bitmap"
    using put_bytes_law [OF assms(1)] range_keys by blast
  obtain s2 x2 where s2: "put_number ops (usedKey (ar_name r)) n s1 = (Inr (), s2)" "ok s2" "holds s2 = holds s1"
    "stored s2 = (stored s1)(usedKey (ar_name r) \<mapsto> x2)" "sv_value x2 = text_bytes (show_int n)"
    using put_bytes_law [OF s1(2)] range_keys unfolding put_number_def by blast
  have "stored s2 = (stored s)(bitmapKey (ar_name r) \<mapsto> x1, usedKey (ar_name r) \<mapsto> x2)" by (simp add: s1(4) s2(4))
  then have "range_rep (stored s2) r (bits_of r bitmap, cursor) \<and> same_except r (stored s) (stored s2)"
    using range_keys(1) [of "ar_name r"] assms(2-4) s1(5) s2(5) by (auto simp: range_rep_def valued_def same_except_def)
  then show ?thesis using s1(1,3) s2(1-3) by (simp add: bind_op_def)
qed

lemma flip_body_refines:
  assumes "ok s" "range_rep (stored s) r a" "0 \<le> i" "i < ar_size r"
  shows "claim_body ops r i s = (res, s') \<Longrightarrow> ok s' \<and> holds s' = holds s \<and>
      refines r (\<lambda>_. Done) (stored s) (spec_step r (Claim i) a) res (stored s')"
    and "release_body ops r i s = (res, s') \<Longrightarrow> ok s' \<and> holds s' = holds s \<and>
      refines r (\<lambda>_. Done) (stored s) (spec_step r (Release i) a) res (stored s')"
    and "bind_op (getBitmap ops r) (\<lambda>bitmap. lift_op (getBit r bitmap i)) s = (res', s') \<Longrightarrow> ok s' \<and> holds s' = holds s \<and>
      refines r Answer (stored s) (spec_step r (Has i) a) res' (stored s')"
proof -
  obtain taken cursor bitmap where a: "a = (taken, cursor)" "taken = bits_of r bitmap"
    and bm: "valued (stored s) (bitmapKey (ar_name r)) bitmap" "length bitmap = nat ((ar_size r + 7) div 8)"
    and us: "valued (stored s) (usedKey (ar_name r)) (text_bytes (show_int (int (card taken))))"
    using assms(2) by (auto simp: range_rep_def)
  note reads = getUsed_law [OF assms(1) us] getBitmap_law [OF assms(1) bm(1)]
  have bits: "getBit r bitmap i = Inr (i \<in> taken)" "setBit r bitmap i on = Inr (write_bit bitmap i on)" for on
    using assms(3,4) by (auto simp: getBit_def setBit_def validateIndex_def a(2) bits_of_def)
  have len: "length (write_bit bitmap i on) = nat ((ar_size r + 7) div 8)" for on using bm(2) by simp
  note binds = bind_op_def [of "getUsed ops r"] bind_op_def [of "getBitmap ops r"] reads bits
  note written = bits_write [OF assms(3,4) bm(2), folded a(2)]
  { assume run: "claim_body ops r i s = (res, s')"
    show "ok s' \<and> holds s' = holds s \<and> refines r (\<lambda>_. Done) (stored s) (spec_step r (Claim i) a) res (stored s')"
    proof (cases "i \<in> taken")
      case True
      then have "claim_body ops r i s = (Inl (AlreadyAllocated (ar_name r) i), s)" by (simp add: claim_body_def binds throw_op_def)
      then show ?thesis using run True assms by (auto simp: a(1) result_of_def intro!: refines_same)
    next
      case False
      then have "int (card taken) + 1 = int (card (bits_of r (write_bit bitmap i True)))" using written(1) a(2) by simp
      from put_pair [OF assms(1) assms(2) [unfolded a(1)] len this] False run show ?thesis
        using assms(3,4) written(1) by (auto simp: claim_body_def binds a(1) refines_def result_of_def)
    qed }
  { assume run: "release_body ops r i s = (res, s')"
    show "ok s' \<and> holds s' = holds s \<and> refines r (\<lambda>_. Done) (stored s) (spec_step r (Release i) a) res (stored s')"
    proof (cases "i \<in> taken")
      case False
      then have "release_body ops r i s = (Inl (NotAllocated (ar_name r) i), s)" by (simp add: release_body_def binds throw_op_def)
      then show ?thesis using run False assms by (auto simp: a(1) result_of_def intro!: refines_same)
    next
      case True
      then have "0 < card taken" using a(2) card_gt_0_iff by (metis bits_finite empty_iff)
      then have "max 0 (int (card taken) - 1) = int (card (bits_of r (write_bit bitmap i False)))"
        using written(2) True a(2) by (simp add: card_Diff_singleton of_nat_diff)
      from put_pair [OF assms(1) assms(2) [unfolded a(1)] len this] True run show ?thesis
        using assms(3,4) written(2) by (auto simp: release_body_def binds a(1) refines_def result_of_def)
    qed }
  { assume "bind_op (getBitmap ops r) (\<lambda>bitmap. lift_op (getBit r bitmap i)) s = (res', s')"
    then have "res' = Inr (i \<in> taken)" "s' = s" by (simp_all add: binds lift_op_def)
    then show "ok s' \<and> holds s' = holds s \<and> refines r Answer (stored s) (spec_step r (Has i) a) res' (stored s')"
      using assms by (auto simp: a(1) result_of_def intro!: refines_same) }
qed

text \<open>Under the lock, which is free before and after.\<close>

lemma rep_other: "k \<notin> {bitmapKey (ar_name r), cursorKey (ar_name r), usedKey (ar_name r)} \<Longrightarrow> range_rep (st(k := x)) r a = range_rep st r a"
  by (auto simp: range_rep_def valued_def split: prod.split)

lemma locked_refines:
  assumes "ok s" "stored s (lockKey (ar_name r)) = None" "range_rep (stored s) r a"
    and body: "\<And>s1 res s2. ok s1 \<Longrightarrow> range_rep (stored s1) r a \<Longrightarrow> body s1 = (res, s2) \<Longrightarrow>
      ok s2 \<and> holds s2 = holds s1 \<and> refines r f (stored s1) spec res (stored s2)"
    and run: "range_lock ops env r body s = (res, s')"
  shows "ok s' \<and> stored s' (lockKey (ar_name r)) = None \<and> refines r f (stored s) spec res (stored s')"
proof -
  let ?k = "lockKey (ar_name r)"
  have k: "?k \<notin> {bitmapKey (ar_name r), cursorKey (ar_name r), usedKey (ar_name r)}" "?k \<noteq> []"
    using range_keys [of "ar_name r"] by auto
  obtain lease s1 x where s1: "ok s1" "holds s1 lease ?k" "stored s1 = (stored s)(?k \<mapsto> x)"
    and eq: "range_lock ops env r body s = (let (r, s2) = body s1 in (r, kv_unlock ops lease s2))"
    using lock_runs [OF assms(1) k(2) assms(2)] unfolding range_lock_def by blast
  obtain s2 where s2: "body s1 = (res, s2)" and s': "s' = kv_unlock ops lease s2" using run eq by (auto split: prod.splits)
  have "range_rep (stored s1) r a" using assms(3) rep_other [OF k(1)] s1(3) by simp
  from body [OF s1(1) this s2] have b: "ok s2" "holds s2 = holds s1" "refines r f (stored s1) spec res (stored s2)" by simp_all
  then have un: "ok s'" "stored s' = (stored s2)(?k := None)" using unlock_law [OF b(1) k(2)] s1(2) s' by auto
  have "range_rep (stored s') r (snd spec)" using b(3) rep_other [OF k(1)] un(2) by (simp add: refines_def)
  moreover have "same_except r (stored s) (stored s')"
    using b(3) assms(2) by (auto simp: refines_def same_except_def un(2) s1(3))
  ultimately show ?thesis using un b(3) by (simp add: refines_def)
qed

lemma indexed_refines:
  assumes "ok s" "stored s (lockKey (ar_name r)) = None" "range_rep (stored s) r a"
    and body: "\<And>s1 res s2. 0 \<le> i \<Longrightarrow> i < ar_size r \<Longrightarrow> ok s1 \<Longrightarrow> range_rep (stored s1) r a \<Longrightarrow> body s1 = (res, s2) \<Longrightarrow>
      ok s2 \<and> holds s2 = holds s1 \<and> refines r f (stored s1) spec res (stored s2)"
    and bad: "i < 0 \<or> ar_size r \<le> i \<Longrightarrow> spec = (Throws (plain (out_of_bounds r i)), a)"
    and run: "(case validateIndex r i of Some err \<Rightarrow> (Inl err, s) | None \<Rightarrow> range_lock ops env r body s) = (res, s')"
  shows "ok s' \<and> stored s' (lockKey (ar_name r)) = None \<and> refines r f (stored s) spec res (stored s')"
proof (cases "i < 0 \<or> ar_size r \<le> i")
  case True
  then have "validateIndex r i = Some (plain (out_of_bounds r i))" by (auto simp: validateIndex_def out_of_bounds_def)
  then have "res = Inl (plain (out_of_bounds r i))" "s' = s" using run by simp_all
  then show ?thesis using assms(1-3) bad [OF True] by (simp add: result_of_def refines_same)
next
  case False
  then have run': "range_lock ops env r body s = (res, s')" using run by (simp add: validateIndex_def)
  show ?thesis by (rule locked_refines [OF assms(1-3) _ run'], rule body) (use False in simp_all)
qed

lemma step_refines:
  assumes "ok s" "stored s (lockKey (ar_name r)) = None" "range_rep (stored s) r a" "range_step ops env r c s = (x, s')"
  shows "ok s' \<and> stored s' (lockKey (ar_name r)) = None \<and> x = fst (spec_step r c a) \<and> range_rep (stored s') r (snd (spec_step r c a)) \<and>
    same_except r (stored s) (stored s')"
proof (cases c)
  case Allocate
  then obtain res where run: "range_lock ops env r (allocate_body ops r) s = (res, s')" and x: "x = result_of Index res"
    using assms(4) by (cases "range_lock ops env r (allocate_body ops r) s") (simp add: range_step_def range_allocate_def)
  have "ok s' \<and> stored s' (lockKey (ar_name r)) = None \<and> refines r Index (stored s) (spec_step r Allocate a) res (stored s')"
    by (rule locked_refines [OF assms(1-3) _ run]) (rule allocate_body_refines)
  then show ?thesis using x Allocate by (simp add: refines_def)
next
  case (Claim i)
  then obtain res where run: "range_claim ops env r i s = (res, s')" and x: "x = result_of (\<lambda>_. Done) res"
    using assms(4) by (cases "range_claim ops env r i s") (simp add: range_step_def)
  have "ok s' \<and> stored s' (lockKey (ar_name r)) = None \<and> refines r (\<lambda>_. Done) (stored s) (spec_step r (Claim i) a) res (stored s')"
    by (rule indexed_refines [OF assms(1-3) _ _ run [unfolded range_claim_def]], rule flip_body_refines(1)) (simp_all add: spec_bad)
  then show ?thesis using x Claim by (simp add: refines_def)
next
  case (Release i)
  then obtain res where run: "range_release ops env r i s = (res, s')" and x: "x = result_of (\<lambda>_. Done) res"
    using assms(4) by (cases "range_release ops env r i s") (simp add: range_step_def)
  have "ok s' \<and> stored s' (lockKey (ar_name r)) = None \<and> refines r (\<lambda>_. Done) (stored s) (spec_step r (Release i) a) res (stored s')"
    by (rule indexed_refines [OF assms(1-3) _ _ run [unfolded range_release_def]], rule flip_body_refines(2)) (simp_all add: spec_bad)
  then show ?thesis using x Release by (simp add: refines_def)
next
  case (Has i)
  then obtain res where run: "range_has ops env r i s = (res, s')" and x: "x = result_of Answer res"
    using assms(4) by (cases "range_has ops env r i s") (simp add: range_step_def)
  have "ok s' \<and> stored s' (lockKey (ar_name r)) = None \<and> refines r Answer (stored s) (spec_step r (Has i) a) res (stored s')"
    by (rule indexed_refines [OF assms(1-3) _ _ run [unfolded range_has_def]], rule flip_body_refines(3)) (simp_all add: spec_bad)
  then show ?thesis using x Has by (simp add: refines_def)
qed

lemma reset_law:
  assumes "ok s" "stored s (lockKey (ar_name r)) = None"
  shows "\<exists>s'. range_reset ops r s = (Inr (), s') \<and> ok s' \<and> stored s' (lockKey (ar_name r)) = None \<and> range_rep (stored s') r ({}, 0)"
proof -
  let ?bm = "replicate (nat ((ar_size r + 7) div 8)) (0 :: nat)"
  obtain s1 x1 where s1: "put_bytes ops (bitmapKey (ar_name r)) ?bm s = (Inr (), s1)" "ok s1"
    "stored s1 = (stored s)(bitmapKey (ar_name r) \<mapsto> x1)" "sv_value x1 = ?bm"
    using put_bytes_law [OF assms(1)] range_keys by blast
  obtain s2 x2 where s2: "put_number ops (cursorKey (ar_name r)) 0 s1 = (Inr (), s2)" "ok s2"
    "stored s2 = (stored s1)(cursorKey (ar_name r) \<mapsto> x2)" "sv_value x2 = text_bytes (show_int 0)"
    using put_bytes_law [OF s1(2)] range_keys unfolding put_number_def by blast
  obtain s3 x3 where s3: "put_number ops (usedKey (ar_name r)) 0 s2 = (Inr (), s3)" "ok s3"
    "stored s3 = (stored s2)(usedKey (ar_name r) \<mapsto> x3)" "sv_value x3 = text_bytes (show_int 0)"
    using put_bytes_law [OF s2(2)] range_keys unfolding put_number_def by blast
  have st: "stored s3 = (stored s)(bitmapKey (ar_name r) \<mapsto> x1, cursorKey (ar_name r) \<mapsto> x2, usedKey (ar_name r) \<mapsto> x3)"
    by (simp add: s1(3) s2(3) s3(3))
  have "\<not> bit_at ?bm i" for i by (simp add: bit_at_iff)
  then have "bits_of r ?bm = {}" by (simp add: bits_of_def)
  then have "range_rep (stored s3) r ({}, 0)"
    using range_keys(1) [of "ar_name r"] s1(4) s2(4) s3(4)
    by (auto simp: range_rep_def valued_def st intro!: exI [of _ ?bm])
  moreover have "stored s3 (lockKey (ar_name r)) = None" using range_keys(1) [of "ar_name r"] assms(2) by (auto simp: st)
  ultimately show ?thesis using s1(1) s2(1) s3(1,2) by (simp add: range_reset_def bind_op_def)
qed

end

section \<open>Runs\<close>

text \<open>A run of calls on a range, and of anything others do with the store between them.\<close>

datatype 's range_event = Call "'s lock_env" range_call | Others "'s \<Rightarrow> 's"

fun range_run :: "'s kv_ops \<Rightarrow> allocatable \<Rightarrow> 's range_event list \<Rightarrow> 's \<Rightarrow> range_result list \<times> 's" where
  "range_run ops r [] s = ([], s)"
| "range_run ops r (Call env c # es) s =
     (let (x, s) = range_step ops env r c s; (xs, s) = range_run ops r es s in (x # xs, s))"
| "range_run ops r (Others f # es) s = range_run ops r es (f s)"

fun spec_run :: "allocatable \<Rightarrow> 's range_event list \<Rightarrow> range_state \<Rightarrow> range_result list" where
  "spec_run r [] a = []"
| "spec_run r (Call env c # es) a = (let (x, a) = spec_step r c a in x # spec_run r es a)"
| "spec_run r (Others f # es) a = spec_run r es a"

text \<open>What others do leaves the keys of the range alone.\<close>

definition minds_range :: "order \<Rightarrow> allocatable \<Rightarrow> fake_state range_event \<Rightarrow> bool" where
  "minds_range lc r e = (case e of Call env c \<Rightarrow> True | Others f \<Rightarrow>
     (\<forall>s. etcd_ok lc s \<longrightarrow> etcd_ok lc (f s) \<and>
       (\<forall>k \<in> {bitmapKey (ar_name r), cursorKey (ar_name r), usedKey (ar_name r), lockKey (ar_name r)}.
          stored_at lc (f s) k = stored_at lc s k)))"

lemma rep_cong: "st' (bitmapKey (ar_name r)) = st (bitmapKey (ar_name r)) \<Longrightarrow> st' (cursorKey (ar_name r)) = st (cursorKey (ar_name r)) \<Longrightarrow>
    st' (usedKey (ar_name r)) = st (usedKey (ar_name r)) \<Longrightarrow> range_rep st' r a = range_rep st r a"
  by (simp add: range_rep_def valued_def)

context etcd_keys
begin

lemmas reset_etcd = client.reset_law

lemma run_refines:
  assumes "etcd_ok lc s" "stored_at lc s (lockKey (ar_name r)) = None" "range_rep (stored_at lc s) r a"
    "\<forall>e \<in> set es. minds_range lc r e"
  shows "fst (range_run (etcd_ops lc) r es s) = spec_run r es a"
  using assms
proof (induction es arbitrary: s a)
  case (Cons e es)
  show ?case
  proof (cases e)
    case (Call env c)
    obtain x s' where step: "range_step (etcd_ops lc) env r c s = (x, s')" by (cases "range_step (etcd_ops lc) env r c s")
    obtain y a' where spec: "spec_step r c a = (y, a')" by (cases "spec_step r c a")
    note facts = client.step_refines [OF Cons.prems(1-3) step, unfolded spec fst_conv snd_conv]
    have "fst (range_run (etcd_ops lc) r es s') = spec_run r es a'" by (rule Cons.IH) (use facts Cons.prems(4) in simp_all)
    then show ?thesis using Call step spec facts by (simp add: case_prod_beta)
  next
    case (Others f)
    then have f: "etcd_ok lc (f s)" "stored_at lc (f s) (lockKey (ar_name r)) = None"
        "stored_at lc (f s) (bitmapKey (ar_name r)) = stored_at lc s (bitmapKey (ar_name r))"
        "stored_at lc (f s) (cursorKey (ar_name r)) = stored_at lc s (cursorKey (ar_name r))"
        "stored_at lc (f s) (usedKey (ar_name r)) = stored_at lc s (usedKey (ar_name r))"
      using Cons.prems(1,2,4) by (auto simp: minds_range_def)
    have "fst (range_run (etcd_ops lc) r es (f s)) = spec_run r es a"
      by (rule Cons.IH) (use f rep_cong [OF f(3-5)] Cons.prems(3,4) in simp_all)
    then show ?thesis using Others by simp
  qed
qed simp

end

text \<open>
  C39. A range is a set of indices with a cursor. Whatever calls are made on a range after it is created, and
  whatever others do with other keys of the etcd in between, the results are those of the specification:
  an allocation returns the first free index from the cursor on and fails only when all are taken, a claim
  succeeds exactly for a free index, a release exactly for a taken one, and every index out of bounds is refused.
\<close>
theorem range_refines_set:
  assumes "etcd_keys lc" "etcd_ok lc s" "stored_at lc s (lockKey (ar_name r)) = None"
    and "range_reset (etcd_ops lc) r s = (created, s0)" "\<forall>e \<in> set es. minds_range lc r e"
  shows "created = Inr () \<and> fst (range_run (etcd_ops lc) r es s0) = spec_run r es ({}, 0)"
proof -
  obtain s1 where s1: "range_reset (etcd_ops lc) r s = (Inr (), s1)" "etcd_ok lc s1" "stored_at lc s1 (lockKey (ar_name r)) = None"
    "range_rep (stored_at lc s1) r ({}, 0)"
    using etcd_keys.reset_etcd [OF assms(1-3)] by blast
  then show ?thesis using etcd_keys.run_refines [OF assms(1) s1(2-4) assms(5)] assms(4) by simp
qed

definition demo_ports :: allocatable where
  "demo_ports = \<lparr>ar_name = ''p'', ar_size = 3\<rparr>"

definition demo_calls :: "fake_state range_event list" where
  "demo_calls = (let call = Call \<lparr>le_waits = [], le_giveup = plain ''timeout''\<rparr> in
     [call Allocate, call (Claim 1), Others (\<lambda>s. snd (put_exec order_cmp [97] [1] s)), call (Claim 1), call Allocate, call Allocate,
      call (Release 1), call (Has 1), call (Release 3), call Allocate])"

lemma demo_minds: "\<forall>e \<in> set demo_calls. minds_range order_cmp demo_ports e"
proof -
  have keys: "bitmapKey n \<noteq> [97]" "cursorKey n \<noteq> [97]" "usedKey n \<noteq> [97]" "lockKey n \<noteq> [97]" for n
    by (simp_all add: bitmapKey_def cursorKey_def usedKey_def lockKey_def range_key_def str_key_def)
  have "etcd_ok order_cmp s' \<and> (\<forall>k. k \<noteq> [97] \<longrightarrow> stored_at order_cmp s' k = stored_at order_cmp s k)"
    if "etcd_ok order_cmp s" "s' = snd (put_exec order_cmp [97] [1] s)" for s s'
    using code_units.etcd_put_law [OF that(1), of "[97]" "[1]"] that(2) by auto
  then have "minds_range order_cmp r (Others (\<lambda>s. snd (put_exec order_cmp [97] [1] s)))" for r
    using keys [of "ar_name r"] by (simp add: minds_range_def)
  then show ?thesis by (simp add: demo_calls_def Let_def minds_range_def)
qed

lemma range_refines_set_witness:
  "fst (range_run (etcd_ops order_cmp) demo_ports demo_calls (snd (range_reset (etcd_ops order_cmp) demo_ports (new_fake_state None)))) =
    [Index 0, Done, Throws (AlreadyAllocated ''p'' 1), Index 2, Throws (plain ''no free space in range p''), Done, Answer False,
     Throws (plain ''index 3 out of bounds for range p''), Index 1]"
proof -
  have three: "show_int 3 = ''3''" by code_simp
  have "stored_at order_cmp (new_fake_state None) (lockKey (ar_name demo_ports)) = None"
    by (simp add: stored_at_def new_fake_state_def revisions_of_def currentValue_def sm_get_def)
  from range_refines_set [OF code_units.etcd_keys_axioms new_state_ok this prod.collapse [symmetric] demo_minds]
  have "fst (range_run (etcd_ops order_cmp) demo_ports demo_calls (snd (range_reset (etcd_ops order_cmp) demo_ports (new_fake_state None)))) =
    spec_run demo_ports demo_calls ({}, 0)" by blast
  also have "\<dots> = [Index 0, Done, Throws (AlreadyAllocated ''p'' 1), Index 2, Throws (plain ''no free space in range p''), Done, Answer False,
     Throws (plain ''index 3 out of bounds for range p''), Index 1]"
    by (simp add: demo_calls_def demo_ports_def Let_def candidates_def out_of_bounds_def upto.simps three)
  finally show ?thesis .
qed

end
