(* ===== verification/JsonText.thy ===== *)
theory JsonText
  imports JsNumber Json
begin

text \<open>
  \<open>JSON.stringify\<close> and \<open>JSON.parse\<close> of the JavaScript library, in whose texts the storage layer keeps its objects, and the proof that reading
  what was written gives the value back, less what JSON cannot say. Numbers are integers and strings have code
  units below 256; keys that look like array indices keep their place.
\<close>

section \<open>Dates\<close>

text \<open>\<open>Date.prototype.toISOString\<close>, of milliseconds since 1970.\<close>

definition pad :: "nat \<Rightarrow> int \<Rightarrow> string" where
  "pad width n = (let s = show_nat (nat n) in replicate (width - length s) CHR ''0'' @ s)"

definition civil_date :: "int \<Rightarrow> int \<times> int \<times> int" where
  "civil_date days =
     (let z = days + 719468; era = z div 146097; doe = z mod 146097;
          yoe = (doe - doe div 1460 + doe div 36524 - doe div 146096) div 365;
          doy = doe - (365 * yoe + yoe div 4 - yoe div 100);
          mp = (5 * doy + 2) div 153;
          m = (if mp < 10 then mp + 3 else mp - 9)
      in (yoe + era * 400 + (if m \<le> 2 then 1 else 0), m, doy - (153 * mp + 2) div 5 + 1))"

definition iso_year :: "int \<Rightarrow> string" where
  "iso_year y = (if 0 \<le> y \<and> y \<le> 9999 then pad 4 y else (if y < 0 then CHR ''-'' else CHR ''+'') # pad 6 \<bar>y\<bar>)"

definition iso_text :: "int \<Rightarrow> string" where
  "iso_text ms =
     (let (y, m, d) = civil_date (ms div 86400000); t = ms mod 86400000
      in iso_year y @ ''-'' @ pad 2 m @ ''-'' @ pad 2 d @ ''T'' @ pad 2 (t div 3600000) @ '':'' @
         pad 2 (t div 60000 mod 60) @ '':'' @ pad 2 (t div 1000 mod 60) @ ''.'' @ pad 3 (t mod 1000) @ ''Z'')"

section \<open>Writing\<close>

text \<open>A property that is \<open>undefined\<close> is left out, an element that is becomes \<open>null\<close>.\<close>

fun stringify :: "json \<Rightarrow> string" where
  "stringify JUndef = ''null''"
| "stringify JNull = ''null''"
| "stringify (JBool b) = (if b then ''true'' else ''false'')"
| "stringify (JNum i) = show_int i"
| "stringify (JStr s) = json_string s"
| "stringify (JDate t) = json_string (iso_text t)"
| "stringify (JArr xs) = CHR ''['' # js_join '','' (map stringify xs) @ '']''"
| "stringify (JObj fs) = CHR ''{'' #
     js_join '','' (map (\<lambda>(k, s). json_string k @ CHR '':'' # s) (map (\<lambda>(k, v). (k, stringify v)) (filter (\<lambda>(k, v). v \<noteq> JUndef) fs)))
     @ ''}''"

text \<open>What is left of a value after writing and reading it.\<close>

fun json_image :: "json \<Rightarrow> json" where
  "json_image JUndef = JNull"
| "json_image (JDate t) = JStr (iso_text t)"
| "json_image (JArr xs) = JArr (map json_image xs)"
| "json_image (JObj fs) = JObj (map (\<lambda>(k, v). (k, json_image v)) (filter (\<lambda>(k, v). v \<noteq> JUndef) fs))"
| "json_image v = v"

section \<open>Reading\<close>

definition json_space :: "char \<Rightarrow> bool" where
  "json_space c \<longleftrightarrow> of_char c \<in> {9 :: nat, 10, 13, 32}"

abbreviation skip :: "string \<Rightarrow> string" where
  "skip \<equiv> dropWhile json_space"

definition short_escapes :: "(char \<times> char) list" where
  "short_escapes = [(CHR 0x22, CHR 0x22), (CHR 0x5C, CHR 0x5C), (CHR ''/'', CHR ''/''), (CHR ''b'', CHR 0x08),
     (CHR ''f'', CHR 0x0C), (CHR ''n'', CHR 0x0A), (CHR ''r'', CHR 0x0D), (CHR ''t'', CHR 0x09)]"

definition cons_fst :: "'a \<Rightarrow> ('a list \<times> 'b) option \<Rightarrow> ('a list \<times> 'b) option" where
  "cons_fst x r = map_option (\<lambda>(xs, s). (x # xs, s)) r"

text \<open>The characters of a string up to the closing quote.\<close>

fun parse_chars :: "string \<Rightarrow> (string \<times> string) option" where
  "parse_chars [] = None"
| "parse_chars (c # s) =
     (if c = CHR 0x22 then Some ([], s)
      else if c = CHR 0x5C then
        (case s of
           [] \<Rightarrow> None
         | e # s \<Rightarrow>
             if e = CHR ''u'' then
               (case s of
                  a # b # c # d # s \<Rightarrow>
                    (case (char_hex a, char_hex b, char_hex c, char_hex d) of
                       (Some 0, Some 0, Some h, Some l) \<Rightarrow> cons_fst (char_of (16 * h + l)) (parse_chars s)
                     | _ \<Rightarrow> None)
                | _ \<Rightarrow> None)
             else (case map_of short_escapes e of
                 None \<Rightarrow> None
               | Some c \<Rightarrow> cons_fst c (parse_chars s)))
      else if of_char c < (32 :: nat) then None
      else cons_fst c (parse_chars s))"

definition number_char :: "char \<Rightarrow> bool" where
  "number_char c \<longleftrightarrow> is_digit c \<or> c \<in> set ''+-.eE''"

text \<open>A number is digits without a needless zero, perhaps a sign before and a fraction and an exponent after.\<close>

definition parse_number :: "string \<Rightarrow> (json \<times> string) option" where
  "parse_number s =
     (let t = takeWhile number_char s; digits = (if take 1 t = ''-'' then tl t else t);
          whole = takeWhile is_digit digits; rest = drop (length whole) digits
      in if whole = [] \<or> (hd whole = CHR ''0'' \<and> length whole > 1) \<or>
            (take 1 rest = ''.'' \<and> takeWhile is_digit (tl rest) = []) then None
         else map_option (\<lambda>n. (JNum (if digits = t then n else - n), dropWhile number_char s)) (unsigned_number digits))"

definition literal :: "string \<Rightarrow> json \<Rightarrow> string \<Rightarrow> (json \<times> string) option" where
  "literal w v s = (if take (length w) s = w then Some (v, drop (length w) s) else None)"

text \<open>
  The parser with fuel, of which the length of the text leaves enough. \<open>parse_items\<close> reads what follows the
  opening bracket of an array that is not empty, \<open>parse_members\<close> the same of an object, both with the parser
  for the values in them; a key that occurs again replaces the value of the first.
\<close>

type_synonym 'a parser = "string \<Rightarrow> ('a \<times> string) option"

primrec parse_items :: "json parser \<Rightarrow> nat \<Rightarrow> json list parser" where
  "parse_items p 0 s = None"
| "parse_items p (Suc n) s =
     (case p s of
        None \<Rightarrow> None
      | Some (v, s) \<Rightarrow>
          let s = skip s in
          if take 1 s = '','' then cons_fst v (parse_items p n (tl s))
          else if take 1 s = '']'' then Some ([v], tl s)
          else None)"

definition parse_member :: "json parser \<Rightarrow> (string \<times> json) parser" where
  "parse_member p s =
     (let s = skip s in
      if take 1 s \<noteq> [CHR 0x22] then None
      else case parse_chars (tl s) of
        None \<Rightarrow> None
      | Some (k, s) \<Rightarrow>
          let s = skip s in
          if take 1 s \<noteq> '':'' then None else map_option (\<lambda>(v, s). ((k, v), s)) (p (tl s)))"

primrec parse_members :: "json parser \<Rightarrow> nat \<Rightarrow> (string \<times> json) list \<Rightarrow> (string \<times> json) list parser" where
  "parse_members p 0 fs s = None"
| "parse_members p (Suc n) fs s =
     (case parse_member p s of
        None \<Rightarrow> None
      | Some ((k, v), s) \<Rightarrow>
          let s = skip s; fs = jm_set k v fs in
          if take 1 s = '','' then parse_members p n fs (tl s)
          else if take 1 s = ''}'' then Some (fs, tl s)
          else None)"

definition parse_array :: "json parser \<Rightarrow> nat \<Rightarrow> json parser" where
  "parse_array p n s =
     (let s = skip s in
      if take 1 s = '']'' then Some (JArr [], tl s) else map_option (apfst JArr) (parse_items p n s))"

definition parse_object :: "json parser \<Rightarrow> nat \<Rightarrow> json parser" where
  "parse_object p n s =
     (let s = skip s in
      if take 1 s = ''}'' then Some (JObj [], tl s) else map_option (apfst JObj) (parse_members p n [] s))"

primrec parse_value :: "nat \<Rightarrow> json parser" where
  "parse_value 0 s = None"
| "parse_value (Suc n) s =
     (let s = skip s in
      if s = [] then None
      else if hd s = CHR ''n'' then literal ''null'' JNull s
      else if hd s = CHR ''t'' then literal ''true'' (JBool True) s
      else if hd s = CHR ''f'' then literal ''false'' (JBool False) s
      else if hd s = CHR 0x22 then map_option (apfst JStr) (parse_chars (tl s))
      else if hd s = CHR ''['' then parse_array (parse_value n) n (tl s)
      else if hd s = CHR ''{'' then parse_object (parse_value n) n (tl s)
      else parse_number s)"

definition json_parse :: "string \<Rightarrow> json option" where
  "json_parse s = (case parse_value (length s + 1) s of Some (v, t) \<Rightarrow> if skip t = [] then Some v else None | None \<Rightarrow> None)"

section \<open>Reading what was written\<close>

lemma cons_fst_Some [simp]: "cons_fst x (Some (xs, s)) = Some (x # xs, s)"
  by (simp add: cons_fst_def)

lemma char_hex_digit [simp]: "d < 16 \<Longrightarrow> char_hex (hex_digit d) = Some d"
  by (simp add: char_hex_def hex_digit_def less_eq_char_def)

lemma parse_json_char: "parse_chars (json_char c @ s) = cons_fst c (parse_chars s)"
proof -
  consider "c \<in> {CHR 0x22, CHR 0x5C, CHR 0x08, CHR 0x0C, CHR 0x0A, CHR 0x0D, CHR 0x09}"
    | "c \<notin> {CHR 0x22, CHR 0x5C, CHR 0x08, CHR 0x0C, CHR 0x0A, CHR 0x0D, CHR 0x09}" "of_char c < (32 :: nat)"
    | "c \<notin> {CHR 0x22, CHR 0x5C, CHR 0x08, CHR 0x0C, CHR 0x0A, CHR 0x0D, CHR 0x09}" "\<not> of_char c < (32 :: nat)" by blast
  then show ?thesis
  proof cases
    case 1
    then show ?thesis by (elim insertE emptyE) (simp_all add: json_char_def short_escapes_def)
  next
    case 2
    then have esc: "json_char c = [CHR 0x5C, CHR ''u'', CHR ''0'', CHR ''0'', hex_digit (of_char c div 16), hex_digit (of_char c mod 16)]"
      by (simp add: json_char_def)
    have "char_hex (hex_digit (of_char c div 16)) = Some (of_char c div 16)" "char_hex (hex_digit (of_char c mod 16)) = Some (of_char c mod 16)"
      using 2(2) by simp_all
    moreover have "char_hex CHR ''0'' = Some 0" by (simp add: char_hex_def less_eq_char_def)
    moreover have "16 * (of_char c div 16) + of_char c mod 16 = (of_char c :: nat)" by simp
    ultimately show ?thesis unfolding esc by (simp del: mult_div_mod_eq)
  next
    case 3
    then show ?thesis by (simp add: json_char_def)
  qed
qed

lemma parse_chars_string: "parse_chars (concat (map json_char s) @ CHR 0x22 # t) = Some (s, t)"
  by (induction s) (simp_all add: parse_json_char)

lemma show_nat_zero: "hd (show_nat n) = CHR ''0'' \<Longrightarrow> length (show_nat n) = 1"
proof (induction n rule: show_nat.induct)
  case (1 n)
  show ?case
  proof (cases "n < 10")
    case True
    then show ?thesis by (simp add: show_nat.simps [of n])
  next
    case False
    then have "hd (show_nat (n div 10)) = CHR ''0''" using 1(2) by (simp add: show_nat.simps [of n])
    with 1(1) False have "length (show_nat (n div 10)) = 1" by simp
    then obtain c where "show_nat (n div 10) = [c]" by (auto simp: length_Suc_conv)
    moreover from this have "c = CHR ''0''" using \<open>hd (show_nat (n div 10)) = CHR ''0''\<close> by simp
    ultimately have "digits_val 0 (show_nat (n div 10)) = 0" by (simp add: digit_val_def)
    then show ?thesis using False by simp
  qed
qed

definition ends :: "string \<Rightarrow> bool" where
  "ends s \<longleftrightarrow> s = [] \<or> hd s \<in> set '',]}''"

lemma ends_number: "ends s \<Longrightarrow> takeWhile number_char s = [] \<and> dropWhile number_char s = s"
proof -
  have "\<not> number_char c" if "c \<in> set '',]}''" for c using that by (auto simp: number_char_def is_digit_def less_eq_char_def)
  then show "ends s \<Longrightarrow> takeWhile number_char s = [] \<and> dropWhile number_char s = s" by (cases s) (auto simp: ends_def)
qed

lemma show_int_chars: "list_all number_char (show_int i)"
  using show_nat_digits by (auto simp: show_int_def number_char_def list_all_iff)

lemma parse_number_show: "ends s \<Longrightarrow> parse_number (show_int i @ s) = Some (JNum i, s)"
proof -
  assume "ends s"
  let ?d = "show_nat (nat \<bar>i\<bar>)"
  have tw: "takeWhile number_char (show_int i @ s) = show_int i" "dropWhile number_char (show_int i @ s) = s"
    using ends_number [OF \<open>ends s\<close>] show_int_chars [of i] by (simp_all add: takeWhile_append2 dropWhile_append2 list_all_iff)
  have dw: "takeWhile is_digit ?d = ?d" using show_nat_digits by (simp add: takeWhile_eq_all_conv)
  have neg: "take 1 ?d \<noteq> ''-''" using show_nat_digits [of "nat \<bar>i\<bar>"] not_digits(8) by (cases ?d) auto
  have num: "unsigned_number ?d = Some \<bar>i\<bar>" using digits_unsigned [OF show_nat_not_Nil show_nat_digits] by simp
  have zero: "\<not> (hd ?d = CHR ''0'' \<and> 1 < length ?d)" using show_nat_zero by fastforce
  have digits: "(if take 1 (show_int i) = ''-'' then tl (show_int i) else show_int i) = ?d"
    using neg by (cases "i < 0") (simp_all add: show_int_def)
  have sign: "?d = show_int i \<longleftrightarrow> 0 \<le> i" using neg by (cases "i < 0") (auto simp: show_int_def)
  show ?thesis
    unfolding parse_number_def Let_def tw digits dw using num zero sign by auto
qed

lemma stringify_hd: "\<exists>c t. stringify v = c # t \<and> \<not> json_space c \<and> c \<notin> set ''],}''"
proof (cases v)
  case (JNum i)
  have "show_int i \<noteq> []" by (simp add: show_int_def)
  then obtain c t where "show_int i = c # t" by (cases "show_int i") auto
  moreover from this have "number_char c" using show_int_chars [of i] by simp
  then have "\<not> json_space c \<and> c \<notin> set ''],}''" by (auto simp: number_char_def json_space_def is_digit_def less_eq_char_def)
  ultimately show ?thesis using JNum by simp
qed (auto simp: json_space_def json_string_def)

lemma skip_stringify: "skip (stringify v @ s) = stringify v @ s" "stringify v @ s \<noteq> []"
  using stringify_hd [of v] by auto

lemma take_one: "c \<noteq> d \<Longrightarrow> take 1 (c # s) \<noteq> [d]"
  by simp

lemma parse_literal: "parse_value (Suc n) (CHR ''n'' # CHR ''u'' # CHR ''l'' # CHR ''l'' # s) = Some (JNull, s)" "parse_value (Suc n) (CHR ''t'' # CHR ''r'' # CHR ''u'' # CHR ''e'' # s) = Some (JBool True, s)"
    "parse_value (Suc n) (CHR ''f'' # CHR ''a'' # CHR ''l'' # CHR ''s'' # CHR ''e'' # s) = Some (JBool False, s)"
  by (simp_all add: json_space_def literal_def Let_def)

lemma parse_string_value: "parse_value (Suc n) (json_string t @ s) = Some (JStr t, s)"
  by (simp add: json_string_def json_space_def Let_def parse_chars_string)

lemma parse_show_int: "ends s \<Longrightarrow> parse_value (Suc n) (show_int i @ s) = Some (JNum i, s)"
proof -
  assume s: "ends s"
  have "show_int i \<noteq> []" by (simp add: show_int_def)
  then obtain c t where ct: "show_int i = c # t" by (cases "show_int i") auto
  then have "number_char c" using show_int_chars [of i] by simp
  then have "\<not> json_space c" "c \<notin> set ''ntf[{'' \<union> {CHR 0x22}" by (auto simp: number_char_def json_space_def is_digit_def less_eq_char_def)
  then show ?thesis using parse_number_show [OF s, of i] by (simp add: ct Let_def)
qed

lemma parse_items_join:
  assumes "\<And>x rest. x \<in> set xs \<Longrightarrow> ends rest \<Longrightarrow> p (stringify x @ rest) = Some (json_image x, rest)"
  shows "xs \<noteq> [] \<Longrightarrow> length xs \<le> n \<Longrightarrow>
    parse_items p n (js_join '','' (map stringify xs) @ CHR '']'' # s) = Some (map json_image xs, s)"
  using assms
proof (induction xs arbitrary: n)
  case (Cons x xs)
  obtain m where n: "n = Suc m" using Cons.prems(2) by (cases n) auto
  show ?case
  proof (cases "xs = []")
    case True
    have "p (stringify x @ CHR '']'' # s) = Some (json_image x, CHR '']'' # s)" by (rule Cons.prems(3)) (simp_all add: ends_def)
    then show ?thesis using True by (simp add: n json_space_def Let_def)
  next
    case False
    let ?rest = "js_join '','' (map stringify xs) @ CHR '']'' # s"
    have x: "p (stringify x @ CHR '','' # ?rest) = Some (json_image x, CHR '','' # ?rest)"
      by (rule Cons.prems(3)) (simp_all add: ends_def)
    have "parse_items p m ?rest = Some (map json_image xs, s)" by (rule Cons.IH) (use False Cons.prems n in auto)
    then show ?thesis using x False by (simp add: n js_join_Cons json_space_def Let_def)
  qed
qed simp

lemma parse_member_string:
  assumes "p (stringify v @ s) = Some (json_image v, s)"
  shows "parse_member p (json_string k @ CHR '':'' # stringify v @ s) = Some ((k, json_image v), s)"
  using assms by (simp add: parse_member_def json_string_def json_space_def Let_def parse_chars_string)

definition member_text :: "string \<times> json \<Rightarrow> string" where
  "member_text = (\<lambda>(k, v). json_string k @ CHR '':'' # stringify v)"

lemma parse_members_join:
  assumes "\<And>k v rest. (k, v) \<in> set fs \<Longrightarrow> ends rest \<Longrightarrow> p (stringify v @ rest) = Some (json_image v, rest)"
  shows "fs \<noteq> [] \<Longrightarrow> length fs \<le> n \<Longrightarrow> jm_ok (gs @ fs) \<Longrightarrow>
    parse_members p n gs (js_join '','' (map member_text fs) @ CHR ''}'' # s) = Some (gs @ map (\<lambda>(k, v). (k, json_image v)) fs, s)"
  using assms
proof (induction fs arbitrary: n gs)
  case (Cons f fs)
  obtain k v where f: "f = (k, v)" by (cases f)
  obtain m where n: "n = Suc m" using Cons.prems(2) by (cases n) auto
  have fresh: "jm_set k (json_image v) gs = gs @ [(k, json_image v)]" using Cons.prems(3) by (simp add: f jm_set_fresh)
  have member: "parse_member p (member_text f @ t) = Some ((k, json_image v), t)" if "ends t" for t
    using parse_member_string [of p v t k] Cons.prems(4) [of k v t] that by (simp add: f member_text_def)
  show ?case
  proof (cases "fs = []")
    case True
    have "parse_member p (member_text f @ CHR ''}'' # s) = Some ((k, json_image v), CHR ''}'' # s)" by (rule member) (simp add: ends_def)
    then show ?thesis using True fresh by (simp add: n json_space_def Let_def f)
  next
    case False
    let ?rest = "js_join '','' (map member_text fs) @ CHR ''}'' # s" and ?gs = "gs @ [(k, json_image v)]"
    have x: "parse_member p (member_text f @ CHR '','' # ?rest) = Some ((k, json_image v), CHR '','' # ?rest)"
      by (rule member) (simp add: ends_def)
    have "parse_members p m ?gs ?rest = Some (?gs @ map (\<lambda>(k, v). (k, json_image v)) fs, s)"
      by (rule Cons.IH) (use False Cons.prems n f in auto)
    then show ?thesis using x False fresh by (simp add: n js_join_Cons json_space_def Let_def f)
  qed
qed simp

lemma join_length: "(\<And>x. x \<in> set xs \<Longrightarrow> x \<noteq> []) \<Longrightarrow> length xs \<le> length (js_join sep xs)"
proof (induction xs)
  case (Cons x xs)
  then have "x \<noteq> []" "length xs \<le> length (js_join sep xs)" by auto
  then show ?case by (cases "xs = []"; cases x) (simp_all add: js_join_Cons)
qed simp

lemma join_part: "x \<in> set xs \<Longrightarrow> length x \<le> length (js_join sep xs)"
  by (induction xs rule: induct_list012) (auto simp: js_join_Cons)

lemma stringify_fields: "stringify (JObj fs) =
    CHR ''{'' # js_join '','' (map member_text (filter (\<lambda>(k, v). v \<noteq> JUndef) fs)) @ ''}''"
  by (simp add: member_text_def comp_def case_prod_unfold)

lemma parse_stringify:
  "length (stringify v) < n \<Longrightarrow> json_ok v \<Longrightarrow> ends rest \<Longrightarrow> parse_value n (stringify v @ rest) = Some (json_image v, rest)"
proof (induction v arbitrary: n rest)
  case (JArr xs)
  obtain m where n: "n = Suc m" using JArr.prems(1) by (cases n) auto
  let ?items = "js_join '','' (map stringify xs)"
  have head: "parse_value n (stringify (JArr xs) @ rest) = parse_array (parse_value m) m (?items @ CHR '']'' # rest)"
    by (simp add: n json_space_def Let_def)
  have len: "length ?items < m" using JArr.prems(1) n by simp
  show ?case
  proof (cases xs)
    case Nil
    then show ?thesis unfolding head by (simp add: parse_array_def json_space_def Let_def)
  next
    case (Cons x ys)
    obtain c t where ct: "?items = c # t" "\<not> json_space c" "c \<noteq> CHR '']''"
      using stringify_hd [of x] Cons by (cases "ys = []") (auto simp: js_join_Cons)
    have "parse_items (parse_value m) m (?items @ CHR '']'' # rest) = Some (map json_image xs, rest)"
    proof (rule parse_items_join)
      fix x r assume x: "x \<in> set xs" and r: "ends r"
      have "length (stringify x) < m" using join_part [of "stringify x" "map stringify xs" "'',''"] x len by simp
      then show "parse_value m (stringify x @ r) = Some (json_image x, r)"
        using JArr.IH [OF x] JArr.prems(2) x r by (simp add: list_all_iff)
    next
      have "length (map stringify xs) \<le> length ?items"
        by (rule join_length) (use skip_stringify(2) [of _ "[]"] in auto)
      then show "length xs \<le> m" using len by simp
    qed (use Cons in simp)
    then show ?thesis unfolding head using ct by (simp add: parse_array_def Let_def)
  qed
next
  case (JObj fs)
  obtain m where n: "n = Suc m" using JObj.prems(1) by (cases n) auto
  let ?gs = "filter (\<lambda>(k, v). v \<noteq> JUndef) fs"
  let ?items = "js_join '','' (map member_text ?gs)"
  have image: "json_image (JObj fs) = JObj (map (\<lambda>(k, v). (k, json_image v)) ?gs)" by simp
  have head: "parse_value n (stringify (JObj fs) @ rest) = parse_object (parse_value m) m (?items @ CHR ''}'' # rest)"
    unfolding stringify_fields by (simp add: n json_space_def Let_def)
  have len: "length ?items < m" using JObj.prems(1) n unfolding stringify_fields by simp
  have ok: "jm_ok ?gs" using JObj.prems(2) by (auto simp: distinct_map_filter)
  show ?case
  proof (cases ?gs)
    case Nil
    show ?thesis unfolding head image unfolding Nil by (simp add: parse_object_def json_space_def Let_def)
  next
    case (Cons g hs)
    obtain t where ct: "?items = CHR 0x22 # t"
      unfolding Cons by (cases g; cases "hs = []") (simp_all add: js_join_Cons member_text_def json_string_def)
    have "parse_members (parse_value m) m [] (?items @ CHR ''}'' # rest) = Some ([] @ map (\<lambda>(k, v). (k, json_image v)) ?gs, rest)"
    proof (rule parse_members_join)
      fix k v r assume kv: "(k, v) \<in> set ?gs" and r: "ends r"
      have "length (member_text (k, v)) \<le> length ?items" by (rule join_part) (use kv in force)
      then have "length (stringify v) < m" using len by (simp add: member_text_def)
      moreover have "(k, v) \<in> set fs" "json_ok v" using kv JObj.prems(2) by (auto simp: list_all_iff)
      ultimately show "parse_value m (stringify v @ r) = Some (json_image v, r)" using JObj.IH r by fastforce
    next
      have "length (map member_text ?gs) \<le> length ?items"
        by (rule join_length) (auto simp: member_text_def json_string_def)
      then show "length ?gs \<le> m" using len by simp
    qed (use Cons ok in simp_all)
    then show ?thesis unfolding head image using ct by (simp add: parse_object_def json_space_def Let_def)
  qed
next
  case (JNum i)
  then show ?case by (cases n) (simp_all add: parse_show_int del: parse_value.simps)
next
  case (JBool b)
  then show ?case by (cases n; cases b) (simp_all add: parse_literal del: parse_value.simps)
next
  case JUndef
  then show ?case by (cases n) (simp_all add: parse_literal del: parse_value.simps)
next
  case JNull
  then show ?case by (cases n) (simp_all add: parse_literal del: parse_value.simps)
next
  case (JStr t)
  then show ?case by (cases n) (simp_all add: parse_string_value del: parse_value.simps)
next
  case (JDate t)
  then show ?case by (cases n) (simp_all add: parse_string_value del: parse_value.simps)
qed

text \<open>
  An object of the API that is written to the store and read back is the same object, except that properties
  whose value is undefined are gone, elements that are undefined are null, and dates have become texts.
\<close>
theorem json_roundtrip:
  assumes "json_ok v"
  shows "json_parse (stringify v) = Some (json_image v)"
  using parse_stringify [of v "length (stringify v) + 1" "[]"] assms by (simp add: json_parse_def ends_def)

lemma json_roundtrip_witness:
  "json_parse (stringify (JObj [(''a'', JArr [JNum (- 12), JUndef, JStr [CHR 0x22, CHR 0x0A]]), (''b'', JUndef), (''t'', JDate 86399999)])) =
    Some (JObj [(''a'', JArr [JNum (- 12), JNull, JStr [CHR 0x22, CHR 0x0A]]), (''t'', JStr ''1970-01-01T23:59:59.999Z'')])"
proof -
  have date: "iso_text 86399999 = ''1970-01-01T23:59:59.999Z''" by code_simp
  show ?thesis by (subst json_roundtrip) (simp_all add: date)
qed

end
