(* ===== verification/Store.thy ===== *)
theory Store
  imports AllocatableLaws JsonText
begin

text \<open>
  \<open>src/cluster/storage/store.ts\<close>: objects of the API as JSON values under keys of the etcd. The methods that
  subclasses override are a record of hooks, which return the object as they changed it; what others do while a
  method awaits is an argument. A loop that is not over after the given number of rounds has the outcome \<open>Inl None\<close>.
\<close>

section \<open>Objects\<close>

definition field :: "string \<Rightarrow> json \<Rightarrow> json" where
  "field k v = (case v of JObj fs \<Rightarrow> (case jm_get fs k of Some x \<Rightarrow> x | None \<Rightarrow> JUndef) | _ \<Rightarrow> JUndef)"

definition set_field :: "string \<Rightarrow> json \<Rightarrow> json \<Rightarrow> json" where
  "set_field k x v = (case v of JObj fs \<Rightarrow> JObj (jm_set k x fs) | _ \<Rightarrow> v)"

definition nullish :: "json \<Rightarrow> bool" where
  "nullish v \<longleftrightarrow> v = JUndef \<or> v = JNull"

definition truthy :: "json \<Rightarrow> bool" where
  "truthy v \<longleftrightarrow> v \<notin> {JUndef, JNull, JBool False, JNum 0, JStr []}"

text \<open>\<open>v[k] ??= x\<close>, \<open>v ?? x\<close>, and a change of the object at \<open>v[k]\<close>.\<close>

definition default_field :: "string \<Rightarrow> json \<Rightarrow> json \<Rightarrow> json" where
  "default_field k x v = (if nullish (field k v) then set_field k x v else v)"

definition or_else :: "json \<Rightarrow> json \<Rightarrow> json" where
  "or_else v x = (if nullish v then x else v)"

definition in_field :: "string \<Rightarrow> (json \<Rightarrow> json) \<Rightarrow> json \<Rightarrow> json" where
  "in_field k f v = set_field k (f (field k v)) v"

definition str_of :: "json \<Rightarrow> string" where
  "str_of v = (case v of JStr s \<Rightarrow> s | JUndef \<Rightarrow> ''undefined'' | JNull \<Rightarrow> ''null'' | JNum n \<Rightarrow> show_int n
     | JBool b \<Rightarrow> (if b then ''true'' else ''false'') | _ \<Rightarrow> [])"

definition elements :: "json \<Rightarrow> json list" where
  "elements v = (case v of JArr xs \<Rightarrow> xs | _ \<Rightarrow> [])"

definition num_or :: "int \<Rightarrow> json \<Rightarrow> int" where
  "num_or d v = (case v of JNum n \<Rightarrow> n | _ \<Rightarrow> d)"

abbreviation meta :: "json \<Rightarrow> json" where
  "meta obj \<equiv> field ''metadata'' obj"

definition opt_str :: "string option \<Rightarrow> json" where
  "opt_str s = (case s of Some s \<Rightarrow> JStr s | None \<Rightarrow> JUndef)"

text \<open>An optional namespace: \<open>undefined\<close> is \<open>None\<close>.\<close>

definition str_opt :: "json \<Rightarrow> string option" where
  "str_opt v = (case v of JStr s \<Rightarrow> Some s | _ \<Rightarrow> None)"

section \<open>Options and hooks\<close>

record store_opts =
  so_namespaced :: bool
  so_qualified :: string
  so_singular :: string
  so_apiVersion :: "string option"
  so_kind :: "string option"

type_synonym ('a, 's) op = "'s \<Rightarrow> (store_error + 'a) \<times> 's"
type_synonym 's finish = "bool \<Rightarrow> (unit, 's) op"

record 's hooks =
  validateCreate :: "json \<Rightarrow> (json, 's) op"
  validateUpdate :: "json \<Rightarrow> json \<Rightarrow> (json, 's) op"
  beginCreate :: "json \<Rightarrow> (json \<times> 's finish, 's) op"
  beginUpdate :: "json \<Rightarrow> json \<Rightarrow> (json \<times> 's finish, 's) op"
  prepareDelete :: "json \<Rightarrow> (unit, 's) op"
  afterDelete :: "json \<Rightarrow> (unit, 's) op"

definition finishNothing :: "'s finish" where
  "finishNothing success = return_op ()"

text \<open>\<open>beginCreate\<close> and \<open>beginUpdate\<close> of the base class, over the method they call.\<close>

definition prepared :: "(json, 's) op \<Rightarrow> (json \<times> 's finish, 's) op" where
  "prepared prepare = bind_op prepare (\<lambda>obj. return_op (obj, finishNothing))"

text \<open>The hooks of a store that only looks at the object: it prepares and validates it, or throws.\<close>

type_synonym check = "json \<Rightarrow> store_error + json"

definition pure_hooks :: "check \<Rightarrow> (json \<Rightarrow> check) \<Rightarrow> check \<Rightarrow> (json \<Rightarrow> check) \<Rightarrow> 's hooks" where
  "pure_hooks prepareCreate prepareUpdate validateC validateU =
     \<lparr>validateCreate = (\<lambda>obj. lift_op (validateC obj)), validateUpdate = (\<lambda>obj existing. lift_op (validateU existing obj)),
      beginCreate = (\<lambda>obj. prepared (lift_op (prepareCreate obj))),
      beginUpdate = (\<lambda>obj existing. prepared (lift_op (prepareUpdate existing obj))),
      prepareDelete = (\<lambda>existing. return_op ()), afterDelete = (\<lambda>existing. return_op ())\<rparr>"

definition base_hooks :: "'s hooks" where
  "base_hooks = pure_hooks Inr (\<lambda>existing. Inr) Inr (\<lambda>existing. Inr)"

text \<open>
  What a call cannot decide itself: what others do while it awaits, the random names, the new UID, and how many
  rounds of its loops are looked at.
\<close>

datatype await_point = NamespaceRead | NameRound nat | ObjectRead | Begun | Validated | Committed | Finished
  | DeleteRead nat | DeletePrepared nat | Deleted

record 's store_env =
  se_others :: "await_point \<Rightarrow> 's \<Rightarrow> 's"
  se_random :: "nat \<Rightarrow> string"
  se_uid :: string
  se_rounds :: nat

type_synonym ('a, 's) looping = "'s \<Rightarrow> (store_error option + 'a) \<times> 's"

definition looping :: "('a, 's) op \<Rightarrow> ('a, 's) looping" where
  "looping m s = apfst (map_sum Some id) (m s)"

definition pause :: "'s store_env \<Rightarrow> await_point \<Rightarrow> 's \<Rightarrow> ('e + unit) \<times> 's" where
  "pause env p s = (Inr (), se_others env p s)"

section \<open>Keys\<close>

definition key_text :: "store_opts \<Rightarrow> string \<Rightarrow> string option \<Rightarrow> string" where
  "key_text o' name namespace =
     ''/registry/'' @ so_qualified o' @
     (if so_namespaced o' then ''/'' @ (case namespace of Some n \<Rightarrow> n | None \<Rightarrow> ''default'') else []) @ ''/'' @ name"

definition store_key :: "store_opts \<Rightarrow> string \<Rightarrow> string option \<Rightarrow> utf16" where
  "store_key o' name namespace = str_key (key_text o' name namespace)"

definition listPrefix :: "store_opts \<Rightarrow> string option \<Rightarrow> utf16" where
  "listPrefix o' namespace =
     (if \<not> so_namespaced o' \<or> namespace \<noteq> None then store_key o' [] namespace
      else str_key (''/registry/'' @ so_qualified o' @ ''/''))"

section \<open>Reading\<close>

definition syntax_error :: store_error where
  "syntax_error = Failed (ApiError ''SyntaxError'' None ''JSON.parse'' [])"

definition parse_bytes :: "bytes \<Rightarrow> store_error + json" where
  "parse_bytes bs = (case json_parse (bytes_text bs) of Some v \<Rightarrow> Inr v | None \<Rightarrow> Inl syntax_error)"

definition hasDeletionTimestamp :: "json \<Rightarrow> bool" where
  "hasDeletionTimestamp v \<longleftrightarrow> field ''deletionTimestamp'' (meta v) \<noteq> JUndef"

definition namespaceExists :: "'s kv_ops \<Rightarrow> string \<Rightarrow> (bool, 's) op" where
  "namespaceExists ops namespace s =
     (case get_buffer ops (str_key (''/registry/namespaces/'' @ namespace)) s of
        Inl err \<Rightarrow> (Inl err, s)
      | Inr None \<Rightarrow> (Inr False, s)
      | Inr (Some bs) \<Rightarrow> (map_sum id (\<lambda>v. truthy v \<and> \<not> hasDeletionTimestamp v) (parse_bytes bs), s))"

definition withResourceVersion :: "string \<Rightarrow> json \<Rightarrow> json" where
  "withResourceVersion rv obj = in_field ''metadata'' (set_field ''resourceVersion'' (JStr rv)) (default_field ''metadata'' (JObj []) obj)"

definition readStored :: "'s kv_ops \<Rightarrow> store_opts \<Rightarrow> string \<Rightarrow> string option \<Rightarrow> ((json \<times> string) option, 's) op" where
  "readStored ops o' name namespace s =
     (case kv_get ops (store_key o' name namespace) s of
        Inl err \<Rightarrow> (Inl (EtcdFailed err), s)
      | Inr None \<Rightarrow> (Inr None, s)
      | Inr (Some kv) \<Rightarrow>
          (map_sum id (\<lambda>obj. Some (withResourceVersion (kv_mod_revision kv) obj, kv_mod_revision kv)) (parse_bytes (kv_value kv)), s))"

definition store_get :: "'s kv_ops \<Rightarrow> store_opts \<Rightarrow> string \<Rightarrow> string option \<Rightarrow> (json option, 's) op" where
  "store_get ops o' name namespace = bind_op (readStored ops o' name namespace) (\<lambda>r. return_op (map_option fst r))"

definition listed :: "range_response \<Rightarrow> store_error + json list \<times> string" where
  "listed r = (case those (map (\<lambda>kv. case parse_bytes (kv_value kv) of Inl _ \<Rightarrow> None
       | Inr v \<Rightarrow> Some (withResourceVersion (kv_mod_revision kv) v)) (rr_kvs r)) of
     None \<Rightarrow> Inl syntax_error | Some objs \<Rightarrow> Inr (objs, rh_revision (rr_header r)))"

text \<open>The resource version asked for is read by \<open>Number\<close>; of a text that is no number nothing is asked.\<close>

definition listWithResourceVersion :: "'s kv_ops \<Rightarrow> store_opts \<Rightarrow> string option \<Rightarrow> string option \<Rightarrow> (json list \<times> string, 's) op" where
  "listWithResourceVersion ops o' namespace rv s =
     (let revision = (case rv of None \<Rightarrow> None | Some t \<Rightarrow> if t = [] then None else js_number t)
      in case kv_list ops (listPrefix o' namespace) revision s of
        Inl err \<Rightarrow> (Inl (EtcdFailed err), s)
      | Inr r \<Rightarrow> (listed r, s))"

definition store_list :: "'s kv_ops \<Rightarrow> store_opts \<Rightarrow> string option \<Rightarrow> (json list, 's) op" where
  "store_list ops o' namespace = bind_op (listWithResourceVersion ops o' namespace None) (\<lambda>r. return_op (fst r))"

text \<open>\<open>Number(existing.resourceVersion)\<close>; no stored revision equals \<open>NaN\<close>, nor the number given for it here.\<close>

definition revision_number :: "string \<Rightarrow> int" where
  "revision_number rv = (case js_number rv of Some n \<Rightarrow> n | None \<Rightarrow> - 1)"

section \<open>Writing\<close>

definition defaultTypeMeta :: "store_opts \<Rightarrow> json \<Rightarrow> json" where
  "defaultTypeMeta o' obj = default_field ''kind'' (opt_str (so_kind o')) (default_field ''apiVersion'' (opt_str (so_apiVersion o')) obj)"

definition other_text :: "string option \<Rightarrow> json \<Rightarrow> bool" where
  "other_text expected v \<longleftrightarrow> (case expected of Some t \<Rightarrow> v \<noteq> JStr t | None \<Rightarrow> False)"

definition validateTypeMeta :: "store_opts \<Rightarrow> json \<Rightarrow> store_error + unit" where
  "validateTypeMeta o' obj =
     (if other_text (so_apiVersion o') (field ''apiVersion'' obj)
      then Inl (plain (so_singular o' @ '' apiVersion must be '' @ str_of (opt_str (so_apiVersion o'))))
      else if other_text (so_kind o') (field ''kind'' obj)
      then Inl (plain (so_singular o' @ '' kind must be '' @ str_of (opt_str (so_kind o'))))
      else Inr ())"

definition in_quotes :: "string \<Rightarrow> string" where
  "in_quotes s = CHR 0x22 # s @ [CHR 0x22]"

definition not_found :: "string \<Rightarrow> store_error" where
  "not_found msg = Failed (ApiError ''NotFound'' None msg [])"

definition conflict :: "store_opts \<Rightarrow> string \<Rightarrow> store_error" where
  "conflict o' name = Failed (ApiError ''Conflict'' None (so_singular o' @ '' '' @ in_quotes name @
     '' was modified; please apply your changes to the latest version and try again'') [])"

definition already_exists :: "json \<Rightarrow> store_error" where
  "already_exists obj = plain (''Object with name '' @ str_of (field ''name'' (meta obj)) @ '' already exists'')"

definition set_meta :: "string \<Rightarrow> json \<Rightarrow> json \<Rightarrow> json" where
  "set_meta k x obj = in_field ''metadata'' (set_field k x) obj"

definition object_name :: "json \<Rightarrow> string" where
  "object_name obj = str_of (field ''name'' (meta obj))"

definition object_namespace :: "json \<Rightarrow> string option" where
  "object_namespace obj = str_opt (field ''namespace'' (meta obj))"

definition default_namespace :: "json \<Rightarrow> json" where
  "default_namespace obj = (if truthy (field ''namespace'' (meta obj)) then obj else set_meta ''namespace'' (JStr ''default'') obj)"

definition placed :: "store_opts \<Rightarrow> json \<Rightarrow> json" where
  "placed o' obj = (if so_namespaced o' then default_namespace obj else obj)"

definition commit :: "'s kv_ops \<Rightarrow> utf16 \<Rightarrow> guard \<Rightarrow> action \<Rightarrow> (txn_response, 's) op" where
  "commit ops k g a s = apfst (map_sum EtcdFailed id) (kv_txn ops (guarded k g a) s)"

text \<open>The namespace of an object to be created, which must exist.\<close>

definition create_namespace :: "'s kv_ops \<Rightarrow> store_opts \<Rightarrow> 's store_env \<Rightarrow> json \<Rightarrow> (json, 's) op" where
  "create_namespace ops o' env obj =
     (if so_namespaced o' then
        (let obj = default_namespace obj; namespace = str_of (field ''namespace'' (meta obj)) in
         bind_op (namespaceExists ops namespace) (\<lambda>found.
         bind_op (pause env NamespaceRead) (\<lambda>_.
         if found then return_op obj else throw_op (not_found (in_quotes namespace @ '' does not exist'')))))
      else if truthy (field ''namespace'' (meta obj)) then
        throw_op (plain (''Resource '' @ so_qualified o' @ '' is not namespaced, found namespace '' @
          str_of (field ''namespace'' (meta obj)) @ '' in metadata''))
      else return_op obj)"

fun name_loop :: "'s kv_ops \<Rightarrow> store_opts \<Rightarrow> 's store_env \<Rightarrow> string \<Rightarrow> string option \<Rightarrow> nat \<Rightarrow> nat \<Rightarrow> (string, 's) looping" where
  "name_loop ops o' env base namespace i 0 s = (Inl None, s)"
| "name_loop ops o' env base namespace i (Suc n) s =
     (let name = base @ se_random env i in
      bind_op (looping (store_get ops o' name namespace)) (\<lambda>found.
      bind_op (pause env (NameRound i)) (\<lambda>_.
      if found \<noteq> None then name_loop ops o' env base namespace (i + 1) n else return_op name)) s)"

definition generated_name :: "'s kv_ops \<Rightarrow> store_opts \<Rightarrow> 's store_env \<Rightarrow> json \<Rightarrow> (json, 's) looping" where
  "generated_name ops o' env obj =
     (let base = field ''generateName'' (meta obj) in
      if \<not> truthy (field ''name'' (meta obj)) \<and> truthy base
      then bind_op (name_loop ops o' env (str_of base) (object_namespace obj) 0 (se_rounds env))
        (\<lambda>name. return_op (set_meta ''name'' (JStr name) obj))
      else return_op obj)"

text \<open>
  The \<open>try\<close> block after \<open>begin\<close> has returned \<open>finish\<close>: it is called once, with success when the block
  got through, and otherwise by \<open>finally\<close>, where its own error takes the place of that of the block.
\<close>

definition with_finish :: "'s finish \<Rightarrow> ('a, 's) op \<Rightarrow> ('a, 's) op" where
  "with_finish finish m s =
     (case m s of
        (Inl err, s) \<Rightarrow> (case finish False s of (Inl err, s) \<Rightarrow> (Inl err, s) | (Inr _, s) \<Rightarrow> (Inl err, s))
      | (Inr x, s) \<Rightarrow> bind_op (finish True) (\<lambda>_. return_op x) s)"

definition put_json :: "json \<Rightarrow> action" where
  "put_json obj = PutValue (text_bytes (stringify obj))"

definition write_new :: "'s kv_ops \<Rightarrow> store_opts \<Rightarrow> 's hooks \<Rightarrow> 's store_env \<Rightarrow> utf16 \<Rightarrow> json \<Rightarrow> (json \<times> string, 's) op" where
  "write_new ops o' h env k obj =
     bind_op (pause env Begun) (\<lambda>_.
     bind_op (validateCreate h obj) (\<lambda>obj.
     bind_op (pause env Validated) (\<lambda>_.
     bind_op (commit ops k Absent (put_json obj)) (\<lambda>response.
     bind_op (pause env Committed) (\<lambda>_.
     if ts_succeeded response then return_op (obj, rh_revision (ts_header response)) else throw_op (already_exists obj))))))"

definition create_object :: "'s kv_ops \<Rightarrow> store_opts \<Rightarrow> 's hooks \<Rightarrow> 's store_env \<Rightarrow> json \<Rightarrow> (json, 's) op" where
  "create_object ops o' h env obj =
     bind_op (beginCreate h obj) (\<lambda>(obj', finish).
     bind_op (with_finish finish (write_new ops o' h env (store_key o' (object_name obj) (object_namespace obj)) obj')) (\<lambda>(obj, rv).
     bind_op (pause env Finished) (\<lambda>_.
     return_op (withResourceVersion rv obj))))"

definition store_create :: "'s kv_ops \<Rightarrow> store_opts \<Rightarrow> 's hooks \<Rightarrow> 's store_env \<Rightarrow> json \<Rightarrow> (json, 's) looping" where
  "store_create ops o' h env input =
     (if \<not> truthy (meta input) then throw_op (Some (plain ''Object must have metadata''))
      else if truthy (field ''resourceVersion'' (meta input)) then
        throw_op (Some (plain ''resourceVersion should not be set on objects to be created''))
      else let obj = defaultTypeMeta o' input in
        bind_op (looping (lift_op (validateTypeMeta o' obj))) (\<lambda>_.
        bind_op (looping (create_namespace ops o' env obj)) (\<lambda>obj.
        bind_op (generated_name ops o' env obj) (\<lambda>obj.
        if \<not> truthy (field ''name'' (meta obj)) then throw_op (Some (plain ''Object must have a name''))
        else let obj = in_field ''metadata'' (default_field ''uid'' (JStr (se_uid env))) obj in
          bind_op (looping (store_get ops o' (object_name obj) (object_namespace obj))) (\<lambda>existing.
          bind_op (pause env ObjectRead) (\<lambda>_.
          if existing \<noteq> None then throw_op (Some (already_exists obj))
          else looping (create_object ops o' h env obj)))))))"

fun delete_loop :: "'s kv_ops \<Rightarrow> store_opts \<Rightarrow> 's hooks \<Rightarrow> 's store_env \<Rightarrow> string \<Rightarrow> string option \<Rightarrow> nat \<Rightarrow> nat \<Rightarrow> (bool, 's) looping" where
  "delete_loop ops o' h env name namespace i 0 s = (Inl None, s)"
| "delete_loop ops o' h env name namespace i (Suc n) s =
     bind_op (looping (readStored ops o' name namespace)) (\<lambda>existing.
     bind_op (pause env (DeleteRead i)) (\<lambda>_.
     case existing of
       None \<Rightarrow> return_op False
     | Some (obj, rv) \<Rightarrow>
         bind_op (looping (prepareDelete h obj)) (\<lambda>_.
         bind_op (pause env (DeletePrepared i)) (\<lambda>_.
         bind_op (looping (commit ops (store_key o' name namespace) (AtRevision (revision_number rv)) RemoveKey)) (\<lambda>response.
         bind_op (pause env Deleted) (\<lambda>_.
         if \<not> ts_succeeded response then delete_loop ops o' h env name namespace (i + 1) n
         else bind_op (looping (afterDelete h obj)) (\<lambda>_. return_op True))))))) s"

definition store_delete :: "'s kv_ops \<Rightarrow> store_opts \<Rightarrow> 's hooks \<Rightarrow> 's store_env \<Rightarrow> string \<Rightarrow> string option \<Rightarrow> (bool, 's) looping" where
  "store_delete ops o' h env name namespace = delete_loop ops o' h env name namespace 0 (se_rounds env)"

definition finalizedPendingDeletion :: "json \<Rightarrow> bool" where
  "finalizedPendingDeletion v \<longleftrightarrow>
     field ''kind'' v \<noteq> JStr ''Namespace'' \<and> field ''deletionTimestamp'' (meta v) \<noteq> JUndef \<and>
     elements (field ''finalizers'' (meta v)) = [] \<and> num_or 0 (field ''deletionGracePeriodSeconds'' (meta v)) \<le> 0"

definition write_changed :: "'s kv_ops \<Rightarrow> store_opts \<Rightarrow> 's hooks \<Rightarrow> 's store_env \<Rightarrow> bool \<Rightarrow> utf16 \<Rightarrow> string \<Rightarrow> json \<Rightarrow> string \<Rightarrow> json \<Rightarrow>
    (json \<times> string, 's) op" where
  "write_changed ops o' h env skipValidateUpdate k name existing rv obj =
     bind_op (pause env Begun) (\<lambda>_.
     bind_op (if skipValidateUpdate then return_op obj else validateUpdate h obj existing) (\<lambda>obj.
     bind_op (pause env Validated) (\<lambda>_.
     bind_op (commit ops k (AtRevision (revision_number rv)) (put_json obj)) (\<lambda>response.
     bind_op (pause env Committed) (\<lambda>_.
     if ts_succeeded response then return_op (obj, rh_revision (ts_header response)) else throw_op (conflict o' name))))))"

definition update_object :: "'s kv_ops \<Rightarrow> store_opts \<Rightarrow> 's hooks \<Rightarrow> 's store_env \<Rightarrow> string \<Rightarrow> bool \<Rightarrow> json \<Rightarrow> json \<Rightarrow> string \<Rightarrow>
    (json \<times> string, 's) op" where
  "update_object ops o' h env name skipValidateUpdate obj existing rv =
     bind_op (beginUpdate h obj existing) (\<lambda>(obj', finish).
     bind_op (with_finish finish
       (write_changed ops o' h env skipValidateUpdate (store_key o' name (object_namespace obj)) name existing rv obj')) (\<lambda>written.
     bind_op (pause env Finished) (\<lambda>_. return_op written)))"

definition store_update :: "'s kv_ops \<Rightarrow> store_opts \<Rightarrow> 's hooks \<Rightarrow> 's store_env \<Rightarrow> string \<Rightarrow> bool \<Rightarrow> json \<Rightarrow> (json, 's) looping" where
  "store_update ops o' h env name skipValidateUpdate input =
     (if \<not> truthy (meta input) then throw_op (Some (plain ''Object must have metadata''))
      else let obj = defaultTypeMeta o' input in
        bind_op (looping (lift_op (validateTypeMeta o' obj))) (\<lambda>_.
        if \<not> truthy (field ''name'' (meta obj)) then throw_op (Some (plain ''Object must have a name''))
        else let obj = placed o' obj in
          bind_op (looping (readStored ops o' name (object_namespace obj))) (\<lambda>existing.
          bind_op (pause env ObjectRead) (\<lambda>_.
          case existing of
            None \<Rightarrow> throw_op (Some (not_found (so_singular o' @ '' '' @ in_quotes name @ '' not found'')))
          | Some (existing, rv) \<Rightarrow>
              if truthy (field ''resourceVersion'' (meta obj)) \<and> field ''resourceVersion'' (meta obj) \<noteq> JStr rv
              then throw_op (Some (conflict o' name))
              else
                bind_op (looping (update_object ops o' h env name skipValidateUpdate obj existing rv)) (\<lambda>(obj, rv).
                bind_op (if finalizedPendingDeletion obj
                  then bind_op (store_delete ops o' h env (object_name obj) (object_namespace obj)) (\<lambda>_. return_op ())
                  else return_op ()) (\<lambda>_.
                return_op (withResourceVersion rv obj)))))))"

end
