(* ===== verification/StoreLaws.thy ===== *)
theory StoreLaws
  imports Store
begin

text \<open>
  What the generic store promises over any etcd with the contract \<open>keyed_store\<close>: of the updates that carry the
  same resource version at most one succeeds, and what was created is what is read.
\<close>

section \<open>Fields\<close>

lemma field_set [simp]: "field k (set_field k' x v) = (if k = k' \<and> (\<exists>fs. v = JObj fs) then x else field k v)"
  by (cases v) (auto simp: field_def set_field_def)

lemma field_default_other [simp]: "k \<noteq> k' \<Longrightarrow> field k (default_field k' x v) = field k v"
  by (simp add: default_field_def)

lemma meta_typeMeta [simp]: "field ''metadata'' (defaultTypeMeta o' obj) = field ''metadata'' obj"
  by (simp add: defaultTypeMeta_def)

lemma truthy_text: "truthy (JStr s) \<longleftrightarrow> s \<noteq> []"
  by (simp add: truthy_def)

section \<open>Moving on\<close>

text \<open>
  One state is later than another when every value it holds was held before or was written after. Everything
  that is done with a store moves it on.
\<close>

named_theorems moves

definition moved :: "('s \<Rightarrow> bool) \<Rightarrow> ('s \<Rightarrow> utf16 \<Rightarrow> stored_value option) \<Rightarrow> ('s \<Rightarrow> nat) \<Rightarrow> 's \<Rightarrow> 's \<Rightarrow> bool" where
  "moved ok stored revision s s' \<longleftrightarrow> (ok s \<longrightarrow> ok s' \<and> revision s \<le> revision s' \<and>
     (\<forall>k v. stored s' k = Some v \<longrightarrow> stored s k = Some v \<or> revision s < sv_modRevision v))"

definition op_moves :: "('s \<Rightarrow> 's \<Rightarrow> bool) \<Rightarrow> ('s \<Rightarrow> ('e + 'a) \<times> 's) \<Rightarrow> bool" where
  "op_moves on m \<longleftrightarrow> (\<forall>s. on s (snd (m s)))"

definition finish_moves :: "('s \<Rightarrow> 's \<Rightarrow> bool) \<Rightarrow> (store_error + json \<times> 's finish) \<Rightarrow> bool" where
  "finish_moves on r \<longleftrightarrow> (\<forall>obj finish b. r = Inr (obj, finish) \<longrightarrow> op_moves on (finish b))"

definition hooks_move :: "('s \<Rightarrow> 's \<Rightarrow> bool) \<Rightarrow> 's hooks \<Rightarrow> bool" where
  "hooks_move on h \<longleftrightarrow>
     (\<forall>obj existing. op_moves on (validateCreate h obj) \<and> op_moves on (validateUpdate h obj existing) \<and>
        op_moves on (beginCreate h obj) \<and> op_moves on (beginUpdate h obj existing) \<and>
        op_moves on (prepareDelete h obj) \<and> op_moves on (afterDelete h obj) \<and>
        (\<forall>s. finish_moves on (fst (beginCreate h obj s)) \<and> finish_moves on (fst (beginUpdate h obj existing s))))"

definition env_moves :: "('s \<Rightarrow> 's \<Rightarrow> bool) \<Rightarrow> 's store_env \<Rightarrow> bool" where
  "env_moves on env \<longleftrightarrow> (\<forall>p s. on s (se_others env p s))"

lemma moved_refl [simp]: "moved ok stored revision s s"
  by (simp add: moved_def)

lemma moved_trans: "moved ok stored revision s s' \<Longrightarrow> moved ok stored revision s' s'' \<Longrightarrow> moved ok stored revision s s''"
  by (force simp: moved_def)

lemma bind_Inr: "bind_op m f s = (Inr y, s') \<longleftrightarrow> (\<exists>x s1. m s = (Inr x, s1) \<and> f x s1 = (Inr y, s'))"
  by (auto simp: bind_op_def split: prod.splits sum.splits)

lemma looping_Inr: "looping m s = (Inr y, s') \<longleftrightarrow> m s = (Inr y, s')"
  by (cases "m s"; cases "fst (m s)") (auto simp: looping_def)

lemma finish_Inr: "with_finish finish m s = (Inr y, s') \<longleftrightarrow> (\<exists>s1. m s = (Inr y, s1) \<and> finish True s1 = (Inr (), s'))"
  by (auto simp: with_finish_def bind_op_def return_op_def split: prod.splits sum.splits)

locale motion =
  fixes on :: "'s \<Rightarrow> 's \<Rightarrow> bool"
  assumes refl: "on s s" and trans: "on s s' \<Longrightarrow> on s' s'' \<Longrightarrow> on s s''"
begin

lemma moves_bind [moves]: "op_moves on m \<Longrightarrow> (\<And>x. op_moves on (f x)) \<Longrightarrow> op_moves on (bind_op m f)"
  unfolding op_moves_def
proof (intro allI)
  fix s assume m: "\<forall>s. on s (snd (m s))" and f: "\<And>x. \<forall>s. on s (snd (f x s))"
  obtain r s1 where run: "m s = (r, s1)" by (cases "m s")
  then have "on s s1" using m by (metis snd_conv)
  show "on s (snd (bind_op m f s))"
  proof (cases r)
    case (Inl err)
    then show ?thesis using \<open>on s s1\<close> by (simp add: bind_op_def run)
  next
    case (Inr x)
    have "on s1 (snd (f x s1))" using f by blast
    then show ?thesis using trans [OF \<open>on s s1\<close>] Inr by (simp add: bind_op_def run)
  qed
qed

lemma moves_pure [moves]: "op_moves on (return_op x)" "op_moves on (throw_op err)" "op_moves on (lift_op r)"
  by (simp_all add: op_moves_def return_op_def throw_op_def lift_op_def refl)

lemma moves_looping [moves]: "op_moves on m \<Longrightarrow> op_moves on (looping m)"
  by (simp add: op_moves_def looping_def)

lemma moves_pause [moves]: "env_moves on env \<Longrightarrow> op_moves on (pause env p)"
  by (simp add: op_moves_def env_moves_def pause_def)

lemma moves_if [moves]: "(b \<Longrightarrow> op_moves on m) \<Longrightarrow> (\<not> b \<Longrightarrow> op_moves on m') \<Longrightarrow> op_moves on (if b then m else m')"
  by simp

lemma moves_lift [moves]: "(\<And>x. r = Inr x \<Longrightarrow> op_moves on (f x)) \<Longrightarrow> op_moves on (bind_op (lift_op r) f)"
  by (cases r) (simp_all add: op_moves_def bind_op_def lift_op_def refl)

lemma moves_fixed: "(\<And>s. snd (m s) = s) \<Longrightarrow> op_moves on m"
  by (simp add: op_moves_def refl)

end

definition update_key :: "store_opts \<Rightarrow> string \<Rightarrow> json \<Rightarrow> utf16" where
  "update_key o' name input = store_key o' name (object_namespace (placed o' (defaultTypeMeta o' input)))"

context keyed_store
begin

abbreviation on :: "'s \<Rightarrow> 's \<Rightarrow> bool" where
  "on \<equiv> moved ok stored revision"

end

sublocale keyed_store \<subseteq> moving: motion "moved ok stored revision"
  by unfold_locales (auto intro: moved_trans)

context keyed_store
begin

lemma key_not_Nil [simp]: "store_key o' name namespace \<noteq> []"
  by (simp add: store_key_def key_text_def str_key_def)

lemma moves_commit [moves]:
  assumes "k \<noteq> []" "case g of Absent \<Rightarrow> True | AtRevision n \<Rightarrow> 0 < n"
  shows "op_moves on (commit ops k g a)"
  unfolding op_moves_def
proof (rule allI)
  fix s
  show "on s (snd (commit ops k g a s))"
    unfolding moved_def
  proof
    assume ok: "ok s"
    obtain r s' x where run: "kv_txn ops (guarded k g a) s = (Inr r, s')" and s': "ok s'"
      "if guard_met g (stored s k) then stored s' = (stored s)(k := x) \<and> acted (revision s') a x \<and> revision s < revision s'
       else stored s' = stored s \<and> revision s' = revision s"
      using txn_law [OF ok assms, of a] by blast
    then have "snd (commit ops k g a s) = s'" by (simp add: commit_def)
    then show "ok (snd (commit ops k g a s)) \<and> revision s \<le> revision (snd (commit ops k g a s)) \<and>
        (\<forall>k' v. stored (snd (commit ops k g a s)) k' = Some v \<longrightarrow> stored s k' = Some v \<or> revision s < sv_modRevision v)"
      using s' by (auto simp: acted_def written_def split: if_splits action.splits)
  qed
qed

lemma map_sum_Inr: "map_sum id g r = Inr y \<longleftrightarrow> (\<exists>x. r = Inr x \<and> y = g x)"
  by (cases r) auto

lemma readStored_spec:
  assumes "ok s" "readStored ops o' name namespace s = (Inr (Some (obj, rv)), s')"
  shows "s' = s \<and> (\<exists>v v0. stored s (store_key o' name namespace) = Some v \<and> revision_number rv = int (sv_modRevision v) \<and>
    0 < revision_number rv \<and> rv = show_nat (sv_modRevision v) \<and> parse_bytes (sv_value v) = Inr v0 \<and> obj = withResourceVersion rv v0)"
proof (cases "stored s (store_key o' name namespace)")
  case None
  then show ?thesis using assms get_law [OF assms(1) key_not_Nil, of o' name namespace] by (simp add: readStored_def)
next
  case (Some v)
  have "kv_get ops (store_key o' name namespace) s = Inr (Some (toPublicKv v [] False))"
    using get_law [OF assms(1) key_not_Nil, of o' name namespace] Some by simp
  then show ?thesis
    using assms(2) Some stored_key [OF assms(1) Some] by (auto simp: readStored_def toPublicKv_def map_sum_Inr revision_number_def)
qed

lemma readStored_pure: "snd (readStored ops o' name namespace s) = s"
  by (simp add: readStored_def split: option.split sum.split)

lemma moves_read [moves]:
  assumes "op_moves on (f None)" "\<And>obj rv. 0 < revision_number rv \<Longrightarrow> op_moves on (f (Some (obj, rv)))"
  shows "op_moves on (bind_op (looping (readStored ops o' name namespace)) f)"
  unfolding op_moves_def
proof (rule allI)
  fix s
  obtain r where run: "readStored ops o' name namespace s = (r, s)" using readStored_pure by (metis prod.collapse)
  show "on s (snd (bind_op (looping (readStored ops o' name namespace)) f s))"
  proof (cases "ok s")
    case False
    then show ?thesis by (simp add: moved_def)
  next
    case True
    show ?thesis
    proof (cases r)
      case (Inl err)
      then show ?thesis by (simp add: bind_op_def looping_def run)
    next
      case (Inr x)
      have "op_moves on (f x)"
      proof (cases x)
        case None
        then show ?thesis using assms(1) by simp
      next
        case (Some y)
        then obtain obj rv where "x = Some (obj, rv)" by (cases y) simp
        moreover from this have "0 < revision_number rv" using readStored_spec [OF True, of o' name namespace obj rv] run Inr by auto
        ultimately show ?thesis using assms(2) by blast
      qed
      then have "on s (snd (f x s))" by (simp add: op_moves_def)
      then show ?thesis using Inr by (simp add: bind_op_def looping_def run)
    qed
  qed
qed

lemma moves_store_get [moves]: "op_moves on (store_get ops o' name namespace)"
  by (simp add: op_moves_def store_get_def bind_op_def return_op_def readStored_def split: option.split sum.split)

lemma moves_namespaceExists [moves]: "op_moves on (namespaceExists ops namespace)"
  by (simp add: op_moves_def namespaceExists_def split: option.split sum.split)

lemma moves_delete [moves]:
  assumes "hooks_move on h" "env_moves on env"
  shows "op_moves on (store_delete ops o' h env name namespace)"
proof -
  have "op_moves on (delete_loop ops o' h env name namespace i n)" for i n
  proof (induction n arbitrary: i)
    case 0
    then show ?case by (simp add: op_moves_def)
  next
    case (Suc n)
    have hooks: "op_moves on (prepareDelete h obj)" "op_moves on (afterDelete h obj)" for obj
      using assms(1) by (auto simp: hooks_move_def)
    show ?case unfolding delete_loop.simps(2) [abs_def]
      by (auto intro!: moves hooks Suc assms(2) split: prod.split)
  qed
  then show ?thesis by (simp add: store_delete_def)
qed

text \<open>The resource version has been overtaken: whatever is stored at the key was written after it.\<close>

definition overtaken :: "utf16 \<Rightarrow> int \<Rightarrow> 's \<Rightarrow> bool" where
  "overtaken k n s \<longleftrightarrow> ok s \<and> n \<le> int (revision s) \<and> (\<forall>v. stored s k = Some v \<longrightarrow> n < int (sv_modRevision v))"

lemma overtaken_on: "overtaken k n s \<Longrightarrow> on s s' \<Longrightarrow> overtaken k n s'"
  unfolding overtaken_def moved_def by fastforce

lemma overtaken_op: "overtaken k n s \<Longrightarrow> op_moves on m \<Longrightarrow> m s = (r, s') \<Longrightarrow> overtaken k n s'"
  using overtaken_on unfolding op_moves_def by (metis snd_conv)

lemma ok_op: "ok s \<Longrightarrow> op_moves on m \<Longrightarrow> m s = (r, s') \<Longrightarrow> ok s'"
  unfolding op_moves_def moved_def by (metis snd_conv)

lemma commit_overtakes:
  assumes "ok s" "k \<noteq> []" "0 < n" "commit ops k (AtRevision n) a s = (Inr response, s')" "ts_succeeded response"
  shows "overtaken k n s'"
proof -
  obtain r s1 x where run: "kv_txn ops (guarded k (AtRevision n) a) s = (Inr r, s1)" and s1: "ok s1"
    "ts_succeeded r = guard_met (AtRevision n) (stored s k)"
    "if guard_met (AtRevision n) (stored s k) then stored s1 = (stored s)(k := x) \<and> acted (revision s1) a x \<and> revision s < revision s1
     else stored s1 = stored s \<and> revision s1 = revision s"
    using txn_law [OF assms(1,2), of "AtRevision n" a] assms(3) by auto
  have eq: "r = response" "s1 = s'" using assms(4) run by (simp_all add: commit_def)
  then have met: "guard_met (AtRevision n) (stored s k)" using s1(2) assms(5) by simp
  then obtain v where "stored s k = Some v" "int (sv_modRevision v) = n" by (auto simp: guard_met_def split: option.splits)
  then have "n \<le> int (revision s)" using stored_key [OF assms(1)] by force
  then show ?thesis using s1(1,3) met eq by (auto simp: overtaken_def acted_def written_def split: action.splits)
qed

lemma updated_overtakes:
  assumes "ok s" "hooks_move on h" "env_moves on env" "0 < revision_number rv"
    and "update_object ops o' h env name skipping obj existing rv s = (Inr outcome, s')"
  shows "overtaken (store_key o' name (object_namespace obj)) (revision_number rv) s'"
proof -
  let ?k = "store_key o' name (object_namespace obj)"
  have hooks: "op_moves on (beginUpdate h obj existing)" "finish_moves on (fst (beginUpdate h obj existing s))"
    "op_moves on (validateUpdate h obj' existing)" for obj'
    using assms(2) by (auto simp: hooks_move_def)
  let ?rest = "\<lambda>finish obj'. bind_op (with_finish finish (write_changed ops o' h env skipping ?k name existing rv obj'))
    (\<lambda>outcome. bind_op (pause env Finished) (\<lambda>_. return_op outcome))"
  obtain p s1 where p: "beginUpdate h obj existing s = (Inr p, s1)" and rest: "(\<lambda>(obj', finish). ?rest finish obj') p s1 = (Inr outcome, s')"
    using assms(5) unfolding update_object_def bind_Inr [of "beginUpdate h obj existing"] by blast
  obtain obj' finish where begun: "beginUpdate h obj existing s = (Inr (obj', finish), s1)" and rest: "?rest finish obj' s1 = (Inr outcome, s')"
    using p rest by (cases p) simp
  obtain s2 s3 where wr: "write_changed ops o' h env skipping ?k name existing rv obj' s1 = (Inr outcome, s2)"
    and fin: "finish True s2 = (Inr (), s3)" and pause: "pause env Finished s3 = (Inr () :: store_error + unit, s')"
    using rest by (auto simp: bind_Inr finish_Inr return_op_def)
  have validate: "op_moves on (if skipping then return_op obj' else validateUpdate h obj' existing)" for obj'
    by (intro moves hooks)
  obtain t1 t2 t3 t4 obj'' response where run: "pause env Begun s1 = (Inr () :: store_error + unit, t1)"
    "(if skipping then return_op obj' else validateUpdate h obj' existing) t1 = (Inr obj'', t2)"
    "pause env Validated t2 = (Inr () :: store_error + unit, t3)"
    "commit ops ?k (AtRevision (revision_number rv)) (put_json obj'') t3 = (Inr response, t4)"
    "pause env Committed t4 = (Inr () :: store_error + unit, s2)" "ts_succeeded response"
    using wr unfolding write_changed_def by (auto simp: bind_Inr return_op_def throw_op_def split: if_splits)
  have "ok t3"
    using ok_op [OF ok_op [OF ok_op [OF ok_op [OF assms(1) hooks(1) begun] moving.moves_pause [OF assms(3)] run(1)] validate run(2)]
      moving.moves_pause [OF assms(3)] run(3)] .
  from commit_overtakes [OF this key_not_Nil assms(4) run(4,6)]
  have "overtaken ?k (revision_number rv) s2" using overtaken_op moving.moves_pause [OF assms(3)] run(5) by blast
  moreover have "op_moves on (finish True)" using hooks(2) begun by (auto simp: finish_moves_def)
  ultimately have "overtaken ?k (revision_number rv) s3" using fin overtaken_op by blast
  then show ?thesis using overtaken_op moving.moves_pause [OF assms(3)] pause by blast
qed

lemma finished_moves:
  assumes "hooks_move on h" "env_moves on env"
  shows "op_moves on (if finalizedPendingDeletion obj
    then bind_op (store_delete ops o' h env name namespace) (\<lambda>_. return_op ()) else return_op ())"
  by (auto intro!: moves assms)

lemma update_run:
  assumes "store_update ops o' h env name skipping input s = (Inr result, s')"
  defines "obj \<equiv> placed o' (defaultTypeMeta o' input)"
  shows "\<exists>existing rv s0 outcome s1. readStored ops o' name (object_namespace obj) s = (Inr (Some (existing, rv)), s0) \<and>
    \<not> (truthy (field ''resourceVersion'' (meta obj)) \<and> field ''resourceVersion'' (meta obj) \<noteq> JStr rv) \<and>
    update_object ops o' h env name skipping obj existing rv (se_others env ObjectRead s0) = (Inr outcome, s1) \<and>
    (\<exists>r. (if finalizedPendingDeletion (fst outcome)
       then bind_op (store_delete ops o' h env (object_name (fst outcome)) (object_namespace (fst outcome))) (\<lambda>_. return_op ())
       else return_op ()) s1 = (r, s'))"
proof -
  let ?body = "\<lambda>existing rv. bind_op (looping (update_object ops o' h env name skipping obj existing rv)) (\<lambda>(obj, rv).
      bind_op (if finalizedPendingDeletion obj
        then bind_op (store_delete ops o' h env (object_name obj) (object_namespace obj)) (\<lambda>_. return_op ())
        else return_op ()) (\<lambda>_. return_op (withResourceVersion rv obj)))"
  let ?stale = "\<lambda>rv. truthy (field ''resourceVersion'' (meta obj)) \<and> field ''resourceVersion'' (meta obj) \<noteq> JStr rv"
  have "bind_op (looping (readStored ops o' name (object_namespace obj))) (\<lambda>existing.
      bind_op (pause env ObjectRead) (\<lambda>_. case existing of
         None \<Rightarrow> throw_op (Some (not_found (so_singular o' @ '' '' @ in_quotes name @ '' not found'')))
       | Some (existing, rv) \<Rightarrow> if ?stale rv then throw_op (Some (conflict o' name)) else ?body existing rv)) s = (Inr result, s')"
    using assms(1) unfolding store_update_def Let_def obj_def [symmetric]
    by (auto simp: bind_Inr lift_op_def throw_op_def looping_Inr split: if_splits)
  then obtain found s0 where read: "readStored ops o' name (object_namespace obj) s = (Inr found, s0)"
    and rest: "(case found of None \<Rightarrow> throw_op (Some (not_found (so_singular o' @ '' '' @ in_quotes name @ '' not found'')))
       | Some (existing, rv) \<Rightarrow> if ?stale rv then throw_op (Some (conflict o' name)) else ?body existing rv) (se_others env ObjectRead s0) = (Inr result, s')"
    unfolding bind_Inr looping_Inr by (auto simp: bind_Inr pause_def)
  then obtain existing rv where found: "found = Some (existing, rv)" "\<not> ?stale rv"
    and body: "?body existing rv (se_others env ObjectRead s0) = (Inr result, s')"
    by (cases found) (auto simp: throw_op_def split: if_splits)
  obtain outcome s1 where upd: "update_object ops o' h env name skipping obj existing rv (se_others env ObjectRead s0) = (Inr outcome, s1)"
    and tail: "(\<lambda>(obj, rv). bind_op (if finalizedPendingDeletion obj
        then bind_op (store_delete ops o' h env (object_name obj) (object_namespace obj)) (\<lambda>_. return_op ())
        else return_op ()) (\<lambda>_. return_op (withResourceVersion rv obj))) outcome s1 = (Inr result, s')"
    using body unfolding bind_Inr [of "looping m" for m] looping_Inr by blast
  have "\<exists>r. (if finalizedPendingDeletion (fst outcome)
       then bind_op (store_delete ops o' h env (object_name (fst outcome)) (object_namespace (fst outcome))) (\<lambda>_. return_op ())
       else return_op ()) s1 = (r, s')"
    using tail by (cases outcome) (auto simp only: bind_Inr prod.case fst_conv return_op_def prod.inject)
  then show ?thesis using read found upd by blast
qed

lemma meta_placed: "field ''resourceVersion'' (meta (placed o' (defaultTypeMeta o' input))) = field ''resourceVersion'' (meta input)"
  by (simp add: placed_def default_namespace_def set_meta_def in_field_def)

lemma updates_once:
  assumes "ok s" "hooks_move on h" "env_moves on env" "truthy (JStr rv)"
    and "field ''resourceVersion'' (meta input) = JStr rv" "field ''resourceVersion'' (meta input') = JStr rv"
    and "update_key o' name input = update_key o' name' input'"
    and "store_update ops o' h env name skipping input s = (Inr result, s1)" "on s1 s2"
  shows "store_update ops o' h' env' name' skipping' input' s2 \<noteq> (Inr result', s3)"
proof
  assume again: "store_update ops o' h' env' name' skipping' input' s2 = (Inr result', s3)"
  let ?k = "update_key o' name input"
  obtain existing rv1 s0 outcome t r where one: "readStored ops o' name (object_namespace (placed o' (defaultTypeMeta o' input))) s = (Inr (Some (existing, rv1)), s0)"
    "\<not> (truthy (JStr rv) \<and> JStr rv \<noteq> JStr rv1)"
    "update_object ops o' h env name skipping (placed o' (defaultTypeMeta o' input)) existing rv1 (se_others env ObjectRead s0) = (Inr outcome, t)"
    "(if finalizedPendingDeletion (fst outcome)
       then bind_op (store_delete ops o' h env (object_name (fst outcome)) (object_namespace (fst outcome))) (\<lambda>_. return_op ())
       else return_op ()) t = (r, s1)"
    using update_run [OF assms(8)] unfolding meta_placed assms(5) by blast
  have rv: "rv1 = rv" using one(2) assms(4) by simp
  have read: "s0 = s" "0 < revision_number rv" using readStored_spec [OF assms(1) one(1)] rv by auto
  then have "ok (se_others env ObjectRead s0)" using assms(1,3) by (simp add: env_moves_def moved_def)
  from updated_overtakes [OF this assms(2,3) read(2) one(3) [unfolded rv]]
  have "overtaken ?k (revision_number rv) t" by (simp add: update_key_def)
  then have "overtaken ?k (revision_number rv) s1" using overtaken_op finished_moves [OF assms(2,3)] one(4) by blast
  then have over: "overtaken ?k (revision_number rv) s2" using overtaken_on assms(9) by blast
  obtain existing' rv2 s0' where two: "readStored ops o' name' (object_namespace (placed o' (defaultTypeMeta o' input'))) s2 = (Inr (Some (existing', rv2)), s0')"
    "\<not> (truthy (JStr rv) \<and> JStr rv \<noteq> JStr rv2)"
    using update_run [OF again] unfolding meta_placed assms(6) by blast
  then have "rv2 = rv" using assms(4) by simp
  moreover have "ok s2" using over by (simp add: overtaken_def)
  ultimately show False using readStored_spec [OF _ two(1)] over unfolding assms(7) by (auto simp: overtaken_def update_key_def)
qed

end

section \<open>Without disturbance\<close>

text \<open>The environment in which nobody else does anything.\<close>

definition alone :: "'s store_env \<Rightarrow> bool" where
  "alone env \<longleftrightarrow> (\<forall>p s. se_others env p s = s)"

lemma pause_alone: "alone env \<Longrightarrow> pause env p = return_op ()"
  by (simp add: alone_def pause_def return_op_def fun_eq_iff)

lemma bind_return [simp]: "bind_op (return_op x) f = f x"
  by (simp add: bind_op_def return_op_def fun_eq_iff)

lemma bind_lift [simp]: "bind_op (lift_op (Inr x)) f = f x"
  by (simp add: bind_op_def lift_op_def fun_eq_iff)

lemma finish_nothing [simp]: "with_finish finishNothing m = m"
  by (auto simp: with_finish_def finishNothing_def bind_op_def return_op_def fun_eq_iff split: prod.split sum.split)

context keyed_store
begin

lemma commit_met:
  assumes "ok s" "k \<noteq> []" "case g of Absent \<Rightarrow> True | AtRevision n \<Rightarrow> 0 < n" "guard_met g (stored s k)"
  shows "\<exists>response s' x. commit ops k g a s = (Inr response, s') \<and> ts_succeeded response \<and>
    rh_revision (ts_header response) = show_nat (revision s') \<and> ok s' \<and> stored s' = (stored s)(k := x) \<and> acted (revision s') a x"
  using txn_law [OF assms(1-3), of a] assms(4) by (fastforce simp: commit_def)

lemma update_alone:
  assumes "ok s" "stored s (store_key o' name (object_namespace obj)) = Some v" "parse_bytes (sv_value v) = Inr old" "alone env"
    and "truthy (meta input)" "validateTypeMeta o' (defaultTypeMeta o' input) = Inr ()" "truthy (field ''name'' (meta input))"
    and "field ''resourceVersion'' (meta input) = JStr (show_nat (sv_modRevision v))" "\<not> finalizedPendingDeletion obj"
    and obj_def: "obj = placed o' (defaultTypeMeta o' input)"
  shows "\<exists>s' x. store_update ops o' base_hooks env name skipping input s =
      (Inr (withResourceVersion (show_nat (revision s')) obj), s') \<and> ok s' \<and>
    stored s' = (stored s)(store_key o' name (object_namespace obj) := x) \<and> acted (revision s') (put_json obj) x"
proof -
  let ?k = "store_key o' name (object_namespace obj)" and ?rv = "show_nat (sv_modRevision v)"
  have pos: "0 < sv_modRevision v" using stored_key [OF assms(1,2)] by simp
  have num: "revision_number ?rv = int (sv_modRevision v)" by (simp add: revision_number_def)
  have read: "readStored ops o' name (object_namespace obj) s = (Inr (Some (withResourceVersion ?rv old, ?rv)), s)"
    using get_law [OF assms(1) key_not_Nil, of o' name "object_namespace obj"] assms(2,3) by (simp add: readStored_def toPublicKv_def)
  have rv: "field ''resourceVersion'' (meta obj) = JStr ?rv" using assms(8) by (simp add: obj_def meta_placed)
  obtain response s' x where com: "commit ops ?k (AtRevision (revision_number ?rv)) (put_json obj) s = (Inr response, s')"
    "ts_succeeded response" "rh_revision (ts_header response) = show_nat (revision s')" "ok s'" "stored s' = (stored s)(?k := x)"
    "acted (revision s') (put_json obj) x"
    using commit_met [OF assms(1) key_not_Nil, of "AtRevision (revision_number ?rv)" o' name "object_namespace obj" "put_json obj"]
    by (auto simp: num guard_met_def assms(2) pos)
  have wr: "write_changed ops o' base_hooks env skipping ?k name (withResourceVersion ?rv old) ?rv obj s = (Inr (obj, show_nat (revision s')), s')"
    unfolding write_changed_def pause_alone [OF assms(4)]
    using com(1-3) by (simp add: base_hooks_def pure_hooks_def bind_op_def return_op_def lift_op_def)
  have upd: "update_object ops o' base_hooks env name skipping obj (withResourceVersion ?rv old) ?rv s = (Inr (obj, show_nat (revision s')), s')"
    unfolding update_object_def pause_alone [OF assms(4)] using wr
    by (simp add: base_hooks_def pure_hooks_def prepared_def bind_op_def return_op_def)
  have "store_update ops o' base_hooks env name skipping input s = (Inr (withResourceVersion (show_nat (revision s')) obj), s')"
    using assms(5-7,9) rv read upd unfolding store_update_def Let_def obj_def [symmetric] pause_alone [OF assms(4)]
    by (simp add: looping_def bind_op_def return_op_def lift_op_def obj_def)
  then show ?thesis using com by blast
qed

end

section \<open>What was created is read\<close>

lemma json_ok_set: "json_ok v \<Longrightarrow> json_ok x \<Longrightarrow> json_ok (set_field k x v)"
proof (cases v)
  case (JObj fs)
  assume "json_ok v" "json_ok x"
  then show ?thesis using JObj by (auto simp: set_field_def list_all_iff dest: jm_set_mem)
qed (simp_all add: set_field_def)

lemma json_ok_field: "json_ok v \<Longrightarrow> json_ok (field k v)"
  by (cases v) (auto simp: field_def list_all_iff dest: map_of_SomeD split: option.split)

lemma json_ok_default: "json_ok v \<Longrightarrow> json_ok x \<Longrightarrow> json_ok (default_field k x v)"
  by (simp add: default_field_def json_ok_set)

lemmas json_oks = json_ok_set json_ok_field json_ok_default

lemma json_ok_set_meta: "json_ok obj \<Longrightarrow> json_ok x \<Longrightarrow> json_ok (set_meta k x obj)"
  unfolding set_meta_def in_field_def by (intro json_oks)

lemma json_ok_placed: "json_ok obj \<Longrightarrow> json_ok (placed o' obj)"
  by (simp add: placed_def default_namespace_def json_ok_set_meta)

lemma json_ok_typeMeta: "json_ok v \<Longrightarrow> json_ok (defaultTypeMeta o' v)"
  by (simp add: defaultTypeMeta_def json_oks opt_str_def split: option.split)

definition keeps_names :: "check \<Rightarrow> bool" where
  "keeps_names f \<longleftrightarrow> (\<forall>obj obj'. f obj = Inr obj' \<longrightarrow> meta obj' = meta obj \<and> (json_ok obj \<longrightarrow> json_ok obj'))"

context keyed_store
begin

lemma op_on: "op_moves on m \<Longrightarrow> m s = (r, s') \<Longrightarrow> on s s'"
  by (metis op_moves_def snd_conv)

lemma get_pure: "store_get ops o' name namespace s = (x, t) \<Longrightarrow> t = s"
  by (auto simp: store_get_def bind_op_def return_op_def readStored_def split: prod.splits sum.splits option.splits)

lemma namespace_run:
  assumes "env_moves on env" "create_namespace ops o' env obj s = (Inr obj', s')"
  shows "on s s' \<and> obj' = placed o' obj"
proof
  have "op_moves on (create_namespace ops o' env obj)"
    unfolding create_namespace_def Let_def by (auto intro!: moves assms(1))
  then show "on s s'" using assms(2) by (rule op_on)
  show "obj' = placed o' obj"
    using assms(2) by (auto simp: create_namespace_def Let_def bind_Inr return_op_def throw_op_def placed_def split: if_splits)
qed

lemma name_loop_moves: "env_moves on env \<Longrightarrow> op_moves on (name_loop ops o' env base namespace i n)"
proof (induction n arbitrary: i)
  case 0
  then show ?case by (simp add: op_moves_def)
next
  case (Suc n)
  show ?case unfolding name_loop.simps(2) [abs_def] Let_def
    by (auto intro!: moves Suc)
qed

lemma generated_run:
  assumes "env_moves on env" "generated_name ops o' env obj s = (Inr obj', s')" "json_ok obj"
  shows "on s s' \<and> json_ok obj'"
proof
  have "op_moves on (generated_name ops o' env obj)"
    unfolding generated_name_def Let_def by (auto intro!: moves name_loop_moves assms(1))
  then show "on s s'" using assms(2) by (rule op_on)
  show "json_ok obj'"
    using assms(2,3) by (auto simp: generated_name_def Let_def bind_Inr return_op_def split: if_splits simp del: json_ok.simps(2)
      intro!: json_ok_set_meta json_ok.simps)
qed

lemma create_run:
  assumes "env_moves on env" "store_create ops o' h env input s = (Inr result, s')" "json_ok input"
  shows "\<exists>obj t. json_ok obj \<and> on s t \<and> create_object ops o' h env obj t = (Inr result, s')"
proof -
  let ?final = "in_field ''metadata'' (default_field ''uid'' (JStr (se_uid env)))"
  obtain obj1 obj2 s1 s2 x s3 s4 where run: "create_namespace ops o' env (defaultTypeMeta o' input) s = (Inr obj1, s1)"
    "generated_name ops o' env obj1 s1 = (Inr obj2, s2)"
    "store_get ops o' (object_name (?final obj2)) (object_namespace (?final obj2)) s2 = (Inr x, s3)"
    "pause env ObjectRead s3 = (Inr (), s4 :: 's)" "create_object ops o' h env (?final obj2) s4 = (Inr result, s')"
    using assms(2) unfolding store_create_def Let_def
    by (auto simp: bind_Inr looping_Inr lift_op_def throw_op_def pause_def split: if_splits)
  have one: "on s s1" "json_ok obj1" using namespace_run [OF assms(1) run(1)] json_ok_placed [OF json_ok_typeMeta [OF assms(3)]] by auto
  have two: "on s1 s2" "json_ok obj2" using generated_run [OF assms(1) run(2) one(2)] by auto
  have "s3 = s2" using get_pure [OF run(3)] .
  moreover have "on s3 s4" using assms(1) run(4) by (auto simp: env_moves_def pause_def)
  ultimately have "on s s4" using one(1) two(1) moved_trans by metis
  moreover have "json_ok (?final obj2)" unfolding in_field_def by (intro json_oks two(2)) simp
  ultimately show ?thesis using run(5) by blast
qed

lemma create_pure:
  assumes "ok s" "env_moves on env" "create_object ops o' (pure_hooks pc pu vc vu) env obj s = (Inr result, s')"
  shows "\<exists>obj1 obj2 t t' x. pc obj = Inr obj1 \<and> vc obj1 = Inr obj2 \<and> result = withResourceVersion (show_nat (revision t')) obj2 \<and>
    on s t \<and> stored t (store_key o' (object_name obj) (object_namespace obj)) = None \<and>
    stored t' = (stored t)(store_key o' (object_name obj) (object_namespace obj) := x) \<and> acted (revision t') (put_json obj2) x \<and> ok t' \<and> on t' s'"
proof -
  let ?k = "store_key o' (object_name obj) (object_namespace obj)"
  obtain obj1 obj2 s1 t response t' s3 where run: "pc obj = Inr obj1" "vc obj1 = Inr obj2"
    "pause env Begun s = (Inr (), s1 :: 's)" "pause env Validated s1 = (Inr (), t :: 's)"
    "commit ops ?k Absent (put_json obj2) t = (Inr response, t')" "ts_succeeded response"
    "pause env Committed t' = (Inr (), s3 :: 's)" "pause env Finished s3 = (Inr (), s')"
    "result = withResourceVersion (rh_revision (ts_header response)) obj2"
    using assms(3) unfolding create_object_def write_new_def
    by (auto simp: bind_Inr pure_hooks_def prepared_def lift_op_def return_op_def throw_op_def pause_def split: if_splits)
  have pauses: "on u u'" if "pause env p u = (Inr (), u' :: 's)" for p u u'
    using assms(2) that by (auto simp: env_moves_def pause_def)
  have st: "on s t" using pauses [OF run(3)] pauses [OF run(4)] by (rule moved_trans)
  then have "ok t" using assms(1) by (simp add: moved_def)
  then obtain r u x where "kv_txn ops (guarded ?k Absent (put_json obj2)) t = (Inr r, u)" "ok u"
    "ts_succeeded r = guard_met Absent (stored t ?k)" "rh_revision (ts_header r) = show_nat (revision u)"
    "if guard_met Absent (stored t ?k) then stored u = (stored t)(?k := x) \<and> acted (revision u) (put_json obj2) x \<and> revision t < revision u
     else stored u = stored t \<and> revision u = revision t"
    using txn_law [OF _ key_not_Nil, of t Absent o' "object_name obj" "object_namespace obj" "put_json obj2"] by auto
  moreover have "on t' s'" using pauses [OF run(7)] pauses [OF run(8)] by (rule moved_trans)
  ultimately show ?thesis using run st by (auto simp: commit_def guard_met_def)
qed

lemma created_readable:
  assumes "ok s" "env_moves on env" "json_ok input" "keeps_names pc" "keeps_names vc"
    and "store_create ops o' (pure_hooks pc pu vc vu) env input s = (Inr result, s')"
  shows "\<exists>obj t t' v. on s t \<and> stored t (store_key o' (object_name obj) (object_namespace obj)) = None \<and>
    stored t' = (stored t)(store_key o' (object_name obj) (object_namespace obj) := Some v) \<and> ok t' \<and> on t' s' \<and>
    result = withResourceVersion (show_nat (revision t')) obj \<and> sv_modRevision v = revision t' \<and>
    (\<forall>u. ok u \<longrightarrow> stored u (store_key o' (object_name obj) (object_namespace obj)) = Some v \<longrightarrow>
       store_get ops o' (object_name obj) (object_namespace obj) u =
         (Inr (Some (withResourceVersion (show_nat (revision t')) (json_image obj))), u))"
proof -
  obtain obj s1 where obj: "json_ok obj" "on s s1" "create_object ops o' (pure_hooks pc pu vc vu) env obj s1 = (Inr result, s')"
    using create_run [OF assms(2,6,3)] by blast
  let ?k = "store_key o' (object_name obj) (object_namespace obj)"
  have "ok s1" using assms(1) obj(2) by (simp add: moved_def)
  then obtain obj1 obj2 t t' x where run: "pc obj = Inr obj1" "vc obj1 = Inr obj2"
    "result = withResourceVersion (show_nat (revision t')) obj2" "on s1 t" "stored t ?k = None"
    "stored t' = (stored t)(?k := x)" "acted (revision t') (put_json obj2) x" "ok t'" "on t' s'"
    using create_pure [OF _ assms(2) obj(3)] by blast
  have kept: "meta obj2 = meta obj" "json_ok obj2" using assms(4,5) run(1,2) obj(1) by (auto simp: keeps_names_def)
  then have names: "object_name obj2 = object_name obj" "object_namespace obj2 = object_namespace obj"
    by (simp_all add: object_name_def object_namespace_def)
  obtain v where v: "x = Some v" "sv_value v = text_bytes (stringify obj2)" "sv_modRevision v = revision t'"
    using run(7) by (auto simp: acted_def put_json_def written_def)
  have parsed: "parse_bytes (sv_value v) = Inr (json_image obj2)" using json_roundtrip [OF kept(2)] by (simp add: parse_bytes_def v(2))
  have read: "store_get ops o' (object_name obj) (object_namespace obj) u =
      (Inr (Some (withResourceVersion (show_nat (revision t')) (json_image obj2))), u)" if "ok u" "stored u ?k = Some v" for u
    using get_law [OF that(1) key_not_Nil, of o' "object_name obj" "object_namespace obj"] that(2) v(3) parsed
    by (simp add: readStored_def toPublicKv_def store_get_def bind_op_def return_op_def)
  have "on s t" using obj(2) run(4) by (rule moved_trans)
  then show ?thesis using run(3,5,6,8,9) v(1,3) read unfolding names [symmetric] by blast
qed

end

section \<open>On the etcd\<close>

abbreviation etcd_on :: "order \<Rightarrow> fake_state \<Rightarrow> fake_state \<Rightarrow> bool" where
  "etcd_on lc \<equiv> moved (etcd_ok lc) (stored_at lc) es_revision"

context etcd_keys
begin

lemmas etcd_updates_once = client.updates_once
lemmas etcd_created_readable = client.created_readable

end

text \<open>
  C6. Of the updates that carry the same resource version at most one succeeds. Once an update with a resource
  version has succeeded, an update of the same key with that version does not, however much later it is made,
  whatever others do before, after and while the two run, and whatever hooks the store has.
\<close>
theorem update_once:
  assumes "etcd_keys lc" "etcd_ok lc s" "hooks_move (etcd_on lc) h" "env_moves (etcd_on lc) env" "rv \<noteq> []"
    and "field ''resourceVersion'' (meta input) = JStr rv" "field ''resourceVersion'' (meta input') = JStr rv"
    and "update_key o' name input = update_key o' name' input'"
    and "store_update (etcd_ops lc) o' h env name skipping input s = (Inr result, s1)" "etcd_on lc s1 s2"
  shows "\<nexists>result'. fst (store_update (etcd_ops lc) o' h' env' name' skipping' input' s2) = Inr result'"
  using etcd_keys.etcd_updates_once [OF assms(1-4) truthy_text [THEN iffD2, OF assms(5)] assms(6-10)] by (metis prod.collapse)

definition node_opts :: store_opts where
  "node_opts = \<lparr>so_namespaced = False, so_qualified = ''nodes'', so_singular = ''node'', so_apiVersion = Some ''v1'', so_kind = Some ''Node''\<rparr>"

definition idle :: "'s store_env" where
  "idle = \<lparr>se_others = (\<lambda>p s. s), se_random = (\<lambda>i. ''x''), se_uid = ''u'', se_rounds = 1\<rparr>"

definition demo_node :: json where
  "demo_node = JObj [(''metadata'', JObj [(''name'', JStr ''n''), (''resourceVersion'', JStr ''1'')])]"

definition node_stored :: fake_state where
  "node_stored = snd (put_exec order_cmp (store_key node_opts ''n'' None) (text_bytes ''{}'') (new_fake_state None))"

lemma node_stored_at: "etcd_ok order_cmp node_stored"
    "\<exists>v. stored_at order_cmp node_stored (store_key node_opts ''n'' None) = Some v \<and> sv_modRevision v = 1 \<and> sv_value v = text_bytes ''{}''"
proof -
  have "es_revision node_stored = 1" by code_simp
  moreover obtain r s' x where put: "put_exec order_cmp (store_key node_opts ''n'' None) (text_bytes ''{}'') (new_fake_state None) = (Inr r, s')"
    "etcd_ok order_cmp s'" "stored_at order_cmp s' = (stored_at order_cmp (new_fake_state None))(store_key node_opts ''n'' None := x)"
    "written (es_revision s') (text_bytes ''{}'') x"
    using code_units.etcd_put_law [OF new_state_ok code_units.client.key_not_Nil] by blast
  moreover have "node_stored = s'" by (simp add: node_stored_def put)
  ultimately show "etcd_ok order_cmp node_stored"
    "\<exists>v. stored_at order_cmp node_stored (store_key node_opts ''n'' None) = Some v \<and> sv_modRevision v = 1 \<and> sv_value v = text_bytes ''{}''"
    by (auto simp: written_def)
qed

lemma idle_alone: "alone idle" "env_moves (etcd_on lc) idle"
  by (simp_all add: alone_def idle_def env_moves_def)

lemma base_moves: "hooks_move (etcd_on lc) base_hooks"
  by (auto simp: hooks_move_def base_hooks_def pure_hooks_def op_moves_def finish_moves_def return_op_def lift_op_def prepared_def finishNothing_def)

lemma update_once_witness:
  "\<exists>result s1. store_update (etcd_ops order_cmp) node_opts base_hooks idle ''n'' False demo_node node_stored = (Inr result, s1) \<and>
    (\<nexists>result'. fst (store_update (etcd_ops order_cmp) node_opts base_hooks idle ''n'' False demo_node s1) = Inr result')"
proof -
  let ?obj = "placed node_opts (defaultTypeMeta node_opts demo_node)"
  obtain v where v: "stored_at order_cmp node_stored (store_key node_opts ''n'' None) = Some v" "sv_modRevision v = 1"
    "sv_value v = text_bytes ''{}''" using node_stored_at(2) by blast
  have obj: "object_namespace ?obj = None" "validateTypeMeta node_opts (defaultTypeMeta node_opts demo_node) = Inr ()"
    "truthy (meta demo_node)" "truthy (field ''name'' (meta demo_node))" "\<not> finalizedPendingDeletion ?obj"
    "field ''resourceVersion'' (meta demo_node) = JStr ''1''" by code_simp+
  have "parse_bytes (sv_value v) = Inr (JObj [])" unfolding v(3) by code_simp
  moreover have one: "show_nat 1 = ''1''" by code_simp
  ultimately obtain s1 where run: "store_update (etcd_ops order_cmp) node_opts base_hooks idle ''n'' False demo_node node_stored =
      (Inr (withResourceVersion (show_nat (es_revision s1)) ?obj), s1)"
    using code_units.client.update_alone [where s = node_stored and o' = node_opts and obj = ?obj and input = demo_node and name = "''n''" and env = idle
      and v = v and old = "JObj []" and skipping = False]
    using node_stored_at(1) v obj idle_alone(1) by (auto simp del: One_nat_def)
  have "''1'' \<noteq> []" by simp
  from update_once [OF code_units.etcd_keys_axioms node_stored_at(1) base_moves idle_alone(2) this obj(6) obj(6) refl run moved_refl]
  have "\<nexists>result'. fst (store_update (etcd_ops order_cmp) node_opts base_hooks idle ''n'' False demo_node s1) = Inr result'" .
  then show ?thesis using run by blast
qed

text \<open>
  C8. What was created is what is read. Take a store whose hooks only look at the object and keep its metadata, and
  a create of a JSON object that returns, whatever others write while it runs. At some moment during the create
  nothing was stored under the name of the object, and its value was put there; the returned object has the
  revision of that write as its resource version, and as long as that value is stored, a read of the name gives
  the returned object as it comes back from JSON. When the create returns, the name holds that value, a value
  written later, or none.
\<close>
theorem create_readable:
  assumes "etcd_keys lc" "etcd_ok lc s" "env_moves (etcd_on lc) env" "json_ok input" "keeps_names prepare" "keeps_names validate"
    and "store_create (etcd_ops lc) o' (pure_hooks prepare pu validate vu) env input s = (Inr result, s')"
  shows "\<exists>obj k t t' v. k = store_key o' (object_name obj) (object_namespace obj) \<and>
    result = withResourceVersion (show_nat (es_revision t')) obj \<and>
    etcd_on lc s t \<and> stored_at lc t k = None \<and> stored_at lc t' = (stored_at lc t)(k \<mapsto> v) \<and> etcd_ok lc t' \<and> etcd_on lc t' s' \<and>
    (\<forall>u. etcd_ok lc u \<longrightarrow> stored_at lc u k = Some v \<longrightarrow>
       store_get (etcd_ops lc) o' (object_name obj) (object_namespace obj) u =
         (Inr (Some (withResourceVersion (show_nat (es_revision t')) (json_image obj))), u)) \<and>
    (\<forall>v'. stored_at lc s' k = Some v' \<longrightarrow> v' = v \<or> es_revision t' < sv_modRevision v')"
proof -
  obtain obj t t' v where created: "etcd_on lc s t" "stored_at lc t (store_key o' (object_name obj) (object_namespace obj)) = None"
    "stored_at lc t' = (stored_at lc t)(store_key o' (object_name obj) (object_namespace obj) \<mapsto> v)" "etcd_ok lc t'" "etcd_on lc t' s'"
    "result = withResourceVersion (show_nat (es_revision t')) obj"
    "\<forall>u. etcd_ok lc u \<longrightarrow> stored_at lc u (store_key o' (object_name obj) (object_namespace obj)) = Some v \<longrightarrow>
       store_get (etcd_ops lc) o' (object_name obj) (object_namespace obj) u =
         (Inr (Some (withResourceVersion (show_nat (es_revision t')) (json_image obj))), u)"
    using etcd_keys.etcd_created_readable [OF assms] by blast
  have "v' = v \<or> es_revision t' < sv_modRevision v'"
    if "stored_at lc s' (store_key o' (object_name obj) (object_namespace obj)) = Some v'" for v'
  proof -
    have "stored_at lc t' (store_key o' (object_name obj) (object_namespace obj)) = Some v' \<or> es_revision t' < sv_modRevision v'"
      using created(4,5) that unfolding moved_def by blast
    then show ?thesis unfolding created(3) by auto
  qed
  with created show ?thesis by blast
qed

definition new_node :: json where
  "new_node = JObj [(''metadata'', JObj [(''name'', JStr ''n'')])]"

lemma create_readable_witness:
  "\<exists>result s' t obj. store_create (etcd_ops order_cmp) node_opts base_hooks idle new_node (new_fake_state None) = (Inr result, s') \<and>
    result = withResourceVersion (show_nat (es_revision t)) obj \<and>
    store_get (etcd_ops order_cmp) node_opts (object_name obj) (object_namespace obj) t =
      (Inr (Some (withResourceVersion (show_nat (es_revision t)) (json_image obj))), t)"
proof -
  have "is_ok (fst (store_create (etcd_ops order_cmp) node_opts base_hooks idle new_node (new_fake_state None)))" by code_simp
  then obtain result s' where run: "store_create (etcd_ops order_cmp) node_opts base_hooks idle new_node (new_fake_state None) = (Inr result, s')"
    by (cases "store_create (etcd_ops order_cmp) node_opts base_hooks idle new_node (new_fake_state None)") (auto split: sum.splits)
  have "json_ok new_node" "keeps_names Inr" by (simp_all add: new_node_def keeps_names_def)
  from create_readable [OF code_units.etcd_keys_axioms new_state_ok idle_alone(2) this(1,2,2) run [unfolded base_hooks_def]]
  obtain obj k s1 t v where "k = store_key node_opts (object_name obj) (object_namespace obj)"
    "result = withResourceVersion (show_nat (es_revision t)) obj" "stored_at order_cmp t = (stored_at order_cmp s1)(k \<mapsto> v)" "etcd_ok order_cmp t"
    "\<forall>u. etcd_ok order_cmp u \<longrightarrow> stored_at order_cmp u k = Some v \<longrightarrow>
       store_get (etcd_ops order_cmp) node_opts (object_name obj) (object_namespace obj) u =
         (Inr (Some (withResourceVersion (show_nat (es_revision t)) (json_image obj))), u)" by blast
  moreover from this(3) have "stored_at order_cmp t k = Some v" by simp
  ultimately show ?thesis using run by blast
qed

end
