(* ===== verification/Stores.thy ===== *)
theory Stores
  imports StoreLaws AppsTypes
begin

text \<open>
  The stores of \<open>src/cluster/storage\<close> that only prepare and validate their objects: \<open>pod.ts\<close>, \<open>namespace.ts\<close>,
  \<open>node.ts\<close>, \<open>event.ts\<close>, \<open>endpointslice.ts\<close>, \<open>deployment.ts\<close> and \<open>replicaset.ts\<close>, with \<open>helpers.ts\<close> and the
  translation of watch events in \<open>watch.ts\<close>.
\<close>

section \<open>Common\<close>

definition invalid :: "string \<Rightarrow> store_error" where
  "invalid msg = Failed (ApiError ''Invalid'' None msg [])"

abbreviation spec :: "json \<Rightarrow> json" where
  "spec obj \<equiv> field ''spec'' obj"

text \<open>\<open>value.length === 0\<close> of an array that is there.\<close>

definition no_elements :: "json \<Rightarrow> bool" where
  "no_elements v \<longleftrightarrow> \<not> truthy v \<or> elements v = []"

definition store_opts_of :: "bool \<Rightarrow> string \<Rightarrow> string \<Rightarrow> string \<Rightarrow> string \<Rightarrow> store_opts" where
  "store_opts_of namespaced qualified singular apiVersion kind =
     \<lparr>so_namespaced = namespaced, so_qualified = qualified, so_singular = singular, so_apiVersion = Some apiVersion, so_kind = Some kind\<rparr>"

section \<open>Pods\<close>

definition pod_opts :: store_opts where
  "pod_opts = store_opts_of True ''pods'' ''pod'' ''v1'' ''Pod''"

definition pod_invalid :: "json \<Rightarrow> string \<Rightarrow> store_error" where
  "pod_invalid pod msg = invalid (''Pod '' @ in_quotes (str_of (field ''name'' (meta pod))) @ '' is invalid: '' @ msg)"

definition pod_validateCreate :: check where
  "pod_validateCreate pod =
     (if \<not> truthy (field ''name'' (meta pod)) then Inl (plain ''Pod name is required'')
      else if \<not> truthy (spec pod) then Inl (plain ''Pod spec is required'')
      else let pod = in_field ''spec'' (default_field ''enableServiceLinks'' (JBool True)) pod;
               policy = field ''dnsPolicy'' (spec pod); config = field ''dnsConfig'' (spec pod) in
        if no_elements (field ''containers'' (spec pod)) then
          Inl (pod_invalid pod ''spec.containers: Required value'')
        else if policy = JStr ''None'' \<and> \<not> truthy config then
          Inl (pod_invalid pod ''spec.dnsConfig: Required value: must provide `dnsConfig` when `dnsPolicy` is None'')
        else if policy = JStr ''None'' \<and> truthy config \<and> no_elements (field ''nameservers'' config) then
          Inl (pod_invalid pod ''spec.dnsConfig.nameservers: Required value: must provide at least one DNS nameserver when `dnsPolicy` is None'')
        else Inr pod)"

definition pod_validateUpdate :: "json \<Rightarrow> check" where
  "pod_validateUpdate existing pod =
     (case pod_validateCreate pod of
        Inl err \<Rightarrow> Inl err
      | Inr pod \<Rightarrow>
          let node = field ''nodeName'' (spec existing);
              pod = (if truthy (spec pod) \<and> field ''nodeName'' (spec pod) = JUndef
                then in_field ''spec'' (set_field ''nodeName'' node) pod else pod)
          in if field ''nodeName'' (spec pod) \<noteq> node then
               Inl (pod_invalid pod ''spec: Forbidden: pod updates may not change fields other than spec.containers[*].image'')
             else Inr pod)"

definition pod_hooks :: "'s hooks" where
  "pod_hooks = pure_hooks Inr (\<lambda>existing. Inr) pod_validateCreate pod_validateUpdate"

definition pod_bind :: "'s kv_ops \<Rightarrow> 's store_env \<Rightarrow> string \<Rightarrow> string \<Rightarrow> json \<Rightarrow> (json, 's) looping" where
  "pod_bind ops env name namespace binding =
     bind_op (looping (store_get ops pod_opts name (Some namespace))) (\<lambda>found.
     bind_op (pause env NamespaceRead) (\<lambda>_.
     let target = field ''name'' (field ''target'' binding) in
     case found of
       None \<Rightarrow> throw_op (Some (not_found (''Pod '' @ in_quotes name @ '' not found'')))
     | Some pod \<Rightarrow>
         if \<not> truthy target then
           throw_op (Some (invalid (''Binding '' @ in_quotes name @ '' is invalid: target.name: Required value'')))
         else if truthy (field ''nodeName'' (spec pod)) then
           throw_op (Some (invalid (''Pod '' @ in_quotes name @ '' is invalid: spec.nodeName: Invalid value: already assigned'')))
         else
           store_update ops pod_opts pod_hooks env name True
             (in_field ''spec'' (set_field ''nodeName'' target) (default_field ''spec'' (JObj [(''containers'', JArr [])]) pod))))"

section \<open>Namespaces, nodes, events and endpoint slices\<close>

definition namespace_opts :: store_opts where
  "namespace_opts = store_opts_of False ''namespaces'' ''namespace'' ''v1'' ''Namespace''"

definition validateName :: "string \<Rightarrow> store_error option" where
  "validateName name =
     (if name = [] \<or> js_trim name = [] then Some (plain ''Namespace name must be provided'')
      else if length name > 63 then Some (plain ''Namespace name must be between 1 and 63 characters'')
      else if \<not> rx_test dns1123LabelRegexp name then Some (plain (''Namespace name must consist of lower case alphanumeric characters or '' @
        [CHR 0x27, CHR ''-'', CHR 0x27] @ '', and must start and end with an alphanumeric character (e.g. '' @
        [CHR 0x27] @ ''my-name'' @ [CHR 0x27] @ '',  or '' @ [CHR 0x27] @ ''123-abc'' @ [CHR 0x27]))
      else None)"

definition namespace_validateCreate :: check where
  "namespace_validateCreate obj =
     (case validateName (str_of (or_else (field ''name'' (meta obj)) (JStr []))) of Some err \<Rightarrow> Inl err | None \<Rightarrow> Inr obj)"

definition namespace_prepareCreate :: check where
  "namespace_prepareCreate obj =
     (let obj = default_field ''spec'' (JObj []) obj;
          obj = in_field ''spec'' (default_field ''finalizers'' (JArr [JStr ''kubernetes''])) obj;
          obj = default_field ''status'' (JObj []) obj
      in Inr (in_field ''status'' (default_field ''phase'' (JStr ''Active'')) obj))"

definition namespace_hooks :: "'s hooks" where
  "namespace_hooks = pure_hooks namespace_prepareCreate (\<lambda>existing. Inr) namespace_validateCreate (\<lambda>existing. Inr)"

definition required :: "bool \<Rightarrow> string \<Rightarrow> check \<Rightarrow> check" where
  "required there msg rest obj = (if there then rest obj else Inl (plain msg))"

definition node_store_opts :: store_opts where
  "node_store_opts = store_opts_of False ''nodes'' ''node'' ''v1'' ''Node''"

definition node_validateCreate :: check where
  "node_validateCreate obj = required (truthy (field ''name'' (meta obj))) ''Node name is required'' Inr obj"

definition node_hooks :: "'s hooks" where
  "node_hooks = pure_hooks Inr (\<lambda>existing. Inr) node_validateCreate (\<lambda>existing. Inr)"

definition event_opts :: store_opts where
  "event_opts = store_opts_of True ''events'' ''event'' ''v1'' ''Event''"

definition event_validateCreate :: check where
  "event_validateCreate obj =
     required (truthy (field ''name'' (meta obj))) ''Event name is required''
     (required (truthy (field ''involvedObject'' obj)) ''Event involvedObject is required'' Inr) obj"

definition event_hooks :: "'s hooks" where
  "event_hooks = pure_hooks Inr (\<lambda>existing. Inr) event_validateCreate (\<lambda>existing. event_validateCreate)"

definition endpointSlice_opts :: store_opts where
  "endpointSlice_opts = store_opts_of True ''discovery.k8s.io/endpointslices'' ''discovery.k8s.io/endpointslice''
     ''discovery.k8s.io/v1'' ''EndpointSlice''"

definition endpointSlice_validateCreate :: check where
  "endpointSlice_validateCreate obj =
     required (truthy (field ''name'' (meta obj))) ''EndpointSlice name is required''
     (required (truthy (field ''addressType'' obj)) ''EndpointSlice addressType is required''
     (required (truthy (field ''endpoints'' obj)) ''EndpointSlice endpoints are required'' Inr)) obj"

definition endpointSlice_hooks :: "'s hooks" where
  "endpointSlice_hooks = pure_hooks Inr (\<lambda>existing. Inr) endpointSlice_validateCreate (\<lambda>existing. endpointSlice_validateCreate)"

section \<open>Selectors and labels in JSON\<close>

definition entries :: "json \<Rightarrow> (string \<times> json) list" where
  "entries v = (case v of JObj fs \<Rightarrow> fs | _ \<Rightarrow> [])"

definition text_entries :: "json \<Rightarrow> (string \<times> string) list" where
  "text_entries v = map (\<lambda>(k, x). (k, str_of x)) (entries v)"

definition unless_nullish :: "(json \<Rightarrow> 'a) \<Rightarrow> json \<Rightarrow> 'a option" where
  "unless_nullish f v = (if nullish v then None else Some (f v))"

definition json_requirement :: "json \<Rightarrow> label_selector_requirement" where
  "json_requirement v = \<lparr>lsr_key = str_of (field ''key'' v), lsr_operator = str_of (field ''operator'' v),
     lsr_values = unless_nullish (\<lambda>xs. map str_of (elements xs)) (field ''values'' v)\<rparr>"

definition json_selector :: "json \<Rightarrow> label_selector option" where
  "json_selector v =
     (if \<not> truthy v then None
      else Some \<lparr>lsl_matchLabels = unless_nullish text_entries (field ''matchLabels'' v),
        lsl_matchExpressions = unless_nullish (\<lambda>xs. map json_requirement (elements xs)) (field ''matchExpressions'' v)\<rparr>)"

text \<open>The texts of \<open>helpers.ts\<close>, and \<open>JSON.stringify\<close> of a value that may be undefined.\<close>

definition formatStringMap :: "(string \<Rightarrow> string \<Rightarrow> int) \<Rightarrow> json \<Rightarrow> string" where
  "formatStringMap lc labels = stringify (JObj (js_sort (\<lambda>l r. lc (fst l) (fst r)) (entries (or_else labels (JObj [])))))"

definition formatLabelSelector :: "json \<Rightarrow> string" where
  "formatLabelSelector selector = stringify (or_else selector (JObj []))"

definition stringify_opt :: "json \<Rightarrow> string option" where
  "stringify_opt v = (if v = JUndef then None else Some (stringify v))"

section \<open>Workloads\<close>

text \<open>What \<open>ValidateDeploymentSpec\<close> and \<open>ValidateReplicaSetSpec\<close> share.\<close>

definition workload_invalid :: "string \<Rightarrow> json \<Rightarrow> string \<Rightarrow> store_error" where
  "workload_invalid kind obj msg =
     invalid (kind @ '' '' @ in_quotes (str_of (or_else (field ''name'' (meta obj)) (JStr []))) @ '' is invalid: '' @ msg)"

definition template_labels :: "json \<Rightarrow> json" where
  "template_labels obj = field ''labels'' (meta (field ''template'' (spec obj)))"

definition not_negative :: "string \<Rightarrow> string \<Rightarrow> json \<Rightarrow> store_error option" where
  "not_negative kind k obj =
     (if num_or 0 (field k (spec obj)) < 0
      then Some (workload_invalid kind obj (''spec.'' @ k @ '': Invalid value: '' @ str_of (field k (spec obj)) @
        '': must be greater than or equal to 0''))
      else None)"

definition validateWorkload :: "(string \<Rightarrow> string \<Rightarrow> int) \<Rightarrow> string \<Rightarrow> json \<Rightarrow> store_error option" where
  "validateWorkload lc kind obj =
     (if \<not> truthy (spec obj) then Some (workload_invalid kind obj ''spec: Required value'')
      else let sel = field ''selector'' (spec obj); parsed = labelSelectorAsSelector lc (json_selector sel) in
        if \<not> truthy sel \<or> (case parsed of Inr p \<Rightarrow> sel_empty p | Inl _ \<Rightarrow> False) then
          Some (workload_invalid kind obj ''spec.selector: Required value'')
        else case parsed of
          Inl err \<Rightarrow> Some (workload_invalid kind obj (''spec.selector: Invalid value: '' @ formatLabelSelector sel @ '': '' @ error_string err))
        | Inr p \<Rightarrow>
            if \<not> sel_matches p (text_entries (template_labels obj)) then
              Some (workload_invalid kind obj (''spec.template.metadata.labels: Invalid value: '' @
                formatStringMap lc (template_labels obj) @ '': `selector` does not match template `labels`''))
            else case not_negative kind ''replicas'' obj of
              Some err \<Rightarrow> Some err
            | None \<Rightarrow> not_negative kind ''minReadySeconds'' obj)"

definition immutable_selector :: "string \<Rightarrow> json \<Rightarrow> json \<Rightarrow> store_error option" where
  "immutable_selector kind existing obj =
     (let sel = field ''selector'' (spec obj) in
      if stringify_opt sel \<noteq> stringify_opt (field ''selector'' (spec existing))
      then Some (workload_invalid kind obj (''spec.selector: Invalid value: '' @ formatLabelSelector sel @ '': field is immutable''))
      else None)"

definition checked :: "store_error option \<Rightarrow> check" where
  "checked e obj = (case e of Some err \<Rightarrow> Inl err | None \<Rightarrow> Inr obj)"

definition deployment_opts :: store_opts where
  "deployment_opts = store_opts_of True ''deployments'' ''deployment.apps'' ''apps/v1'' ''Deployment''"

definition rolling_defaults :: "json \<Rightarrow> json" where
  "rolling_defaults strategy =
     (if field ''type'' strategy = JStr ''RollingUpdate''
      then in_field ''rollingUpdate'' (default_field ''maxSurge'' (JStr ''25%'') \<circ> default_field ''maxUnavailable'' (JStr ''25%''))
        (default_field ''rollingUpdate'' (JObj []) strategy)
      else strategy)"

definition spec_defaults :: "json \<Rightarrow> json" where
  "spec_defaults sp =
     (let sp = default_field ''replicas'' (JNum 1) sp;
          sp = default_field ''strategy'' (JObj []) sp;
          sp = in_field ''strategy'' (rolling_defaults \<circ> default_field ''type'' (JStr ''RollingUpdate'')) sp;
          sp = default_field ''revisionHistoryLimit'' (JNum 10) sp
      in default_field ''progressDeadlineSeconds'' (JNum 600) sp)"

definition defaultDeployment :: "json \<Rightarrow> json" where
  "defaultDeployment obj =
     (let obj = default_field ''spec'' (JObj [(''selector'', JObj []), (''template'', JObj [])]) obj
      in default_field ''status'' (JObj []) (in_field ''spec'' spec_defaults obj))"

definition validateDeployment :: "(string \<Rightarrow> string \<Rightarrow> int) \<Rightarrow> json \<Rightarrow> store_error option" where
  "validateDeployment lc obj =
     (case validateWorkload lc ''Deployment.apps'' obj of
        Some err \<Rightarrow> Some err
      | None \<Rightarrow>
          let deadline = field ''progressDeadlineSeconds'' (spec obj) in
          if deadline \<noteq> JUndef \<and> num_or 0 deadline \<le> num_or 0 (field ''minReadySeconds'' (spec obj)) then
            Some (workload_invalid ''Deployment.apps'' obj (''spec.progressDeadlineSeconds: Invalid value: '' @ str_of deadline @
              '': must be greater than minReadySeconds''))
          else None)"

definition or_check :: "store_error option \<Rightarrow> store_error option \<Rightarrow> store_error option" where
  "or_check e e' = (case e of Some err \<Rightarrow> Some err | None \<Rightarrow> e')"

definition deployment_prepareUpdate :: "json \<Rightarrow> check" where
  "deployment_prepareUpdate existing obj = Inr (default_field ''status'' (field ''status'' existing) (defaultDeployment obj))"

definition deployment_hooks :: "(string \<Rightarrow> string \<Rightarrow> int) \<Rightarrow> 's hooks" where
  "deployment_hooks lc = pure_hooks (\<lambda>obj. Inr (defaultDeployment obj)) deployment_prepareUpdate
     (\<lambda>obj. checked (validateDeployment lc obj) obj)
     (\<lambda>existing obj. checked (or_check (validateDeployment lc obj) (immutable_selector ''Deployment.apps'' existing obj)) obj)"

definition replicaSet_opts :: store_opts where
  "replicaSet_opts = store_opts_of True ''replicasets'' ''replicaset.apps'' ''apps/v1'' ''ReplicaSet''"

definition replicaSet_defaults :: "json \<Rightarrow> json \<Rightarrow> json \<Rightarrow> json \<Rightarrow> json" where
  "replicaSet_defaults sel replicas status obj =
     (let obj = default_field ''spec'' (JObj [(''selector'', sel)]) obj;
          obj = in_field ''spec'' (default_field ''replicas'' replicas) obj;
          obj = default_field ''status'' status obj
      in in_field ''status'' (default_field ''replicas'' (JNum 0)) obj)"

definition replicaSet_prepareCreate :: check where
  "replicaSet_prepareCreate obj = Inr (replicaSet_defaults (JObj []) (JNum 1) (JObj [(''replicas'', JNum 0)]) obj)"

definition replicaSet_prepareUpdate :: "json \<Rightarrow> check" where
  "replicaSet_prepareUpdate existing obj =
     Inr (replicaSet_defaults (or_else (field ''selector'' (spec existing)) (JObj [])) (or_else (field ''replicas'' (spec existing)) (JNum 1))
       (or_else (field ''status'' existing) (JObj [(''replicas'', JNum 0)])) obj)"

definition replicaSet_hooks :: "(string \<Rightarrow> string \<Rightarrow> int) \<Rightarrow> 's hooks" where
  "replicaSet_hooks lc = pure_hooks replicaSet_prepareCreate replicaSet_prepareUpdate
     (\<lambda>obj. checked (validateWorkload lc ''ReplicaSet.apps'' obj) obj)
     (\<lambda>existing obj. checked (or_check (validateWorkload lc ''ReplicaSet.apps'' obj) (immutable_selector ''ReplicaSet.apps'' existing obj)) obj)"

section \<open>Watching\<close>

datatype api_event_type = Added | Modified | Removed

definition api_event :: "watch_event \<Rightarrow> store_error + api_event_type \<times> json" where
  "api_event e =
     map_sum id (\<lambda>obj. (case we_type e of PutEvent \<Rightarrow> if we_prev_kv e \<noteq> None then Modified else Added | DeleteEvent \<Rightarrow> Removed,
         withResourceVersion (kv_mod_revision (we_kv e)) obj))
       (parse_bytes (kv_value (we_kv e)))"

end
