(* ===== verification/StoresLaws.thy ===== *)
theory StoresLaws
  imports Stores
begin

text \<open>
  Properties of the concrete stores: a pod that is bound to a node stays there whatever is done through the pod
  store, every store that only checks its objects gives back what was created, and the defaults of deployments.
\<close>

section \<open>Keeping a predicate\<close>

abbreviation keep :: "('s \<Rightarrow> bool) \<Rightarrow> 's \<Rightarrow> 's \<Rightarrow> bool" where
  "keep I \<equiv> \<lambda>s s'. I s \<longrightarrow> I s'"

interpretation keeps: motion "keep I" for I
  by unfold_locales auto

section \<open>Objects and their images\<close>

lemma map_of_filter_defined: "jm_ok fs \<Longrightarrow> map_of (filter (\<lambda>(k, v). v \<noteq> JUndef) fs) k = (if map_of fs k = Some JUndef then None else map_of fs k)"
proof (induction fs)
  case (Cons f fs)
  obtain k' v where f: "f = (k', v)" by (cases f)
  then have "k' \<notin> fst ` set fs" using Cons.prems by simp
  then have "map_of fs k' = None" by (simp add: map_of_eq_None_iff)
  then show ?case using Cons by (auto simp: f)
qed simp

lemma map_of_images: "map_of (map (\<lambda>(k, v). (k, json_image v)) fs) k = map_option json_image (map_of fs k)"
  by (induction fs) auto

lemma field_image: "json_ok v \<Longrightarrow> field k (json_image v) = (if field k v = JUndef then JUndef else json_image (field k v))"
  by (cases v) (auto simp: field_def map_of_images map_of_filter_defined split: option.split)

lemma spec_versioned [simp]: "k \<noteq> ''metadata'' \<Longrightarrow> field k (withResourceVersion rv obj) = field k obj"
  by (simp add: withResourceVersion_def in_field_def)

section \<open>Pods stay where they are\<close>

text \<open>The pod at the key, if there is one, is bound to the node.\<close>

definition node_name :: "json \<Rightarrow> json" where
  "node_name pod = field ''nodeName'' (spec pod)"

definition bound_value :: "string \<Rightarrow> stored_value \<Rightarrow> bool" where
  "bound_value n v \<longleftrightarrow> (\<exists>pod. parse_bytes (sv_value v) = Inr pod \<and> node_name pod = JStr n)"

definition pod_bound :: "('s \<Rightarrow> bool) \<Rightarrow> ('s \<Rightarrow> utf16 \<Rightarrow> stored_value option) \<Rightarrow> utf16 \<Rightarrow> string \<Rightarrow> 's \<Rightarrow> bool" where
  "pod_bound ok stored k n s \<longleftrightarrow> ok s \<and> (\<forall>v. stored s k = Some v \<longrightarrow> bound_value n v)"

lemma written_bound: "json_ok pod \<Longrightarrow> node_name pod = JStr n \<Longrightarrow> sv_value v = text_bytes (stringify pod) \<Longrightarrow> bound_value n v"
proof -
  assume pod: "json_ok pod" "node_name pod = JStr n" "sv_value v = text_bytes (stringify pod)"
  have "field ''nodeName'' (spec pod) = JStr n" using pod(2) by (simp add: node_name_def)
  moreover from this have "spec pod \<noteq> JUndef" by (auto simp: field_def)
  ultimately have "node_name (json_image pod) = JStr n" using pod(1) by (simp add: node_name_def field_image json_ok_field)
  then show ?thesis using json_roundtrip [OF pod(1)] pod(3) by (simp add: bound_value_def parse_bytes_def)
qed

lemma validated_node:
  assumes "pod_validateUpdate existing pod = Inr pod'" "json_ok pod"
  shows "node_name pod' = node_name existing \<and> (json_ok (node_name existing) \<longrightarrow> json_ok pod')"
proof -
  have created: "json_ok p'" if "pod_validateCreate p = Inr p'" "json_ok p" for p p'
    using that by (auto simp: pod_validateCreate_def Let_def in_field_def json_oks split: if_splits)
  obtain p where p: "pod_validateCreate pod = Inr p" "json_ok p"
    using assms(1,2) created by (cases "pod_validateCreate pod") (auto simp: pod_validateUpdate_def)
  then show ?thesis
    using assms(1) by (auto simp: pod_validateUpdate_def node_name_def Let_def in_field_def json_oks split: if_splits)
qed

lemma node_placed: "node_name (placed o' (defaultTypeMeta o' input)) = node_name input"
  by (simp add: node_name_def placed_def default_namespace_def set_meta_def in_field_def defaultTypeMeta_def)

context keyed_store
begin

lemma bound_read:
  assumes "pod_bound ok stored k n s" "readStored ops o' name namespace s = (Inr (Some (pod, rv)), s')" "store_key o' name namespace = k"
  shows "node_name pod = JStr n"
proof -
  obtain v old where "stored s k = Some v" "parse_bytes (sv_value v) = Inr old" "pod = withResourceVersion rv old"
    using readStored_spec [OF _ assms(2)] assms(1,3) by (auto simp: pod_bound_def)
  then show ?thesis using assms(1) by (auto simp: pod_bound_def bound_value_def node_name_def)
qed

lemma keep_read:
  assumes "op_moves (keep (pod_bound ok stored k n)) (f None)"
    and "\<And>pod rv. 0 < revision_number rv \<Longrightarrow> (store_key o' name namespace = k \<Longrightarrow> node_name pod = JStr n) \<Longrightarrow>
      op_moves (keep (pod_bound ok stored k n)) (f (Some (pod, rv)))"
  shows "op_moves (keep (pod_bound ok stored k n)) (bind_op (looping (readStored ops o' name namespace)) f)"
  unfolding op_moves_def
proof (intro allI impI)
  fix s assume I: "pod_bound ok stored k n s"
  obtain r where run: "readStored ops o' name namespace s = (r, s)" using readStored_pure by (metis prod.collapse)
  show "pod_bound ok stored k n (snd (bind_op (looping (readStored ops o' name namespace)) f s))"
  proof (cases r)
    case (Inl err)
    then show ?thesis using I by (simp add: bind_op_def looping_def run)
  next
    case (Inr x)
    have "op_moves (keep (pod_bound ok stored k n)) (f x)"
    proof (cases x)
      case (Some y)
      obtain pod rv where y: "x = Some (pod, rv)" using Some by (cases y) simp
      then have read: "readStored ops o' name namespace s = (Inr (Some (pod, rv)), s)" using run Inr by simp
      have "ok s" using I by (simp add: pod_bound_def)
      then have "0 < revision_number rv" using readStored_spec [OF _ read] by auto
      then show ?thesis using assms(2) bound_read [OF I read] y by blast
    qed (use assms(1) in simp)
    then show ?thesis using I Inr by (simp add: bind_op_def looping_def run op_moves_def)
  qed
qed

lemma keep_commit:
  assumes "k' \<noteq> []" "case g of Absent \<Rightarrow> True | AtRevision i \<Rightarrow> 0 < i"
    and "a = RemoveKey \<or> (\<exists>pod. a = put_json pod \<and> (k' = k \<longrightarrow> json_ok pod \<and> node_name pod = JStr n))"
  shows "op_moves (keep (pod_bound ok stored k n)) (commit ops k' g a)"
  unfolding op_moves_def
proof (intro allI impI)
  fix s assume I: "pod_bound ok stored k n s"
  then have "ok s" by (simp add: pod_bound_def)
  then obtain r s' x where run: "kv_txn ops (guarded k' g a) s = (Inr r, s')" and s': "ok s'"
      "if guard_met g (stored s k') then stored s' = (stored s)(k' := x) \<and> acted (revision s') a x \<and> revision s < revision s'
       else stored s' = stored s \<and> revision s' = revision s"
    using txn_law [OF _ assms(1,2), of s a] by blast
  have "bound_value n v" if "stored s' k = Some v" for v
  proof (cases "guard_met g (stored s k') \<and> k' = k")
    case False
    then have "stored s' k = stored s k" using s'(2) by (auto split: if_splits)
    then show ?thesis using that I by (simp add: pod_bound_def)
  next
    case True
    then have "acted (revision s') a (Some v)" using s'(2) that by (metis fun_upd_same)
    then obtain pod where "a = put_json pod" "json_ok pod" "node_name pod = JStr n" "sv_value v = text_bytes (stringify pod)"
      using assms(3) True by (auto simp: acted_def put_json_def written_def)
    then show ?thesis by (rule_tac written_bound)
  qed
  then show "pod_bound ok stored k n (snd (commit ops k' g a s))" using run s'(1) by (simp add: commit_def pod_bound_def)
qed

lemma keep_delete:
  assumes "env_moves (keep (pod_bound ok stored k n)) env"
  shows "op_moves (keep (pod_bound ok stored k n)) (store_delete ops o' pod_hooks env name namespace)"
proof -
  have "op_moves (keep (pod_bound ok stored k n)) (delete_loop ops o' pod_hooks env name namespace i m)" for i m
  proof (induction m arbitrary: i)
    case 0
    then show ?case by (simp add: op_moves_def)
  next
    case (Suc m)
    have hooks: "prepareDelete pod_hooks pod = return_op ()" "afterDelete pod_hooks pod = return_op ()" for pod
      by (simp_all add: pod_hooks_def pure_hooks_def)
    show ?case unfolding delete_loop.simps(2) [abs_def] hooks
      by (rule keep_read) (auto intro!: keeps.moves_bind keeps.moves_pure keeps.moves_looping keeps.moves_pause keeps.moves_if
        keep_commit assms Suc split: prod.split)
  qed
  then show ?thesis by (simp add: store_delete_def)
qed

lemma keep_update:
  assumes "env_moves (keep (pod_bound ok stored k n)) env" "json_ok input"
    and "skipping \<Longrightarrow> node_name input = JStr n"
  shows "op_moves (keep (pod_bound ok stored k n)) (store_update ops pod_opts pod_hooks env name skipping input)"
proof -
  let ?keep = "keep (pod_bound ok stored k n)"
  let ?obj = "placed pod_opts (defaultTypeMeta pod_opts input)"
  have obj: "json_ok ?obj" using assms(2) by (intro json_ok_placed json_ok_typeMeta)
  have written: "op_moves ?keep (write_changed ops pod_opts pod_hooks env skipping k' name existing rv ?obj)"
    if "0 < revision_number rv" "k' \<noteq> []" "k' = k \<Longrightarrow> node_name existing = JStr n" for k' existing rv
  proof (cases skipping)
    case True
    then have "node_name ?obj = JStr n" using assms(3) by (simp add: node_placed)
    then show ?thesis using True obj
      unfolding write_changed_def if_P [OF True] bind_return
      by (intro keeps.moves_bind keeps.moves_pause keeps.moves_if keeps.moves_pure keep_commit assms(1)) (use that in auto)
  next
    case False
    show ?thesis
      unfolding write_changed_def pod_hooks_def pure_hooks_def hooks.simps if_not_P [OF False]
      by (intro keeps.moves_bind keeps.moves_lift keeps.moves_pause keeps.moves_if keeps.moves_pure keep_commit assms(1))
        (use that validated_node [OF _ obj] in auto)
  qed
  have updated: "op_moves ?keep (update_object ops pod_opts pod_hooks env name skipping ?obj existing rv)"
    if "0 < revision_number rv" "store_key pod_opts name (object_namespace ?obj) = k \<Longrightarrow> node_name existing = JStr n" for existing rv
  proof -
    have begun: "beginUpdate pod_hooks ?obj existing = return_op (?obj, finishNothing)"
      by (simp add: pod_hooks_def pure_hooks_def prepared_def)
    show ?thesis unfolding update_object_def begun bind_return prod.case finish_nothing
      by (intro keeps.moves_bind keeps.moves_pause keeps.moves_pure assms(1) written) (use that in auto)
  qed
  have finished: "op_moves ?keep (if finalizedPendingDeletion obj
      then bind_op (store_delete ops pod_opts pod_hooks env nm ns) (\<lambda>_. return_op ()) else return_op ())" for obj nm ns
    by (intro keeps.moves_if keeps.moves_bind keeps.moves_pure keep_delete assms(1))
  note rules = keeps.moves_bind keeps.moves_pause [OF assms(1)] keeps.moves_if keeps.moves_pure keeps.moves_looping
  show ?thesis
    unfolding store_update_def Let_def
    by (rule keeps.moves_if, rule keeps.moves_pure, rule keeps.moves_bind, rule keeps.moves_looping, rule keeps.moves_pure,
        rule keeps.moves_if, rule keeps.moves_pure, rule keep_read)
      (auto intro!: rules updated finished split: prod.split)
qed

lemma keep_bind:
  assumes "env_moves (keep (pod_bound ok stored k n)) env" "store_key pod_opts name (Some namespace) = k" "n \<noteq> []"
  shows "op_moves (keep (pod_bound ok stored k n)) (pod_bind ops env name namespace binding)"
  unfolding op_moves_def
proof (intro allI impI)
  fix s assume I: "pod_bound ok stored k n s"
  obtain r where run: "readStored ops pod_opts name (Some namespace) s = (r, s)" using readStored_pure by (metis prod.collapse)
  show "pod_bound ok stored k n (snd (pod_bind ops env name namespace binding s))"
  proof (cases r)
    case (Inl err)
    then show ?thesis using I by (simp add: pod_bind_def bind_op_def looping_def store_get_def run)
  next
    case (Inr x)
    have rest: "pod_bound ok stored k n (se_others env NamespaceRead s)" using assms(1) I by (simp add: env_moves_def)
    show ?thesis
    proof (cases x)
      case None
      then show ?thesis using rest Inr by (simp add: pod_bind_def bind_op_def looping_def store_get_def run return_op_def pause_def throw_op_def)
    next
      case (Some y)
      obtain pod rv where y: "x = Some (pod, rv)" using Some by (cases y) simp
      then have "node_name pod = JStr n" using bound_read [OF I _ assms(2)] run Inr by simp
      then have "truthy (field ''nodeName'' (spec pod))" using assms(3) by (simp add: node_name_def truthy_text)
      then show ?thesis using rest Inr y
        by (simp add: pod_bind_def bind_op_def looping_def store_get_def run return_op_def pause_def throw_op_def Let_def)
    qed
  qed
qed

end

context etcd_keys
begin

lemmas etcd_keep_update = client.keep_update
lemmas etcd_keep_delete = client.keep_delete
lemmas etcd_keep_bind = client.keep_bind

end

abbreviation etcd_bound :: "order \<Rightarrow> utf16 \<Rightarrow> string \<Rightarrow> fake_state \<Rightarrow> bool" where
  "etcd_bound lc \<equiv> pod_bound (etcd_ok lc) (stored_at lc)"

text \<open>
  C7. A pod stays on its node. Once the pod stored at a key is bound to a node, no update through the pod store that
  is validated, no deletion and no binding of it changes the node, as long as what others do at the awaits of the
  call does not either: whatever is stored at the key afterwards is bound to the same node. An update that is
  told to skip the validation, which alone looks at the node, keeps it if the object it brings names the same
  node. The object is JSON, and the node has a name.
\<close>
theorem pod_stays_bound:
  assumes "etcd_keys lc" "env_moves (keep (etcd_bound lc k n)) env" "json_ok input" "n \<noteq> []" "etcd_bound lc k n s"
    and "skipValidateUpdate \<Longrightarrow> node_name input = JStr n"
  shows "etcd_bound lc k n (snd (store_update (etcd_ops lc) pod_opts pod_hooks env name skipValidateUpdate input s)) \<and>
    etcd_bound lc k n (snd (store_delete (etcd_ops lc) pod_opts pod_hooks env name namespace s)) \<and>
    (store_key pod_opts name (Some ns) = k \<longrightarrow> etcd_bound lc k n (snd (pod_bind (etcd_ops lc) env name ns binding s)))"
proof (intro conjI impI)
  show "etcd_bound lc k n (snd (store_update (etcd_ops lc) pod_opts pod_hooks env name skipValidateUpdate input s))"
    using etcd_keys.etcd_keep_update [OF assms(1-3,6), where name = name] assms(5) by (simp add: op_moves_def)
  show "etcd_bound lc k n (snd (store_delete (etcd_ops lc) pod_opts pod_hooks env name namespace s))"
    using etcd_keys.etcd_keep_delete [OF assms(1,2), of pod_opts name namespace] assms(5) by (simp add: op_moves_def)
  assume "store_key pod_opts name (Some ns) = k"
  then show "etcd_bound lc k n (snd (pod_bind (etcd_ops lc) env name ns binding s))"
    using etcd_keys.etcd_keep_bind [OF assms(1,2) _ assms(4), of name ns binding] assms(5) by (simp add: op_moves_def)
qed

definition bound_pod :: fake_state where
  "bound_pod = snd (put_exec order_cmp (store_key pod_opts ''p'' None)
     (text_bytes (stringify (JObj [(''spec'', JObj [(''nodeName'', JStr ''n'')])]))) (new_fake_state None))"

definition moved_pod :: json where
  "moved_pod = JObj [(''metadata'', JObj [(''name'', JStr ''p'')]), (''spec'', JObj [(''nodeName'', JStr ''m'')])]"

lemma pod_stays_bound_witness:
  "etcd_bound order_cmp (store_key pod_opts ''p'' None) ''n'' bound_pod \<and>
    etcd_bound order_cmp (store_key pod_opts ''p'' None) ''n''
      (snd (store_update (etcd_ops order_cmp) pod_opts pod_hooks idle ''p'' False moved_pod bound_pod))"
proof -
  let ?pod = "JObj [(''spec'', JObj [(''nodeName'', JStr ''n'')])]"
  obtain r s' x where put: "put_exec order_cmp (store_key pod_opts ''p'' None) (text_bytes (stringify ?pod)) (new_fake_state None) = (Inr r, s')"
    "etcd_ok order_cmp s'" "stored_at order_cmp s' = (stored_at order_cmp (new_fake_state None))(store_key pod_opts ''p'' None := x)"
    "written (es_revision s') (text_bytes (stringify ?pod)) x"
    using code_units.etcd_put_law [OF new_state_ok code_units.client.key_not_Nil] by blast
  have "node_name ?pod = JStr ''n''" "json_ok ?pod" by (simp_all add: node_name_def field_def)
  then have "bound_value ''n'' v" if "sv_value v = text_bytes (stringify ?pod)" for v using written_bound that by blast
  moreover have "bound_pod = s'" unfolding bound_pod_def put(1) by simp
  ultimately have bound: "etcd_bound order_cmp (store_key pod_opts ''p'' None) ''n'' bound_pod"
    using put by (auto simp: pod_bound_def written_def)
  have env: "env_moves (keep (etcd_bound order_cmp (store_key pod_opts ''p'' None) ''n'')) idle" by (simp add: env_moves_def idle_def)
  have "json_ok moved_pod" "''n'' \<noteq> []" by (simp_all add: moved_pod_def)
  from pod_stays_bound [OF code_units.etcd_keys_axioms env this bound, where skipValidateUpdate = False] show ?thesis using bound by blast
qed

section \<open>The checks keep names\<close>

lemma json_ok_in_field: "json_ok v \<Longrightarrow> json_ok (f (field k v)) \<Longrightarrow> json_ok (in_field k f v)"
  by (simp add: in_field_def json_ok_set)

lemma meta_in_field [simp]: "k \<noteq> ''metadata'' \<Longrightarrow> field ''metadata'' (in_field k f v) = field ''metadata'' v"
  by (simp add: in_field_def)

lemma keeps_pod: "keeps_names pod_validateCreate"
  by (auto simp: keeps_names_def pod_validateCreate_def Let_def json_ok_in_field json_oks split: if_splits)

lemma keeps_required: "keeps_names rest \<Longrightarrow> keeps_names (\<lambda>obj. required (p obj) msg rest obj)"
  by (auto simp: keeps_names_def required_def split: if_splits)

lemma keeps_Inr: "keeps_names Inr"
  by (simp add: keeps_names_def)

lemma keeps_simple: "keeps_names node_validateCreate" "keeps_names event_validateCreate" "keeps_names endpointSlice_validateCreate"
    "keeps_names namespace_validateCreate"
  unfolding node_validateCreate_def [abs_def] event_validateCreate_def [abs_def] endpointSlice_validateCreate_def [abs_def]
  by (auto simp: keeps_names_def required_def namespace_validateCreate_def split: if_splits option.splits)

lemma json_ok_atoms: "json_ok (JStr s)" "json_ok (JNum n)" "json_ok (JBool b)" "json_ok (JObj [])" "json_ok (JArr [])"
  by simp_all

lemma keeps_namespace: "keeps_names namespace_prepareCreate"
  by (auto simp: keeps_names_def namespace_prepareCreate_def Let_def intro!: json_ok_in_field json_oks)

text \<open>The defaults of a deployment.\<close>

lemma json_ok_rolling: "json_ok v \<Longrightarrow> json_ok (rolling_defaults v)"
  unfolding rolling_defaults_def comp_def by (auto intro!: json_ok_in_field json_oks)

lemma json_ok_spec_defaults: "json_ok v \<Longrightarrow> json_ok (spec_defaults v)"
  unfolding spec_defaults_def Let_def comp_def by (auto intro!: json_ok_in_field json_oks json_ok_rolling)

lemma json_ok_deployment: "json_ok v \<Longrightarrow> json_ok (defaultDeployment v)"
  unfolding defaultDeployment_def Let_def by (auto intro!: json_ok_in_field json_oks json_ok_spec_defaults)

lemma meta_deployment [simp]: "field ''metadata'' (defaultDeployment v) = field ''metadata'' v"
  by (simp add: defaultDeployment_def Let_def)

lemma keeps_deployment: "keeps_names (\<lambda>obj. Inr (defaultDeployment obj))" "keeps_names (\<lambda>obj. checked (e obj) obj)"
  by (auto simp: keeps_names_def checked_def json_ok_deployment split: option.splits)

lemma keeps_replicaSet: "keeps_names replicaSet_prepareCreate"
  by (auto simp: keeps_names_def replicaSet_prepareCreate_def replicaSet_defaults_def Let_def intro!: json_ok_in_field json_oks)

text \<open>
  An update of a deployment that brings no status erases the stored one: the defaults put an empty status before the
  existing one is looked at.
\<close>

definition is_obj :: "json \<Rightarrow> bool" where
  "is_obj v \<longleftrightarrow> (\<exists>fs. v = JObj fs)"

lemma is_obj_simps [simp]: "is_obj (JObj fs)" "is_obj (set_field k x v) = is_obj v" "is_obj (default_field k x v) = is_obj v"
    "is_obj (in_field k f v) = is_obj v"
  by (auto simp: is_obj_def set_field_def default_field_def in_field_def split: json.splits)

lemma field_default_same: "is_obj v \<Longrightarrow> field k (default_field k x v) = or_else (field k v) x"
  by (auto simp: default_field_def or_else_def is_obj_def)

lemma default_kept: "\<not> nullish (field k v) \<Longrightarrow> default_field k x v = v"
  by (simp add: default_field_def)

lemma field_in_same: "is_obj v \<Longrightarrow> field k (in_field k f v) = f (field k v)"
  by (auto simp: in_field_def is_obj_def)

lemma field_in_other [simp]: "k \<noteq> k' \<Longrightarrow> field k (in_field k' f v) = field k v"
  by (simp add: in_field_def)

lemma deployment_status_erased:
  assumes "nullish (field ''status'' obj)" "is_obj obj"
  shows "\<exists>obj'. deployment_prepareUpdate existing obj = Inr obj' \<and> field ''status'' obj' = JObj []"
  using assms by (simp add: deployment_prepareUpdate_def defaultDeployment_def Let_def field_default_same or_else_def nullish_def)

lemma replicaSet_status_kept:
  assumes "nullish (field ''status'' obj)" "is_obj obj" "is_obj (field ''status'' existing)"
    "\<not> nullish (field ''replicas'' (field ''status'' existing))"
  shows "\<exists>obj'. replicaSet_prepareUpdate existing obj = Inr obj' \<and> field ''status'' obj' = field ''status'' existing"
proof -
  have "\<not> nullish (field ''status'' existing)" using assms(3) by (auto simp: is_obj_def nullish_def)
  then show ?thesis
    using assms by (simp add: replicaSet_prepareUpdate_def replicaSet_defaults_def Let_def field_default_same field_in_same or_else_def default_kept)
qed

end
