(* ===== verification/ServiceStore.thy ===== *)
theory ServiceStore
  imports StoresLaws
begin

text \<open>
  \<open>src/cluster/storage/service.ts\<close>: services with the cluster IPs and node ports they hold in two allocatable ranges.
  What a create or an update allocates is given back when it fails, what an update drops and what a deleted service
  held is released.
\<close>

section \<open>Services\<close>

definition service_opts :: store_opts where
  "service_opts = store_opts_of True ''services'' ''service'' ''v1'' ''Service''"

definition serviceType :: "json \<Rightarrow> json" where
  "serviceType service = or_else (field ''type'' (spec service)) (JStr ''ClusterIP'')"

definition requiresClusterIP :: "json \<Rightarrow> bool" where
  "requiresClusterIP service \<longleftrightarrow> serviceType service \<in> {JStr ''ClusterIP'', JStr ''NodePort'', JStr ''LoadBalancer''}"

definition requiresNodePorts :: "json \<Rightarrow> bool" where
  "requiresNodePorts service \<longleftrightarrow> serviceType service \<in> {JStr ''NodePort'', JStr ''LoadBalancer''}"

definition specFor :: "json \<Rightarrow> json" where
  "specFor service = default_field ''spec'' (JObj []) service"

definition portIdentity :: "json \<Rightarrow> nat \<Rightarrow> string" where
  "portIdentity port i = str_of (or_else (field ''name'' port) (JStr [])) @ ''|'' @ str_of (field ''port'' port) @ ''|'' @
     str_of (or_else (field ''protocol'' port) (JStr ''TCP'')) @ ''|'' @ show_nat i"

text \<open>\<open>encodeURIComponent\<close>\<close>

definition upper_hex :: "nat \<Rightarrow> char" where
  "upper_hex d = (if d < 10 then char_of (48 + d) else char_of (55 + d))"

definition uri_char :: "char \<Rightarrow> string" where
  "uri_char c =
     (if (CHR ''A'' \<le> c \<and> c \<le> CHR ''Z'') \<or> (CHR ''a'' \<le> c \<and> c \<le> CHR ''z'') \<or> is_digit c \<or> c \<in> set ''-_.!~*()'' \<union> {CHR 0x27} then [c]
      else concat (map (\<lambda>b. [CHR ''%'', upper_hex (b div 16), upper_hex (b mod 16)]) (text_bytes [c])))"

definition clusterIPRangeName :: "string \<Rightarrow> string" where
  "clusterIPRangeName serviceCIDR = ''serviceallocations/clusterips/'' @ concat (map uri_char serviceCIDR)"

definition nodePortRangeName :: string where
  "nodePortRangeName = ''serviceallocations/nodeports''"

section \<open>The store\<close>

text \<open>The fields of a \<open>ServiceStore\<close>, with the environment in which it takes the locks of the ranges.\<close>

record 's service_store =
  ss_ops :: "'s kv_ops"
  ss_lock :: "'s lock_env"
  ss_ips :: ip_range
  ss_ports :: port_range
  ss_from :: int
  ss_to :: int

definition default_cidr :: "string option \<Rightarrow> string" where
  "default_cidr c = (case c of Some c \<Rightarrow> c | None \<Rightarrow> ''10.96.0.0/12'')"

definition service_initialize :: "'s kv_ops \<Rightarrow> string option \<Rightarrow> int \<Rightarrow> int \<Rightarrow> (unit, 's) op" where
  "service_initialize ops serviceCIDR from to =
     (let c = default_cidr serviceCIDR in
      bind_op (create_ips ops (clusterIPRangeName c) c) (\<lambda>_.
      bind_op (create_ports ops nodePortRangeName from to) (\<lambda>_. return_op ())))"

definition new_service_store :: "'s kv_ops \<Rightarrow> 's lock_env \<Rightarrow> string option \<Rightarrow> int \<Rightarrow> int \<Rightarrow> store_error + 's service_store" where
  "new_service_store ops env serviceCIDR from to =
     (let c = default_cidr serviceCIDR in
      map_sum id (\<lambda>ips. \<lparr>ss_ops = ops, ss_lock = env, ss_ips = ips, ss_ports = open_ports nodePortRangeName from to, ss_from = from, ss_to = to\<rparr>)
        (open_ips (clusterIPRangeName c) c))"

definition service_validateCreate :: check where
  "service_validateCreate service =
     required (truthy (field ''name'' (meta service))) ''Service name is required''
     (required (truthy (spec service)) ''Service spec is required'' Inr) service"

section \<open>What a service holds\<close>

type_synonym allocations = "string list \<times> int list"

definition ports_of :: "json \<Rightarrow> json list" where
  "ports_of service = elements (field ''ports'' (spec service))"

definition serviceClusterIPs :: "json option \<Rightarrow> string list" where
  "serviceClusterIPs service =
     (case service of
        None \<Rightarrow> []
      | Some service \<Rightarrow>
          (let ip = field ''clusterIP'' (spec service);
               first = (if truthy ip \<and> ip \<noteq> JStr ''None'' then [str_of ip] else [])
           in js_add_all (map str_of (filter (\<lambda>ip. ip \<noteq> JStr ''None'') (elements (field ''clusterIPs'' (spec service))))) first))"

definition serviceNodePorts :: "json option \<Rightarrow> int list" where
  "serviceNodePorts service =
     (case service of
        None \<Rightarrow> []
      | Some service \<Rightarrow> map (num_or 0) (filter (\<lambda>p. p \<noteq> JUndef) (map (field ''nodePort'') (ports_of service))))"

definition serviceAllocations :: "json option \<Rightarrow> allocations" where
  "serviceAllocations service = (serviceClusterIPs service, serviceNodePorts service)"

definition allocations_difference :: "allocations \<Rightarrow> allocations \<Rightarrow> allocations" where
  "allocations_difference l r = (filter (\<lambda>ip. ip \<notin> set (fst r)) (fst l), filter (\<lambda>p. p \<notin> set (snd r)) (snd l))"

definition combineAllocations :: "allocations \<Rightarrow> allocations \<Rightarrow> allocations" where
  "combineAllocations l r = (fst l @ fst r, snd l @ snd r)"

fun release_all :: "('a \<Rightarrow> (unit, 's) op) \<Rightarrow> 'a list \<Rightarrow> (unit, 's) op" where
  "release_all release [] = return_op ()"
| "release_all release (x # xs) = bind_op (release x) (\<lambda>_. release_all release xs)"

definition releaseAllocations :: "'s service_store \<Rightarrow> allocations \<Rightarrow> (unit, 's) op" where
  "releaseAllocations st a =
     bind_op (release_all (ip_release (ss_ops st) (ss_lock st) (ss_ips st)) (fst a)) (\<lambda>_.
     release_all (port_release (ss_ops st) (ss_lock st) (ss_ports st)) (snd a))"

section \<open>Allocating\<close>

text \<open>A test of the message of an error, and its replacement.\<close>

definition on_message :: "string \<Rightarrow> string \<Rightarrow> (store_error + 'a) \<times> 's \<Rightarrow> (store_error + 'a) \<times> 's" where
  "on_message part msg r = map_error (\<lambda>err. if js_includes (store_error_message err) part then plain msg else err) r"

definition validateClusterIP :: "'s service_store \<Rightarrow> string \<Rightarrow> store_error + unit" where
  "validateClusterIP st ip =
     (if \<not> ip_contains (ss_ips st) ip then Inl (plain (''clusterIP '' @ ip @ '' is outside the configured Service CIDR'')) else Inr ())"

definition validateNodePort :: "'s service_store \<Rightarrow> json \<Rightarrow> store_error + int" where
  "validateNodePort st port =
     (case port of
        JNum n \<Rightarrow> if n < ss_from st \<or> n > ss_to st then Inl (plain (''nodePort '' @ show_int n @ '' is outside the valid range'')) else Inr n
      | _ \<Rightarrow> Inl (plain (''nodePort '' @ str_of port @ '' is outside the valid range'')))"

definition nextClusterIP :: "'s service_store \<Rightarrow> (string, 's) op" where
  "nextClusterIP st s =
     on_message ''no free space'' ''No Service clusterIP addresses are available'' (ip_allocate (ss_ops st) (ss_lock st) (ss_ips st) s)"

definition nextNodePort :: "'s service_store \<Rightarrow> (int, 's) op" where
  "nextNodePort st s =
     on_message ''no free space'' ''No Service nodePorts are available'' (port_allocate (ss_ops st) (ss_lock st) (ss_ports st) s)"

definition claimClusterIP :: "'s service_store \<Rightarrow> string \<Rightarrow> json option \<Rightarrow> (unit, 's) op" where
  "claimClusterIP st ip existing s =
     (if ip \<in> set (serviceClusterIPs existing) then (Inr (), s)
      else on_message ''already allocated'' (''clusterIP '' @ ip @ '' is already allocated'')
        (ip_claim (ss_ops st) (ss_lock st) (ss_ips st) ip s))"

definition claimNodePort :: "'s service_store \<Rightarrow> int \<Rightarrow> json option \<Rightarrow> (unit, 's) op" where
  "claimNodePort st port existing s =
     (if port \<in> set (serviceNodePorts existing) then (Inr (), s)
      else on_message ''already allocated'' (''nodePort '' @ show_int port @ '' is already allocated'')
        (port_claim (ss_ops st) (ss_lock st) (ss_ports st) port s))"

definition set_spec :: "string \<Rightarrow> json \<Rightarrow> json \<Rightarrow> json" where
  "set_spec k x service = in_field ''spec'' (set_field k x) service"

definition allocateClusterIP :: "'s service_store \<Rightarrow> json \<Rightarrow> json option \<Rightarrow> (json \<times> allocations, 's) op" where
  "allocateClusterIP st service existing =
     (let service = specFor service; ip = field ''clusterIP'' (spec service) in
      if \<not> requiresClusterIP service then return_op (service, ([], []))
      else if ip = JStr ''None'' then
        throw_op (plain (''Headless Services with clusterIP '' @ in_quotes ''None'' @ '' are not supported yet''))
      else if truthy ip then
        bind_op (lift_op (validateClusterIP st (str_of ip))) (\<lambda>_.
        bind_op (claimClusterIP st (str_of ip) existing) (\<lambda>_.
        return_op (set_spec ''clusterIPs'' (JArr [ip]) service,
          (if str_of ip \<in> set (serviceClusterIPs existing) then [] else [str_of ip], []))))
      else
        bind_op (nextClusterIP st) (\<lambda>ip.
        return_op (set_spec ''clusterIPs'' (JArr [JStr ip]) (set_spec ''clusterIP'' (JStr ip) service), ([ip], []))))"

text \<open>The loop over the ports: what is done, what is allocated so far; an error comes with what was allocated.\<close>

fun port_loop :: "'s service_store \<Rightarrow> json option \<Rightarrow> json list \<Rightarrow> json list \<Rightarrow> int list \<Rightarrow> 's \<Rightarrow>
    ((store_error \<times> int list) + json list \<times> int list) \<times> 's" where
  "port_loop st existing [] finished allocated s = (Inr (finished, allocated), s)"
| "port_loop st existing (p # ps) finished allocated s =
     (if field ''nodePort'' p \<noteq> JUndef then
        (case validateNodePort st (field ''nodePort'' p) of
           Inl err \<Rightarrow> (Inl (err, allocated), s)
         | Inr n \<Rightarrow>
             (case claimNodePort st n existing s of
                (Inl err, s) \<Rightarrow> (Inl (err, allocated), s)
              | (Inr _, s) \<Rightarrow> port_loop st existing ps (finished @ [p])
                  (if n \<in> set (serviceNodePorts existing) then allocated else allocated @ [n]) s))
      else
        (case nextNodePort st s of
           (Inl err, s) \<Rightarrow> (Inl (err, allocated), s)
         | (Inr n, s) \<Rightarrow> port_loop st existing ps (finished @ [set_field ''nodePort'' (JNum n) p]) (allocated @ [n]) s))"

definition set_ports :: "json list \<Rightarrow> json \<Rightarrow> json" where
  "set_ports ps service = (case field ''ports'' (spec service) of JArr _ \<Rightarrow> set_spec ''ports'' (JArr ps) service | _ \<Rightarrow> service)"

text \<open>\<open>catch\<close> with a release of what was allocated, whose own error replaces the one caught.\<close>

definition give_back :: "'s service_store \<Rightarrow> allocations \<Rightarrow> store_error \<Rightarrow> ('a, 's) op" where
  "give_back st allocated err = bind_op (releaseAllocations st allocated) (\<lambda>_. throw_op err)"

definition allocateNodePorts :: "'s service_store \<Rightarrow> json \<Rightarrow> json option \<Rightarrow> (json \<times> allocations, 's) op" where
  "allocateNodePorts st service existing s =
     (let service = specFor service; ports = ports_of service in
      if \<not> requiresNodePorts service then
        (if list_ex (\<lambda>p. field ''nodePort'' p \<noteq> JUndef) ports
         then (Inl (plain ''nodePort may only be set for NodePort or LoadBalancer Services''), s)
         else (Inr (service, ([], [])), s))
      else case port_loop st existing ports [] [] s of
        (Inl (err, allocated), s) \<Rightarrow> give_back st ([], allocated) err s
      | (Inr (ports, allocated), s) \<Rightarrow> (Inr (set_ports ports service, ([], allocated)), s))"

definition allocate_both :: "'s service_store \<Rightarrow> json \<Rightarrow> json option \<Rightarrow> (json \<times> allocations, 's) op" where
  "allocate_both st service existing s =
     (case allocateClusterIP st service existing s of
        (Inl err, s) \<Rightarrow> give_back st ([], []) err s
      | (Inr (service, a), s) \<Rightarrow>
          (case allocateNodePorts st service existing s of
             (Inl err, s) \<Rightarrow> give_back st a err s
           | (Inr (service, b), s) \<Rightarrow> (Inr (service, combineAllocations a b), s)))"

section \<open>Hooks\<close>

definition map_ports :: "(nat \<Rightarrow> json \<Rightarrow> json) \<Rightarrow> json \<Rightarrow> json" where
  "map_ports f service = set_ports (map (\<lambda>(i, p). f i p) (List.enumerate 0 (ports_of service))) service"

definition defaultPort :: "json \<Rightarrow> json" where
  "defaultPort p = (let p = default_field ''protocol'' (JStr ''TCP'') p in default_field ''targetPort'' (field ''port'' p) p)"

definition defaultPorts :: "json \<Rightarrow> json" where
  "defaultPorts service = map_ports (\<lambda>i. defaultPort) service"

definition preserveClusterIP :: "json \<Rightarrow> json \<Rightarrow> json" where
  "preserveClusterIP service existing =
     (let service = specFor service in
      if \<not> requiresClusterIP service then set_spec ''clusterIPs'' JUndef (set_spec ''clusterIP'' JUndef service)
      else
        (let service = (if \<not> truthy (field ''clusterIP'' (spec service)) \<and> truthy (field ''clusterIP'' (spec existing))
             then set_spec ''clusterIP'' (field ''clusterIP'' (spec existing)) service else service)
         in if \<not> truthy (field ''clusterIPs'' (spec service)) \<and> truthy (field ''clusterIPs'' (spec existing))
            then set_spec ''clusterIPs'' (field ''clusterIPs'' (spec existing)) service else service))"

definition old_port :: "json list \<Rightarrow> nat \<Rightarrow> json \<Rightarrow> json option" where
  "old_port oldPorts i port =
     (case jm_get (jm_of (map (\<lambda>(i, p). (portIdentity p i, p)) (List.enumerate 0 oldPorts))) (portIdentity port i) of
        Some p \<Rightarrow> Some p
      | None \<Rightarrow> if i < length oldPorts then Some (oldPorts ! i) else None)"

definition preservePort :: "json list \<Rightarrow> nat \<Rightarrow> json \<Rightarrow> json" where
  "preservePort oldPorts i port =
     (if truthy (field ''nodePort'' port) then port
      else case old_port oldPorts i port of
        None \<Rightarrow> port
      | Some old \<Rightarrow> if truthy (field ''nodePort'' old) then set_field ''nodePort'' (field ''nodePort'' old) port else port)"

definition preserveNodePorts :: "json \<Rightarrow> json \<Rightarrow> json" where
  "preserveNodePorts service existing =
     (let service = specFor service in
      if \<not> requiresNodePorts service then map_ports (\<lambda>i. set_field ''nodePort'' JUndef) service
      else map_ports (preservePort (ports_of existing)) service)"

definition service_beginCreate :: "'s service_store \<Rightarrow> json \<Rightarrow> (json \<times> 's finish, 's) op" where
  "service_beginCreate st service =
     (let service = defaultPorts (in_field ''spec'' (default_field ''type'' (JStr ''ClusterIP'')) (specFor service)) in
      bind_op (allocate_both st service None) (\<lambda>(service, allocated).
      return_op (service, \<lambda>success. if success then return_op () else releaseAllocations st allocated)))"

definition service_beginUpdate :: "'s service_store \<Rightarrow> json \<Rightarrow> json \<Rightarrow> (json \<times> 's finish, 's) op" where
  "service_beginUpdate st service existing =
     (let previous = serviceAllocations (Some existing);
          service = in_field ''spec'' (default_field ''type'' (or_else (field ''type'' (spec existing)) (JStr ''ClusterIP''))) (specFor service);
          service = preserveNodePorts (preserveClusterIP (defaultPorts service) existing) existing in
      bind_op (allocate_both st service (Some existing)) (\<lambda>(service, allocated).
      let released = allocations_difference previous (serviceAllocations (Some service)) in
      return_op (service, \<lambda>success. releaseAllocations st (if success then released else allocated))))"

definition service_hooks :: "'s service_store \<Rightarrow> 's hooks" where
  "service_hooks st =
     \<lparr>validateCreate = (\<lambda>obj. lift_op (service_validateCreate obj)), validateUpdate = (\<lambda>obj existing. lift_op (service_validateCreate obj)),
      beginCreate = service_beginCreate st, beginUpdate = service_beginUpdate st,
      prepareDelete = (\<lambda>existing. return_op ()),
      afterDelete = (\<lambda>existing. releaseAllocations st (serviceAllocations (Some existing)))\<rparr>"

end
