(* ===== verification/ServiceLaws.thy ===== *)
theory ServiceLaws
  imports ServiceStore
begin

text \<open>
  The accounts of the service store: what a create or an update takes from the two ranges is exactly what the
  service holds afterwards, a failed one takes nothing, and a deleted service gives back what it held.
\<close>

section \<open>Addresses have a place in their range\<close>

definition octets :: "nat list \<Rightarrow> bool" where
  "octets ip \<longleftrightarrow> (\<forall>b \<in> set ip. b < 256)"

lemma octets_update: "octets ip \<Longrightarrow> b < 256 \<Longrightarrow> octets (ip[i := b])"
  unfolding octets_def using set_update_subset_insert [of ip i b] by blast

lemma octets_move: "octets ip \<Longrightarrow> octets (ip[j + n := ip ! j])"
proof (cases "j + n < length ip")
  case True
  assume "octets ip"
  then have "ip ! j < 256" using True by (simp add: octets_def)
  with \<open>octets ip\<close> show ?thesis by (rule octets_update)
qed (simp add: list_update_beyond)

lemma octets_fold: "(\<And>j ip. octets ip \<Longrightarrow> octets (f j ip)) \<Longrightarrow> octets ip \<Longrightarrow> octets (fold f js ip)"
  by (induction js arbitrary: ip) auto

lemma octets_expand: "octets ip \<Longrightarrow> octets (expand_ellipsis ip e i)"
  by (simp add: expand_ellipsis_def Let_def octets_fold octets_move octets_update)

lemma octet_bound: "octet s = Some n \<Longrightarrow> n < 256"
  by (simp add: octet_def Let_def split: if_splits)

lemma parse_four: "parseIPv4Sloppy s = Some ip \<Longrightarrow> \<exists>a b c d. ip = ipv4 a b c d \<and> a < 256 \<and> b < 256 \<and> c < 256 \<and> d < 256"
proof -
  assume run: "parseIPv4Sloppy s = Some ip"
  then obtain p q r t where parts: "js_split CHR ''.'' s = [p, q, r, t]"
    by (simp add: parseIPv4Sloppy_def split: list.split_asm)
  with run obtain a b c d where "octet p = Some a" "octet q = Some b" "octet r = Some c" "octet t = Some d" "ip = ipv4 a b c d"
    by (simp add: parseIPv4Sloppy_def split: option.splits)
  then show ?thesis using octet_bound by blast
qed

lemma octets_ipv4: "parseIPv4Sloppy s = Some ip \<Longrightarrow> octets ip \<and> (\<forall>k \<in> {12, 13, 14, 15}. ip ! k < 256)"
  using parse_four [of s ip] by (auto simp: ipv4_def octets_def nth_append)

lemma octets_loop: "ipv6_loop ip remaining e i = Some (ip', t, e', i') \<Longrightarrow> octets ip \<Longrightarrow> octets ip'"
proof (induction "16 - i" arbitrary: ip remaining e i rule: less_induct)
  case less
  obtain n c good where x: "xtoi remaining = (n, c, good)" by (cases "xtoi remaining")
  let ?ip = "ip[i := n div 256 mod 256, i + 1 := n mod 256]" and ?t = "drop c remaining"
  have written: "octets ?ip" using less.prems(2) by (simp add: octets_update)
  have run: "(if i < 16 then
        (if \<not> good \<or> n > 0xffff then None
         else if c < length remaining \<and> remaining ! c = CHR ''.'' then
           (if e = None \<and> i \<noteq> 12 then None
            else if i + 4 > 16 then None
            else case parseIPv4Sloppy remaining of
              None \<Rightarrow> None
            | Some ip4 \<Rightarrow>
                Some (ip[i := ip4 ! 12, i + 1 := ip4 ! 13, i + 2 := ip4 ! 14, i + 3 := ip4 ! 15], [], e, i + 4))
         else if ?t = [] then Some (?ip, ?t, e, i + 2)
           else if hd ?t \<noteq> CHR '':'' \<or> length ?t = 1 then None
           else if hd (tl ?t) = CHR '':'' then
               (if e \<noteq> None then None
                else if tl (tl ?t) = [] then Some (?ip, tl (tl ?t), Some (i + 2), i + 2) else ipv6_loop ?ip (tl (tl ?t)) (Some (i + 2)) (i + 2))
             else ipv6_loop ?ip (tl ?t) e (i + 2))
      else Some (ip, remaining, e, i)) = Some (ip', t, e', i')"
    using less.prems(1) unfolding ipv6_loop.simps [of ip remaining e i] x Let_def prod.case .
  show ?case
  proof (cases "i < 16 \<and> good \<and> n \<le> 0xffff")
    case False
    then show ?thesis using run less.prems(2) by (auto simp: Let_def split: if_splits)
  next
    case True
    show ?thesis
    proof (cases "c < length remaining \<and> remaining ! c = CHR ''.''")
      case dotted: True
      then obtain ip4 where "parseIPv4Sloppy remaining = Some ip4" "ip' = ip[i := ip4 ! 12, i + 1 := ip4 ! 13, i + 2 := ip4 ! 14, i + 3 := ip4 ! 15]"
        using run True by (auto split: if_splits option.splits)
      then show ?thesis using octets_ipv4 [of remaining ip4] less.prems(2) by (simp add: octets_update)
    next
      case plain: False
      show ?thesis
      proof (cases "?t = [] \<or> hd ?t \<noteq> CHR '':'' \<or> length ?t = 1 \<or> (hd (tl ?t) = CHR '':'' \<and> (e \<noteq> None \<or> tl (tl ?t) = []))")
        case True
        then show ?thesis using run \<open>i < 16 \<and> good \<and> n \<le> 0xffff\<close> plain written by (auto simp: Let_def split: if_splits)
      next
        case more: False
        note conds = True plain more True [THEN conjunct1]
        have "ipv6_loop ?ip (if hd (tl ?t) = CHR '':'' then tl (tl ?t) else tl ?t) (if hd (tl ?t) = CHR '':'' then Some (i + 2) else e) (i + 2) =
            Some (ip', t, e', i')"
          using run conds by (simp add: Let_def split: if_splits)
        then show ?thesis
          by (rule less.hyps [rotated]) (use conds written in simp_all)
      qed
    qed
  qed
qed

lemma octets_parse: "parseIP s = Some ip \<Longrightarrow> octets ip"
proof -
  have six: "parseIPv6Sloppy s = Some ip \<Longrightarrow> octets ip" for ip
  proof -
    assume run: "parseIPv6Sloppy s = Some ip"
    have zeros: "octets (replicate 16 0)" by (simp add: octets_def)
    show "octets ip"
      using run octets_loop [OF _ zeros] zeros
      by (auto simp: parseIPv6Sloppy_def Let_def octets_expand split: if_splits option.splits)
  qed
  have "parse_from s t = Some ip \<Longrightarrow> octets ip" for t
    by (induction t) (use octets_ipv4 six in \<open>auto split: if_splits\<close>)
  then show "parseIP s = Some ip \<Longrightarrow> octets ip" by (simp add: parseIP_def)
qed

lemma four_elements: "length xs = 4 \<Longrightarrow> \<exists>a b c d. xs = [a, b, c, d]"
  by (auto simp: numeral_eq_Suc length_Suc_conv)

lemma v4_bound:
  assumes "ipFamily s = Some V4" "ipToBigInt s = Some v"
  shows "0 \<le> v" "v < 2 ^ 32"
proof -
  obtain ip where ip: "parseIP (normalizeIPLiteral s) = Some ip" "isIPv4 ip" "v = bytes_number (drop 12 ip)"
    using assms by (auto simp: ipFamily_def ipToBigInt_def split: if_splits)
  have "length (drop 12 ip) = 4" using ip(2) by (simp add: isIPv4_def)
  then obtain a b c d where four: "drop 12 ip = [a, b, c, d]" using four_elements by blast
  then have "a \<in> set ip" "b \<in> set ip" "c \<in> set ip" "d \<in> set ip" by (metis in_set_dropD list.set_intros)+
  then have "a < 256" "b < 256" "c < 256" "d < 256" using octets_parse [OF ip(1)] by (simp_all add: octets_def)
  then show "0 \<le> v" "v < 2 ^ 32" by (simp_all add: ip(3) four bytes_number_def)
qed

lemma block_below:
  assumes "0 \<le> base" "base < 2 ^ 32" "p \<le> 32"
  shows "0 \<le> base div 2 ^ (32 - p) * 2 ^ (32 - p)" "base div 2 ^ (32 - p) * 2 ^ (32 - p) + 2 ^ (32 - p) \<le> (2 ^ 32 :: int)"
proof -
  let ?b = "2 ^ (32 - p) :: int"
  have whole: "2 ^ p * ?b = (2 ^ 32 :: int)" using assms(3) by (simp flip: power_add)
  have "base < 2 ^ p * ?b" using assms(2) by (simp only: whole)
  moreover have "base div ?b * ?b \<le> base" by (simp add: minus_mod_eq_div_mult [symmetric])
  ultimately have "base div ?b < 2 ^ p"
    using mult_right_mono [of "2 ^ p" "base div ?b" ?b] by (meson le_less_trans linorder_not_le zero_le_numeral zero_le_power)
  then have "(base div ?b + 1) * ?b \<le> 2 ^ p * ?b" by (intro mult_right_mono) simp_all
  then show "base div ?b * ?b + ?b \<le> 2 ^ 32" using whole by (simp add: distrib_right)
  show "0 \<le> base div ?b * ?b" using assms(1) by (intro mult_nonneg_nonneg) (simp_all add: pos_imp_zdiv_nonneg_iff)
qed

text \<open>The range of addresses of a store.\<close>

lemma open_ips_spec:
  assumes "open_ips name text = Inr ips"
  shows "ar_name (ir_range ips) = name" "cidr_family (ir_cidr ips) = V4" "cidr_first (ir_cidr ips) = Inr (cidr_usableFirst (ir_cidr ips))"
    "ar_size (ir_range ips) = cidr_usableLast (ir_cidr ips) - cidr_usableFirst (ir_cidr ips) + 1"
    "0 \<le> cidr_usableFirst (ir_cidr ips)" "cidr_usableLast (ir_cidr ips) < 2 ^ 32"
proof -
  obtain c where c: "new_cidr text = Inr c" "cidr_family c = V4" and ips: "ir_cidr ips = c" "ar_name (ir_range ips) = name"
      "ar_size (ir_range ips) = cidr_usableLast c - cidr_usableFirst c + 1"
    using assms by (auto simp: open_ips_def cidr_last_def cidr_first_def ipv4Number_def split: sum.splits if_splits)
  then obtain address prefixText f base p where "js_split CHR ''/'' text = [address, prefixText]"
      "ipFamily address = Some f" "ipToBigInt address = Some base" "js_number prefixText = Some p" "0 \<le> p" "p \<le> int (max_prefix f)"
      and made: "c = make_cidr f base (nat p)"
    by (auto simp: new_cidr_def Let_def split: if_splits list.splits option.splits)
  moreover from this have "f = V4" using c(2) by (simp add: make_cidr_def Let_def)
  ultimately have "0 \<le> base" "base < 2 ^ 32" "nat p \<le> 32" using v4_bound [of address base] by (simp_all add: max_prefix_def)
  from block_below [OF this] show "0 \<le> cidr_usableFirst (ir_cidr ips)" "cidr_usableLast (ir_cidr ips) < 2 ^ 32"
    by (simp_all add: ips made make_cidr_def Let_def max_prefix_def \<open>f = V4\<close>)
  show "ar_name (ir_range ips) = name" "cidr_family (ir_cidr ips) = V4" "cidr_first (ir_cidr ips) = Inr (cidr_usableFirst (ir_cidr ips))"
    "ar_size (ir_range ips) = cidr_usableLast (ir_cidr ips) - cidr_usableFirst (ir_cidr ips) + 1"
    using c ips by (simp_all add: cidr_first_def ipv4Number_def)
qed

lemma index_of_place:
  assumes "open_ips name text = Inr ips" "0 \<le> i" "i < ar_size (ir_range ips)"
  shows "indexForIp ips (numberToIp (cidr_usableFirst (ir_cidr ips) + i)) = Inr i"
    "ip_contains ips (numberToIp (cidr_usableFirst (ir_cidr ips) + i))"
proof -
  note spec = open_ips_spec [OF assms(1)]
  let ?v = "cidr_usableFirst (ir_cidr ips) + i"
  have v: "0 \<le> ?v" "?v < 2 ^ 32" using spec assms(2,3) by linarith+
  show in_range: "ip_contains ips (numberToIp ?v)"
    using number_literal [OF v] spec assms(2,3) by (simp add: ip_contains_def containsUsableAddress_def)
  then show "indexForIp ips (numberToIp ?v) = Inr i" using number_parse [OF v] spec(3) by (simp add: indexForIp_def)
qed

section \<open>Taking and giving back\<close>

text \<open>A range that is not locked, with its indices in use; the two ranges of a store.\<close>

definition in_use :: "(utf16 \<Rightarrow> stored_value option) \<Rightarrow> allocatable \<Rightarrow> int set \<Rightarrow> bool" where
  "in_use st r taken \<longleftrightarrow> st (lockKey (ar_name r)) = None \<and> (\<exists>cursor. range_rep st r (taken, cursor))"

definition pools :: "('s \<Rightarrow> bool) \<Rightarrow> ('s \<Rightarrow> utf16 \<Rightarrow> stored_value option) \<Rightarrow> 's service_store \<Rightarrow> int set \<Rightarrow> int set \<Rightarrow> 's \<Rightarrow> bool" where
  "pools ok stored st I P s \<longleftrightarrow>
     ok s \<and> in_use (stored s) (ir_range (ss_ips st)) I \<and> in_use (stored s) (pr_range (ss_ports st)) P"

text \<open>The texts of addresses and the numbers of ports at the given indices.\<close>

definition address_at :: "'s service_store \<Rightarrow> int \<Rightarrow> string" where
  "address_at st i = numberToIp (cidr_usableFirst (ir_cidr (ss_ips st)) + i)"

definition opened :: "'s kv_ops \<Rightarrow> 's service_store \<Rightarrow> bool" where
  "opened ops st \<longleftrightarrow> (\<exists>env serviceCIDR from to. new_service_store ops env serviceCIDR from to = Inr st)"

lemma opened_spec:
  assumes "opened ops st"
  shows "ss_ops st = ops" "pr_from (ss_ports st) = ss_from st" "pr_to (ss_ports st) = ss_to st"
    "ar_size (pr_range (ss_ports st)) = ss_to st - ss_from st + 1" "ar_name (pr_range (ss_ports st)) = nodePortRangeName"
    "\<exists>c. open_ips (clusterIPRangeName c) c = Inr (ss_ips st)"
proof -
  obtain env c low high where new: "new_service_store ops env c low high = Inr st" using assms by (auto simp: opened_def)
  then obtain ips where "open_ips (clusterIPRangeName (default_cidr c)) (default_cidr c) = Inr ips"
    by (cases "open_ips (clusterIPRangeName (default_cidr c)) (default_cidr c)") (simp_all add: new_service_store_def)
  with new show "ss_ops st = ops" "pr_from (ss_ports st) = ss_from st" "pr_to (ss_ports st) = ss_to st"
    "ar_size (pr_range (ss_ports st)) = ss_to st - ss_from st + 1" "ar_name (pr_range (ss_ports st)) = nodePortRangeName"
    "\<exists>c. open_ips (clusterIPRangeName c) c = Inr (ss_ips st)"
    by (auto simp: new_service_store_def open_ports_def)
qed

lemma range_key_eq: "range_key n part = range_key n' part' \<longleftrightarrow> n @ ''/'' @ part = n' @ ''/'' @ part'"
proof -
  have "str_key s = str_key t \<longleftrightarrow> s = t" for s t by (simp add: str_key_def inj_map_eq_map [OF inj_of_char])
  then show ?thesis by (simp add: range_key_def)
qed

lemma ranges_apart: "range_key (clusterIPRangeName c) part \<noteq> range_key nodePortRangeName part'"
  by (simp add: range_key_eq clusterIPRangeName_def nodePortRangeName_def)

lemma same_in_use:
  assumes "same_except r st st'" "\<And>part part'. range_key (ar_name r') part \<noteq> range_key (ar_name r) part'" "in_use st r' taken"
  shows "in_use st' r' taken"
proof -
  have same: "st' (range_key (ar_name r') part) = st (range_key (ar_name r') part)" for part
    using assms(1,2) by (simp add: same_except_def bitmapKey_def cursorKey_def usedKey_def)
  have "range_rep st' r' a = range_rep st r' a" for a
    by (rule rep_cong) (simp_all add: same bitmapKey_def cursorKey_def usedKey_def)
  then show ?thesis using assms(3) by (simp add: in_use_def same lockKey_def)
qed

text \<open>What a call can do to the indices in use.\<close>

lemma spec_taken:
  "fst (spec_step r Allocate (T, c)) = Index i \<Longrightarrow> 0 \<le> i \<and> i < ar_size r \<and> i \<notin> T \<and> fst (snd (spec_step r Allocate (T, c))) = insert i T"
  "fst (spec_step r Allocate (T, c)) = Throws err \<Longrightarrow> fst (snd (spec_step r Allocate (T, c))) = T"
  "fst (spec_step r (Claim i) (T, c)) = Done \<Longrightarrow> 0 \<le> i \<and> i < ar_size r \<and> i \<notin> T \<and> fst (snd (spec_step r (Claim i) (T, c))) = insert i T"
  "fst (spec_step r (Claim i) (T, c)) = Throws err \<Longrightarrow> fst (snd (spec_step r (Claim i) (T, c))) = T"
  "fst (spec_step r (Release i) (T, c)) = Throws err \<Longrightarrow> fst (snd (spec_step r (Release i) (T, c))) = T"
  "i \<in> T \<Longrightarrow> 0 \<le> i \<Longrightarrow> i < ar_size r \<Longrightarrow> spec_step r (Release i) (T, c) = (Done, (T - {i}, c))"
proof -
  { assume run: "fst (spec_step r Allocate (T, c)) = Index i"
    then have found: "List.find (\<lambda>i. i \<notin> T) (candidates r c) = Some i" by (simp split: option.splits)
    then have "i \<notin> T" "i \<in> set (candidates r c)" by (auto simp: find_Some_iff)
    then show "0 \<le> i \<and> i < ar_size r \<and> i \<notin> T \<and> fst (snd (spec_step r Allocate (T, c))) = insert i T"
      using candidates_in [of i r c] found by simp }
qed (auto split: option.splits if_splits)

text \<open>Allocations that can be given back, and their indices.\<close>

definition ip_indices :: "'s service_store \<Rightarrow> allocations \<Rightarrow> int set" where
  "ip_indices st a = {i. \<exists>ip \<in> set (fst a). indexForIp (ss_ips st) ip = Inr i}"

definition port_indices :: "'s service_store \<Rightarrow> allocations \<Rightarrow> int set" where
  "port_indices st a = (\<lambda>port. port - ss_from st) ` set (snd a)"

definition good_ip :: "'s service_store \<Rightarrow> string \<Rightarrow> bool" where
  "good_ip st ip \<longleftrightarrow> (\<exists>i. indexForIp (ss_ips st) ip = Inr i \<and> 0 \<le> i \<and> i < ar_size (ir_range (ss_ips st)))"

definition returnable :: "'s service_store \<Rightarrow> allocations \<Rightarrow> bool" where
  "returnable st a \<longleftrightarrow> (\<forall>ip \<in> set (fst a). good_ip st ip) \<and> distinct (map (indexForIp (ss_ips st)) (fst a)) \<and>
     (\<forall>port \<in> set (snd a). ss_from st \<le> port \<and> port \<le> ss_to st) \<and> distinct (snd a)"

text \<open>A service as the API has it: its spec is an object or missing, its ports are objects.\<close>

definition whole :: "json \<Rightarrow> bool" where
  "whole service \<longleftrightarrow> is_obj service \<and> is_obj (spec service) \<and> list_all is_obj (ports_of service)"

definition well_formed :: "json \<Rightarrow> bool" where
  "well_formed service \<longleftrightarrow> is_obj service \<and> (nullish (spec service) \<or> is_obj (spec service)) \<and> list_all is_obj (ports_of service)"

lemma field_set_same [simp]: "is_obj v \<Longrightarrow> field k (set_field k x v) = x"
  by (auto simp: is_obj_def)

lemma specFor_whole: "well_formed service \<Longrightarrow> whole (specFor service)"
  by (auto simp: well_formed_def whole_def specFor_def field_default_same or_else_def ports_of_def elements_def list_all_iff
      split: json.splits)
    (auto simp: field_def split: json.splits)

lemma specFor_id [simp]: "whole service \<Longrightarrow> specFor service = service"
  by (auto simp: whole_def specFor_def default_field_def nullish_def is_obj_def)

lemma set_spec_fields [simp]:
  "whole service \<Longrightarrow> field k (spec (set_spec k' x service)) = (if k = k' then x else field k (spec service))"
  "whole service \<Longrightarrow> k' \<noteq> ''ports'' \<Longrightarrow> whole (set_spec k' x service)"
proof -
  assume w: "whole service"
  then show "field k (spec (set_spec k' x service)) = (if k = k' then x else field k (spec service))"
    by (auto simp: whole_def set_spec_def field_in_same is_obj_def [of "spec service"])
  assume "k' \<noteq> ''ports''"
  with w show "whole (set_spec k' x service)" by (simp add: whole_def set_spec_def field_in_same ports_of_def)
qed

lemma set_spec_type [simp]: "whole service \<Longrightarrow> k \<noteq> ''type'' \<Longrightarrow> serviceType (set_spec k x service) = serviceType service"
  by (simp add: serviceType_def)

lemma set_spec_ports [simp]: "whole service \<Longrightarrow> k \<noteq> ''ports'' \<Longrightarrow> ports_of (set_spec k x service) = ports_of service"
  by (simp add: ports_of_def)

text \<open>What a service held before stays with it: only what is new to it is taken.\<close>

definition news :: "'a list \<Rightarrow> 'a list \<Rightarrow> 'a list" where
  "news old xs = filter (\<lambda>x. x \<notin> set old) xs"

lemma news_simps [simp]: "news old [] = []" "news old (xs @ ys) = news old xs @ news old ys"
    "news old (x # xs) = (if x \<in> set old then news old xs else x # news old xs)" "news [] xs = xs"
  by (simp_all add: news_def)

definition took_ip :: "'s service_store \<Rightarrow> int set \<Rightarrow> string list \<Rightarrow> json \<Rightarrow> json \<times> allocations \<Rightarrow> int set \<Rightarrow> bool" where
  "took_ip st I old service r I' \<longleftrightarrow> (case r of (service', a) \<Rightarrow>
     snd a = [] \<and> returnable st a \<and> ip_indices st a \<inter> I = {} \<and> I' = I \<union> ip_indices st a \<and>
     whole service' \<and> ports_of service' = ports_of service \<and> field ''ports'' (spec service') = field ''ports'' (spec service) \<and>
     serviceType service' = serviceType service \<and>
     (if requiresClusterIP service
      then length (serviceClusterIPs (Some service')) = 1 \<and> list_all (good_ip st) (serviceClusterIPs (Some service')) \<and>
        fst a = news old (serviceClusterIPs (Some service'))
      else service' = service \<and> fst a = []))"

lemma js_add_same [simp]: "js_add x [x] = [x]"
  by (simp add: js_add_def)

lemma address_not_None: "numberToIp n \<noteq> ''None''"
proof -
  have "CHR ''.'' \<in> set (numberToIp n)" by (simp add: numberToIp_def Let_def)
  then show ?thesis by auto
qed

lemma number_not_Nil: "numberToIp n \<noteq> []"
proof -
  have "CHR ''.'' \<in> set (numberToIp n)" by (simp add: numberToIp_def Let_def)
  then show ?thesis by auto
qed

lemma own_ip:
  assumes "whole service" "field ''clusterIP'' (spec service) = v" "truthy v" "v \<noteq> JStr ''None''"
  shows "serviceClusterIPs (Some (set_spec ''clusterIPs'' (JArr [v]) service)) = [str_of v]"
  using assms by (simp add: serviceClusterIPs_def Let_def elements_def)

definition port_number :: "json \<Rightarrow> int" where
  "port_number p = num_or 0 (field ''nodePort'' p)"

definition done_ports :: "'s service_store \<Rightarrow> json list \<Rightarrow> bool" where
  "done_ports st ps \<longleftrightarrow> (\<forall>p \<in> set ps. is_obj p \<and> field ''nodePort'' p \<noteq> JUndef \<and> ss_from st \<le> port_number p \<and> port_number p \<le> ss_to st)"

definition took_ports :: "'s service_store \<Rightarrow> int set \<Rightarrow> int list \<Rightarrow> int set \<Rightarrow> bool" where
  "took_ports st P new P' \<longleftrightarrow> returnable st ([], new) \<and> port_indices st ([], new) \<inter> P = {} \<and> P' = P \<union> port_indices st ([], new)"

lemma took_none: "took_ports st P [] P"
  by (simp add: took_ports_def returnable_def port_indices_def)

lemma took_more: "took_ports st (insert (n - ss_from st) P) new P' \<Longrightarrow> n - ss_from st \<notin> P \<Longrightarrow> ss_from st \<le> n \<Longrightarrow> n \<le> ss_to st \<Longrightarrow>
    took_ports st P (n # new) P'"
  by (auto simp: took_ports_def returnable_def port_indices_def)

lemma validateNodePort_spec: "validateNodePort st v = Inr n \<longleftrightarrow> v = JNum n \<and> ss_from st \<le> n \<and> n \<le> ss_to st"
  by (auto simp: validateNodePort_def split: json.splits if_splits)

text \<open>What is taken for a service that held \<open>old\<close> before.\<close>

definition took :: "'s service_store \<Rightarrow> int set \<Rightarrow> int set \<Rightarrow> allocations \<Rightarrow> json \<Rightarrow> allocations \<Rightarrow> bool" where
  "took st I P old service a \<longleftrightarrow> whole service \<and> returnable st a \<and> ip_indices st a \<inter> I = {} \<and> port_indices st a \<inter> P = {} \<and>
     snd a = news (snd old) (serviceNodePorts (Some service)) \<and>
     (\<forall>port \<in> set (serviceNodePorts (Some service)). ss_from st \<le> port \<and> port \<le> ss_to st) \<and>
     (if requiresClusterIP service then length (serviceClusterIPs (Some service)) = 1 \<and> list_all (good_ip st) (serviceClusterIPs (Some service)) \<and>
        fst a = news (fst old) (serviceClusterIPs (Some service))
      else fst a = [])"

lemma set_ports_fields:
  assumes "whole service" "list_all is_obj ps" "ports_of service = [] \<Longrightarrow> ps = []"
  shows "whole (set_ports ps service)" "ports_of (set_ports ps service) = ps" "serviceType (set_ports ps service) = serviceType service"
    "serviceClusterIPs (Some (set_ports ps service)) = serviceClusterIPs (Some service)"
proof -
  consider (arr) xs where "field ''ports'' (spec service) = JArr xs" | (other) "set_ports ps service = service" "ports_of service = []"
    by (cases "field ''ports'' (spec service)") (auto simp: set_ports_def ports_of_def elements_def)
  then have "whole (set_ports ps service) \<and> ports_of (set_ports ps service) = ps \<and> serviceType (set_ports ps service) = serviceType service \<and>
      serviceClusterIPs (Some (set_ports ps service)) = serviceClusterIPs (Some service)"
  proof cases
    case arr
    have eq: "set_ports ps service = set_spec ''ports'' (JArr ps) service" by (simp add: set_ports_def arr)
    have ports: "ports_of (set_spec ''ports'' (JArr ps) service) = ps" using assms(1) by (simp add: ports_of_def elements_def)
    have "is_obj (set_spec ''ports'' (JArr ps) service)" "is_obj (spec (set_spec ''ports'' (JArr ps) service))"
      using assms(1) by (simp_all add: whole_def set_spec_def field_in_same)
    then show ?thesis unfolding eq using ports assms(1,2) by (simp add: whole_def serviceClusterIPs_def)
  qed (use assms in simp)
  then show "whole (set_ports ps service)" "ports_of (set_ports ps service) = ps" "serviceType (set_ports ps service) = serviceType service"
    "serviceClusterIPs (Some (set_ports ps service)) = serviceClusterIPs (Some service)" by simp_all
qed

lemma done_numbers: "done_ports st ps \<Longrightarrow> map (num_or 0) (filter (\<lambda>p. p \<noteq> JUndef) (map (field ''nodePort'') ps)) = map port_number ps"
  by (induction ps) (auto simp: done_ports_def port_number_def)

text \<open>What the hooks prepare is a service again.\<close>

lemma whole_default: "whole service \<Longrightarrow> whole (in_field ''spec'' (default_field ''type'' x) service)"
  by (simp add: whole_def field_in_same ports_of_def)

lemma whole_map_ports:
  assumes "whole service" "\<And>i p. is_obj p \<Longrightarrow> is_obj (f i p)"
  shows "whole (map_ports f service)" "serviceType (map_ports f service) = serviceType service"
    "serviceClusterIPs (Some (map_ports f service)) = serviceClusterIPs (Some service)"
proof -
  have "list_all is_obj (map (\<lambda>(i, p). f i p) (List.enumerate 0 (ports_of service)))"
    using assms by (fastforce simp: whole_def list_all_iff dest: in_set_enumerate_eq [THEN iffD1])
  from set_ports_fields [OF assms(1) this] show "whole (map_ports f service)" "serviceType (map_ports f service) = serviceType service"
    "serviceClusterIPs (Some (map_ports f service)) = serviceClusterIPs (Some service)"
    by (simp_all add: map_ports_def)
qed

lemma whole_defaultPorts: "whole service \<Longrightarrow> whole (defaultPorts service)"
  by (simp add: defaultPorts_def whole_map_ports(1) defaultPort_def Let_def)

lemma whole_preserve:
  assumes "whole service"
  shows "whole (preserveClusterIP service existing)" "serviceType (preserveClusterIP service existing) = serviceType service"
    "\<not> requiresClusterIP service \<Longrightarrow> serviceClusterIPs (Some (preserveClusterIP service existing)) = []"
    "whole (preserveNodePorts service existing)" "serviceType (preserveNodePorts service existing) = serviceType service"
    "serviceClusterIPs (Some (preserveNodePorts service existing)) = serviceClusterIPs (Some service)"
proof -
  show "whole (preserveClusterIP service existing)" "serviceType (preserveClusterIP service existing) = serviceType service"
    "\<not> requiresClusterIP service \<Longrightarrow> serviceClusterIPs (Some (preserveClusterIP service existing)) = []"
    using assms by (auto simp: preserveClusterIP_def Let_def serviceClusterIPs_def truthy_def elements_def)
  have "is_obj p \<Longrightarrow> is_obj (preservePort old i p)" for old i p by (simp add: preservePort_def split: option.split)
  then show "whole (preserveNodePorts service existing)" "serviceType (preserveNodePorts service existing) = serviceType service"
    "serviceClusterIPs (Some (preserveNodePorts service existing)) = serviceClusterIPs (Some service)"
    using assms whole_map_ports [of service] by (simp_all add: preserveNodePorts_def Let_def)
qed

context keyed_store
begin

abbreviation has_pools :: "'s service_store \<Rightarrow> int set \<Rightarrow> int set \<Rightarrow> 's \<Rightarrow> bool" where
  "has_pools \<equiv> pools ok stored"

lemma step_ips:
  assumes "opened ops st" "has_pools st I P s" "range_step ops env (ir_range (ss_ips st)) c s = (x, s')"
  shows "\<exists>cursor. x = fst (spec_step (ir_range (ss_ips st)) c (I, cursor)) \<and>
    has_pools st (fst (snd (spec_step (ir_range (ss_ips st)) c (I, cursor)))) P s'"
proof -
  let ?r = "ir_range (ss_ips st)" and ?r' = "pr_range (ss_ports st)"
  obtain cursor where pre: "ok s" "stored s (lockKey (ar_name ?r)) = None" "range_rep (stored s) ?r (I, cursor)" "in_use (stored s) ?r' P"
    using assms(2) by (auto simp: pools_def in_use_def)
  note step = step_refines [OF pre(1-3) assms(3)]
  have "range_key (ar_name ?r') part \<noteq> range_key (ar_name ?r) part'" for part part'
    using opened_spec(5,6) [OF assms(1)] open_ips_spec(1) ranges_apart by metis
  then have "in_use (stored s') ?r' P" using same_in_use step pre(4) by blast
  moreover have "in_use (stored s') ?r (fst (snd (spec_step ?r c (I, cursor))))" unfolding in_use_def using step by (metis prod.collapse)
  ultimately show ?thesis using step by (auto simp: pools_def)
qed

lemma step_ports:
  assumes "opened ops st" "has_pools st I P s" "range_step ops env (pr_range (ss_ports st)) c s = (x, s')"
  shows "\<exists>cursor. x = fst (spec_step (pr_range (ss_ports st)) c (P, cursor)) \<and>
    has_pools st I (fst (snd (spec_step (pr_range (ss_ports st)) c (P, cursor)))) s'"
proof -
  let ?r = "pr_range (ss_ports st)" and ?r' = "ir_range (ss_ips st)"
  obtain cursor where pre: "ok s" "stored s (lockKey (ar_name ?r)) = None" "range_rep (stored s) ?r (P, cursor)" "in_use (stored s) ?r' I"
    using assms(2) by (auto simp: pools_def in_use_def)
  note step = step_refines [OF pre(1-3) assms(3)]
  have "range_key (ar_name ?r') part \<noteq> range_key (ar_name ?r) part'" for part part'
    using opened_spec(5,6) [OF assms(1)] open_ips_spec(1) ranges_apart by metis
  then have "in_use (stored s') ?r' I" using same_in_use step pre(4) by blast
  moreover have "in_use (stored s') ?r (fst (snd (spec_step ?r c (P, cursor))))" unfolding in_use_def using step by (metis prod.collapse)
  ultimately show ?thesis using step by (auto simp: pools_def)
qed

text \<open>A new pair of ranges is empty.\<close>

lemma reset_keeps:
  assumes "ok s" "range_reset ops r s = (x, s')"
  shows "same_except r (stored s) (stored s')"
proof -
  obtain s1 x1 where s1: "put_bytes ops (bitmapKey (ar_name r)) (replicate (nat ((ar_size r + 7) div 8)) 0) s = (Inr (), s1)" "ok s1"
    "stored s1 = (stored s)(bitmapKey (ar_name r) \<mapsto> x1)"
    using put_bytes_law [OF assms(1)] range_keys by blast
  obtain s2 x2 where s2: "put_number ops (cursorKey (ar_name r)) 0 s1 = (Inr (), s2)" "ok s2" "stored s2 = (stored s1)(cursorKey (ar_name r) \<mapsto> x2)"
    using put_bytes_law [OF s1(2)] range_keys unfolding put_number_def by blast
  obtain s3 x3 where s3: "put_number ops (usedKey (ar_name r)) 0 s2 = (Inr (), s3)" "stored s3 = (stored s2)(usedKey (ar_name r) \<mapsto> x3)"
    using put_bytes_law [OF s2(2)] range_keys unfolding put_number_def by blast
  have "s' = s3" using assms(2) s1(1) s2(1) s3(1) by (simp add: range_reset_def bind_op_def)
  then show ?thesis by (simp add: same_except_def s1(3) s2(3) s3(2))
qed

lemma initialize_law:
  assumes "ok s" "\<And>part. stored s (range_key (clusterIPRangeName (default_cidr c)) part) = None" "\<And>part. stored s (range_key nodePortRangeName part) = None"
    and "new_service_store ops env c low high = Inr st"
  shows "\<exists>s'. service_initialize ops c low high s = (Inr (), s') \<and> has_pools st {} {} s'"
proof -
  let ?ips = "ir_range (ss_ips st)" and ?ports = "pr_range (ss_ports st)"
  have ips: "open_ips (clusterIPRangeName (default_cidr c)) (default_cidr c) = Inr (ss_ips st)"
    and ports: "ss_ports st = open_ports nodePortRangeName low high"
    using assms(4) by (cases "open_ips (clusterIPRangeName (default_cidr c)) (default_cidr c)", auto simp: new_service_store_def)+
  have names: "ar_name ?ips = clusterIPRangeName (default_cidr c)" "ar_name ?ports = nodePortRangeName"
    using open_ips_spec(1) [OF ips] by (simp_all add: ports open_ports_def)
  obtain s1 where s1: "range_reset ops ?ips s = (Inr (), s1)" "ok s1" "stored s1 (lockKey (ar_name ?ips)) = None" "range_rep (stored s1) ?ips ({}, 0)"
    using reset_law [OF assms(1), of ?ips] assms(2) by (auto simp: names lockKey_def)
  note apart = ranges_apart [of "default_cidr c"]
  have "stored s1 (lockKey nodePortRangeName) = None"
    using reset_keeps [OF assms(1) s1(1)] assms(3) apart
    by (simp add: same_except_def names lockKey_def bitmapKey_def cursorKey_def usedKey_def not_sym [OF apart])
  then obtain s2 where s2: "range_reset ops ?ports s1 = (Inr (), s2)" "ok s2" "stored s2 (lockKey (ar_name ?ports)) = None"
      "range_rep (stored s2) ?ports ({}, 0)"
    using reset_law [OF s1(2), of ?ports] by (auto simp: names)
  have "in_use (stored s1) ?ips {}" using s1(3,4) by (auto simp: in_use_def)
  then have "in_use (stored s2) ?ips {}" by (rule same_in_use [OF reset_keeps [OF s1(2) s2(1)], rotated]) (simp add: names apart)
  moreover have "in_use (stored s2) ?ports {}" using s2(3,4) by (auto simp: in_use_def)
  ultimately have "has_pools st {} {} s2" using s2(2) by (simp add: pools_def)
  then show ?thesis using s1(1) s2(1) ips
    by (simp add: service_initialize_def Let_def create_ips_def create_ports_def bind_op_def lift_op_def return_op_def ports)
qed

text \<open>An operation that keeps the pools when it fails, and does what is said when it succeeds.\<close>

definition settles :: "'s service_store \<Rightarrow> int set \<Rightarrow> int set \<Rightarrow> ('a, 's) op \<Rightarrow> ('a \<Rightarrow> int set \<Rightarrow> int set \<Rightarrow> bool) \<Rightarrow> bool" where
  "settles st I P m G \<longleftrightarrow> (\<forall>s. has_pools st I P s \<longrightarrow>
     (case m s of (Inl err, s') \<Rightarrow> has_pools st I P s' | (Inr x, s') \<Rightarrow> \<exists>I' P'. has_pools st I' P' s' \<and> G x I' P'))"

lemma settlesI: "(\<And>s r s'. has_pools st I P s \<Longrightarrow> m s = (r, s') \<Longrightarrow>
    (case r of Inl err \<Rightarrow> has_pools st I P s' | Inr x \<Rightarrow> \<exists>I' P'. has_pools st I' P' s' \<and> G x I' P')) \<Longrightarrow> settles st I P m G"
  unfolding settles_def by (metis (mono_tags, lifting) sum.case_eq_if case_prod_conv surj_pair)

lemma settlesD: "settles st I P m G \<Longrightarrow> has_pools st I P s \<Longrightarrow> m s = (r, s') \<Longrightarrow>
    (case r of Inl err \<Rightarrow> has_pools st I P s' | Inr x \<Rightarrow> \<exists>I' P'. has_pools st I' P' s' \<and> G x I' P')"
  by (auto simp: settles_def split: sum.splits)

lemma settles_pure: "G x I P \<Longrightarrow> settles st I P (return_op x) G" "settles st I P (throw_op err) G"
    "(\<And>x. r = Inr x \<Longrightarrow> G x I P) \<Longrightarrow> settles st I P (lift_op r) G"
  by (auto simp: settles_def return_op_def throw_op_def lift_op_def split: sum.split)

lemma settles_error: "settles st I P (\<lambda>s. map_error f (m s)) G = settles st I P m G"
proof -
  have "(case map_error f (m s) of (Inl err, s') \<Rightarrow> has_pools st I P s' | (Inr x, s') \<Rightarrow> \<exists>I' P'. has_pools st I' P' s' \<and> G x I' P') =
      (case m s of (Inl err, s') \<Rightarrow> has_pools st I P s' | (Inr x, s') \<Rightarrow> \<exists>I' P'. has_pools st I' P' s' \<and> G x I' P')" for s
    by (cases "m s"; cases "fst (m s)") (auto simp: map_error_def)
  then show ?thesis by (simp add: settles_def)
qed

lemma settles_mono: "settles st I P m G \<Longrightarrow> (\<And>x I' P'. G x I' P' \<Longrightarrow> H x I' P') \<Longrightarrow> settles st I P m H"
proof (rule settlesI)
  fix s r s' assume m: "settles st I P m G" and G: "\<And>x I' P'. G x I' P' \<Longrightarrow> H x I' P'" and run: "has_pools st I P s" "m s = (r, s')"
  show "case r of Inl err \<Rightarrow> has_pools st I P s' | Inr x \<Rightarrow> \<exists>I' P'. has_pools st I' P' s' \<and> H x I' P'"
    using settlesD [OF m run] G by (cases r) (simp_all, blast)
qed

lemma ip_allocate_settles:
  assumes "opened ops st"
  shows "settles st I P (ip_allocate ops env (ss_ips st)) (\<lambda>ip I' P'. \<exists>i. 0 \<le> i \<and> i < ar_size (ir_range (ss_ips st)) \<and> i \<notin> I \<and>
    ip = address_at st i \<and> I' = insert i I \<and> P' = P)"
proof (rule settlesI)
  fix s r s' assume pre: "has_pools st I P s" and run: "ip_allocate ops env (ss_ips st) s = (r, s')"
  obtain res s1 where res: "range_allocate ops env (ir_range (ss_ips st)) s = (res, s1)" by (cases "range_allocate ops env (ir_range (ss_ips st)) s")
  then have step: "range_step ops env (ir_range (ss_ips st)) Allocate s = (result_of Index res, s1)" by (simp add: range_step_def)
  obtain c where ips: "open_ips (clusterIPRangeName c) c = Inr (ss_ips st)" using opened_spec(6) [OF assms] by blast
  show "case r of Inl err \<Rightarrow> has_pools st I P s' | Inr ip \<Rightarrow> \<exists>I' P'. has_pools st I' P' s' \<and> (\<exists>i. 0 \<le> i \<and>
      i < ar_size (ir_range (ss_ips st)) \<and> i \<notin> I \<and> ip = address_at st i \<and> I' = insert i I \<and> P' = P)"
    using step_ips [OF assms pre step] run res spec_taken(1,2) [of "ir_range (ss_ips st)" I]
    by (auto simp: ip_allocate_def bind_op_def result_of_def open_ips_spec(3) [OF ips] return_op_def address_at_def simp del: spec_step.simps
        split: sum.splits) (metis fst_conv)+
qed

lemma port_allocate_settles:
  assumes "opened ops st"
  shows "settles st I P (port_allocate ops env (ss_ports st)) (\<lambda>port I' P'. port - ss_from st \<notin> P \<and>
    I' = I \<and> P' = insert (port - ss_from st) P \<and> ss_from st \<le> port \<and> port \<le> ss_to st)"
proof (rule settlesI)
  fix s r s' assume pre: "has_pools st I P s" and run: "port_allocate ops env (ss_ports st) s = (r, s')"
  obtain res s1 where res: "range_allocate ops env (pr_range (ss_ports st)) s = (res, s1)" by (cases "range_allocate ops env (pr_range (ss_ports st)) s")
  then have step: "range_step ops env (pr_range (ss_ports st)) Allocate s = (result_of Index res, s1)" by (simp add: range_step_def)
  show "case r of Inl err \<Rightarrow> has_pools st I P s' | Inr port \<Rightarrow> \<exists>I' P'. has_pools st I' P' s' \<and> (port - ss_from st \<notin> P \<and>
      I' = I \<and> P' = insert (port - ss_from st) P \<and> ss_from st \<le> port \<and> port \<le> ss_to st)"
  proof (cases res)
    case (Inl err)
    then show ?thesis using step_ports [OF assms pre step] run res spec_taken(2) [of "pr_range (ss_ports st)" P]
      by (auto simp: port_allocate_def bind_op_def result_of_def simp del: spec_step.simps) metis
  next
    case (Inr i)
    then have "r = Inr (ss_from st + i)" "s' = s1" using run res opened_spec(2) [OF assms] by (simp_all add: port_allocate_def bind_op_def return_op_def)
    moreover obtain cursor where "fst (spec_step (pr_range (ss_ports st)) Allocate (P, cursor)) = Index i"
        "has_pools st I (fst (snd (spec_step (pr_range (ss_ports st)) Allocate (P, cursor)))) s1"
      using step_ports [OF assms pre step] Inr by (auto simp: result_of_def simp del: spec_step.simps)
    moreover from this(1) have "0 \<le> i \<and> i < ar_size (pr_range (ss_ports st)) \<and> i \<notin> P \<and>
        fst (snd (spec_step (pr_range (ss_ports st)) Allocate (P, cursor))) = insert i P" by (rule spec_taken(1))
    ultimately show ?thesis using opened_spec(4) [OF assms] by auto
  qed
qed

lemma range_claim_settles:
  assumes "opened ops st"
  shows "settles st I P (range_claim ops env (ir_range (ss_ips st)) i) (\<lambda>_ I' P'. 0 \<le> i \<and> i < ar_size (ir_range (ss_ips st)) \<and> i \<notin> I \<and>
        I' = insert i I \<and> P' = P)"
    and "settles st I P (range_claim ops env (pr_range (ss_ports st)) i) (\<lambda>_ I' P'. i \<notin> P \<and> I' = I \<and> P' = insert i P)"
proof -
  show "settles st I P (range_claim ops env (ir_range (ss_ips st)) i) (\<lambda>_ I' P'. 0 \<le> i \<and> i < ar_size (ir_range (ss_ips st)) \<and> i \<notin> I \<and>
        I' = insert i I \<and> P' = P)"
  proof (rule settlesI)
    fix s r s' assume pre: "has_pools st I P s" and run: "range_claim ops env (ir_range (ss_ips st)) i s = (r, s')"
    then have "range_step ops env (ir_range (ss_ips st)) (Claim i) s = (result_of (\<lambda>_. Done) r, s')" by (simp add: range_step_def)
    from step_ips [OF assms pre this] show "case r of Inl err \<Rightarrow> has_pools st I P s' | Inr _ \<Rightarrow> \<exists>I' P'. has_pools st I' P' s' \<and>
        (0 \<le> i \<and> i < ar_size (ir_range (ss_ips st)) \<and> i \<notin> I \<and> I' = insert i I \<and> P' = P)"
      using spec_taken(3,4) [of "ir_range (ss_ips st)" i I] by (cases r) (auto simp: result_of_def simp del: spec_step.simps, metis+)
  qed
  show "settles st I P (range_claim ops env (pr_range (ss_ports st)) i) (\<lambda>_ I' P'. i \<notin> P \<and> I' = I \<and> P' = insert i P)"
  proof (rule settlesI)
    fix s r s' assume pre: "has_pools st I P s" and run: "range_claim ops env (pr_range (ss_ports st)) i s = (r, s')"
    then have "range_step ops env (pr_range (ss_ports st)) (Claim i) s = (result_of (\<lambda>_. Done) r, s')" by (simp add: range_step_def)
    from step_ports [OF assms pre this] show "case r of Inl err \<Rightarrow> has_pools st I P s' | Inr _ \<Rightarrow> \<exists>I' P'. has_pools st I' P' s' \<and>
        (i \<notin> P \<and> I' = I \<and> P' = insert i P)"
      using spec_taken(3,4) [of "pr_range (ss_ports st)" i P] by (cases r) (auto simp: result_of_def simp del: spec_step.simps, metis+)
  qed
qed

lemma ip_claim_settles:
  assumes "opened ops st"
  shows "settles st I P (ip_claim ops env (ss_ips st) ip) (\<lambda>_ I' P'. \<exists>i. indexForIp (ss_ips st) ip = Inr i \<and>
    0 \<le> i \<and> i < ar_size (ir_range (ss_ips st)) \<and> i \<notin> I \<and> I' = insert i I \<and> P' = P)"
proof (cases "indexForIp (ss_ips st) ip")
  case (Inl err)
  then show ?thesis unfolding ip_claim_def settles_error by (auto simp: settles_def)
next
  case (Inr i)
  have "bind_op (lift_op (Inr i)) (range_claim ops env (ir_range (ss_ips st))) = range_claim ops env (ir_range (ss_ips st)) i" by (rule ext) simp
  then show ?thesis
    using range_claim_settles(1) [OF assms, of I P env i] unfolding ip_claim_def settles_error Inr by (simp add: conj_ac)
qed

lemma port_claim_settles:
  assumes "opened ops st"
  shows "settles st I P (port_claim ops env (ss_ports st) port) (\<lambda>_ I' P'. port - ss_from st \<notin> P \<and> I' = I \<and>
    P' = insert (port - ss_from st) P \<and> ss_from st \<le> port \<and> port \<le> ss_to st)"
proof (cases "validatePort (ss_ports st) port")
  case (Some err)
  then show ?thesis by (simp add: port_claim_def settles_def)
next
  case None
  then have "ss_from st \<le> port \<and> port \<le> ss_to st" using opened_spec(2,3) [OF assms] by (auto simp: validatePort_def split: if_splits)
  then show ?thesis
    using range_claim_settles(2) [OF assms, of I P env "port - ss_from st"] None opened_spec(2) [OF assms]
    unfolding port_claim_def option.case settles_error by (simp add: settles_error)
qed

lemma settles_return: "settles st I P m H \<Longrightarrow> (\<And>x I' P'. H x I' P' \<Longrightarrow> G (g x) I' P') \<Longrightarrow> settles st I P (bind_op m (\<lambda>x. return_op (g x))) G"
proof (rule settlesI)
  fix s r s' assume m: "settles st I P m H" and G: "\<And>x I' P'. H x I' P' \<Longrightarrow> G (g x) I' P'" and pre: "has_pools st I P s"
    and run: "bind_op m (\<lambda>x. return_op (g x)) s = (r, s')"
  obtain res s1 where res: "m s = (res, s1)" by (cases "m s")
  show "case r of Inl err \<Rightarrow> has_pools st I P s' | Inr x \<Rightarrow> \<exists>I' P'. has_pools st I' P' s' \<and> G x I' P'"
  proof (cases res)
    case (Inl err)
    then have "r = Inl err" "s' = s1" using run res by (simp_all add: bind_op_def)
    then show ?thesis using settlesD [OF m pre res] Inl by simp
  next
    case (Inr x)
    then have eq: "r = Inr (g x)" "s' = s1" using run res by (simp_all add: bind_op_def return_op_def)
    obtain I' P' where "has_pools st I' P' s1" "H x I' P'" using settlesD [OF m pre res] Inr by auto
    then show ?thesis using eq G [OF \<open>H x I' P'\<close>] by auto
  qed
qed

lemma settles_lift: "(\<And>x. r = Inr x \<Longrightarrow> settles st I P (f x) G) \<Longrightarrow> settles st I P (bind_op (lift_op r) f) G"
  by (cases r) (simp_all add: settles_def)

text \<open>What is in use is given back.\<close>

lemma ip_release_law:
  assumes "opened ops st" "has_pools st I P s" "indexForIp (ss_ips st) ip = Inr i" "i \<in> I" "0 \<le> i" "i < ar_size (ir_range (ss_ips st))"
  shows "\<exists>s'. ip_release ops env (ss_ips st) ip s = (Inr (), s') \<and> has_pools st (I - {i}) P s'"
proof -
  obtain r s' where run: "range_release ops env (ir_range (ss_ips st)) i s = (r, s')" by (cases "range_release ops env (ir_range (ss_ips st)) i s")
  then have "range_step ops env (ir_range (ss_ips st)) (Release i) s = (result_of (\<lambda>_. Done) r, s')" by (simp add: range_step_def)
  from step_ips [OF assms(1,2) this] have "r = Inr () \<and> has_pools st (I - {i}) P s'"
    using spec_taken(6) [OF assms(4-6)] by (cases r) (auto simp: result_of_def simp del: spec_step.simps)
  then show ?thesis using run by (simp add: ip_release_def assms(3) map_error_def)
qed

lemma port_release_law:
  assumes "opened ops st" "has_pools st I P s" "port - ss_from st \<in> P" "ss_from st \<le> port" "port \<le> ss_to st"
  shows "\<exists>s'. port_release ops env (ss_ports st) port s = (Inr (), s') \<and> has_pools st I (P - {port - ss_from st}) s'"
proof -
  let ?r = "pr_range (ss_ports st)" and ?i = "port - ss_from st"
  note st = opened_spec [OF assms(1)]
  obtain r s' where run: "range_release ops env ?r ?i s = (r, s')" by (cases "range_release ops env ?r ?i s")
  then have "range_step ops env ?r (Release ?i) s = (result_of (\<lambda>_. Done) r, s')" by (simp add: range_step_def)
  from step_ports [OF assms(1,2) this] have "r = Inr () \<and> has_pools st I (P - {?i}) s'"
    using spec_taken(6) [OF assms(3), of ?r] assms(4,5) st(4) by (cases r) (auto simp: result_of_def simp del: spec_step.simps)
  then show ?thesis using run assms(4,5) st(2,3) by (simp add: port_release_def validatePort_def map_error_def)
qed


lemma release_ips:
  assumes "opened ops st"
  shows "has_pools st I P s \<Longrightarrow> \<forall>ip \<in> set ips. good_ip st ip \<Longrightarrow> distinct (map (indexForIp (ss_ips st)) ips) \<Longrightarrow>
    ip_indices st (ips, ps) \<subseteq> I \<Longrightarrow>
    \<exists>s'. release_all (ip_release ops env (ss_ips st)) ips s = (Inr (), s') \<and> has_pools st (I - ip_indices st (ips, ps)) P s'"
proof (induction ips arbitrary: I s)
  case Nil
  then show ?case by (simp add: return_op_def ip_indices_def)
next
  case (Cons ip ips)
  obtain i where i: "indexForIp (ss_ips st) ip = Inr i" "0 \<le> i" "i < ar_size (ir_range (ss_ips st))"
    using Cons.prems(2) by (auto simp: good_ip_def)
  have all: "ip_indices st (ip # ips, ps) = insert i (ip_indices st (ips, ps))" using i(1) by (auto simp: ip_indices_def)
  have "i \<notin> ip_indices st (ips, ps)" using Cons.prems(3) i(1) by (auto simp: ip_indices_def) (metis image_eqI)
  then have rest: "ip_indices st (ips, ps) \<subseteq> I - {i}" "i \<in> I" using Cons.prems(4) all by auto
  obtain s1 where s1: "ip_release ops env (ss_ips st) ip s = (Inr (), s1)" "has_pools st (I - {i}) P s1"
    using ip_release_law [OF assms Cons.prems(1) i(1) rest(2) i(2,3)] by blast
  from Cons.IH [OF s1(2) _ _ rest(1)] Cons.prems(2,3)
  obtain s' where "release_all (ip_release ops env (ss_ips st)) ips s1 = (Inr (), s')" "has_pools st (I - {i} - ip_indices st (ips, ps)) P s'"
    by auto
  moreover have "I - {i} - ip_indices st (ips, ps) = I - ip_indices st (ip # ips, ps)" using all by auto
  ultimately show ?case using s1(1) by (simp add: bind_op_def)
qed

lemma release_ports:
  assumes "opened ops st"
  shows "has_pools st I P s \<Longrightarrow> \<forall>port \<in> set ps. ss_from st \<le> port \<and> port \<le> ss_to st \<Longrightarrow> distinct ps \<Longrightarrow> port_indices st (ips, ps) \<subseteq> P \<Longrightarrow>
    \<exists>s'. release_all (port_release ops env (ss_ports st)) ps s = (Inr (), s') \<and> has_pools st I (P - port_indices st (ips, ps)) s'"
proof (induction ps arbitrary: P s)
  case Nil
  then show ?case by (simp add: return_op_def port_indices_def)
next
  case (Cons port ps)
  have all: "port_indices st (ips, port # ps) = insert (port - ss_from st) (port_indices st (ips, ps))" by (auto simp: port_indices_def)
  have "port - ss_from st \<notin> port_indices st (ips, ps)" using Cons.prems(3) by (auto simp: port_indices_def)
  then have rest: "port_indices st (ips, ps) \<subseteq> P - {port - ss_from st}" "port - ss_from st \<in> P" using Cons.prems(4) all by auto
  obtain s1 where s1: "port_release ops env (ss_ports st) port s = (Inr (), s1)" "has_pools st I (P - {port - ss_from st}) s1"
    using port_release_law [OF assms Cons.prems(1) rest(2)] Cons.prems(2) by auto
  from Cons.IH [OF s1(2) _ _ rest(1)] Cons.prems(2,3)
  obtain s' where "release_all (port_release ops env (ss_ports st)) ps s1 = (Inr (), s')"
      "has_pools st I (P - {port - ss_from st} - port_indices st (ips, ps)) s'" by auto
  moreover have "P - {port - ss_from st} - port_indices st (ips, ps) = P - port_indices st (ips, port # ps)" using all by auto
  ultimately show ?case using s1(1) by (simp add: bind_op_def)
qed

lemma release_law:
  assumes "opened ops st" "has_pools st I P s" "returnable st a" "ip_indices st a \<subseteq> I" "port_indices st a \<subseteq> P"
  shows "\<exists>s'. releaseAllocations st a s = (Inr (), s') \<and> has_pools st (I - ip_indices st a) (P - port_indices st a) s'"
proof -
  obtain ips ps where a: "a = (ips, ps)" by (cases a)
  obtain s1 where s1: "release_all (ip_release ops (ss_lock st) (ss_ips st)) ips s = (Inr (), s1)" "has_pools st (I - ip_indices st a) P s1"
    using release_ips [OF assms(1,2), of ips ps "ss_lock st"] assms(3,4) by (auto simp: a returnable_def)
  from release_ports [OF assms(1) this(2), of ps ips "ss_lock st"] assms(3,5)
  show ?thesis using s1(1) opened_spec(1) [OF assms(1)] by (auto simp: a returnable_def releaseAllocations_def bind_op_def)
qed

lemma cluster_ip_settles:
  assumes st: "opened ops st" and service: "whole service" and old: "\<forall>ip \<in> set (serviceClusterIPs existing). good_ip st ip"
    "ip_indices st (serviceClusterIPs existing, ps) \<subseteq> I"
  shows "settles st I P (allocateClusterIP st service existing) (\<lambda>r I' P'. P' = P \<and> took_ip st I (serviceClusterIPs existing) service r I')"
proof -
  let ?old = "serviceClusterIPs existing" and ?ip = "field ''clusterIP'' (spec service)"
  let ?G = "\<lambda>r I' P'. P' = P \<and> took_ip st I ?old service r I'"
  note ops = opened_spec(1) [OF st]
  show ?thesis
  proof (cases "requiresClusterIP service")
    case False
    then show ?thesis using service
      by (auto simp: allocateClusterIP_def intro!: settles_pure simp: took_ip_def returnable_def ip_indices_def)
  next
    case True
    show ?thesis
    proof (cases "truthy ?ip \<or> ?ip = JStr ''None''")
      case asked: True
      have claimed: "settles st I P (claimClusterIP st (str_of ?ip) existing) (\<lambda>_ I' P'. P' = P \<and> good_ip st (str_of ?ip) \<and>
        (if str_of ?ip \<in> set ?old then I' = I else \<exists>i. indexForIp (ss_ips st) (str_of ?ip) = Inr i \<and> i \<notin> I \<and> I' = insert i I))"
      proof (cases "str_of ?ip \<in> set ?old")
        case True
        then show ?thesis using old(1) by (simp add: claimClusterIP_def settles_def)
      next
        case False
        then have "claimClusterIP st (str_of ?ip) existing = (\<lambda>s. map_error (\<lambda>err. if js_includes (store_error_message err) ''already allocated'' then
            plain (''clusterIP '' @ str_of ?ip @ '' is already allocated'') else err) (ip_claim ops (ss_lock st) (ss_ips st) (str_of ?ip) s))"
          by (intro ext) (simp only: claimClusterIP_def on_message_def ops if_False)
        then show ?thesis using False by (simp only: settles_error) (rule settles_mono [OF ip_claim_settles [OF st]], auto simp: good_ip_def)
      qed
      show ?thesis
      proof (cases "?ip = JStr ''None''")
        case True
        then show ?thesis using service \<open>requiresClusterIP service\<close> by (simp add: allocateClusterIP_def settles_pure)
      next
        case False
        then have eq: "allocateClusterIP st service existing = bind_op (lift_op (validateClusterIP st (str_of ?ip))) (\<lambda>_.
            bind_op (claimClusterIP st (str_of ?ip) existing) (\<lambda>_. return_op (set_spec ''clusterIPs'' (JArr [?ip]) service,
              (news ?old [str_of ?ip], []))))"
          using asked service True by (simp add: allocateClusterIP_def Let_def)
        show ?thesis unfolding eq
        proof (rule settles_lift, rule settles_return [OF claimed])
          fix I' P'
          assume "P' = P \<and> good_ip st (str_of ?ip) \<and>
            (if str_of ?ip \<in> set ?old then I' = I else \<exists>i. indexForIp (ss_ips st) (str_of ?ip) = Inr i \<and> i \<notin> I \<and> I' = insert i I)"
          then show "P' = P \<and> took_ip st I ?old service (set_spec ''clusterIPs'' (JArr [?ip]) service, news ?old [str_of ?ip], []) I'"
            using False True asked service old(2) own_ip [OF service refl] by (auto simp: took_ip_def returnable_def ip_indices_def)
        qed
      qed
    next
      case free: False
      have eq: "allocateClusterIP st service existing = bind_op (nextClusterIP st) (\<lambda>ip. return_op
          (set_spec ''clusterIPs'' (JArr [JStr ip]) (set_spec ''clusterIP'' (JStr ip) service), ([ip], [])))"
        using free service True by (simp add: allocateClusterIP_def Let_def)
      obtain c where ips: "open_ips (clusterIPRangeName c) c = Inr (ss_ips st)" using opened_spec(6) [OF st] by blast
      have next_ip: "settles st I P (nextClusterIP st) (\<lambda>ip I' P'. \<exists>i. 0 \<le> i \<and> i < ar_size (ir_range (ss_ips st)) \<and> i \<notin> I \<and>
          ip = address_at st i \<and> I' = insert i I \<and> P' = P)"
        unfolding nextClusterIP_def [abs_def] on_message_def ops settles_error by (rule ip_allocate_settles [OF st])
      show ?thesis unfolding eq
      proof (rule settles_return [OF next_ip])
        fix ip I' P'
        assume "\<exists>i. 0 \<le> i \<and> i < ar_size (ir_range (ss_ips st)) \<and> i \<notin> I \<and> ip = address_at st i \<and> I' = insert i I \<and> P' = P"
        then obtain i where i: "0 \<le> i" "i < ar_size (ir_range (ss_ips st))" "i \<notin> I" "ip = address_at st i" "I' = insert i I" "P' = P" by blast
        have place: "indexForIp (ss_ips st) ip = Inr i" using index_of_place(1) [OF ips i(1,2)] by (simp add: i(4) address_at_def)
        have "ip \<notin> set ?old" using old(2) i(3) place by (auto simp: ip_indices_def)
        then show "P' = P \<and> took_ip st I ?old service
            (set_spec ''clusterIPs'' (JArr [JStr ip]) (set_spec ''clusterIP'' (JStr ip) service), [ip], []) I'"
          using i place True service own_ip [of "set_spec ''clusterIP'' (JStr ip) service" "JStr ip"] address_not_None number_not_Nil
          by (auto simp: took_ip_def returnable_def ip_indices_def good_ip_def address_at_def str_of_def truthy_text)
      qed
    qed
  qed
qed

text \<open>The loop over the ports.\<close>

lemma claim_node_port:
  assumes "opened ops st" "has_pools st I P s" "claimNodePort st n existing s = (r, s')" "n \<notin> set (serviceNodePorts existing)"
  shows "case r of Inl err \<Rightarrow> has_pools st I P s' | Inr _ \<Rightarrow> n - ss_from st \<notin> P \<and> has_pools st I (insert (n - ss_from st) P) s'"
proof -
  have "claimNodePort st n existing = (\<lambda>s. map_error (\<lambda>err. if js_includes (store_error_message err) ''already allocated'' then
      plain (''nodePort '' @ show_int n @ '' is already allocated'') else err) (port_claim ops (ss_lock st) (ss_ports st) n s))"
    using assms(4) by (intro ext) (simp only: claimNodePort_def on_message_def opened_spec(1) [OF assms(1)] if_False)
  then have "settles st I P (claimNodePort st n existing) (\<lambda>_ I' P'. n - ss_from st \<notin> P \<and> I' = I \<and>
      P' = insert (n - ss_from st) P \<and> ss_from st \<le> n \<and> n \<le> ss_to st)"
    by (simp only: settles_error) (rule port_claim_settles [OF assms(1)])
  from settlesD [OF this assms(2,3)] show ?thesis by (auto split: sum.splits)
qed

lemma next_node_port:
  assumes "opened ops st" "has_pools st I P s" "nextNodePort st s = (r, s')"
  shows "case r of Inl err \<Rightarrow> has_pools st I P s' | Inr n \<Rightarrow> n - ss_from st \<notin> P \<and> has_pools st I (insert (n - ss_from st) P) s' \<and>
    ss_from st \<le> n \<and> n \<le> ss_to st"
proof -
  have "settles st I P (nextNodePort st) (\<lambda>n I' P'. n - ss_from st \<notin> P \<and> I' = I \<and> P' = insert (n - ss_from st) P \<and>
      ss_from st \<le> n \<and> n \<le> ss_to st)"
    unfolding nextNodePort_def [abs_def] on_message_def opened_spec(1) [OF assms(1)] settles_error
    by (rule port_allocate_settles [OF assms(1)])
  from settlesD [OF this assms(2,3)] show ?thesis by (auto split: sum.splits)
qed

lemma port_loop_law:
  assumes st: "opened ops st"
  shows "has_pools st I P s \<Longrightarrow> port_indices st ([], serviceNodePorts existing) \<subseteq> P \<Longrightarrow> list_all is_obj ps \<Longrightarrow>
    port_loop st existing ps finished allocated s = (r, s') \<Longrightarrow>
    \<exists>new P'. took_ports st P new P' \<and> has_pools st I P' s' \<and>
      (case r of Inl (err, allocated') \<Rightarrow> allocated' = allocated @ new
       | Inr (finished', allocated') \<Rightarrow> allocated' = allocated @ new \<and>
           (\<exists>ps'. finished' = finished @ ps' \<and> done_ports st ps' \<and> new = news (serviceNodePorts existing) (map port_number ps')))"
proof (induction ps arbitrary: finished allocated P s)
  case Nil
  then show ?case using took_none [of st P] by (intro exI [of _ "[]"] exI [of _ P]) (auto simp: done_ports_def)
next
  case (Cons p ps)
  let ?old = "serviceNodePorts existing"
  have objs: "is_obj p" "list_all is_obj ps" using Cons.prems(3) by simp_all
  have fails: ?case if "r = Inl (err, allocated)" "has_pools st I P s'" for err
    using that took_none [of st P] by (intro exI [of _ "[]"] exI [of _ P]) simp
  have kept: ?case if n: "n \<in> set ?old" and run: "port_loop st existing ps (finished @ [p]) allocated s = (r, s')"
      and p: "field ''nodePort'' p = JNum n" "ss_from st \<le> n" "n \<le> ss_to st" for n
  proof -
    obtain new P' where new: "took_ports st P new P'" "has_pools st I P' s'"
      "case r of Inl (err, allocated') \<Rightarrow> allocated' = allocated @ new
       | Inr (finished', allocated') \<Rightarrow> allocated' = allocated @ new \<and>
           (\<exists>ps'. finished' = (finished @ [p]) @ ps' \<and> done_ports st ps' \<and> new = news ?old (map port_number ps'))"
      using Cons.IH [OF Cons.prems(1,2) objs(2) run] by blast
    have "port_number p = n" "done_ports st (p # ps') = done_ports st ps'" for ps' using p objs(1) by (auto simp: port_number_def num_or_def done_ports_def)
    then show ?thesis using new n by (intro exI [of _ new] exI [of _ P']) (auto split: sum.splits intro!: exI [of _ "p # _"])
  qed
  have more: ?case if n: "n - ss_from st \<notin> P" and p': "is_obj p'" "field ''nodePort'' p' = JNum n" "ss_from st \<le> n" "n \<le> ss_to st"
      and run: "port_loop st existing ps (finished @ [p']) (allocated @ [n]) s1 = (r, s')" "has_pools st I (insert (n - ss_from st) P) s1" for n p' s1
  proof -
    have sub: "port_indices st ([], ?old) \<subseteq> insert (n - ss_from st) P" using Cons.prems(2) by blast
    obtain new P' where new: "took_ports st (insert (n - ss_from st) P) new P'" "has_pools st I P' s'"
      "case r of Inl (err, allocated') \<Rightarrow> allocated' = (allocated @ [n]) @ new
       | Inr (finished', allocated') \<Rightarrow> allocated' = (allocated @ [n]) @ new \<and>
           (\<exists>ps'. finished' = (finished @ [p']) @ ps' \<and> done_ports st ps' \<and> new = news ?old (map port_number ps'))"
      using Cons.IH [OF run(2) sub objs(2) run(1)] by blast
    have "n \<notin> set ?old" using Cons.prems(2) n by (auto simp: port_indices_def)
    moreover have "port_number p' = n" "done_ports st (p' # ps') = done_ports st ps'" for ps' using p' by (auto simp: port_number_def num_or_def done_ports_def)
    ultimately show ?thesis using new took_more [OF new(1) n p'(3,4)]
      by (intro exI [of _ "n # new"] exI [of _ P']) (auto split: sum.splits intro!: exI [of _ "p' # _"])
  qed
  show ?case
  proof (cases "field ''nodePort'' p = JUndef")
    case True
    obtain r1 s1 where run: "nextNodePort st s = (r1, s1)" by (cases "nextNodePort st s")
    show ?thesis
    proof (cases r1)
      case (Inl err)
      then have "r = Inl (err, allocated)" "s' = s1" using Cons.prems(4) True run by simp_all
      then show ?thesis using next_node_port [OF st Cons.prems(1) run] Inl by (intro fails [of err]) simp_all
    next
      case (Inr n)
      have obj: "is_obj (set_field ''nodePort'' (JNum n) p)" "field ''nodePort'' (set_field ''nodePort'' (JNum n) p) = JNum n"
        using objs(1) by (simp, rule field_set_same)
      show ?thesis
        using next_node_port [OF st Cons.prems(1) run] Cons.prems(4) True run Inr by (intro more [OF _ obj, of s1]) auto
    qed
  next
    case False
    show ?thesis
    proof (cases "validateNodePort st (field ''nodePort'' p)")
      case (Inl err)
      then have "r = Inl (err, allocated)" "s' = s" using Cons.prems(4) False by simp_all
      then show ?thesis using Cons.prems(1) by (intro fails [of err]) simp_all
    next
      case (Inr n)
      note n = Inr [unfolded validateNodePort_spec]
      obtain r1 s1 where run: "claimNodePort st n existing s = (r1, s1)" by (cases "claimNodePort st n existing s")
      show ?thesis
      proof (cases "n \<in> set ?old")
        case True
        then have "r1 = Inr ()" "s1 = s" using run by (simp_all add: claimNodePort_def)
        then show ?thesis using kept [OF True] n Inr Cons.prems(4) False run True by simp
      next
        case fresh: False
        show ?thesis
        proof (cases r1)
          case (Inl err)
          then have "r = Inl (err, allocated)" "s' = s1" using Cons.prems(4) False run \<open>validateNodePort st (field ''nodePort'' p) = Inr n\<close> by simp_all
          then show ?thesis using claim_node_port [OF st Cons.prems(1) run fresh] Inl by (intro fails [of err]) simp_all
        next
          case ok: (Inr u)
          then show ?thesis
            using more [of n p s1] claim_node_port [OF st Cons.prems(1) run fresh] Cons.prems(4) False run Inr n objs(1) fresh by simp
        qed
      qed
    qed
  qed
qed

lemma node_ports_law:
  assumes st: "opened ops st" and service: "whole service" and pre: "has_pools st I P s"
    and old: "port_indices st ([], serviceNodePorts existing) \<subseteq> P" and run: "allocateNodePorts st service existing s = (r, s')"
  shows "case r of Inl err \<Rightarrow> has_pools st I P s'
    | Inr (service', a) \<Rightarrow> \<exists>P'. has_pools st I P' s' \<and> fst a = [] \<and> took_ports st P (snd a) P' \<and>
        snd a = news (serviceNodePorts existing) (serviceNodePorts (Some service')) \<and> whole service' \<and> serviceType service' = serviceType service \<and>
        serviceClusterIPs (Some service') = serviceClusterIPs (Some service) \<and>
        (\<forall>port \<in> set (serviceNodePorts (Some service')). ss_from st \<le> port \<and> port \<le> ss_to st)"
proof (cases "requiresNodePorts service")
  case False
  show ?thesis
  proof (cases "list_ex (\<lambda>p. field ''nodePort'' p \<noteq> JUndef) (ports_of service)")
    case True
    then show ?thesis using run False service pre by (auto simp: allocateNodePorts_def)
  next
    case no_ports: False
    then have "serviceNodePorts (Some service) = []" by (auto simp: serviceNodePorts_def list_ex_iff filter_empty_conv)
    then show ?thesis using run False service pre no_ports took_none [of st P] by (auto simp: allocateNodePorts_def)
  qed
next
  case True
  obtain r1 s1 where loop: "port_loop st existing (ports_of service) [] [] s = (r1, s1)" by (cases "port_loop st existing (ports_of service) [] [] s")
  have objs: "list_all is_obj (ports_of service)" using service by (simp add: whole_def)
  obtain new P' where new: "took_ports st P new P'" "has_pools st I P' s1"
    and ended: "case r1 of Inl (err, allocated') \<Rightarrow> allocated' = [] @ new
       | Inr (finished', allocated') \<Rightarrow> allocated' = [] @ new \<and>
           (\<exists>ps'. finished' = [] @ ps' \<and> done_ports st ps' \<and> new = news (serviceNodePorts existing) (map port_number ps'))"
    using port_loop_law [OF st pre old objs loop] by blast
  have r1: "case r1 of Inl (err, allocated') \<Rightarrow> allocated' = new
       | Inr (finished', allocated') \<Rightarrow> allocated' = new \<and> done_ports st finished' \<and>
           new = news (serviceNodePorts existing) (map port_number finished')"
    using ended by (auto split: sum.splits)
  show ?thesis
  proof (cases r1)
    case (Inl e)
    then obtain err where e: "r1 = Inl (err, new)" using r1 by (cases e) simp
    have "ip_indices st ([], new) \<subseteq> I" "port_indices st ([], new) \<subseteq> P'" "returnable st ([], new)"
      using new(1) by (auto simp: took_ports_def ip_indices_def)
    then obtain s2 where s2: "releaseAllocations st ([], new) s1 = (Inr (), s2)"
        "has_pools st (I - ip_indices st ([], new)) (P' - port_indices st ([], new)) s2"
      using release_law [OF st new(2), of "([], new)"] by blast
    moreover have "I - ip_indices st ([], new) = I" "P' - port_indices st ([], new) = P"
      using new(1) by (auto simp: took_ports_def ip_indices_def)
    ultimately show ?thesis using run True loop e service by (auto simp: allocateNodePorts_def give_back_def bind_op_def throw_op_def)
  next
    case (Inr x)
    then obtain ps where x: "r1 = Inr (ps, new)" and ps: "done_ports st ps" "new = news (serviceNodePorts existing) (map port_number ps)"
      using r1 by (cases x) auto
    have res: "r = Inr (set_ports ps service, ([], new))" "s' = s1" using run True loop x service by (simp_all add: allocateNodePorts_def)
    have "list_all is_obj ps" using ps(1) by (simp add: done_ports_def list_all_iff)
    moreover have "ps = []" if "ports_of service = []" using loop x that by simp
    ultimately have fields: "whole (set_ports ps service)" "ports_of (set_ports ps service) = ps"
        "serviceType (set_ports ps service) = serviceType service"
        "serviceClusterIPs (Some (set_ports ps service)) = serviceClusterIPs (Some service)" using set_ports_fields [OF service] by blast+
    have numbers: "serviceNodePorts (Some (set_ports ps service)) = map port_number ps"
      using done_numbers [OF ps(1)] by (simp add: serviceNodePorts_def fields(2))
    then show ?thesis using res new ps fields by (auto simp: done_ports_def)
  qed
qed

lemma allocate_both_law:
  assumes st: "opened ops st" and service: "whole service" and pre: "has_pools st I P s"
    and old: "returnable st (serviceAllocations existing)" "ip_indices st (serviceAllocations existing) \<subseteq> I"
      "port_indices st (serviceAllocations existing) \<subseteq> P"
    and run: "allocate_both st service existing s = (r, s')"
  shows "case r of Inl err \<Rightarrow> has_pools st I P s'
    | Inr (service', a) \<Rightarrow> took st I P (serviceAllocations existing) service' a \<and> serviceType service' = serviceType service \<and>
        has_pools st (I \<union> ip_indices st a) (P \<union> port_indices st a) s' \<and>
        (\<not> requiresClusterIP service \<longrightarrow> serviceClusterIPs (Some service') = serviceClusterIPs (Some service))"
proof -
  let ?old = "serviceClusterIPs existing" and ?ports = "serviceNodePorts existing"
  have olds: "\<forall>ip \<in> set ?old. good_ip st ip" "ip_indices st (?old, ?ports) \<subseteq> I" "port_indices st ([], ?ports) \<subseteq> P"
    using old by (simp_all add: serviceAllocations_def returnable_def port_indices_def)
  obtain r1 s1 where first: "allocateClusterIP st service existing s = (r1, s1)" by (cases "allocateClusterIP st service existing s")
  note took1 = settlesD [OF cluster_ip_settles [OF st service olds(1,2)] pre first]
  show ?thesis
  proof (cases r1)
    case (Inl err)
    then have "r = Inl err" "s' = s1" using run first by (simp_all add: allocate_both_def give_back_def releaseAllocations_def return_op_def bind_op_def throw_op_def)
    then show ?thesis using took1 Inl by simp
  next
    case (Inr x)
    then obtain service1 a where x: "r1 = Inr (service1, a)" by (cases x) simp
    obtain I' where I': "has_pools st I' P s1" "took_ip st I ?old service (service1, a) I'" using took1 x by auto
    then have "I' = I \<union> ip_indices st a" by (simp add: took_ip_def)
    with I' have a: "has_pools st (I \<union> ip_indices st a) P s1" "took_ip st I ?old service (service1, a) (I \<union> ip_indices st a)" by simp_all
    then have service1: "whole service1" "serviceType service1 = serviceType service" "snd a = []" "returnable st a" "ip_indices st a \<inter> I = {}"
        "port_indices st a = {}"
      by (auto simp: took_ip_def port_indices_def)
    obtain r2 s2 where second: "allocateNodePorts st service1 existing s1 = (r2, s2)" by (cases "allocateNodePorts st service1 existing s1")
    note took2 = node_ports_law [OF st service1(1) a(1) olds(3) second]
    show ?thesis
    proof (cases r2)
      case (Inl err)
      then have "has_pools st (I \<union> ip_indices st a) P s2" using took2 by simp
      from release_law [OF st this service1(4)] obtain s3 where "releaseAllocations st a s2 = (Inr (), s3)"
          "has_pools st (I \<union> ip_indices st a - ip_indices st a) (P - port_indices st a) s3" using service1(6) by auto
      moreover have "I \<union> ip_indices st a - ip_indices st a = I" using service1(5) by auto
      ultimately show ?thesis using run first x second Inl service1(6)
        by (auto simp: allocate_both_def give_back_def bind_op_def throw_op_def)
    next
      case (Inr y)
      then obtain service2 b where y: "r2 = Inr (service2, b)" by (cases y) simp
      obtain P' where b: "has_pools st (I \<union> ip_indices st a) P' s2" "fst b = []" "took_ports st P (snd b) P'"
        "snd b = news ?ports (serviceNodePorts (Some service2))" "whole service2" "serviceType service2 = serviceType service1"
        "serviceClusterIPs (Some service2) = serviceClusterIPs (Some service1)"
        "\<forall>port \<in> set (serviceNodePorts (Some service2)). ss_from st \<le> port \<and> port \<le> ss_to st"
        using took2 y by auto
      have res: "r = Inr (service2, combineAllocations a b)" "s' = s2" using run first x second y by (simp_all add: allocate_both_def)
      have idx: "ip_indices st (combineAllocations a b) = ip_indices st a" "port_indices st (combineAllocations a b) = port_indices st ([], snd b)"
        by (simp_all add: ip_indices_def port_indices_def combineAllocations_def b(2) service1(3))
      have req: "requiresClusterIP service2 = requiresClusterIP service" by (simp add: requiresClusterIP_def b(6) service1(2))
      have "took st I P (?old, ?ports) service2 (combineAllocations a b)"
        using a(2) b service1 req unfolding took_def idx
        by (auto simp: took_ip_def took_ports_def returnable_def combineAllocations_def)
      moreover have "P' = P \<union> port_indices st ([], snd b)" using b(3) by (simp add: took_ports_def)
      ultimately show ?thesis using res b(1,6,7) idx service1(2) a(2) by (auto simp: serviceAllocations_def took_ip_def)
    qed
  qed
qed

text \<open>Creating: what is taken is what the service holds, and goes back when the create fails or the service is deleted.\<close>

lemma create_law:
  assumes st: "opened ops st" and service: "well_formed service" and pre: "has_pools st I P s"
    and run: "service_beginCreate st service s = (r, s')"
  shows "case r of Inl err \<Rightarrow> has_pools st I P s'
    | Inr (obj, finish) \<Rightarrow> \<exists>a. took st I P ([], []) obj a \<and> has_pools st (I \<union> ip_indices st a) (P \<union> port_indices st a) s' \<and>
        (\<forall>s. finish True s = (Inr (), s)) \<and> finish False = releaseAllocations st a"
proof -
  let ?service = "defaultPorts (in_field ''spec'' (default_field ''type'' (JStr ''ClusterIP'')) (specFor service))"
  have w: "whole ?service" by (intro whole_defaultPorts whole_default specFor_whole service)
  obtain r1 s1 where both: "allocate_both st ?service None s = (r1, s1)" by (cases "allocate_both st ?service None s")
  have none: "serviceAllocations None = ([], [])" by (simp add: serviceAllocations_def serviceClusterIPs_def serviceNodePorts_def)
  have "returnable st ([], [])" "ip_indices st ([], []) \<subseteq> I" "port_indices st ([], []) \<subseteq> P"
    by (simp_all add: returnable_def ip_indices_def port_indices_def)
  note law = allocate_both_law [OF st w pre _ _ _ both, unfolded none, OF this]
  show ?thesis
  proof (cases r1)
    case (Inl err)
    then show ?thesis using run both law by (auto simp: service_beginCreate_def bind_op_def)
  next
    case (Inr x)
    then obtain obj a where x: "r1 = Inr (obj, a)" by (cases x) simp
    then have "r = Inr (obj, \<lambda>success. if success then return_op () else releaseAllocations st a)" "s' = s1"
      using run both by (simp_all add: service_beginCreate_def bind_op_def return_op_def)
    then show ?thesis using law x by (simp add: return_op_def) (rule exI [of _ "fst a"], rule exI [of _ "snd a"], simp)
  qed
qed

text \<open>Updating: what is taken is new to the service, what it no longer holds is given back when the update succeeds.\<close>

lemma update_law:
  assumes st: "opened ops st" and service: "well_formed service" and pre: "has_pools st I P s"
    and old: "returnable st (serviceAllocations (Some existing))" "ip_indices st (serviceAllocations (Some existing)) \<subseteq> I"
      "port_indices st (serviceAllocations (Some existing)) \<subseteq> P"
    and run: "service_beginUpdate st service existing s = (r, s')"
  shows "case r of Inl err \<Rightarrow> has_pools st I P s'
    | Inr (obj, finish) \<Rightarrow> \<exists>a. took st I P (serviceAllocations (Some existing)) obj a \<and>
        has_pools st (I \<union> ip_indices st a) (P \<union> port_indices st a) s' \<and>
        (\<not> requiresClusterIP obj \<longrightarrow> serviceClusterIPs (Some obj) = []) \<and>
        finish True = releaseAllocations st (allocations_difference (serviceAllocations (Some existing)) (serviceAllocations (Some obj))) \<and>
        finish False = releaseAllocations st a"
proof -
  let ?typed = "defaultPorts (in_field ''spec'' (default_field ''type'' (or_else (field ''type'' (spec existing)) (JStr ''ClusterIP''))) (specFor service))"
  let ?service = "preserveNodePorts (preserveClusterIP ?typed existing) existing"
  have typed: "whole ?typed" by (intro whole_defaultPorts whole_default specFor_whole service)
  note kept = whole_preserve [OF typed, of existing]
  note kept' = whole_preserve [OF kept(1), of existing]
  have req: "requiresClusterIP ?service = requiresClusterIP ?typed" by (simp add: requiresClusterIP_def kept(2) kept'(5))
  obtain r1 s1 where both: "allocate_both st ?service (Some existing) s = (r1, s1)" by (cases "allocate_both st ?service (Some existing) s")
  note law = allocate_both_law [OF st kept'(4) pre old both]
  show ?thesis
  proof (cases r1)
    case (Inl err)
    then show ?thesis using run both law by (auto simp: service_beginUpdate_def Let_def bind_op_def)
  next
    case (Inr x)
    then obtain obj a where x: "r1 = Inr (obj, a)" by (cases x) simp
    let ?released = "allocations_difference (serviceAllocations (Some existing)) (serviceAllocations (Some obj))"
    have res: "r = Inr (obj, \<lambda>success. releaseAllocations st (if success then ?released else a))" "s' = s1"
      using run both x by (simp_all add: service_beginUpdate_def Let_def bind_op_def return_op_def)
    have "serviceType obj = serviceType ?service" using law x by simp
    then have "requiresClusterIP obj = requiresClusterIP ?service" by (simp add: requiresClusterIP_def)
    then show ?thesis using law x res req kept(3) kept'(6) by simp (rule exI [of _ "fst a"], rule exI [of _ "snd a"], auto)
  qed
qed

lemma delete_law:
  assumes "opened ops st" "has_pools st I P s" "returnable st (serviceAllocations (Some obj))"
    "ip_indices st (serviceAllocations (Some obj)) \<subseteq> I" "port_indices st (serviceAllocations (Some obj)) \<subseteq> P"
  shows "\<exists>s'. afterDelete (service_hooks st) obj s = (Inr (), s') \<and>
    has_pools st (I - ip_indices st (serviceAllocations (Some obj))) (P - port_indices st (serviceAllocations (Some obj))) s'"
  using release_law [OF assms] by (simp add: service_hooks_def)

text \<open>As long as an address is free, a service without node ports gets one.\<close>

lemma address_found:
  assumes st: "opened ops st" and pre: "has_pools st I P s" and free: "i \<notin> I" "0 \<le> i" "i < ar_size (ir_range (ss_ips st))"
  shows "\<exists>ip s'. nextClusterIP st s = (Inr ip, s')"
proof -
  let ?r = "ir_range (ss_ips st)"
  obtain res s1 where res: "range_allocate ops (ss_lock st) ?r s = (res, s1)" by (cases "range_allocate ops (ss_lock st) ?r s")
  then have "range_step ops (ss_lock st) ?r Allocate s = (result_of Index res, s1)" by (simp add: range_step_def)
  from step_ips [OF st pre this] obtain cursor where x: "result_of Index res = fst (spec_step ?r Allocate (I, cursor))" by blast
  have "i = (cursor + (i - cursor) mod ar_size ?r) mod ar_size ?r" using free(2,3) by (simp add: mod_add_right_eq)
  moreover have "(i - cursor) mod ar_size ?r \<in> set [0..ar_size ?r - 1]"
    using free(2,3) pos_mod_bound [of "ar_size ?r" "i - cursor"] pos_mod_sign [of "ar_size ?r" "i - cursor"] by auto
  ultimately have "i \<in> set (candidates ?r cursor)" unfolding candidates_def set_map by blast
  then have "List.find (\<lambda>i. i \<notin> I) (candidates ?r cursor) \<noteq> None" using free(1) by (auto simp: find_None_iff)
  then obtain j where "res = Inr j" using x by (cases res) (auto simp: result_of_def)
  moreover obtain c where "open_ips (clusterIPRangeName c) c = Inr (ss_ips st)" using opened_spec(6) [OF st] by blast
  ultimately show ?thesis
    using res open_ips_spec(3) by (simp add: nextClusterIP_def on_message_def map_error_def ip_allocate_def bind_op_def return_op_def opened_spec(1) [OF st])
qed

lemma allocation_succeeds:
  assumes st: "opened ops st" and pre: "has_pools st I P s" and free: "i \<notin> I" "0 \<le> i" "i < ar_size (ir_range (ss_ips st))"
    and service: "whole service" "serviceType service = JStr ''ClusterIP''" "field ''clusterIP'' (spec service) = JUndef"
      "list_all (\<lambda>p. field ''nodePort'' p = JUndef) (ports_of service)"
  shows "\<exists>obj a s'. allocate_both st service existing s = (Inr (obj, a), s')"
proof -
  obtain ip s1 where ip: "nextClusterIP st s = (Inr ip, s1)" using address_found [OF st pre free] by blast
  let ?obj = "set_spec ''clusterIPs'' (JArr [JStr ip]) (set_spec ''clusterIP'' (JStr ip) service)"
  have "allocateClusterIP st service existing s = (Inr (?obj, ([ip], [])), s1)"
    using service ip by (simp add: allocateClusterIP_def requiresClusterIP_def truthy_def bind_op_def return_op_def)
  moreover have "allocateNodePorts st ?obj existing s1 = (Inr (?obj, ([], [])), s1)"
    using service by (simp add: allocateNodePorts_def requiresNodePorts_def list_all_iff list_ex_iff)
  ultimately show ?thesis by (simp add: allocate_both_def)
qed

text \<open>An \<open>ExternalName\<close> service with a cluster IP takes nothing, yet deleting it gives the address back.\<close>

lemma external_name_frees:
  assumes st: "opened ops st" and service: "whole service" "serviceType service = JStr ''ExternalName''" "ports_of service = []"
    and pre: "has_pools st I P s"
    and ip: "serviceClusterIPs (Some service) = [ip]" "indexForIp (ss_ips st) ip = Inr i" "0 \<le> i" "i < ar_size (ir_range (ss_ips st))" "i \<in> I"
  shows "\<exists>obj finish s'. service_beginCreate st service s = (Inr (obj, finish), s) \<and>
    afterDelete (service_hooks st) obj s = (Inr (), s') \<and> has_pools st (I - {i}) P s'"
proof -
  let ?typed = "in_field ''spec'' (default_field ''type'' (JStr ''ClusterIP'')) service"
  let ?obj = "defaultPorts ?typed"
  have "is_obj (spec service)" using service(1) by (simp add: whole_def)
  then have type: "serviceType ?typed = JStr ''ExternalName''" "ports_of ?typed = []" "serviceClusterIPs (Some ?typed) = [ip]"
    using service ip(1) by (auto simp: serviceType_def whole_def field_in_same field_default_same or_else_def ports_of_def serviceClusterIPs_def
        split: if_splits)
  have w: "whole ?typed" by (rule whole_default [OF service(1)])
  have obj: "whole ?obj" "serviceType ?obj = JStr ''ExternalName''" "serviceClusterIPs (Some ?obj) = [ip]" "ports_of ?obj = []"
    using whole_map_ports [OF w, of "\<lambda>i. defaultPort"] type set_ports_fields(2) [OF w, of "[]"]
    by (simp_all add: defaultPorts_def defaultPort_def Let_def map_ports_def)
  have free: "\<not> requiresClusterIP ?obj" "\<not> requiresNodePorts ?obj" by (simp_all add: requiresClusterIP_def requiresNodePorts_def obj(2))
  have "allocate_both st ?obj None s = (Inr (?obj, ([], [])), s)"
    using obj free by (simp add: allocate_both_def allocateClusterIP_def allocateNodePorts_def return_op_def combineAllocations_def)
  then have created: "service_beginCreate st service s = (Inr (?obj, \<lambda>success. if success then return_op () else releaseAllocations st ([], [])), s)"
    using service(1) by (simp add: service_beginCreate_def bind_op_def return_op_def)
  have all: "serviceAllocations (Some ?obj) = ([ip], [])" using obj(3,4) by (simp add: serviceAllocations_def serviceNodePorts_def)
  have "returnable st ([ip], [])" "ip_indices st ([ip], []) = {i}" "port_indices st ([ip], []) = {}"
    using ip by (auto simp: returnable_def good_ip_def ip_indices_def port_indices_def)
  with delete_law [OF st pre, of ?obj] all ip(5)
  obtain s' where "afterDelete (service_hooks st) ?obj s = (Inr (), s')" "has_pools st (I - {i}) P s'" by auto
  then show ?thesis using created by blast
qed

end

section \<open>The accounts\<close>

lemma settle_sets:
  assumes "\<And>x y i. x \<in> X \<Longrightarrow> y \<in> X \<Longrightarrow> R x i \<Longrightarrow> R y i \<Longrightarrow> x = y"
    and "{i. \<exists>x \<in> X. R x i} \<subseteq> I" "{i. \<exists>x \<in> Y - X. R x i} \<inter> I = {}"
  shows "(I \<union> {i. \<exists>x \<in> Y - X. R x i}) - {i. \<exists>x \<in> X - Y. R x i} = (I - {i. \<exists>x \<in> X. R x i}) \<union> {i. \<exists>x \<in> Y. R x i}"
  using assms by blast

lemma set_news [simp]: "set (news old xs) = set xs - set old"
  by (auto simp: news_def)

lemma swap_sets:
  assumes "returnable st old" "ip_indices st old \<subseteq> I" "port_indices st old \<subseteq> P"
    and "fst a = news (fst old) (fst new)" "snd a = news (snd old) (snd new)" "ip_indices st a \<inter> I = {}" "port_indices st a \<inter> P = {}"
  shows "I \<union> ip_indices st a - ip_indices st (allocations_difference old new) = (I - ip_indices st old) \<union> ip_indices st new"
    and "P \<union> port_indices st a - port_indices st (allocations_difference old new) = (P - port_indices st old) \<union> port_indices st new"
proof -
  have ports: "port_indices st b = {i. \<exists>p \<in> set (snd b). i = p - ss_from st}" for b by (auto simp: port_indices_def)
  have diff: "set (fst (allocations_difference old new)) = set (fst old) - set (fst new)"
      "set (snd (allocations_difference old new)) = set (snd old) - set (snd new)" by (auto simp: allocations_difference_def)
  show "I \<union> ip_indices st a - ip_indices st (allocations_difference old new) = (I - ip_indices st old) \<union> ip_indices st new"
    unfolding ip_indices_def diff assms(4) set_news
  proof (rule settle_sets)
    fix x y i assume "x \<in> set (fst old)" "y \<in> set (fst old)" "indexForIp (ss_ips st) x = Inr i" "indexForIp (ss_ips st) y = Inr i"
    moreover have "inj_on (indexForIp (ss_ips st)) (set (fst old))" using assms(1) by (simp add: returnable_def distinct_map)
    ultimately show "x = y" by (metis inj_onD)
  qed (use assms in \<open>auto simp: ip_indices_def\<close>)
  show "P \<union> port_indices st a - port_indices st (allocations_difference old new) = (P - port_indices st old) \<union> port_indices st new"
    unfolding ports diff assms(5) set_news
    by (rule settle_sets) (use assms in \<open>auto simp: ports\<close>)
qed

context etcd_keys
begin

lemmas create_etcd = client.create_law
lemmas update_etcd = client.update_law
lemmas release_etcd = client.release_law
lemmas initialize_etcd = client.initialize_law
lemmas delete_etcd = client.delete_law
lemmas succeeds_etcd = client.allocation_succeeds

end

abbreviation etcd_pools :: "order \<Rightarrow> fake_state service_store \<Rightarrow> int set \<Rightarrow> int set \<Rightarrow> fake_state \<Rightarrow> bool" where
  "etcd_pools lc \<equiv> pools (etcd_ok lc) (stored_at lc)"

text \<open>
  C9. Creating a service takes from the two ranges exactly the node ports that the created service holds and, if its
  type has a cluster IP, its cluster IP; all of them were free before. A create that fails, at the allocation or
  afterwards, leaves both ranges as they were. Deleting the service again, with nothing else allocated in between,
  restores both ranges too, if the type has a cluster IP or the service names none. (A service of type
  ExternalName that names a cluster IP does not take it, and its deletion frees it all the same:
  \<open>external_name_frees\<close>.)
\<close>
theorem created_service_accounts:
  assumes "etcd_keys lc" "opened (etcd_ops lc) st" "well_formed service" "etcd_pools lc st I P s"
    and "service_beginCreate st service s = (r, s')"
  shows "case r of
      Inl err \<Rightarrow> etcd_pools lc st I P s'
    | Inr (obj, finish) \<Rightarrow>
        (let a = (if requiresClusterIP obj then serviceClusterIPs (Some obj) else [], serviceNodePorts (Some obj)) in
           ip_indices st a \<inter> I = {} \<and> port_indices st a \<inter> P = {} \<and>
           etcd_pools lc st (I \<union> ip_indices st a) (P \<union> port_indices st a) s') \<and>
        (\<exists>s2. finish False s' = (Inr (), s2) \<and> etcd_pools lc st I P s2) \<and>
        (requiresClusterIP obj \<or> serviceClusterIPs (Some obj) = [] \<longrightarrow>
           (\<exists>s2. afterDelete (service_hooks st) obj s' = (Inr (), s2) \<and> etcd_pools lc st I P s2))"
proof (cases r)
  case (Inl err)
  then show ?thesis using etcd_keys.create_etcd [OF assms] by simp
next
  case (Inr x)
  obtain obj finish where x: "x = (obj, finish)" by (cases x)
  obtain a where a: "took st I P ([], []) obj a" "etcd_pools lc st (I \<union> ip_indices st a) (P \<union> port_indices st a) s'"
      "finish False = releaseAllocations st a"
    using etcd_keys.create_etcd [OF assms] Inr x by auto
  then have fresh: "returnable st a" "ip_indices st a \<inter> I = {}" "port_indices st a \<inter> P = {}" by (simp_all add: took_def)
  then have undone: "I \<union> ip_indices st a - ip_indices st a = I" "P \<union> port_indices st a - port_indices st a = P" by auto
  have exact: "(if requiresClusterIP obj then serviceClusterIPs (Some obj) else [], serviceNodePorts (Some obj)) = a"
    using a(1) by (auto simp: took_def intro: prod_eqI)
  then have held: "a = serviceAllocations (Some obj)" if "requiresClusterIP obj \<or> serviceClusterIPs (Some obj) = []"
    using that by (auto simp: serviceAllocations_def split: if_splits)
  have "\<exists>s2. finish False s' = (Inr (), s2) \<and> etcd_pools lc st I P s2"
    using etcd_keys.release_etcd [OF assms(1,2) a(2) fresh(1)] undone a(3) by simp
  moreover have "\<exists>s2. afterDelete (service_hooks st) obj s' = (Inr (), s2) \<and> etcd_pools lc st I P s2"
    if "requiresClusterIP obj \<or> serviceClusterIPs (Some obj) = []"
    using etcd_keys.delete_etcd [OF assms(1,2) a(2), of obj] fresh(1) undone held [OF that] by simp
  ultimately show ?thesis using Inr x a(2) fresh(2,3) unfolding exact [symmetric] by (simp add: Let_def)
qed

text \<open>
  C10. Updating a service that holds its address and ports exchanges them for those of the updated service: after a
  successful update the ranges have given up what it held before and taken what it holds now, after a failed one
  they are as they were.
\<close>
theorem updated_service_accounts:
  assumes "etcd_keys lc" "opened (etcd_ops lc) st" "well_formed service" "etcd_pools lc st I P s"
    and "returnable st (serviceAllocations (Some existing))" "ip_indices st (serviceAllocations (Some existing)) \<subseteq> I"
    and "port_indices st (serviceAllocations (Some existing)) \<subseteq> P"
    and "service_beginUpdate st service existing s = (r, s')"
  shows "case r of
      Inl err \<Rightarrow> etcd_pools lc st I P s'
    | Inr (obj, finish) \<Rightarrow>
        (\<exists>s2. finish True s' = (Inr (), s2) \<and> etcd_pools lc st
           ((I - ip_indices st (serviceAllocations (Some existing))) \<union> ip_indices st (serviceAllocations (Some obj)))
           ((P - port_indices st (serviceAllocations (Some existing))) \<union> port_indices st (serviceAllocations (Some obj))) s2) \<and>
        (\<exists>s2. finish False s' = (Inr (), s2) \<and> etcd_pools lc st I P s2)"
proof (cases r)
  case (Inl err)
  then show ?thesis using etcd_keys.update_etcd [OF assms] by simp
next
  case (Inr x)
  let ?old = "serviceAllocations (Some existing)"
  obtain obj finish where x: "x = (obj, finish)" by (cases x)
  let ?new = "serviceAllocations (Some obj)" and ?gone = "allocations_difference ?old (serviceAllocations (Some obj))"
  obtain a where a: "took st I P ?old obj a" "etcd_pools lc st (I \<union> ip_indices st a) (P \<union> port_indices st a) s'"
      "\<not> requiresClusterIP obj \<longrightarrow> serviceClusterIPs (Some obj) = []"
      "finish True = releaseAllocations st ?gone" "finish False = releaseAllocations st a"
    using etcd_keys.update_etcd [OF assms] Inr x by auto
  have fresh: "returnable st a" "ip_indices st a \<inter> I = {}" "port_indices st a \<inter> P = {}" using a(1) by (simp_all add: took_def)
  have lists: "fst a = news (fst ?old) (fst ?new)" "snd a = news (snd ?old) (snd ?new)"
    using a(1,3) by (auto simp: took_def serviceAllocations_def split: if_splits)
  note swap = swap_sets [OF assms(5-7) lists fresh(2,3)]
  have gone: "returnable st ?gone" "ip_indices st ?gone \<subseteq> I \<union> ip_indices st a" "port_indices st ?gone \<subseteq> P \<union> port_indices st a"
    using assms(5-7) by (auto simp: returnable_def allocations_difference_def ip_indices_def port_indices_def distinct_map inj_on_def)
  have undone: "I \<union> ip_indices st a - ip_indices st a = I" "P \<union> port_indices st a - port_indices st a = P" using fresh by auto
  show ?thesis
    using etcd_keys.release_etcd [OF assms(1,2) a(2) gone] etcd_keys.release_etcd [OF assms(1,2) a(2) fresh(1)] undone swap a(4,5) Inr x
    by simp
qed


section \<open>A small store\<close>

definition small_services :: "fake_state service_store" where
  "small_services = (let ops = etcd_ops order_cmp; env = \<lparr>le_waits = [], le_giveup = plain ''timeout''\<rparr> in
     case new_service_store ops env (Some ''10.0.0.0/30'') 30000 30003 of
       Inr st \<Rightarrow> st
     | Inl _ \<Rightarrow> \<lparr>ss_ops = ops, ss_lock = env, ss_ips = \<lparr>ir_range = \<lparr>ar_name = [], ar_size = 0\<rparr>, ir_cidr = make_cidr V4 0 0\<rparr>,
         ss_ports = open_ports [] 0 0, ss_from = 0, ss_to = 0\<rparr>)"

definition small_state :: fake_state where
  "small_state = snd (service_initialize (etcd_ops order_cmp) (Some ''10.0.0.0/30'') 30000 30003 (new_fake_state None))"

definition web_service :: json where
  "web_service = JObj [(''metadata'', JObj [(''name'', JStr ''web'')]),
     (''spec'', JObj [(''type'', JStr ''ClusterIP''), (''ports'', JArr [JObj [(''port'', JNum 80)]])])]"

definition web_alias :: json where
  "web_alias = JObj [(''metadata'', JObj [(''name'', JStr ''web'')]),
     (''spec'', JObj [(''type'', JStr ''ExternalName''), (''externalName'', JStr ''example.org'')])]"

lemma small_opened: "new_service_store (etcd_ops order_cmp) \<lparr>le_waits = [], le_giveup = plain ''timeout''\<rparr> (Some ''10.0.0.0/30'') 30000 30003 =
    Inr small_services"
proof -
  have "isl (open_ips (clusterIPRangeName ''10.0.0.0/30'') ''10.0.0.0/30'') = False" by code_simp
  then obtain ips where "open_ips (clusterIPRangeName ''10.0.0.0/30'') ''10.0.0.0/30'' = Inr ips" by (auto simp: isl_def) (metis sum.exhaust)
  then show ?thesis by (simp add: small_services_def new_service_store_def default_cidr_def)
qed

lemma small_pools: "etcd_pools order_cmp small_services {} {} small_state"
proof -
  have none: "stored_at order_cmp (new_fake_state None) k = None" for k
    by (simp add: stored_at_def new_fake_state_def revisions_of_def currentValue_def sm_get_def)
  show ?thesis using code_units.initialize_etcd [OF new_state_ok none none small_opened] by (auto simp: small_state_def)
qed

lemma small_range: "0 < ar_size (ir_range (ss_ips small_services))"
proof -
  have "0 < ar_size (ir_range (case open_ips (clusterIPRangeName ''10.0.0.0/30'') ''10.0.0.0/30'' of Inr ips \<Rightarrow> ips | _ \<Rightarrow> undefined))" by code_simp
  moreover obtain ips where ips: "open_ips (clusterIPRangeName ''10.0.0.0/30'') ''10.0.0.0/30'' = Inr ips"
    using small_opened by (cases "open_ips (clusterIPRangeName ''10.0.0.0/30'') ''10.0.0.0/30''") (auto simp: new_service_store_def default_cidr_def)
  moreover have "ss_ips small_services = ips"
    using small_opened ips by (simp add: new_service_store_def default_cidr_def) (metis service_store.select_convs(3))
  ultimately show ?thesis by simp
qed

lemma small_open: "opened (etcd_ops order_cmp) small_services"
  using small_opened by (auto simp: opened_def)

lemma web_formed: "well_formed web_service"
  by (simp add: well_formed_def web_service_def field_def ports_of_def elements_def)

lemma created_service_accounts_witness:
  "\<exists>obj finish s1 s2. service_beginCreate small_services web_service small_state = (Inr (obj, finish), s1) \<and>
     finish False s1 = (Inr (), s2) \<and> etcd_pools order_cmp small_services {} {} s2"
proof -
  let ?service = "defaultPorts (in_field ''spec'' (default_field ''type'' (JStr ''ClusterIP'')) (specFor web_service))"
  have w: "whole ?service" by (intro whole_defaultPorts whole_default specFor_whole web_formed)
  have fields: "serviceType ?service = JStr ''ClusterIP''" "field ''clusterIP'' (spec ?service) = JUndef"
    "list_all (\<lambda>p. field ''nodePort'' p = JUndef) (ports_of ?service)" by code_simp+
  obtain obj a s1 where "allocate_both small_services ?service None small_state = (Inr (obj, a), s1)"
    using code_units.succeeds_etcd [OF small_open small_pools _ _ small_range w fields, of None] by auto
  then obtain finish where run: "service_beginCreate small_services web_service small_state = (Inr (obj, finish), s1)"
    by (simp add: service_beginCreate_def bind_op_def return_op_def)
  from created_service_accounts [OF code_units.etcd_keys_axioms small_open web_formed small_pools run]
  show ?thesis using run by auto
qed

lemma updated_service_accounts_witness:
  "\<exists>obj finish s1 s2. service_beginUpdate small_services web_service web_alias small_state = (Inr (obj, finish), s1) \<and>
     finish True s1 = (Inr (), s2) \<and>
     etcd_pools order_cmp small_services (ip_indices small_services (serviceAllocations (Some obj)))
       (port_indices small_services (serviceAllocations (Some obj))) s2"
proof -
  let ?service = "preserveNodePorts (preserveClusterIP (defaultPorts (in_field ''spec'' (default_field ''type''
      (or_else (field ''type'' (spec web_alias)) (JStr ''ClusterIP''))) (specFor web_service))) web_alias) web_alias"
  have "whole (defaultPorts (in_field ''spec'' (default_field ''type''
      (or_else (field ''type'' (spec web_alias)) (JStr ''ClusterIP''))) (specFor web_service)))"
    by (intro whole_defaultPorts whole_default specFor_whole web_formed)
  then have w: "whole ?service" by (intro whole_preserve)
  have fields: "serviceType ?service = JStr ''ClusterIP''" "field ''clusterIP'' (spec ?service) = JUndef"
    "list_all (\<lambda>p. field ''nodePort'' p = JUndef) (ports_of ?service)" by code_simp+
  have none: "serviceAllocations (Some web_alias) = ([], [])" by code_simp
  obtain obj a s1 where "allocate_both small_services ?service (Some web_alias) small_state = (Inr (obj, a), s1)"
    using code_units.succeeds_etcd [OF small_open small_pools _ _ small_range w fields, of "Some web_alias"] by auto
  then obtain finish where run: "service_beginUpdate small_services web_service web_alias small_state = (Inr (obj, finish), s1)"
    by (simp add: service_beginUpdate_def Let_def bind_op_def return_op_def)
  have empty: "returnable small_services ([], [])" "ip_indices small_services ([], []) = {}" "port_indices small_services ([], []) = {}"
    by (simp_all add: returnable_def ip_indices_def port_indices_def)
  from updated_service_accounts [OF code_units.etcd_keys_axioms small_open web_formed small_pools _ _ _ run, unfolded none empty]
  show ?thesis using run empty(1) by auto
qed

end
