(* ===== verification/Patch.thy ===== *)
theory Patch
  imports StoresLaws
begin

text \<open>
  Patches of JSON objects: the merge patch of the API server (\<open>src/client/gen/apis/impls\<close>), the strategic merge
  patch (\<open>src/apimachinery/pkg/util/strategicpatch/patch.ts\<close>) and the patch that \<open>apply\<close> computes from what was
  applied last and what is desired (\<open>src/cluster/apply.ts\<close>).
\<close>

section \<open>Merge patch\<close>

text \<open>\<open>isPatchObject\<close>: a date is an object without entries of its own.\<close>

definition plain_object :: "json \<Rightarrow> bool" where
  "plain_object v = (case v of JObj fs \<Rightarrow> True | JDate d \<Rightarrow> True | _ \<Rightarrow> False)"

definition own_entries :: "json \<Rightarrow> (string \<times> json) list" where
  "own_entries v = (case v of JObj fs \<Rightarrow> fs | _ \<Rightarrow> [])"

definition del_field :: "string \<Rightarrow> json \<Rightarrow> json" where
  "del_field k v = (case v of JObj fs \<Rightarrow> JObj (jm_del k fs) | _ \<Rightarrow> v)"

abbreviation entries_size :: "(string \<times> json) list \<Rightarrow> nat" where
  "entries_size es \<equiv> size_list (size_prod (\<lambda>_. 0) size) es"

lemma entries_size_le [simp]: "entries_size (own_entries v) \<le> size v"
  by (cases v) (simp_all add: own_entries_def)

function applyPatchObject :: "json \<Rightarrow> (string \<times> json) list \<Rightarrow> json" where
  "applyPatchObject target [] = target"
| "applyPatchObject target ((k, v) # es) =
     applyPatchObject
       (if v = JNull then del_field k target
        else if plain_object v \<and> plain_object (field k target)
        then set_field k (applyPatchObject (field k target) (own_entries v)) target
        else set_field k v target) es"
  by pat_completeness auto
termination by (relation "measure (\<lambda>(target, es). entries_size es)") (auto intro: le_less_trans [OF entries_size_le])

definition mergePatch :: "json \<Rightarrow> json \<Rightarrow> store_error + json" where
  "mergePatch target patch =
     (if \<not> plain_object patch then Inl (plain ''Merge patch body must be an object'') else Inr (applyPatchObject target (own_entries patch)))"

section \<open>Strategic merge patch\<close>

definition directive_prefix :: string where
  "directive_prefix = ''$deleteFromPrimitiveList''"

definition extractKey :: "string \<Rightarrow> string \<Rightarrow> store_error + string" where
  "extractKey s pre =
     (case take 2 (js_split CHR ''/'' s) of
        [actual, key] \<Rightarrow> if actual = pre then Inr key else Inl (plain (''failed to find prefix '' @ pre @ '' in '' @ s))
      | _ \<Rightarrow> Inl (plain (''failed to find prefix '' @ pre @ '' in '' @ s)))"

text \<open>\<open>===\<close> and membership in a \<open>Set\<close>: two objects out of different values are never the same.\<close>

definition same_value :: "json \<Rightarrow> json \<Rightarrow> bool" where
  "same_value x y \<longleftrightarrow> x = y \<and> (case x of JObj _ \<Rightarrow> False | JArr _ \<Rightarrow> False | JDate _ \<Rightarrow> False | _ \<Rightarrow> True)"

definition deleteFromSlice :: "json list \<Rightarrow> json list \<Rightarrow> json list" where
  "deleteFromSlice original patch = filter (\<lambda>item. \<not> list_ex (same_value item) patch) original"

definition patchMergeKeyForPath :: "string list \<Rightarrow> string option" where
  "patchMergeKeyForPath path = (if js_join ''.'' path = ''metadata.ownerReferences'' then Some ''uid'' else None)"

text \<open>The index of the first element with the value at the merge key.\<close>

definition find_map :: "json list \<Rightarrow> string \<Rightarrow> json \<Rightarrow> nat option" where
  "find_map xs mergeKey x = List.find (\<lambda>i. same_value (field mergeKey (xs ! i)) x) [0..<length xs]"

definition deleteMatchingEntries :: "json list \<Rightarrow> string \<Rightarrow> json \<Rightarrow> json list" where
  "deleteMatchingEntries xs mergeKey x = filter (\<lambda>v. \<not> same_value (field mergeKey v) x) xs"

fun special_elements :: "json list \<Rightarrow> json list \<Rightarrow> string \<Rightarrow> json list" where
  "special_elements original [] mergeKey = original"
| "special_elements original (v # patch) mergeKey =
     special_elements
       (if field ''$patch'' v = JStr ''delete'' \<and> field mergeKey v \<noteq> JUndef then deleteMatchingEntries original mergeKey (field mergeKey v)
        else original) patch mergeKey"

definition plain_elements :: "json list \<Rightarrow> json list" where
  "plain_elements patch = filter (\<lambda>v. field ''$patch'' v = JUndef) patch"

lemma plain_elements_size: "size_list size (plain_elements ys) \<le> size_list size ys"
  by (induction ys) (auto simp: plain_elements_def)

text \<open>
  \<open>mergeMap\<close> over the entries of the patch and \<open>mergeSliceWithoutSpecialElements\<close> over its elements; the
  elements are merged under the path of their list.
\<close>

function mergeMap :: "string list \<Rightarrow> json \<Rightarrow> (string \<times> json) list \<Rightarrow> store_error + json"
  and mergeElements :: "string list \<Rightarrow> string \<Rightarrow> json list \<Rightarrow> json list \<Rightarrow> store_error + json list" where
  "mergeMap path original [] = Inr original"
| "mergeMap path original ((k, v) # es) =
     (let merged =
        (if take (length directive_prefix) k = directive_prefix then
           (case extractKey k directive_prefix of
              Inl err \<Rightarrow> Inl err
            | Inr key \<Rightarrow>
                Inr (case field key original of
                       JArr xs \<Rightarrow> (case v of JArr ys \<Rightarrow> set_field key (JArr (deleteFromSlice xs ys)) original | _ \<Rightarrow> original)
                     | _ \<Rightarrow> original))
         else if v = JNull then Inr (del_field k original)
         else if plain_object (field k original) \<and> plain_object v then
           map_sum id (\<lambda>x. set_field k x original) (mergeMap (path @ [k]) (field k original) (own_entries v))
         else case field k original of
           JArr xs \<Rightarrow>
             (case v of
                JArr ys \<Rightarrow>
                  (case patchMergeKeyForPath (path @ [k]) of
                     None \<Rightarrow> Inr (set_field k v original)
                   | Some mergeKey \<Rightarrow>
                       if \<not> list_all plain_object xs \<or> \<not> list_all plain_object ys then Inr (set_field k v original)
                       else map_sum id (\<lambda>zs. set_field k (JArr zs) original)
                         (mergeElements (path @ [k]) mergeKey (special_elements xs ys mergeKey) (plain_elements ys)))
              | _ \<Rightarrow> Inr (set_field k v original))
         | _ \<Rightarrow> Inr (set_field k v original))
      in case merged of Inl err \<Rightarrow> Inl err | Inr original \<Rightarrow> mergeMap path original es)"
| "mergeElements path mergeKey original [] = Inr original"
| "mergeElements path mergeKey original (v # patch) =
     (if field mergeKey v = JUndef then mergeElements path mergeKey original patch
      else case find_map original mergeKey (field mergeKey v) of
        None \<Rightarrow> mergeElements path mergeKey (original @ [v]) patch
      | Some i \<Rightarrow>
          (case mergeMap path (original ! i) (own_entries v) of
             Inl err \<Rightarrow> Inl err
           | Inr x \<Rightarrow> mergeElements path mergeKey (original[i := x]) patch))"
  by pat_completeness auto
termination
  by (relation "measure (\<lambda>x. case x of Inl (path, original, es) \<Rightarrow> entries_size es | Inr (path, mergeKey, original, ys) \<Rightarrow> size_list size ys)")
    (auto intro: le_imp_less_Suc le_less_trans [OF plain_elements_size] le_less_trans [OF entries_size_le])

definition strategicMergePatch :: "json \<Rightarrow> json \<Rightarrow> store_error + json" where
  "strategicMergePatch original patch =
     (if \<not> plain_object patch then Inl (plain ''Strategic merge patch body must be an object'') else mergeMap [] original (own_entries patch))"

section \<open>The patch of apply\<close>

lemma field_smaller: "k \<in> set (map fst (own_entries v)) \<Longrightarrow> size (field k v) < size v"
proof -
  assume k: "k \<in> set (map fst (own_entries v))"
  then obtain fs where v: "v = JObj fs" by (cases v) (simp_all add: own_entries_def)
  obtain x where x: "map_of fs k = Some x" using k v by (auto simp: own_entries_def) (metis map_of_eq_None_iff not_None_eq image_eqI fst_conv)
  have "(k, x) \<in> set fs" using map_of_SomeD [OF x] .
  then have "size_prod (\<lambda>_. 0) size (k, x) \<le> entries_size fs" by (rule size_list_estimation') simp
  then show ?thesis using x v by (simp add: field_def)
qed

text \<open>The entries of the patch, in the order of the \<open>Set\<close> of keys.\<close>

function createThreeWayMergePatch :: "json \<Rightarrow> json \<Rightarrow> json \<Rightarrow> (string \<times> json) list" where
  "createThreeWayMergePatch existing previous desired =
     concat (map (\<lambda>k.
       if k \<notin> set (map fst (own_entries desired)) then [(k, JNull)]
       else let d = field k desired; p = field k previous in
         if d = JUndef then []
         else if plain_object d \<and> plain_object p then
           (let child = createThreeWayMergePatch (field k existing) p d in if child = [] then [] else [(k, JObj child)])
         else if \<not> deepEqual no_options d p then [(k, d)]
         else []) (js_add_all (map fst (own_entries previous) @ map fst (own_entries desired)) []))"
  by pat_completeness auto
termination by (relation "measure (\<lambda>(existing, previous, desired). size desired)") (auto intro!: field_smaller rev_image_eqI)


text \<open>\<open>v ??= {}\<close> where \<open>v\<close> is anything but an object.\<close>

definition ensurePlainObject :: "json \<Rightarrow> string \<Rightarrow> json" where
  "ensurePlainObject parent k = (if plain_object (field k parent) then parent else set_field k (JObj []) parent)"

definition last_applied :: string where
  "last_applied = ''kubectl.kubernetes.io/last-applied-configuration''"

definition lastAppliedValue :: "json \<Rightarrow> string" where
  "lastAppliedValue resource =
     (let annotations = del_field last_applied (field ''annotations'' (meta resource)) in
      stringify
        (if \<not> truthy (field ''annotations'' (meta resource)) then resource
         else in_field ''metadata'' (if own_entries annotations = [] then del_field ''annotations'' else set_field ''annotations'' annotations) resource))"

definition withLastApplied :: "json \<Rightarrow> json" where
  "withLastApplied resource =
     in_field ''metadata'' (\<lambda>m. in_field ''annotations'' (set_field last_applied (JStr (lastAppliedValue resource)))
       (default_field ''annotations'' (JObj []) m)) (default_field ''metadata'' (JObj []) resource)"

definition previousLastApplied :: "json \<Rightarrow> json option" where
  "previousLastApplied resource =
     (let encoded = field last_applied (field ''annotations'' (meta resource)) in
      if \<not> truthy encoded then None
      else case json_parse (str_of encoded) of
        None \<Rightarrow> None
      | Some parsed \<Rightarrow> if plain_object parsed then Some parsed else None)"

definition createApplyPatch :: "json \<Rightarrow> json \<Rightarrow> json" where
  "createApplyPatch existing desired =
     (let previous = (case previousLastApplied existing of Some p \<Rightarrow> p | None \<Rightarrow> JObj []);
          patch = JObj (createThreeWayMergePatch existing previous desired)
      in in_field ''metadata'' (\<lambda>m. in_field ''annotations'' (set_field last_applied (JStr (lastAppliedValue desired)))
           (ensurePlainObject m ''annotations'')) (ensurePlainObject patch ''metadata''))"

definition server_fields :: "string list" where
  "server_fields = [''resourceVersion'', ''uid'', ''creationTimestamp'', ''deletionGracePeriodSeconds'', ''deletionTimestamp'',
     ''generation'', ''managedFields'', ''selfLink'']"

definition prepareDesiredResource :: "json \<Rightarrow> bool \<Rightarrow> json" where
  "prepareDesiredResource resource namespaced =
     (let desired = default_field ''metadata'' (JObj []) (default_field ''apiVersion'' (JStr ''v1'') resource);
          desired = in_field ''metadata''
            (if namespaced then default_field ''namespace'' (JStr ''default'') else del_field ''namespace'') desired
      in in_field ''metadata'' (fold del_field server_fields) (del_field ''status'' desired))"

definition resourceKey :: "json \<Rightarrow> string" where
  "resourceKey resource = str_of (or_else (field ''apiVersion'' resource) (JStr ''v1'')) @ ''/'' @
     str_of (or_else (field ''kind'' resource) (JStr []))"

definition requiredName :: "json \<Rightarrow> store_error + string" where
  "requiredName resource =
     (if truthy (field ''name'' (meta resource)) then Inr (str_of (field ''name'' (meta resource)))
      else Inl (plain ''resource name may not be empty''))"

definition requiredNamespace :: "json \<Rightarrow> store_error + string" where
  "requiredNamespace resource =
     (if truthy (field ''namespace'' (meta resource)) then Inr (str_of (field ''namespace'' (meta resource)))
      else Inl (plain (resourceKey resource @ '' apply requires metadata.namespace'')))"

end
