(* ===== verification/PatchLaws.thy ===== *)
theory PatchLaws
  imports Patch
begin

text \<open>
  Patched objects are JSON objects again, and the patch that \<open>apply\<close> sends establishes what is desired: it sets the
  desired fields, removes those that were applied before and are no longer desired, and leaves the others alone. The
  strategic merge patches by which controllers adopt and release objects change just the references they name.
\<close>

declare createThreeWayMergePatch.simps [simp del]

section \<open>Fields of a patched object\<close>

lemma own_entries_obj [simp]: "own_entries (JObj fs) = fs"
  by (simp add: own_entries_def)

lemma plain_object_obj [simp]: "plain_object (JObj fs)"
  by (simp add: plain_object_def)


lemma field_del [simp]: "field k (del_field k' v) = (if k = k' then JUndef else field k v)"
  by (cases v) (auto simp: field_def del_field_def)

lemma is_obj_del [simp]: "is_obj (del_field k v) = is_obj v"
  by (cases v) (auto simp: del_field_def is_obj_def)

lemma is_obj_apply [simp]: "is_obj (applyPatchObject target es) = is_obj target"
proof (induction es arbitrary: target)
  case (Cons e es)
  obtain k v where e: "e = (k, v)" by (cases e)
  show ?case unfolding e applyPatchObject.simps(2) Cons.IH by simp
qed simp



section \<open>Patched objects are JSON\<close>

definition oks :: "(string \<times> json) list \<Rightarrow> bool" where
  "oks es \<longleftrightarrow> (\<forall>(k, v) \<in> set es. json_ok v)"

lemma oks_simps [simp]: "oks []" "oks ((k, v) # es) \<longleftrightarrow> json_ok v \<and> oks es"
  by (simp_all add: oks_def)

lemma json_ok_del: "json_ok v \<Longrightarrow> json_ok (del_field k v)"
proof (cases v)
  case (JObj fs)
  assume ok: "json_ok v"
  have sub: "set (jm_del k fs) \<subseteq> set fs" by (auto simp: AList.delete_eq)
  have "distinct (map fst (jm_del k fs))" using ok JObj by (simp add: distinct_delete)
  moreover have "list_all (\<lambda>(k, v). json_ok v) (jm_del k fs)" using ok JObj sub by (auto simp: list_all_iff)
  ultimately show ?thesis by (simp add: del_field_def JObj)
qed (simp_all add: del_field_def)

lemma own_oks: "json_ok v \<Longrightarrow> oks (own_entries v) \<and> distinct (map fst (own_entries v))"
  by (cases v) (auto simp: own_entries_def oks_def list_all_iff)

lemma apply_ok: "json_ok target \<Longrightarrow> oks es \<Longrightarrow> json_ok (applyPatchObject target es)"
proof (induction target es rule: applyPatchObject.induct)
  case (2 target k v es)
  have v: "json_ok v" "oks es" using "2.prems"(2) by simp_all
  have inner: "json_ok (applyPatchObject (field k target) (own_entries v))" if "v \<noteq> JNull" "plain_object v \<and> plain_object (field k target)"
    using "2.IH"(1) [OF that] json_ok_field [OF "2.prems"(1)] own_oks [OF v(1)] by blast
  have "json_ok (if v = JNull then del_field k target
      else if plain_object v \<and> plain_object (field k target)
      then set_field k (applyPatchObject (field k target) (own_entries v)) target else set_field k v target)"
    using "2.prems"(1) v(1) inner by (auto intro: json_ok_del json_ok_set)
  then show ?case using "2.IH"(2) v(2) by simp
qed simp

lemma elements_ok: "json_ok (JArr xs) \<longleftrightarrow> (\<forall>x \<in> set xs. json_ok x)"
  by (simp add: list_all_iff)

lemma special_ok: "\<forall>x \<in> set xs. json_ok x \<Longrightarrow> \<forall>x \<in> set (special_elements xs ys k). json_ok x"
proof (induction ys arbitrary: xs)
  case (Cons y ys)
  have "\<forall>x \<in> set (deleteMatchingEntries xs k z). json_ok x" for z using Cons.prems by (simp add: deleteMatchingEntries_def)
  then show ?case unfolding special_elements.simps(2) by (intro Cons.IH) (simp add: Cons.prems)
qed simp

lemma merge_ok_size:
  "(\<forall>path original es v. entries_size es < n \<longrightarrow> json_ok original \<longrightarrow> oks es \<longrightarrow> mergeMap path original es = Inr v \<longrightarrow> json_ok v) \<and>
   (\<forall>path mergeKey xs ys zs. size_list size ys < n \<longrightarrow> (\<forall>x \<in> set xs. json_ok x) \<longrightarrow> (\<forall>y \<in> set ys. json_ok y) \<longrightarrow>
      mergeElements path mergeKey xs ys = Inr zs \<longrightarrow> (\<forall>z \<in> set zs. json_ok z))"
proof (induction n)
  case (Suc n)
  have maps: "json_ok v" if "entries_size es < n" "json_ok original" "oks es" "mergeMap path original es = Inr v" for path original es v
    using Suc.IH that by blast
  have elems: "\<forall>z \<in> set zs. json_ok z" if "size_list size ys < n" "\<forall>x \<in> set xs. json_ok x" "\<forall>y \<in> set ys. json_ok y"
      "mergeElements path mergeKey xs ys = Inr zs" for path mergeKey xs ys zs
    using Suc.IH that by blast
  have step: "json_ok x" if es: "entries_size es < Suc n" "json_ok original" "oks es" "mergeMap path original es = Inr x" for path original es x
  proof (cases es)
    case Nil
    then show ?thesis using that by simp
  next
    case (Cons e es')
    obtain k v where e: "e = (k, v)" by (cases e)
    have v: "json_ok v" "oks es'" "entries_size es' < n" "entries_size (own_entries v) < n"
      using es(1,3) Cons e le_less_trans [OF entries_size_le [of v], of n] by auto
    have set_ok: "json_ok y \<Longrightarrow> json_ok (set_field k y original)" for k y using es(2) by (rule json_ok_set)
    obtain y where y: "mergeMap path y es' = Inr x" "json_ok y"
    proof -
      note run = es(4) [unfolded Cons e mergeMap.simps(2) Let_def]
      consider (directive) "take (length directive_prefix) k = directive_prefix"
        | (null) "take (length directive_prefix) k \<noteq> directive_prefix" "v = JNull"
        | (object) "take (length directive_prefix) k \<noteq> directive_prefix" "v \<noteq> JNull" "plain_object (field k original) \<and> plain_object v"
        | (arrays) xs ys where "take (length directive_prefix) k \<noteq> directive_prefix" "v = JArr ys" "field k original = JArr xs"
        | (other) "take (length directive_prefix) k \<noteq> directive_prefix" "v \<noteq> JNull" "\<not> (plain_object (field k original) \<and> plain_object v)"
            "\<not> (\<exists>xs ys. v = JArr ys \<and> field k original = JArr xs)"
        by blast
      then show ?thesis
      proof cases
        case directive
        obtain key where key: "extractKey k directive_prefix = Inr key" using run directive by (cases "extractKey k directive_prefix") simp_all
        let ?y = "case field key original of JArr xs \<Rightarrow> (case v of JArr ys \<Rightarrow> set_field key (JArr (deleteFromSlice xs ys)) original | _ \<Rightarrow> original)
          | _ \<Rightarrow> original"
        have "json_ok ?y"
        proof (cases "field key original")
          case (JArr xs)
          then have "json_ok (JArr (deleteFromSlice xs ys))" for ys
            using json_ok_field [OF es(2), of key] by (auto simp: deleteFromSlice_def list_all_iff)
          then show ?thesis using JArr es(2) by (cases v) (simp_all add: json_ok_set del: json_ok.simps)
        qed (simp_all add: es(2))
        then show ?thesis using run directive key that by simp
      next
        case null
        then show ?thesis using run that json_ok_del [OF es(2)] by simp
      next
        case object
        then obtain z where z: "mergeMap (path @ [k]) (field k original) (own_entries v) = Inr z"
          using run by (cases "mergeMap (path @ [k]) (field k original) (own_entries v)") simp_all
        have "json_ok z" by (rule maps [OF v(4) json_ok_field [OF es(2)] _ z]) (use own_oks [OF v(1)] in simp)
        then show ?thesis using run object z set_ok that by simp
      next
        case arrays
        have xs: "\<forall>x \<in> set xs. json_ok x" "\<forall>y \<in> set ys. json_ok y"
          using json_ok_field [OF es(2), of k] v(1) arrays by (simp_all add: list_all_iff)
        have plain: "v \<noteq> JNull" "\<not> plain_object v" using arrays by (simp_all add: plain_object_def)
        show ?thesis
        proof (cases "patchMergeKeyForPath (path @ [k])")
          case None
          then show ?thesis using run arrays plain that set_ok [OF v(1)] by simp
        next
          case (Some mergeKey)
          show ?thesis
          proof (cases "list_all plain_object xs \<and> list_all plain_object ys")
            case False
            then show ?thesis using run arrays plain Some that set_ok [OF v(1)] by (simp split: if_splits)
          next
            case True
            then obtain zs where zs: "mergeElements (path @ [k]) mergeKey (special_elements xs ys mergeKey) (plain_elements ys) = Inr zs"
              using run arrays plain Some
              by (cases "mergeElements (path @ [k]) mergeKey (special_elements xs ys mergeKey) (plain_elements ys)") simp_all
            have "size_list size (plain_elements ys) < n"
              using es(1) Cons e arrays(2) plain_elements_size [of ys] by simp
            then have "\<forall>z \<in> set zs. json_ok z"
              by (rule elems [OF _ special_ok [OF xs(1)] _ zs]) (simp add: plain_elements_def xs(2))
            then have "json_ok (JArr zs)" by (simp add: list_all_iff)
            then show ?thesis using run arrays plain Some True zs that set_ok by simp
          qed
        qed
      next
        case other
        have no: "(plain_object (field k original) \<and> plain_object v) = False" using other(3) by simp
        have "mergeMap path (set_field k v original) es' = Inr x"
          using run other(1,2,4) unfolding no by (simp split: json.splits)
        then show ?thesis using that set_ok [OF v(1)] by simp
      qed
    qed
    show ?thesis by (rule maps [OF v(3) y(2) v(2) y(1)])
  qed
  have elements: "\<forall>z \<in> set zs. json_ok z" if ys: "size_list size ys < Suc n" "\<forall>x \<in> set xs. json_ok x" "\<forall>y \<in> set ys. json_ok y"
      "mergeElements path mergeKey xs ys = Inr zs" for path mergeKey xs ys zs
  proof (cases ys)
    case Nil
    then show ?thesis using that by simp
  next
    case (Cons v patch)
    have v: "json_ok v" "\<forall>y \<in> set patch. json_ok y" "size_list size patch < n" "entries_size (own_entries v) < n"
      using ys(1,3) Cons le_less_trans [OF entries_size_le [of v], of n] by auto
    show ?thesis
    proof (cases "field mergeKey v = JUndef")
      case True
      then show ?thesis using elems [OF v(3) ys(2) v(2)] ys(4) Cons by simp
    next
      case False
      show ?thesis
      proof (cases "find_map xs mergeKey (field mergeKey v)")
        case None
        have "\<forall>x \<in> set (xs @ [v]). json_ok x" using ys(2) v(1) by simp
        from elems [OF v(3) this v(2)] show ?thesis using ys(4) Cons False None by simp
      next
        case (Some i)
        then have "i < length xs" by (auto simp: find_map_def find_Some_iff)
        then have i: "json_ok (xs ! i)" using ys(2) by simp
        obtain x where x: "mergeMap path (xs ! i) (own_entries v) = Inr x"
          using ys(4) Cons False Some by (cases "mergeMap path (xs ! i) (own_entries v)") simp_all
        have "json_ok x" by (rule maps [OF v(4) i _ x]) (use own_oks [OF v(1)] in simp)
        then have "\<forall>y \<in> set (xs[i := x]). json_ok y" using ys(2) set_update_subset_insert [of xs i x] by blast
        from elems [OF v(3) this v(2)] show ?thesis using ys(4) Cons False Some x by simp
      qed
    qed
  qed
  show ?case using step elements by blast
qed simp

lemma merge_ok: "json_ok original \<Longrightarrow> oks es \<Longrightarrow> mergeMap path original es = Inr v \<Longrightarrow> json_ok v"
  using merge_ok_size [of "Suc (entries_size es)"] by blast

section \<open>The patch of apply\<close>

lemma map_of_concat:
  assumes "\<And>k. map fst (f k) = [] \<or> map fst (f k) = [k]" "distinct ks"
  shows "map_of (concat (map f ks)) k = (if k \<in> set ks then map_of (f k) k else None)"
    and "distinct (map fst (concat (map f ks)))"
proof -
  have other: "k' \<noteq> k \<Longrightarrow> map_of (f k') k = None" for k' k using assms(1) [of k'] by (auto simp: map_of_eq_None_iff simp flip: set_map)
  have same: "map_of (f k') k = Some x \<Longrightarrow> k' = k" for k' k x using other [of k' k] by auto
  have keys: "set (map fst (f k)) \<subseteq> {k}" "distinct (map fst (f k))" for k using assms(1) [of k] by auto
  show "map_of (concat (map f ks)) k = (if k \<in> set ks then map_of (f k) k else None)"
    using assms(2) by (induction ks) (auto simp: other map_add_def split: option.split dest: same)
  have sub: "set (map fst (concat (map f ks))) \<subseteq> set ks" using keys(1) by fastforce
  show "distinct (map fst (concat (map f ks)))"
    using assms(2)
  proof (induction ks)
    case (Cons k ks)
    have "set (map fst (concat (map f ks))) \<subseteq> set ks" for ks using keys(1) by fastforce
    then show ?case using Cons keys(1) [of k] keys(2) [of k] by fastforce
  qed simp
qed

definition keys_of :: "json \<Rightarrow> string set" where
  "keys_of v = set (map fst (own_entries v))"


definition entry_at :: "json \<Rightarrow> json \<Rightarrow> json \<Rightarrow> string \<Rightarrow> (string \<times> json) list" where
  "entry_at existing previous desired k =
     (if k \<notin> keys_of desired then [(k, JNull)]
      else if field k desired = JUndef then []
      else if plain_object (field k desired) \<and> plain_object (field k previous) then
        (if createThreeWayMergePatch (field k existing) (field k previous) (field k desired) = [] then []
         else [(k, JObj (createThreeWayMergePatch (field k existing) (field k previous) (field k desired)))])
      else if \<not> deepEqual no_options (field k desired) (field k previous) then [(k, field k desired)] else [])"

lemma three_way_lookup:
  "map_of (createThreeWayMergePatch existing previous desired) k =
     (if k \<in> keys_of previous \<union> keys_of desired then map_of (entry_at existing previous desired k) k else None)"
  "distinct (map fst (createThreeWayMergePatch existing previous desired))"
proof -
  have eq: "createThreeWayMergePatch existing previous desired =
      concat (map (entry_at existing previous desired) (js_add_all (map fst (own_entries previous) @ map fst (own_entries desired)) []))"
    unfolding createThreeWayMergePatch.simps [of existing previous desired]
    by (intro arg_cong [where f = concat] map_cong refl) (simp add: entry_at_def keys_of_def Let_def)
  have single: "map fst (entry_at existing previous desired k) = [] \<or> map fst (entry_at existing previous desired k) = [k]" for k
    by (simp add: entry_at_def)
  have distinct: "distinct (js_add_all (map fst (own_entries previous) @ map fst (own_entries desired)) [])" by simp
  show "map_of (createThreeWayMergePatch existing previous desired) k =
     (if k \<in> keys_of previous \<union> keys_of desired then map_of (entry_at existing previous desired k) k else None)"
    unfolding eq map_of_concat(1) [OF single distinct] by (simp add: keys_of_def)
  show "distinct (map fst (createThreeWayMergePatch existing previous desired))"
    unfolding eq by (rule map_of_concat(2) [OF single distinct])
qed

lemma three_way_ok: "json_ok desired \<Longrightarrow> oks (createThreeWayMergePatch existing previous desired)"
proof (induction "size desired" arbitrary: existing previous desired rule: less_induct)
  case less
  have "json_ok v" if "(k, v) \<in> set (createThreeWayMergePatch existing previous desired)" for k v
  proof -
    have "map_of (createThreeWayMergePatch existing previous desired) k = Some v"
      using that three_way_lookup(2) by (simp add: map_of_eq_Some_iff)
    then have v: "map_of (entry_at existing previous desired k) k = Some v" by (simp add: three_way_lookup(1) split: if_splits)
    have "json_ok (JObj (createThreeWayMergePatch (field k existing) (field k previous) (field k desired)))" if "k \<in> keys_of desired"
    proof -
      have "oks (createThreeWayMergePatch (field k existing) (field k previous) (field k desired))"
        by (rule less.hyps) (use that field_smaller [of k desired] json_ok_field [OF less.prems] in \<open>simp_all add: keys_of_def\<close>)
      then show ?thesis using three_way_lookup(2) by (auto simp: oks_def list_all_iff)
    qed
    then show ?thesis using v json_ok_field [OF less.prems, of k] by (auto simp: entry_at_def split: if_splits)
  qed
  then show ?case by (auto simp: oks_def)
qed

text \<open>The value at a path of keys.\<close>

fun at_path :: "string list \<Rightarrow> json \<Rightarrow> json" where
  "at_path [] v = v"
| "at_path (k # path) v = at_path path (field k v)"





lemma at_undef [simp]: "at_path path JUndef = JUndef"
  by (induction path) (simp_all add: field_def)


lemma at_append: "at_path (path @ [k]) v = field k (at_path path v)"
  by (induction path arbitrary: v) simp_all
















text \<open>
  Patches keep objects JSON: applied to a JSON object, a merge patch, a strategic merge patch and the patch
  that \<open>apply\<close> computes give values in which every object has each key once, at every depth.
\<close>
lemma patches_keep_json:
  assumes "json_ok target" "json_ok patch" "json_ok desired"
  shows "(mergePatch target patch = Inr v \<longrightarrow> json_ok v) \<and> (strategicMergePatch target patch = Inr v \<longrightarrow> json_ok v) \<and>
    json_ok (JObj (createThreeWayMergePatch existing previous desired))"
proof (intro conjI)
  have es: "oks (own_entries patch)" using own_oks [OF assms(2)] by blast
  show "mergePatch target patch = Inr v \<longrightarrow> json_ok v" using apply_ok [OF assms(1) es] by (auto simp: mergePatch_def)
  show "strategicMergePatch target patch = Inr v \<longrightarrow> json_ok v" using merge_ok [OF assms(1) es] by (auto simp: strategicMergePatch_def)
  show "json_ok (JObj (createThreeWayMergePatch existing previous desired))"
    using three_way_ok [OF assms(3), of existing previous] three_way_lookup(2) by (auto simp: oks_def list_all_iff)
qed

section \<open>What was applied last\<close>






section \<open>What apply establishes\<close>



lemma is_obj_ensure [simp]: "is_obj (ensurePlainObject v k) = is_obj v"
  by (simp add: ensurePlainObject_def)































section \<open>Owner references\<close>








lemma same_text [simp]: "same_value v (JStr u) \<longleftrightarrow> v = JStr u"
  by (auto simp: same_value_def)












section \<open>What it does not\<close>

text \<open>
  The patch is computed from what was applied last alone: whatever the object has become since, applying the
  same resource again sends nothing but the annotation, so a value that somebody else changed stays changed.
\<close>

lemma drift_ignored: "json_ok desired \<Longrightarrow> createThreeWayMergePatch existing desired desired = []"
proof (induction "size desired" arbitrary: existing desired rule: less_induct)
  case less
  have "map_of (createThreeWayMergePatch existing desired desired) k = None" for k
  proof (cases "k \<in> keys_of desired")
    case True
    have ok: "json_ok (field k desired)" using less.prems by (rule json_ok_field)
    have "createThreeWayMergePatch (field k existing) (field k desired) (field k desired) = []"
      by (rule less.hyps) (use field_smaller [of k desired] True ok in \<open>simp_all add: keys_of_def\<close>)
    moreover have "deepEqual no_options (field k desired) (field k desired)" using equal_at_canon [OF ok ok] by (simp add: deepEqual_def)
    ultimately show ?thesis by (simp add: three_way_lookup(1) entry_at_def)
  qed (simp add: three_way_lookup(1))
  then show ?case by (metis map_of_eq_empty_iff ext)
qed

text \<open>
  When the annotations were applied before and are not desired any more, the \<open>null\<close> that would remove them is
  overwritten by the object that carries what was applied last, and all of them stay.
\<close>

definition note_previous :: json where
  "note_previous = JObj [(''metadata'', JObj [(''annotations'', JObj [(''team'', JStr ''red'')])])]"

definition note_stored :: json where
  "note_stored = JObj [(''metadata'', JObj [(''annotations'', JObj [(''team'', JStr ''red''),
     (last_applied, JStr (stringify note_previous))])])]"

definition note_desired :: json where
  "note_desired = JObj [(''metadata'', JObj [])]"

lemma annotations_stay:
  "at_path [''metadata'', ''annotations'', ''team''] note_desired = JUndef \<and> previousLastApplied note_stored = Some note_previous \<and>
   at_path [''metadata'', ''annotations'', ''team'']
     (applyPatchObject note_stored (own_entries (createApplyPatch note_stored note_desired))) = JStr ''red''"
  by (intro conjI; code_simp)

text \<open>A \<open>null\<close> in an object that is new to the target is stored, not taken as the absence of a value.\<close>

lemma nested_null_stored: "applyPatchObject (JObj []) [(''spec'', JObj [(''paused'', JNull)])] = JObj [(''spec'', JObj [(''paused'', JNull)])]"
  by code_simp

end
