(* ===== verification/Spec2Isabelle.thy ===== *)
theory Spec2Isabelle
  imports LabelRoundtrip FieldSelector RateLimiters Cache Fifo EtcdWatch ReplicaSets DeploymentLaws
    NetLaws ServiceLaws PatchLaws
begin

text \<open>
  Webernetes is a Kubernetes control plane and node in TypeScript: an API server over an in-memory etcd
  (\<open>src/cluster\<close>), controllers (\<open>src/controller\<close>), and the parts of \<open>client-go\<close>, \<open>apimachinery\<close> and the Go
  standard library they need, each a translation of the Go original. This library models the parts that
  carry state or logic of their own, from the bottom up.

  \<^bold>\<open>How the program is modelled.\<close> A class with fields is a record, a method is a function from the
  arguments and the state to the result and the new state; where an object is reached from several
  places and changed in place, the state holds an explicit store (\<open>Heap\<close>, \<open>DelayingQueue\<close>). The pairs
  \<open>[value, err]\<close> of the code are pairs or sums with an error type; a thrown error is a value of a sum. A
  promise that is not yet resolved is an entry of a list of waiters, and an operation returns which of
  them it wakes (\<open>Sync\<close>, \<open>Workqueue\<close>); a loop of awaits is a step relation or a run of steps. JavaScript
  maps and sets keep the order of insertion and are lists of entries with distinct keys (\<open>jmap\<close> in
  \<open>JsPrelude\<close>). Strings are lists of 8-bit characters, in the etcd lists of UTF-16 units. Numbers that
  count are \<open>nat\<close> or \<open>int\<close>; where the code works in 32 bits they are words (\<open>Json\<close>, FNV) or reduced
  explicitly. What the program takes from outside (the API server seen from a controller, clocks, random
  numbers, \<open>localeCompare\<close>, index and key functions) is an argument, and what a theorem needs of it is a
  named predicate, shown to hold for a concrete instance in the theorem's witness.

  \<^bold>\<open>Theories and what they model.\<close>

  \<^item> \<open>JsPrelude\<close>: strings, maps, sets, stable sort and \<open>[value, err]\<close> pairs, with the lemmas all theories share.
  \<^item> \<open>Strconv\<close>: \<open>go/strconv.ts\<close>. \<open>FieldErrors\<close>: \<open>util/validation/field\<close> and \<open>util/errors\<close>. \<open>Regexp\<close>,
    \<open>LabelContent\<close>: the validation of labels and names against regular expressions, by a derivative matcher
    that is proved against the language of the expression.
  \<^item> \<open>Labels\<close>, \<open>LabelSelector\<close>, \<open>LabelParser\<close>, \<open>LabelRoundtrip\<close>: \<open>apimachinery/pkg/labels\<close>. Requirements match as
    the documentation says; printing and parsing are inverse; the lexer terminates by progress.
  \<^item> \<open>FieldSelector\<close>: \<open>apimachinery/pkg/fields\<close>, with the round trips of escaping and of parsing.
  \<^item> \<open>Sync\<close>: \<open>go/sync\<close>, with mutual exclusion over all runs of callers. \<open>Workqueue\<close>, \<open>Heap\<close>, \<open>DelayingQueue\<close>,
    \<open>RateLimiters\<close>: \<open>client-go/util/workqueue\<close> and \<open>go/container/heap\<close>. An item is never with two workers, a
    sleeping worker is never left beside a queued item, an item is released when it is due and not before.
  \<^item> \<open>ObjectMeta\<close>, \<open>ThreadSafeStore\<close>, \<open>Cache\<close>, \<open>Fifo\<close>: \<open>client-go/tools/cache\<close>. The indices of the store
    always agree with its items; the caches are clients of the locale \<open>store_contract\<close>.
  \<^item> \<open>Json\<close>: JSON values, \<open>deep-equal.ts\<close>, \<open>fnv.ts\<close> and the hash of a template.
  \<^item> \<open>SortedMap\<close>, \<open>Etcd\<close>, \<open>EtcdLaws\<close>, \<open>EtcdReads\<close>, \<open>EtcdWatch\<close>: \<open>collections.ts\<close> and \<open>cluster/etcd.ts\<close>. The
    abstract specification of the store is the sequence of its past states: a read at an old revision
    returns what the store held then, a list followed by a watch rebuilds the current contents, a late
    watcher sees what an early one saw, and a transaction that compares revisions succeeds at most once.
    The order of the keys is a parameter with the contract \<open>etcd_keys\<close>: a consistent order that tells different keys
    apart, as \<open>localeCompare\<close> does up to spellings that Unicode calls equal, which are idealised away. It need not be
    the order of \<open><\<close> by which the code tests the bounds of a range, so the theorems on ranges ask that the keys of the range
    stand together, and \<open>EtcdReads\<close> shows what goes wrong when they do not.
  \<^item> \<open>JsNumber\<close>, \<open>Net\<close>, \<open>NetLaws\<close>: \<open>Number(text)\<close>, \<open>go/net/ip.ts\<close> and \<open>net.ts\<close>. Printing an address and parsing
    it again gives the same address; a CIDR range holds exactly the addresses with its prefix.
  \<^item> \<open>EtcdClient\<close>: the client side of \<open>cluster/etcd.ts\<close>, with \<open>withLock\<close> over arbitrary actions of others while
    it waits. \<open>Allocatable\<close>, \<open>AllocatableLaws\<close>: \<open>cluster/storage/allocatable.ts\<close>, the ranges of ports and of
    addresses, as a refinement of a set of indices with a cursor.
  \<^item> \<open>JsonText\<close>: \<open>JSON.stringify\<close>, \<open>JSON.parse\<close> and the text of a date, which the language provides and the stores and
    \<open>apply\<close> use; inverse up to undefined properties and dates. \<open>Store\<close>,
    \<open>StoreLaws\<close>: \<open>cluster/storage/store.ts\<close> over any etcd with the contract \<open>keyed_store\<close>, with arbitrary actions
    of others at every await: of the updates with one resource version at most one succeeds, what was created is
    read. \<open>Stores\<close>, \<open>StoresLaws\<close>, \<open>ServiceStore\<close>, \<open>ServiceLaws\<close>: the stores of pods, namespaces, nodes, events,
    endpoint slices, deployments, replica sets and services. A bound pod stays on its node, unless an update is told to
    skip the validation; the ranges account for exactly the addresses and ports that services hold.
  \<^item> \<open>Patch\<close>, \<open>PatchLaws\<close>: the merge patch of \<open>client/gen/apis/impls\<close>, \<open>util/strategicpatch/patch.ts\<close> and the
    patch of \<open>cluster/apply.ts\<close>. Applying establishes the desired values, removes what is no longer desired and keeps
    the rest, as long as nobody changed what was applied before; a strategic merge patch changes just the owners it names.
  \<^item> \<open>AppsTypes\<close>, \<open>ApiErrors\<close>, \<open>Pods\<close>: the API objects as records, \<open>client/errors.ts\<close>, \<open>retry.ts\<close>,
    \<open>cluster/api/v1/pod/util.ts\<close>, and the pod part of \<open>controller/controller-utils.ts\<close>. \<open>Expectations\<close>: the
    expectations of the same file, over two stores that satisfy \<open>store_contract\<close>.
  \<^item> \<open>ReplicaSets\<close>: \<open>controller/replicaset\<close>. \<open>DeploymentUtil\<close>, \<open>DeploymentController\<close>, \<open>DeploymentSync\<close>,
    \<open>DeploymentLaws\<close>: \<open>controller/deployment\<close>. A roll out keeps enough pods serving as long as no status lags behind
    an earlier scale-down, stays within the surge when it creates and when it scales, and makes progress; recreating
    waits for the old pods; a paused deployment creates nothing; clean up keeps the history.

  \<^bold>\<open>Bounds.\<close> Loops are structural or have a proved measure. Fuel occurs only as the count of attempts that
  the code has itself (\<open>retry\<close>, \<open>updateReplicaSetStatus\<close>).

  \<^bold>\<open>Interfaces.\<close> \<open>store_contract\<close> (what \<open>Cache\<close>, \<open>Expectations\<close> and the FIFO need of a store), \<open>heap_contract\<close>,
  \<open>queue_contract\<close>, \<open>rate_limiter\<close>, \<open>selector_contract\<close>, \<open>etcd_keys\<close>,
  \<open>keyed_store\<close> (what the storage classes need of the etcd), \<open>motion\<close> (relations that every operation respects)
  and \<open>tracker\<close> are locales, each interpreted on
  the definitions of the component that provides it.

  \<^bold>\<open>Not modelled.\<close> The kubelet and the container runtime, the pod network, informers, reflectors and
  channels are concurrent loops over promises and streams. The operations of the API server and of \<open>apply\<close>
  compose the modelled stores and patches and are not stated themselves; the garbage collector is not modelled.
\<close>

end
